(* ===== verification/Rmdb_Prelude.thy ===== *)
theory Rmdb_Prelude
  imports Main "HOL-Library.Word" "HOL-Library.AList"
begin

text \<open>
  The prelude of the RMDB development: the exceptions of \<^verbatim>\<open>errors.h\<close> as a datatype, the
  state-and-exception results every fallible operation of the model returns, the sequencing
  operator of such operations with its proof rules, and the generic facts on lists and
  association lists the components share.
\<close>

named_theorems rmdb_simps \<open>evaluation rules of the model's plumbing\<close>

section \<open>Exceptions\<close>

text \<open>
  One constructor per exception class of \<^verbatim>\<open>errors.h\<close> that the modelled code throws, and
  \<open>TransactionAbort\<close> for the \<^verbatim>\<open>TransactionAbortException\<close> of \<^verbatim>\<open>transaction/txn_defs.h\<close>. The last
  four are not exceptions of the program: \<open>AssertionFailure\<close> is a failing \<^verbatim>\<open>assert\<close>
  (the build keeps assertions on), \<open>OutOfRange\<close> is the \<^verbatim>\<open>std::out_of_range\<close>
  that the \<^verbatim>\<open>at\<close> of a standard container throws. \<open>NullDereference\<close> is the end of the
  process when a null pointer is used, \<open>NonTermination\<close> stands for a loop that is still
  running when the fuel of its model is spent.
\<close>

datatype abort_reason = LOCK_ON_SHIRINKING | UPGRADE_CONFLICT | DEADLOCK_PREVENTION

datatype rmdb_error =
    InternalError string
  | UnixError
  | FileNotOpenError int
  | FileNotClosedError string
  | FileExistsError string
  | FileNotFoundError string
  | RecordNotFoundError int int
  | InvalidRecordSizeError int
  | InvalidColLengthError int
  | IndexEntryNotFoundError
  | DatabaseNotFoundError string
  | DatabaseExistsError string
  | TableNotFoundError string
  | TableExistsError string
  | ColumnNotFoundError string
  | IndexNotFoundError string "string list"
  | IndexExistsError string "string list"
  | InvalidValueCountError
  | StringOverflowError
  | ValueOutOfRangeError string int
  | InvalidDateTimeError string
  | IncompatibleTypeError string string
  | AmbiguousColumnError string
  | PageNotExistError string int
  | TransactionAbort int abort_reason
  | AssertionFailure
  | OutOfRange
  | NullDereference
  | NonTermination

section \<open>Results of fallible, state-changing operations\<close>

text \<open>
  An operation that may throw returns the exception or its value, and in both cases the
  state it leaves behind: an exception does not undo what was done before it.
\<close>

type_synonym ('a, 's) res = "(rmdb_error + 'a) \<times> 's"

abbreviation Ret :: "'a \<Rightarrow> 's \<Rightarrow> ('a, 's) res" where
  "Ret x s \<equiv> (Inr x, s)"

abbreviation Throw :: "rmdb_error \<Rightarrow> 's \<Rightarrow> ('a, 's) res" where
  "Throw e s \<equiv> (Inl e, s)"

definition bindE :: "('a, 's) res \<Rightarrow> ('a \<Rightarrow> 's \<Rightarrow> ('b, 't) res) \<Rightarrow> ('s \<Rightarrow> 't) \<Rightarrow> ('b, 't) res" where
  "bindE m f leave =
     (case m of (Inl e, s) \<Rightarrow> Throw e (leave s) | (Inr x, s) \<Rightarrow> f x s)"

text \<open>
  \<open>bindE m f leave\<close> runs \<open>f\<close> after \<open>m\<close>; \<open>leave\<close> embeds the state of
  \<open>m\<close> into the state of the caller when \<open>m\<close> throws. \<open>seqE\<close> is the common case
  of one state type.
\<close>

abbreviation seqE :: "('a, 's) res \<Rightarrow> ('a \<Rightarrow> 's \<Rightarrow> ('b, 's) res) \<Rightarrow> ('b, 's) res" where
  "seqE m f \<equiv> bindE m f (\<lambda>s. s)"

lemma bindE_Ret [simp, rmdb_simps]: "bindE (Inr x, s) f l = f x s"
  by (simp add: bindE_def)

lemma bindE_Throw [simp, rmdb_simps]: "bindE (Inl e, s) f l = (Inl e, l s)"
  by (simp add: bindE_def)

lemma bindE_eq_Ret:
  "bindE m f l = (Inr y, t) \<longleftrightarrow> (\<exists>x s. m = (Inr x, s) \<and> f x s = (Inr y, t))"
  by (cases m; cases "fst m") (auto simp: bindE_def)

lemma bindE_eq_Throw:
  "bindE m f l = (Inl e, t) \<longleftrightarrow>
     (\<exists>s. m = (Inl e, s) \<and> t = l s) \<or> (\<exists>x s. m = (Inr x, s) \<and> f x s = (Inl e, t))"
  by (cases m; cases "fst m") (auto simp: bindE_def)

lemma bindE_cases [consumes 1, case_names Throw Ret]:
  assumes "bindE m f l = r"
  obtains e s where "m = (Inl e, s)" and "r = (Inl e, l s)"
    | x s where "m = (Inr x, s)" and "r = f x s"
  using assms by (cases m; cases "fst m") (auto simp: bindE_def)

text \<open>A property of the state that holds whether or not the operation throws.\<close>

lemma bindE_state:
  assumes "P (l (snd m))" and "\<And>x. m = (Inr x, snd m) \<Longrightarrow> P (snd (f x (snd m)))"
  shows "P (snd (bindE m f l))"
  using assms by (cases m; cases "fst m") (auto simp: bindE_def)

section \<open>Lists\<close>

lemma length_remove1_le: "length (remove1 x xs) \<le> length xs"
  by (simp add: length_remove1)

lemma distinct_subset_length:
  assumes "distinct xs" and "set xs \<subseteq> set ys"
  shows "length xs \<le> length ys"
proof -
  have "length xs = card (set xs)" using assms(1) by (simp add: distinct_card)
  also have "\<dots> \<le> card (set ys)" using assms(2) by (simp add: card_mono)
  also have "\<dots> \<le> length ys" by (rule card_length)
  finally show ?thesis .
qed

lemma distinct_int_bounded_length:
  assumes "distinct (xs :: int list)" and "set xs \<subseteq> {0..<int n}"
  shows "length xs \<le> n"
proof -
  have "length xs = card (set xs)" using assms(1) by (simp add: distinct_card)
  also have "\<dots> \<le> card {0..<int n}" by (rule card_mono) (use assms(2) in auto)
  finally show ?thesis by simp
qed

section \<open>Association lists, the model of the hash maps\<close>

text \<open>
  A \<^verbatim>\<open>std::unordered_map\<close> is an association list with distinct keys. The list's order stands
  for the (unspecified) iteration order of the container.
\<close>

lemma distinct_update_keys:
  "distinct (map fst al) \<Longrightarrow> distinct (map fst (AList.update k v al))"
  by (rule distinct_update)

lemma in_set_map_of_eq:
  "distinct (map fst al) \<Longrightarrow> (k, v) \<in> set al \<longleftrightarrow> map_of al k = Some v"
  by (auto simp: map_of_eq_Some_iff)

lemma distinct_map_delete [simp]:
  "distinct (map fst al) \<Longrightarrow> distinct (map fst (AList.delete k al))"
  by (rule distinct_delete)

lemma map_of_delete_eq [simp]:
  "map_of (AList.delete k al) k' = (if k' = k then None else map_of al k')"
  by (simp add: AList.delete_conv')

end
