(* ===== verification/Bytes.thy ===== *)
theory Bytes
  imports Rmdb_Prelude
begin

text \<open>
  Raw memory as the C++ code uses it: byte strings, \<^verbatim>\<open>memcpy\<close> and \<^verbatim>\<open>memcmp\<close> on them, and
  the little-endian representation of the machine integers the code stores by
  \<^verbatim>\<open>memcpy\<close> and reads back with \<^verbatim>\<open>reinterpret_cast\<close> (the build targets x86). A C++ \<^verbatim>\<open>int\<close>
  is an \<open>int\<close> of the model; storing it keeps its low 32 bits, reading it back sign-extends.
\<close>

type_synonym byte = "8 word"
type_synonym bytes = "byte list"

section \<open>Slices\<close>

definition slice :: "bytes \<Rightarrow> nat \<Rightarrow> nat \<Rightarrow> bytes" where
  "slice bs off n = take n (drop off bs)"

definition blit :: "bytes \<Rightarrow> nat \<Rightarrow> bytes \<Rightarrow> bytes" where
  "blit dst off src = take off dst @ src @ drop (off + length src) dst"

definition zeros :: "nat \<Rightarrow> bytes" where
  "zeros n = replicate n 0"

lemma length_zeros [simp]: "length (zeros n) = n"
  by (simp add: zeros_def)

lemma length_slice: "length (slice bs off n) = min n (length bs - off)"
  by (simp add: slice_def)

lemma length_slice_in [simp]: "off + n \<le> length bs \<Longrightarrow> length (slice bs off n) = n"
  by (simp add: slice_def)

lemma length_blit [simp]: "off + length src \<le> length dst \<Longrightarrow> length (blit dst off src) = length dst"
  by (simp add: blit_def)

lemma slice_blit_same [simp]:
  "off \<le> length dst \<Longrightarrow> n = length src \<Longrightarrow> slice (blit dst off src) off n = src"
  by (simp add: slice_def blit_def)

lemma slice_all [simp]: "n = length bs \<Longrightarrow> slice bs 0 n = bs"
  by (simp add: slice_def)

lemma blit_nil [simp]: "blit dst off [] = dst"
  by (simp add: blit_def)

lemma nth_slice: "i < n \<Longrightarrow> off + i < length bs \<Longrightarrow> slice bs off n ! i = bs ! (off + i)"
  by (simp add: slice_def)

lemma nth_blit:
  assumes "off + length src \<le> length dst" and "i < length dst"
  shows "blit dst off src ! i =
           (if off \<le> i \<and> i < off + length src then src ! (i - off) else dst ! i)"
  using assms by (auto simp: blit_def nth_append)

lemma slice_eqI:
  assumes "off + n \<le> length bs" and "off' + n \<le> length cs"
    and "\<And>i. i < n \<Longrightarrow> bs ! (off + i) = cs ! (off' + i)"
  shows "slice bs off n = slice cs off' n"
  by (rule nth_equalityI) (use assms in \<open>auto simp: nth_slice\<close>)

lemma slice_blit_other:
  assumes "off + length src \<le> length dst" and "o' + n \<le> length dst"
    and "o' + n \<le> off \<or> off + length src \<le> o'"
  shows "slice (blit dst off src) o' n = slice dst o' n"
  by (rule slice_eqI) (use assms in \<open>auto simp: nth_blit\<close>)

lemma slice_blit_in:
  assumes "off + length src \<le> length dst" and "off \<le> o'" and "o' + n \<le> off + length src"
  shows "slice (blit dst off src) o' n = slice src (o' - off) n"
  by (rule slice_eqI) (use assms in \<open>auto simp: nth_blit\<close>)

lemma slice_slice: "i + m \<le> n \<Longrightarrow> slice (slice bs off n) i m = slice bs (off + i) m"
  by (simp add: slice_def drop_take min_def add.commute)

lemma slice_append_left: "off + n \<le> length xs \<Longrightarrow> slice (xs @ ys) off n = slice xs off n"
  by (simp add: slice_def)

lemma slice_append_right: "off = length xs + o' \<Longrightarrow> slice (xs @ ys) off n = slice ys o' n"
  by (simp add: slice_def)

lemma blit_blit_same:
  assumes "off + length b \<le> length d" and "length a = length b"
  shows "blit (blit d off a) off b = blit d off b"
  by (rule nth_equalityI) (use assms in \<open>auto simp: nth_blit\<close>)

section \<open>memcmp\<close>

fun memcmp :: "bytes \<Rightarrow> bytes \<Rightarrow> int" where
  "memcmp (a # as) (b # bs) =
     (if a < b then -1 else if b < a then 1 else memcmp as bs)"
| "memcmp _ _ = 0"

lemma memcmp_refl [simp]: "memcmp a a = 0"
  by (induction a) auto

lemma memcmp_antisym: "length a = length b \<Longrightarrow> memcmp a b = - memcmp b a"
  by (induction a b rule: memcmp.induct) auto

lemma memcmp_eq_0: "length a = length b \<Longrightarrow> memcmp a b = 0 \<longleftrightarrow> a = b"
  by (induction a b rule: memcmp.induct) (auto split: if_splits)

lemma memcmp_range: "memcmp a b \<in> {-1, 0, 1}"
  by (induction a b rule: memcmp.induct) auto

lemma memcmp_trans_less:
  "length a = length b \<Longrightarrow> length b = length c \<Longrightarrow> memcmp a b < 0 \<Longrightarrow> memcmp b c < 0 \<Longrightarrow>
     memcmp a c < 0"
proof (induction a b arbitrary: c rule: memcmp.induct)
  case (1 x as y bs)
  from "1.prems" obtain z cs where c: "c = z # cs" and "length bs = length cs"
    by (cases c) auto
  with "1.prems" "1.IH" show ?case
    by (auto split: if_splits)
qed auto

section \<open>Little-endian integers\<close>

fun le_enc :: "nat \<Rightarrow> nat \<Rightarrow> bytes" where
  "le_enc 0 v = []"
| "le_enc (Suc k) v = of_nat (v mod 256) # le_enc k (v div 256)"

fun le_dec :: "bytes \<Rightarrow> nat" where
  "le_dec [] = 0"
| "le_dec (b # bs) = unat b + 256 * le_dec bs"

lemma length_le_enc [simp]: "length (le_enc k v) = k"
  by (induction k arbitrary: v) auto

lemma le_dec_enc: "le_dec (le_enc k v) = v mod 256 ^ k"
proof (induction k arbitrary: v)
  case 0
  show ?case by simp
next
  case (Suc k)
  have "unat (of_nat (v mod 256) :: byte) = v mod 256"
    by (simp add: unat_of_nat)
  with Suc show ?case
    by (simp add: mod_mult2_eq)
qed

definition enc_u32 :: "32 word \<Rightarrow> bytes" where
  "enc_u32 w = le_enc 4 (unat w)"

definition dec_u32 :: "bytes \<Rightarrow> 32 word" where
  "dec_u32 bs = of_nat (le_dec bs)"

definition enc_i32 :: "int \<Rightarrow> bytes" where
  "enc_i32 i = enc_u32 (word_of_int i)"

definition dec_i32 :: "bytes \<Rightarrow> int" where
  "dec_i32 bs = sint (dec_u32 bs)"

definition enc_i64 :: "int \<Rightarrow> bytes" where
  "enc_i64 i = le_enc 8 (unat (word_of_int i :: 64 word))"

definition dec_i64 :: "bytes \<Rightarrow> int" where
  "dec_i64 bs = sint (of_nat (le_dec bs) :: 64 word)"

lemma length_enc [simp]:
  "length (enc_u32 w) = 4" "length (enc_i32 i) = 4" "length (enc_i64 i) = 8"
  by (simp_all add: enc_u32_def enc_i32_def enc_i64_def)

lemma dec_enc_u32 [simp]: "dec_u32 (enc_u32 w) = w"
proof -
  have "unat w mod 256 ^ 4 = unat w"
    using unsigned_less [of w, where ?'a = nat] by simp
  then show ?thesis by (simp add: dec_u32_def enc_u32_def le_dec_enc)
qed

definition is_i32 :: "int \<Rightarrow> bool" where
  "is_i32 i \<longleftrightarrow> - (2 ^ 31) \<le> i \<and> i < 2 ^ 31"

definition is_i64 :: "int \<Rightarrow> bool" where
  "is_i64 i \<longleftrightarrow> - (2 ^ 63) \<le> i \<and> i < 2 ^ 63"

lemma dec_enc_i32 [simp]: "is_i32 i \<Longrightarrow> dec_i32 (enc_i32 i) = i"
  by (simp add: dec_i32_def enc_i32_def is_i32_def sint_sbintrunc' signed_take_bit_int_eq_self)

lemma dec_enc_i64 [simp]:
  assumes "is_i64 i"
  shows "dec_i64 (enc_i64 i) = i"
proof -
  let ?w = "word_of_int i :: 64 word"
  have "unat ?w mod 256 ^ 8 = unat ?w"
    using unsigned_less [of ?w, where ?'a = nat] by simp
  then show ?thesis using assms
    by (simp add: dec_i64_def enc_i64_def le_dec_enc is_i64_def sint_sbintrunc'
        signed_take_bit_int_eq_self)
qed

lemma is_i32_dec_i32 [simp]: "is_i32 (dec_i32 bs)"
  using sint_lt [of "dec_u32 bs"] sint_ge [of "dec_u32 bs"] by (simp add: dec_i32_def is_i32_def)

text \<open>A byte string of four bytes is the encoding of what it decodes to.\<close>

lemma le_enc_dec: "le_enc (length bs) (le_dec bs) = bs"
proof (induction bs)
  case (Cons b bs)
  have "unat b < 256" using unsigned_less [of b, where ?'a = nat] by simp
  with Cons show ?case by simp
qed simp

lemma le_dec_bound: "le_dec bs < 256 ^ length bs"
proof (induction bs)
  case (Cons b bs)
  have "unat b < 256" using unsigned_less [of b, where ?'a = nat] by simp
  with Cons show ?case by simp
qed simp

lemma enc_dec_u32: "length bs = 4 \<Longrightarrow> enc_u32 (dec_u32 bs) = bs"
  using le_enc_dec [of bs] le_dec_bound [of bs]
  by (simp add: enc_u32_def dec_u32_def unat_of_nat)

lemma enc_dec_i32: "length bs = 4 \<Longrightarrow> enc_i32 (dec_i32 bs) = bs"
  by (simp add: enc_i32_def dec_i32_def enc_dec_u32)

abbreviation get_i32 :: "bytes \<Rightarrow> nat \<Rightarrow> int" where
  "get_i32 bs off \<equiv> dec_i32 (slice bs off 4)"

abbreviation get_u32 :: "bytes \<Rightarrow> nat \<Rightarrow> 32 word" where
  "get_u32 bs off \<equiv> dec_u32 (slice bs off 4)"

abbreviation get_i64 :: "bytes \<Rightarrow> nat \<Rightarrow> int" where
  "get_i64 bs off \<equiv> dec_i64 (slice bs off 8)"

abbreviation put_i32 :: "bytes \<Rightarrow> nat \<Rightarrow> int \<Rightarrow> bytes" where
  "put_i32 bs off v \<equiv> blit bs off (enc_i32 v)"

end
