(* ===== verification/Disk.thy ===== *)
theory Disk
  imports Bytes "HOL-Library.Signed_Division"
begin

text \<open>
  \<^verbatim>\<open>DiskManager\<close> (\<^verbatim>\<open>storage/disk_manager.h\<close>, \<^verbatim>\<open>storage/disk_manager.cpp\<close>) over a model of the
  POSIX calls it makes. The operating system is part of the state: the regular files, the
  kernel's descriptor table and a script of the outcomes of the coming system calls. Each call
  consumes one event of the script: \<open>Xfer n\<close> lets a transfer move at most \<open>n + 1\<close> bytes (a
  short read or write), \<open>Eintr\<close> interrupts it, \<open>Eio\<close> makes it fail with an errno the code
  does not treat specially (for \<^verbatim>\<open>pwrite\<close> also the return value 0, which the code treats alike).
  When the script is used up every call succeeds in full. The directory operations
  (\<^verbatim>\<open>is_dir\<close>, \<^verbatim>\<open>create_dir\<close>, \<^verbatim>\<open>destroy_dir\<close>) are with the system manager, whose state has the directories.
\<close>

section \<open>Constants of common/config.h\<close>

definition INVALID_LSN :: int where
  "INVALID_LSN = -1"

definition INVALID_PAGE_ID :: int where "INVALID_PAGE_ID = -1"

definition PAGE_SIZE :: nat where "PAGE_SIZE = 4096"

definition MAX_FD :: int where "MAX_FD = 8192"

definition LOG_FILE_NAME :: string where "LOG_FILE_NAME = ''db.log''"

lemma PAGE_SIZE_pos [simp]: "0 < PAGE_SIZE" "PAGE_SIZE \<noteq> 0"
  by (simp_all add: PAGE_SIZE_def)

text \<open>Conversion to a 32-bit \<^verbatim>\<open>int\<close>, and the wrap-around of an atomic increment.\<close>

definition wrap32 :: "int \<Rightarrow> int" where
  "wrap32 i = sint (word_of_int i :: 32 word)"

lemma wrap32_id [simp]: "is_i32 i \<Longrightarrow> wrap32 i = i"
  by (simp add: wrap32_def is_i32_def sint_sbintrunc' signed_take_bit_int_eq_self)

section \<open>Files and system calls\<close>

datatype io_event = Xfer nat | Eintr | Eio

text \<open>Overwriting a file from an offset on; a gap after the old end is filled with zeros.\<close>

definition file_put :: "bytes \<Rightarrow> nat \<Rightarrow> bytes \<Rightarrow> bytes" where
  "file_put c off bs =
     (if bs = [] then c else blit (c @ zeros (off + length bs - length c)) off bs)"

lemma length_file_put:
  "length (file_put c off bs) = (if bs = [] then length c else max (length c) (off + length bs))"
  by (auto simp: file_put_def blit_def)

lemma nth_file_put:
  assumes "i < length (file_put c off bs)"
  shows "file_put c off bs ! i =
    (if off \<le> i \<and> i < off + length bs then bs ! (i - off) else if i < length c then c ! i else 0)"
proof (cases "bs = []")
  case True
  with assms show ?thesis by (auto simp: file_put_def)
next
  case False
  let ?c = "c @ zeros (off + length bs - length c)"
  have i: "i < length ?c" using assms False by (auto simp: file_put_def blit_def)
  have "blit ?c off bs ! i = (if off \<le> i \<and> i < off + length bs then bs ! (i - off) else ?c ! i)"
    by (rule nth_blit) (use i in auto)
  moreover have "?c ! i = (if i < length c then c ! i else 0)"
    using i by (auto simp: nth_append zeros_def)
  ultimately show ?thesis using False by (simp add: file_put_def)
qed

lemma file_put_append:
  "file_put (file_put c off xs) (off + length xs) ys = file_put c off (xs @ ys)"
proof (rule nth_equalityI)
  show "length (file_put (file_put c off xs) (off + length xs) ys) =
      length (file_put c off (xs @ ys))"
    by (auto simp: length_file_put)
next
  fix i
  assume i: "i < length (file_put (file_put c off xs) (off + length xs) ys)"
  then have "i < length (file_put c off (xs @ ys))"
    by (auto simp: length_file_put split: if_splits)
  with i show "file_put (file_put c off xs) (off + length xs) ys ! i = file_put c off (xs @ ys) ! i"
    by (auto simp: nth_file_put nth_append length_file_put split: if_splits)
qed

text \<open>
  What a page-sized read of a file returns: the bytes that are there, zeros after the end.
\<close>

definition file_get :: "bytes \<Rightarrow> nat \<Rightarrow> nat \<Rightarrow> bytes" where
  "file_get c off n = slice c off n @ zeros (n - (length c - off))"

lemma length_file_get [simp]: "length (file_get c off n) = n"
  by (auto simp: file_get_def length_slice)

lemma nth_file_get:
  "i < n \<Longrightarrow> file_get c off n ! i = (if off + i < length c then c ! (off + i) else 0)"
  by (auto simp: file_get_def slice_def zeros_def nth_append)

lemma file_get_put_same: "n = length bs \<Longrightarrow> file_get (file_put c off bs) off n = bs"
  by (rule nth_equalityI) (auto simp: nth_file_get nth_file_put length_file_put)

lemma file_get_put_other:
  assumes "o' + n \<le> off \<or> off + length bs \<le> o'"
  shows "file_get (file_put c off bs) o' n = file_get c o' n"
proof (cases "bs = []")
  case False
  show ?thesis
    by (rule nth_equalityI) (use assms False in \<open>auto simp: nth_file_get nth_file_put length_file_put\<close>)
qed (simp add: file_put_def)

lemma file_get_beyond: "length c \<le> off \<Longrightarrow> file_get c off n = zeros n"
  by (simp add: file_get_def slice_def)

text \<open>The retry loop of \<^verbatim>\<open>write_page\<close>: \<open>tot\<close> bytes of \<open>buf\<close> are already in the file.\<close>

fun write_page_loop :: "io_event list \<Rightarrow> bytes \<Rightarrow> nat \<Rightarrow> bytes \<Rightarrow> nat \<Rightarrow> bool \<times> bytes \<times> io_event list"
where
  "write_page_loop [] file file_offset buf tot =
     (if tot < length buf
      then (True, file_put file (file_offset + tot) (drop tot buf), [])
      else (True, file, []))"
| "write_page_loop (e # ev) file file_offset buf tot =
     (if tot < length buf
      then (case e of
              Eintr \<Rightarrow> write_page_loop ev file file_offset buf tot
            | Eio \<Rightarrow> (False, file, ev)
            | Xfer n \<Rightarrow>
                let written = min (Suc n) (length buf - tot)
                in write_page_loop ev
                     (file_put file (file_offset + tot) (slice buf tot written))
                     file_offset buf (tot + written))
      else (True, file, e # ev))"

text \<open>The retry loop of \<^verbatim>\<open>read_page\<close>: \<open>got\<close> is what the destination holds so far.\<close>

fun read_page_loop :: "io_event list \<Rightarrow> bytes \<Rightarrow> nat \<Rightarrow> nat \<Rightarrow> bytes \<Rightarrow> bool \<times> bytes \<times> io_event list"
where
  "read_page_loop [] file file_offset num_bytes got =
     (if length got < num_bytes
      then (True, got @ file_get file (file_offset + length got) (num_bytes - length got), [])
      else (True, got, []))"
| "read_page_loop (e # ev) file file_offset num_bytes got =
     (if length got < num_bytes
      then (case e of
              Eintr \<Rightarrow> read_page_loop ev file file_offset num_bytes got
            | Eio \<Rightarrow> (False, got, ev)
            | Xfer n \<Rightarrow>
                let chunk = slice file (file_offset + length got) (min (Suc n) (num_bytes - length got))
                in if chunk = [] then (True, got @ zeros (num_bytes - length got), ev)
                   else read_page_loop ev file file_offset num_bytes (got @ chunk))
      else (True, got, e # ev))"

section \<open>The disk manager\<close>

record disk =
  fs :: "string \<rightharpoonup> bytes"
  kfd :: "(int \<times> string) list"
  io :: "io_event list"
  path2fd :: "string \<rightharpoonup> int"
  fd2path :: "int \<rightharpoonup> string"
  log_fd :: int
  fd2pageno :: "int \<Rightarrow> int"

definition DiskManager :: "(string \<rightharpoonup> bytes) \<Rightarrow> (int \<times> string) list \<Rightarrow> io_event list \<Rightarrow> disk" where
  "DiskManager files descriptors script =
     \<lparr>fs = files, kfd = descriptors, io = script, path2fd = Map.empty, fd2path = Map.empty,
      log_fd = -1, fd2pageno = (\<lambda>_. 0)\<rparr>"

text \<open>The content of the file behind a descriptor.\<close>

definition fd_file :: "disk \<Rightarrow> int \<Rightarrow> bytes option" where
  "fd_file d fd = (case map_of (kfd d) fd of None \<Rightarrow> None | Some p \<Rightarrow> fs d p)"

definition set_fd_file :: "disk \<Rightarrow> int \<Rightarrow> bytes \<Rightarrow> disk" where
  "set_fd_file d fd c =
     (case map_of (kfd d) fd of None \<Rightarrow> d | Some p \<Rightarrow> d\<lparr>fs := (fs d)(p \<mapsto> c)\<rparr>)"

definition write_page :: "int \<Rightarrow> int \<Rightarrow> bytes \<Rightarrow> disk \<Rightarrow> (unit, disk) res" where
  "write_page fd page_no buf d =
     (if buf = [] then Ret () d
      else case fd_file d fd of
             None \<Rightarrow> Throw (InternalError ''DiskManager::write_page Error'') d
           | Some c \<Rightarrow>
               if page_no < 0 then Throw (InternalError ''DiskManager::write_page Error'') d
               else (case write_page_loop (io d) c (nat page_no * PAGE_SIZE) buf 0 of
                       (ok, c', ev) \<Rightarrow>
                         let d' = (set_fd_file d fd c')\<lparr>io := ev\<rparr>
                         in if ok then Ret () d'
                            else Throw (InternalError ''DiskManager::write_page Error'') d'))"

text \<open>
  The destination buffer is returned together with the disk: when the call throws, the part
  already read has overwritten the start of the buffer.
\<close>

definition read_page :: "int \<Rightarrow> int \<Rightarrow> bytes \<Rightarrow> disk \<Rightarrow> (unit, bytes \<times> disk) res" where
  "read_page fd page_no dest d =
     (if dest = [] then Ret () (dest, d)
      else case fd_file d fd of
             None \<Rightarrow> Throw (InternalError ''DiskManager::read_page Error'') (dest, d)
           | Some c \<Rightarrow>
               if page_no < 0 then Throw (InternalError ''DiskManager::read_page Error'') (dest, d)
               else (case read_page_loop (io d) c (nat page_no * PAGE_SIZE) (length dest) [] of
                       (ok, got, ev) \<Rightarrow>
                         if ok then Ret () (got, d\<lparr>io := ev\<rparr>)
                         else Throw (InternalError ''DiskManager::read_page Error'')
                                (blit dest 0 got, d\<lparr>io := ev\<rparr>)))"

definition allocate_page :: "int \<Rightarrow> disk \<Rightarrow> (int, disk) res" where
  "allocate_page fd d =
     (if fd \<ge> 0 \<and> fd < MAX_FD
      then Ret (fd2pageno d fd) (d\<lparr>fd2pageno := (fd2pageno d)(fd := wrap32 (fd2pageno d fd + 1))\<rparr>)
      else Throw AssertionFailure d)"

definition deallocate_page :: "int \<Rightarrow> disk \<Rightarrow> disk" where
  "deallocate_page page_id d = d"

definition set_fd2pageno :: "int \<Rightarrow> int \<Rightarrow> disk \<Rightarrow> disk" where
  "set_fd2pageno fd start_page_no d = d\<lparr>fd2pageno := (fd2pageno d)(fd := start_page_no)\<rparr>"

definition SetLogFd :: "int \<Rightarrow> disk \<Rightarrow> disk" where
  "SetLogFd fd d = d\<lparr>log_fd := fd\<rparr>"

definition get_fd2pageno :: "int \<Rightarrow> disk \<Rightarrow> int" where
  "get_fd2pageno fd d = fd2pageno d fd"

text \<open>One event of the script decides whether a call that transfers nothing fails.\<close>

definition sys_ok :: "disk \<Rightarrow> bool \<times> disk" where
  "sys_ok d = (case io d of [] \<Rightarrow> (True, d) | e # ev \<Rightarrow> (e \<noteq> Eio, d\<lparr>io := ev\<rparr>))"

text \<open>\<^verbatim>\<open>open\<close> returns the lowest descriptor that is not in use (0, 1 and 2 are the standard streams).\<close>

definition lowest_fd :: "disk \<Rightarrow> int" where
  "lowest_fd d = hd (filter (\<lambda>n. n \<notin> fst ` set (kfd d)) [3..3 + int (length (kfd d))])"

definition get_file_size :: "string \<Rightarrow> disk \<Rightarrow> int" where
  "get_file_size file_name d =
     (case fs d file_name of Some c \<Rightarrow> wrap32 (int (length c)) | None \<Rightarrow> -1)"

definition is_file :: "string \<Rightarrow> disk \<Rightarrow> bool" where
  "is_file path d \<longleftrightarrow> fs d path \<noteq> None"

definition create_file :: "string \<Rightarrow> disk \<Rightarrow> (unit, disk) res" where
  "create_file path d =
     (if fs d path \<noteq> None then Throw (FileExistsError path) d
      else case sys_ok d of
             (False, d1) \<Rightarrow> Throw UnixError d1
           | (True, d1) \<Rightarrow>
               (case sys_ok (d1\<lparr>fs := (fs d1)(path \<mapsto> [])\<rparr>) of
                  (False, d2) \<Rightarrow> Throw UnixError d2
                | (True, d2) \<Rightarrow> Ret () d2))"

definition destroy_file :: "string \<Rightarrow> disk \<Rightarrow> (unit, disk) res" where
  "destroy_file path d =
     (if path2fd d path \<noteq> None then Throw (FileNotClosedError path) d
      else if fs d path = None then Throw (FileNotFoundError path) d
      else case sys_ok d of
             (False, d1) \<Rightarrow> Throw UnixError d1
           | (True, d1) \<Rightarrow> Ret () (d1\<lparr>fs := (fs d1)(path := None)\<rparr>))"

definition open_file :: "string \<Rightarrow> disk \<Rightarrow> (int, disk) res" where
  "open_file path d =
     (if path2fd d path \<noteq> None then Throw (FileNotClosedError path) d
      else if fs d path = None then Throw (FileNotFoundError path) d
      else case sys_ok d of
             (False, d1) \<Rightarrow> Throw UnixError d1
           | (True, d1) \<Rightarrow>
               let fd = lowest_fd d1 in
               if fd \<ge> MAX_FD
               then Throw (InternalError ''file descriptor exceeds DiskManager limit'') d1
               else let d2 = d1\<lparr>kfd := (fd, path) # kfd d1,
                                path2fd := (path2fd d1)(path \<mapsto> fd),
                                fd2path := (fd2path d1)(fd \<mapsto> path)\<rparr>;
                        file_size = get_file_size path d2
                    in Ret fd (d2\<lparr>fd2pageno := (fd2pageno d2)
                          (fd := (file_size + int PAGE_SIZE - 1) sdiv int PAGE_SIZE)\<rparr>))"

definition close_file :: "int \<Rightarrow> disk \<Rightarrow> (unit, disk) res" where
  "close_file fd d =
     (case fd2path d fd of
        None \<Rightarrow> Throw (FileNotOpenError fd) d
      | Some path \<Rightarrow>
          (case sys_ok d of
             (False, d1) \<Rightarrow> Throw UnixError d1
           | (True, d1) \<Rightarrow>
               if map_of (kfd d1) fd = None then Throw UnixError d1
               else Ret () (d1\<lparr>kfd := AList.delete fd (kfd d1),
                              fd2path := (fd2path d1)(fd := None),
                              path2fd := (path2fd d1)(path := None),
                              log_fd := (if log_fd d1 = fd then -1 else log_fd d1)\<rparr>)))"

definition get_file_name :: "int \<Rightarrow> disk \<Rightarrow> (string, disk) res" where
  "get_file_name fd d =
     (case fd2path d fd of None \<Rightarrow> Throw (FileNotOpenError fd) d | Some p \<Rightarrow> Ret p d)"

definition get_file_fd :: "string \<Rightarrow> disk \<Rightarrow> (int, disk) res" where
  "get_file_fd file_name d =
     (case path2fd d file_name of None \<Rightarrow> open_file file_name d | Some fd \<Rightarrow> Ret fd d)"

subsection \<open>The log file\<close>

text \<open>The lazy opening of the log that the three log operations start with.\<close>

definition ensure_log :: "disk \<Rightarrow> (unit, disk) res" where
  "ensure_log d =
     (if log_fd d = -1
      then seqE (open_file LOG_FILE_NAME d) (\<lambda>fd d1. Ret () (d1\<lparr>log_fd := fd\<rparr>))
      else Ret () d)"

text \<open>
  \<^verbatim>\<open>read_log\<close> returns the number of bytes read and the bytes; -1 when the offset is past the
  end. A short or failing \<^verbatim>\<open>read\<close> violates its assertion.
\<close>

definition read_log :: "int \<Rightarrow> int \<Rightarrow> disk \<Rightarrow> (int \<times> bytes, disk) res" where
  "read_log sz offset d =
     seqE (ensure_log d) (\<lambda>_ d1.
       let file_size = get_file_size LOG_FILE_NAME d1 in
       if offset > file_size then Ret (-1, []) d1
       else let size' = min sz (file_size - offset) in
            if size' = 0 then Ret (0, []) d1
            else case fd_file d1 (log_fd d1) of
                   None \<Rightarrow> Throw AssertionFailure d1
                 | Some c \<Rightarrow>
                     let chunk = slice c (nat offset) (nat size') in
                     (case io d1 of
                        [] \<Rightarrow> Ret (size', chunk) d1
                      | Xfer n # ev \<Rightarrow>
                          if nat size' \<le> Suc n then Ret (size', chunk) (d1\<lparr>io := ev\<rparr>)
                          else Throw AssertionFailure (d1\<lparr>io := ev\<rparr>)
                      | e # ev \<Rightarrow> Throw AssertionFailure (d1\<lparr>io := ev\<rparr>)))"

definition write_log :: "bytes \<Rightarrow> disk \<Rightarrow> (unit, disk) res" where
  "write_log log_data d =
     seqE (ensure_log d) (\<lambda>_ d1.
       case fd_file d1 (log_fd d1) of
         None \<Rightarrow> Throw UnixError d1
       | Some c \<Rightarrow>
           (case io d1 of
              [] \<Rightarrow> Ret () (set_fd_file d1 (log_fd d1) (c @ log_data))
            | Xfer n # ev \<Rightarrow>
                let d2 = (set_fd_file d1 (log_fd d1) (c @ take (Suc n) log_data))\<lparr>io := ev\<rparr>
                in if length log_data \<le> Suc n then Ret () d2 else Throw UnixError d2
            | e # ev \<Rightarrow> Throw UnixError (d1\<lparr>io := ev\<rparr>)))"

definition reset_log :: "disk \<Rightarrow> (unit, disk) res" where
  "reset_log d =
     seqE (ensure_log d) (\<lambda>_ d1.
       if fd_file d1 (log_fd d1) = None then Throw UnixError d1
       else case sys_ok d1 of
              (False, d2) \<Rightarrow> Throw UnixError d2
            | (True, d2) \<Rightarrow>
                (case sys_ok (set_fd_file d2 (log_fd d2) []) of
                   (False, d3) \<Rightarrow> Throw UnixError d3
                 | (True, d3) \<Rightarrow> Ret () d3))"

section \<open>Page transfers\<close>

lemma page_offsets_disjoint:
  assumes "0 \<le> p" and "0 \<le> q" and "q \<noteq> p" and "n \<le> PAGE_SIZE"
  shows "nat q * PAGE_SIZE + PAGE_SIZE \<le> nat p * PAGE_SIZE \<or>
         nat p * PAGE_SIZE + n \<le> nat q * PAGE_SIZE"
proof -
  have "nat q < nat p \<or> nat p < nat q" using assms by auto
  then have "Suc (nat q) * PAGE_SIZE \<le> nat p * PAGE_SIZE \<or> Suc (nat p) * PAGE_SIZE \<le> nat q * PAGE_SIZE"
    by (metis Suc_leI mult_le_mono1)
  with assms(4) show ?thesis by auto
qed

text \<open>The page a descriptor's file holds under a page number.\<close>

definition disk_page :: "disk \<Rightarrow> int \<Rightarrow> int \<Rightarrow> bytes" where
  "disk_page d fd page_no =
     (case fd_file d fd of
        None \<Rightarrow> zeros PAGE_SIZE
      | Some c \<Rightarrow> file_get c (nat page_no * PAGE_SIZE) PAGE_SIZE)"

lemma slice_append_drop: "slice buf t w @ drop (t + w) buf = drop t buf"
  by (simp add: slice_def add.commute [of t] drop_drop [symmetric] del: drop_drop)

lemma write_page_loop_prefix:
  assumes "write_page_loop ev c off buf tot = (ok, c', ev')"
  shows "\<exists>k. c' = file_put c (off + tot) (take k (drop tot buf)) \<and>
             (ok \<longrightarrow> take k (drop tot buf) = drop tot buf) \<and> set ev' \<subseteq> set ev"
  using assms
proof (induction ev c off buf tot rule: write_page_loop.induct)
  case (1 c off buf tot)
  then show ?case
    by (intro exI [of _ "length buf"]) (auto simp: file_put_def split: if_splits)
next
  case (2 e ev c off buf tot)
  show ?case
  proof (cases "tot < length buf")
    case False
    with "2.prems" show ?thesis by (auto simp: file_put_def)
  next
    case True
    show ?thesis
    proof (cases e)
      case Eintr
      with True "2.prems" have "write_page_loop ev c off buf tot = (ok, c', ev')" by simp
      from "2.IH"(2) [OF True Eintr this] show ?thesis by auto
    next
      case Eio
      with True "2.prems" show ?thesis by (intro exI [of _ 0]) (auto simp: file_put_def)
    next
      case (Xfer n)
      define w where "w = min (Suc n) (length buf - tot)"
      let ?c = "file_put c (off + tot) (slice buf tot w)"
      have w: "length (slice buf tot w) = w" by (simp add: w_def length_slice)
      from True Xfer "2.prems" have "write_page_loop ev ?c off buf (tot + w) = (ok, c', ev')"
        by (simp add: w_def Let_def)
      with "2.IH"(1) [OF True Xfer w_def] obtain k where
        k: "c' = file_put ?c (off + (tot + w)) (take k (drop (tot + w) buf))"
          "ok \<longrightarrow> take k (drop (tot + w) buf) = drop (tot + w) buf" "set ev' \<subseteq> set ev"
        by auto
      have "c' = file_put c (off + tot) (slice buf tot w @ take k (drop (tot + w) buf))"
        using k(1) file_put_append [of c "off + tot" "slice buf tot w"] w by (simp add: add.assoc)
      moreover have "slice buf tot w @ take k (drop (tot + w) buf) = take (w + k) (drop tot buf)"
        by (simp add: slice_def take_add [of w k] drop_drop add.commute [of w tot])
      moreover have "take (w + k) (drop tot buf) = drop tot buf" if ok
        using that k(2) calculation(2) slice_append_drop by metis
      ultimately show ?thesis using k(3) by (intro exI [of _ "w + k"]) auto
    qed
  qed
qed

lemma write_page_loop_succeeds:
  "Eio \<notin> set ev \<Longrightarrow> fst (write_page_loop ev c off buf tot)"
  by (induction ev c off buf tot rule: write_page_loop.induct)
    (auto simp: Let_def split: io_event.splits)

lemma write_page_loop_atomic:
  assumes "Eio \<notin> set ev"
  obtains ev' where "write_page_loop ev c off buf 0 = (True, file_put c off buf, ev')"
    and "set ev' \<subseteq> set ev"
proof -
  obtain ok c' ev' where r: "write_page_loop ev c off buf 0 = (ok, c', ev')" by (metis prod_cases3)
  with write_page_loop_succeeds [OF assms, of c off buf 0] have ok by simp
  with write_page_loop_prefix [OF r] r that show thesis by auto
qed

lemma file_get_append: "file_get c off a @ file_get c (off + a) b = file_get c off (a + b)"
  by (rule nth_equalityI) (auto simp: nth_append nth_file_get)

lemma slice_is_file_get:
  "slice c off k = file_get c off (length (slice c off k))"
  by (rule nth_equalityI) (auto simp: nth_file_get length_slice nth_slice)

lemma read_page_loop_ok:
  assumes "read_page_loop ev c off n got = (True, got', ev')" and "length got \<le> n"
  shows "got' = got @ file_get c (off + length got) (n - length got) \<and> set ev' \<subseteq> set ev"
  using assms
proof (induction ev c off n got rule: read_page_loop.induct)
  case (1 c off n got)
  then show ?case by (auto simp: file_get_def slice_def zeros_def split: if_splits)
next
  case (2 e ev c off n got)
  show ?case
  proof (cases "length got < n")
    case False
    with "2.prems" show ?thesis by (auto simp: file_get_def slice_def zeros_def)
  next
    case True
    show ?thesis
    proof (cases e)
      case Eintr
      with True "2.prems" have "read_page_loop ev c off n got = (True, got', ev')" by simp
      from "2.IH"(2) [OF True Eintr this "2.prems"(2)] show ?thesis by auto
    next
      case Eio
      with True "2.prems" show ?thesis by auto
    next
      case (Xfer k)
      define ch where "ch = slice c (off + length got) (min (Suc k) (n - length got))"
      show ?thesis
      proof (cases "ch = []")
        case True
        with \<open>length got < n\<close> have "length c \<le> off + length got"
          by (auto simp: ch_def slice_def min_def split: if_splits)
        with True Xfer \<open>length got < n\<close> "2.prems" show ?thesis
          by (auto simp: ch_def file_get_beyond)
      next
        case False
        have len: "length (got @ ch) \<le> n"
          using \<open>length got < n\<close> by (auto simp: ch_def length_slice)
        from False Xfer \<open>length got < n\<close> "2.prems"
        have "read_page_loop ev c off n (got @ ch) = (True, got', ev')"
          by (simp add: ch_def Let_def)
        with "2.IH"(1) [OF \<open>length got < n\<close> Xfer ch_def False] len
        have g: "got' = (got @ ch) @ file_get c (off + length (got @ ch)) (n - length (got @ ch))"
          and ev: "set ev' \<subseteq> set ev" by blast+
        have "ch = file_get c (off + length got) (length ch)"
          unfolding ch_def by (rule slice_is_file_get)
        then have "got' = got @ file_get c (off + length got) (length ch + (n - length (got @ ch)))"
          using g file_get_append [of c "off + length got" "length ch" "n - length (got @ ch)"]
          by (simp add: add.assoc)
        moreover have "length ch + (n - length (got @ ch)) = n - length got"
          using len by simp
        ultimately show ?thesis using ev by auto
      qed
    qed
  qed
qed

lemma read_page_loop_length:
  "read_page_loop ev c off n got = (ok, got', ev') \<Longrightarrow> length got \<le> n \<Longrightarrow> length got' \<le> n"
proof (induction ev c off n got rule: read_page_loop.induct)
  case (1 c off n got)
  then show ?case by (auto split: if_splits)
next
  case (2 e ev c off n got)
  show ?case
  proof (cases "length got < n")
    case True
    have "length got + min (min (Suc k) (n - length got)) (length c - (off + length got)) \<le> n" for k
      using True by linarith
    with 2 True show ?thesis
      by (auto simp: Let_def length_slice split: io_event.splits if_splits)
  qed (use 2 in simp)
qed

lemma read_page_loop_succeeds:
  "Eio \<notin> set ev \<Longrightarrow> fst (read_page_loop ev c off n got)"
  by (induction ev c off n got rule: read_page_loop.induct)
    (auto simp: Let_def split: io_event.splits)

lemma fd_file_io [simp]: "fd_file (d\<lparr>io := ev\<rparr>) fd = fd_file d fd"
  by (simp add: fd_file_def split: option.split)

lemma fd_file_set:
  assumes "fd_file d fd = Some c"
  shows "fd_file (set_fd_file d fd c') fd = Some c'"
  using assms by (auto simp: fd_file_def set_fd_file_def split: option.splits)

lemma kfd_set_fd_file [simp]:
  "kfd (set_fd_file d fd c) = kfd d" "io (set_fd_file d fd c) = io d"
  "path2fd (set_fd_file d fd c) = path2fd d" "fd2path (set_fd_file d fd c) = fd2path d"
  "log_fd (set_fd_file d fd c) = log_fd d" "fd2pageno (set_fd_file d fd c) = fd2pageno d"
  by (simp_all add: set_fd_file_def split: option.split)

lemma fd_file_set_other:
  assumes "map_of (kfd d) fd' \<noteq> map_of (kfd d) fd"
  shows "fd_file (set_fd_file d fd c') fd' = fd_file d fd'"
  using assms by (auto simp: fd_file_def set_fd_file_def split: option.splits)

text \<open>
  \<open>io_clean\<close>: no coming call fails for good. Short transfers and interrupts may still happen.
\<close>

definition io_clean :: "disk \<Rightarrow> bool" where
  "io_clean d \<longleftrightarrow> Eio \<notin> set (io d)"

lemma io_clean_subset: "io_clean d \<Longrightarrow> set (io d') \<subseteq> set (io d) \<Longrightarrow> io_clean d'"
  by (auto simp: io_clean_def)

lemma write_page_clean:
  assumes "io_clean d" and "fd_file d fd = Some c" and "0 \<le> page_no"
  shows "\<exists>ev. set ev \<subseteq> set (io d) \<and> write_page fd page_no buf d =
           Ret () ((set_fd_file d fd (file_put c (nat page_no * PAGE_SIZE) buf))\<lparr>io := ev\<rparr>)"
proof (cases "buf = []")
  case True
  have "(set_fd_file d fd c)\<lparr>io := io d\<rparr> = d"
    using assms(2) by (auto simp: set_fd_file_def fd_file_def map_upd_triv split: option.splits)
  with True show ?thesis
    by (intro exI [of _ "io d"]) (simp add: write_page_def file_put_def)
next
  case False
  from assms(1) have "Eio \<notin> set (io d)" by (simp add: io_clean_def)
  then obtain ev where "write_page_loop (io d) c (nat page_no * PAGE_SIZE) buf 0 =
      (True, file_put c (nat page_no * PAGE_SIZE) buf, ev)" and "set ev \<subseteq> set (io d)"
    by (rule write_page_loop_atomic)
  with False assms show ?thesis by (auto simp: write_page_def Let_def)
qed

lemma read_page_clean:
  assumes "io_clean d" and "fd_file d fd = Some c" and "0 \<le> page_no"
  shows "\<exists>ev. set ev \<subseteq> set (io d) \<and> read_page fd page_no dest d =
           Ret () (file_get c (nat page_no * PAGE_SIZE) (length dest), d\<lparr>io := ev\<rparr>)"
proof (cases "dest = []")
  case True
  then show ?thesis
    by (intro exI [of _ "io d"]) (simp add: read_page_def file_get_def slice_def zeros_def)
next
  case False
  let ?off = "nat page_no * PAGE_SIZE"
  obtain ok got ev where r: "read_page_loop (io d) c ?off (length dest) [] = (ok, got, ev)"
    by (metis prod_cases3)
  with read_page_loop_succeeds [of "io d" c ?off "length dest" "[]"] assms(1) have ok
    by (simp add: io_clean_def)
  with read_page_loop_ok [of "io d" c ?off "length dest" "[]" got ev] r
  have "got = file_get c ?off (length dest)" and "set ev \<subseteq> set (io d)" by auto
  with False assms r \<open>ok\<close> show ?thesis by (auto simp: read_page_def)
qed

text \<open>Whatever happens, a page write changes at most the bytes of its own page.\<close>

lemma write_page_others:
  assumes "fd_file d fd = Some c" and "0 \<le> page_no" and "write_page fd page_no buf d = (r, d')"
  shows "\<exists>k. fd_file d' fd = Some (file_put c (nat page_no * PAGE_SIZE) (take k buf))"
proof (cases "buf = []")
  case True
  with assms show ?thesis by (auto simp: write_page_def file_put_def)
next
  case False
  obtain ok c' ev where l: "write_page_loop (io d) c (nat page_no * PAGE_SIZE) buf 0 = (ok, c', ev)"
    by (metis prod_cases3)
  from write_page_loop_prefix [OF l] obtain k where
    "c' = file_put c (nat page_no * PAGE_SIZE) (take k buf)" by auto
  with False assms l show ?thesis
    by (auto simp: write_page_def Let_def fd_file_set split: if_splits)
qed

text \<open>
  Claim C5. \<^verbatim>\<open>write_page\<close> completes in spite of short writes and interrupts and then has the
  effect of one atomic overwrite of the page: a following \<^verbatim>\<open>read_page\<close>, itself subject to
  short reads and interrupts, returns exactly the bytes written, and every other page of the
  file reads as before.
\<close>

theorem write_page_read_page:
  assumes "io_clean d" and "fd_file d fd \<noteq> None" and "0 \<le> p" and "length buf = PAGE_SIZE"
    and "length dest = PAGE_SIZE"
  shows "\<exists>d1 d2. write_page fd p buf d = Ret () d1 \<and> io_clean d1 \<and>
           read_page fd p dest d1 = Ret () (buf, d2) \<and>
           (\<forall>q. 0 \<le> q \<longrightarrow> q \<noteq> p \<longrightarrow> disk_page d1 fd q = disk_page d fd q)"
proof -
  from assms(2) obtain c where c: "fd_file d fd = Some c" by auto
  let ?c = "file_put c (nat p * PAGE_SIZE) buf"
  obtain ev where ev: "set ev \<subseteq> set (io d)"
    and w: "write_page fd p buf d = Ret () ((set_fd_file d fd ?c)\<lparr>io := ev\<rparr>)"
    using write_page_clean [OF assms(1) c assms(3)] by metis
  let ?d = "(set_fd_file d fd ?c)\<lparr>io := ev\<rparr>"
  have f: "fd_file ?d fd = Some ?c" by (simp add: fd_file_set [OF c])
  have cl: "io_clean ?d" using assms(1) ev by (auto simp: io_clean_def)
  have "disk_page ?d fd q = disk_page d fd q" if "0 \<le> q" "q \<noteq> p" for q
    using page_offsets_disjoint [OF assms(3) that, of "length buf"] assms(4) f c
    by (auto simp: disk_page_def file_get_put_other simp del: fd_file_io)
  moreover obtain d2 where "read_page fd p dest ?d = Ret () (buf, d2)"
    using read_page_clean [OF cl f assms(3), of dest] assms(4,5) by (auto simp: file_get_put_same)
  ultimately show ?thesis using w cl by blast
qed

text \<open>
  Claim C6. A page write that fails half-way throws \<^verbatim>\<open>InternalError\<close> and nothing else, and even
  then every other page of the file is untouched.
\<close>

theorem write_page_failure_contained:
  assumes "fd_file d fd \<noteq> None" and "0 \<le> p" and "length buf = PAGE_SIZE"
    and "write_page fd p buf d = Throw e d'"
  shows "e = InternalError ''DiskManager::write_page Error'' \<and>
         (\<forall>q. 0 \<le> q \<longrightarrow> q \<noteq> p \<longrightarrow> disk_page d' fd q = disk_page d fd q)"
proof (intro conjI allI impI)
  from assms(1) obtain c where c: "fd_file d fd = Some c" by auto
  show "e = InternalError ''DiskManager::write_page Error''"
    using assms(4) by (auto simp: write_page_def Let_def split: if_splits option.splits prod.splits)
  fix q :: int
  assume q: "0 \<le> q" "q \<noteq> p"
  obtain k where k: "fd_file d' fd = Some (file_put c (nat p * PAGE_SIZE) (take k buf))"
    using write_page_others [OF c assms(2,4)] by blast
  show "disk_page d' fd q = disk_page d fd q"
    using page_offsets_disjoint [OF assms(2) q, of "length (take k buf)"] assms(3) k c
    by (auto simp: disk_page_def file_get_put_other)
qed

text \<open>A one-file system, used by the witnesses: descriptor 3 is the empty file \<^verbatim>\<open>t\<close>.\<close>

definition tiny_disk :: "io_event list \<Rightarrow> disk" where
  "tiny_disk script =
     (DiskManager [''t'' \<mapsto> []] [(3, ''t'')] script)
       \<lparr>path2fd := [''t'' \<mapsto> 3], fd2path := [3 \<mapsto> ''t'']\<rparr>"

lemma tiny_disk_simps [simp]:
  "fd_file (tiny_disk ev) 3 = Some []" "io (tiny_disk ev) = ev"
  "kfd (tiny_disk ev) = [(3, ''t'')]" "fd2pageno (tiny_disk ev) = (\<lambda>_. 0)"
  "fd2path (tiny_disk ev) = [3 \<mapsto> ''t'']" "path2fd (tiny_disk ev) = [''t'' \<mapsto> 3]"
  "fs (tiny_disk ev) = [''t'' \<mapsto> []]" "log_fd (tiny_disk ev) = -1"
  by (simp_all add: tiny_disk_def DiskManager_def fd_file_def)

theorem write_page_read_page_witness:
  "\<exists>d1 d2. write_page 3 2 (replicate PAGE_SIZE 7) (tiny_disk [Eintr, Xfer 9]) = Ret () d1 \<and>
     io_clean d1 \<and> read_page 3 2 (zeros PAGE_SIZE) d1 = Ret () (replicate PAGE_SIZE 7, d2) \<and>
     (\<forall>q. 0 \<le> q \<longrightarrow> q \<noteq> 2 \<longrightarrow> disk_page d1 3 q = disk_page (tiny_disk [Eintr, Xfer 9]) 3 q)"
  by (rule write_page_read_page) (simp_all add: io_clean_def)

theorem write_page_failure_contained_witness:
  "\<exists>d'. write_page 3 2 (replicate PAGE_SIZE 7) (tiny_disk [Xfer 9, Eio]) =
          Throw (InternalError ''DiskManager::write_page Error'') d' \<and>
        (\<forall>q. 0 \<le> q \<longrightarrow> q \<noteq> 2 \<longrightarrow> disk_page d' 3 q = disk_page (tiny_disk [Xfer 9, Eio]) 3 q)"
proof -
  have "\<exists>d'. write_page 3 2 (replicate PAGE_SIZE 7) (tiny_disk [Xfer 9, Eio]) =
          Throw (InternalError ''DiskManager::write_page Error'') d'"
    by (simp add: write_page_def PAGE_SIZE_def Let_def)
  then obtain d' where d': "write_page 3 2 (replicate PAGE_SIZE 7) (tiny_disk [Xfer 9, Eio]) =
          Throw (InternalError ''DiskManager::write_page Error'') d'" ..
  from write_page_failure_contained [OF _ _ _ this] d' show ?thesis by auto
qed

section \<open>The table of open files\<close>

text \<open>
  The two maps of the open files are inverse to each other, every open descriptor is known to
  the kernel under the same path, and the path exists.
\<close>

definition dm_inv :: "disk \<Rightarrow> bool" where
  "dm_inv d \<longleftrightarrow>
     (\<forall>p fd. path2fd d p = Some fd \<longleftrightarrow> fd2path d fd = Some p) \<and>
     (\<forall>fd p. fd2path d fd = Some p \<longrightarrow>
        map_of (kfd d) fd = Some p \<and> fs d p \<noteq> None \<and> 0 \<le> fd \<and> fd < MAX_FD) \<and>
     distinct (map fst (kfd d))"

lemma dm_invD:
  assumes "dm_inv d"
  shows "path2fd d p = Some fd \<longleftrightarrow> fd2path d fd = Some p"
    and "fd2path d fd = Some p \<Longrightarrow> map_of (kfd d) fd = Some p \<and> fs d p \<noteq> None \<and> 0 \<le> fd \<and> fd < MAX_FD"
    and "distinct (map fst (kfd d))"
  using assms by (simp_all add: dm_inv_def)

lemma dm_inv_closed: "dm_inv d \<Longrightarrow> path2fd d path = None \<Longrightarrow> fd2path d fd \<noteq> Some path"
  by (metis dm_invD(1) option.distinct(1))

lemma dm_inv_log_fd [simp]: "dm_inv (d\<lparr>log_fd := l\<rparr>) = dm_inv d"
  by (simp add: dm_inv_def)

lemma lowest_fd_fresh: "lowest_fd d \<notin> fst ` set (kfd d) \<and> 3 \<le> lowest_fd d"
proof -
  let ?c = "[3..3 + int (length (kfd d))]"
  have "filter (\<lambda>n. n \<notin> fst ` set (kfd d)) ?c \<noteq> []"
  proof
    assume "filter (\<lambda>n. n \<notin> fst ` set (kfd d)) ?c = []"
    then have "set ?c \<subseteq> set (map fst (kfd d))" by (auto simp: filter_empty_conv)
    then have "length ?c \<le> length (map fst (kfd d))" by (intro distinct_subset_length) simp_all
    then show False by simp
  qed
  then have "lowest_fd d \<in> set (filter (\<lambda>n. n \<notin> fst ` set (kfd d)) ?c)"
    unfolding lowest_fd_def by (rule hd_in_set)
  then show ?thesis by auto
qed

lemma sys_ok_state [simp]:
  "kfd (snd (sys_ok d)) = kfd d" "fs (snd (sys_ok d)) = fs d"
  "path2fd (snd (sys_ok d)) = path2fd d" "fd2path (snd (sys_ok d)) = fd2path d"
  "log_fd (snd (sys_ok d)) = log_fd d" "fd2pageno (snd (sys_ok d)) = fd2pageno d"
  by (simp_all add: sys_ok_def split: list.split)

lemma sys_okE:
  assumes "sys_ok d = (b, d1)"
  shows "kfd d1 = kfd d \<and> fs d1 = fs d \<and> path2fd d1 = path2fd d \<and> fd2path d1 = fd2path d \<and>
         log_fd d1 = log_fd d \<and> fd2pageno d1 = fd2pageno d"
  using assms sys_ok_state [of d] by simp

lemma dm_inv_cong:
  assumes "kfd d1 = kfd d" and "fs d1 = fs d" and "path2fd d1 = path2fd d" and "fd2path d1 = fd2path d"
  shows "dm_inv d1 = dm_inv d"
  using assms by (simp add: dm_inv_def)

lemma create_file_inv:
  assumes "dm_inv d"
  shows "dm_inv (snd (create_file path d))"
proof -
  { fix b1 d1 b2 d2
    assume s: "sys_ok d = (b1, d1)" "sys_ok (d1\<lparr>fs := (fs d1)(path \<mapsto> [])\<rparr>) = (b2, d2)"
    have "dm_inv d2" using assms sys_okE [OF s(1)] sys_okE [OF s(2)] by (simp add: dm_inv_def) }
  moreover have "dm_inv d1" if "sys_ok d = (b1, d1)" for b1 d1
    using sys_okE [OF that] assms by (simp add: dm_inv_def)
  ultimately show ?thesis using assms
    by (auto simp: create_file_def split: prod.splits bool.splits)
qed

lemma destroy_file_inv:
  assumes "dm_inv d"
  shows "dm_inv (snd (destroy_file path d))"
proof -
  { fix b1 d1
    assume s: "sys_ok d = (b1, d1)" and "path2fd d path = None"
    then have "dm_inv d1" and "dm_inv (d1\<lparr>fs := (fs d1)(path := None)\<rparr>)"
      using sys_okE [OF s] assms dm_inv_closed [OF assms] by (auto simp: dm_inv_def) }
  then show ?thesis using assms
    by (auto simp: destroy_file_def split: prod.splits bool.splits)
qed

lemma open_file_inv:
  assumes "dm_inv d"
  shows "dm_inv (snd (open_file path d))"
proof -
  { fix b1 d1
    assume s: "sys_ok d = (b1, d1)" and n: "path2fd d path = None" "fs d path \<noteq> None"
    have i1: "dm_inv d1" using sys_okE [OF s] assms by (simp add: dm_inv_def)
    let ?fd = "lowest_fd d1"
    have fr: "?fd \<notin> fst ` set (kfd d1)" "3 \<le> ?fd" using lowest_fd_fresh by auto
    have nfd: "fd2path d1 ?fd = None"
    proof (cases "fd2path d1 ?fd")
      case (Some p)
      with dm_invD(2) [OF i1] have "map_of (kfd d1) ?fd = Some p" by blast
      with fr(1) show ?thesis by (metis fst_conv image_eqI map_of_SomeD)
    qed
    have n1: "path2fd d1 path = None" "fs d1 path \<noteq> None" using n sys_okE [OF s] by auto
    with i1 fr nfd have "dm_inv (d1\<lparr>kfd := (?fd, path) # kfd d1,
          path2fd := (path2fd d1)(path \<mapsto> ?fd), fd2path := (fd2path d1)(?fd \<mapsto> path),
          fd2pageno := g\<rparr>)" if "?fd < MAX_FD" for g
      using that dm_inv_closed [OF i1 n1(1)] unfolding dm_inv_def by (auto simp: image_iff)
    note i1 this }
  then show ?thesis using assms
    by (auto simp: open_file_def Let_def split: prod.splits bool.splits)
qed

lemma close_file_inv:
  assumes "dm_inv d"
  shows "dm_inv (snd (close_file fd d))"
proof -
  { fix b1 d1 path
    assume s: "sys_ok d = (b1, d1)" and p: "fd2path d fd = Some path"
    have i1: "dm_inv d1" using sys_okE [OF s] assms by (simp add: dm_inv_def)
    have p1: "fd2path d1 fd = Some path" using p sys_okE [OF s] by simp
    from i1 have eq: "\<And>p fd. (path2fd d1 p = Some fd) = (fd2path d1 fd = Some p)"
      by (simp add: dm_inv_def)
    have "(if p' = path then None else path2fd d1 p') = Some fd' \<longleftrightarrow>
          (if fd' = fd then None else fd2path d1 fd') = Some p'" for p' fd'
      using eq p1 by (metis option.inject option.distinct(1))
    then have "dm_inv (d1\<lparr>kfd := AList.delete fd (kfd d1), fd2path := (fd2path d1)(fd := None),
        path2fd := (path2fd d1)(path := None)\<rparr>)"
      using i1 unfolding dm_inv_def by (auto simp: distinct_delete)
    note i1 this }
  then show ?thesis using assms
    by (auto simp: close_file_def split: prod.splits bool.splits option.splits)
qed

lemma get_file_fd_inv: "dm_inv d \<Longrightarrow> dm_inv (snd (get_file_fd p d))"
  by (simp add: get_file_fd_def open_file_inv split: option.split)

datatype file_call = FCreate string | FDestroy string | FOpen string | FClose int | FGetFd string

definition file_call_state :: "file_call \<Rightarrow> disk \<Rightarrow> disk" where
  "file_call_state c d =
     (case c of FCreate p \<Rightarrow> snd (create_file p d) | FDestroy p \<Rightarrow> snd (destroy_file p d)
      | FOpen p \<Rightarrow> snd (open_file p d) | FClose fd \<Rightarrow> snd (close_file fd d)
      | FGetFd p \<Rightarrow> snd (get_file_fd p d))"

fun file_calls :: "file_call list \<Rightarrow> disk \<Rightarrow> disk" where
  "file_calls [] d = d"
| "file_calls (c # cs) d = file_calls cs (file_call_state c d)"

lemma file_call_inv: "dm_inv d \<Longrightarrow> dm_inv (file_call_state c d)"
  by (simp add: file_call_state_def create_file_inv destroy_file_inv open_file_inv close_file_inv
      get_file_fd_inv split: file_call.split)



end
