(* ===== verification/Replacer.thy ===== *)
theory Replacer
  imports Rmdb_Prelude
begin

text \<open>
  The page replacement policy: the abstract class \<^verbatim>\<open>Replacer\<close> (\<^verbatim>\<open>replacer/replacer.h\<close>) as a
  record of its virtual operations with the contract the buffer pool relies on (locale
  \<open>replacer\<close>), and its implementation \<^verbatim>\<open>LRUReplacer\<close> (\<^verbatim>\<open>replacer/lru_replacer.cpp\<close>).
  The latch of the class makes every operation atomic, so an operation is one function from
  state to state.
\<close>

section \<open>The interface\<close>

text \<open>
  \<open>op_victim\<close> returns \<open>None\<close> where the method returns \<open>false\<close>, and otherwise the
  frame stored through its out-pointer with the new state.
\<close>

record 'r replacer_ops =
  op_victim :: "'r \<Rightarrow> (int \<times> 'r) option"
  op_pin :: "int \<Rightarrow> 'r \<Rightarrow> 'r"
  op_unpin :: "int \<Rightarrow> 'r \<Rightarrow> 'r"
  op_Size :: "'r \<Rightarrow> nat"

datatype replacer_call = CallVictim | CallPin int | CallUnpin int

text \<open>A run of calls, with the list of the frames the victim calls handed out.\<close>

fun run_calls :: "'r replacer_ops \<Rightarrow> replacer_call list \<Rightarrow> 'r \<Rightarrow> int list \<times> 'r" where
  "run_calls R [] r = ([], r)"
| "run_calls R (CallVictim # cs) r =
     (case op_victim R r of
        None \<Rightarrow> run_calls R cs r
      | Some (f, r') \<Rightarrow> (case run_calls R cs r' of (out, r'') \<Rightarrow> (f # out, r'')))"
| "run_calls R (CallPin f # cs) r = run_calls R cs (op_pin R f r)"
| "run_calls R (CallUnpin f # cs) r = run_calls R cs (op_unpin R f r)"

locale replacer =
  fixes R :: "'r replacer_ops"
    and evictable :: "'r \<Rightarrow> int set"
    and capacity :: "'r \<Rightarrow> nat"
    and rinv :: "'r \<Rightarrow> bool"
  assumes victim_none: "rinv r \<Longrightarrow> evictable r = {} \<Longrightarrow> op_victim R r = None"
    and victim_some: "rinv r \<Longrightarrow> evictable r \<noteq> {} \<Longrightarrow>
      \<exists>f r'. op_victim R r = Some (f, r') \<and> f \<in> evictable r \<and> rinv r' \<and>
        evictable r' = evictable r - {f} \<and> capacity r' = capacity r"
    and pin_inv: "rinv r \<Longrightarrow> rinv (op_pin R f r)"
    and pin_evictable: "rinv r \<Longrightarrow> evictable (op_pin R f r) = evictable r - {f}"
    and pin_capacity: "capacity (op_pin R f r) = capacity r"
    and unpin_inv: "rinv r \<Longrightarrow> rinv (op_unpin R f r)"
    and unpin_evictable: "rinv r \<Longrightarrow> evictable (op_unpin R f r) =
      (if 0 \<le> f \<and> f < int (capacity r) then insert f (evictable r) else evictable r)"
    and unpin_capacity: "capacity (op_unpin R f r) = capacity r"
    and size_card: "rinv r \<Longrightarrow> op_Size R r = card (evictable r)"
    and evictable_bounded: "rinv r \<Longrightarrow> evictable r \<subseteq> {0..<int (capacity r)}"
begin

lemmas contract_simps =
  pin_inv pin_evictable pin_capacity unpin_inv unpin_evictable unpin_capacity

lemma victim_cases:
  assumes "rinv r"
  obtains "op_victim R r = None" and "evictable r = {}"
    | f r' where "op_victim R r = Some (f, r')" and "f \<in> evictable r" and "rinv r'"
        and "evictable r' = evictable r - {f}" and "capacity r' = capacity r"
  using assms victim_none victim_some by metis

lemma victim_SomeD:
  assumes "rinv r" and "op_victim R r = Some (f, r')"
  shows "f \<in> evictable r \<and> rinv r' \<and> evictable r' = evictable r - {f} \<and> capacity r' = capacity r"
  by (rule victim_cases [OF assms(1)]) (use assms(2) in simp_all)

lemma run_calls_no_unpin:
  assumes "rinv r" and "f \<notin> evictable r" and "CallUnpin f \<notin> set cs"
  shows "f \<notin> set (fst (run_calls R cs r))"
  using assms
proof (induction cs arbitrary: r)
  case Nil
  then show ?case by simp
next
  case (Cons c cs)
  show ?case
  proof (cases c)
    case CallVictim
    from Cons.prems(1) show ?thesis
    proof (cases rule: victim_cases)
      case 1
      with Cons.IH [OF Cons.prems(1)] Cons.prems CallVictim show ?thesis by simp
    next
      case (2 g r')
      have "f \<notin> evictable r'" using 2(4) Cons.prems(2) by blast
      moreover have "CallUnpin f \<notin> set cs" using Cons.prems(3) by simp
      ultimately have "f \<notin> set (fst (run_calls R cs r'))"
        using Cons.IH [OF 2(3)] by blast
      moreover have "f \<noteq> g" using 2(2) Cons.prems(2) by blast
      ultimately show ?thesis using 2(1) CallVictim by (simp add: case_prod_beta)
    qed
  next
    case (CallPin g)
    with Cons.IH [of "op_pin R g r"] Cons.prems show ?thesis
      by (simp add: contract_simps)
  next
    case (CallUnpin g)
    with Cons.IH [of "op_unpin R g r"] Cons.prems show ?thesis
      by (auto simp: contract_simps)
  qed
qed

lemma pinned_not_victim:
  assumes "rinv r" and "CallUnpin f \<notin> set cs"
  shows "f \<notin> set (fst (run_calls R cs (op_pin R f r)))"
  using assms by (intro run_calls_no_unpin) (auto simp: contract_simps)

end

section \<open>LRUReplacer\<close>

text \<open>
  \<open>lru_list\<close> is \<^verbatim>\<open>LRUlist_\<close>; an iterator stored in \<^verbatim>\<open>LRUhash_\<close> is modelled by the frame
  id at the list node it points to, so erasing through the iterator is \<open>remove1\<close>.
\<close>

record lru =
  lru_list :: "int list"
  lru_hash :: "int \<rightharpoonup> int"
  max_size :: nat

definition LRUReplacer :: "nat \<Rightarrow> lru" where
  "LRUReplacer num_pages = \<lparr>lru_list = [], lru_hash = Map.empty, max_size = num_pages\<rparr>"

definition lru_victim :: "lru \<Rightarrow> (int \<times> lru) option" where
  "lru_victim r =
     (case lru_list r of
        [] \<Rightarrow> None
      | f # fs \<Rightarrow> Some (f, r\<lparr>lru_hash := (lru_hash r)(f := None), lru_list := fs\<rparr>))"

definition lru_pin :: "int \<Rightarrow> lru \<Rightarrow> lru" where
  "lru_pin frame_id r =
     (if frame_id < 0 \<or> frame_id \<ge> int (max_size r) then r
      else case lru_hash r frame_id of
             None \<Rightarrow> r
           | Some it \<Rightarrow> r\<lparr>lru_list := remove1 it (lru_list r),
                          lru_hash := (lru_hash r)(frame_id := None)\<rparr>)"

definition lru_unpin :: "int \<Rightarrow> lru \<Rightarrow> lru" where
  "lru_unpin frame_id r =
     (if frame_id < 0 \<or> frame_id \<ge> int (max_size r) then r
      else if lru_hash r frame_id \<noteq> None \<or> length (lru_list r) \<ge> max_size r then r
      else r\<lparr>lru_list := lru_list r @ [frame_id],
             lru_hash := (lru_hash r)(frame_id \<mapsto> frame_id)\<rparr>)"

definition lru_Size :: "lru \<Rightarrow> nat" where
  "lru_Size r = length (lru_list r)"

definition lru_ops :: "lru replacer_ops" where
  "lru_ops = \<lparr>op_victim = lru_victim, op_pin = lru_pin, op_unpin = lru_unpin, op_Size = lru_Size\<rparr>"

lemma lru_ops_simps [simp]:
  "op_victim lru_ops = lru_victim" "op_pin lru_ops = lru_pin"
  "op_unpin lru_ops = lru_unpin" "op_Size lru_ops = lru_Size"
  by (simp_all add: lru_ops_def)

subsection \<open>Invariant: list and hash map agree\<close>

definition lru_inv :: "lru \<Rightarrow> bool" where
  "lru_inv r \<longleftrightarrow>
     distinct (lru_list r) \<and> set (lru_list r) \<subseteq> {0..<int (max_size r)} \<and>
     (\<forall>f. lru_hash r f = (if f \<in> set (lru_list r) then Some f else None))"

lemma lru_inv_init [simp]: "lru_inv (LRUReplacer n)"
  by (simp add: lru_inv_def LRUReplacer_def)

lemma lru_invD:
  assumes "lru_inv r"
  shows "distinct (lru_list r)" and "set (lru_list r) \<subseteq> {0..<int (max_size r)}"
    and "lru_hash r f = (if f \<in> set (lru_list r) then Some f else None)"
  using assms by (simp_all add: lru_inv_def)

text \<open>The capacity test of \<^verbatim>\<open>unpin\<close> never rejects a frame that is not in the list.\<close>

lemma lru_room:
  assumes "lru_inv r" and "0 \<le> f" and "f < int (max_size r)" and "f \<notin> set (lru_list r)"
  shows "length (lru_list r) < max_size r"
proof -
  have "distinct (f # lru_list r)" and "set (f # lru_list r) \<subseteq> {0..<int (max_size r)}"
    using assms lru_invD(1,2) [OF assms(1)] by auto
  then have "length (f # lru_list r) \<le> max_size r"
    by (rule distinct_int_bounded_length)
  then show ?thesis by simp
qed

lemma lru_list_pin:
  assumes "lru_inv r"
  shows "lru_list (lru_pin f r) = remove1 f (lru_list r)"
  using lru_invD(2,3) [OF assms] by (auto simp: lru_pin_def remove1_idem)

lemma lru_list_unpin:
  assumes "lru_inv r"
  shows "lru_list (lru_unpin f r) =
    (if 0 \<le> f \<and> f < int (max_size r) \<and> f \<notin> set (lru_list r) then lru_list r @ [f] else lru_list r)"
proof (cases "0 \<le> f \<and> f < int (max_size r) \<and> f \<notin> set (lru_list r)")
  case True
  with lru_room [OF assms, of f] lru_invD(3) [OF assms, of f] show ?thesis
    by (simp add: lru_unpin_def)
next
  case False
  with lru_invD(3) [OF assms, of f] show ?thesis by (auto simp: lru_unpin_def)
qed

lemma lru_frame [simp]:
  "max_size (lru_pin f r) = max_size r" "max_size (lru_unpin f r) = max_size r"
  by (auto simp: lru_pin_def lru_unpin_def split: option.split)

lemma lru_inv_pin: "lru_inv r \<Longrightarrow> lru_inv (lru_pin f r)"
  by (auto simp: lru_inv_def lru_pin_def dest: notin_set_remove1 split: option.split)

lemma lru_inv_unpin: "lru_inv r \<Longrightarrow> lru_inv (lru_unpin f r)"
  by (auto simp: lru_inv_def lru_unpin_def)

lemma lru_inv_victim:
  "lru_inv r \<Longrightarrow> lru_list r = f # fs \<Longrightarrow>
     lru_victim r = Some (f, r\<lparr>lru_hash := (lru_hash r)(f := None), lru_list := fs\<rparr>) \<and>
     lru_inv (r\<lparr>lru_hash := (lru_hash r)(f := None), lru_list := fs\<rparr>)"
  by (auto simp: lru_inv_def lru_victim_def)

interpretation lru: replacer lru_ops "\<lambda>r. set (lru_list r)" max_size lru_inv
proof
  fix r :: lru and f
  show "lru_inv r \<Longrightarrow> set (lru_list r) = {} \<Longrightarrow> op_victim lru_ops r = None"
    by (simp add: lru_victim_def)
  show "\<exists>f r'. op_victim lru_ops r = Some (f, r') \<and> f \<in> set (lru_list r) \<and> lru_inv r' \<and>
      set (lru_list r') = set (lru_list r) - {f} \<and> max_size r' = max_size r"
    if "lru_inv r" and "set (lru_list r) \<noteq> {}"
  proof -
    from that(2) obtain g fs where l: "lru_list r = g # fs" by (cases "lru_list r") auto
    have "set fs = set (lru_list r) - {g}" using lru_invD(1) [OF that(1)] l by auto
    with lru_inv_victim [OF that(1) l] l show ?thesis by auto
  qed
  show "lru_inv r \<Longrightarrow> set (lru_list (op_pin lru_ops f r)) = set (lru_list r) - {f}"
    by (simp add: lru_list_pin lru_invD(1))
  show "lru_inv r \<Longrightarrow> set (lru_list (op_unpin lru_ops f r)) =
      (if 0 \<le> f \<and> f < int (max_size r) then insert f (set (lru_list r)) else set (lru_list r))"
    by (auto simp: lru_list_unpin)
  show "lru_inv r \<Longrightarrow> op_Size lru_ops r = card (set (lru_list r))"
    by (simp add: lru_Size_def distinct_card lru_invD(1))
qed (auto simp: lru_inv_pin lru_inv_unpin dest: lru_invD(2))

subsection \<open>Refinement: the least recently released frame leaves first\<close>

text \<open>
  The abstract policy is a queue of the released frames, oldest first. It has neither the hash
  map nor the capacity test.
\<close>

fun queue_calls :: "nat \<Rightarrow> replacer_call list \<Rightarrow> int list \<Rightarrow> int list \<times> int list" where
  "queue_calls n [] q = ([], q)"
| "queue_calls n (CallVictim # cs) q =
     (case q of [] \<Rightarrow> queue_calls n cs q
      | f # q' \<Rightarrow> (case queue_calls n cs q' of (out, q'') \<Rightarrow> (f # out, q'')))"
| "queue_calls n (CallPin f # cs) q = queue_calls n cs (removeAll f q)"
| "queue_calls n (CallUnpin f # cs) q =
     queue_calls n cs (if 0 \<le> f \<and> f < int n \<and> f \<notin> set q then q @ [f] else q)"

lemma lru_run_refines:
  assumes "lru_inv r"
  shows "(case run_calls lru_ops cs r of (out, r') \<Rightarrow>
            lru_inv r' \<and> queue_calls (max_size r) cs (lru_list r) = (out, lru_list r'))"
  using assms
proof (induction cs arbitrary: r)
  case Nil
  then show ?case by simp
next
  case (Cons c cs)
  show ?case
  proof (cases c)
    case CallVictim
    show ?thesis
    proof (cases "lru_list r")
      case Nil
      with Cons.IH [OF Cons.prems] CallVictim show ?thesis by (simp add: lru_victim_def)
    next
      case (Cons f fs)
      let ?r = "r\<lparr>lru_hash := (lru_hash r)(f := None), lru_list := fs\<rparr>"
      note v = lru_inv_victim [OF Cons.prems Cons]
      with Cons.IH [of ?r] CallVictim Cons show ?thesis
        by (auto split: prod.splits)
    qed
  next
    case (CallPin f)
    with Cons.IH [OF lru_inv_pin [OF Cons.prems]] Cons.prems show ?thesis
      by (simp add: lru_list_pin distinct_remove1_removeAll lru_invD(1))
  next
    case (CallUnpin f)
    with Cons.IH [OF lru_inv_unpin [OF Cons.prems]] Cons.prems show ?thesis
      by (simp add: lru_list_unpin)
  qed
qed

text \<open>
  Claim C4. Starting from a fresh \<^verbatim>\<open>LRUReplacer\<close>, every sequence of \<^verbatim>\<open>victim\<close>, \<^verbatim>\<open>pin\<close> and
  \<^verbatim>\<open>unpin\<close> calls hands out exactly the frames, in exactly the order, that a plain
  first-released-first-evicted queue would, and leaves list and hash map consistent.
\<close>

theorem lru_refines_queue:
  "\<exists>r'. run_calls lru_ops cs (LRUReplacer n) = (fst (queue_calls n cs []), r') \<and>
        lru_list r' = snd (queue_calls n cs []) \<and> lru_inv r'"
  using lru_run_refines [OF lru_inv_init, of n cs]
  by (auto simp: LRUReplacer_def split: prod.splits)

text \<open>
  A frame that has been pinned is never chosen as a victim until it is unpinned
  again, whatever else happens to the replacer in between.
\<close>

theorem lru_pinned_not_victim:
  assumes "lru_inv r" and "CallUnpin f \<notin> set cs"
  shows "f \<notin> set (fst (run_calls lru_ops cs (lru_pin f r)))"
  using lru.pinned_not_victim [OF assms] by simp

theorem lru_pinned_not_victim_witness:
  "lru_inv (LRUReplacer 4) \<and> CallUnpin 1 \<notin> set [CallUnpin 2, CallVictim, CallVictim] \<and>
   1 \<notin> set (fst (run_calls lru_ops [CallUnpin 2, CallVictim, CallVictim]
                    (lru_pin 1 (LRUReplacer 4))))"
proof -
  have "lru_inv (LRUReplacer 4)" by simp
  moreover have "CallUnpin 1 \<notin> set [CallUnpin 2, CallVictim, CallVictim]" by simp
  ultimately show ?thesis using lru_pinned_not_victim by blast
qed

end
