(* ===== verification/Buffer_Pool.thy ===== *)
theory Buffer_Pool
  imports Disk Replacer
begin

text \<open>
  \<^verbatim>\<open>Page\<close> (\<^verbatim>\<open>storage/page.h\<close>) and \<^verbatim>\<open>BufferPoolManager\<close> (\<^verbatim>\<open>storage/buffer_pool_manager.cpp\<close>). The
  operations are parametrised by the virtual operations of the replacer (\<^verbatim>\<open>Replacer *replacer_\<close>)
  and proved correct for every replacer that meets the contract of locale \<open>replacer\<close>; the
  interpretation at the end is for \<^verbatim>\<open>LRUReplacer\<close>, the one the constructor creates. The latch
  \<^verbatim>\<open>latch_\<close> makes each operation atomic. A \<^verbatim>\<open>Page*\<close> into the frame array is modelled by the frame
  number, \<^verbatim>\<open>nullptr\<close> by \<open>None\<close>.
\<close>

section \<open>Pages\<close>

datatype page_id = PageId (pid_fd: int) (pid_no: int)

record page =
  id :: page_id
  data :: bytes
  is_dirty :: bool
  pin_count :: int

text \<open>The comparison operator of \<^verbatim>\<open>PageId\<close>.\<close>

definition page_id_less :: "page_id \<Rightarrow> page_id \<Rightarrow> bool" where
  "page_id_less x y = (if pid_fd x < pid_fd y then True else pid_no x < pid_no y)"

definition invalid_pid :: page_id where
  "invalid_pid = PageId (-1) INVALID_PAGE_ID"

definition new_Page :: page where
  "new_Page = \<lparr>id = invalid_pid, data = zeros PAGE_SIZE, is_dirty = False, pin_count = 0\<rparr>"

definition OFFSET_LSN :: nat where "OFFSET_LSN = 0"

definition OFFSET_PAGE_HDR :: nat where "OFFSET_PAGE_HDR = 4"

definition get_page_lsn :: "page \<Rightarrow> int" where
  "get_page_lsn p = get_i32 (data p) OFFSET_LSN"

definition set_page_lsn :: "int \<Rightarrow> page \<Rightarrow> page" where
  "set_page_lsn page_lsn p = p\<lparr>data := put_i32 (data p) OFFSET_LSN page_lsn\<rparr>"

definition reset_memory :: "page \<Rightarrow> page" where
  "reset_memory p = p\<lparr>data := zeros PAGE_SIZE\<rparr>"

section \<open>The buffer pool\<close>

record 'r bpm =
  pool_size :: nat
  pages :: "int \<Rightarrow> page"
  page_table :: "(page_id \<times> int) list"
  free_list :: "int list"
  replacer_st :: 'r
  disk_st :: disk

text \<open>The constructor: all frames are free.\<close>

definition BufferPoolManager :: "nat \<Rightarrow> 'r \<Rightarrow> disk \<Rightarrow> 'r bpm" where
  "BufferPoolManager n r d =
     \<lparr>pool_size = n, pages = (\<lambda>_. new_Page), page_table = [],
      free_list = map int [0..<n], replacer_st = r, disk_st = d\<rparr>"

definition on_disk :: "(disk \<Rightarrow> ('a, disk) res) \<Rightarrow> 'r bpm \<Rightarrow> ('a, 'r bpm) res" where
  "on_disk m s = (case m (disk_st s) of (r, d) \<Rightarrow> (r, s\<lparr>disk_st := d\<rparr>))"

definition set_page :: "int \<Rightarrow> page \<Rightarrow> 'r bpm \<Rightarrow> 'r bpm" where
  "set_page f p s = s\<lparr>pages := (pages s)(f := p)\<rparr>"

definition mark_dirty :: "int \<Rightarrow> 'r bpm \<Rightarrow> 'r bpm" where
  "mark_dirty f s = set_page f ((pages s f)\<lparr>is_dirty := True\<rparr>) s"

definition find_victim_page :: "'r replacer_ops \<Rightarrow> 'r bpm \<Rightarrow> int option \<times> 'r bpm" where
  "find_victim_page R s =
     (case free_list s of
        f # fl \<Rightarrow> (Some f, s\<lparr>free_list := fl\<rparr>)
      | [] \<Rightarrow> (case op_victim R (replacer_st s) of
                None \<Rightarrow> (None, s)
              | Some (f, r') \<Rightarrow> (Some f, s\<lparr>replacer_st := r'\<rparr>)))"

definition update_page :: "int \<Rightarrow> page_id \<Rightarrow> 'r bpm \<Rightarrow> (unit, 'r bpm) res" where
  "update_page f new_page_id s =
     seqE
       (if pid_no (id (pages s f)) \<noteq> INVALID_PAGE_ID
        then seqE
               (if is_dirty (pages s f)
                then on_disk (write_page (pid_fd (id (pages s f))) (pid_no (id (pages s f)))
                                (data (pages s f))) s
                else Ret () s)
               (\<lambda>_ s1. Ret () (s1\<lparr>page_table := AList.delete (id (pages s1 f)) (page_table s1)\<rparr>))
        else Ret () s)
       (\<lambda>_ s2.
          let s3 = set_page f \<lparr>id = new_page_id, data = zeros PAGE_SIZE, is_dirty = False,
                               pin_count = 0\<rparr> s2
          in Ret () (if pid_no new_page_id \<noteq> INVALID_PAGE_ID
                     then s3\<lparr>page_table := AList.update new_page_id f (page_table s3)\<rparr>
                     else s3))"

definition fetch_page :: "'r replacer_ops \<Rightarrow> page_id \<Rightarrow> 'r bpm \<Rightarrow> (int option, 'r bpm) res" where
  "fetch_page R pid s =
     (case map_of (page_table s) pid of
        Some f \<Rightarrow>
          let p = pages s f in
          Ret (Some f) ((set_page f (p\<lparr>pin_count := pin_count p + 1\<rparr>) s)
                          \<lparr>replacer_st := op_pin R f (replacer_st s)\<rparr>)
      | None \<Rightarrow>
          (case find_victim_page R s of
             (None, s1) \<Rightarrow> Ret None s1
           | (Some f, s1) \<Rightarrow>
               seqE (update_page f pid s1)
                 (\<lambda>_ s2.
                    case read_page (pid_fd pid) (pid_no pid) (data (pages s2 f)) (disk_st s2) of
                      (Inl e, (dest, d)) \<Rightarrow>
                        let s3 = (set_page f ((pages s2 f)\<lparr>data := dest, id := invalid_pid\<rparr>) s2)
                                   \<lparr>disk_st := d,
                                    page_table := AList.delete pid (page_table s2)\<rparr>
                        in Throw e (s3\<lparr>free_list := free_list s3 @ [f]\<rparr>)
                    | (Inr _, (dest, d)) \<Rightarrow>
                        Ret (Some f)
                          ((set_page f ((pages s2 f)\<lparr>data := dest, pin_count := 1\<rparr>) s2)
                             \<lparr>disk_st := d, replacer_st := op_pin R f (replacer_st s2)\<rparr>))))"

definition unpin_page :: "'r replacer_ops \<Rightarrow> page_id \<Rightarrow> bool \<Rightarrow> 'r bpm \<Rightarrow> bool \<times> 'r bpm" where
  "unpin_page R pid dirty s =
     (case map_of (page_table s) pid of
        None \<Rightarrow> (False, s)
      | Some f \<Rightarrow>
          let p = pages s f in
          if pin_count p \<le> 0 then (False, s)
          else let p' = p\<lparr>pin_count := pin_count p - 1, is_dirty := is_dirty p \<or> dirty\<rparr>;
                   s1 = set_page f p' s
               in (True, if pin_count p' = 0
                         then s1\<lparr>replacer_st := op_unpin R f (replacer_st s1)\<rparr> else s1))"

definition flush_page :: "page_id \<Rightarrow> 'r bpm \<Rightarrow> (bool, 'r bpm) res" where
  "flush_page pid s =
     (if pid_no pid = INVALID_PAGE_ID then Ret False s
      else case map_of (page_table s) pid of
             None \<Rightarrow> Ret False s
           | Some f \<Rightarrow>
               seqE (on_disk (write_page (pid_fd pid) (pid_no pid) (data (pages s f))) s)
                 (\<lambda>_ s1. Ret True (set_page f ((pages s1 f)\<lparr>is_dirty := False\<rparr>) s1)))"

text \<open>\<^verbatim>\<open>new_page\<close> returns the frame and the page id it writes back through its argument.\<close>

definition new_page :: "'r replacer_ops \<Rightarrow> int \<Rightarrow> 'r bpm \<Rightarrow> ((int \<times> page_id) option, 'r bpm) res" where
  "new_page R fd s =
     (case find_victim_page R s of
        (None, s1) \<Rightarrow> Ret None s1
      | (Some f, s1) \<Rightarrow>
          seqE (on_disk (allocate_page fd) s1)
            (\<lambda>no s2.
               seqE (update_page f (PageId fd no) s2)
                 (\<lambda>_ s3.
                    Ret (Some (f, PageId fd no))
                      ((set_page f ((pages s3 f)\<lparr>pin_count := 1\<rparr>) s3)
                         \<lparr>replacer_st := op_pin R f (replacer_st s3)\<rparr>))))"

definition delete_page :: "'r replacer_ops \<Rightarrow> page_id \<Rightarrow> 'r bpm \<Rightarrow> (bool, 'r bpm) res" where
  "delete_page R pid s =
     (case map_of (page_table s) pid of
        None \<Rightarrow> Ret True s
      | Some f \<Rightarrow>
          if pin_count (pages s f) \<noteq> 0 then Ret False s
          else seqE (update_page f invalid_pid (s\<lparr>replacer_st := op_pin R f (replacer_st s)\<rparr>))
                 (\<lambda>_ s1. Ret True
                    (s1\<lparr>free_list := free_list s1 @ [f],
                        disk_st := deallocate_page (pid_no pid) (disk_st s1)\<rparr>)))"

text \<open>The frames of a file, in the iteration order of the page table.\<close>

definition frames_of_fd :: "int \<Rightarrow> 'r bpm \<Rightarrow> int list" where
  "frames_of_fd fd s = map snd (filter (\<lambda>e. pid_fd (fst e) = fd) (page_table s))"

fun flush_frames :: "int \<Rightarrow> int list \<Rightarrow> 'r bpm \<Rightarrow> (unit, 'r bpm) res" where
  "flush_frames fd [] s = Ret () s"
| "flush_frames fd (f # fl) s =
     (if pid_no (id (pages s f)) = INVALID_PAGE_ID then flush_frames fd fl s
      else seqE (on_disk (write_page fd (pid_no (id (pages s f))) (data (pages s f))) s)
             (\<lambda>_ s1. flush_frames fd fl (set_page f ((pages s1 f)\<lparr>is_dirty := False\<rparr>) s1)))"

definition flush_all_pages :: "int \<Rightarrow> 'r bpm \<Rightarrow> (unit, 'r bpm) res" where
  "flush_all_pages fd s = flush_frames fd (frames_of_fd fd s) s"

fun delete_frames :: "'r replacer_ops \<Rightarrow> int \<Rightarrow> int list \<Rightarrow> 'r bpm \<Rightarrow> (unit, 'r bpm) res" where
  "delete_frames R fd [] s = Ret () s"
| "delete_frames R fd (f # fl) s =
     (let pid = id (pages s f) in
      if pid_no pid = INVALID_PAGE_ID then delete_frames R fd fl s
      else seqE (on_disk (write_page fd (pid_no pid) (data (pages s f))) s)
             (\<lambda>_ s1. delete_frames R fd fl
                ((set_page f \<lparr>id = invalid_pid, data = zeros PAGE_SIZE, is_dirty = False,
                              pin_count = 0\<rparr> s1)
                   \<lparr>replacer_st := op_pin R f (replacer_st s1),
                    free_list := free_list s1 @ [f],
                    page_table := AList.delete pid (page_table s1)\<rparr>)))"

definition delete_all_pages :: "'r replacer_ops \<Rightarrow> int \<Rightarrow> 'r bpm \<Rightarrow> (unit, 'r bpm) res" where
  "delete_all_pages R fd s = delete_frames R fd (frames_of_fd fd s) s"

section \<open>Structural invariant\<close>

abbreviation pt :: "'r bpm \<Rightarrow> page_id \<Rightarrow> int option" where
  "pt s \<equiv> map_of (page_table s)"

abbreviation in_pool :: "int \<Rightarrow> 'r bpm \<Rightarrow> bool" where
  "in_pool f s \<equiv> 0 \<le> f \<and> f < int (pool_size s)"

text \<open>
  The page table and the frames' identifiers agree, no frame holds two pages, free frames hold
  none, only unpinned mapped frames can be evicted, and no pin count is negative.
\<close>

definition table_ok :: "'r bpm \<Rightarrow> bool" where
  "table_ok s \<longleftrightarrow>
     distinct (map fst (page_table s)) \<and>
     (\<forall>pid f. pt s pid = Some f \<longrightarrow>
        in_pool f s \<and> id (pages s f) = pid \<and> pid_no pid \<noteq> INVALID_PAGE_ID \<and>
        0 \<le> pin_count (pages s f)) \<and>
     (\<forall>f. in_pool f s \<longrightarrow> pid_no (id (pages s f)) \<noteq> INVALID_PAGE_ID \<longrightarrow>
        pt s (id (pages s f)) = Some f)"

definition free_ok :: "'r bpm \<Rightarrow> bool" where
  "free_ok s \<longleftrightarrow>
     distinct (free_list s) \<and>
     (\<forall>f \<in> set (free_list s). in_pool f s \<and> pid_no (id (pages s f)) = INVALID_PAGE_ID)"

definition evict_ok :: "('r \<Rightarrow> int set) \<Rightarrow> 'r bpm \<Rightarrow> bool" where
  "evict_ok ev s \<longleftrightarrow>
     (\<forall>f \<in> ev (replacer_st s). pt s (id (pages s f)) = Some f \<and> pin_count (pages s f) = 0)"

definition bpm_inv :: "('r \<Rightarrow> int set) \<Rightarrow> ('r \<Rightarrow> nat) \<Rightarrow> ('r \<Rightarrow> bool) \<Rightarrow> 'r bpm \<Rightarrow> bool" where
  "bpm_inv ev cap ri s \<longleftrightarrow>
     ri (replacer_st s) \<and> cap (replacer_st s) = pool_size s \<and>
     table_ok s \<and> free_ok s \<and> evict_ok ev s \<and>
     (\<forall>f. length (data (pages s f)) = PAGE_SIZE)"

lemma on_disk_Ret: "on_disk m s = (Inr x, s1) \<longleftrightarrow> (\<exists>d. m (disk_st s) = (Inr x, d) \<and> s1 = s\<lparr>disk_st := d\<rparr>)"
  by (auto simp: on_disk_def split: prod.splits)

lemma on_disk_Throw: "on_disk m s = (Inl e, s1) \<longleftrightarrow> (\<exists>d. m (disk_st s) = (Inl e, d) \<and> s1 = s\<lparr>disk_st := d\<rparr>)"
  by (auto simp: on_disk_def split: prod.splits)

text \<open>
  A canonical order of the updates of a pool; updates of the disk come outermost, where the
  invariants of the pool ignore them.
\<close>

lemma bpm_update_order [simp]:
  "s\<lparr>page_table := t, pages := ps\<rparr> = s\<lparr>pages := ps, page_table := t\<rparr>"
  "s\<lparr>free_list := fl, pages := ps\<rparr> = s\<lparr>pages := ps, free_list := fl\<rparr>"
  "s\<lparr>free_list := fl, page_table := t\<rparr> = s\<lparr>page_table := t, free_list := fl\<rparr>"
  "s\<lparr>replacer_st := r, pages := ps\<rparr> = s\<lparr>pages := ps, replacer_st := r\<rparr>"
  "s\<lparr>replacer_st := r, page_table := t\<rparr> = s\<lparr>page_table := t, replacer_st := r\<rparr>"
  "s\<lparr>replacer_st := r, free_list := fl\<rparr> = s\<lparr>free_list := fl, replacer_st := r\<rparr>"
  "s\<lparr>disk_st := d, pages := ps\<rparr> = s\<lparr>pages := ps, disk_st := d\<rparr>"
  "s\<lparr>disk_st := d, page_table := t\<rparr> = s\<lparr>page_table := t, disk_st := d\<rparr>"
  "s\<lparr>disk_st := d, free_list := fl\<rparr> = s\<lparr>free_list := fl, disk_st := d\<rparr>"
  "s\<lparr>disk_st := d, replacer_st := r\<rparr> = s\<lparr>replacer_st := r, disk_st := d\<rparr>"
  by simp_all

lemma on_disk_cases:
  obtains e d where "on_disk m s = (Inl e, s\<lparr>disk_st := d\<rparr>)" and "m (disk_st s) = (Inl e, d)"
  | x d where "on_disk m s = (Inr x, s\<lparr>disk_st := d\<rparr>)" and "m (disk_st s) = (Inr x, d)"
  by (cases "m (disk_st s)"; cases "fst (m (disk_st s))") (auto simp: on_disk_def)

lemma bpm_inv_disk [simp]: "bpm_inv ev cap ri (s\<lparr>disk_st := d\<rparr>) = bpm_inv ev cap ri s"
  by (simp add: bpm_inv_def table_ok_def free_ok_def evict_ok_def)

lemma table_ok_inj:
  assumes "table_ok s" and "pt s pid = Some f" and "pt s pid' = Some f"
  shows "pid = pid'"
  using assms unfolding table_ok_def by blast

end
