(* ===== verification/Record_Page.thy ===== *)
theory Record_Page
  imports Buffer_Pool
begin

text \<open>
  The layout of a record page: \<^verbatim>\<open>Bitmap\<close> (\<^verbatim>\<open>record/bitmap.h\<close>), the headers of
  \<^verbatim>\<open>record/rm_defs.h\<close> and \<^verbatim>\<open>RmPageHandle\<close> (\<^verbatim>\<open>record/rm_file_handle.h\<close>), at the level of the
  bytes of the page: page LSN (4 bytes), \<^verbatim>\<open>RmPageHdr\<close> (8 bytes), bitmap, slots.
\<close>

unbundle bit_operations_syntax

section \<open>Bitmap\<close>

definition BITMAP_WIDTH :: int where "BITMAP_WIDTH = 8"

definition BITMAP_HIGHEST_BIT :: byte where "BITMAP_HIGHEST_BIT = 0x80"

definition get_bucket :: "int \<Rightarrow> nat" where
  "get_bucket pos = nat (pos sdiv BITMAP_WIDTH)"

definition get_bit :: "int \<Rightarrow> byte" where
  "get_bit pos = drop_bit (nat (pos smod BITMAP_WIDTH)) BITMAP_HIGHEST_BIT"

definition bitmap_init :: "int \<Rightarrow> bytes" where
  "bitmap_init sz = zeros (nat sz)"

definition bitmap_set :: "bytes \<Rightarrow> int \<Rightarrow> bytes" where
  "bitmap_set bm pos = bm[get_bucket pos := bm ! get_bucket pos OR get_bit pos]"

definition bitmap_reset :: "bytes \<Rightarrow> int \<Rightarrow> bytes" where
  "bitmap_reset bm pos = bm[get_bucket pos := bm ! get_bucket pos AND NOT (get_bit pos)]"

definition bitmap_is_set :: "bytes \<Rightarrow> int \<Rightarrow> bool" where
  "bitmap_is_set bm pos \<longleftrightarrow> bm ! get_bucket pos AND get_bit pos \<noteq> 0"

function next_bit :: "bool \<Rightarrow> bytes \<Rightarrow> int \<Rightarrow> int \<Rightarrow> int" where
  "next_bit b bm max_n cur =
     (if cur + 1 < max_n
      then if bitmap_is_set bm (cur + 1) = b then cur + 1 else next_bit b bm max_n (cur + 1)
      else max_n)"
  by pat_completeness auto
termination by (relation "measure (\<lambda>(b, bm, max_n, cur). nat (max_n - cur))") auto

declare next_bit.simps [simp del]

definition first_bit :: "bool \<Rightarrow> bytes \<Rightarrow> int \<Rightarrow> int" where
  "first_bit b bm max_n = next_bit b bm max_n (-1)"

subsection \<open>The bitmap is a set of positions\<close>

lemma bucket_nonneg:
  assumes "0 \<le> pos"
  shows "get_bucket pos = nat pos div 8"
    and "get_bit pos = drop_bit (nat pos mod 8) BITMAP_HIGHEST_BIT"
proof -
  have "pos sdiv 8 = pos div 8" "pos smod 8 = pos mod 8"
    using assms
    by (cases "pos = 0"; simp add: signed_divide_int_def signed_modulo_int_def)+
  then show "get_bucket pos = nat pos div 8" "get_bit pos = drop_bit (nat pos mod 8) BITMAP_HIGHEST_BIT"
    using assms by (simp_all add: get_bucket_def get_bit_def BITMAP_WIDTH_def nat_div_distrib nat_mod_distrib)
qed

lemma highest_bit: "bit BITMAP_HIGHEST_BIT k \<longleftrightarrow> k = 7"
proof -
  have h: "BITMAP_HIGHEST_BIT = (2 :: byte) ^ 7" by (simp add: BITMAP_HIGHEST_BIT_def)
  show ?thesis unfolding h bit_exp_iff by auto
qed

lemma bit_get_bit:
  assumes "0 \<le> pos"
  shows "bit (get_bit pos) k \<longleftrightarrow> k = 7 - nat pos mod 8"
  using assms by (auto simp: bucket_nonneg bit_drop_bit_eq highest_bit)

lemma is_set_bit:
  assumes "0 \<le> pos"
  shows "bitmap_is_set bm pos \<longleftrightarrow> bit (bm ! (nat pos div 8)) (7 - nat pos mod 8)"
proof -
  have word_nonzero: "w \<noteq> 0 \<longleftrightarrow> (\<exists>k. bit w k)" for w :: byte
    by (metis bit_0_eq bit_eqI bot_apply bot_bool_def)
  have "bitmap_is_set bm pos \<longleftrightarrow> (\<exists>k. bit (bm ! (nat pos div 8) AND get_bit pos) k)"
    unfolding bitmap_is_set_def bucket_nonneg(1) [OF assms] word_nonzero ..
  also have "\<dots> \<longleftrightarrow> bit (bm ! (nat pos div 8)) (7 - nat pos mod 8)"
    by (auto simp: bit_and_iff bit_get_bit [OF assms])
  finally show ?thesis .
qed

lemma bit_position_inj: "a div 8 = b div 8 \<Longrightarrow> 7 - a mod 8 = 7 - b mod 8 \<Longrightarrow> a = (b :: nat)"
proof -
  assume a: "a div 8 = b div 8" "7 - a mod 8 = 7 - b mod 8"
  have "a mod 8 < 8" "b mod 8 < 8" by simp_all
  with a(2) have "a mod 8 = b mod 8" by linarith
  with a(1) show ?thesis by (metis div_mult_mod_eq)
qed

lemma length_bitmap [simp]:
  "length (bitmap_set bm pos) = length bm" "length (bitmap_reset bm pos) = length bm"
  by (simp_all add: bitmap_set_def bitmap_reset_def)

abbreviation in_bitmap :: "bytes \<Rightarrow> int \<Rightarrow> bool" where
  "in_bitmap bm pos \<equiv> 0 \<le> pos \<and> nat pos div 8 < length bm"

lemma bit_position_eq:
  assumes "0 \<le> i" and "0 \<le> j"
  shows "i = j \<longleftrightarrow> nat i div 8 = nat j div 8 \<and> 7 - nat j mod 8 = 7 - nat i mod 8"
  using bit_position_inj [of "nat i" "nat j"] assms by auto

lemma is_set_set:
  assumes "in_bitmap bm i" and "0 \<le> j"
  shows "bitmap_is_set (bitmap_set bm i) j \<longleftrightarrow> i = j \<or> bitmap_is_set bm j"
proof (cases "nat i div 8 = nat j div 8")
  case True
  have "bit (bitmap_set bm i ! (nat j div 8)) (7 - nat j mod 8) \<longleftrightarrow>
      bit (bm ! (nat j div 8)) (7 - nat j mod 8) \<or> 7 - nat j mod 8 = 7 - nat i mod 8"
    using True assms by (simp add: bitmap_set_def bucket_nonneg(1) bit_or_iff bit_get_bit)
  with True assms(2) bit_position_eq [of i j] assms(1) show ?thesis
    unfolding is_set_bit [OF assms(2)] by blast
next
  case False
  then have "i \<noteq> j" by auto
  with False assms show ?thesis by (simp add: is_set_bit bitmap_set_def bucket_nonneg(1))
qed

lemma is_set_reset:
  assumes "in_bitmap bm i" and "0 \<le> j"
  shows "bitmap_is_set (bitmap_reset bm i) j \<longleftrightarrow> i \<noteq> j \<and> bitmap_is_set bm j"
proof (cases "nat i div 8 = nat j div 8")
  case True
  have "bit (bitmap_reset bm i ! (nat j div 8)) (7 - nat j mod 8) \<longleftrightarrow>
      bit (bm ! (nat j div 8)) (7 - nat j mod 8) \<and> 7 - nat j mod 8 \<noteq> 7 - nat i mod 8"
    using True assms by (simp add: bitmap_reset_def bucket_nonneg(1) bit_and_iff bit_not_iff bit_get_bit)
      linarith
  with True assms(2) bit_position_eq [of i j] assms(1) show ?thesis
    unfolding is_set_bit [OF assms(2)] by blast
next
  case False
  then have "i \<noteq> j" by auto
  with False assms show ?thesis by (simp add: is_set_bit bitmap_reset_def bucket_nonneg(1))
qed

lemma is_set_init:
  assumes "0 \<le> pos" and "nat pos div 8 < nat sz"
  shows "\<not> bitmap_is_set (bitmap_init sz) pos"
  using assms by (simp add: is_set_bit bitmap_init_def zeros_def)

lemma next_bit_spec:
  assumes "cur < max_n"
  shows "cur < next_bit b bm max_n cur \<and> next_bit b bm max_n cur \<le> max_n \<and>
    (next_bit b bm max_n cur < max_n \<longrightarrow> bitmap_is_set bm (next_bit b bm max_n cur) = b) \<and>
    (\<forall>i. cur < i \<and> i < next_bit b bm max_n cur \<longrightarrow> bitmap_is_set bm i \<noteq> b)"
  using assms
proof (induction b bm max_n cur rule: next_bit.induct)
  case (1 b bm max_n cur)
  show ?case
  proof (cases "cur + 1 < max_n \<and> bitmap_is_set bm (cur + 1) \<noteq> b")
    case True
    then have IH: "cur + 1 < next_bit b bm max_n (cur + 1) \<and> next_bit b bm max_n (cur + 1) \<le> max_n \<and>
      (next_bit b bm max_n (cur + 1) < max_n \<longrightarrow> bitmap_is_set bm (next_bit b bm max_n (cur + 1)) = b) \<and>
      (\<forall>i. cur + 1 < i \<and> i < next_bit b bm max_n (cur + 1) \<longrightarrow> bitmap_is_set bm i \<noteq> b)"
      using "1.IH" by blast
    have eq: "next_bit b bm max_n cur = next_bit b bm max_n (cur + 1)"
      using True by (subst next_bit.simps) simp
    show ?thesis unfolding eq
    proof (intro conjI allI impI)
      fix i assume i: "cur < i \<and> i < next_bit b bm max_n (cur + 1)"
      show "bitmap_is_set bm i \<noteq> b"
        using IH True i by (cases "i = cur + 1") auto
    qed (use IH in auto)
  next
    case False
    then have "next_bit b bm max_n cur = (if cur + 1 < max_n then cur + 1 else max_n)"
      by (subst next_bit.simps) auto
    with False "1.prems" show ?thesis by auto
  qed
qed

lemma next_bit_end: "max_n \<le> cur + 1 \<Longrightarrow> next_bit b bm max_n cur = max_n"
  by (subst next_bit.simps) simp

section \<open>Headers\<close>

definition RM_NO_PAGE :: int where "RM_NO_PAGE = -1"
definition RM_FILE_HDR_PAGE :: int where "RM_FILE_HDR_PAGE = 0"
definition RM_FIRST_RECORD_PAGE :: int where "RM_FIRST_RECORD_PAGE = 1"
definition RM_MAX_RECORD_SIZE :: int where "RM_MAX_RECORD_SIZE = 512"

record rm_file_hdr =
  record_size :: int
  num_pages :: int
  num_records_per_page :: int
  first_free_page_no :: int
  bitmap_size :: int

text \<open>The memory image of \<^verbatim>\<open>RmFileHdr\<close>, which is written to page 0 of the file.\<close>

definition SIZEOF_RmFileHdr :: nat where "SIZEOF_RmFileHdr = 20"

definition enc_file_hdr :: "rm_file_hdr \<Rightarrow> bytes" where
  "enc_file_hdr h =
     enc_i32 (record_size h) @ enc_i32 (num_pages h) @ enc_i32 (num_records_per_page h) @
     enc_i32 (first_free_page_no h) @ enc_i32 (bitmap_size h)"

definition dec_file_hdr :: "bytes \<Rightarrow> rm_file_hdr" where
  "dec_file_hdr bs =
     \<lparr>record_size = get_i32 bs 0, num_pages = get_i32 bs 4, num_records_per_page = get_i32 bs 8,
      first_free_page_no = get_i32 bs 12, bitmap_size = get_i32 bs 16\<rparr>"

lemma length_enc_file_hdr [simp]: "length (enc_file_hdr h) = SIZEOF_RmFileHdr"
  by (simp add: enc_file_hdr_def SIZEOF_RmFileHdr_def)

definition hdr_i32 :: "rm_file_hdr \<Rightarrow> bool" where
  "hdr_i32 h \<longleftrightarrow> is_i32 (record_size h) \<and> is_i32 (num_pages h) \<and> is_i32 (num_records_per_page h) \<and>
     is_i32 (first_free_page_no h) \<and> is_i32 (bitmap_size h)"

lemma dec_enc_file_hdr [simp]: "hdr_i32 h \<Longrightarrow> dec_file_hdr (enc_file_hdr h) = h"
  by (simp add: dec_file_hdr_def enc_file_hdr_def hdr_i32_def slice_append_right [where o' = 0]
      slice_append_right [where o' = 4] slice_append_right [where o' = 8]
      slice_append_right [where o' = 12] slice_append_left)

section \<open>RmPageHandle\<close>

text \<open>
  The handle's three pointers into the page, as offsets: \<open>page_hdr\<close> at \<open>OFFSET_PAGE_HDR\<close>, \<open>bitmap\<close>
  after the eight bytes of \<^verbatim>\<open>RmPageHdr\<close>, \<open>slots\<close> after the bitmap.
\<close>

definition SIZEOF_RmPageHdr :: nat where "SIZEOF_RmPageHdr = 8"

definition bitmap_off :: nat where
  "bitmap_off = OFFSET_PAGE_HDR + SIZEOF_RmPageHdr"

definition slots_off :: "rm_file_hdr \<Rightarrow> nat" where
  "slots_off h = bitmap_off + nat (bitmap_size h)"

definition next_free_page_no :: "bytes \<Rightarrow> int" where
  "next_free_page_no d = get_i32 d OFFSET_PAGE_HDR"

definition num_records :: "bytes \<Rightarrow> int" where
  "num_records d = get_i32 d (OFFSET_PAGE_HDR + 4)"

definition bitmap :: "rm_file_hdr \<Rightarrow> bytes \<Rightarrow> bytes" where
  "bitmap h d = slice d bitmap_off (nat (bitmap_size h))"

definition slot_off :: "rm_file_hdr \<Rightarrow> int \<Rightarrow> nat" where
  "slot_off h slot_no = slots_off h + nat (slot_no * record_size h)"

definition get_slot :: "rm_file_hdr \<Rightarrow> int \<Rightarrow> bytes \<Rightarrow> bytes" where
  "get_slot h slot_no d = slice d (slot_off h slot_no) (nat (record_size h))"

text \<open>The stores through the pointers of a handle.\<close>

definition set_next_free_page_no :: "int \<Rightarrow> bytes \<Rightarrow> bytes" where
  "set_next_free_page_no v d = put_i32 d OFFSET_PAGE_HDR v"

definition set_num_records :: "int \<Rightarrow> bytes \<Rightarrow> bytes" where
  "set_num_records v d = put_i32 d (OFFSET_PAGE_HDR + 4) v"

definition set_bitmap :: "bytes \<Rightarrow> bytes \<Rightarrow> bytes" where
  "set_bitmap bm d = blit d bitmap_off bm"

definition set_slot :: "rm_file_hdr \<Rightarrow> int \<Rightarrow> bytes \<Rightarrow> bytes \<Rightarrow> bytes" where
  "set_slot h slot_no buf d = blit d (slot_off h slot_no) buf"

subsection \<open>The parts of a page do not overlap\<close>

definition layout_ok :: "rm_file_hdr \<Rightarrow> bool" where
  "layout_ok h \<longleftrightarrow>
     1 \<le> record_size h \<and> 1 \<le> num_records_per_page h \<and>
     bitmap_size h = (num_records_per_page h + 7) div 8 \<and>
     12 + bitmap_size h + num_records_per_page h * record_size h \<le> int PAGE_SIZE"

abbreviation slot_ok :: "rm_file_hdr \<Rightarrow> int \<Rightarrow> bool" where
  "slot_ok h i \<equiv> 0 \<le> i \<and> i < num_records_per_page h"

lemmas page_offsets = bitmap_off_def OFFSET_PAGE_HDR_def SIZEOF_RmPageHdr_def slots_off_def

lemma layoutD:
  assumes "layout_ok h"
  shows "0 < record_size h" "0 < bitmap_size h" "12 + nat (bitmap_size h) \<le> PAGE_SIZE"
    "slot_ok h i \<Longrightarrow> slot_off h i + nat (record_size h) \<le> PAGE_SIZE"
    "slot_ok h i \<Longrightarrow> nat i div 8 < nat (bitmap_size h)"
proof -
  note l = assms [unfolded layout_ok_def]
  show r: "0 < record_size h" and b: "0 < bitmap_size h" using l by auto
  have "0 \<le> num_records_per_page h * record_size h" using l by simp
  with l b show "12 + nat (bitmap_size h) \<le> PAGE_SIZE" by linarith
  assume i: "slot_ok h i"
  have "(i + 1) * record_size h \<le> num_records_per_page h * record_size h"
    using i r by (intro mult_right_mono) auto
  moreover have "int (slot_off h i + nat (record_size h)) = 12 + bitmap_size h + (i + 1) * record_size h"
    using i r b by (simp add: slot_off_def page_offsets algebra_simps)
  ultimately show "slot_off h i + nat (record_size h) \<le> PAGE_SIZE" using l by linarith
  have "i div 8 < (num_records_per_page h + 7) div 8" using i by linarith
  then have "nat (i div 8) < nat (bitmap_size h)" using i l by linarith
  then show "nat i div 8 < nat (bitmap_size h)" using i by (simp add: nat_div_distrib)
qed

lemma slots_disjoint:
  assumes "layout_ok h" and "slot_ok h i" and "slot_ok h j" and "i \<noteq> j"
  shows "slot_off h i + nat (record_size h) \<le> slot_off h j \<or>
         slot_off h j + nat (record_size h) \<le> slot_off h i"
proof -
  have aux: "slot_off h a + nat (record_size h) \<le> slot_off h b" if "0 \<le> a" "a < b" for a b
  proof -
    have r: "0 < record_size h" using layoutD(1) [OF assms(1)] .
    have "(a + 1) * record_size h \<le> b * record_size h" using that r by (intro mult_right_mono) auto
    then have "nat (a * record_size h) + nat (record_size h) \<le> nat (b * record_size h)"
      using that r by (simp add: algebra_simps nat_add_distrib [symmetric] del: nat_add_distrib)
    then show ?thesis by (simp add: slot_off_def)
  qed
  from assms(4) show ?thesis using aux [of i j] aux [of j i] assms(2,3) by linarith
qed

lemma slot_after_bitmap: "12 + nat (bitmap_size h) \<le> slot_off h i"
  by (simp add: slot_off_def page_offsets)

text \<open>Every store is seen by the load of the same part, and by no other load.\<close>

lemma page_set_length:
  assumes "layout_ok h" and "length d = PAGE_SIZE"
  shows "length (set_next_free_page_no v d) = PAGE_SIZE" "length (set_num_records v d) = PAGE_SIZE"
    "length bm = nat (bitmap_size h) \<Longrightarrow> length (set_bitmap bm d) = PAGE_SIZE"
    "slot_ok h i \<Longrightarrow> length buf = nat (record_size h) \<Longrightarrow> length (set_slot h i buf d) = PAGE_SIZE"
  using assms layoutD [OF assms(1)]
  by (simp_all add: set_next_free_page_no_def set_num_records_def set_bitmap_def set_slot_def page_offsets
      PAGE_SIZE_def)

lemma next_free_set:
  assumes "layout_ok h" and "length d = PAGE_SIZE"
  shows "is_i32 v \<Longrightarrow> next_free_page_no (set_next_free_page_no v d) = v"
    "next_free_page_no (set_num_records v d) = next_free_page_no d"
    "length bm = nat (bitmap_size h) \<Longrightarrow> next_free_page_no (set_bitmap bm d) = next_free_page_no d"
    "slot_ok h i \<Longrightarrow> length buf = nat (record_size h) \<Longrightarrow>
       next_free_page_no (set_slot h i buf d) = next_free_page_no d"
  using assms layoutD [OF assms(1)] slot_after_bitmap [of h i]
  by (simp_all add: next_free_page_no_def set_next_free_page_no_def set_num_records_def set_bitmap_def
      set_slot_def slice_blit_other page_offsets PAGE_SIZE_def)

lemma num_records_set:
  assumes "layout_ok h" and "length d = PAGE_SIZE"
  shows "is_i32 v \<Longrightarrow> num_records (set_num_records v d) = v"
    "num_records (set_next_free_page_no v d) = num_records d"
    "length bm = nat (bitmap_size h) \<Longrightarrow> num_records (set_bitmap bm d) = num_records d"
    "slot_ok h i \<Longrightarrow> length buf = nat (record_size h) \<Longrightarrow>
       num_records (set_slot h i buf d) = num_records d"
  using assms layoutD [OF assms(1)] slot_after_bitmap [of h i]
  by (simp_all add: num_records_def set_next_free_page_no_def set_num_records_def set_bitmap_def
      set_slot_def slice_blit_other page_offsets PAGE_SIZE_def)

lemma bitmap_set_parts:
  assumes "layout_ok h" and "length d = PAGE_SIZE"
  shows "length bm = nat (bitmap_size h) \<Longrightarrow> bitmap h (set_bitmap bm d) = bm"
    "bitmap h (set_next_free_page_no v d) = bitmap h d"
    "bitmap h (set_num_records v d) = bitmap h d"
    "slot_ok h i \<Longrightarrow> length buf = nat (record_size h) \<Longrightarrow> bitmap h (set_slot h i buf d) = bitmap h d"
  using assms layoutD [OF assms(1)] slot_after_bitmap [of h i]
  by (simp_all add: bitmap_def set_next_free_page_no_def set_num_records_def set_bitmap_def
      set_slot_def slice_blit_other page_offsets PAGE_SIZE_def)

lemma slot_set_parts:
  assumes "layout_ok h" and "length d = PAGE_SIZE" and "slot_ok h i"
  shows "slot_ok h j \<Longrightarrow> length buf = nat (record_size h) \<Longrightarrow>
       get_slot h i (set_slot h j buf d) = (if i = j then buf else get_slot h i d)"
    "get_slot h i (set_next_free_page_no v d) = get_slot h i d"
    "get_slot h i (set_num_records v d) = get_slot h i d"
    "length bm = nat (bitmap_size h) \<Longrightarrow> get_slot h i (set_bitmap bm d) = get_slot h i d"
proof -
  note l = layoutD [OF assms(1)] and a = slot_after_bitmap [of h i]
  show "get_slot h i (set_slot h j buf d) = (if i = j then buf else get_slot h i d)"
    if "slot_ok h j" "length buf = nat (record_size h)"
    using that assms l(4) [of i] l(4) [of j] slots_disjoint [OF assms(1,3), of j]
    by (auto simp: get_slot_def set_slot_def slice_blit_other)
  show "get_slot h i (set_next_free_page_no v d) = get_slot h i d"
    "get_slot h i (set_num_records v d) = get_slot h i d"
    "length bm = nat (bitmap_size h) \<Longrightarrow> get_slot h i (set_bitmap bm d) = get_slot h i d"
    using assms l a
    by (simp_all add: get_slot_def set_next_free_page_no_def set_num_records_def set_bitmap_def
        slice_blit_other page_offsets PAGE_SIZE_def)
qed

lemmas page_part_simps = page_set_length next_free_set num_records_set bitmap_set_parts slot_set_parts

text \<open>The record, if any, that a page holds in a slot.\<close>

definition page_record :: "rm_file_hdr \<Rightarrow> bytes \<Rightarrow> int \<Rightarrow> bytes option" where
  "page_record h d i =
     (if slot_ok h i \<and> bitmap_is_set (bitmap h d) i then Some (get_slot h i d) else None)"

text \<open>The slots of a page that are in use.\<close>

definition used_slots :: "rm_file_hdr \<Rightarrow> bytes \<Rightarrow> int set" where
  "used_slots h d = {i. slot_ok h i \<and> bitmap_is_set (bitmap h d) i}"

lemma used_slots_record: "used_slots h d = {i. page_record h d i \<noteq> None}"
  by (auto simp: used_slots_def page_record_def)

lemma finite_used_slots [simp]: "finite (used_slots h d)"
  by (rule finite_subset [of _ "{0..<num_records_per_page h}"]) (auto simp: used_slots_def)

lemma card_used_slots: "layout_ok h \<Longrightarrow> int (card (used_slots h d)) \<le> num_records_per_page h"
proof -
  assume l: "layout_ok h"
  have "card (used_slots h d) \<le> card {0..<num_records_per_page h}"
    by (rule card_mono) (auto simp: used_slots_def)
  with l show ?thesis by (simp add: layout_ok_def le_nat_iff)
qed

lemma length_bitmap_part: "layout_ok h \<Longrightarrow> length d = PAGE_SIZE \<Longrightarrow> length (bitmap h d) = nat (bitmap_size h)"
  using layoutD(3) [of h] by (simp add: bitmap_def page_offsets)

end
