(* ===== verification/Buffer_Pool_Inv.thy ===== *)
theory Buffer_Pool_Inv
  imports Buffer_Pool
begin

text \<open>
  The structural invariant of the buffer pool is preserved by every operation, whether the disk
  transfers succeed or throw, for every replacer that meets the contract of locale \<open>replacer\<close>.
\<close>

section \<open>Frames taken out of circulation\<close>

text \<open>
  A frame that \<open>find_victim_page\<close> handed out: neither free nor evictable, and unpinned if it
  still holds a page.
\<close>

definition reserved :: "('r \<Rightarrow> int set) \<Rightarrow> int \<Rightarrow> 'r bpm \<Rightarrow> bool" where
  "reserved ev f s \<longleftrightarrow> in_pool f s \<and> f \<notin> set (free_list s) \<and> f \<notin> ev (replacer_st s)"

text \<open>The combined effect of evicting a frame's old page and giving it a new one.\<close>

definition install :: "int \<Rightarrow> page \<Rightarrow> 'r bpm \<Rightarrow> 'r bpm" where
  "install f p s =
     (let t = (if pid_no (id (pages s f)) \<noteq> INVALID_PAGE_ID
               then AList.delete (id (pages s f)) (page_table s) else page_table s)
      in s\<lparr>pages := (pages s)(f := p),
           page_table := (if pid_no (id p) \<noteq> INVALID_PAGE_ID then AList.update (id p) f t else t)\<rparr>)"

lemma install_sel [simp]:
  "pool_size (install f p s) = pool_size s" "free_list (install f p s) = free_list s"
  "replacer_st (install f p s) = replacer_st s" "disk_st (install f p s) = disk_st s"
  "pages (install f p s) = (pages s)(f := p)"
  by (simp_all add: install_def Let_def)

lemma set_page_sel [simp]:
  "pool_size (set_page f p s) = pool_size s" "free_list (set_page f p s) = free_list s"
  "replacer_st (set_page f p s) = replacer_st s" "disk_st (set_page f p s) = disk_st s"
  "pages (set_page f p s) = (pages s)(f := p)" "page_table (set_page f p s) = page_table s"
  by (simp_all add: set_page_def)

lemma set_page_install: "id p' = id p \<Longrightarrow> set_page f p' (install f p s) = install f p' s"
  by (simp add: set_page_def install_def Let_def)

lemma table_okD:
  assumes "table_ok s"
  shows "distinct (map fst (page_table s))"
    and "pt s pid = Some f \<Longrightarrow> in_pool f s \<and> id (pages s f) = pid \<and>
           pid_no pid \<noteq> INVALID_PAGE_ID \<and> 0 \<le> pin_count (pages s f)"
    and "in_pool f s \<Longrightarrow> pid_no (id (pages s f)) \<noteq> INVALID_PAGE_ID \<Longrightarrow> pt s (id (pages s f)) = Some f"
  using assms unfolding table_ok_def by blast+

lemma bpm_invD:
  assumes "bpm_inv ev cap ri s"
  shows "ri (replacer_st s)" "cap (replacer_st s) = pool_size s" "table_ok s" "free_ok s"
    "evict_ok ev s" "length (data (pages s f)) = PAGE_SIZE"
  using assms by (simp_all add: bpm_inv_def)

lemma pt_invalid:
  assumes "table_ok s" and "pid_no pid = INVALID_PAGE_ID"
  shows "pt s pid = None"
  using table_okD(2) [OF assms(1)] assms(2) by (cases "pt s pid") auto

text \<open>Unmapping a frame that holds page \<open>pid\<close> is an installation of the invalid page.\<close>

lemma install_invalid:
  assumes "table_ok s" and "id (pages s f) = pid" and "pid_no (id q) = INVALID_PAGE_ID"
  shows "install f q s = s\<lparr>pages := (pages s)(f := q), page_table := AList.delete pid (page_table s)\<rparr>"
proof (cases "pid_no pid = INVALID_PAGE_ID")
  case True
  have "pid \<notin> fst ` set (page_table s)"
    using pt_invalid [OF assms(1) True] by (simp add: map_of_eq_None_iff)
  then show ?thesis using assms(2,3) True by (simp add: install_def Let_def AList.delete_id)
qed (use assms in \<open>simp add: install_def Let_def\<close>)

text \<open>The page table after an installation: the old page is gone, the new one is there.\<close>

lemma pt_install:
  assumes "table_ok s" and "in_pool f s" and "pt s (id p) = None"
  shows "pt (install f p s) pid =
     (if pid = id p \<and> pid_no pid \<noteq> INVALID_PAGE_ID then Some f
      else if pt s pid = Some f then None else pt s pid)"
proof -
  let ?t = "if pid_no (id (pages s f)) \<noteq> INVALID_PAGE_ID
            then AList.delete (id (pages s f)) (page_table s) else page_table s"
  have t: "map_of ?t pid = (if pt s pid = Some f then None else pt s pid)" for pid
    using table_okD(2,3) [OF assms(1)] assms(2) by auto
  show ?thesis
    using t assms(3) by (auto simp: install_def Let_def update_conv' simp del: map_of_delete_eq)
qed

lemma table_ok_install:
  assumes "table_ok s" and "in_pool f s" and "pt s (id p) = None" and "0 \<le> pin_count p"
  shows "table_ok (install f p s)"
proof -
  note p = pt_install [OF assms(1-3)]
  have "distinct (map fst (page_table (install f p s)))"
    using table_okD(1) [OF assms(1)] by (simp add: install_def Let_def distinct_update)
  moreover have "in_pool g s \<and> id (((pages s)(f := p)) g) = pid \<and> pid_no pid \<noteq> INVALID_PAGE_ID \<and>
      0 \<le> pin_count (((pages s)(f := p)) g)"
    if "pt (install f p s) pid = Some g" for pid g
    using that table_okD(2) [OF assms(1)] assms(2-4) unfolding p
    by (auto split: if_splits)
  moreover have "pt (install f p s) (id (((pages s)(f := p)) g)) = Some g"
    if "in_pool g s" and "pid_no (id (((pages s)(f := p)) g)) \<noteq> INVALID_PAGE_ID" for g
    using that table_okD(3) [OF assms(1), of g] assms(3) unfolding p by (auto split: if_splits)
  ultimately show ?thesis unfolding table_ok_def by simp
qed

lemma evict_ok_install:
  assumes "table_ok s" and "evict_ok ev s" and "in_pool f s" and "pt s (id p) = None"
    and "f \<notin> ev (replacer_st s)"
  shows "evict_ok ev (install f p s)"
  unfolding evict_ok_def
proof (intro ballI)
  fix g
  assume g: "g \<in> ev (replacer_st (install f p s))"
  with assms(2,5) have "pt s (id (pages s g)) = Some g \<and> pin_count (pages s g) = 0" "g \<noteq> f"
    by (auto simp: evict_ok_def)
  with pt_install [OF assms(1,3,4)] assms(4)
  show "pt (install f p s) (id (pages (install f p s) g)) = Some g \<and>
        pin_count (pages (install f p s) g) = 0"
    by auto
qed

lemma bpm_inv_install:
  assumes "bpm_inv ev cap ri s" and "reserved ev f s" and "pt s (id p) = None"
    and "0 \<le> pin_count p" and "length (data p) = PAGE_SIZE"
  shows "bpm_inv ev cap ri (install f p s)" and "reserved ev f (install f p s)"
proof -
  note i = bpm_invD [OF assms(1)]
  from assms(2) have f: "in_pool f s" "f \<notin> set (free_list s)" "f \<notin> ev (replacer_st s)"
    by (auto simp: reserved_def)
  have "free_ok (install f p s)"
    using i(4) f(2) by (auto simp: free_ok_def)
  then show "bpm_inv ev cap ri (install f p s)"
    using i f assms(3-5) table_ok_install [of s f p] evict_ok_install [of s ev f p]
    by (simp add: bpm_inv_def)
  show "reserved ev f (install f p s)" using assms(2) by (simp add: reserved_def)
qed

lemma bpm_inv_release:
  assumes "bpm_inv ev cap ri s" and "reserved ev f s" and "pid_no (id (pages s f)) = INVALID_PAGE_ID"
  shows "bpm_inv ev cap ri (s\<lparr>free_list := free_list s @ [f]\<rparr>)"
  using assms
  by (auto simp: bpm_inv_def reserved_def free_ok_def table_ok_def evict_ok_def)

lemma bpm_inv_shrink:
  assumes "bpm_inv ev cap ri s" and "ri r" and "cap r = cap (replacer_st s)"
    and "ev r \<subseteq> ev (replacer_st s)" and "distinct fl" and "set fl \<subseteq> set (free_list s)"
  shows "bpm_inv ev cap ri (s\<lparr>free_list := fl, replacer_st := r\<rparr>)"
proof -
  note i = bpm_invD [OF assms(1)]
  let ?s = "s\<lparr>free_list := fl, replacer_st := r\<rparr>"
  have "table_ok ?s" using i(3) by (simp add: table_ok_def)
  moreover have "free_ok ?s" using i(4) assms(5,6) by (auto simp: free_ok_def)
  moreover have "evict_ok ev ?s" using i(5) assms(4) by (auto simp: evict_ok_def)
  ultimately show ?thesis using i assms(2,3) by (simp add: bpm_inv_def)
qed

text \<open>Changing a frame's contents, dirty bit or (while it is not evictable) pin count.\<close>

lemma bpm_inv_set_page:
  assumes "bpm_inv ev cap ri s" and "id p = id (pages s f)" and "length (data p) = PAGE_SIZE"
    and "pin_count p = pin_count (pages s f) \<or> f \<notin> ev (replacer_st s) \<and> 0 \<le> pin_count p"
  shows "bpm_inv ev cap ri (set_page f p s)"
proof -
  note i = bpm_invD [OF assms(1)]
  have "table_ok (set_page f p s)"
    using i(3) assms(2,4) unfolding table_ok_def by auto
  moreover have "free_ok (set_page f p s)"
    using i(4) assms(2) unfolding free_ok_def by simp
  moreover have "evict_ok ev (set_page f p s)"
    using i(5) assms(2,4) unfolding evict_ok_def by auto
  ultimately show ?thesis using i assms(3) by (simp add: bpm_inv_def)
qed

lemma update_page_eq:
  "update_page f pid s =
     (let p = pages s f; q = \<lparr>id = pid, data = zeros PAGE_SIZE, is_dirty = False, pin_count = 0\<rparr> in
      if pid_no (id p) \<noteq> INVALID_PAGE_ID \<and> is_dirty p
      then case write_page (pid_fd (id p)) (pid_no (id p)) (data p) (disk_st s) of
             (Inl e, d) \<Rightarrow> Throw e (s\<lparr>disk_st := d\<rparr>)
           | (Inr _, d) \<Rightarrow> Ret () (install f q (s\<lparr>disk_st := d\<rparr>))
      else Ret () (install f q s))"
  by (auto simp: update_page_def on_disk_def install_def set_page_def Let_def bindE_def
      split: prod.split sum.split)

lemma update_page_cases:
  assumes "update_page f pid s = (r, s')"
  obtains e d where "r = Inl e" and "s' = s\<lparr>disk_st := d\<rparr>"
  | d where "r = Inr ()"
      and "s' = install f \<lparr>id = pid, data = zeros PAGE_SIZE, is_dirty = False, pin_count = 0\<rparr>
                  (s\<lparr>disk_st := d\<rparr>)"
proof (cases "pid_no (id (pages s f)) \<noteq> INVALID_PAGE_ID \<and> is_dirty (pages s f)")
  case True
  with assms that show thesis by (auto simp: update_page_eq Let_def split: prod.splits sum.splits)
next
  case False
  with assms that(2) [of "disk_st s"] show thesis by (auto simp: update_page_eq Let_def)
qed

section \<open>Preservation\<close>

context replacer begin

abbreviation binv :: "'r bpm \<Rightarrow> bool" where
  "binv \<equiv> bpm_inv evictable capacity rinv"

lemma binv_op_pin:
  assumes "binv s"
  shows "binv (s\<lparr>replacer_st := op_pin R f (replacer_st s)\<rparr>)"
proof -
  note i = bpm_invD [OF assms]
  have "distinct (free_list s)" using i(4) by (simp add: free_ok_def)
  with bpm_inv_shrink [OF assms, of "op_pin R f (replacer_st s)" "free_list s"] i(1)
  show ?thesis by (auto simp: contract_simps)
qed

lemma find_victim_None:
  assumes "binv s" and "find_victim_page R s = (None, s1)"
  shows "s1 = s \<and> free_list s = [] \<and> evictable (replacer_st s) = {}"
  using assms(2) victim_some [OF bpm_invD(1) [OF assms(1)]]
  by (auto simp: find_victim_page_def split: list.splits option.splits)

text \<open>The frame handed out and what is left of the pool.\<close>

lemma find_victim_Some:
  assumes "binv s" and "find_victim_page R s = (Some f, s1)"
  shows "binv s1 \<and> reserved evictable f s1 \<and>
    pages s1 = pages s \<and> page_table s1 = page_table s \<and> disk_st s1 = disk_st s \<and>
    pool_size s1 = pool_size s \<and>
    ((\<exists>fl. free_list s = f # fl \<and> free_list s1 = fl \<and> replacer_st s1 = replacer_st s) \<or>
     free_list s = [] \<and> free_list s1 = [] \<and> f \<in> evictable (replacer_st s) \<and>
     evictable (replacer_st s1) = evictable (replacer_st s) - {f})"
proof (cases "free_list s")
  case (Cons g fl)
  with assms(2) have [simp]: "g = f" and s1: "s1 = s\<lparr>free_list := fl, replacer_st := replacer_st s\<rparr>"
    by (auto simp: find_victim_page_def)
  note i = bpm_invD [OF assms(1)]
  have f: "in_pool f s" "f \<notin> set fl" "distinct fl" "pid_no (id (pages s f)) = INVALID_PAGE_ID"
    using i(4) Cons by (simp_all add: free_ok_def)
  then have "f \<notin> evictable (replacer_st s)"
    using i(5) table_okD(2) [OF i(3)] unfolding evict_ok_def by blast
  then have "reserved evictable f s1" using f s1 by (simp add: reserved_def)
  moreover have "binv s1" unfolding s1
    by (rule bpm_inv_shrink) (use assms(1) i(1) f(3) Cons in auto)
  ultimately show ?thesis using Cons s1 by simp
next
  case Nil
  with assms(2) obtain r' where v: "op_victim R (replacer_st s) = Some (f, r')"
    and s1: "s1 = s\<lparr>free_list := [], replacer_st := r'\<rparr>"
    by (auto simp: find_victim_page_def split: option.splits)
  note i = bpm_invD [OF assms(1)]
  from victim_SomeD [OF i(1) v] have d: "f \<in> evictable (replacer_st s)" "rinv r'"
    "evictable r' = evictable (replacer_st s) - {f}" "capacity r' = capacity (replacer_st s)"
    by simp_all
  have "in_pool f s" using evictable_bounded [OF i(1)] i(2) d(1) by auto
  then have "reserved evictable f s1" using d(3) s1 by (simp add: reserved_def)
  moreover have "binv s1" unfolding s1
    by (rule bpm_inv_shrink [OF assms(1) d(2,4)]) (use d(3) in auto)
  ultimately show ?thesis using Nil s1 d by simp
qed

lemma update_page_inv:
  assumes "binv s" and "reserved evictable f s" and "pt s pid = None"
    and "update_page f pid s = (r, s')"
  shows "binv s' \<and> reserved evictable f s'"
  using assms(4)
proof (cases rule: update_page_cases)
  case 1
  then show ?thesis using assms(1,2) by (simp add: reserved_def)
next
  case (2 d)
  then show ?thesis
    using bpm_inv_install [of evictable capacity rinv "s\<lparr>disk_st := d\<rparr>" f] assms(1-3)
    by (simp add: reserved_def)
qed

lemma fetch_page_hit:
  "pt s pid = Some f \<Longrightarrow> fetch_page R pid s =
     Ret (Some f) ((set_page f ((pages s f)\<lparr>pin_count := pin_count (pages s f) + 1\<rparr>)
        (s\<lparr>replacer_st := op_pin R f (replacer_st s)\<rparr>)))"
  by (simp add: fetch_page_def Let_def set_page_def)

lemma pin_hit_inv:
  assumes "binv s" and "pt s pid = Some f" and "id p = pid" and "length (data p) = PAGE_SIZE"
    and "0 \<le> pin_count p"
  shows "binv (set_page f p (s\<lparr>replacer_st := op_pin R f (replacer_st s)\<rparr>))"
proof (rule bpm_inv_set_page [OF binv_op_pin [OF assms(1)]])
  show "id p = id (pages (s\<lparr>replacer_st := op_pin R f (replacer_st s)\<rparr>) f)"
    using table_okD(2) [OF bpm_invD(3) [OF assms(1)] assms(2)] assms(3) by simp
qed (use assms bpm_invD(1) [OF assms(1)] in \<open>simp_all add: contract_simps\<close>)

text \<open>Reading into a frame and forgetting it again when the read throws.\<close>

lemma read_page_length:
  assumes "read_page fd no dest d = (r, (dest', d'))"
  shows "length dest' = length dest"
proof -
  have "length got = length dest"
    if "read_page_loop (io d) c off (length dest) [] = (True, got, ev)" for c off got ev
    using read_page_loop_ok [OF that] by simp
  moreover have "length got \<le> length dest"
    if "read_page_loop (io d) c off (length dest) [] = (ok, got, ev)" for c off ok got ev
    using read_page_loop_length [OF that] by simp
  ultimately show ?thesis using assms
    by (auto simp: read_page_def split: if_splits option.splits prod.splits)
qed

lemma fetch_page_inv:
  assumes "binv s"
  shows "binv (snd (fetch_page R pid s))"
proof (cases "pt s pid")
  case (Some f)
  note i = table_okD(2) [OF bpm_invD(3) [OF assms] Some] bpm_invD(6) [OF assms, of f]
  show ?thesis
    unfolding fetch_page_hit [OF Some] snd_conv
    by (rule pin_hit_inv [OF assms Some]) (use i in simp_all)
next
  case None
  obtain v s1 where v: "find_victim_page R s = (v, s1)" by force
  show ?thesis
  proof (cases v)
    case None
    with find_victim_None [OF assms] v assms \<open>pt s pid = None\<close> show ?thesis
      by (simp add: fetch_page_def)
  next
    case (Some f)
    from find_victim_Some [OF assms v [unfolded Some]]
    have s1: "binv s1" "reserved evictable f s1" "pt s1 pid = None" using None by simp_all
    obtain r s2 where u: "update_page f pid s1 = (r, s2)" by force
    have s2: "binv s2" "reserved evictable f s2" using update_page_inv [OF s1 u] by simp_all
    obtain rr dest d where rd: "read_page (pid_fd pid) (pid_no pid) (data (pages s2 f)) (disk_st s2)
        = (rr, (dest, d))" by (metis prod_cases3)
    have len: "length dest = PAGE_SIZE" using read_page_length [OF rd] bpm_invD(6) [OF s2(1)] by simp
    show ?thesis
      using u
    proof (cases rule: update_page_cases)
      case (1 e d)
      with u s2 \<open>pt s pid = None\<close> v Some show ?thesis by (simp add: fetch_page_def)
    next
      case (2 d2)
      let ?p = "pages s2 f"
      have p: "id ?p = pid" "pin_count ?p = 0" using 2(2) by simp_all
      let ?q = "?p\<lparr>data := dest, id := invalid_pid\<rparr>"
      have q: "pid_no (id ?q) = INVALID_PAGE_ID" by (simp add: invalid_pid_def)
      note ins = bpm_inv_install [OF s2, of ?q]
      have "binv (install f ?q s2)" and "reserved evictable f (install f ?q s2)"
        using ins pt_invalid [OF bpm_invD(3) [OF s2(1)] q] len p by simp_all
      from bpm_inv_release [OF this] q
      have fail: "binv ((install f ?q s2)\<lparr>free_list := free_list s2 @ [f], disk_st := d\<rparr>)" by simp
      have "binv (set_page f (?p\<lparr>data := dest, pin_count := 1\<rparr>) s2)"
        using s2(2) len by (intro bpm_inv_set_page [OF s2(1)]) (auto simp: reserved_def)
      from binv_op_pin [OF this, of f]
      have ok: "binv ((set_page f (?p\<lparr>data := dest, pin_count := 1\<rparr>) s2)
          \<lparr>replacer_st := op_pin R f (replacer_st s2), disk_st := d\<rparr>)" by simp
      show ?thesis
        using \<open>pt s pid = None\<close> v Some u 2(1) rd ok
          fail [unfolded install_invalid [OF bpm_invD(3) [OF s2(1)] p(1) q]]
        by (cases rr) (simp_all add: fetch_page_def Let_def set_page_def)
    qed
  qed
qed

lemma binv_op_unpin:
  assumes "binv s" and "pt s pid = Some f" and "pin_count (pages s f) = 0"
  shows "binv (s\<lparr>replacer_st := op_unpin R f (replacer_st s)\<rparr>)"
proof -
  note i = bpm_invD [OF assms(1)]
  let ?s = "s\<lparr>replacer_st := op_unpin R f (replacer_st s)\<rparr>"
  have "evict_ok evictable ?s"
    using i(1,5) assms(2,3) table_okD(2) [OF i(3) assms(2)]
    by (auto simp: evict_ok_def contract_simps)
  moreover have "table_ok ?s" "free_ok ?s" using i(3,4) by (simp_all add: table_ok_def free_ok_def)
  ultimately show ?thesis using i by (simp add: bpm_inv_def contract_simps)
qed

lemma pinned_not_evictable:
  assumes "binv s" and "pin_count (pages s f) \<noteq> 0"
  shows "f \<notin> evictable (replacer_st s)"
  using bpm_invD(5) [OF assms(1)] assms(2) by (auto simp: evict_ok_def)

lemma unpin_page_inv:
  assumes "binv s"
  shows "binv (snd (unpin_page R pid dirty s))"
proof (cases "pt s pid")
  case (Some f)
  let ?p = "(pages s f)\<lparr>pin_count := pin_count (pages s f) - 1,
                         is_dirty := is_dirty (pages s f) \<or> dirty\<rparr>"
  show ?thesis
  proof (cases "pin_count (pages s f) \<le> 0")
    case False
    have 1: "binv (set_page f ?p s)"
      using False pinned_not_evictable [OF assms, of f] bpm_invD(6) [OF assms]
      by (intro bpm_inv_set_page [OF assms]) auto
    with binv_op_unpin [OF 1, of pid f] Some False show ?thesis
      by (simp add: unpin_page_def Let_def)
  qed (use assms Some in \<open>simp add: unpin_page_def Let_def\<close>)
qed (use assms in \<open>simp add: unpin_page_def\<close>)

lemma mark_dirty_inv: "binv s \<Longrightarrow> binv (mark_dirty f s)"
  unfolding mark_dirty_def by (rule bpm_inv_set_page) (simp_all add: bpm_invD(6))

lemma on_disk_inv [simp]: "binv (snd (on_disk m s)) = binv s"
  by (simp add: on_disk_def split: prod.split)

lemma clean_inv: "binv s \<Longrightarrow> binv (set_page f ((pages s f)\<lparr>is_dirty := False\<rparr>) s)"
  by (rule bpm_inv_set_page) (simp_all add: bpm_invD(6))

lemma flush_page_inv:
  assumes "binv s"
  shows "binv (snd (flush_page pid s))"
proof (cases "pt s pid")
  case (Some f)
  let ?w = "write_page (pid_fd pid) (pid_no pid) (data (pages s f))"
  have "binv (set_page f ((pages (s\<lparr>disk_st := d\<rparr>) f)\<lparr>is_dirty := False\<rparr>) (s\<lparr>disk_st := d\<rparr>))" for d
    by (rule clean_inv) (simp add: assms)
  then show ?thesis using assms Some
    by (cases s rule: on_disk_cases [of ?w]) (simp_all add: flush_page_def)
qed (simp add: flush_page_def assms)

lemma flush_frames_inv: "binv s \<Longrightarrow> binv (snd (flush_frames fd fl s))"
proof (induction fl arbitrary: s)
  case (Cons f fl)
  let ?w = "write_page fd (pid_no (id (pages s f))) (data (pages s f))"
  have "binv (set_page f ((pages (s\<lparr>disk_st := d\<rparr>) f)\<lparr>is_dirty := False\<rparr>) (s\<lparr>disk_st := d\<rparr>))" for d
    by (rule clean_inv) (simp add: Cons.prems)
  from Cons.IH [OF this] show ?case using Cons
    by (cases s rule: on_disk_cases [of ?w]) simp_all
qed simp

lemma new_page_inv:
  assumes "binv s" and "pt s (PageId fd (fd2pageno (disk_st s) fd)) = None"
  shows "binv (snd (new_page R fd s))"
proof -
  obtain v s1 where v: "find_victim_page R s = (v, s1)" by force
  show ?thesis
  proof (cases v)
    case None
    with find_victim_None [OF assms(1)] v assms(1) show ?thesis by (simp add: new_page_def)
  next
    case (Some f)
    from find_victim_Some [OF assms(1) v [unfolded Some]]
    have s1: "binv s1" "reserved evictable f s1" "page_table s1 = page_table s" "disk_st s1 = disk_st s"
      by simp_all
    show ?thesis
    proof (cases s1 rule: on_disk_cases [of "allocate_page fd"])
      case (1 e d)
      with s1 v Some show ?thesis by (simp add: new_page_def)
    next
      case (2 no d)
      then have no: "no = fd2pageno (disk_st s) fd"
        using s1(4) by (auto simp: allocate_page_def split: if_splits)
      let ?s = "s1\<lparr>disk_st := d\<rparr>"
      have r: "binv ?s" "reserved evictable f ?s" "pt ?s (PageId fd no) = None"
        using s1 no assms(2) by (simp_all add: reserved_def)
      obtain u s2 where u: "update_page f (PageId fd no) ?s = (u, s2)" by force
      note s2 = update_page_inv [OF r u]
      then have "binv (set_page f ((pages s2 f)\<lparr>pin_count := 1\<rparr>) s2)"
        by (intro bpm_inv_set_page) (auto simp: reserved_def bpm_invD(6))
      from binv_op_pin [OF this, of f] s2 v Some 2(1) u show ?thesis
        by (cases u) (simp_all add: new_page_def)
    qed
  qed
qed

text \<open>A mapped frame whose pin count is zero can be taken out of the pool and emptied.\<close>

lemma reserve_mapped:
  assumes "binv s" and "pt s pid = Some f"
  shows "reserved evictable f (s\<lparr>replacer_st := op_pin R f (replacer_st s)\<rparr>)"
  using bpm_invD(1,4) [OF assms(1)] table_okD(2) [OF bpm_invD(3) [OF assms(1)] assms(2)]
  by (auto simp: reserved_def free_ok_def contract_simps)

lemma delete_page_inv:
  assumes "binv s"
  shows "binv (snd (delete_page R pid s))"
proof (cases "\<exists>f. pt s pid = Some f \<and> pin_count (pages s f) = 0")
  case True
  then obtain f where f: "pt s pid = Some f" "pin_count (pages s f) = 0" by blast
  let ?s = "s\<lparr>replacer_st := op_pin R f (replacer_st s)\<rparr>"
  obtain u s1 where u: "update_page f invalid_pid ?s = (u, s1)" by force
  have "pt ?s invalid_pid = None"
    using pt_invalid [OF bpm_invD(3) [OF assms], of invalid_pid] by (simp add: invalid_pid_def)
  note s1 = update_page_inv [OF binv_op_pin [OF assms] reserve_mapped [OF assms f(1)] this u]
  have "pid_no (id (pages s1 f)) = INVALID_PAGE_ID" if "u = Inr ()"
    using u by (cases rule: update_page_cases) (use that in \<open>simp_all add: invalid_pid_def\<close>)
  with bpm_inv_release [of evictable capacity rinv s1 f] s1 f u show ?thesis
    by (cases u) (simp_all add: delete_page_def)
qed (use assms in \<open>auto simp: delete_page_def split: option.split\<close>)

lemma discard_inv:
  assumes "binv s" and "pt s pid = Some f" and "pid_no (id q) = INVALID_PAGE_ID"
    and "0 \<le> pin_count q" and "length (data q) = PAGE_SIZE"
  shows "binv ((set_page f q s)\<lparr>replacer_st := op_pin R f (replacer_st s),
            free_list := free_list s @ [f], page_table := AList.delete pid (page_table s)\<rparr>)"
proof -
  let ?s = "s\<lparr>replacer_st := op_pin R f (replacer_st s)\<rparr>"
  have i: "binv ?s" by (rule binv_op_pin [OF assms(1)])
  have id: "id (pages ?s f) = pid" using table_okD(2) [OF bpm_invD(3) [OF assms(1)] assms(2)] by simp
  note q = pt_invalid [OF bpm_invD(3) [OF i] assms(3)]
  note ins = bpm_inv_install [OF i reserve_mapped [OF assms(1,2)] q assms(4,5)]
  show ?thesis
    using bpm_inv_release [OF ins] assms(3)
    unfolding install_invalid [OF bpm_invD(3) [OF i] id assms(3)]
    by (simp add: set_page_def)
qed

lemma delete_frames_inv:
  "binv s \<Longrightarrow> \<forall>f \<in> set fl. in_pool f s \<Longrightarrow> binv (snd (delete_frames R fd fl s))"
proof (induction fl arbitrary: s)
  case (Cons f fl)
  note i = bpm_invD [OF Cons.prems(1)]
  show ?case
  proof (cases "pid_no (id (pages s f)) = INVALID_PAGE_ID")
    case False
    with table_okD(3) [OF i(3)] Cons.prems(2) have pt: "pt s (id (pages s f)) = Some f" by simp
    let ?q = "\<lparr>id = invalid_pid, data = zeros PAGE_SIZE, is_dirty = False, pin_count = 0\<rparr>"
    have "binv ((set_page f ?q s)\<lparr>replacer_st := op_pin R f (replacer_st s),
        free_list := free_list s @ [f], page_table := AList.delete (id (pages s f)) (page_table s)\<rparr>)"
      (is "binv ?s") by (rule discard_inv [OF Cons.prems(1) pt]) (simp_all add: invalid_pid_def)
    then have "binv (snd (delete_frames R fd fl (?s\<lparr>disk_st := d\<rparr>)))" for d
      using Cons.prems(2) by (intro Cons.IH) simp_all
    then show ?thesis using False Cons.prems(1)
      by (cases s rule: on_disk_cases [of "write_page fd (pid_no (id (pages s f))) (data (pages s f))"])
        (simp_all add: Let_def set_page_def)
  qed (use Cons in simp)
qed simp

lemma frames_of_fd_in_pool:
  assumes "binv s"
  shows "\<forall>f \<in> set (frames_of_fd fd s). in_pool f s"
proof
  note t = bpm_invD(3) [OF assms]
  fix f
  assume "f \<in> set (frames_of_fd fd s)"
  then obtain pid where "(pid, f) \<in> set (page_table s)" by (auto simp: frames_of_fd_def)
  then have "pt s pid = Some f" by (rule map_of_is_SomeI [OF table_okD(1) [OF t]])
  from table_okD(2) [OF t this] show "in_pool f s" by simp
qed

lemma flush_all_pages_inv: "binv s \<Longrightarrow> binv (snd (flush_all_pages fd s))"
  by (simp add: flush_all_pages_def flush_frames_inv)

lemma delete_all_pages_inv: "binv s \<Longrightarrow> binv (snd (delete_all_pages R fd s))"
  by (simp add: delete_all_pages_def delete_frames_inv frames_of_fd_in_pool)

end

end
