(* ===== verification/Buffer_Pool_Store.thy ===== *)
theory Buffer_Pool_Store
  imports Buffer_Pool_Inv
begin

text \<open>
  What the buffer pool promises its clients: on a disk whose transfers eventually succeed it is
  indistinguishable from a page store in which every page of every open file is always
  available, up to the number of pages pinned at the same time. The specification is a
  deterministic machine over page contents and pin counts; the refinement holds for every
  replacer that meets the contract, and is instantiated for \<^verbatim>\<open>LRUReplacer\<close> at the end.
\<close>

section \<open>Disks whose open files are distinct, none of them the log\<close>

definition disk_ok :: "int set \<Rightarrow> disk \<Rightarrow> bool" where
  "disk_ok F d \<longleftrightarrow> io_clean d \<and>
     (\<forall>fd \<in> F. fd_file d fd \<noteq> None \<and> 0 \<le> fd \<and> fd < MAX_FD \<and> map_of (kfd d) fd \<noteq> Some LOG_FILE_NAME) \<and>
     inj_on (map_of (kfd d)) F \<and> (log_fd d \<noteq> -1 \<longrightarrow> map_of (kfd d) (log_fd d) = Some LOG_FILE_NAME)"

definition disk_view :: "disk \<Rightarrow> page_id \<Rightarrow> bytes" where
  "disk_view d pid = disk_page d (pid_fd pid) (pid_no pid)"

abbreviation on_file :: "int set \<Rightarrow> page_id \<Rightarrow> bool" where
  "on_file F pid \<equiv> pid_fd pid \<in> F \<and> 0 \<le> pid_no pid"

lemma length_disk_page [simp]: "length (disk_page d fd no) = PAGE_SIZE"
  by (simp add: disk_page_def split: option.split)

lemma write_page_ok:
  assumes "disk_ok F d" and "on_file F pid" and "length buf = PAGE_SIZE"
  shows "\<exists>d'. write_page (pid_fd pid) (pid_no pid) buf d = Ret () d' \<and> disk_ok F d' \<and>
    fd2pageno d' = fd2pageno d \<and>
    (\<forall>q. on_file F q \<longrightarrow> disk_view d' q = (if q = pid then buf else disk_view d q))"
proof -
  let ?fd = "pid_fd pid" and ?no = "pid_no pid"
  from assms(1,2) obtain c where c: "fd_file d ?fd = Some c" by (auto simp: disk_ok_def)
  let ?c = "file_put c (nat ?no * PAGE_SIZE) buf"
  from write_page_clean [of d ?fd c ?no buf] assms c obtain ev where ev: "set ev \<subseteq> set (io d)"
    and w: "write_page ?fd ?no buf d = Ret () ((set_fd_file d ?fd ?c)\<lparr>io := ev\<rparr>)"
    by (auto simp: disk_ok_def)
  let ?d = "(set_fd_file d ?fd ?c)\<lparr>io := ev\<rparr>"
  have f: "fd_file ?d fd = (if fd = ?fd then Some ?c else fd_file d fd)" if "fd \<in> F" for fd
    using assms(1,2) that fd_file_set [OF c] fd_file_set_other [of d fd ?fd ?c]
    by (auto simp: disk_ok_def inj_on_def)
  have "disk_ok F ?d" using assms(1) ev f by (auto simp: disk_ok_def io_clean_def)
  moreover have "disk_view ?d q = (if q = pid then buf else disk_view d q)" if q: "on_file F q" for q
  proof (cases "pid_fd q = ?fd")
    case True
    show ?thesis
    proof (cases "pid_no q = ?no")
      case False
      with True page_offsets_disjoint [of ?no "pid_no q" "length buf"] q assms(2,3) f c
      show ?thesis by (auto simp: disk_view_def disk_page_def file_get_put_other simp del: fd_file_io)
    next
      case eq: True
      with True have "q = pid" by (cases q; cases pid) simp
      with f [of ?fd] assms(2,3) show ?thesis
        by (simp add: disk_view_def disk_page_def file_get_put_same del: fd_file_io)
    qed
  next
    case False
    with f [of "pid_fd q"] q show ?thesis by (auto simp: disk_view_def disk_page_def simp del: fd_file_io)
  qed
  ultimately show ?thesis using w by auto
qed

lemma disk_view_cong: "fd_file d' (pid_fd q) = fd_file d (pid_fd q) \<Longrightarrow> disk_view d' q = disk_view d q"
  by (simp add: disk_view_def disk_page_def)

lemma read_page_ok:
  assumes "disk_ok F d" and "on_file F pid" and "length dest = PAGE_SIZE"
  shows "\<exists>d'. read_page (pid_fd pid) (pid_no pid) dest d = Ret () (disk_view d pid, d') \<and>
    disk_ok F d' \<and> fd2pageno d' = fd2pageno d \<and> (\<forall>q. disk_view d' q = disk_view d q)"
proof -
  let ?fd = "pid_fd pid" and ?no = "pid_no pid"
  from assms(1,2) obtain c where c: "fd_file d ?fd = Some c" by (auto simp: disk_ok_def)
  from read_page_clean [of d ?fd c ?no dest] assms c obtain ev where ev: "set ev \<subseteq> set (io d)"
    and "read_page ?fd ?no dest d = Ret () (file_get c (nat ?no * PAGE_SIZE) PAGE_SIZE, d\<lparr>io := ev\<rparr>)"
    by (auto simp: disk_ok_def)
  moreover have "disk_ok F (d\<lparr>io := ev\<rparr>)" using assms(1) ev by (auto simp: disk_ok_def io_clean_def)
  moreover have "disk_view (d\<lparr>io := ev\<rparr>) q = disk_view d q" for q by (rule disk_view_cong) simp
  ultimately show ?thesis using c by (auto simp: disk_view_def disk_page_def)
qed

section \<open>What a client sees\<close>

definition page_view :: "'r bpm \<Rightarrow> page_id \<Rightarrow> bytes" where
  "page_view s pid =
     (case pt s pid of Some f \<Rightarrow> data (pages s f) | None \<Rightarrow> disk_view (disk_st s) pid)"

definition pin_of :: "'r bpm \<Rightarrow> page_id \<Rightarrow> nat" where
  "pin_of s pid = (case pt s pid of Some f \<Rightarrow> nat (pin_count (pages s f)) | None \<Rightarrow> 0)"

text \<open>No frame is lost: it is free, or it holds a page and can be evicted once unpinned.\<close>

definition frame_ok :: "('r \<Rightarrow> int set) \<Rightarrow> 'r bpm \<Rightarrow> int \<Rightarrow> bool" where
  "frame_ok ev s f \<longleftrightarrow> f \<in> set (free_list s) \<or>
     pid_no (id (pages s f)) \<noteq> INVALID_PAGE_ID \<and>
     (pin_count (pages s f) = 0 \<longrightarrow> f \<in> ev (replacer_st s))"

text \<open>
  \<open>W\<close> holds the pages a client has changed and not yet marked dirty. Every other clean frame
  agrees with the disk.
\<close>

definition coherent :: "page_id set \<Rightarrow> 'r bpm \<Rightarrow> bool" where
  "coherent W s \<longleftrightarrow>
     (\<forall>pid f. pt s pid = Some f \<longrightarrow> \<not> is_dirty (pages s f) \<longrightarrow> pid \<notin> W \<longrightarrow>
        data (pages s f) = disk_view (disk_st s) pid) \<and>
     (\<forall>pid \<in> W. 0 < pin_of s pid)"

definition mapped_ok :: "int set \<Rightarrow> 'r bpm \<Rightarrow> bool" where
  "mapped_ok F s \<longleftrightarrow>
     (\<forall>pid f. pt s pid = Some f \<longrightarrow> on_file F pid \<and> pid_no pid < fd2pageno (disk_st s) (pid_fd pid))"

definition pool_ok :: "('r \<Rightarrow> int set) \<Rightarrow> ('r \<Rightarrow> nat) \<Rightarrow> ('r \<Rightarrow> bool) \<Rightarrow>
    int set \<Rightarrow> page_id set \<Rightarrow> 'r bpm \<Rightarrow> bool" where
  "pool_ok ev cap ri F W s \<longleftrightarrow>
     bpm_inv ev cap ri s \<and> (\<forall>f. in_pool f s \<longrightarrow> frame_ok ev s f) \<and>
     disk_ok F (disk_st s) \<and> mapped_ok F s \<and> coherent W s"

lemma client_cong:
  assumes "pages s' = pages s" and "page_table s' = page_table s"
  shows "pin_of s' = pin_of s"
    and "disk_st s' = disk_st s \<Longrightarrow> page_view s' = page_view s"
    and "disk_st s' = disk_st s \<Longrightarrow> coherent W s' = coherent W s"
    and "disk_st s' = disk_st s \<Longrightarrow> mapped_ok F s' = mapped_ok F s"
proof -
  show p: "pin_of s' = pin_of s" by (rule ext) (simp add: pin_of_def assms cong: option.case_cong)
  show "page_view s' = page_view s" if "disk_st s' = disk_st s"
    by (rule ext) (simp add: page_view_def assms that cong: option.case_cong)
  show "coherent W s' = coherent W s" if "disk_st s' = disk_st s"
    by (simp add: coherent_def assms that p)
  show "mapped_ok F s' = mapped_ok F s" if "disk_st s' = disk_st s"
    by (simp add: mapped_ok_def assms that)
qed

lemma on_file_valid: "on_file F pid \<Longrightarrow> pid_no pid \<noteq> INVALID_PAGE_ID"
  by (simp add: INVALID_PAGE_ID_def)

lemma page_view_install:
  assumes "table_ok s" and "in_pool f s" and "pt s (id p) = None"
    and "\<And>q. on_file F q \<Longrightarrow> disk_view d q =
           (if pt s q = Some f then data (pages s f) else disk_view (disk_st s) q)"
    and "on_file F q"
  shows "page_view ((install f p s)\<lparr>disk_st := d\<rparr>) q = (if q = id p then data p else page_view s q)"
  using assms(4) [OF assms(5)] assms(3) on_file_valid [OF assms(5)]
    table_ok_inj [OF assms(1)]
  by (auto simp: page_view_def pt_install [OF assms(1-3)] split: option.split)

lemma pin_of_install:
  assumes "table_ok s" and "in_pool f s" and "pt s (id p) = None"
    and "pid_no (id (pages s f)) = INVALID_PAGE_ID \<or> pin_count (pages s f) = 0"
  shows "pin_of (install f p s) q =
    (if q = id p \<and> pid_no q \<noteq> INVALID_PAGE_ID then nat (pin_count p) else pin_of s q)"
  using assms(3,4) table_okD(2) [OF assms(1), of q f] table_ok_inj [OF assms(1)]
  by (auto simp: pin_of_def pt_install [OF assms(1-3)] split: option.split)

text \<open>Evicting a frame's page keeps its contents: they are written back unless the disk has them.\<close>

lemma update_page_ok:
  assumes "table_ok s" and "\<And>f. length (data (pages s f)) = PAGE_SIZE"
    and "disk_ok F (disk_st s)" and "mapped_ok F s" and "coherent W s" and "in_pool f s"
    and "\<And>pid. pt s pid = Some f \<Longrightarrow> pid \<notin> W"
  shows "\<exists>d. update_page f pid s = Ret () (install f
            \<lparr>id = pid, data = zeros PAGE_SIZE, is_dirty = False, pin_count = 0\<rparr> (s\<lparr>disk_st := d\<rparr>)) \<and>
     disk_ok F d \<and> fd2pageno d = fd2pageno (disk_st s) \<and>
     (\<forall>q. on_file F q \<longrightarrow> disk_view d q =
        (if pt s q = Some f then data (pages s f) else disk_view (disk_st s) q))"
proof (cases "pid_no (id (pages s f)) \<noteq> INVALID_PAGE_ID \<and> is_dirty (pages s f)")
  case True
  let ?o = "id (pages s f)"
  have o: "pt s ?o = Some f" using table_okD(3) [OF assms(1,6)] True by simp
  then have eq: "pt s q = Some f \<longleftrightarrow> q = ?o" for q using table_ok_inj [OF assms(1)] by blast
  from o have "on_file F ?o" using assms(4) by (simp add: mapped_ok_def)
  from write_page_ok [OF assms(3) this, of "data (pages s f)"] assms(2) obtain d where
    "write_page (pid_fd ?o) (pid_no ?o) (data (pages s f)) (disk_st s) = Ret () d" "disk_ok F d"
    "fd2pageno d = fd2pageno (disk_st s)"
    "\<forall>q. on_file F q \<longrightarrow> disk_view d q = (if q = ?o then data (pages s f) else disk_view (disk_st s) q)"
    by blast
  with True show ?thesis by (intro exI [of _ d]) (simp add: update_page_eq Let_def eq)
next
  case False
  have "data (pages s f) = disk_view (disk_st s) q" if "pt s q = Some f" for q
    using False that assms(5) assms(7) table_okD(2) [OF assms(1) that] by (auto simp: coherent_def)
  with False assms(3) show ?thesis
    by (intro exI [of _ "disk_st s"]) (auto simp: update_page_eq Let_def)
qed

section \<open>Client calls and the specification machine\<close>

text \<open>
  \<open>BWrite\<close> is the client's own store through the \<^verbatim>\<open>Page*\<close> it holds. The flag that
  \<^verbatim>\<open>flush_page\<close> returns tells whether the page happens to be resident and is not part of the
  contract.
\<close>

datatype bp_call =
    BFetch page_id | BWrite page_id bytes | BUnpin page_id bool | BFlush page_id
  | BNew int | BDelete page_id | BFlushAll int | BDeleteAll int

datatype bp_obs = OPage "bytes option" | OFlag bool | ONew "page_id option" | ODone

definition bp_write :: "page_id \<Rightarrow> bytes \<Rightarrow> 'r bpm \<Rightarrow> 'r bpm" where
  "bp_write pid bs s =
     (case pt s pid of None \<Rightarrow> s | Some f \<Rightarrow> set_page f ((pages s f)\<lparr>data := bs\<rparr>) s)"

definition bp_exec :: "'r replacer_ops \<Rightarrow> bp_call \<Rightarrow> 'r bpm \<Rightarrow> (bp_obs, 'r bpm) res" where
  "bp_exec R c s =
     (case c of
        BFetch pid \<Rightarrow> seqE (fetch_page R pid s)
          (\<lambda>r s1. Ret (OPage (map_option (\<lambda>f. data (pages s1 f)) r)) s1)
      | BWrite pid bs \<Rightarrow> Ret ODone (bp_write pid bs s)
      | BUnpin pid dirty \<Rightarrow> (case unpin_page R pid dirty s of (b, s1) \<Rightarrow> Ret (OFlag b) s1)
      | BFlush pid \<Rightarrow> seqE (flush_page pid s) (\<lambda>_ s1. Ret ODone s1)
      | BNew fd \<Rightarrow> seqE (new_page R fd s) (\<lambda>r s1. Ret (ONew (map_option snd r)) s1)
      | BDelete pid \<Rightarrow> seqE (delete_page R pid s) (\<lambda>b s1. Ret (OFlag b) s1)
      | BFlushAll fd \<Rightarrow> seqE (flush_all_pages fd s) (\<lambda>_ s1. Ret ODone s1)
      | BDeleteAll fd \<Rightarrow> seqE (delete_all_pages R fd s) (\<lambda>_ s1. Ret ODone s1))"

record page_store =
  store :: "page_id \<Rightarrow> bytes"
  pins :: "page_id \<Rightarrow> nat"
  pending :: "page_id set"
  next_no :: "int \<Rightarrow> int"
  nframes :: nat

definition all_pinned :: "page_store \<Rightarrow> bool" where
  "all_pinned a \<longleftrightarrow> card {pid. 0 < pins a pid} = nframes a"

definition spec_exec :: "bp_call \<Rightarrow> page_store \<Rightarrow> bp_obs \<times> page_store" where
  "spec_exec c a =
     (case c of
        BFetch pid \<Rightarrow>
          if pins a pid = 0 \<and> all_pinned a then (OPage None, a)
          else (OPage (Some (store a pid)), a\<lparr>pins := (pins a)(pid := pins a pid + 1)\<rparr>)
      | BWrite pid bs \<Rightarrow>
          (ODone, a\<lparr>store := (store a)(pid := bs), pending := insert pid (pending a)\<rparr>)
      | BUnpin pid dirty \<Rightarrow>
          if pins a pid = 0 then (OFlag False, a)
          else (OFlag True, a\<lparr>pins := (pins a)(pid := pins a pid - 1),
                             pending := (if dirty then pending a - {pid} else pending a)\<rparr>)
      | BFlush pid \<Rightarrow> (ODone, a\<lparr>pending := pending a - {pid}\<rparr>)
      | BNew fd \<Rightarrow>
          if all_pinned a then (ONew None, a)
          else let pid = PageId fd (next_no a fd) in
               (ONew (Some pid),
                a\<lparr>store := (store a)(pid := zeros PAGE_SIZE), pins := (pins a)(pid := 1),
                  pending := insert pid (pending a),
                  next_no := (next_no a)(fd := next_no a fd + 1)\<rparr>)
      | BDelete pid \<Rightarrow> (OFlag (pins a pid = 0), a)
      | BFlushAll fd \<Rightarrow> (ODone, a\<lparr>pending := {q \<in> pending a. pid_fd q \<noteq> fd}\<rparr>)
      | BDeleteAll fd \<Rightarrow>
          (ODone, a\<lparr>pins := (\<lambda>q. if pid_fd q = fd then 0 else pins a q),
                    pending := {q \<in> pending a. pid_fd q \<noteq> fd}\<rparr>))"

text \<open>
  The discipline of the clients: they fetch allocated pages of open files, write only pages they
  have pinned, and report their writes when they unpin.
\<close>

definition legal :: "int set \<Rightarrow> bp_call \<Rightarrow> page_store \<Rightarrow> bool" where
  "legal F c a =
     (case c of
        BFetch pid \<Rightarrow> on_file F pid \<and> pid_no pid < next_no a (pid_fd pid)
      | BWrite pid bs \<Rightarrow> 0 < pins a pid \<and> length bs = PAGE_SIZE
      | BUnpin pid dirty \<Rightarrow> pid \<in> pending a \<longrightarrow> dirty
      | BNew fd \<Rightarrow> fd \<in> F \<and> is_i32 (next_no a fd + 1)
      | _ \<Rightarrow> True)"

fun bp_run :: "'r replacer_ops \<Rightarrow> bp_call list \<Rightarrow> 'r bpm \<Rightarrow> (bp_obs list, 'r bpm) res" where
  "bp_run R [] s = Ret [] s"
| "bp_run R (c # cs) s =
     seqE (bp_exec R c s) (\<lambda>x s1. seqE (bp_run R cs s1) (\<lambda>xs s2. Ret (x # xs) s2))"

fun spec_run :: "bp_call list \<Rightarrow> page_store \<Rightarrow> bp_obs list \<times> page_store" where
  "spec_run [] a = ([], a)"
| "spec_run (c # cs) a =
     (case spec_exec c a of (x, a1) \<Rightarrow> (case spec_run cs a1 of (xs, a2) \<Rightarrow> (x # xs, a2)))"

fun legal_run :: "int set \<Rightarrow> bp_call list \<Rightarrow> page_store \<Rightarrow> bool" where
  "legal_run F [] a = True"
| "legal_run F (c # cs) a = (legal F c a \<and> legal_run F cs (snd (spec_exec c a)))"

section \<open>The simulation\<close>

definition store_rel :: "int set \<Rightarrow> 'r bpm \<Rightarrow> page_store \<Rightarrow> bool" where
  "store_rel F s a \<longleftrightarrow>
     (\<forall>q. on_file F q \<longrightarrow> store a q = page_view s q) \<and> pins a = pin_of s \<and>
     next_no a = fd2pageno (disk_st s) \<and> nframes a = pool_size s \<and> (\<forall>fd \<in> F. 0 \<le> next_no a fd)"

lemma pool_okD:
  assumes "pool_ok ev cap ri F W s"
  shows "bpm_inv ev cap ri s" "in_pool f s \<Longrightarrow> frame_ok ev s f" "disk_ok F (disk_st s)"
    "mapped_ok F s" "coherent W s"
  using assms by (simp_all add: pool_ok_def)

lemma store_relD:
  assumes "store_rel F s a"
  shows "on_file F q \<Longrightarrow> store a q = page_view s q" "pins a = pin_of s"
    "next_no a = fd2pageno (disk_st s)" "nframes a = pool_size s" "fd \<in> F \<Longrightarrow> 0 \<le> next_no a fd"
  using assms unfolding store_rel_def by blast+

text \<open>The pinned pages are as many as the pinned frames.\<close>

lemma card_pinned:
  assumes "table_ok s"
  shows "card {pid. 0 < pin_of s pid} =
    card {f. in_pool f s \<and> pid_no (id (pages s f)) \<noteq> INVALID_PAGE_ID \<and> 0 < pin_count (pages s f)}"
proof -
  let ?B = "{f. in_pool f s \<and> pid_no (id (pages s f)) \<noteq> INVALID_PAGE_ID \<and> 0 < pin_count (pages s f)}"
  have "pid \<in> (\<lambda>f. id (pages s f)) ` ?B" if "0 < pin_of s pid" for pid
  proof -
    from that obtain f where f: "pt s pid = Some f" "0 < pin_count (pages s f)"
      by (auto simp: pin_of_def split: option.splits)
    with table_okD(2) [OF assms f(1)] show ?thesis by (intro image_eqI [of _ _ f]) auto
  qed
  moreover have "0 < pin_of s (id (pages s f))" if "f \<in> ?B" for f
    using that table_okD(3) [OF assms, of f] by (simp add: pin_of_def)
  ultimately have "{pid. 0 < pin_of s pid} = (\<lambda>f. id (pages s f)) ` ?B" by blast
  moreover have "inj_on (\<lambda>f. id (pages s f)) ?B"
    using table_okD(3) [OF assms] by (intro inj_onI) (metis (mono_tags, lifting) mem_Collect_eq option.inject)
  ultimately show ?thesis by (simp add: card_image)
qed

lemma all_pinned_iff:
  assumes "bpm_inv ev cap ri s" and "\<And>f. in_pool f s \<Longrightarrow> frame_ok ev s f"
    and "ev (replacer_st s) \<subseteq> {0..<int (pool_size s)}"
  shows "card {pid. 0 < pin_of s pid} = pool_size s \<longleftrightarrow> free_list s = [] \<and> ev (replacer_st s) = {}"
proof -
  note t = bpm_invD(3) [OF assms(1)]
  let ?A = "{0..<int (pool_size s)}"
  let ?B = "{f. in_pool f s \<and> pid_no (id (pages s f)) \<noteq> INVALID_PAGE_ID \<and> 0 < pin_count (pages s f)}"
  have "card ?B = card ?A \<longleftrightarrow> ?B = ?A" by (metis (no_types, lifting) card_subset_eq finite_atLeastLessThan_int
        atLeastLessThan_iff mem_Collect_eq subsetI)
  also have "\<dots> \<longleftrightarrow> free_list s = [] \<and> ev (replacer_st s) = {}"
  proof
    assume e: "?B = ?A"
    have "f \<notin> set (free_list s)" for f
      using bpm_invD(4) [OF assms(1)] e by (auto simp: free_ok_def)
    moreover have "f \<notin> ev (replacer_st s)" for f
    proof
      assume f: "f \<in> ev (replacer_st s)"
      with assms(3) e have "f \<in> ?B" by blast
      with f bpm_invD(5) [OF assms(1)] show False by (auto simp: evict_ok_def)
    qed
    ultimately show "free_list s = [] \<and> ev (replacer_st s) = {}" by (cases "free_list s") auto
  next
    assume e: "free_list s = [] \<and> ev (replacer_st s) = {}"
    have "f \<in> ?B" if "in_pool f s" for f
      using assms(2) [OF that] table_okD(2) [OF t table_okD(3) [OF t that]] that e
      by (auto simp: frame_ok_def)
    then show "?B = ?A" by auto
  qed
  finally show ?thesis using card_pinned [OF t] by simp
qed

context replacer begin

abbreviation pok :: "int set \<Rightarrow> page_id set \<Rightarrow> 'r bpm \<Rightarrow> bool" where
  "pok \<equiv> pool_ok evictable capacity rinv"

lemma pok_all_pinned:
  assumes "pok F W s" and "store_rel F s a"
  shows "all_pinned a \<longleftrightarrow> free_list s = [] \<and> evictable (replacer_st s) = {}"
proof -
  note i = bpm_invD(1,2) [OF pool_okD(1) [OF assms(1)]]
  show ?thesis
    using all_pinned_iff [OF pool_okD(1,2) [OF assms(1)]] evictable_bounded [OF i(1)] i(2)
    by (simp add: all_pinned_def store_relD [OF assms(2)])
qed

lemma find_victim_iff:
  assumes "binv s"
  shows "fst (find_victim_page R s) = None \<longleftrightarrow> free_list s = [] \<and> evictable (replacer_st s) = {}"
proof
  assume "fst (find_victim_page R s) = None"
  then show "free_list s = [] \<and> evictable (replacer_st s) = {}"
    using find_victim_None [OF assms] by (metis prod.collapse)
next
  assume "free_list s = [] \<and> evictable (replacer_st s) = {}"
  then show "fst (find_victim_page R s) = None"
    using victim_none [OF bpm_invD(1) [OF assms]] by (simp add: find_victim_page_def)
qed

text \<open>The victim is unpinned, so no unreported write is lost with it.\<close>

lemma victim_unpinned:
  assumes "binv s" and "find_victim_page R s = (Some f, s1)"
  shows "pid_no (id (pages s f)) = INVALID_PAGE_ID \<or> pin_count (pages s f) = 0"
  using find_victim_Some [OF assms] bpm_invD(4,5) [OF assms(1)]
  by (auto simp: free_ok_def evict_ok_def)

lemma victim_frame_ok:
  assumes "binv s" and "find_victim_page R s = (Some f, s1)" and "frame_ok evictable s g" and "g \<noteq> f"
  shows "frame_ok evictable s1 g"
proof -
  note fv = find_victim_Some [OF assms(1,2)]
  then have p: "pages s1 = pages s" by simp
  from fv consider fl where "free_list s = f # fl" "free_list s1 = fl" "replacer_st s1 = replacer_st s"
    | "free_list s = []" "free_list s1 = []" "evictable (replacer_st s1) = evictable (replacer_st s) - {f}"
    by blast
  then show ?thesis by cases (use assms(3,4) p in \<open>simp_all add: frame_ok_def\<close>)
qed

lemma unpinned_not_pending:
  assumes "coherent W s" and "table_ok s" and "pt s q = Some f"
    and "pid_no (id (pages s f)) = INVALID_PAGE_ID \<or> pin_count (pages s f) = 0"
  shows "q \<notin> W"
  using assms(1,3,4) table_okD(2) [OF assms(2,3)] by (auto simp: coherent_def pin_of_def)

text \<open>Coherence and the frame invariant after a frame has been given another page.\<close>

lemma coherent_install:
  assumes "table_ok s" and "in_pool f s" and "pt s (id p) = None" and "coherent W s"
    and "mapped_ok F s"
    and "pid_no (id (pages s f)) = INVALID_PAGE_ID \<or> pin_count (pages s f) = 0"
    and "\<And>q. on_file F q \<Longrightarrow> disk_view d q =
           (if pt s q = Some f then data (pages s f) else disk_view (disk_st s) q)"
    and "id p \<in> W' \<and> 0 < pin_count p \<and> on_file F (id p) \<or> data p = disk_view d (id p) \<and> W' = W \<or>
         pid_no (id p) = INVALID_PAGE_ID \<and> W' = W"
    and "W' \<subseteq> insert (id p) W" and "W \<subseteq> W'"
  shows "coherent W' ((install f p s)\<lparr>disk_st := d\<rparr>)"
  unfolding coherent_def
proof (intro conjI allI impI ballI)
  let ?s = "(install f p s)\<lparr>disk_st := d\<rparr>"
  note pi = pt_install [OF assms(1-3)]
  fix q g
  assume q: "pt ?s q = Some g" and "\<not> is_dirty (pages ?s g)" and "q \<notin> W'"
  show "data (pages ?s g) = disk_view (disk_st ?s) q"
  proof (cases "q = id p \<and> pid_no q \<noteq> INVALID_PAGE_ID")
    case True
    with q pi [of q] have "g = f" by (simp split: if_splits)
    with True assms(8) \<open>q \<notin> W'\<close> show ?thesis by auto
  next
    case False
    with q have sq: "pt s q = Some g" "g \<noteq> f" by (auto simp: pi split: if_splits)
    with assms(5) have "on_file F q" by (auto simp: mapped_ok_def)
    with assms(4,7) sq \<open>\<not> is_dirty (pages ?s g)\<close> \<open>q \<notin> W'\<close> assms(10) show ?thesis
      by (auto simp: coherent_def)
  qed
next
  let ?s = "(install f p s)\<lparr>disk_st := d\<rparr>"
  fix q
  assume q: "q \<in> W'"
  have eq: "pin_of ?s = pin_of (install f p s)" by (rule client_cong) simp_all
  show "0 < pin_of ?s q"
  proof (cases "q \<in> W")
    case True
    then have "0 < pin_of s q" using assms(4) by (simp add: coherent_def)
    moreover from this assms(3) have "q \<noteq> id p" by (auto simp: pin_of_def)
    ultimately show ?thesis unfolding eq pin_of_install [OF assms(1-3,6)] by simp
  next
    case False
    with q assms(8,9) have "q = id p" "0 < pin_count p" "on_file F q" by auto
    then show ?thesis using on_file_valid unfolding eq pin_of_install [OF assms(1-3,6)] by auto
  qed
qed

lemma mapped_ok_install:
  assumes "table_ok s" and "in_pool f s" and "pt s (id p) = None" and "mapped_ok F s"
    and "\<And>fd. fd2pageno (disk_st s) fd \<le> fd2pageno d fd"
    and "pid_no (id p) \<noteq> INVALID_PAGE_ID \<Longrightarrow>
           on_file F (id p) \<and> pid_no (id p) < fd2pageno d (pid_fd (id p))"
  shows "mapped_ok F ((install f p s)\<lparr>disk_st := d\<rparr>)"
  unfolding mapped_ok_def
proof (intro allI impI)
  let ?s = "(install f p s)\<lparr>disk_st := d\<rparr>"
  fix q g
  assume "pt ?s q = Some g"
  then have "q = id p \<and> pid_no q \<noteq> INVALID_PAGE_ID \<or> pt s q = Some g"
    by (auto simp: pt_install [OF assms(1-3)] split: if_splits)
  then show "on_file F q \<and> pid_no q < fd2pageno (disk_st ?s) (pid_fd q)"
    using assms(4) assms(5) [of "pid_fd q"] assms(6) unfolding mapped_ok_def by fastforce
qed

text \<open>The page that a fetch reads or a \<^verbatim>\<open>new_page\<close> zeroes, placed into the victim's frame.\<close>

lemma place_ok:
  assumes ok: "pok F W s" and v: "find_victim_page R s = (Some f, s1)"
    and new: "pt s (id p) = None" "on_file F (id p)" "pin_count p = 1" "length (data p) = PAGE_SIZE"
    and d: "disk_ok F d" "\<And>fd. fd2pageno (disk_st s) fd \<le> fd2pageno d fd"
      "pid_no (id p) < fd2pageno d (pid_fd (id p))"
      "\<And>q. on_file F q \<Longrightarrow> disk_view d q =
           (if pt s q = Some f then data (pages s f) else disk_view (disk_st s) q)"
    and W': "W' = insert (id p) W \<or> W' = W \<and> data p = disk_view d (id p)"
  defines "s' \<equiv> ((install f p s1)\<lparr>disk_st := d\<rparr>)\<lparr>replacer_st := op_pin R f (replacer_st s1)\<rparr>"
  shows "pok F W' s'" and "on_file F q \<Longrightarrow> page_view s' q = (if q = id p then data p else page_view s q)"
    and "pin_of s' = (pin_of s)(id p := 1)" and "pool_size s' = pool_size s"
    and "data (pages s' f) = data p"
proof -
  note i = pool_okD [OF ok] and fv = find_victim_Some [OF pool_okD(1) [OF ok] v]
  note un = victim_unpinned [OF i(1) v]
  from fv have s1: "binv s1" "reserved evictable f s1" "pages s1 = pages s" "page_table s1 = page_table s"
    "disk_st s1 = disk_st s" "pool_size s1 = pool_size s" by simp_all
  have pool: "in_pool f s1" using s1(2) by (simp add: reserved_def)
  note t = bpm_invD(3) [OF s1(1)]
  have n1: "pt s1 (id p) = None" "coherent W s1" "mapped_ok F s1"
    "pid_no (id (pages s1 f)) = INVALID_PAGE_ID \<or> pin_count (pages s1 f) = 0"
    using new i(4,5) s1(3-5) un client_cong(3) [OF s1(3-5)] client_cong(4) [OF s1(3-5)] by simp_all
  have d1: "disk_view d q = (if pt s1 q = Some f then data (pages s1 f) else disk_view (disk_st s1) q)"
    if "on_file F q" for q using d(4) [OF that] s1 by simp
  let ?t = "(install f p s1)\<lparr>disk_st := d\<rparr>"
  have "binv ?t" using bpm_inv_install [OF s1(1,2) n1(1)] new by simp
  from binv_op_pin [OF this, of f] have inv: "binv s'" by (simp add: s'_def)
  have co: "coherent W' ?t"
    by (rule coherent_install [OF t pool n1(1,2,3,4) d1]) (use W' new in auto)
  have ma: "mapped_ok F ?t"
    by (rule mapped_ok_install [OF t pool n1(1,3)]) (use d s1 new in auto)
  have fr: "frame_ok evictable s' g" if "in_pool g s'" for g
  proof (cases "g = f")
    case True
    then show ?thesis using new on_file_valid [OF new(2)] by (simp add: frame_ok_def s'_def)
  next
    case False
    have "in_pool g s" using that s1 by (simp add: s'_def)
    with i(2) have "frame_ok evictable s1 g" using victim_frame_ok [OF i(1) v] False by simp
    then show ?thesis using False bpm_invD(1) [OF s1(1)]
      by (auto simp: frame_ok_def s'_def contract_simps)
  qed
  have "coherent W' s' = coherent W' ?t" by (rule client_cong) (simp_all add: s'_def)
  moreover have "mapped_ok F s' = mapped_ok F ?t" by (rule client_cong) (simp_all add: s'_def)
  moreover have "disk_st s' = d" by (simp add: s'_def)
  ultimately show "pok F W' s'" using inv fr d(1) co ma by (simp add: pool_ok_def)
  show "page_view s' q = (if q = id p then data p else page_view s q)" if "on_file F q" for q
  proof -
    have "page_view s' = page_view ?t" by (rule client_cong) (simp_all add: s'_def)
    then have "page_view s' q = page_view ?t q" by simp
    also have "\<dots> = (if q = id p then data p else page_view s1 q)"
      by (rule page_view_install [OF t pool n1(1) d1 that])
    also have "page_view s1 = page_view s" by (rule client_cong) (use s1 in simp_all)
    finally show ?thesis .
  qed
  have "pin_of s' = pin_of (install f p s1)" by (rule client_cong) (simp_all add: s'_def)
  moreover have "pin_of s1 = pin_of s" by (rule client_cong) (use s1 in simp_all)
  ultimately show "pin_of s' = (pin_of s)(id p := 1)"
    using pin_of_install [OF t pool n1(1,4)] new(3) on_file_valid [OF new(2)] by auto
  show "pool_size s' = pool_size s" "data (pages s' f) = data p" using s1 by (simp_all add: s'_def)
qed

text \<open>Changing a resident page in place: its contents, flags, pin count, and its copy on disk.\<close>

lemma touch_ok:
  assumes ok: "pok F W s" and f: "pt s pid = Some f" and p: "id p = pid" "0 \<le> pin_count p"
    and inv: "binv (s\<lparr>pages := (pages s)(f := p), replacer_st := r, disk_st := d\<rparr>)"
    and r: "pin_count p = 0 \<Longrightarrow> f \<in> evictable r"
      "\<And>g. g \<noteq> f \<Longrightarrow> g \<in> evictable (replacer_st s) \<Longrightarrow> g \<in> evictable r"
    and d: "disk_ok F d" "fd2pageno d = fd2pageno (disk_st s)"
      "\<And>q. on_file F q \<Longrightarrow> q \<noteq> pid \<Longrightarrow> disk_view d q = disk_view (disk_st s) q"
    and w: "\<not> is_dirty p \<Longrightarrow> pid \<notin> W' \<Longrightarrow> data p = disk_view d pid"
      "W' - {pid} = W - {pid}" "pid \<in> W' \<Longrightarrow> 0 < pin_count p"
  defines "s' \<equiv> s\<lparr>pages := (pages s)(f := p), replacer_st := r, disk_st := d\<rparr>"
  shows "pok F W' s'" and "on_file F q \<Longrightarrow> page_view s' q = (if q = pid then data p else page_view s q)"
    and "pin_of s' = (pin_of s)(pid := nat (pin_count p))"
proof -
  note i = pool_okD [OF ok]
  note t = bpm_invD(3) [OF i(1)]
  have pt': "page_table s' = page_table s" "pages s' = (pages s)(f := p)" "disk_st s' = d"
    "replacer_st s' = r" "free_list s' = free_list s" "pool_size s' = pool_size s"
    by (simp_all add: s'_def)
  have other: "g \<noteq> f" if "pt s q = Some g" "q \<noteq> pid" for q g
    using table_ok_inj [OF t f] that by blast
  have valid: "pid_no (id p) \<noteq> INVALID_PAGE_ID" using table_okD(2) [OF t f] p by simp
  show pin: "pin_of s' = (pin_of s)(pid := nat (pin_count p))"
  proof
    fix q
    show "pin_of s' q = ((pin_of s)(pid := nat (pin_count p))) q"
      using f other [of q] by (cases "pt s q") (auto simp: pin_of_def pt')
  qed
  have fr: "frame_ok evictable s' g" if "in_pool g s'" for g
  proof -
    have "frame_ok evictable s g" using i(2) that pt' by simp
    then show ?thesis using r valid by (cases "g = f") (auto simp: frame_ok_def pt')
  qed
  have mo: "mapped_ok F s'" using i(4) d(2) by (simp add: mapped_ok_def pt')
  have co: "coherent W' s'"
    unfolding coherent_def
  proof (intro conjI allI impI ballI)
    fix q g
    assume q: "pt s' q = Some g" "\<not> is_dirty (pages s' g)" "q \<notin> W'"
    show "data (pages s' g) = disk_view (disk_st s') q"
    proof (cases "q = pid")
      case False
      have g: "pt s q = Some g" "g \<noteq> f" using q(1) other False by (auto simp: pt')
      moreover have "on_file F q" using i(4) g(1) by (auto simp: mapped_ok_def)
      moreover have "q \<notin> W" using w(2) q(3) False by blast
      ultimately show ?thesis using i(5) q(2) d(3) False by (auto simp: coherent_def pt')
    qed (use q f w(1) in \<open>auto simp: pt'\<close>)
  next
    fix q
    assume q: "q \<in> W'"
    show "0 < pin_of s' q"
    proof (cases "q = pid")
      case False
      then have "q \<in> W" using w(2) q by blast
      then show ?thesis using i(5) False pin by (simp add: coherent_def)
    qed (use q w(3) pin in simp)
  qed
  show "pok F W' s'" using inv fr mo co d(1) by (simp add: pool_ok_def pt' s'_def [symmetric])
  show "page_view s' q = (if q = pid then data p else page_view s q)" if "on_file F q" for q
    using f other [of q] d(3) [OF that] by (cases "pt s q") (auto simp: page_view_def pt')
qed

abbreviation sim :: "int set \<Rightarrow> 'r bpm \<Rightarrow> page_store \<Rightarrow> bool" where
  "sim F s a \<equiv> pok F (pending a) s \<and> store_rel F s a"

lemma fetch_page_miss:
  assumes ok: "pok F W s" and pid: "pt s pid = None" "on_file F pid"
    "pid_no pid < fd2pageno (disk_st s) (pid_fd pid)" and v: "find_victim_page R s = (Some f, s1)"
  shows "\<exists>s'. fetch_page R pid s = Ret (Some f) s' \<and> pok F W s' \<and>
    (\<forall>q. on_file F q \<longrightarrow> page_view s' q = page_view s q) \<and> pin_of s' = (pin_of s)(pid := 1) \<and>
    pool_size s' = pool_size s \<and> fd2pageno (disk_st s') = fd2pageno (disk_st s) \<and>
    data (pages s' f) = page_view s pid"
proof -
  note i = pool_okD [OF ok] and fv = find_victim_Some [OF pool_okD(1) [OF ok] v]
  from fv have s1: "binv s1" "reserved evictable f s1" "pages s1 = pages s" "page_table s1 = page_table s"
    "disk_st s1 = disk_st s" by simp_all
  note t = bpm_invD(3) [OF s1(1)]
  have c1: "coherent W s1" "mapped_ok F s1"
    using i(4,5) client_cong(3) [OF s1(3-5)] client_cong(4) [OF s1(3-5)] by simp_all
  have pool: "in_pool f s1" using s1(2) by (simp add: reserved_def)
  have nW: "q \<notin> W" if "pt s1 q = Some f" for q
    using unpinned_not_pending [OF c1(1) t that] victim_unpinned [OF i(1) v] s1(3) by simp
  obtain d where u: "update_page f pid s1 = Ret () (install f
          \<lparr>id = pid, data = zeros PAGE_SIZE, is_dirty = False, pin_count = 0\<rparr> (s1\<lparr>disk_st := d\<rparr>))"
    and d: "disk_ok F d" "fd2pageno d = fd2pageno (disk_st s)"
      "\<And>q. on_file F q \<Longrightarrow> disk_view d q =
         (if pt s q = Some f then data (pages s f) else disk_view (disk_st s) q)"
    using update_page_ok [OF t bpm_invD(6) [OF s1(1)] _ c1(2,1) pool nW, of pid] i(3) s1(3-5) by auto
  let ?s2 = "install f \<lparr>id = pid, data = zeros PAGE_SIZE, is_dirty = False, pin_count = 0\<rparr>
               (s1\<lparr>disk_st := d\<rparr>)"
  from read_page_ok [OF d(1) pid(2), of "zeros PAGE_SIZE"] obtain d' where
    rd: "read_page (pid_fd pid) (pid_no pid) (zeros PAGE_SIZE) d = Ret () (disk_view d pid, d')"
    and d': "disk_ok F d'" "fd2pageno d' = fd2pageno d" "\<And>q. disk_view d' q = disk_view d q" by auto
  have view: "disk_view d pid = page_view s pid" using d(3) [OF pid(2)] pid(1) by (simp add: page_view_def)
  let ?p = "\<lparr>id = pid, data = page_view s pid, is_dirty = False, pin_count = 1\<rparr>"
  let ?s' = "((install f ?p s1)\<lparr>disk_st := d'\<rparr>)\<lparr>replacer_st := op_pin R f (replacer_st s1)\<rparr>"
  have fetch: "fetch_page R pid s = Ret (Some f) ?s'"
    using pid(1) v u rd view
    by (simp add: fetch_page_def set_page_def install_def Let_def)
  have len: "length (page_view s pid) = PAGE_SIZE"
    using view by (metis disk_view_def length_disk_page)
  note pl = place_ok [OF ok v, of ?p d' W]
  have "pok F W ?s' \<and> (\<forall>q. on_file F q \<longrightarrow> page_view ?s' q = page_view s q) \<and>
      pin_of ?s' = (pin_of s)(pid := 1) \<and> pool_size ?s' = pool_size s \<and>
      data (pages ?s' f) = page_view s pid"
    using pl pid d d' view len by simp
  with fetch d' d show ?thesis by (intro exI [of _ ?s']) simp
qed

lemma store_relI:
  assumes "\<And>q. on_file F q \<Longrightarrow> store a q = page_view s q" and "pins a = pin_of s"
    and "next_no a = fd2pageno (disk_st s)" and "nframes a = pool_size s"
    and "\<And>fd. fd \<in> F \<Longrightarrow> 0 \<le> next_no a fd"
  shows "store_rel F s a"
  using assms unfolding store_rel_def by blast

lemma length_page_view: "binv s \<Longrightarrow> length (page_view s pid) = PAGE_SIZE"
  by (simp add: page_view_def disk_view_def bpm_invD(6) split: option.split)

definition simulates :: "int set \<Rightarrow> bp_call \<Rightarrow> 'r bpm \<Rightarrow> page_store \<Rightarrow> bool" where
  "simulates F c s a \<longleftrightarrow>
     (\<exists>s'. bp_exec R c s = Ret (fst (spec_exec c a)) s' \<and> sim F s' (snd (spec_exec c a)))"

lemma sim_fetch:
  assumes "sim F s a" and "legal F (BFetch pid) a"
  shows "simulates F (BFetch pid) s a"
proof -
  have ok: "pok F (pending a) s" and rel: "store_rel F s a" using assms(1) by simp_all
  note i = pool_okD [OF ok] and sr = store_relD [OF rel]
  have pid: "on_file F pid" "pid_no pid < fd2pageno (disk_st s) (pid_fd pid)"
    using assms(2) sr(3) by (simp_all add: legal_def)
  show ?thesis
  proof (cases "pt s pid")
    case (Some f)
    let ?p = "(pages s f)\<lparr>pin_count := pin_count (pages s f) + 1\<rparr>"
    let ?s' = "s\<lparr>pages := (pages s)(f := ?p), replacer_st := op_pin R f (replacer_st s),
                 disk_st := disk_st s\<rparr>"
    have fx: "fetch_page R pid s = Ret (Some f) ?s'"
      unfolding fetch_page_hit [OF Some] by (simp add: set_page_def)
    have inv: "binv ?s'" using fetch_page_inv [OF i(1), of pid] fx by simp
    note t = table_okD(2) [OF bpm_invD(3) [OF i(1)] Some]
    have "\<not> is_dirty ?p \<Longrightarrow> pid \<notin> pending a \<Longrightarrow> data ?p = disk_view (disk_st s) pid"
      using i(5) Some by (simp add: coherent_def)
    note to = touch_ok [OF ok Some _ _ inv, of "pending a", OF _ _ _ _ i(3) _ _ this]
    have res: "pok F (pending a) ?s'" "\<And>q. on_file F q \<Longrightarrow> page_view ?s' q = page_view s q"
      "pin_of ?s' = (pin_of s)(pid := pin_of s pid + 1)"
      using to t bpm_invD(1) [OF i(1)] Some
      by (auto simp: contract_simps page_view_def pin_of_def nat_add_distrib)
    have np: "\<not> (pin_of s pid = 0 \<and> all_pinned a)"
    proof
      assume "pin_of s pid = 0 \<and> all_pinned a"
      then have z: "pin_count (pages s f) = 0" "evictable (replacer_st s) = {}" "free_list s = []"
        using Some t pok_all_pinned [OF ok rel] by (simp_all add: pin_of_def)
      have "in_pool f s" using t by simp
      from i(2) [OF this] z show False by (simp add: frame_ok_def)
    qed
    have st: "store a pid = data (pages s f)" using sr(1) [OF pid(1)] Some by (simp add: page_view_def)
    have "store_rel F ?s' (a\<lparr>pins := (pins a)(pid := pins a pid + 1)\<rparr>)"
      by (rule store_relI) (use sr res in auto)
    with np res(1) fx st sr(2) show ?thesis
      by (simp add: simulates_def bp_exec_def spec_exec_def)
  next
    case None
    obtain v s1 where v: "find_victim_page R s = (v, s1)" by force
    have ap: "all_pinned a \<longleftrightarrow> v = None"
      using find_victim_iff [OF i(1)] pok_all_pinned [OF ok rel] v by simp
    have p0: "pins a pid = 0" using None sr(2) by (simp add: pin_of_def)
    show ?thesis
    proof (cases v)
      case None
      with find_victim_None [OF i(1)] v have "s1 = s" by simp
      with \<open>pt s pid = None\<close> None v ap p0 assms(1) show ?thesis
        by (simp add: simulates_def bp_exec_def spec_exec_def fetch_page_def)
    next
      case (Some f)
      from fetch_page_miss [OF ok \<open>pt s pid = None\<close> pid v [unfolded Some]] obtain s' where
        fx: "fetch_page R pid s = Ret (Some f) s'" and s': "pok F (pending a) s'"
        "\<And>q. on_file F q \<Longrightarrow> page_view s' q = page_view s q" "pin_of s' = (pin_of s)(pid := 1)"
        "pool_size s' = pool_size s" "fd2pageno (disk_st s') = fd2pageno (disk_st s)"
        "data (pages s' f) = page_view s pid" by blast
      have "store_rel F s' (a\<lparr>pins := (pins a)(pid := Suc 0)\<rparr>)"
        by (rule store_relI) (use sr s' in auto)
      with fx s' Some ap p0 sr(1) [OF pid(1)] show ?thesis
        by (simp add: simulates_def bp_exec_def spec_exec_def)
    qed
  qed
qed

lemma sim_write:
  assumes "sim F s a" and "legal F (BWrite pid bs) a"
  shows "simulates F (BWrite pid bs) s a"
proof -
  have ok: "pok F (pending a) s" and rel: "store_rel F s a" using assms(1) by simp_all
  note i = pool_okD [OF ok] and sr = store_relD [OF rel]
  have l: "0 < pin_of s pid" "length bs = PAGE_SIZE" using assms(2) sr(2) by (simp_all add: legal_def)
  then obtain f where f: "pt s pid = Some f" "0 < pin_count (pages s f)"
    by (auto simp: pin_of_def split: option.splits)
  let ?p = "(pages s f)\<lparr>data := bs\<rparr>" and ?W = "insert pid (pending a)"
  let ?s' = "s\<lparr>pages := (pages s)(f := ?p), replacer_st := replacer_st s, disk_st := disk_st s\<rparr>"
  have "binv (set_page f ?p s)" using l by (intro bpm_inv_set_page [OF i(1)]) simp_all
  then have inv: "binv ?s'" by (simp add: set_page_def)
  note t = table_okD(2) [OF bpm_invD(3) [OF i(1)] f(1)]
  note to = touch_ok [OF ok f(1) _ _ inv, of ?W, OF _ _ _ _ i(3)]
  have res: "pok F ?W ?s'" "\<And>q. on_file F q \<Longrightarrow> page_view ?s' q = (if q = pid then bs else page_view s q)"
    "pin_of ?s' = pin_of s"
    using to t f by (auto simp: pin_of_def)
  have "store_rel F ?s' (a\<lparr>store := (store a)(pid := bs), pending := ?W\<rparr>)"
    by (rule store_relI) (use sr res in auto)
  with res(1) f(1) show ?thesis
    by (simp add: simulates_def bp_exec_def spec_exec_def bp_write_def set_page_def)
qed

lemma sim_unpin:
  assumes "sim F s a" and "legal F (BUnpin pid dirty) a"
  shows "simulates F (BUnpin pid dirty) s a"
proof (cases "pins a pid = 0")
  case True
  have "store_rel F s a" using assms(1) by simp
  from True store_relD(2) [OF this] have "pin_of s pid = 0" by simp
  then have "unpin_page R pid dirty s = (False, s)"
    by (auto simp: unpin_page_def pin_of_def Let_def split: option.splits)
  with True assms(1) show ?thesis by (simp add: simulates_def bp_exec_def spec_exec_def)
next
  case False
  have ok: "pok F (pending a) s" and rel: "store_rel F s a" using assms(1) by simp_all
  note i = pool_okD [OF ok] and sr = store_relD [OF rel]
  from False sr(2) obtain f where f: "pt s pid = Some f" "0 < pin_count (pages s f)"
    by (auto simp: pin_of_def split: option.splits)
  let ?p = "(pages s f)\<lparr>pin_count := pin_count (pages s f) - 1, is_dirty := is_dirty (pages s f) \<or> dirty\<rparr>"
  let ?r = "if pin_count (pages s f) = 1 then op_unpin R f (replacer_st s) else replacer_st s"
  let ?s' = "s\<lparr>pages := (pages s)(f := ?p), replacer_st := ?r, disk_st := disk_st s\<rparr>"
  let ?W = "if dirty then pending a - {pid} else pending a"
  have ux: "unpin_page R pid dirty s = (True, ?s')" using f by (simp add: unpin_page_def Let_def set_page_def)
  have inv: "binv ?s'" using unpin_page_inv [OF i(1), of pid dirty] ux by simp
  note t = table_okD(2) [OF bpm_invD(3) [OF i(1)] f(1)]
  have cap: "f < int (capacity (replacer_st s))" using t bpm_invD(2) [OF i(1)] by simp
  have nd: "\<not> is_dirty ?p \<Longrightarrow> pid \<notin> ?W \<Longrightarrow> data ?p = disk_view (disk_st s) pid"
    using i(5) f(1) by (auto simp: coherent_def split: if_splits)
  have nW: "pid \<notin> ?W" using assms(2) by (auto simp: legal_def)
  have pv: "page_view s pid = data (pages s f)" "pin_of s pid = nat (pin_count (pages s f))"
    using f by (simp_all add: page_view_def pin_of_def)
  have e: "pin_count ?p = 0 \<Longrightarrow> f \<in> evictable ?r"
    "\<And>g. g \<noteq> f \<Longrightarrow> g \<in> evictable (replacer_st s) \<Longrightarrow> g \<in> evictable ?r"
    using t cap bpm_invD(1) [OF i(1)] by (auto simp: contract_simps)
  have W: "?W - {pid} = pending a - {pid}" by auto
  have id: "id ?p = pid" "0 \<le> pin_count ?p" using t f by simp_all
  have "pok F ?W ?s'"
    by (rule touch_ok(1) [OF ok f(1) id inv]) (use e nd W nW i(3) in blast)+
  moreover have "page_view ?s' q = (if q = pid then data ?p else page_view s q)" if "on_file F q" for q
    by (rule touch_ok(2) [OF ok f(1) id inv, where W' = ?W]) (use e nd W nW i(3) that in blast)+
  moreover have "pin_of ?s' = (pin_of s)(pid := nat (pin_count ?p))"
    by (rule touch_ok(3) [OF ok f(1) id inv, where W' = ?W]) (use e nd W nW i(3) in blast)+
  ultimately have res: "pok F ?W ?s'" "\<And>q. on_file F q \<Longrightarrow> page_view ?s' q = page_view s q"
    "pin_of ?s' = (pin_of s)(pid := pin_of s pid - 1)"
    using pv f(2) by (simp_all add: nat_diff_distrib)
  have "store_rel F ?s' (a\<lparr>pins := (pins a)(pid := pins a pid - 1), pending := ?W\<rparr>)"
    by (rule store_relI) (use sr res in auto)
  with False ux res(1) show ?thesis
    by (simp add: simulates_def bp_exec_def spec_exec_def)
qed

text \<open>Writing a resident page back.\<close>

lemma flush_frame_ok:
  assumes ok: "pok F W s" and f: "pt s pid = Some f"
  shows "\<exists>s'. on_disk (write_page (pid_fd pid) (pid_no pid) (data (pages s f))) s = Ret () s' \<and>
    (let s2 = set_page f ((pages s' f)\<lparr>is_dirty := False\<rparr>) s' in
     pok F (W - {pid}) s2 \<and> (\<forall>q. on_file F q \<longrightarrow> page_view s2 q = page_view s q) \<and>
     pin_of s2 = pin_of s \<and> pool_size s2 = pool_size s \<and>
     fd2pageno (disk_st s2) = fd2pageno (disk_st s) \<and> page_table s2 = page_table s \<and>
     (\<forall>q. on_file F q \<longrightarrow> disk_view (disk_st s2) q =
        (if q = pid then page_view s q else disk_view (disk_st s) q)))"
proof -
  note i = pool_okD [OF ok]
  note t = table_okD(2) [OF bpm_invD(3) [OF i(1)] f]
  have pid: "on_file F pid" using i(4) f by (simp add: mapped_ok_def)
  from write_page_ok [OF i(3) this bpm_invD(6) [OF i(1), of f]] obtain d where
    w: "write_page (pid_fd pid) (pid_no pid) (data (pages s f)) (disk_st s) = Ret () d"
    and d: "disk_ok F d" "fd2pageno d = fd2pageno (disk_st s)"
      "\<And>q. on_file F q \<Longrightarrow> disk_view d q = (if q = pid then data (pages s f) else disk_view (disk_st s) q)"
    by blast
  let ?p = "(pages s f)\<lparr>is_dirty := False\<rparr>"
  let ?s' = "s\<lparr>pages := (pages s)(f := ?p), replacer_st := replacer_st s, disk_st := d\<rparr>"
  have inv: "binv ?s'" using clean_inv [OF i(1), of f] by (simp add: set_page_def)
  have e: "pin_count (pages s f) = 0 \<Longrightarrow> f \<in> evictable (replacer_st s)"
    using i(2) [of f] t bpm_invD(4) [OF i(1)] by (auto simp: frame_ok_def free_ok_def)
  note to = touch_ok [OF ok f _ _ inv, of "W - {pid}", OF _ _ _ _ d(1,2)]
  have "pok F (W - {pid}) ?s'" "\<And>q. on_file F q \<Longrightarrow> page_view ?s' q = page_view s q"
    "pin_of ?s' = pin_of s"
    using to t e d(3) pid f by (auto simp: page_view_def pin_of_def)
  with w d(2,3) pid f show ?thesis
    by (simp add: on_disk_def set_page_def page_view_def)
qed

lemma sim_flush:
  assumes "sim F s a"
  shows "simulates F (BFlush pid) s a"
proof (cases "pt s pid")
  case None
  have ok: "pok F (pending a) s" and rel: "store_rel F s a" using assms(1) by simp_all
  have "pid \<notin> pending a" using pool_okD(5) [OF ok] None by (auto simp: coherent_def pin_of_def)
  then have "a\<lparr>pending := pending a - {pid}\<rparr> = a" by simp
  with None assms show ?thesis
    by (simp add: simulates_def bp_exec_def spec_exec_def flush_page_def)
next
  case (Some f)
  have ok: "pok F (pending a) s" and rel: "store_rel F s a" using assms(1) by simp_all
  note sr = store_relD [OF rel]
  have v: "pid_no pid \<noteq> INVALID_PAGE_ID"
    using table_okD(2) [OF bpm_invD(3) [OF pool_okD(1) [OF ok]] Some] by simp
  from flush_frame_ok [OF ok Some] obtain s' where
    w: "on_disk (write_page (pid_fd pid) (pid_no pid) (data (pages s f))) s = Ret () s'" and
    s2: "let s2 = set_page f ((pages s' f)\<lparr>is_dirty := False\<rparr>) s' in
     pok F (pending a - {pid}) s2 \<and> (\<forall>q. on_file F q \<longrightarrow> page_view s2 q = page_view s q) \<and>
     pin_of s2 = pin_of s \<and> pool_size s2 = pool_size s \<and>
     fd2pageno (disk_st s2) = fd2pageno (disk_st s)"
    by (auto simp: Let_def)
  let ?s2 = "set_page f ((pages s' f)\<lparr>is_dirty := False\<rparr>) s'"
  have "store_rel F ?s2 (a\<lparr>pending := pending a - {pid}\<rparr>)"
    by (rule store_relI) (use sr s2 in \<open>auto simp: Let_def\<close>)
  with w s2 Some v show ?thesis
    by (simp add: simulates_def bp_exec_def spec_exec_def flush_page_def Let_def)
qed

lemma allocate_disk:
  assumes "disk_ok F d" and "fd \<in> F" and "is_i32 (fd2pageno d fd + 1)"
  shows "allocate_page fd d = Ret (fd2pageno d fd)
           (d\<lparr>fd2pageno := (fd2pageno d)(fd := fd2pageno d fd + 1)\<rparr>)"
  using assms by (simp add: allocate_page_def disk_ok_def)

lemma disk_fd2pageno [simp]:
  "fd_file (d\<lparr>fd2pageno := g\<rparr>) fd = fd_file d fd" "io_clean (d\<lparr>fd2pageno := g\<rparr>) = io_clean d"
  "disk_ok F (d\<lparr>fd2pageno := g\<rparr>) = disk_ok F d" "disk_view (d\<lparr>fd2pageno := g\<rparr>) q = disk_view d q"
proof -
  show 1: "fd_file (d\<lparr>fd2pageno := g\<rparr>) fd = fd_file d fd" for fd
    by (simp add: fd_file_def split: option.split)
  show 2: "io_clean (d\<lparr>fd2pageno := g\<rparr>) = io_clean d" by (simp add: io_clean_def)
  show "disk_ok F (d\<lparr>fd2pageno := g\<rparr>) = disk_ok F d" by (simp add: disk_ok_def 1 2)
  show "disk_view (d\<lparr>fd2pageno := g\<rparr>) q = disk_view d q" by (rule disk_view_cong) (rule 1)
qed

lemma new_page_ok:
  assumes ok: "pok F W s" and fd: "fd \<in> F" "is_i32 (fd2pageno (disk_st s) fd + 1)"
    "0 \<le> fd2pageno (disk_st s) fd" and v: "find_victim_page R s = (Some f, s1)"
  defines "pid \<equiv> PageId fd (fd2pageno (disk_st s) fd)"
  shows "\<exists>s'. new_page R fd s = Ret (Some (f, pid)) s' \<and> pok F (insert pid W) s' \<and>
    (\<forall>q. on_file F q \<longrightarrow> page_view s' q = (if q = pid then zeros PAGE_SIZE else page_view s q)) \<and>
    pin_of s' = (pin_of s)(pid := 1) \<and> pool_size s' = pool_size s \<and>
    fd2pageno (disk_st s') = (fd2pageno (disk_st s))(fd := fd2pageno (disk_st s) fd + 1)"
proof -
  note i = pool_okD [OF ok] and fv = find_victim_Some [OF pool_okD(1) [OF ok] v]
  from fv have s1: "binv s1" "reserved evictable f s1" "pages s1 = pages s" "page_table s1 = page_table s"
    "disk_st s1 = disk_st s" by simp_all
  have pid: "on_file F pid" using fd by (simp add: pid_def)
  have new: "pt s pid = None" using i(4) by (cases "pt s pid") (auto simp: mapped_ok_def pid_def)
  let ?d0 = "(disk_st s)\<lparr>fd2pageno := (fd2pageno (disk_st s))(fd := fd2pageno (disk_st s) fd + 1)\<rparr>"
  let ?s0 = "s1\<lparr>disk_st := ?d0\<rparr>"
  have al: "on_disk (allocate_page fd) s1 = Ret (fd2pageno (disk_st s) fd) ?s0"
    using allocate_disk [OF i(3) fd(1,2)] s1(5) by (simp add: on_disk_def)
  have p0: "pin_of ?s0 = pin_of s" by (rule client_cong) (use s1 in simp_all)
  have t: "table_ok ?s0" using bpm_invD(3) [OF s1(1)] by (simp add: table_ok_def)
  have c0: "coherent W ?s0" using i(5) s1(3-5) p0 by (simp add: coherent_def)
  have m0: "mapped_ok F ?s0" using i(4) s1(3-5) by (auto simp: mapped_ok_def)
  have pool: "in_pool f ?s0" using s1(2) by (simp add: reserved_def)
  have nW: "q \<notin> W" if "pt ?s0 q = Some f" for q
    using unpinned_not_pending [OF c0 t that] victim_unpinned [OF i(1) v] s1(3) by simp
  obtain d where u: "update_page f pid ?s0 = Ret () (install f
          \<lparr>id = pid, data = zeros PAGE_SIZE, is_dirty = False, pin_count = 0\<rparr> (s1\<lparr>disk_st := d\<rparr>))"
    and d: "disk_ok F d" "fd2pageno d = fd2pageno ?d0"
      "\<And>q. on_file F q \<Longrightarrow> disk_view d q =
         (if pt s q = Some f then data (pages s f) else disk_view (disk_st s) q)"
    using update_page_ok [OF t _ _ m0 c0 pool nW, of pid] bpm_invD(6) [OF s1(1)] i(3) s1(3-5) by auto
  let ?p = "\<lparr>id = pid, data = zeros PAGE_SIZE, is_dirty = False, pin_count = 1\<rparr>"
  let ?s' = "((install f ?p s1)\<lparr>disk_st := d\<rparr>)\<lparr>replacer_st := op_pin R f (replacer_st s1)\<rparr>"
  have nx: "new_page R fd s = Ret (Some (f, pid)) ?s'"
    using v al u by (simp add: new_page_def pid_def set_page_def install_def Let_def)
  note pl = place_ok [OF ok v, of ?p d "insert pid W"]
  have "pok F (insert pid W) ?s' \<and>
    (\<forall>q. on_file F q \<longrightarrow> page_view ?s' q = (if q = pid then zeros PAGE_SIZE else page_view s q)) \<and>
    pin_of ?s' = (pin_of s)(pid := 1) \<and> pool_size ?s' = pool_size s"
    using pl new pid d fd by (simp add: pid_def)
  with nx d(2) show ?thesis by (intro exI [of _ ?s']) simp
qed

lemma sim_new:
  assumes "sim F s a" and "legal F (BNew fd) a"
  shows "simulates F (BNew fd) s a"
proof -
  have ok: "pok F (pending a) s" and rel: "store_rel F s a" using assms(1) by simp_all
  note i = pool_okD [OF ok] and sr = store_relD [OF rel]
  obtain v s1 where v: "find_victim_page R s = (v, s1)" by force
  have ap: "all_pinned a \<longleftrightarrow> v = None"
    using find_victim_iff [OF i(1)] pok_all_pinned [OF ok rel] v by simp
  show ?thesis
  proof (cases v)
    case None
    with find_victim_None [OF i(1)] v have "s1 = s" by simp
    with None v ap assms(1) show ?thesis
      by (simp add: simulates_def bp_exec_def spec_exec_def new_page_def)
  next
    case (Some f)
    have fd: "fd \<in> F" "is_i32 (fd2pageno (disk_st s) fd + 1)" "0 \<le> fd2pageno (disk_st s) fd"
      using assms(2) sr(3) sr(5) [of fd] by (simp_all add: legal_def)
    let ?pid = "PageId fd (next_no a fd)"
    from new_page_ok [OF ok fd v [unfolded Some]] sr(3) obtain s' where
      nx: "new_page R fd s = Ret (Some (f, ?pid)) s'" and s': "pok F (insert ?pid (pending a)) s'"
      "\<And>q. on_file F q \<Longrightarrow> page_view s' q = (if q = ?pid then zeros PAGE_SIZE else page_view s q)"
      "pin_of s' = (pin_of s)(?pid := 1)" "pool_size s' = pool_size s"
      "fd2pageno (disk_st s') = (next_no a)(fd := next_no a fd + 1)" by auto
    have "store_rel F s' (a\<lparr>store := (store a)(?pid := zeros PAGE_SIZE), pins := (pins a)(?pid := 1),
        pending := insert ?pid (pending a), next_no := (next_no a)(fd := next_no a fd + 1)\<rparr>)"
    proof (rule store_relI)
      show "0 \<le> next_no (a\<lparr>store := (store a)(?pid := zeros PAGE_SIZE), pins := (pins a)(?pid := 1),
        pending := insert ?pid (pending a), next_no := (next_no a)(fd := next_no a fd + 1)\<rparr>) fd'"
        if "fd' \<in> F" for fd' using sr(5) [OF that] by auto
    qed (use sr(1,2,4) s' in simp_all)
    with nx s'(1) Some ap show ?thesis
      by (simp add: simulates_def bp_exec_def spec_exec_def Let_def)
  qed
qed

text \<open>Taking a resident page, already safe on disk, out of the pool.\<close>

lemma discard_ok:
  assumes ok: "pok F W s" and f: "pt s pid = Some f"
    and q: "pid_no (id q) = INVALID_PAGE_ID" "0 \<le> pin_count q" "length (data q) = PAGE_SIZE"
    and d: "disk_ok F d" "fd2pageno d = fd2pageno (disk_st s)"
      "\<And>q. on_file F q \<Longrightarrow> disk_view d q =
         (if q = pid then data (pages s f) else disk_view (disk_st s) q)"
  defines "s' \<equiv> (set_page f q s)\<lparr>replacer_st := op_pin R f (replacer_st s),
      free_list := free_list s @ [f], page_table := AList.delete pid (page_table s), disk_st := d\<rparr>"
  shows "pok F (W - {pid}) s'" and "on_file F x \<Longrightarrow> page_view s' x = page_view s x"
    and "pin_of s' = (pin_of s)(pid := 0)"
proof -
  note i = pool_okD [OF ok]
  note t = bpm_invD(3) [OF i(1)]
  have sel: "pages s' = (pages s)(f := q)" "disk_st s' = d" "pool_size s' = pool_size s"
    "replacer_st s' = op_pin R f (replacer_st s)" "free_list s' = free_list s @ [f]"
    by (simp_all add: s'_def)
  have pt': "pt s' x = (if x = pid then None else pt s x)" for x by (simp add: s'_def)
  have other: "g \<noteq> f" if "pt s x = Some g" "x \<noteq> pid" for x g
    using table_ok_inj [OF t f] that by blast
  have inv: "binv s'" using discard_inv [OF i(1) f q] by (simp add: s'_def)
  have fr: "frame_ok evictable s' g" if "in_pool g s'" for g
  proof (cases "g = f")
    case False
    have "frame_ok evictable s g" using i(2) that sel by simp
    with False show ?thesis using bpm_invD(1) [OF i(1)] by (auto simp: frame_ok_def sel contract_simps)
  qed (simp add: frame_ok_def sel)
  have mo: "mapped_ok F s'" using i(4) d(2) by (simp add: mapped_ok_def pt' sel)
  show pin: "pin_of s' = (pin_of s)(pid := 0)"
  proof
    fix x
    show "pin_of s' x = ((pin_of s)(pid := 0)) x"
      using other [of x] by (cases "pt s x") (auto simp: pin_of_def pt' sel)
  qed
  have co: "coherent (W - {pid}) s'"
    unfolding coherent_def
  proof (intro conjI allI impI ballI)
    fix x g
    assume x: "pt s' x = Some g" "\<not> is_dirty (pages s' g)" "x \<notin> W - {pid}"
    then have g: "pt s x = Some g" "g \<noteq> f" "x \<noteq> pid" "x \<notin> W"
      using other by (auto simp: pt' split: if_splits)
    moreover have "on_file F x" using i(4) g(1) by (auto simp: mapped_ok_def)
    ultimately show "data (pages s' g) = disk_view (disk_st s') x"
      using i(5) x(2) d(3) by (simp add: coherent_def sel)
  qed (use i(5) pin in \<open>auto simp: coherent_def\<close>)
  show "pok F (W - {pid}) s'" using inv fr mo co d(1) by (simp add: pool_ok_def sel)
  show "page_view s' x = page_view s x" if "on_file F x"
    using f other [of x] d(3) [OF that] by (cases "pt s x") (auto simp: page_view_def pt' sel)
qed

lemma sim_delete:
  assumes "sim F s a"
  shows "simulates F (BDelete pid) s a"
proof -
  have ok: "pok F (pending a) s" and rel: "store_rel F s a" using assms by simp_all
  note i = pool_okD [OF ok] and sr = store_relD [OF rel]
  note t = bpm_invD(3) [OF i(1)]
  show ?thesis
  proof (cases "\<exists>f. pt s pid = Some f \<and> pin_count (pages s f) = 0")
    case False
    then have "delete_page R pid s = Ret (pin_of s pid = 0) s"
      using table_okD(2) [OF t, of pid] by (auto simp: delete_page_def pin_of_def split: option.splits)
    with assms sr(2) show ?thesis by (simp add: simulates_def bp_exec_def spec_exec_def)
  next
    case True
    then obtain f where f: "pt s pid = Some f" "pin_count (pages s f) = 0" by blast
    note tf = table_okD(2) [OF t f(1)]
    have eqf: "pt s q = Some f \<longleftrightarrow> q = pid" for q using f(1) table_ok_inj [OF t] by blast
    have nW: "q \<notin> pending a" if "pt s q = Some f" for q
      using unpinned_not_pending [OF i(5) t that] f(2) by simp
    let ?s0 = "s\<lparr>replacer_st := op_pin R f (replacer_st s)\<rparr>"
    let ?q = "\<lparr>id = invalid_pid, data = zeros PAGE_SIZE, is_dirty = False, pin_count = 0\<rparr>"
    have s0: "table_ok ?s0" "mapped_ok F ?s0" "coherent (pending a) ?s0"
      using bpm_invD(3) [OF binv_op_pin [OF i(1)]] i(4,5) client_cong(3,4) [of ?s0 s] by simp_all
    obtain d where u: "update_page f invalid_pid ?s0 = Ret () (install f ?q (?s0\<lparr>disk_st := d\<rparr>))"
      and d: "disk_ok F d" "fd2pageno d = fd2pageno (disk_st s)"
        "\<And>q. on_file F q \<Longrightarrow> disk_view d q =
           (if q = pid then data (pages s f) else disk_view (disk_st s) q)"
      using update_page_ok [OF s0(1) _ _ s0(2,3), of f invalid_pid] bpm_invD(6) [OF i(1)] i(3) tf nW
      by (auto simp: eqf)
    let ?s' = "(set_page f ?q s)\<lparr>replacer_st := op_pin R f (replacer_st s),
      free_list := free_list s @ [f], page_table := AList.delete pid (page_table s), disk_st := d\<rparr>"
    have "install f ?q (?s0\<lparr>disk_st := d\<rparr>) = (?s0\<lparr>disk_st := d\<rparr>)
        \<lparr>pages := (pages s)(f := ?q), page_table := AList.delete pid (page_table s)\<rparr>"
      using install_invalid [of "?s0\<lparr>disk_st := d\<rparr>" f pid ?q] s0(1) tf
      by (simp add: invalid_pid_def table_ok_def)
    then have dx: "delete_page R pid s = Ret True ?s'"
      using f u by (simp add: delete_page_def deallocate_page_def set_page_def)
    have iq: "pid_no (id ?q) = INVALID_PAGE_ID" "0 \<le> pin_count ?q" "length (data ?q) = PAGE_SIZE"
      by (simp_all add: invalid_pid_def)
    note di = discard_ok [OF ok f(1) iq d]
    have "pid \<notin> pending a" using nW f(1) by simp
    then have "pok F (pending a) ?s'" using di(1) by simp
    moreover have "pin_of ?s' = pin_of s" using di(3) f by (auto simp: pin_of_def)
    then have "store_rel F ?s' a"
      using sr di(2) d(2) by (intro store_relI) auto
    moreover have "pins a pid = 0" using sr(2) f by (simp add: pin_of_def)
    ultimately show ?thesis using dx by (simp add: simulates_def bp_exec_def spec_exec_def)
  qed
qed

lemma flush_frames_ok:
  assumes "pok F W s" and "\<forall>f \<in> set fl. \<exists>pid. pt s pid = Some f \<and> pid_fd pid = fd"
  shows "\<exists>s'. flush_frames fd fl s = Ret () s' \<and> pok F (W - {pid. \<exists>f \<in> set fl. pt s pid = Some f}) s' \<and>
    (\<forall>q. on_file F q \<longrightarrow> page_view s' q = page_view s q) \<and> pin_of s' = pin_of s \<and>
    pool_size s' = pool_size s \<and> fd2pageno (disk_st s') = fd2pageno (disk_st s) \<and>
    (\<forall>q. on_file F q \<longrightarrow> (\<exists>f \<in> set fl. pt s q = Some f) \<or> disk_view (disk_st s) q = page_view s q \<longrightarrow>
       disk_view (disk_st s') q = page_view s q)"
  using assms
proof (induction fl arbitrary: s W)
  case (Cons f fl)
  from Cons.prems(2) obtain pid where f: "pt s pid = Some f" "pid_fd pid = fd" by auto
  note t = bpm_invD(3) [OF pool_okD(1) [OF Cons.prems(1)]]
  note tf = table_okD(2) [OF t f(1)]
  have eqf: "pt s q = Some f \<longleftrightarrow> q = pid" for q using f(1) table_ok_inj [OF t] by blast
  from flush_frame_ok [OF Cons.prems(1) f(1)] obtain s1 where
    w: "on_disk (write_page (pid_fd pid) (pid_no pid) (data (pages s f))) s = Ret () s1" and
    s2: "let s2 = set_page f ((pages s1 f)\<lparr>is_dirty := False\<rparr>) s1 in
     pok F (W - {pid}) s2 \<and> (\<forall>q. on_file F q \<longrightarrow> page_view s2 q = page_view s q) \<and>
     pin_of s2 = pin_of s \<and> pool_size s2 = pool_size s \<and>
     fd2pageno (disk_st s2) = fd2pageno (disk_st s) \<and> page_table s2 = page_table s \<and>
     (\<forall>q. on_file F q \<longrightarrow> disk_view (disk_st s2) q =
        (if q = pid then page_view s q else disk_view (disk_st s) q))"
    by (auto simp: Let_def)
  let ?s2 = "set_page f ((pages s1 f)\<lparr>is_dirty := False\<rparr>) s1"
  have ok2: "pok F (W - {pid}) ?s2" "page_table ?s2 = page_table s" using s2 by (simp_all add: Let_def)
  with Cons.prems(2) Cons.IH [OF ok2(1)] obtain s' where
    s': "flush_frames fd fl ?s2 = Ret () s'"
      "pok F (W - {pid} - {pid. \<exists>f \<in> set fl. pt ?s2 pid = Some f}) s'"
      "\<forall>q. on_file F q \<longrightarrow> page_view s' q = page_view ?s2 q" "pin_of s' = pin_of ?s2"
      "pool_size s' = pool_size ?s2" "fd2pageno (disk_st s') = fd2pageno (disk_st ?s2)"
      "\<forall>q. on_file F q \<longrightarrow> (\<exists>f \<in> set fl. pt ?s2 q = Some f) \<or>
         disk_view (disk_st ?s2) q = page_view ?s2 q \<longrightarrow> disk_view (disk_st s') q = page_view ?s2 q"
    by auto
  have dv: "disk_view (disk_st s') q = page_view s q"
    if q: "on_file F q" "(\<exists>g \<in> set (f # fl). pt s q = Some g) \<or> disk_view (disk_st s) q = page_view s q" for q
  proof -
    have "(\<exists>f \<in> set fl. pt ?s2 q = Some f) \<or> disk_view (disk_st ?s2) q = page_view ?s2 q"
      using q s2 ok2(2) eqf by (auto simp: Let_def)
    with s'(7) q(1) have "disk_view (disk_st s') q = page_view ?s2 q" by blast
    then show ?thesis using s2 q(1) by (simp add: Let_def)
  qed
  have "W - {pid} - {pid. \<exists>f \<in> set fl. pt ?s2 pid = Some f} =
      W - {q. \<exists>g \<in> set (f # fl). pt s q = Some g}"
    using ok2(2) eqf by auto
  with w s2 s'(1-6) tf f dv show ?case by (intro exI [of _ s']) (simp add: Let_def)
qed simp

lemma frames_of_fd_iff:
  assumes "binv s"
  shows "f \<in> set (frames_of_fd fd s) \<longleftrightarrow> (\<exists>pid. pt s pid = Some f \<and> pid_fd pid = fd)"
proof -
  note t = table_okD(1) [OF bpm_invD(3) [OF assms]]
  have "(pid, f) \<in> set (page_table s) \<longleftrightarrow> pt s pid = Some f" for pid
    using in_set_map_of_eq [OF t] .
  then show ?thesis by (force simp: frames_of_fd_def)
qed

lemma frames_of_fd_pt:
  assumes "binv s" and "pt s q = Some f"
  shows "f \<in> set (frames_of_fd fd s) \<longleftrightarrow> pid_fd q = fd"
proof -
  have "pid = q" if "pt s pid = Some f" for pid
    by (rule table_ok_inj [OF bpm_invD(3) [OF assms(1)] that assms(2)])
  then show ?thesis using frames_of_fd_iff [OF assms(1), of f fd] assms(2) by blast
qed

lemma pending_of_fd:
  assumes "pok F W s"
  shows "W - {pid. \<exists>f \<in> set (frames_of_fd fd s). pt s pid = Some f} = {q \<in> W. pid_fd q \<noteq> fd}"
proof -
  note i = pool_okD [OF assms] and t = bpm_invD(3) [OF pool_okD(1) [OF assms]]
  have "(\<exists>f \<in> set (frames_of_fd fd s). pt s q = Some f) \<longleftrightarrow> pid_fd q = fd" if "q \<in> W" for q
  proof -
    from that i(5) obtain f where "pt s q = Some f"
      by (auto simp: coherent_def pin_of_def split: option.splits)
    then show ?thesis using frames_of_fd_pt [OF i(1)] by simp
  qed
  then show ?thesis by blast
qed

lemma sim_flush_all:
  assumes "sim F s a"
  shows "simulates F (BFlushAll fd) s a"
proof -
  have ok: "pok F (pending a) s" and rel: "store_rel F s a" using assms by simp_all
  note sr = store_relD [OF rel]
  have "\<forall>f \<in> set (frames_of_fd fd s). \<exists>pid. pt s pid = Some f \<and> pid_fd pid = fd"
    using frames_of_fd_iff [OF pool_okD(1) [OF ok]] by blast
  from flush_frames_ok [OF ok this] obtain s' where s':
    "flush_frames fd (frames_of_fd fd s) s = Ret () s'"
    "pok F {q \<in> pending a. pid_fd q \<noteq> fd} s'" "\<And>q. on_file F q \<Longrightarrow> page_view s' q = page_view s q"
    "pin_of s' = pin_of s" "pool_size s' = pool_size s" "fd2pageno (disk_st s') = fd2pageno (disk_st s)"
    unfolding pending_of_fd [OF ok] by blast
  have "store_rel F s' (a\<lparr>pending := {q \<in> pending a. pid_fd q \<noteq> fd}\<rparr>)"
    using sr s' by (intro store_relI) auto
  with s' show ?thesis by (simp add: simulates_def bp_exec_def spec_exec_def flush_all_pages_def)
qed

lemma delete_frame_ok:
  assumes ok: "pok F W s" and f: "pt s pid = Some f"
  shows "\<exists>s1. on_disk (write_page (pid_fd pid) (pid_no pid) (data (pages s f))) s = Ret () s1 \<and>
    (let s2 = (set_page f \<lparr>id = invalid_pid, data = zeros PAGE_SIZE, is_dirty = False, pin_count = 0\<rparr> s1)
                \<lparr>replacer_st := op_pin R f (replacer_st s1), free_list := free_list s1 @ [f],
                 page_table := AList.delete pid (page_table s1)\<rparr> in
     pok F (W - {pid}) s2 \<and> (\<forall>q. on_file F q \<longrightarrow> page_view s2 q = page_view s q) \<and>
     pin_of s2 = (pin_of s)(pid := 0) \<and> pool_size s2 = pool_size s \<and>
     fd2pageno (disk_st s2) = fd2pageno (disk_st s) \<and>
     (\<forall>q. pt s2 q = (if q = pid then None else pt s q)))"
proof -
  note i = pool_okD [OF ok]
  have pid: "on_file F pid" using i(4) f by (simp add: mapped_ok_def)
  from write_page_ok [OF i(3) this bpm_invD(6) [OF i(1), of f]] obtain d where
    w: "write_page (pid_fd pid) (pid_no pid) (data (pages s f)) (disk_st s) = Ret () d"
    and d: "disk_ok F d" "fd2pageno d = fd2pageno (disk_st s)"
      "\<And>q. on_file F q \<Longrightarrow> disk_view d q = (if q = pid then data (pages s f) else disk_view (disk_st s) q)"
    by blast
  let ?q = "\<lparr>id = invalid_pid, data = zeros PAGE_SIZE, is_dirty = False, pin_count = 0\<rparr>"
  have iq: "pid_no (id ?q) = INVALID_PAGE_ID" "0 \<le> pin_count ?q" "length (data ?q) = PAGE_SIZE"
    by (simp_all add: invalid_pid_def)
  note di = discard_ok [OF ok f iq d]
  let ?s' = "(set_page f ?q s)\<lparr>replacer_st := op_pin R f (replacer_st s),
      free_list := free_list s @ [f], page_table := AList.delete pid (page_table s), disk_st := d\<rparr>"
  have "pok F (W - {pid}) ?s' \<and> (\<forall>q. on_file F q \<longrightarrow> page_view ?s' q = page_view s q) \<and>
     pin_of ?s' = (pin_of s)(pid := 0)" using di by blast
  with w d(2) show ?thesis by (simp add: on_disk_def set_page_def)
qed

lemma delete_frames_ok:
  assumes "pok F W s" and "\<forall>f \<in> set fl. \<exists>pid. pt s pid = Some f \<and> pid_fd pid = fd" and "distinct fl"
  shows "\<exists>s'. delete_frames R fd fl s = Ret () s' \<and>
    pok F (W - {pid. \<exists>f \<in> set fl. pt s pid = Some f}) s' \<and>
    (\<forall>q. on_file F q \<longrightarrow> page_view s' q = page_view s q) \<and>
    pin_of s' = (\<lambda>q. if \<exists>f \<in> set fl. pt s q = Some f then 0 else pin_of s q) \<and>
    pool_size s' = pool_size s \<and> fd2pageno (disk_st s') = fd2pageno (disk_st s)"
  using assms
proof (induction fl arbitrary: s W)
  case (Cons f fl)
  from Cons.prems(2) obtain pid where f: "pt s pid = Some f" "pid_fd pid = fd" by auto
  note t = bpm_invD(3) [OF pool_okD(1) [OF Cons.prems(1)]]
  note tf = table_okD(2) [OF t f(1)]
  have eqf: "pt s q = Some f \<longleftrightarrow> q = pid" for q using f(1) table_ok_inj [OF t] by blast
  let ?q = "\<lparr>id = invalid_pid, data = zeros PAGE_SIZE, is_dirty = False, pin_count = 0\<rparr>"
  from delete_frame_ok [OF Cons.prems(1) f(1)] obtain s1 where
    w: "on_disk (write_page (pid_fd pid) (pid_no pid) (data (pages s f))) s = Ret () s1" and
    s2: "let s2 = (set_page f ?q s1) \<lparr>replacer_st := op_pin R f (replacer_st s1),
        free_list := free_list s1 @ [f], page_table := AList.delete pid (page_table s1)\<rparr> in
     pok F (W - {pid}) s2 \<and> (\<forall>q. on_file F q \<longrightarrow> page_view s2 q = page_view s q) \<and>
     pin_of s2 = (pin_of s)(pid := 0) \<and> pool_size s2 = pool_size s \<and>
     fd2pageno (disk_st s2) = fd2pageno (disk_st s) \<and>
     (\<forall>q. pt s2 q = (if q = pid then None else pt s q))" by blast
  define s2 where "s2 = (set_page f ?q s1) \<lparr>replacer_st := op_pin R f (replacer_st s1),
        free_list := free_list s1 @ [f], page_table := AList.delete pid (page_table s1)\<rparr>"
  have v: "pok F (W - {pid}) s2" "\<And>q. on_file F q \<Longrightarrow> page_view s2 q = page_view s q"
    "pin_of s2 = (pin_of s)(pid := 0)" "pool_size s2 = pool_size s"
    "fd2pageno (disk_st s2) = fd2pageno (disk_st s)" "\<And>q. pt s2 q = (if q = pid then None else pt s q)"
    using s2 unfolding s2_def [symmetric] Let_def by blast+
  have fl: "\<exists>q. pt s2 q = Some g \<and> pid_fd q = fd" if "g \<in> set fl" for g
  proof -
    from Cons.prems(2) that obtain q where q: "pt s q = Some g" "pid_fd q = fd" by auto
    have "g \<noteq> f" using Cons.prems(3) that by auto
    with q(1) f(1) have "q \<noteq> pid" by auto
    with q v(6) show ?thesis by auto
  qed
  obtain s' where s': "delete_frames R fd fl s2 = Ret () s'"
      "pok F (W - {pid} - {pid. \<exists>f \<in> set fl. pt s2 pid = Some f}) s'"
      "\<And>q. on_file F q \<Longrightarrow> page_view s' q = page_view s2 q"
      "pin_of s' = (\<lambda>q. if \<exists>f \<in> set fl. pt s2 q = Some f then 0 else pin_of s2 q)"
      "pool_size s' = pool_size s2" "fd2pageno (disk_st s') = fd2pageno (disk_st s2)"
    using Cons.IH [OF v(1)] fl Cons.prems(3) by auto
  have W: "W - {pid} - {pid. \<exists>f \<in> set fl. pt s2 pid = Some f} =
      W - {q. \<exists>g \<in> set (f # fl). pt s q = Some g}"
    using v(6) eqf f(1) by auto
  have pin: "pin_of s' = (\<lambda>q. if \<exists>g \<in> set (f # fl). pt s q = Some g then 0 else pin_of s q)"
    unfolding s'(4) v(3) using v(6) eqf f(1) by auto
  have "delete_frames R fd (f # fl) s = delete_frames R fd fl s2"
    using w tf f(2) by (simp add: Let_def s2_def)
  with W pin s' v show ?case by (intro exI [of _ s']) simp
qed simp

lemma distinct_frames_of_fd:
  assumes "binv s"
  shows "distinct (frames_of_fd fd s)"
proof -
  note t = bpm_invD(3) [OF assms]
  note d = table_okD(1) [OF t]
  have "inj_on snd (set (page_table s))"
  proof (rule inj_onI)
    fix x y assume xy: "x \<in> set (page_table s)" "y \<in> set (page_table s)" "snd x = snd y"
    then have "pt s (fst x) = Some (snd x)" "pt s (fst y) = Some (snd x)"
      using d by (metis map_of_is_SomeI prod.collapse)+
    then have "fst x = fst y" using table_ok_inj [OF t] by blast
    with xy(3) show "x = y" by (simp add: prod_eq_iff)
  qed
  moreover have "distinct (page_table s)" using d by (simp add: distinct_map)
  ultimately show ?thesis
    by (auto simp: frames_of_fd_def distinct_map inj_on_def)
qed

lemma sim_delete_all:
  assumes "sim F s a"
  shows "simulates F (BDeleteAll fd) s a"
proof -
  have ok: "pok F (pending a) s" and rel: "store_rel F s a" using assms by simp_all
  note i = pool_okD [OF ok] and sr = store_relD [OF rel]
  have "\<forall>f \<in> set (frames_of_fd fd s). \<exists>pid. pt s pid = Some f \<and> pid_fd pid = fd"
    using frames_of_fd_iff [OF i(1)] by blast
  from delete_frames_ok [OF ok this distinct_frames_of_fd [OF i(1)]] obtain s' where s':
    "delete_frames R fd (frames_of_fd fd s) s = Ret () s'"
    "pok F {q \<in> pending a. pid_fd q \<noteq> fd} s'" "\<And>q. on_file F q \<Longrightarrow> page_view s' q = page_view s q"
    "pin_of s' = (\<lambda>q. if \<exists>f \<in> set (frames_of_fd fd s). pt s q = Some f then 0 else pin_of s q)"
    "pool_size s' = pool_size s" "fd2pageno (disk_st s') = fd2pageno (disk_st s)"
    unfolding pending_of_fd [OF ok] by blast
  have "pin_of s' q = (if pid_fd q = fd then 0 else pins a q)" for q
    using frames_of_fd_pt [OF i(1), of q] sr(2) unfolding s'(4)
    by (cases "pt s q") (simp_all add: pin_of_def)
  then have "pin_of s' = (\<lambda>q. if pid_fd q = fd then 0 else pins a q)" by (rule ext)
  then have "store_rel F s' (a\<lparr>pins := (\<lambda>q. if pid_fd q = fd then 0 else pins a q),
      pending := {q \<in> pending a. pid_fd q \<noteq> fd}\<rparr>)"
    using sr s' by (intro store_relI) auto
  with s' show ?thesis by (simp add: simulates_def bp_exec_def spec_exec_def delete_all_pages_def)
qed

lemma sim_step: "sim F s a \<Longrightarrow> legal F c a \<Longrightarrow> simulates F c s a"
  by (cases c)
    (simp_all add: sim_fetch sim_write sim_unpin sim_flush sim_new sim_delete sim_flush_all sim_delete_all)

lemma sim_run:
  assumes "sim F s a" and "legal_run F cs a"
  shows "\<exists>s'. bp_run R cs s = Ret (fst (spec_run cs a)) s' \<and> sim F s' (snd (spec_run cs a))"
  using assms
proof (induction cs arbitrary: s a)
  case (Cons c cs)
  obtain x a1 where x: "spec_exec c a = (x, a1)" by force
  have "legal F c a" using Cons.prems(2) by simp
  from sim_step [OF Cons.prems(1) this] x obtain s1 where
    s1: "bp_exec R c s = Ret x s1" "sim F s1 a1" by (auto simp: simulates_def)
  with Cons.IH [OF s1(2)] Cons.prems(2) x show ?case by (auto split: prod.split)
qed simp

lemma flush_all_durable:
  assumes "sim F s a"
  shows "\<exists>s'. flush_all_pages fd s = Ret () s' \<and>
    (\<forall>pid. on_file F pid \<longrightarrow> pid_fd pid = fd \<longrightarrow> disk_view (disk_st s') pid = store a pid)"
proof -
  have ok: "pok F (pending a) s" and rel: "store_rel F s a" using assms by simp_all
  note i = pool_okD [OF ok]
  have "\<forall>f \<in> set (frames_of_fd fd s). \<exists>pid. pt s pid = Some f \<and> pid_fd pid = fd"
    using frames_of_fd_iff [OF i(1)] by blast
  from flush_frames_ok [OF ok this] obtain s' where s': "flush_frames fd (frames_of_fd fd s) s = Ret () s'"
    "\<And>q. on_file F q \<Longrightarrow> (\<exists>f \<in> set (frames_of_fd fd s). pt s q = Some f) \<or>
       disk_view (disk_st s) q = page_view s q \<Longrightarrow> disk_view (disk_st s') q = page_view s q" by blast
  have "disk_view (disk_st s') q = store a q" if q: "on_file F q" "pid_fd q = fd" for q
  proof -
    have "(\<exists>f \<in> set (frames_of_fd fd s). pt s q = Some f) \<or> disk_view (disk_st s) q = page_view s q"
      using frames_of_fd_pt [OF i(1), of q] q(2) by (cases "pt s q") (simp_all add: page_view_def)
    with s'(2) [OF q(1)] store_relD(1) [OF rel q(1)] show ?thesis by simp
  qed
  with s'(1) show ?thesis by (auto simp: flush_all_pages_def)
qed

lemma sim_init:
  assumes "rinv r" and "evictable r = {}" and "capacity r = n" and "disk_ok F d"
    and "\<forall>fd \<in> F. 0 \<le> fd2pageno d fd"
  shows "sim F (BufferPoolManager n r d)
    \<lparr>store = disk_view d, pins = (\<lambda>_. 0), pending = {}, next_no = fd2pageno d, nframes = n\<rparr>"
proof
  let ?s = "BufferPoolManager n r d"
  have p: "pin_of ?s = (\<lambda>_. 0)" by (rule ext) (simp add: pin_of_def BufferPoolManager_def)
  have "bpm_inv evictable capacity rinv ?s"
    using assms by (auto simp: bpm_inv_def BufferPoolManager_def table_ok_def free_ok_def evict_ok_def
        new_Page_def invalid_pid_def distinct_map)
  moreover have "frame_ok evictable ?s f" if "in_pool f ?s" for f
  proof -
    have "0 \<le> f" "nat f < n" using that by (auto simp: BufferPoolManager_def)
    then have "f \<in> int ` set [0..<n]" by (intro image_eqI [of _ _ "nat f"]) simp_all
    then show ?thesis by (simp add: frame_ok_def BufferPoolManager_def)
  qed
  ultimately show "pok F (pending \<lparr>store = disk_view d, pins = (\<lambda>_. 0), pending = {},
      next_no = fd2pageno d, nframes = n\<rparr>) ?s"
    using assms(4) p
    by (simp add: pool_ok_def mapped_ok_def coherent_def) (simp add: BufferPoolManager_def)
  show "store_rel F ?s \<lparr>store = disk_view d, pins = (\<lambda>_. 0), pending = {},
      next_no = fd2pageno d, nframes = n\<rparr>"
    using assms(5) p by (intro store_relI) (simp_all add: page_view_def BufferPoolManager_def)
qed

end

section \<open>The buffer pool with its LRU replacer\<close>

definition init_store :: "nat \<Rightarrow> disk \<Rightarrow> page_store" where
  "init_store n d =
     \<lparr>store = disk_view d, pins = (\<lambda>_. 0), pending = {}, next_no = fd2pageno d, nframes = n\<rparr>"

definition lru_pool :: "nat \<Rightarrow> disk \<Rightarrow> lru bpm" where
  "lru_pool n d = BufferPoolManager n (LRUReplacer n) d"

abbreviation lru_sim :: "int set \<Rightarrow> lru bpm \<Rightarrow> page_store \<Rightarrow> bool" where
  "lru_sim F s a \<equiv> pool_ok (\<lambda>r. set (lru_list r)) max_size lru_inv F (pending a) s \<and> store_rel F s a"

lemma lru_sim_init:
  "disk_ok F d \<Longrightarrow> \<forall>fd \<in> F. 0 \<le> fd2pageno d fd \<Longrightarrow> lru_sim F (lru_pool n d) (init_store n d)"
  unfolding lru_pool_def init_store_def
  by (rule lru.sim_init) (simp_all add: LRUReplacer_def lru_inv_def)

text \<open>
  Claim C1. The buffer pool with its LRU replacer, started on a disk whose open files are distinct
  and whose transfers succeed in the end (short transfers and interrupts allowed), answers every
  disciplined sequence of calls exactly as a store in which all pages are always present: no call
  throws, every fetched page has the contents last written to it, whatever was evicted in between,
  a fetch of an unpinned page or a \<^verbatim>\<open>new_page\<close> fails only when as many pages are pinned as there
  are frames, and \<^verbatim>\<open>unpin_page\<close> and \<^verbatim>\<open>delete_page\<close> report exactly whether the page was pinned.
\<close>

theorem lru_pool_refines_store:
  assumes "disk_ok F d" and "\<forall>fd \<in> F. 0 \<le> fd2pageno d fd" and "legal_run F cs (init_store n d)"
  shows "\<exists>s'. bp_run lru_ops cs (lru_pool n d) = Ret (fst (spec_run cs (init_store n d))) s'"
  using lru.sim_run [OF lru_sim_init [OF assms(1,2)] assms(3)] by blast

lemma tiny_disk_ok: "Eio \<notin> set ev \<Longrightarrow> disk_ok {3} (tiny_disk ev)"
  by (simp add: disk_ok_def io_clean_def MAX_FD_def LOG_FILE_NAME_def)

lemma tiny_disk_nos: "\<forall>fd \<in> {3 :: int}. 0 \<le> fd2pageno (tiny_disk ev) fd"
  by simp

text \<open>A client that fills two pages of a pool with a single frame, so that every call evicts.\<close>

definition two_pages :: "bp_call list" where
  "two_pages =
     [BNew 3, BWrite (PageId 3 0) (replicate PAGE_SIZE 7), BUnpin (PageId 3 0) True,
      BNew 3, BUnpin (PageId 3 1) True, BFetch (PageId 3 0), BFetch (PageId 3 1)]"

lemma legal_two_pages: "legal_run {3} two_pages (init_store 1 (tiny_disk ev))"
  by (simp add: two_pages_def legal_def spec_exec_def init_store_def all_pinned_def is_i32_def Let_def)

theorem lru_pool_refines_store_witness:
  "\<exists>s'. bp_run lru_ops two_pages (lru_pool 1 (tiny_disk [Xfer 9, Eintr])) =
     Ret (fst (spec_run two_pages (init_store 1 (tiny_disk [Xfer 9, Eintr])))) s' \<and>
     fst (spec_run two_pages (init_store 1 (tiny_disk [Xfer 9, Eintr]))) =
       [ONew (Some (PageId 3 0)), ODone, OFlag True, ONew (Some (PageId 3 1)), OFlag True,
        OPage (Some (replicate PAGE_SIZE 7)), OPage None]"
proof -
  have "fst (spec_run two_pages (init_store 1 (tiny_disk [Xfer 9, Eintr]))) =
       [ONew (Some (PageId 3 0)), ODone, OFlag True, ONew (Some (PageId 3 1)), OFlag True,
        OPage (Some (replicate PAGE_SIZE 7)), OPage None]"
    by (simp add: two_pages_def spec_exec_def init_store_def all_pinned_def Let_def)
  with lru_pool_refines_store [OF tiny_disk_ok tiny_disk_nos legal_two_pages, of "[Xfer 9, Eintr]"]
  show ?thesis by simp
qed

text \<open>
  Claim C2. Checkpointing is durable: after any disciplined sequence of calls, \<^verbatim>\<open>flush_all_pages\<close>
  of a file succeeds, and the file on disk then holds the last written contents of every page,
  resident or evicted.
\<close>

theorem lru_flush_all_durable:
  assumes "disk_ok F d" and "\<forall>fd \<in> F. 0 \<le> fd2pageno d fd" and "legal_run F cs (init_store n d)"
  shows "\<exists>s' s''. bp_run lru_ops cs (lru_pool n d) = Ret (fst (spec_run cs (init_store n d))) s' \<and>
    flush_all_pages fd s' = Ret () s'' \<and>
    (\<forall>no. fd \<in> F \<longrightarrow> 0 \<le> no \<longrightarrow>
       disk_page (disk_st s'') fd no = store (snd (spec_run cs (init_store n d))) (PageId fd no))"
proof -
  obtain s' where s': "bp_run lru_ops cs (lru_pool n d) = Ret (fst (spec_run cs (init_store n d))) s'"
    "lru_sim F s' (snd (spec_run cs (init_store n d)))"
    using lru.sim_run [OF lru_sim_init [OF assms(1,2)] assms(3)] by blast
  from lru.flush_all_durable [OF s'(2), of fd] obtain s'' where "flush_all_pages fd s' = Ret () s''"
    "\<forall>pid. on_file F pid \<longrightarrow> pid_fd pid = fd \<longrightarrow>
       disk_view (disk_st s'') pid = store (snd (spec_run cs (init_store n d))) pid" by blast
  moreover have "disk_page (disk_st s'') fd no = store (snd (spec_run cs (init_store n d))) (PageId fd no)"
    if "fd \<in> F" "0 \<le> no" for no
    using calculation(2) [rule_format, of "PageId fd no"] that by (simp add: disk_view_def)
  ultimately show ?thesis using s'(1) by blast
qed

theorem lru_flush_all_durable_witness:
  "\<exists>s' s''. bp_run lru_ops two_pages (lru_pool 1 (tiny_disk [Eintr])) =
     Ret (fst (spec_run two_pages (init_store 1 (tiny_disk [Eintr])))) s' \<and>
     flush_all_pages 3 s' = Ret () s'' \<and>
     disk_page (disk_st s'') 3 0 = replicate PAGE_SIZE 7"
proof -
  have st: "store (snd (spec_run two_pages (init_store 1 (tiny_disk [Eintr])))) (PageId 3 0) =
      replicate PAGE_SIZE 7"
    by (simp add: two_pages_def spec_exec_def init_store_def all_pinned_def Let_def)
  have "Eio \<notin> set [Eintr]" by simp
  from lru_flush_all_durable [OF tiny_disk_ok [OF this] tiny_disk_nos legal_two_pages, where fd = 3]
  obtain s' s'' where "bp_run lru_ops two_pages (lru_pool 1 (tiny_disk [Eintr])) =
     Ret (fst (spec_run two_pages (init_store 1 (tiny_disk [Eintr])))) s'"
    "flush_all_pages 3 s' = Ret () s''"
    "\<forall>no. 3 \<in> {3 :: int} \<longrightarrow> 0 \<le> no \<longrightarrow> disk_page (disk_st s'') 3 no =
       store (snd (spec_run two_pages (init_store 1 (tiny_disk [Eintr])))) (PageId 3 no)"
    by blast
  with st show ?thesis by auto
qed

abbreviation lru_bpm_inv :: "lru bpm \<Rightarrow> bool" where
  "lru_bpm_inv \<equiv> bpm_inv (\<lambda>r. set (lru_list r)) max_size lru_inv"

text \<open>
  Claim C3. Whatever the disk does, errors included, every call of the pool leaves page table, frame
  identifiers, free list, pin counts and replacer consistent: no frame holds two pages, no page
  is in two frames, and only unpinned frames can be evicted. The one condition is that the page
  number \<^verbatim>\<open>new_page\<close> allocates is not that of a resident page.
\<close>

theorem lru_call_inv:
  assumes "lru_bpm_inv s" and "\<And>fd. c = BNew fd \<Longrightarrow> pt s (PageId fd (fd2pageno (disk_st s) fd)) = None"
    and "\<And>pid bs. c = BWrite pid bs \<Longrightarrow> length bs = PAGE_SIZE"
  shows "lru_bpm_inv (snd (bp_exec lru_ops c s))"
proof -
  have leave: "lru_bpm_inv (snd (seqE m (\<lambda>x s1. Ret (g x s1) s1)))" if "lru_bpm_inv (snd m)"
    for m :: "('a, lru bpm) res" and g :: "'a \<Rightarrow> lru bpm \<Rightarrow> bp_obs"
    using that by (cases m; cases "fst m") auto
  have wr: "lru_bpm_inv (bp_write pid bs s)" if "length bs = PAGE_SIZE" for pid bs
    using that assms(1) by (auto simp: bp_write_def intro!: bpm_inv_set_page split: option.split)
  show ?thesis
    using assms lru.fetch_page_inv lru.unpin_page_inv lru.flush_page_inv lru.new_page_inv
      lru.delete_page_inv lru.flush_all_pages_inv lru.delete_all_pages_inv wr
    by (cases c) (auto simp: bp_exec_def split: prod.split intro!: leave, metis snd_conv)
qed

theorem lru_call_inv_witness:
  "lru_bpm_inv (lru_pool 1 (tiny_disk [Eio])) \<and>
   lru_bpm_inv (snd (bp_exec lru_ops (BFetch (PageId 3 0)) (lru_pool 1 (tiny_disk [Eio]))))"
proof -
  have i: "lru_bpm_inv (lru_pool 1 (tiny_disk [Eio]))"
    by (auto simp: bpm_inv_def lru_pool_def BufferPoolManager_def LRUReplacer_def lru_inv_def table_ok_def
        free_ok_def evict_ok_def new_Page_def invalid_pid_def)
  moreover have "lru_bpm_inv (snd (bp_exec lru_ops (BFetch (PageId 3 0)) (lru_pool 1 (tiny_disk [Eio]))))"
    by (rule lru_call_inv [OF i]) simp_all
  ultimately show ?thesis by simp
qed

end
