(* ===== verification/Record_File.thy ===== *)
theory Record_File
  imports Record_Page Buffer_Pool_Store
begin

text \<open>
  Table files: \<^verbatim>\<open>RmFileHandle\<close> (\<^verbatim>\<open>record/rm_file_handle.cpp\<close>), \<^verbatim>\<open>RmScan\<close> (\<^verbatim>\<open>record/rm_scan.cpp\<close>)
  and \<^verbatim>\<open>RmManager\<close> (\<^verbatim>\<open>record/rm_manager.h\<close>), over the model of the buffer pool. The state of a
  handle is its descriptor, the cached file header and the pool it works on; an \<^verbatim>\<open>RmPageHandle\<close>
  is the frame of its page, its loads and stores go to the bytes of that frame.
\<close>

datatype rid = Rid (page_no: int) (slot_no: int)

record 'r rm_file =
  rm_fd :: int
  rm_hdr :: rm_file_hdr
  rm_pool :: "'r bpm"

definition page_data :: "int \<Rightarrow> 'r rm_file \<Rightarrow> bytes" where
  "page_data f s = data (pages (rm_pool s) f)"

definition set_page_data :: "int \<Rightarrow> bytes \<Rightarrow> 'r rm_file \<Rightarrow> 'r rm_file" where
  "set_page_data f d s =
     s\<lparr>rm_pool := set_page f ((pages (rm_pool s) f)\<lparr>data := d\<rparr>) (rm_pool s)\<rparr>"

definition unpin :: "'r replacer_ops \<Rightarrow> int \<Rightarrow> bool \<Rightarrow> 'r rm_file \<Rightarrow> 'r rm_file" where
  "unpin R no dirty s = s\<lparr>rm_pool := snd (unpin_page R (PageId (rm_fd s) no) dirty (rm_pool s))\<rparr>"

section \<open>Page handles\<close>

definition fetch_page_handle :: "'r replacer_ops \<Rightarrow> int \<Rightarrow> 'r rm_file \<Rightarrow> (int, 'r rm_file) res" where
  "fetch_page_handle R no s =
     (if no < RM_FIRST_RECORD_PAGE \<or> no \<ge> num_pages (rm_hdr s)
      then (case get_file_name (rm_fd s) (disk_st (rm_pool s)) of
              (Inl e, _) \<Rightarrow> Throw e s
            | (Inr name, _) \<Rightarrow> Throw (PageNotExistError name no) s)
      else (case fetch_page R (PageId (rm_fd s) no) (rm_pool s) of
              (Inl e, p) \<Rightarrow> Throw e (s\<lparr>rm_pool := p\<rparr>)
            | (Inr None, p) \<Rightarrow>
                Throw (InternalError ''buffer pool has no available frame'') (s\<lparr>rm_pool := p\<rparr>)
            | (Inr (Some f), p) \<Rightarrow> Ret f (s\<lparr>rm_pool := p\<rparr>)))"

text \<open>\<open>create_new_page_handle\<close> returns the frame and the number of the new page.\<close>

definition create_new_page_handle :: "'r replacer_ops \<Rightarrow> 'r rm_file \<Rightarrow> (int \<times> int, 'r rm_file) res" where
  "create_new_page_handle R s =
     (case new_page R (rm_fd s) (rm_pool s) of
        (Inl e, p) \<Rightarrow> Throw e (s\<lparr>rm_pool := p\<rparr>)
      | (Inr None, p) \<Rightarrow>
          Throw (InternalError ''buffer pool has no available frame'') (s\<lparr>rm_pool := p\<rparr>)
      | (Inr (Some (f, pid)), p) \<Rightarrow>
          let s1 = s\<lparr>rm_pool := p\<rparr>;
              d1 = set_next_free_page_no (first_free_page_no (rm_hdr s1)) (page_data f s1);
              d2 = set_num_records 0 d1;
              d3 = set_bitmap (bitmap_init (bitmap_size (rm_hdr s1))) d2;
              s2 = set_page_data f d3 s1
          in Ret (f, pid_no pid)
               (s2\<lparr>rm_hdr := (rm_hdr s2)\<lparr>first_free_page_no := pid_no pid,
                                        num_pages := num_pages (rm_hdr s2) + 1\<rparr>\<rparr>))"

definition create_page_handle :: "'r replacer_ops \<Rightarrow> 'r rm_file \<Rightarrow> (int \<times> int, 'r rm_file) res" where
  "create_page_handle R s =
     (if first_free_page_no (rm_hdr s) = RM_NO_PAGE then create_new_page_handle R s
      else seqE (fetch_page_handle R (first_free_page_no (rm_hdr s)) s)
             (\<lambda>f s1. Ret (f, pid_no (id (pages (rm_pool s1) f))) s1))"

definition release_page_handle :: "int \<Rightarrow> 'r rm_file \<Rightarrow> 'r rm_file" where
  "release_page_handle f s =
     (let s1 = set_page_data f
                 (set_next_free_page_no (first_free_page_no (rm_hdr s)) (page_data f s)) s
      in s1\<lparr>rm_hdr := (rm_hdr s1)\<lparr>first_free_page_no := pid_no (id (pages (rm_pool s1) f))\<rparr>\<rparr>)"

section \<open>Records\<close>

text \<open>The test of a record number that \<open>get_record\<close>, \<open>delete_record\<close> and \<open>update_record\<close> share.\<close>

definition no_record :: "rid \<Rightarrow> int \<Rightarrow> 'r rm_file \<Rightarrow> bool" where
  "no_record rid f s \<longleftrightarrow>
     slot_no rid < 0 \<or> slot_no rid \<ge> num_records_per_page (rm_hdr s) \<or>
     \<not> bitmap_is_set (bitmap (rm_hdr s) (page_data f s)) (slot_no rid)"

definition is_record :: "'r replacer_ops \<Rightarrow> rid \<Rightarrow> 'r rm_file \<Rightarrow> (bool, 'r rm_file) res" where
  "is_record R rid s =
     seqE (fetch_page_handle R (page_no rid) s)
       (\<lambda>f s1. Ret (\<not> no_record rid f s1) (unpin R (page_no rid) False s1))"

definition get_record :: "'r replacer_ops \<Rightarrow> rid \<Rightarrow> 'r rm_file \<Rightarrow> (bytes, 'r rm_file) res" where
  "get_record R rid s =
     seqE (fetch_page_handle R (page_no rid) s)
       (\<lambda>f s1.
          if no_record rid f s1
          then Throw (RecordNotFoundError (page_no rid) (slot_no rid)) (unpin R (page_no rid) False s1)
          else Ret (get_slot (rm_hdr s1) (slot_no rid) (page_data f s1))
                 (unpin R (page_no rid) False s1))"

definition insert_record :: "'r replacer_ops \<Rightarrow> bytes \<Rightarrow> 'r rm_file \<Rightarrow> (rid, 'r rm_file) res" where
  "insert_record R buf s =
     seqE (create_page_handle R s)
       (\<lambda>(f, no) s1.
          let h = rm_hdr s1; d = page_data f s1;
              slot = first_bit False (bitmap h d) (num_records_per_page h)
          in if slot < num_records_per_page h
             then let d1 = set_bitmap (bitmap_set (bitmap h d) slot) d;
                      d2 = set_slot h slot (take (nat (record_size h)) buf) d1;
                      d3 = set_num_records (num_records d2 + 1) d2;
                      full = num_records d3 = num_records_per_page h;
                      d4 = (if full then set_next_free_page_no RM_NO_PAGE d3 else d3);
                      h' = (if full then h\<lparr>first_free_page_no := next_free_page_no d3\<rparr> else h);
                      s2 = (set_page_data f d4 s1)\<lparr>rm_hdr := h'\<rparr>
                  in Ret (Rid no slot) (unpin R no True s2)
             else Throw AssertionFailure s1)"

text \<open>
  The loop of \<open>insert_record(rid, buf)\<close> that appends pages up to the one asked for. Every
  iteration that does not throw adds one page, so the number of missing pages bounds it.
\<close>

primrec append_pages :: "nat \<Rightarrow> 'r replacer_ops \<Rightarrow> int \<Rightarrow> 'r rm_file \<Rightarrow> (unit, 'r rm_file) res" where
  "append_pages 0 R no s = Ret () s"
| "append_pages (Suc k) R no s =
     (if num_pages (rm_hdr s) \<le> no
      then seqE (create_new_page_handle R s) (\<lambda>(f, n) s1. append_pages k R no (unpin R n True s1))
      else Ret () s)"

definition insert_record_at :: "'r replacer_ops \<Rightarrow> rid \<Rightarrow> bytes \<Rightarrow> 'r rm_file \<Rightarrow> (unit, 'r rm_file) res"
where
  "insert_record_at R rid buf s0 =
     seqE (append_pages (nat (page_no rid + 1 - num_pages (rm_hdr s0))) R (page_no rid) s0)
       (\<lambda>_ s. seqE (fetch_page_handle R (page_no rid) s)
          (\<lambda>f s1.
             let h = rm_hdr s1; d = page_data f s1; slot = slot_no rid in
             if slot < 0 \<or> slot \<ge> num_records_per_page h
             then Throw (RecordNotFoundError (page_no rid) slot) (unpin R (page_no rid) False s1)
             else if \<not> bitmap_is_set (bitmap h d) slot
             then let d1 = set_bitmap (bitmap_set (bitmap h d) slot) d;
                      d2 = set_slot h slot (take (nat (record_size h)) buf) d1;
                      d3 = set_num_records (num_records d2 + 1) d2;
                      full = num_records d3 = num_records_per_page h;
                      h' = (if full \<and> first_free_page_no h = page_no rid
                            then h\<lparr>first_free_page_no := next_free_page_no d3\<rparr> else h);
                      d4 = (if full then set_next_free_page_no RM_NO_PAGE d3 else d3);
                      s2 = (set_page_data f d4 s1)\<lparr>rm_hdr := h'\<rparr>
                  in Ret () (unpin R (page_no rid) True s2)
             else Ret () (unpin R (page_no rid) True s1)))"

definition delete_record :: "'r replacer_ops \<Rightarrow> rid \<Rightarrow> 'r rm_file \<Rightarrow> (unit, 'r rm_file) res" where
  "delete_record R rid s =
     seqE (fetch_page_handle R (page_no rid) s)
       (\<lambda>f s1.
          if no_record rid f s1
          then Throw (RecordNotFoundError (page_no rid) (slot_no rid)) (unpin R (page_no rid) False s1)
          else let h = rm_hdr s1; d = page_data f s1;
                   was_full = num_records d = num_records_per_page h;
                   d1 = set_bitmap (bitmap_reset (bitmap h d) (slot_no rid)) d;
                   d2 = set_num_records (num_records d1 - 1) d1;
                   s2 = set_page_data f d2 s1;
                   s3 = (if was_full then release_page_handle f s2 else s2)
               in Ret () (unpin R (page_no rid) True s3))"

definition update_record :: "'r replacer_ops \<Rightarrow> rid \<Rightarrow> bytes \<Rightarrow> 'r rm_file \<Rightarrow> (unit, 'r rm_file) res" where
  "update_record R rid buf s =
     seqE (fetch_page_handle R (page_no rid) s)
       (\<lambda>f s1.
          if no_record rid f s1
          then Throw (RecordNotFoundError (page_no rid) (slot_no rid)) (unpin R (page_no rid) False s1)
          else let h = rm_hdr s1;
                   s2 = set_page_data f (set_slot h (slot_no rid) (take (nat (record_size h)) buf)
                                           (page_data f s1)) s1
               in Ret () (unpin R (page_no rid) True s2))"

text \<open>The loop of \<open>rebuild_free_page_list\<close>, over the page numbers still to visit.\<close>

fun rebuild_loop :: "'r replacer_ops \<Rightarrow> int list \<Rightarrow> 'r rm_file \<Rightarrow> (unit, 'r rm_file) res" where
  "rebuild_loop R [] s = Ret () s"
| "rebuild_loop R (no # nos) s =
     seqE (fetch_page_handle R no s)
       (\<lambda>f s1.
          let h = rm_hdr s1; d = page_data f s1;
              s2 = (if num_records d < num_records_per_page h
                    then (set_page_data f (set_next_free_page_no (first_free_page_no h) d) s1)
                           \<lparr>rm_hdr := h\<lparr>first_free_page_no := no\<rparr>\<rparr>
                    else set_page_data f (set_next_free_page_no RM_NO_PAGE d) s1)
          in rebuild_loop R nos (unpin R no True s2))"

definition rebuild_free_page_list :: "'r replacer_ops \<Rightarrow> 'r rm_file \<Rightarrow> (unit, 'r rm_file) res" where
  "rebuild_free_page_list R s =
     rebuild_loop R [RM_FIRST_RECORD_PAGE..num_pages (rm_hdr s) - 1]
       (s\<lparr>rm_hdr := (rm_hdr s)\<lparr>first_free_page_no := RM_NO_PAGE\<rparr>\<rparr>)"

section \<open>RmScan\<close>

definition scan_is_end :: "rid \<Rightarrow> 'r rm_file \<Rightarrow> bool" where
  "scan_is_end r s \<longleftrightarrow> page_no r \<ge> num_pages (rm_hdr s)"

fun scan_loop :: "'r replacer_ops \<Rightarrow> rid \<Rightarrow> int list \<Rightarrow> 'r rm_file \<Rightarrow> (rid, 'r rm_file) res" where
  "scan_loop R r [] s = Ret (Rid (num_pages (rm_hdr s)) (-1)) s"
| "scan_loop R r (no # nos) s =
     seqE (fetch_page_handle R no s)
       (\<lambda>f s1.
          let n = num_records_per_page (rm_hdr s1);
              current_slot = (if no = page_no r then slot_no r else -1);
              slot = next_bit True (bitmap (rm_hdr s1) (page_data f s1)) n current_slot;
              s2 = unpin R no False s1
          in if slot < n then Ret (Rid no slot) s2 else scan_loop R r nos s2)"

definition scan_next :: "'r replacer_ops \<Rightarrow> rid \<Rightarrow> 'r rm_file \<Rightarrow> (rid, 'r rm_file) res" where
  "scan_next R r s =
     (if scan_is_end r s then Ret r s
      else scan_loop R r [page_no r..num_pages (rm_hdr s) - 1] s)"

definition RmScan :: "'r replacer_ops \<Rightarrow> 'r rm_file \<Rightarrow> (rid, 'r rm_file) res" where
  "RmScan R s = scan_next R (Rid RM_FIRST_RECORD_PAGE (-1)) s"

section \<open>RmManager\<close>

definition new_file_hdr :: "int \<Rightarrow> rm_file_hdr" where
  "new_file_hdr sz =
     (let n = (BITMAP_WIDTH * (int PAGE_SIZE - 1 - int SIZEOF_RmFileHdr) + 1) sdiv (1 + sz * BITMAP_WIDTH)
      in \<lparr>record_size = sz, num_pages = 1, num_records_per_page = n,
          first_free_page_no = RM_NO_PAGE, bitmap_size = (n + BITMAP_WIDTH - 1) sdiv BITMAP_WIDTH\<rparr>)"

definition rm_create_file :: "string \<Rightarrow> int \<Rightarrow> 'r bpm \<Rightarrow> (unit, 'r bpm) res" where
  "rm_create_file filename sz s =
     (if sz < 1 \<or> sz > RM_MAX_RECORD_SIZE then Throw (InvalidRecordSizeError sz) s
      else seqE (on_disk (create_file filename) s)
        (\<lambda>_ s1. seqE (on_disk (open_file filename) s1)
           (\<lambda>fd s2. seqE (on_disk (write_page fd RM_FILE_HDR_PAGE (enc_file_hdr (new_file_hdr sz))) s2)
              (\<lambda>_ s3. on_disk (close_file fd) s3))))"

definition rm_destroy_file :: "string \<Rightarrow> 'r bpm \<Rightarrow> (unit, 'r bpm) res" where
  "rm_destroy_file filename s = on_disk (destroy_file filename) s"

text \<open>The constructor of \<^verbatim>\<open>RmFileHandle\<close> reads the header from page 0.\<close>

definition RmFileHandle :: "int \<Rightarrow> 'r bpm \<Rightarrow> (unit, 'r rm_file) res" where
  "RmFileHandle fd s =
     (case read_page fd RM_FILE_HDR_PAGE (zeros SIZEOF_RmFileHdr) (disk_st s) of
        (r, (bs, d)) \<Rightarrow>
          let h = dec_file_hdr bs in
          (case r of
             Inl e \<Rightarrow> Throw e \<lparr>rm_fd = fd, rm_hdr = h, rm_pool = s\<lparr>disk_st := d\<rparr>\<rparr>
           | Inr _ \<Rightarrow> Ret () \<lparr>rm_fd = fd, rm_hdr = h,
                             rm_pool = s\<lparr>disk_st := set_fd2pageno fd (num_pages h) d\<rparr>\<rparr>))"

definition rm_open_file :: "string \<Rightarrow> 'r bpm \<Rightarrow> ('r rm_file, 'r bpm) res" where
  "rm_open_file filename s =
     seqE (on_disk (open_file filename) s)
       (\<lambda>fd s1. case RmFileHandle fd s1 of
                  (Inl e, h) \<Rightarrow> Throw e (rm_pool h)
                | (Inr _, h) \<Rightarrow> Ret h (rm_pool h))"

definition rm_close_file :: "'r replacer_ops \<Rightarrow> 'r rm_file \<Rightarrow> (unit, 'r bpm) res" where
  "rm_close_file R s =
     seqE (on_disk (write_page (rm_fd s) RM_FILE_HDR_PAGE (enc_file_hdr (rm_hdr s))) (rm_pool s))
       (\<lambda>_ p. seqE (delete_all_pages R (rm_fd s) p)
          (\<lambda>_ p1. on_disk (close_file (rm_fd s)) p1))"

end
