(* ===== verification/Record_File_Pages.thy ===== *)
theory Record_File_Pages
  imports Record_File
begin

text \<open>
  The record file as a client of the buffer pool: between two calls no page is pinned, a call
  borrows one page at a time, and what it stores into the borrowed frame is what the pool shows
  for that page after the call. Everything here is derived from the refinement of the pool to
  the page store, for every replacer that meets the contract.
\<close>

text \<open>The page store a state of the pool stands for.\<close>

definition abs_store :: "page_id set \<Rightarrow> 'r bpm \<Rightarrow> page_store" where
  "abs_store W s = \<lparr>store = page_view s, pins = pin_of s, pending = W,
                    next_no = fd2pageno (disk_st s), nframes = pool_size s\<rparr>"

lemma abs_store_sel [simp]:
  "store (abs_store W s) = page_view s" "pins (abs_store W s) = pin_of s"
  "pending (abs_store W s) = W" "next_no (abs_store W s) = fd2pageno (disk_st s)"
  "nframes (abs_store W s) = pool_size s"
  by (simp_all add: abs_store_def)

context replacer begin

text \<open>No page is pinned.\<close>

definition rest :: "int set \<Rightarrow> 'r bpm \<Rightarrow> bool" where
  "rest F s \<longleftrightarrow> pok F {} s \<and> pin_of s = (\<lambda>_. 0) \<and> (\<forall>fd \<in> F. 0 \<le> fd2pageno (disk_st s) fd) \<and>
     0 < pool_size s"

text \<open>Exactly the page \<open>pid\<close>, in frame \<open>f\<close>, is pinned, once.\<close>

definition held :: "int set \<Rightarrow> page_id set \<Rightarrow> page_id \<Rightarrow> int \<Rightarrow> 'r bpm \<Rightarrow> bool" where
  "held F W pid f s \<longleftrightarrow> pok F W s \<and> W \<subseteq> {pid} \<and> pt s pid = Some f \<and> pin_of s = (\<lambda>_. 0)(pid := 1) \<and>
     (\<forall>fd \<in> F. 0 \<le> fd2pageno (disk_st s) fd) \<and> 0 < pool_size s"

lemma sim_abs:
  assumes "pok F W s" and "\<forall>fd \<in> F. 0 \<le> fd2pageno (disk_st s) fd"
  shows "sim F s (abs_store W s)"
  using assms by (simp add: abs_store_def store_rel_def)

lemma held_data: "held F W pid f s \<Longrightarrow> page_view s pid = data (pages s f) \<and> id (pages s f) = pid"
proof -
  assume h: "held F W pid f s"
  then have "binv s" "pt s pid = Some f" by (simp_all add: held_def pool_ok_def)
  with table_okD(2) [OF bpm_invD(3) [OF this(1)] this(2)] show ?thesis by (simp add: page_view_def)
qed

text \<open>The frame a successful fetch or allocation returns is the one that holds the page.\<close>

lemma update_page_frame:
  assumes "binv s" and "find_victim_page R s = (Some f, s1)" and "pt s pid = None"
    and "pid_no pid \<noteq> INVALID_PAGE_ID" and "update_page f pid (s1\<lparr>disk_st := d\<rparr>) = (Inr (), s2)"
  shows "pt s2 pid = Some f"
  using assms(5)
proof (cases rule: update_page_cases)
  case (2 d')
  from find_victim_Some [OF assms(1,2)] have s1: "binv s1" "reserved evictable f s1"
    "page_table s1 = page_table s" by simp_all
  let ?q = "\<lparr>id = pid, data = zeros PAGE_SIZE, is_dirty = False, pin_count = 0\<rparr>"
  let ?s = "s1\<lparr>disk_st := d'\<rparr>"
  have "table_ok ?s" "in_pool f ?s" "pt ?s (id ?q) = None"
    using bpm_invD(3) [OF s1(1)] s1(2,3) assms(3) by (simp_all add: table_ok_def reserved_def)
  from pt_install [OF this] 2 assms(4) show ?thesis by simp
qed simp

lemma fetch_frame:
  assumes "binv s" and "fetch_page R pid s = Ret (Some f) s'" and "pid_no pid \<noteq> INVALID_PAGE_ID"
  shows "pt s' pid = Some f"
proof (cases "pt s pid")
  case (Some g)
  with assms(2) show ?thesis by (auto simp: fetch_page_hit set_page_def)
next
  case None
  obtain v s1 where v: "find_victim_page R s = (v, s1)" by force
  with assms(2) None obtain g where g: "v = Some g"
    by (cases v) (simp_all add: fetch_page_def)
  obtain u s2 where u: "update_page g pid s1 = (u, s2)" by force
  obtain rr dest d where rd: "read_page (pid_fd pid) (pid_no pid) (data (pages s2 g)) (disk_st s2)
      = (rr, (dest, d))" by (metis prod_cases3)
  have "u = Inr () \<and> g = f \<and> pt s' pid = pt s2 pid"
    using assms(2) None v g u rd
    by (cases u; cases rr) (auto simp: fetch_page_def Let_def set_page_def)
  moreover from this have "pt s2 pid = Some g"
    using update_page_frame [OF assms(1) v [unfolded g] None assms(3), of "disk_st s1"] u by simp
  ultimately show ?thesis by simp
qed

lemma new_frame:
  assumes "binv s" and "new_page R fd s = Ret (Some (f, pid)) s'" and "pid_no pid \<noteq> INVALID_PAGE_ID"
    and "pt s pid = None"
  shows "pt s' pid = Some f"
proof -
  obtain v s1 where v: "find_victim_page R s = (v, s1)" by force
  with assms(2) obtain g where g: "v = Some g" by (cases v) (simp_all add: new_page_def)
  from assms(2) v g obtain no d s2 where
    "on_disk (allocate_page fd) s1 = Ret no (s1\<lparr>disk_st := d\<rparr>)"
    and u: "update_page g (PageId fd no) (s1\<lparr>disk_st := d\<rparr>) = Ret () s2"
    and e: "g = f" "pid = PageId fd no" "pt s' pid = pt s2 pid"
    by (auto simp: new_page_def bindE_eq_Ret on_disk_Ret set_page_def)
  from update_page_frame [OF assms(1) v [unfolded g], of pid d s2] assms(3,4) u e show ?thesis by simp
qed

lemma not_all_pinned:
  assumes "rest F s"
  shows "fst (find_victim_page R s) \<noteq> None"
proof
  assume n: "fst (find_victim_page R s) = None"
  have ok: "pok F {} s" and np: "\<forall>fd \<in> F. 0 \<le> fd2pageno (disk_st s) fd" and z: "pin_of s = (\<lambda>_. 0)"
    and sz: "0 < pool_size s" using assms by (simp_all add: rest_def)
  have rel: "store_rel F s (abs_store {} s)" using sim_abs [OF ok np] by simp
  have "all_pinned (abs_store {} s)"
    using n find_victim_iff [OF pool_okD(1) [OF ok]] pok_all_pinned [OF ok rel] by simp
  with z sz show False by (simp add: all_pinned_def abs_store_def)
qed

lemma fetch_rest:
  assumes "rest F s" and "on_file F pid" and "pid_no pid < fd2pageno (disk_st s) (pid_fd pid)"
  shows "\<exists>f s1. fetch_page R pid s = Ret (Some f) s1 \<and> held F {} pid f s1 \<and>
    (\<forall>q. on_file F q \<longrightarrow> page_view s1 q = page_view s q) \<and>
    fd2pageno (disk_st s1) = fd2pageno (disk_st s) \<and> pool_size s1 = pool_size s"
proof -
  have ok: "pok F {} s" and np: "\<forall>fd \<in> F. 0 \<le> fd2pageno (disk_st s) fd" and z: "pin_of s = (\<lambda>_. 0)"
    and sz: "0 < pool_size s" using assms(1) by (simp_all add: rest_def)
  let ?a = "abs_store {} s"
  have "\<not> all_pinned ?a" using z sz by (simp add: all_pinned_def abs_store_def)
  moreover have "legal F (BFetch pid) ?a" using assms(2,3) by (simp add: legal_def abs_store_def)
  ultimately obtain s1 where ex: "bp_exec R (BFetch pid) s = Ret (OPage (Some (page_view s pid))) s1"
    and sm: "sim F s1 (?a\<lparr>pins := (pins ?a)(pid := 1)\<rparr>)"
    using sim_fetch [OF sim_abs [OF ok np], of pid] z
    by (auto simp: simulates_def spec_exec_def abs_store_def)
  from ex obtain f where f: "fetch_page R pid s = Ret (Some f) s1"
    by (auto simp: bp_exec_def bindE_eq_Ret)
  have sr: "store_rel F s1 (?a\<lparr>pins := (pins ?a)(pid := 1)\<rparr>)" and ok1: "pok F {} s1"
    using sm by (simp_all add: abs_store_def)
  note d = store_relD [OF sr]
  have p1: "pin_of s1 = (\<lambda>_. 0)(pid := 1)" using d(2) z by (simp add: abs_store_def)
  have "pt s1 pid = Some f" 
    using fetch_frame [OF pool_okD(1) [OF ok] f] assms(2) by (simp add: INVALID_PAGE_ID_def)
  with ok1 p1 d(3,4) np sz f d(1) show ?thesis
    by (auto simp: held_def abs_store_def)
qed

lemma new_rest:
  assumes "rest F s" and "fd \<in> F" and "is_i32 (fd2pageno (disk_st s) fd + 1)"
  defines "pid \<equiv> PageId fd (fd2pageno (disk_st s) fd)"
  shows "\<exists>f s1. new_page R fd s = Ret (Some (f, pid)) s1 \<and> held F {pid} pid f s1 \<and>
    (\<forall>q. on_file F q \<longrightarrow> page_view s1 q = (if q = pid then zeros PAGE_SIZE else page_view s q)) \<and>
    fd2pageno (disk_st s1) = (fd2pageno (disk_st s))(fd := fd2pageno (disk_st s) fd + 1) \<and>
    pool_size s1 = pool_size s"
proof -
  have ok: "pok F {} s" and np: "\<forall>fd \<in> F. 0 \<le> fd2pageno (disk_st s) fd" and z: "pin_of s = (\<lambda>_. 0)"
    and sz: "0 < pool_size s" using assms(1) by (simp_all add: rest_def)
  from not_all_pinned [OF assms(1)] obtain f s0 where v: "find_victim_page R s = (Some f, s0)"
    by (cases "find_victim_page R s") auto
  have nn: "0 \<le> fd2pageno (disk_st s) fd" using np assms(2) by blast
  from new_page_ok [OF ok assms(2,3) nn v] obtain s1 where
    s1: "new_page R fd s = Ret (Some (f, pid)) s1" "pok F {pid} s1"
    "\<And>q. on_file F q \<Longrightarrow> page_view s1 q = (if q = pid then zeros PAGE_SIZE else page_view s q)"
    "pin_of s1 = (pin_of s)(pid := 1)" "pool_size s1 = pool_size s"
    "fd2pageno (disk_st s1) = (fd2pageno (disk_st s))(fd := fd2pageno (disk_st s) fd + 1)"
    unfolding pid_def by auto
  have "pt s pid = None"
    using pool_okD(4) [OF ok] by (cases "pt s pid") (auto simp: mapped_ok_def pid_def)
  then have "pt s1 pid = Some f"
    using new_frame [OF pool_okD(1) [OF ok] s1(1)] nn by (simp add: pid_def INVALID_PAGE_ID_def)
  with s1 z np sz show ?thesis by (auto simp: held_def)
qed

text \<open>Storing into the held page and giving it back.\<close>

lemma unpin_held:
  assumes "held F W pid f s" and "W \<subseteq> {pid}" and "dirty \<or> W = {}"
  shows "rest F (snd (unpin_page R pid dirty s))"
    and "on_file F q \<Longrightarrow> page_view (snd (unpin_page R pid dirty s)) q = page_view s q"
    and "fd2pageno (disk_st (snd (unpin_page R pid dirty s))) = fd2pageno (disk_st s)"
    and "pool_size (snd (unpin_page R pid dirty s)) = pool_size s"
proof -
  have ok: "pok F W s" and np: "\<forall>fd \<in> F. 0 \<le> fd2pageno (disk_st s) fd" and p: "pin_of s = (\<lambda>_. 0)(pid := 1)"
    and sz: "0 < pool_size s" using assms(1) by (simp_all add: held_def)
  let ?a = "abs_store W s"
  let ?W = "if dirty then W - {pid} else W"
  have W: "?W = {}" using assms(2,3) by auto
  have "legal F (BUnpin pid dirty) ?a" using assms(2,3) by (auto simp: legal_def abs_store_def)
  moreover have "snd (spec_exec (BUnpin pid dirty) ?a) = ?a\<lparr>pins := (\<lambda>_. 0)(pid := 0), pending := ?W\<rparr>"
    using p by (simp add: spec_exec_def)
  ultimately obtain x s' where ex: "bp_exec R (BUnpin pid dirty) s = Ret x s'" and
    sm: "sim F s' (?a\<lparr>pins := (\<lambda>_. 0)(pid := 0), pending := ?W\<rparr>)"
    using sim_unpin [OF sim_abs [OF ok np]] unfolding simulates_def by metis
  from ex obtain b where u: "unpin_page R pid dirty s = (b, s')"
    by (auto simp: bp_exec_def split: prod.splits)
  have sr: "store_rel F s' (?a\<lparr>pins := (\<lambda>_. 0)(pid := 0), pending := ?W\<rparr>)" and ok': "pok F {} s'"
    using sm W by simp_all
  note d = store_relD [OF sr]
  have "pin_of s' = (\<lambda>_. 0)" using d(2) by (simp add: fun_upd_idem)
  moreover have e: "fd2pageno (disk_st s') = fd2pageno (disk_st s)" "pool_size s' = pool_size s"
    using d(3,4) by (simp_all add: abs_store_def)
  ultimately show "rest F (snd (unpin_page R pid dirty s))" using ok' np sz u by (simp add: rest_def)
  show "page_view (snd (unpin_page R pid dirty s)) q = page_view s q" if "on_file F q"
    using d(1) [OF that] u by (simp add: abs_store_def)
  show "fd2pageno (disk_st (snd (unpin_page R pid dirty s))) = fd2pageno (disk_st s)"
    "pool_size (snd (unpin_page R pid dirty s)) = pool_size s" using e u by simp_all
qed

lemma store_held:
  assumes "held F W pid f s" and "length bs = PAGE_SIZE"
  defines "s' \<equiv> set_page f ((pages s f)\<lparr>data := bs\<rparr>) s"
  shows "held F {pid} pid f s'"
    and "on_file F q \<Longrightarrow> page_view s' q = (if q = pid then bs else page_view s q)"
    and "fd2pageno (disk_st s') = fd2pageno (disk_st s)" and "pool_size s' = pool_size s"
proof -
  have ok: "pok F W s" and np: "\<forall>fd \<in> F. 0 \<le> fd2pageno (disk_st s) fd" and p: "pin_of s = (\<lambda>_. 0)(pid := 1)"
    and sz: "0 < pool_size s" and f: "pt s pid = Some f" and W: "W \<subseteq> {pid}"
    using assms(1) by (simp_all add: held_def)
  let ?a = "abs_store W s"
  have "legal F (BWrite pid bs) ?a" using assms(2) p by (simp add: legal_def abs_store_def)
  from sim_write [OF sim_abs [OF ok np] this] f
  have sm: "sim F s' (?a\<lparr>store := (page_view s)(pid := bs), pending := insert pid W\<rparr>)"
    by (simp add: simulates_def spec_exec_def bp_exec_def bp_write_def s'_def)
  have iW: "insert pid W = {pid}" using W by auto
  have sr: "store_rel F s' (?a\<lparr>store := (page_view s)(pid := bs), pending := {pid}\<rparr>)" and
    ok': "pok F {pid} s'" using sm unfolding iW by simp_all
  note d = store_relD [OF sr]
  show e: "fd2pageno (disk_st s') = fd2pageno (disk_st s)" "pool_size s' = pool_size s"
    by (simp_all add: s'_def)
  have "pin_of s' = (\<lambda>_. 0)(pid := 1)" using d(2) p by (simp add: abs_store_def)
  with ok' f e np sz show "held F {pid} pid f s'" by (simp add: held_def s'_def)
  show "page_view s' q = (if q = pid then bs else page_view s q)" if "on_file F q"
    using d(1) [OF that] by (simp add: abs_store_def)
qed

end

section \<open>Borrowing a page of a file\<close>

text \<open>The contents of page \<open>no\<close> of the file, as its users see it.\<close>

definition file_page :: "'r rm_file \<Rightarrow> int \<Rightarrow> bytes" where
  "file_page s no = page_view (rm_pool s) (PageId (rm_fd s) no)"

lemma page_data_simps [simp]:
  "page_data f (set_page_data f d s) = d" "rm_fd (set_page_data f d s) = rm_fd s"
  "rm_hdr (set_page_data f d s) = rm_hdr s" "page_data f (s\<lparr>rm_hdr := h\<rparr>) = page_data f s"
  "(set_page_data f d (s\<lparr>rm_hdr := h\<rparr>)) = (set_page_data f d s)\<lparr>rm_hdr := h\<rparr>"
  "set_page_data f d (set_page_data f d' s) = set_page_data f d s"
  "id (pages (rm_pool (set_page_data f d s)) g) = id (pages (rm_pool s) g)"
  by (simp_all add: page_data_def set_page_data_def set_page_def)

lemma unpin_simps [simp]:
  "rm_fd (unpin R no b s) = rm_fd s" "rm_hdr (unpin R no b s) = rm_hdr s"
  by (simp_all add: unpin_def)

context replacer begin

text \<open>
  \<open>settled F s s' no d\<close>: the file is at rest again in \<open>s'\<close>, and of the pages of all open files
  only page \<open>no\<close> of this file may have changed, to \<open>d\<close>.
\<close>

definition settled :: "int set \<Rightarrow> 'r rm_file \<Rightarrow> 'r rm_file \<Rightarrow> int \<Rightarrow> bytes \<Rightarrow> bool" where
  "settled F s s' no d \<longleftrightarrow>
     rest F (rm_pool s') \<and> rm_fd s' = rm_fd s \<and>
     (\<forall>q. on_file F q \<longrightarrow> page_view (rm_pool s') q =
        (if q = PageId (rm_fd s) no then d else page_view (rm_pool s) q)) \<and>
     pool_size (rm_pool s') = pool_size (rm_pool s)"

lemma settled_file_page:
  assumes "settled F s s' no d" and "rm_fd s \<in> F" and "0 \<le> p"
  shows "file_page s' p = (if p = no then d else file_page s p)"
  using assms by (simp add: settled_def file_page_def)

text \<open>What a call on one file leaves alone: the pages of all other open files and their lengths.\<close>

definition others :: "int set \<Rightarrow> 'r rm_file \<Rightarrow> 'r rm_file \<Rightarrow> bool" where
  "others F s s' \<longleftrightarrow> rm_fd s' = rm_fd s \<and>
     (\<forall>q. on_file F q \<longrightarrow> pid_fd q \<noteq> rm_fd s \<longrightarrow> page_view (rm_pool s') q = page_view (rm_pool s) q) \<and>
     (\<forall>fd. fd \<noteq> rm_fd s \<longrightarrow> fd2pageno (disk_st (rm_pool s')) fd = fd2pageno (disk_st (rm_pool s)) fd)"

lemma others_refl [simp]: "others F s s"
  by (simp add: others_def)

lemma others_trans: "others F s s1 \<Longrightarrow> others F s1 s2 \<Longrightarrow> others F s s2"
  by (simp add: others_def)

lemma settled_others:
  assumes "settled F s s' no d" and "\<And>fd. fd \<noteq> rm_fd s \<Longrightarrow> fd2pageno (disk_st (rm_pool s')) fd = fd2pageno (disk_st (rm_pool s)) fd"
  shows "others F s s'"
  using assms by (auto simp: settled_def others_def)

text \<open>
  \<open>borrowed F s no f s1\<close>: in \<open>s1\<close> frame \<open>f\<close> holds page \<open>no\<close>; it shows the page, and giving it back,
  changed or not, settles the file.
\<close>

definition borrowed :: "int set \<Rightarrow> 'r rm_file \<Rightarrow> int \<Rightarrow> bytes \<Rightarrow> int \<Rightarrow> 'r rm_file \<Rightarrow> bool" where
  "borrowed F s no d0 f s1 \<longleftrightarrow>
     rm_fd s1 = rm_fd s \<and> page_data f s1 = d0 \<and> pid_no (id (pages (rm_pool s1) f)) = no \<and>
     (\<forall>d h. length d = PAGE_SIZE \<longrightarrow>
        settled F s (unpin R no True ((set_page_data f d s1)\<lparr>rm_hdr := h\<rparr>)) no d \<and>
        fd2pageno (disk_st (rm_pool (unpin R no True ((set_page_data f d s1)\<lparr>rm_hdr := h\<rparr>)))) =
          fd2pageno (disk_st (rm_pool s1)))"

lemma held_borrowed:
  assumes h: "held F W (PageId (rm_fd s) no) f (rm_pool s1)" and fd: "rm_fd s1 = rm_fd s"
    and v: "\<And>q. on_file F q \<Longrightarrow> q \<noteq> PageId (rm_fd s) no \<Longrightarrow> page_view (rm_pool s1) q = page_view (rm_pool s) q"
    and sz: "pool_size (rm_pool s1) = pool_size (rm_pool s)"
    and d0: "d0 = page_view (rm_pool s1) (PageId (rm_fd s) no)"
  shows "borrowed F s no d0 f s1"
proof -
  let ?pid = "PageId (rm_fd s) no"
  note hd = held_data [OF h]
  have W: "W \<subseteq> {?pid}" using h by (simp add: held_def)
  have "settled F s (unpin R no True ((set_page_data f d s1)\<lparr>rm_hdr := hh\<rparr>)) no d \<and>
        fd2pageno (disk_st (rm_pool (unpin R no True ((set_page_data f d s1)\<lparr>rm_hdr := hh\<rparr>)))) =
          fd2pageno (disk_st (rm_pool s1))"
    if "length d = PAGE_SIZE" for d hh
  proof -
    let ?p = "set_page f ((pages (rm_pool s1) f)\<lparr>data := d\<rparr>) (rm_pool s1)"
    note st = store_held [OF h that]
    have W1: "{?pid} \<subseteq> {?pid}" by simp
    note un = unpin_held [OF st(1) W1, of True]
    show ?thesis using un st v fd sz by (auto simp: settled_def unpin_def set_page_data_def)
  qed
  then show ?thesis using hd fd d0 by (auto simp: borrowed_def page_data_def)
qed

lemma fetch_page_handle_ok:
  assumes "rest F (rm_pool s)" and "rm_fd s \<in> F" and "1 \<le> no" and "no < num_pages (rm_hdr s)"
    and "num_pages (rm_hdr s) \<le> fd2pageno (disk_st (rm_pool s)) (rm_fd s)"
  shows "\<exists>f s1. fetch_page_handle R no s = Ret f s1 \<and> rm_hdr s1 = rm_hdr s \<and>
    fd2pageno (disk_st (rm_pool s1)) = fd2pageno (disk_st (rm_pool s)) \<and>
    borrowed F s no (file_page s no) f s1 \<and> settled F s (unpin R no False s1) no (file_page s no) \<and>
    fd2pageno (disk_st (rm_pool (unpin R no False s1))) = fd2pageno (disk_st (rm_pool s))"
proof -
  let ?pid = "PageId (rm_fd s) no"
  from fetch_rest [OF assms(1), of ?pid] assms obtain f p where
    f: "fetch_page R ?pid (rm_pool s) = Ret (Some f) p" "held F {} ?pid f p"
    "\<And>q. on_file F q \<Longrightarrow> page_view p q = page_view (rm_pool s) q"
    "fd2pageno (disk_st p) = fd2pageno (disk_st (rm_pool s))" "pool_size p = pool_size (rm_pool s)"
    by auto
  let ?s1 = "s\<lparr>rm_pool := p\<rparr>"
  have "fetch_page_handle R no s = Ret f ?s1"
    using assms(3,4) f(1) by (simp add: fetch_page_handle_def RM_FIRST_RECORD_PAGE_def)
  moreover have "borrowed F s no (file_page s no) f ?s1"
    by (rule held_borrowed) (use f assms in \<open>auto simp: file_page_def\<close>)
  moreover have "settled F s (unpin R no False ?s1) no (file_page s no)"
    "fd2pageno (disk_st (rm_pool (unpin R no False ?s1))) = fd2pageno (disk_st (rm_pool s))"
    using unpin_held [OF f(2), of False] f(3-5)
    by (auto simp: settled_def unpin_def file_page_def)
  ultimately show ?thesis using f(4) by (intro exI [of _ f] exI [of _ ?s1]) simp
qed

lemma create_new_page_ok:
  assumes "rest F (rm_pool s)" and "rm_fd s \<in> F"
    and "is_i32 (fd2pageno (disk_st (rm_pool s)) (rm_fd s) + 1)"
    and "layout_ok (rm_hdr s)"
  defines "no \<equiv> fd2pageno (disk_st (rm_pool s)) (rm_fd s)"
    and "h \<equiv> rm_hdr s"
  defines "d \<equiv> set_bitmap (bitmap_init (bitmap_size h)) (set_num_records 0
                 (set_next_free_page_no (first_free_page_no h) (zeros PAGE_SIZE)))"
  shows "\<exists>f s1. create_new_page_handle R s = Ret (f, no) s1 \<and>
    rm_hdr s1 = h\<lparr>first_free_page_no := no, num_pages := num_pages h + 1\<rparr> \<and>
    fd2pageno (disk_st (rm_pool s1)) = (fd2pageno (disk_st (rm_pool s)))(rm_fd s := no + 1) \<and>
    borrowed F s no d f s1"
proof -
  let ?pid = "PageId (rm_fd s) no"
  from new_rest [OF assms(1-3)] obtain f p where
    f: "new_page R (rm_fd s) (rm_pool s) = Ret (Some (f, ?pid)) p" "held F {?pid} ?pid f p"
    "\<And>q. on_file F q \<Longrightarrow> page_view p q = (if q = ?pid then zeros PAGE_SIZE else page_view (rm_pool s) q)"
    "fd2pageno (disk_st p) = (fd2pageno (disk_st (rm_pool s)))(rm_fd s := no + 1)"
    "pool_size p = pool_size (rm_pool s)"
    unfolding no_def by blast
  have "0 \<le> no" using assms(1,2) by (simp add: no_def rest_def)
  then have z: "data (pages p f) = zeros PAGE_SIZE"
    using f(3) [of ?pid] held_data [OF f(2)] assms(2) by simp
  let ?s1 = "(set_page_data f d (s\<lparr>rm_pool := p\<rparr>))
      \<lparr>rm_hdr := h\<lparr>first_free_page_no := no, num_pages := num_pages h + 1\<rparr>\<rparr>"
  have len: "length d = PAGE_SIZE"
    unfolding d_def using assms(4) layoutD(2) [OF assms(4)]
    by (simp add: page_set_length [where h = "rm_hdr s"] h_def bitmap_init_def)
  have "create_new_page_handle R s = Ret (f, no) ?s1"
    using f(1) z by (simp add: create_new_page_handle_def page_data_def set_page_data_def set_page_def
        Let_def d_def h_def)
  note st = store_held [OF f(2) len]
  moreover have "borrowed F s no d f ?s1"
    by (rule held_borrowed [where W = "{?pid}"])
      (use st f(3,5) assms(2) \<open>0 \<le> no\<close> in \<open>auto simp: set_page_data_def\<close>)
  ultimately show ?thesis using f(4) \<open>create_new_page_handle R s = Ret (f, no) ?s1\<close>
    by (intro exI [of _ f] exI [of _ ?s1]) (simp add: set_page_data_def)
qed

end

end
