(* ===== verification/Record_File_Spec.thy ===== *)
theory Record_File_Spec
  imports Record_File_Pages
begin

text \<open>
  What a table file promises: it is a finite map from record numbers to records. The operations
  of \<^verbatim>\<open>RmFileHandle\<close> are proved to be the operations of that map, the chain of pages with free
  space is exactly the set of pages that are not full, and \<^verbatim>\<open>RmScan\<close> enumerates the map.
\<close>

section \<open>Putting a record into a page and taking it out\<close>

definition put_record :: "rm_file_hdr \<Rightarrow> int \<Rightarrow> bytes \<Rightarrow> bytes \<Rightarrow> bytes" where
  "put_record h i buf d =
     (let d2 = set_slot h i buf (set_bitmap (bitmap_set (bitmap h d) i) d)
      in set_num_records (num_records d2 + 1) d2)"

definition take_record :: "rm_file_hdr \<Rightarrow> int \<Rightarrow> bytes \<Rightarrow> bytes" where
  "take_record h i d =
     (let d1 = set_bitmap (bitmap_reset (bitmap h d) i) d
      in set_num_records (num_records d1 - 1) d1)"

text \<open>A page whose record count is right.\<close>

definition page_ok :: "rm_file_hdr \<Rightarrow> bytes \<Rightarrow> bool" where
  "page_ok h d \<longleftrightarrow> length d = PAGE_SIZE \<and> num_records d = int (card (used_slots h d))"

lemma capacity_i32: "layout_ok h \<Longrightarrow> - 1 \<le> v \<Longrightarrow> v \<le> num_records_per_page h \<Longrightarrow> is_i32 v"
proof -
  assume l: "layout_ok h" and v: "- 1 \<le> v" "v \<le> num_records_per_page h"
  have "num_records_per_page h * 1 \<le> num_records_per_page h * record_size h"
    using l by (intro mult_left_mono) (auto simp: layout_ok_def)
  then have "num_records_per_page h \<le> 4096"
    using l layoutD(2) [OF l] unfolding layout_ok_def PAGE_SIZE_def by linarith
  then show ?thesis using v by (simp add: is_i32_def)
qed

lemma bit_in_range: "layout_ok h \<Longrightarrow> length d = PAGE_SIZE \<Longrightarrow> slot_ok h i \<Longrightarrow> in_bitmap (bitmap h d) i"
  using layoutD(5) by (simp add: length_bitmap_part)

lemma put_record_ok:
  assumes l: "layout_ok h" and d: "page_ok h d" and i: "slot_ok h i" and b: "length buf = nat (record_size h)"
    and free: "\<not> bitmap_is_set (bitmap h d) i"
  shows "page_ok h (put_record h i buf d)"
    and "page_record h (put_record h i buf d) = (page_record h d)(i := Some buf)"
    and "num_records (put_record h i buf d) = num_records d + 1"
    and "next_free_page_no (put_record h i buf d) = next_free_page_no d"
proof -
  let ?bm = "bitmap_set (bitmap h d) i"
  let ?d1 = "set_bitmap ?bm d" and ?d2 = "set_slot h i buf (set_bitmap ?bm d)"
  have len: "length d = PAGE_SIZE" using d by (simp add: page_ok_def)
  have bm: "length ?bm = nat (bitmap_size h)" by (simp add: length_bitmap_part [OF l len])
  note s1 = page_part_simps [OF l len]
  have l1: "length ?d1 = PAGE_SIZE" using s1(3) bm by blast
  note s2 = page_part_simps [OF l l1]
  have l2: "length ?d2 = PAGE_SIZE" using s2(4) i b by blast
  have card: "num_records d = int (card (used_slots h d))" using d by (simp add: page_ok_def)
  have nr: "num_records ?d2 = num_records d" using i b bm by (simp add: s1 s2)
  have notin: "i \<notin> used_slots h d" using free by (simp add: used_slots_def)
  have "used_slots h d \<subseteq> {0..<num_records_per_page h} - {i}" using notin by (auto simp: used_slots_def)
  then have "card (used_slots h d) \<le> card ({0..<num_records_per_page h} - {i})" by (intro card_mono) auto
  moreover have "card ({0..<num_records_per_page h} - {i}) = nat (num_records_per_page h) - 1"
    using i by simp
  ultimately have "int (card (used_slots h d)) + 1 \<le> num_records_per_page h" using i by linarith
  then have i32: "is_i32 (num_records d + 1)" using card by (intro capacity_i32 [OF l]) auto
  have eq: "put_record h i buf d = set_num_records (num_records d + 1) ?d2"
    using nr by (simp add: put_record_def Let_def)
  note s3 = page_part_simps [OF l l2]
  show n: "num_records (put_record h i buf d) = num_records d + 1"
    using i32 by (simp add: eq s3)
  show "next_free_page_no (put_record h i buf d) = next_free_page_no d"
    using i b bm by (simp add: eq s1 s2 s3)
  have bmap: "bitmap h (put_record h i buf d) = ?bm" using i b bm by (simp add: eq s1 s2 s3)
  have slots: "get_slot h j (put_record h i buf d) = (if j = i then buf else get_slot h j d)" if "slot_ok h j" for j
    using i b bm that slot_set_parts [OF l len that] slot_set_parts [OF l l1 that]
      slot_set_parts [OF l l2 that] by (simp add: eq)
  have set: "bitmap_is_set ?bm j \<longleftrightarrow> i = j \<or> bitmap_is_set (bitmap h d) j" if "slot_ok h j" for j
    using is_set_set [OF bit_in_range [OF l len i], of j] that by simp
  show pr: "page_record h (put_record h i buf d) = (page_record h d)(i := Some buf)"
    by (rule ext) (use i in \<open>auto simp: page_record_def bmap slots set\<close>)
  have "used_slots h (put_record h i buf d) = insert i (used_slots h d)"
    unfolding used_slots_record pr by auto
  with notin n card show "page_ok h (put_record h i buf d)"
    using l2 s3(2) by (simp add: page_ok_def eq)
qed

lemma take_record_ok:
  assumes l: "layout_ok h" and d: "page_ok h d" and i: "slot_ok h i"
    and used: "bitmap_is_set (bitmap h d) i"
  shows "page_ok h (take_record h i d)"
    and "page_record h (take_record h i d) = (page_record h d)(i := None)"
    and "num_records (take_record h i d) = num_records d - 1"
    and "next_free_page_no (take_record h i d) = next_free_page_no d"
proof -
  let ?bm = "bitmap_reset (bitmap h d) i"
  let ?d1 = "set_bitmap ?bm d"
  have len: "length d = PAGE_SIZE" using d by (simp add: page_ok_def)
  have bm: "length ?bm = nat (bitmap_size h)" by (simp add: length_bitmap_part [OF l len])
  note s1 = page_part_simps [OF l len]
  have l1: "length ?d1 = PAGE_SIZE" using s1(3) bm by blast
  note s2 = page_part_simps [OF l l1]
  have card: "num_records d = int (card (used_slots h d))" using d by (simp add: page_ok_def)
  have nr: "num_records ?d1 = num_records d" using bm by (simp add: s1)
  have i_in: "i \<in> used_slots h d" using used i by (simp add: used_slots_def)
  then have pos: "0 < card (used_slots h d)" by (auto simp: card_gt_0_iff)
  have i32: "is_i32 (num_records d - 1)"
    using card pos card_used_slots [OF l, of d] by (intro capacity_i32 [OF l]) auto
  have eq: "take_record h i d = set_num_records (num_records d - 1) ?d1"
    using nr by (simp add: take_record_def Let_def)
  show n: "num_records (take_record h i d) = num_records d - 1" using i32 by (simp add: eq s2)
  show "next_free_page_no (take_record h i d) = next_free_page_no d" using bm by (simp add: eq s1 s2)
  have bmap: "bitmap h (take_record h i d) = ?bm" using bm by (simp add: eq s1 s2)
  have slots: "get_slot h j (take_record h i d) = get_slot h j d" if "slot_ok h j" for j
    using bm that slot_set_parts [OF l len that] slot_set_parts [OF l l1 that] by (simp add: eq)
  have set: "bitmap_is_set ?bm j \<longleftrightarrow> i \<noteq> j \<and> bitmap_is_set (bitmap h d) j" if "slot_ok h j" for j
    using is_set_reset [OF bit_in_range [OF l len i], of j] that by simp
  show pr: "page_record h (take_record h i d) = (page_record h d)(i := None)"
    by (rule ext) (auto simp: page_record_def bmap slots set)
  have "used_slots h (take_record h i d) = used_slots h d - {i}"
    unfolding used_slots_record pr by auto
  with i_in pos n card show "page_ok h (take_record h i d)"
    using l1 s2(2) by (simp add: page_ok_def eq card_Diff_singleton)
qed

lemma set_next_ok:
  assumes "layout_ok h" and "page_ok h d"
  shows "page_ok h (set_next_free_page_no v d)"
    and "page_record h (set_next_free_page_no v d) = page_record h d"
    and "num_records (set_next_free_page_no v d) = num_records d"
    and "is_i32 v \<Longrightarrow> next_free_page_no (set_next_free_page_no v d) = v"
proof -
  have len: "length d = PAGE_SIZE" using assms(2) by (simp add: page_ok_def)
  note s = page_part_simps [OF assms(1) len]
  show pr: "page_record h (set_next_free_page_no v d) = page_record h d"
    by (rule ext) (use slot_set_parts [OF assms(1) len] in \<open>simp add: page_record_def s\<close>)
  show "page_ok h (set_next_free_page_no v d)"
    using assms(2) by (simp add: page_ok_def s used_slots_record pr)
  show "num_records (set_next_free_page_no v d) = num_records d"
    "is_i32 v \<Longrightarrow> next_free_page_no (set_next_free_page_no v d) = v"
    by (simp_all add: s)
qed

lemma set_slot_ok:
  assumes "layout_ok h" and "page_ok h d" and "slot_ok h i" and "length buf = nat (record_size h)"
    and "bitmap_is_set (bitmap h d) i"
  shows "page_ok h (set_slot h i buf d)"
    and "page_record h (set_slot h i buf d) = (page_record h d)(i := Some buf)"
    and "num_records (set_slot h i buf d) = num_records d"
    and "next_free_page_no (set_slot h i buf d) = next_free_page_no d"
proof -
  have len: "length d = PAGE_SIZE" using assms(2) by (simp add: page_ok_def)
  note s = page_part_simps [OF assms(1) len]
  show pr: "page_record h (set_slot h i buf d) = (page_record h d)(i := Some buf)"
    by (rule ext)
      (use slot_set_parts [OF assms(1) len] assms(3-5) in \<open>simp add: page_record_def s\<close>)
  have "used_slots h (set_slot h i buf d) = used_slots h d"
    using assms(3,5) unfolding used_slots_record pr by (auto simp: page_record_def)
  then show "page_ok h (set_slot h i buf d)"
    using assms(2-4) by (simp add: page_ok_def s)
  show "num_records (set_slot h i buf d) = num_records d"
    "next_free_page_no (set_slot h i buf d) = next_free_page_no d"
    using assms(3,4) by (simp_all add: s)
qed

lemma fresh_page_ok:
  assumes "layout_ok h" and "is_i32 v"
  defines "d \<equiv> set_bitmap (bitmap_init (bitmap_size h)) (set_num_records 0
                 (set_next_free_page_no v (zeros PAGE_SIZE)))"
  shows "page_ok h d" and "page_record h d = (\<lambda>_. None)" and "num_records d = 0"
    and "next_free_page_no d = v"
proof -
  let ?z = "zeros PAGE_SIZE" and ?d1 = "set_next_free_page_no v (zeros PAGE_SIZE)"
  let ?d2 = "set_num_records 0 ?d1"
  note s1 = page_part_simps [OF assms(1), of ?z, simplified]
  note s2 = page_part_simps [OF assms(1) s1(1)]
  note s3 = page_part_simps [OF assms(1) s2(2)]
  have bm: "length (bitmap_init (bitmap_size h)) = nat (bitmap_size h)" by (simp add: bitmap_init_def)
  have "bitmap h d = bitmap_init (bitmap_size h)" unfolding d_def using s3(13) bm by blast
  then show pr: "page_record h d = (\<lambda>_. None)"
    using is_set_init layoutD(5) [OF assms(1)] by (auto simp: page_record_def fun_eq_iff)
  show n: "num_records d = 0" unfolding d_def using bm by (simp add: s2 s3 is_i32_def)
  show "next_free_page_no d = v" unfolding d_def using bm assms(2) by (simp add: s1 s2 s3)
  have "length d = PAGE_SIZE" unfolding d_def using s3(3) bm by blast
  with n pr show "page_ok h d" by (simp add: page_ok_def used_slots_record)
qed

section \<open>The file as a map\<close>

definition record_page :: "rm_file_hdr \<Rightarrow> int \<Rightarrow> bool" where
  "record_page h no \<longleftrightarrow> RM_FIRST_RECORD_PAGE \<le> no \<and> no < num_pages h"

definition records :: "'r rm_file \<Rightarrow> rid \<rightharpoonup> bytes" where
  "records s r =
     (if record_page (rm_hdr s) (page_no r)
      then page_record (rm_hdr s) (file_page s (page_no r)) (slot_no r) else None)"

definition free_pages :: "rm_file_hdr \<Rightarrow> (int \<Rightarrow> bytes) \<Rightarrow> int set" where
  "free_pages h V = {no. record_page h no \<and> num_records (V no) < num_records_per_page h}"

text \<open>The chain of pages with free space, from a page number on.\<close>

fun chain :: "(int \<Rightarrow> bytes) \<Rightarrow> int \<Rightarrow> int list \<Rightarrow> bool" where
  "chain V p [] \<longleftrightarrow> p = RM_NO_PAGE"
| "chain V p (no # nos) \<longleftrightarrow> p = no \<and> chain V (next_free_page_no (V no)) nos"

definition free_chain :: "rm_file_hdr \<Rightarrow> (int \<Rightarrow> bytes) \<Rightarrow> bool" where
  "free_chain h V \<longleftrightarrow>
     (\<exists>fl. chain V (first_free_page_no h) fl \<and> distinct fl \<and> set fl = free_pages h V)"

lemma chain_cong: "(\<And>no. no \<in> set fl \<Longrightarrow> next_free_page_no (V no) = next_free_page_no (V' no)) \<Longrightarrow>
    chain V p fl = chain V' p fl"
  by (induction fl arbitrary: p) auto

lemma chain_others:
  assumes "x \<notin> set fl" and "set fl \<subseteq> free_pages h V" and "\<And>p. p \<noteq> x \<Longrightarrow> 0 \<le> p \<Longrightarrow> V' p = V p"
  shows "chain V' p fl = chain V p fl"
proof (rule chain_cong)
  fix no
  assume n: "no \<in> set fl"
  with assms(2) have "0 \<le> no" by (auto simp: free_pages_def record_page_def RM_FIRST_RECORD_PAGE_def)
  moreover have "no \<noteq> x" using n assms(1) by blast
  ultimately show "next_free_page_no (V' no) = next_free_page_no (V no)" using assms(3) by simp
qed

lemma chain_head: "chain V p fl \<Longrightarrow> p = RM_NO_PAGE \<or> p \<in> set fl"
  by (cases fl) auto

text \<open>The chain's head is the number of a record page or \<^verbatim>\<open>RM_NO_PAGE\<close>.\<close>

lemma free_chain_head:
  assumes "free_chain h V"
  shows "first_free_page_no h = RM_NO_PAGE \<or> first_free_page_no h \<in> free_pages h V"
  using assms chain_head unfolding free_chain_def by blast

lemma free_chain_none:
  assumes "free_chain h V" and "first_free_page_no h = RM_NO_PAGE"
  shows "free_pages h V = {}"
proof -
  obtain fl where fl: "chain V (first_free_page_no h) fl" "set fl = free_pages h V"
    using assms(1) by (auto simp: free_chain_def)
  then have "fl = [] \<or> RM_NO_PAGE \<in> free_pages h V" using assms(2) by (cases fl) auto
  then show ?thesis using fl(2)
    by (auto simp: free_pages_def record_page_def RM_NO_PAGE_def RM_FIRST_RECORD_PAGE_def)
qed

text \<open>One page of the file replaced.\<close>

definition page_upd :: "(int \<Rightarrow> bytes) \<Rightarrow> int \<Rightarrow> bytes \<Rightarrow> (int \<Rightarrow> bytes) \<Rightarrow> bool" where
  "page_upd V no d V' \<longleftrightarrow> (\<forall>p. 0 \<le> p \<longrightarrow> V' p = (if p = no then d else V p))"

lemma record_page_nonneg: "record_page h no \<Longrightarrow> 0 \<le> no"
  by (simp add: record_page_def RM_FIRST_RECORD_PAGE_def)

lemma page_updD: "page_upd V no d V' \<Longrightarrow> record_page h p \<Longrightarrow> V' p = (if p = no then d else V p)"
  using record_page_nonneg by (simp add: page_upd_def)

lemma free_pages_upd:
  assumes "page_upd V no d V'" and "record_page h no"
  shows "free_pages h V' =
    (if num_records d < num_records_per_page h then insert no (free_pages h V) else free_pages h V - {no})"
proof -
  have mem: "p \<in> free_pages h V' \<longleftrightarrow> (if p = no then num_records d < num_records_per_page h
      else p \<in> free_pages h V)" for p
  proof (cases "record_page h p")
    case True
    from page_updD [OF assms(1) True] True show ?thesis by (simp add: free_pages_def)
  next
    case False
    then show ?thesis using assms(2) by (auto simp: free_pages_def)
  qed
  show ?thesis by (rule set_eqI) (subst mem, simp)
qed

text \<open>The two changes the operations make: the head leaves the chain, a page becomes its head.\<close>

lemma free_chain_pop:
  assumes "free_chain h V" and "first_free_page_no h = no" and "record_page h no"
    and "page_upd V no d V'" and "num_records d = num_records_per_page h"
  shows "free_chain (h\<lparr>first_free_page_no := next_free_page_no (V no)\<rparr>) V'"
proof -
  obtain fl where fl: "chain V no fl" "distinct fl" "set fl = free_pages h V"
    using assms(1,2) by (auto simp: free_chain_def)
  have "no \<noteq> RM_NO_PAGE" using record_page_nonneg [OF assms(3)] by (simp add: RM_NO_PAGE_def)
  then have "fl \<noteq> []" using fl(1) by auto
  then obtain x nos where x: "fl = x # nos" by (cases fl) auto
  then have nos: "fl = no # nos" "chain V (next_free_page_no (V no)) nos" using fl(1) by simp_all
  have "no \<notin> set nos" using fl(2) nos(1) by auto
  then have "chain V' (next_free_page_no (V no)) nos"
    using nos fl(3) chain_others [of no nos h V V'] assms(4) by (auto simp: page_upd_def)
  moreover have "set nos = free_pages h V'"
    using free_pages_upd [OF assms(4,3)] assms(5) fl(2,3) nos(1) by auto
  ultimately show ?thesis using fl(2) nos(1) unfolding free_chain_def
    by (intro exI [of _ nos]) (auto simp: free_pages_def record_page_def)
qed

lemma free_chain_push:
  assumes "free_chain h V" and "no \<notin> free_pages h V"
    and "page_upd V no d V'" and "next_free_page_no d = first_free_page_no h"
    and "first_free_page_no h' = no" and "free_pages h' V' = insert no (free_pages h V)"
    and "0 \<le> no"
  shows "free_chain h' V'"
proof -
  obtain fl where fl: "chain V (first_free_page_no h) fl" "distinct fl" "set fl = free_pages h V"
    using assms(1) by (auto simp: free_chain_def)
  have "no \<notin> set fl" using fl(3) assms(2) by simp
  then have "chain V' (first_free_page_no h) fl"
    using fl chain_others [of no fl h V V'] assms(3) by (auto simp: page_upd_def)
  then show ?thesis using assms(2-7) fl unfolding free_chain_def
    by (intro exI [of _ "no # fl"]) (auto simp: page_upd_def)
qed

lemma free_chain_same:
  assumes "free_chain h V" and "first_free_page_no h' = first_free_page_no h"
    and "\<And>no. no \<in> free_pages h V \<Longrightarrow> next_free_page_no (V' no) = next_free_page_no (V no)"
    and "free_pages h' V' = free_pages h V"
  shows "free_chain h' V'"
proof -
  obtain fl where fl: "chain V (first_free_page_no h) fl" "distinct fl" "set fl = free_pages h V"
    using assms(1) by (auto simp: free_chain_def)
  then have "chain V' (first_free_page_no h) fl"
    using assms(3) by (subst chain_cong [of _ V' V]) auto
  then show ?thesis using assms(2,4) fl unfolding free_chain_def by auto
qed

lemma free_chain_keep:
  assumes "free_chain h V" and "record_page h no" and "page_upd V no d V'"
    and "next_free_page_no d = next_free_page_no (V no)"
    and "num_records d < num_records_per_page h \<longleftrightarrow> num_records (V no) < num_records_per_page h"
  shows "free_chain h V'"
proof (rule free_chain_same [OF assms(1) refl])
  show "next_free_page_no (V' p) = next_free_page_no (V p)" if "p \<in> free_pages h V" for p
    using page_updD [OF assms(3), of h p] that assms(4) by (auto simp: free_pages_def)
  show "free_pages h V' = free_pages h V"
    using free_pages_upd [OF assms(3,2)] assms(2,5) by (auto simp: free_pages_def)
qed

text \<open>Page-level facts do not depend on the free-list and page-count fields of the header.\<close>

lemma hdr_update_simps [simp]:
  "page_record (h\<lparr>first_free_page_no := x\<rparr>) = page_record h" "page_record (h\<lparr>num_pages := n\<rparr>) = page_record h"
  "page_ok (h\<lparr>first_free_page_no := x\<rparr>) = page_ok h" "page_ok (h\<lparr>num_pages := n\<rparr>) = page_ok h"
  "layout_ok (h\<lparr>first_free_page_no := x\<rparr>) = layout_ok h" "layout_ok (h\<lparr>num_pages := n\<rparr>) = layout_ok h"
  "record_page (h\<lparr>first_free_page_no := x\<rparr>) = record_page h"
  "free_pages (h\<lparr>first_free_page_no := x\<rparr>) = free_pages h"
  by (auto simp: fun_eq_iff page_record_def page_ok_def layout_ok_def used_slots_def record_page_def
      bitmap_def get_slot_def slot_off_def slots_off_def free_pages_def)

section \<open>The operations\<close>

text \<open>The header keeps its layout, and at most \<open>k\<close> pages are added.\<close>

definition hdr_step :: "int \<Rightarrow> rm_file_hdr \<Rightarrow> rm_file_hdr \<Rightarrow> bool" where
  "hdr_step k h h' \<longleftrightarrow> record_size h' = record_size h \<and>
     num_records_per_page h' = num_records_per_page h \<and> bitmap_size h' = bitmap_size h \<and>
     num_pages h \<le> num_pages h' \<and> num_pages h' \<le> num_pages h + k"

lemma hdr_step_refl [simp]: "0 \<le> k \<Longrightarrow> hdr_step k h h"
  "0 \<le> k \<Longrightarrow> hdr_step k h (h\<lparr>first_free_page_no := x\<rparr>)"
  by (simp_all add: hdr_step_def)

lemma set_hdr_same: "rm_hdr s = h \<Longrightarrow> (set_page_data f d s)\<lparr>rm_hdr := h\<rparr> = set_page_data f d s"
  by (auto simp: set_page_data_def)

context replacer begin

text \<open>
  An open table file between two operations. \<open>table_pages\<close> leaves out the chain of free pages,
  which \<open>insert_record(rid, buf)\<close> may break and \<open>rebuild_free_page_list\<close> repairs.
\<close>

definition table_pages :: "int set \<Rightarrow> 'r rm_file \<Rightarrow> bool" where
  "table_pages F s \<longleftrightarrow>
     rest F (rm_pool s) \<and> rm_fd s \<in> F \<and> layout_ok (rm_hdr s) \<and>
     1 \<le> num_pages (rm_hdr s) \<and> is_i32 (num_pages (rm_hdr s)) \<and>
     fd2pageno (disk_st (rm_pool s)) (rm_fd s) = num_pages (rm_hdr s) \<and>
     (\<forall>no. record_page (rm_hdr s) no \<longrightarrow> page_ok (rm_hdr s) (file_page s no)) \<and>
     is_i32 (first_free_page_no (rm_hdr s))"

definition table_file :: "int set \<Rightarrow> 'r rm_file \<Rightarrow> bool" where
  "table_file F s \<longleftrightarrow> table_pages F s \<and> free_chain (rm_hdr s) (file_page s)"

lemma table_pagesD:
  assumes "table_pages F s"
  shows "rest F (rm_pool s)" "rm_fd s \<in> F" "layout_ok (rm_hdr s)" "1 \<le> num_pages (rm_hdr s)"
    "is_i32 (num_pages (rm_hdr s))" "fd2pageno (disk_st (rm_pool s)) (rm_fd s) = num_pages (rm_hdr s)"
    "record_page (rm_hdr s) no \<Longrightarrow> page_ok (rm_hdr s) (file_page s no)"
    "is_i32 (first_free_page_no (rm_hdr s))"
  using assms by (simp_all add: table_pages_def)

lemma table_file_pages: "table_file F s \<Longrightarrow> table_pages F s"
  by (simp add: table_file_def)

lemma table_fileD:
  assumes "table_file F s"
  shows "rest F (rm_pool s)" "rm_fd s \<in> F" "layout_ok (rm_hdr s)" "1 \<le> num_pages (rm_hdr s)"
    "is_i32 (num_pages (rm_hdr s))" "fd2pageno (disk_st (rm_pool s)) (rm_fd s) = num_pages (rm_hdr s)"
    "record_page (rm_hdr s) no \<Longrightarrow> page_ok (rm_hdr s) (file_page s no)"
    "free_chain (rm_hdr s) (file_page s)"
  using assms by (simp_all add: table_file_def table_pages_def)

lemma head_bounds: "free_chain h V \<Longrightarrow> 1 \<le> num_pages h \<Longrightarrow> is_i32 (num_pages h) \<Longrightarrow>
    is_i32 (first_free_page_no h)"
proof -
  assume fc: "free_chain h V" and n: "1 \<le> num_pages h" "is_i32 (num_pages h)"
  have "- 1 \<le> first_free_page_no h \<and> first_free_page_no h \<le> num_pages h"
    using free_chain_head [OF fc] n
    by (auto simp: RM_NO_PAGE_def free_pages_def record_page_def RM_FIRST_RECORD_PAGE_def)
  then show ?thesis using n by (auto simp: is_i32_def)
qed

lemma table_fileI:
  assumes "rest F (rm_pool s)" "rm_fd s \<in> F" "layout_ok (rm_hdr s)" "1 \<le> num_pages (rm_hdr s)"
    "is_i32 (num_pages (rm_hdr s))" "fd2pageno (disk_st (rm_pool s)) (rm_fd s) = num_pages (rm_hdr s)"
    "\<And>no. record_page (rm_hdr s) no \<Longrightarrow> page_ok (rm_hdr s) (file_page s no)"
    "free_chain (rm_hdr s) (file_page s)"
  shows "table_file F s"
  using assms head_bounds [OF assms(8,4,5)] by (simp add: table_file_def table_pages_def)

lemma fetch_ok:
  assumes "table_pages F s" and "record_page (rm_hdr s) no"
  obtains f s1 where "fetch_page_handle R no s = Ret f s1" and "rm_hdr s1 = rm_hdr s"
    and "fd2pageno (disk_st (rm_pool s1)) = fd2pageno (disk_st (rm_pool s))"
    and "borrowed F s no (file_page s no) f s1"
    and "settled F s (unpin R no False s1) no (file_page s no)"
    and "fd2pageno (disk_st (rm_pool (unpin R no False s1))) = fd2pageno (disk_st (rm_pool s))"
  using fetch_page_handle_ok [OF table_pagesD(1,2) [OF assms(1)], of no] assms(2)
    table_pagesD(6) [OF assms(1)]
  by (auto simp: record_page_def RM_FIRST_RECORD_PAGE_def)

text \<open>A settled file with the old header and the old page is the old file.\<close>

lemma settled_same:
  assumes t: "table_pages F s" and se: "settled F s s' no (file_page s no)" and no: "record_page (rm_hdr s) no"
    and h: "rm_hdr s' = rm_hdr s" and n: "fd2pageno (disk_st (rm_pool s')) = fd2pageno (disk_st (rm_pool s))"
  shows "table_pages F s'" and "records s' = records s" and "table_file F s \<Longrightarrow> table_file F s'"
    and "record_page (rm_hdr s) p \<Longrightarrow> file_page s' p = file_page s p" and "others F s s'"
proof -
  note td = table_pagesD [OF t]
  show "others F s s'" by (rule settled_others [OF se]) (simp add: n)
  have fd: "rm_fd s' = rm_fd s" and r: "rest F (rm_pool s')" using se by (simp_all add: settled_def)
  have v: "file_page s' p = file_page s p" if "0 \<le> p" for p
    using settled_file_page [OF se td(2) that] by auto
  show v': "file_page s' p = file_page s p" if "record_page (rm_hdr s) p" for p
    using v that by (simp add: record_page_def RM_FIRST_RECORD_PAGE_def)
  have fp: "free_pages (rm_hdr s') (file_page s') = free_pages (rm_hdr s) (file_page s)"
    using v' h by (auto simp: free_pages_def)
  show tp: "table_pages F s'" using td r fd h n v' by (simp add: table_pages_def)
  show "records s' = records s" by (rule ext) (simp add: records_def h v')
  assume "table_file F s"
  then have "free_chain (rm_hdr s) (file_page s)" by (simp add: table_file_def)
  then have "free_chain (rm_hdr s') (file_page s')"
    by (rule free_chain_same [OF _ _ _ fp]) (use v' h in \<open>auto simp: free_pages_def\<close>)
  with tp show "table_file F s'" by (simp add: table_file_def)
qed

text \<open>
  A settled file with a changed page is a table file again if the page is in order and the chain
  of free pages is; its records are those of the other pages and of the new one.
\<close>

lemma settled_change:
  assumes t: "table_pages F s" and se: "settled F s s' no d" and no: "record_page (rm_hdr s) no"
    and h: "rm_hdr s' = (rm_hdr s)\<lparr>first_free_page_no := x\<rparr>"
    and n: "fd2pageno (disk_st (rm_pool s')) = fd2pageno (disk_st (rm_pool s))" and x: "is_i32 x"
    and d: "page_ok (rm_hdr s) d"
  shows "table_pages F s'"
    and "page_record (rm_hdr s) d = (page_record (rm_hdr s) (file_page s no))(i := y) \<Longrightarrow>
           records s' = (records s)(Rid no i := y)"
    and "page_upd (file_page s) no d (file_page s')" and "others F s s'"
proof -
  note td = table_pagesD [OF t]
  show "others F s s'" by (rule settled_others [OF se]) (simp add: n)
  have fd: "rm_fd s' = rm_fd s" and r: "rest F (rm_pool s')" using se by (simp_all add: settled_def)
  show v: "page_upd (file_page s) no d (file_page s')"
    unfolding page_upd_def using settled_file_page [OF se td(2)] by blast
  have v': "file_page s' p = (if p = no then d else file_page s p)" if "record_page (rm_hdr s) p" for p
    by (rule page_updD [OF v that])
  show "table_pages F s'" using td r fd h n v' d x by (auto simp: table_pages_def record_page_def)
  assume pr: "page_record (rm_hdr s) d = (page_record (rm_hdr s) (file_page s no))(i := y)"
  show "records s' = (records s)(Rid no i := y)"
  proof
    fix rid
    show "records s' rid = ((records s)(Rid no i := y)) rid"
      using no v' h pr by (cases rid) (auto simp: records_def)
  qed
qed

lemma no_record_iff:
  assumes "record_page (rm_hdr s) (page_no r)" and "rm_hdr s1 = rm_hdr s"
    and "borrowed F s (page_no r) (file_page s (page_no r)) f s1"
  shows "no_record r f s1 \<longleftrightarrow> records s r = None"
  using assms by (auto simp: no_record_def records_def page_record_def borrowed_def)

text \<open>Page numbers outside the file are rejected without touching anything.\<close>

lemma fetch_bad_page:
  assumes "\<not> record_page (rm_hdr s) no" and "fd2path (disk_st (rm_pool s)) (rm_fd s) = Some name"
  shows "fetch_page_handle R no s = Throw (PageNotExistError name no) s"
  using assms by (auto simp: fetch_page_handle_def record_page_def get_file_name_def)

lemma get_record_ok:
  assumes "table_pages F s" and "record_page (rm_hdr s) (page_no r)"
  shows "\<exists>s'. get_record R r s =
      (case records s r of None \<Rightarrow> Throw (RecordNotFoundError (page_no r) (slot_no r)) s' | Some b \<Rightarrow> Ret b s') \<and>
    table_pages F s' \<and> records s' = records s \<and> rm_hdr s' = rm_hdr s \<and> (table_file F s \<longrightarrow> table_file F s') \<and>
    others F s s'"
proof -
  from fetch_ok [OF assms] obtain f s1 where f: "fetch_page_handle R (page_no r) s = Ret f s1"
    and h: "rm_hdr s1 = rm_hdr s" and b: "borrowed F s (page_no r) (file_page s (page_no r)) f s1"
    and se: "settled F s (unpin R (page_no r) False s1) (page_no r) (file_page s (page_no r))"
    and n: "fd2pageno (disk_st (rm_pool (unpin R (page_no r) False s1))) = fd2pageno (disk_st (rm_pool s))"
    by metis
  note ss = settled_same [OF assms(1) se assms(2) _ n, simplified, OF h]
  have pd: "page_data f s1 = file_page s (page_no r)" using b by (simp add: borrowed_def)
  show ?thesis
    using f no_record_iff [OF assms(2) h b] ss h pd assms(2)
    by (auto simp: get_record_def records_def page_record_def split: option.splits)
qed

lemma head_i32: "table_file F s \<Longrightarrow> is_i32 (first_free_page_no (rm_hdr s))"
  by (simp add: table_file_def table_pages_def)

lemma update_record_ok:
  assumes "table_pages F s" and "record_page (rm_hdr s) (page_no r)"
    and "nat (record_size (rm_hdr s)) \<le> length buf"
  shows "\<exists>s'. update_record R r buf s =
      (if records s r = None then Throw (RecordNotFoundError (page_no r) (slot_no r)) s' else Ret () s') \<and>
    table_pages F s' \<and> (table_file F s \<longrightarrow> table_file F s') \<and> hdr_step 0 (rm_hdr s) (rm_hdr s') \<and> others F s s' \<and>
    records s' = (if records s r = None then records s
      else (records s)(r \<mapsto> take (nat (record_size (rm_hdr s))) buf))"
proof -
  from fetch_ok [OF assms(1) assms(2)] obtain f s1 where f: "fetch_page_handle R (page_no r) s = Ret f s1"
    and h: "rm_hdr s1 = rm_hdr s" and b: "borrowed F s (page_no r) (file_page s (page_no r)) f s1"
    and n1: "fd2pageno (disk_st (rm_pool s1)) = fd2pageno (disk_st (rm_pool s))"
    and se: "settled F s (unpin R (page_no r) False s1) (page_no r) (file_page s (page_no r))"
    and n: "fd2pageno (disk_st (rm_pool (unpin R (page_no r) False s1))) = fd2pageno (disk_st (rm_pool s))"
    by metis
  note td = table_pagesD [OF assms(1)]
  let ?h = "rm_hdr s" and ?d = "file_page s (page_no r)"
  have pd: "page_data f s1 = ?d" using b by (simp add: borrowed_def)
  show ?thesis
  proof (cases "records s r = None")
    case True
    with settled_same [OF assms(1) se assms(2) _ n, simplified, OF h] assms(1) f no_record_iff [OF assms(2) h b]
    show ?thesis using h by (auto simp: update_record_def)
  next
    case False
    let ?buf = "take (nat (record_size ?h)) buf"
    let ?d' = "set_slot ?h (slot_no r) ?buf ?d"
    have i: "slot_ok ?h (slot_no r)" "bitmap_is_set (bitmap ?h ?d) (slot_no r)"
      using False assms(2) by (auto simp: records_def page_record_def split: if_splits)
    have lb: "length ?buf = nat (record_size ?h)" using assms(3) by simp
    note so = set_slot_ok [OF td(3) td(7) [OF assms(2)] i(1) lb i(2)]
    have len: "length ?d' = PAGE_SIZE" using so(1) by (simp add: page_ok_def)
    let ?s' = "unpin R (page_no r) True ((set_page_data f ?d' s1)\<lparr>rm_hdr := ?h\<rparr>)"
    from b len have se': "settled F s ?s' (page_no r) ?d'"
      and n': "fd2pageno (disk_st (rm_pool ?s')) = fd2pageno (disk_st (rm_pool s))"
      using n1 by (simp_all add: borrowed_def)
    have h': "rm_hdr ?s' = ?h\<lparr>first_free_page_no := first_free_page_no ?h\<rparr>" by simp
    note ch = settled_change [OF assms(1) se' assms(2) h' n' td(8) so(1)]
    have sc: "table_file F s \<longrightarrow> table_file F ?s'" "records ?s' = (records s)(r \<mapsto> ?buf)"
      using ch(1) ch(2) [OF so(2)] free_chain_keep [OF _ assms(2) ch(3)] so by (simp_all add: table_file_def)
    have "update_record R r buf s = Ret () ?s'"
      using f no_record_iff [OF assms(2) h b] False pd h
      by (simp add: update_record_def Let_def set_hdr_same)
    with sc False ch(1,4) show ?thesis by (intro exI [of _ ?s']) simp
  qed
qed

lemma num_records_le:
  assumes "table_pages F s" and "record_page (rm_hdr s) no"
  shows "num_records (file_page s no) \<le> num_records_per_page (rm_hdr s)"
  using table_pagesD(7) [OF assms] card_used_slots [OF table_pagesD(3) [OF assms(1)]]
  by (simp add: page_ok_def)

lemma delete_record_ok:
  assumes "table_pages F s" and "record_page (rm_hdr s) (page_no r)"
  shows "\<exists>s'. delete_record R r s =
      (if records s r = None then Throw (RecordNotFoundError (page_no r) (slot_no r)) s' else Ret () s') \<and>
    table_pages F s' \<and> (table_file F s \<longrightarrow> table_file F s') \<and> hdr_step 0 (rm_hdr s) (rm_hdr s') \<and> others F s s' \<and>
    records s' = (records s)(r := None)"
proof -
  from fetch_ok [OF assms(1) assms(2)] obtain f s1 where f: "fetch_page_handle R (page_no r) s = Ret f s1"
    and h: "rm_hdr s1 = rm_hdr s" and b: "borrowed F s (page_no r) (file_page s (page_no r)) f s1"
    and n1: "fd2pageno (disk_st (rm_pool s1)) = fd2pageno (disk_st (rm_pool s))"
    and se: "settled F s (unpin R (page_no r) False s1) (page_no r) (file_page s (page_no r))"
    and n: "fd2pageno (disk_st (rm_pool (unpin R (page_no r) False s1))) = fd2pageno (disk_st (rm_pool s))"
    by metis
  note td = table_pagesD [OF assms(1)]
  let ?h = "rm_hdr s" and ?no = "page_no r" and ?i = "slot_no r"
  let ?d = "file_page s ?no" and ?cap = "num_records_per_page ?h"
  have pd: "page_data f s1 = ?d" and pid: "pid_no (id (pages (rm_pool s1) f)) = ?no"
    using b by (simp_all add: borrowed_def)
  show ?thesis
  proof (cases "records s r = None")
    case True
    then have "(records s)(r := None) = records s" by (simp add: fun_upd_idem)
    with True settled_same [OF assms(1) se assms(2) _ n, simplified, OF h] assms(1) f no_record_iff [OF assms(2) h b]
    show ?thesis using h by (auto simp: delete_record_def)
  next
    case False
    have i: "slot_ok ?h ?i" "bitmap_is_set (bitmap ?h ?d) ?i"
      using False assms(2) by (auto simp: records_def page_record_def split: if_splits)
    define d1 where "d1 = take_record ?h ?i ?d"
    note tr = take_record_ok [OF td(3) td(7) [OF assms(2)] i, folded d1_def]
    note sn = set_next_ok [OF td(3) tr(1), of "first_free_page_no ?h"]
    let ?full = "num_records ?d = ?cap"
    define d2 where "d2 = (if ?full then set_next_free_page_no (first_free_page_no ?h) d1 else d1)"
    define x where "x = (if ?full then ?no else first_free_page_no ?h)"
    have pr: "page_ok ?h d2" "page_record ?h d2 = (page_record ?h ?d)(?i := None)"
      "num_records d2 = num_records ?d - 1"
      using tr sn by (simp_all add: d2_def)
    let ?s' = "unpin R ?no True ((set_page_data f d2 s1)\<lparr>rm_hdr := ?h\<lparr>first_free_page_no := x\<rparr>\<rparr>)"
    have "length d2 = PAGE_SIZE" using pr(1) by (simp add: page_ok_def)
    with b have se': "settled F s ?s' ?no d2"
      and n': "fd2pageno (disk_st (rm_pool ?s')) = fd2pageno (disk_st (rm_pool s))"
      using n1 by (simp_all add: borrowed_def)
    have le: "num_records ?d \<le> ?cap" by (rule num_records_le [OF assms])
    have h': "rm_hdr ?s' = ?h\<lparr>first_free_page_no := x\<rparr>" by simp
    have "is_i32 ?no" using assms(2) td(5) by (auto simp: record_page_def RM_FIRST_RECORD_PAGE_def is_i32_def)
    then have "is_i32 x" using td(8) by (simp add: x_def)
    note ch = settled_change [OF assms(1) se' assms(2) h' n' this pr(1)]
    note u = ch(3)
    let ?V' = "file_page ?s'"
    have fc: "free_chain (?h\<lparr>first_free_page_no := x\<rparr>) ?V'" if "free_chain ?h (file_page s)"
    proof (cases ?full)
      case True
      show ?thesis
      proof (rule free_chain_push [OF that _ u])
        show "?no \<notin> free_pages ?h (file_page s)" using True by (simp add: free_pages_def)
        show "next_free_page_no d2 = first_free_page_no ?h"
          using True sn(4) td(8) by (simp add: d2_def)
        show "free_pages (?h\<lparr>first_free_page_no := x\<rparr>) ?V' = insert ?no (free_pages ?h (file_page s))"
          using free_pages_upd [OF u assms(2)] pr(3) True by simp
      qed (use True record_page_nonneg [OF assms(2)] in \<open>simp_all add: x_def\<close>)
    next
      case False
      have "free_chain ?h ?V'"
        by (rule free_chain_keep [OF that assms(2) u]) (use False le pr(3) tr(4) in \<open>auto simp: d2_def\<close>)
      moreover have "?h\<lparr>first_free_page_no := x\<rparr> = ?h" using False by (simp add: x_def)
      ultimately show ?thesis by simp
    qed
    have "delete_record R r s = Ret () ?s'"
      using f no_record_iff [OF assms(2) h b] \<open>records s r \<noteq> None\<close> pd h pid
      by (cases ?full) (simp_all add: delete_record_def Let_def release_page_handle_def set_hdr_same
          d2_def x_def d1_def take_record_def)
    moreover have "table_file F s \<longrightarrow> table_file F ?s'" "records ?s' = (records s)(r := None)"
      using fc ch(1) ch(2) [OF pr(2)] by (simp_all add: table_file_def)
    ultimately show ?thesis using \<open>records s r \<noteq> None\<close> ch(1,4) by (intro exI [of _ ?s']) simp
  qed
qed

text \<open>A page that is not full has a free slot, which \<^verbatim>\<open>first_bit\<close> finds.\<close>

lemma first_free_slot:
  assumes "layout_ok h" and "page_ok h d" and "num_records d < num_records_per_page h"
  defines "i \<equiv> first_bit False (bitmap h d) (num_records_per_page h)"
  shows "slot_ok h i" and "\<not> bitmap_is_set (bitmap h d) i"
proof -
  let ?n = "num_records_per_page h"
  have n: "-1 < ?n" using assms(1) by (simp add: layout_ok_def)
  note sp = next_bit_spec [OF n, of False "bitmap h d", folded first_bit_def, folded i_def]
  have "i \<noteq> ?n"
  proof
    assume "i = ?n"
    with sp have "used_slots h d = {0..<?n}" by (auto simp: used_slots_def)
    with assms(2,3) show False using n by (simp add: page_ok_def)
  qed
  with sp show "slot_ok h i" "\<not> bitmap_is_set (bitmap h d) i" by auto
qed

text \<open>
  The second half of \<^verbatim>\<open>insert_record\<close>, from the moment a page with free space is at the head of
  the chain: \<open>h1\<close> is the header and \<open>d\<close> the page at that moment.
\<close>

lemma insert_into_head:
  assumes t: "table_file F s" and b: "borrowed F s no d f s1" and h1: "rm_hdr s1 = h1"
    and n1: "fd2pageno (disk_st (rm_pool s1)) (rm_fd s) = num_pages h1"
    and n2: "\<And>fd. fd \<noteq> rm_fd s \<Longrightarrow> fd2pageno (disk_st (rm_pool s1)) fd = fd2pageno (disk_st (rm_pool s)) fd"
    and hdr: "layout_ok h1" "1 \<le> num_pages h1" "is_i32 (num_pages h1)" "record_page h1 no"
      "first_free_page_no h1 = no"
    and d: "page_ok h1 d" "num_records d < num_records_per_page h1"
    and V: "\<And>p. record_page h1 p \<Longrightarrow> page_ok h1 (if p = no then d else file_page s p)"
    and fc: "free_chain h1 (\<lambda>p. if p = no then d else file_page s p)"
    and rec: "\<And>r. records s r = (if record_page h1 (page_no r)
        then page_record h1 (if page_no r = no then d else file_page s (page_no r)) (slot_no r) else None)"
    and buf: "nat (record_size h1) \<le> length buf"
    and cr: "create_page_handle R s = Ret (f, no) s1"
  shows "\<exists>r s'. insert_record R buf s = Ret r s' \<and> table_file F s' \<and> hdr_step 0 h1 (rm_hdr s') \<and> others F s s' \<and>
    records s r = None \<and> records s' = (records s)(r \<mapsto> take (nat (record_size h1)) buf)"
proof -
  let ?V = "\<lambda>p. if p = no then d else file_page s p"
  let ?cap = "num_records_per_page h1" and ?buf = "take (nat (record_size h1)) buf"
  define i where "i = first_bit False (bitmap h1 d) ?cap"
  note fs = first_free_slot [OF hdr(1) d, folded i_def]
  have lb: "length ?buf = nat (record_size h1)" using buf by simp
  define d3 where "d3 = put_record h1 i ?buf d"
  note pr = put_record_ok [OF hdr(1) d(1) fs(1) lb fs(2), folded d3_def]
  let ?full = "num_records d3 = ?cap"
  define d4 where "d4 = (if ?full then set_next_free_page_no RM_NO_PAGE d3 else d3)"
  define x where "x = (if ?full then next_free_page_no d3 else no)"
  note sn = set_next_ok [OF hdr(1) pr(1), of RM_NO_PAGE]
  have p4: "page_ok h1 d4" "page_record h1 d4 = (page_record h1 d)(i \<mapsto> ?buf)" "num_records d4 = num_records d3"
    using pr sn by (simp_all add: d4_def)
  let ?s' = "unpin R no True ((set_page_data f d4 s1)\<lparr>rm_hdr := h1\<lparr>first_free_page_no := x\<rparr>\<rparr>)"
  have pd: "page_data f s1 = d" using b by (simp add: borrowed_def)
  have "length d4 = PAGE_SIZE" using p4(1) by (simp add: page_ok_def)
  with b have se: "settled F s ?s' no d4"
    and n': "fd2pageno (disk_st (rm_pool ?s')) = fd2pageno (disk_st (rm_pool s1))"
    by (simp_all add: borrowed_def)
  have fd: "rm_fd ?s' = rm_fd s" and r: "rest F (rm_pool ?s')" using se by (simp_all add: settled_def)
  have v: "file_page ?s' p = (if p = no then d4 else file_page s p)" if "0 \<le> p" for p
    by (rule settled_file_page [OF se table_fileD(2) [OF t] that])
  have u: "page_upd ?V no d4 (file_page ?s')" using v by (simp add: page_upd_def)
  have "free_chain (h1\<lparr>first_free_page_no := x\<rparr>) (file_page ?s')"
  proof (cases ?full)
    case True
    with free_chain_pop [OF fc hdr(5,4) u] p4(3) pr(4) show ?thesis by (simp add: x_def)
  next
    case False
    have "free_chain h1 (file_page ?s')"
      by (rule free_chain_keep [OF fc hdr(4) u])
        (use False pr(3,4) d(2) in \<open>auto simp: d4_def\<close>)
    moreover have "h1\<lparr>first_free_page_no := x\<rparr> = h1" using False hdr(5) by (auto simp: x_def)
    ultimately show ?thesis by simp
  qed
  moreover have "page_ok h1 (file_page ?s' p)" if "record_page h1 p" for p
    using page_updD [OF u that] V [OF that] p4(1) by (auto split: if_splits)
  ultimately have tf: "table_file F ?s'"
    using r fd table_fileD(2) [OF t] hdr n1 n' by (intro table_fileI) (simp_all add: record_page_def)
  have "h1\<lparr>first_free_page_no := no\<rparr> = h1" using hdr(5) by auto
  then have "insert_record R buf s = Ret (Rid no i) ?s'"
    using cr pd h1 fs(1)
    by (simp add: insert_record_def Let_def i_def [symmetric] d4_def x_def d3_def put_record_def set_hdr_same)
  moreover have "records s (Rid no i) = None"
    using fs(2) hdr(4) by (simp add: rec page_record_def)
  moreover have "records ?s' = (records s)(Rid no i \<mapsto> ?buf)"
  proof
    fix q
    have "records ?s' q = (if record_page h1 (page_no q)
        then page_record h1 (if page_no q = no then d4 else file_page s (page_no q)) (slot_no q) else None)"
      using page_updD [OF u, of h1 "page_no q"] by (simp add: records_def)
    then show "records ?s' q = ((records s)(Rid no i \<mapsto> ?buf)) q"
      using p4(2) hdr(4) unfolding fun_upd_apply rec by (cases q) auto
  qed
  moreover have "hdr_step 0 h1 (rm_hdr ?s')" by simp
  moreover have "others F s ?s'" by (rule settled_others [OF se]) (simp add: n' n2)
  ultimately show ?thesis using tf by blast
qed

lemma insert_record_ok:
  assumes t: "table_file F s" and np: "is_i32 (num_pages (rm_hdr s) + 1)"
    and buf: "nat (record_size (rm_hdr s)) \<le> length buf"
  shows "\<exists>r s'. insert_record R buf s = Ret r s' \<and> table_file F s' \<and> hdr_step 1 (rm_hdr s) (rm_hdr s') \<and> others F s s' \<and>
    records s r = None \<and> records s' = (records s)(r \<mapsto> take (nat (record_size (rm_hdr s))) buf)"
proof (cases "first_free_page_no (rm_hdr s) = RM_NO_PAGE")
  case False
  note td = table_fileD [OF t]
  let ?h = "rm_hdr s" and ?no = "first_free_page_no (rm_hdr s)"
  have no: "?no \<in> free_pages ?h (file_page s)" using free_chain_head [OF td(8)] False by simp
  then have rp: "record_page ?h ?no" by (simp add: free_pages_def)
  from fetch_ok [OF table_file_pages [OF t] rp] obtain f s1 where f: "fetch_page_handle R ?no s = Ret f s1"
    and h: "rm_hdr s1 = ?h" and b: "borrowed F s ?no (file_page s ?no) f s1"
    and n1: "fd2pageno (disk_st (rm_pool s1)) = fd2pageno (disk_st (rm_pool s))"
    by metis
  have pid: "pid_no (id (pages (rm_pool s1) f)) = ?no" using b by (simp add: borrowed_def)
  have V: "(\<lambda>p. if p = ?no then file_page s ?no else file_page s p) = file_page s" by auto
  have "\<exists>r s'. insert_record R buf s = Ret r s' \<and> table_file F s' \<and> hdr_step 0 ?h (rm_hdr s') \<and> others F s s' \<and>
    records s r = None \<and> records s' = (records s)(r \<mapsto> take (nat (record_size ?h)) buf)"
  proof (rule insert_into_head [OF t b h])
    show "create_page_handle R s = Ret (f, ?no) s1" using False f pid by (simp add: create_page_handle_def)
    show "free_chain ?h (\<lambda>p. if p = ?no then file_page s ?no else file_page s p)" unfolding V by (rule td(8))
  qed (use td rp no n1 buf in \<open>auto simp: free_pages_def records_def\<close>)
  then show ?thesis by (auto simp: hdr_step_def)
next
  case True
  note td = table_fileD [OF t]
  let ?h = "rm_hdr s" and ?no = "num_pages (rm_hdr s)"
  define d where "d = set_bitmap (bitmap_init (bitmap_size ?h)) (set_num_records 0
                 (set_next_free_page_no (first_free_page_no ?h) (zeros PAGE_SIZE)))"
  let ?h1 = "?h\<lparr>first_free_page_no := ?no, num_pages := ?no + 1\<rparr>"
  from create_new_page_ok [OF td(1,2) _ td(3)] np td(6) obtain f s1 where
    c: "create_new_page_handle R s = Ret (f, ?no) s1" and h: "rm_hdr s1 = ?h1"
    and n1: "fd2pageno (disk_st (rm_pool s1)) = (fd2pageno (disk_st (rm_pool s)))(rm_fd s := ?no + 1)"
    and b: "borrowed F s ?no d f s1"
    unfolding d_def by auto
  note fp = fresh_page_ok [OF td(3) head_i32 [OF t], folded d_def]
  have rp: "record_page ?h1 p \<longleftrightarrow> p = ?no \<or> record_page ?h p" for p
    using td(4) by (auto simp: record_page_def RM_FIRST_RECORD_PAGE_def)
  have nrp: "\<not> record_page ?h ?no" by (simp add: record_page_def)
  have cap: "0 < num_records_per_page ?h" using td(3) by (simp add: layout_ok_def)
  have "\<exists>r s'. insert_record R buf s = Ret r s' \<and> table_file F s' \<and> hdr_step 0 ?h1 (rm_hdr s') \<and> others F s s' \<and>
    records s r = None \<and> records s' = (records s)(r \<mapsto> take (nat (record_size ?h1)) buf)"
  proof (rule insert_into_head [OF t b h])
    show "create_page_handle R s = Ret (f, ?no) s1" using True c by (simp add: create_page_handle_def)
    have "free_pages ?h (file_page s) = {}" by (rule free_chain_none [OF td(8) True])
    then have fpe: "\<not> num_records (file_page s p) < num_records_per_page ?h" if "record_page ?h p" for p
      using that by (auto simp: free_pages_def)
    have "free_pages ?h1 (\<lambda>p. if p = ?no then d else file_page s p) = {?no}"
      using fpe fp(3) cap rp nrp by (auto simp: free_pages_def split: if_splits)
    then show "free_chain ?h1 (\<lambda>p. if p = ?no then d else file_page s p)"
      using fp(4) True unfolding free_chain_def by (intro exI [of _ "[?no]"]) simp
    show "page_ok ?h1 (if p = ?no then d else file_page s p)" if "record_page ?h1 p" for p
      using that fp(1) td(7) rp by auto
    show "records s r = (if record_page ?h1 (page_no r)
        then page_record ?h1 (if page_no r = ?no then d else file_page s (page_no r)) (slot_no r) else None)" for r
      using rp nrp fp(2) by (auto simp: records_def)
    show "record_page ?h1 ?no" using rp by blast
  qed (use td n1 np buf fp cap in auto)
  then show ?thesis by (auto simp: hdr_step_def)
qed

end

end
