(* ===== verification/Record_File_Scan.thy ===== *)
theory Record_File_Scan
  imports Record_File_Spec
begin

text \<open>
  \<^verbatim>\<open>RmScan\<close> visits every record of a table file once, in the order of page and slot;
  \<^verbatim>\<open>rebuild_free_page_list\<close> makes the chain of free pages exact again; and
  \<open>insert_record(rid, buf)\<close>, the operation of undo and recovery, puts a record at its old place.
\<close>

section \<open>The order of the scan\<close>

definition after :: "rid \<Rightarrow> rid \<Rightarrow> bool" where
  "after r q \<longleftrightarrow> page_no r < page_no q \<or> page_no r = page_no q \<and> slot_no r < slot_no q"

lemma after_trans: "after a b \<Longrightarrow> after b c \<Longrightarrow> after a c"
  by (auto simp: after_def)

lemma after_irrefl [simp]: "\<not> after a a"
  by (simp add: after_def)

lemma after_total: "a \<noteq> b \<Longrightarrow> after a b \<or> after b a"
  by (cases a; cases b) (auto simp: after_def)

text \<open>\<open>r'\<close> is the first record after \<open>r\<close> on a page from \<open>p\<close> on, or the end position \<open>e\<close>.\<close>

definition is_next :: "(rid \<rightharpoonup> bytes) \<Rightarrow> int \<Rightarrow> rid \<Rightarrow> rid \<Rightarrow> rid \<Rightarrow> bool" where
  "is_next m p e r r' \<longleftrightarrow>
     (if m r' = None then r' = e \<and> (\<forall>q. m q \<noteq> None \<longrightarrow> p \<le> page_no q \<longrightarrow> \<not> after r q)
      else after r r' \<and> (\<forall>q. m q \<noteq> None \<longrightarrow> p \<le> page_no q \<longrightarrow> after r q \<longrightarrow> q = r' \<or> after r' q))"

text \<open>The loop of a scan: visit the record, then move on, until the end.\<close>

primrec scan_collect :: "nat \<Rightarrow> 'r replacer_ops \<Rightarrow> rid \<Rightarrow> 'r rm_file \<Rightarrow> (rid list, 'r rm_file) res" where
  "scan_collect 0 R r s = Ret [] s"
| "scan_collect (Suc k) R r s =
     (if scan_is_end r s then Ret [] s
      else seqE (scan_next R r s)
             (\<lambda>r' s1. seqE (scan_collect k R r' s1) (\<lambda>rs s2. Ret (r # rs) s2)))"

lemma records_bounds:
  assumes "records s q \<noteq> None"
  shows "record_page (rm_hdr s) (page_no q)" "slot_ok (rm_hdr s) (slot_no q)"
  using assms by (auto simp: records_def page_record_def split: if_splits)

lemma records_end: "records s (Rid (num_pages (rm_hdr s)) i) = None"
  by (simp add: records_def record_page_def)

lemma finite_records: "finite (dom (records s))"
proof (rule finite_subset)
  let ?h = "rm_hdr s"
  show "dom (records s) \<subseteq> (\<lambda>(p, i). Rid p i) ` ({1..<num_pages ?h} \<times> {0..<num_records_per_page ?h})"
  proof
    fix q
    assume "q \<in> dom (records s)"
    then have "records s q \<noteq> None" by auto
    with records_bounds [OF this] show "q \<in> (\<lambda>(p, i). Rid p i) ` ({1..<num_pages ?h} \<times> {0..<num_records_per_page ?h})"
      by (intro image_eqI [of _ _ "(page_no q, slot_no q)"])
        (auto simp: record_page_def RM_FIRST_RECORD_PAGE_def)
  qed
qed auto

context replacer begin

lemma scan_loop_ok:
  assumes "table_pages F s" and "RM_FIRST_RECORD_PAGE \<le> p" and "page_no r \<le> p"
    and "slot_no r < num_records_per_page (rm_hdr s)" and "p \<le> num_pages (rm_hdr s)" and "- 1 \<le> slot_no r"
  shows "\<exists>r' s'. scan_loop R r [p..num_pages (rm_hdr s) - 1] s = Ret r' s' \<and> table_pages F s' \<and>
    records s' = records s \<and> rm_hdr s' = rm_hdr s \<and> (table_file F s \<longrightarrow> table_file F s') \<and> others F s s' \<and>
    is_next (records s) p (Rid (num_pages (rm_hdr s)) (-1)) r r'"
  using assms
proof (induction "nat (num_pages (rm_hdr s) - p)" arbitrary: s p)
  case 0
  then have "p = num_pages (rm_hdr s)" by simp
  moreover have "\<not> num_pages (rm_hdr s) \<le> page_no q" if "records s q \<noteq> None" for q
    using records_bounds [OF that] by (simp add: record_page_def)
  ultimately show ?case using "0.prems"(1) records_end [of s]
    by (intro exI [of _ "Rid (num_pages (rm_hdr s)) (-1)"] exI [of _ s]) (auto simp: is_next_def)
next
  case (Suc k)
  let ?h = "rm_hdr s"
  have lt: "p < num_pages ?h" using Suc.hyps(2) by simp
  then have rp: "record_page ?h p" using Suc.prems(2) by (simp add: record_page_def)
  from fetch_ok [OF Suc.prems(1) rp] obtain f s1 where f: "fetch_page_handle R p s = Ret f s1"
    and h: "rm_hdr s1 = ?h" and b: "borrowed F s p (file_page s p) f s1"
    and se: "settled F s (unpin R p False s1) p (file_page s p)"
    and n: "fd2pageno (disk_st (rm_pool (unpin R p False s1))) = fd2pageno (disk_st (rm_pool s))" by metis
  let ?s2 = "unpin R p False s1"
  note ss = settled_same [OF Suc.prems(1) se rp _ n, simplified, OF h]
  have pd: "page_data f s1 = file_page s p" using b by (simp add: borrowed_def)
  define cs where "cs = (if p = page_no r then slot_no r else -1)"
  define i where "i = next_bit True (bitmap ?h (file_page s p)) (num_records_per_page ?h) cs"
  have cap: "0 < num_records_per_page ?h" using table_pagesD(3) [OF Suc.prems(1)] by (simp add: layout_ok_def)
  have "cs < num_records_per_page ?h" using Suc.prems(4) cap by (simp add: cs_def)
  note nb = next_bit_spec [OF this, of True "bitmap ?h (file_page s p)", folded i_def]
  have recp: "records s (Rid p j) \<noteq> None \<longleftrightarrow> slot_ok ?h j \<and> bitmap_is_set (bitmap ?h (file_page s p)) j" for j
    using rp by (auto simp: records_def page_record_def)
  have aft: "after r (Rid p j) \<longleftrightarrow> cs < j" if "0 \<le> j" for j
    using Suc.prems(3) that by (auto simp: after_def cs_def)
  have cs1: "-1 \<le> cs" using Suc.prems(6) by (simp add: cs_def)
  have split: "[p..num_pages ?h - 1] = p # [p + 1..num_pages ?h - 1]" using lt by (simp add: upto_rec1)
  show ?case
  proof (cases "i < num_records_per_page ?h")
    case True
    have i0: "0 \<le> i" using nb cs1 by linarith
    have "records s (Rid p i) \<noteq> None" using recp True nb i0 by auto
    moreover have "q = Rid p i \<or> after (Rid p i) q"
      if q: "records s q \<noteq> None" "p \<le> page_no q" "after r q" for q
    proof (cases "page_no q = p")
      case pq: True
      then obtain j where j: "q = Rid p j" by (cases q) auto
      have "slot_ok ?h j" "bitmap_is_set (bitmap ?h (file_page s p)) j" using q(1) recp [of j] j by auto
      moreover have "cs < j" using q(3) aft j calculation by auto
      ultimately have "i \<le> j" using nb by (meson not_le)
      then show ?thesis using j by (auto simp: after_def)
    qed (use q in \<open>auto simp: after_def\<close>)
    ultimately have "is_next (records s) p (Rid (num_pages ?h) (-1)) r (Rid p i)"
      using aft [OF i0] nb by (auto simp: is_next_def)
    moreover have "scan_loop R r [p..num_pages ?h - 1] s = Ret (Rid p i) ?s2"
      using True f h pd by (simp add: split Let_def i_def cs_def)
    ultimately show ?thesis using ss h by (intro exI [of _ "Rid p i"] exI [of _ ?s2]) simp
  next
    case False
    then have all: "\<not> after r q" if qr: "records s q \<noteq> None" "page_no q = p" for q
    proof -
      obtain j where j: "q = Rid p j" using qr(2) by (cases q) auto
      have "slot_ok ?h j" "bitmap_is_set (bitmap ?h (file_page s p)) j" using qr(1) recp [of j] j by auto
      then have "\<not> cs < j" using nb False by auto
      then show ?thesis using aft [of j] \<open>slot_ok ?h j\<close> j by simp
    qed
    have "k = nat (num_pages (rm_hdr ?s2) - (p + 1))" using Suc.hyps(2) h by simp
    from Suc.hyps(1) [OF this ss(1)] Suc.prems lt h obtain r' s' where
      r': "scan_loop R r [p + 1..num_pages ?h - 1] ?s2 = Ret r' s'" "table_pages F s'"
      "records s' = records ?s2" "rm_hdr s' = ?h" "table_file F ?s2 \<longrightarrow> table_file F s'"
      "is_next (records ?s2) (p + 1) (Rid (num_pages ?h) (-1)) r r'" "others F ?s2 s'" by auto
    have "scan_loop R r [p..num_pages ?h - 1] s = Ret r' s'"
      using False f h pd r'(1) by (simp add: split Let_def i_def cs_def)
    moreover have "is_next (records s) p (Rid (num_pages ?h) (-1)) r r'"
    proof -
      have "p + 1 \<le> page_no q" if "records s q \<noteq> None" "p \<le> page_no q" "after r q" for q
        using all [of q] that by linarith
      then show ?thesis using r'(6) unfolding ss(2) is_next_def by meson
    qed
    ultimately show ?thesis using r' ss others_trans [OF ss(5) r'(7)] by (intro exI [of _ r'] exI [of _ s']) auto
  qed
qed

lemma scan_next_ok:
  assumes "table_pages F s" and "RM_FIRST_RECORD_PAGE \<le> page_no r" and "\<not> scan_is_end r s"
    and "slot_no r < num_records_per_page (rm_hdr s)" and "- 1 \<le> slot_no r"
  shows "\<exists>r' s'. scan_next R r s = Ret r' s' \<and> table_pages F s' \<and> records s' = records s \<and>
    rm_hdr s' = rm_hdr s \<and> (table_file F s \<longrightarrow> table_file F s') \<and> others F s s' \<and>
    is_next (records s) (page_no r) (Rid (num_pages (rm_hdr s)) (-1)) r r'"
  using scan_loop_ok [OF assms(1,2) order_refl assms(4) _ assms(5)] assms(3)
  by (simp add: scan_next_def scan_is_end_def)

text \<open>From a record on, the loop collects it and all records after it, in order.\<close>

lemma scan_collect_ok:
  assumes "table_pages F s" and "records s r \<noteq> None \<or> r = Rid (num_pages (rm_hdr s)) (-1)"
    and "card {q. records s q \<noteq> None \<and> (q = r \<or> after r q)} \<le> k"
  shows "\<exists>rs s'. scan_collect k R r s = Ret rs s' \<and> sorted_wrt after rs \<and>
    set rs = {q. records s q \<noteq> None \<and> (q = r \<or> after r q)} \<and>
    table_pages F s' \<and> records s' = records s \<and> rm_hdr s' = rm_hdr s \<and> (table_file F s \<longrightarrow> table_file F s')"
  using assms
proof (induction k arbitrary: s r)
  case 0
  have fin: "finite {q. records s q \<noteq> None \<and> (q = r \<or> after r q)}"
    by (rule finite_subset [OF _ finite_records [of s]]) auto
  have "{q. records s q \<noteq> None \<and> (q = r \<or> after r q)} = {}"
    using "0.prems"(3) fin by (metis (lifting) card_0_eq le_zero_eq)
  then show ?case using "0.prems"(1) by auto
next
  case (Suc k)
  let ?h = "rm_hdr s" and ?S = "\<lambda>r. {q. records s q \<noteq> None \<and> (q = r \<or> after r q)}"
  let ?e = "Rid (num_pages (rm_hdr s)) (-1)"
  show ?case
  proof (cases "scan_is_end r s")
    case True
    have "?S r = {}"
    proof (rule ccontr)
      assume "?S r \<noteq> {}"
      then obtain q where "records s q \<noteq> None" "q = r \<or> after r q" by auto
      with records_bounds(1) [of s q] True show False by (auto simp: scan_is_end_def record_page_def after_def)
    qed
    then show ?thesis using True Suc.prems(1) by auto
  next
    case False
    have nr: "r \<noteq> ?e" using False by (auto simp: scan_is_end_def)
    with Suc.prems(2) have rec: "records s r \<noteq> None" by simp
    note bo = records_bounds [OF rec]
    from scan_next_ok [OF Suc.prems(1) _ False] bo obtain r' s1 where
      nx: "scan_next R r s = Ret r' s1" "table_pages F s1" "records s1 = records s" "rm_hdr s1 = ?h"
      "table_file F s \<longrightarrow> table_file F s1" "is_next (records s) (page_no r) ?e r r'"
      by (auto simp: record_page_def)
    have ge: "page_no r \<le> page_no q" if "after r q" for q using that by (auto simp: after_def)
    have S: "?S r = insert r (?S r')" and r': "records s r' \<noteq> None \<or> r' = ?e" and nin: "r \<notin> ?S r'"
    proof -
      have none: "\<not> after ?e q" if "records s q \<noteq> None" for q
        using records_bounds(1) [OF that] by (auto simp: after_def record_page_def)
      show r': "records s r' \<noteq> None \<or> r' = ?e" using nx(6) by (auto simp: is_next_def split: if_splits)
      show "?S r = insert r (?S r')"
      proof (cases "records s r' = None")
        case True
        with nx(6) have e: "r' = ?e"
          and b: "\<And>q. records s q \<noteq> None \<Longrightarrow> page_no r \<le> page_no q \<Longrightarrow> \<not> after r q"
          by (simp_all add: is_next_def)
        have "?S r' = {}" using none records_end [of s "-1"] unfolding e by auto
        moreover have "?S r = {r}" using b ge rec by blast
        ultimately show ?thesis by (simp only:)
      next
        case False
        with nx(6) have a: "after r r'" and
          b: "\<And>q. records s q \<noteq> None \<Longrightarrow> page_no r \<le> page_no q \<Longrightarrow> after r q \<Longrightarrow> q = r' \<or> after r' q"
          by (simp_all add: is_next_def)
        then show ?thesis using ge rec False after_trans [OF a] by blast
      qed
      show "r \<notin> ?S r'"
      proof
        assume "r \<in> ?S r'"
        then have "r = r' \<or> after r' r" by simp
        moreover have "r' = ?e \<or> after r r'" using nx(6) by (auto simp: is_next_def split: if_splits)
        ultimately show False using nr none [OF rec] after_trans [of r r' r] by auto
      qed
    qed
    have fin: "finite (?S r')" by (rule finite_subset [OF _ finite_records [of s]]) auto
    have "card (?S r') \<le> k" using Suc.prems(3) unfolding S using nin fin by simp
    with Suc.IH [OF nx(2), of r'] nx(3,4) r' obtain rs s' where
      rs: "scan_collect k R r' s1 = Ret rs s'" "sorted_wrt after rs" "set rs = ?S r'" "table_pages F s'"
      "records s' = records s" "rm_hdr s' = ?h" "table_file F s1 \<longrightarrow> table_file F s'" by auto
    have "after r q" if "q \<in> ?S r'" for q
    proof -
      have "q \<in> ?S r" using that unfolding S by blast
      moreover have "q \<noteq> r" using that nin by blast
      ultimately show ?thesis by blast
    qed
    then have "sorted_wrt after (r # rs)" using rs(2,3) by simp
    moreover have "set (r # rs) = ?S r" using rs(3) unfolding S by simp
    moreover have "scan_collect (Suc k) R r s = Ret (r # rs) s'" using False nx(1) rs(1) by simp
    ultimately show ?thesis using rs nx by (intro exI [of _ "r # rs"] exI [of _ s']) auto
  qed
qed

lemma RmScan_ok:
  assumes "table_pages F s"
  shows "\<exists>r0 s0. RmScan R s = Ret r0 s0 \<and> table_pages F s0 \<and> records s0 = records s \<and>
      rm_hdr s0 = rm_hdr s \<and> (table_file F s \<longrightarrow> table_file F s0) \<and> others F s s0 \<and>
      is_next (records s) RM_FIRST_RECORD_PAGE (Rid (num_pages (rm_hdr s)) (-1)) (Rid RM_FIRST_RECORD_PAGE (-1)) r0"
proof -
  let ?r = "Rid RM_FIRST_RECORD_PAGE (-1)"
  note td = table_pagesD [OF assms]
  have cap: "0 < num_records_per_page (rm_hdr s)" using td(3) by (simp add: layout_ok_def)
  show ?thesis
  proof (cases "scan_is_end ?r s")
    case True
    then have np: "num_pages (rm_hdr s) = RM_FIRST_RECORD_PAGE"
      using td(4) by (simp add: scan_is_end_def RM_FIRST_RECORD_PAGE_def)
    then have "records s q = None" for q by (auto simp: records_def record_page_def)
    then show ?thesis using True assms np by (auto simp: RmScan_def scan_next_def is_next_def)
  next
    case False
    with scan_next_ok [OF assms _ False] cap show ?thesis by (simp add: RmScan_def)
  qed
qed

text \<open>All records come after the position a scan starts from.\<close>

lemma first_rest:
  assumes "is_next (records s) RM_FIRST_RECORD_PAGE (Rid (num_pages (rm_hdr s)) (-1)) (Rid RM_FIRST_RECORD_PAGE (-1)) r0"
  shows "{q. records s q \<noteq> None \<and> (q = r0 \<or> after r0 q)} = dom (records s)"
proof -
  let ?r = "Rid RM_FIRST_RECORD_PAGE (-1)"
  have aft: "after ?r q" "RM_FIRST_RECORD_PAGE \<le> page_no q" if "records s q \<noteq> None" for q
    using records_bounds [OF that] by (auto simp: after_def record_page_def)
  show ?thesis
  proof (cases "records s r0 = None")
    case True
    with assms have "\<And>q. records s q \<noteq> None \<Longrightarrow> RM_FIRST_RECORD_PAGE \<le> page_no q \<Longrightarrow> \<not> after ?r q"
      by (simp add: is_next_def)
    then have "records s q = None" for q using aft [of q] by blast
    then show ?thesis by auto
  next
    case False
    with assms aft show ?thesis by (auto simp: is_next_def)
  qed
qed

lemma scan_all_ok:
  assumes "table_pages F s" and "card (dom (records s)) \<le> k"
  shows "\<exists>r0 s0 rs s'. RmScan R s = Ret r0 s0 \<and> scan_collect k R r0 s0 = Ret rs s' \<and>
    sorted_wrt after rs \<and> set rs = dom (records s) \<and> table_pages F s' \<and> records s' = records s \<and>
    (table_file F s \<longrightarrow> table_file F s')"
proof -
  let ?r = "Rid RM_FIRST_RECORD_PAGE (-1)" and ?e = "Rid (num_pages (rm_hdr s)) (-1)"
  from RmScan_ok [OF assms(1)] obtain r0 s0 where r0: "RmScan R s = Ret r0 s0" "table_pages F s0" "records s0 = records s"
    "rm_hdr s0 = rm_hdr s" "table_file F s \<longrightarrow> table_file F s0"
    "is_next (records s) RM_FIRST_RECORD_PAGE ?e ?r r0" by blast
  have "records s r0 \<noteq> None \<or> r0 = ?e" using r0(6) by (auto simp: is_next_def split: if_splits)
  with scan_collect_ok [OF r0(2), of r0 k] r0(3,4) first_rest [OF r0(6)] assms(2) obtain rs s' where
    "scan_collect k R r0 s0 = Ret rs s'" "sorted_wrt after rs" "set rs = dom (records s)" "table_pages F s'"
    "records s' = records s" "table_file F s0 \<longrightarrow> table_file F s'" by auto
  with r0 show ?thesis by blast
qed

end

section \<open>Rebuilding the chain of free pages\<close>

context replacer begin

text \<open>While the loop runs, the chain holds exactly the pages visited so far that are not full.\<close>

lemma rebuild_loop_ok:
  assumes "table_pages F s" and "1 \<le> p" and "p \<le> num_pages (rm_hdr s)"
    and "chain (file_page s) (first_free_page_no (rm_hdr s)) fl" and "distinct fl"
    and "set fl = {no \<in> free_pages (rm_hdr s) (file_page s). no < p}"
  shows "\<exists>s'. rebuild_loop R [p..num_pages (rm_hdr s) - 1] s = Ret () s' \<and> table_file F s' \<and>
    records s' = records s \<and> others F s s'"
  using assms
proof (induction "nat (num_pages (rm_hdr s) - p)" arbitrary: s p fl)
  case 0
  then have p: "p = num_pages (rm_hdr s)" by simp
  have "no < p" if "no \<in> free_pages (rm_hdr s) (file_page s)" for no
    using that p by (simp add: free_pages_def record_page_def)
  then have "set fl = free_pages (rm_hdr s) (file_page s)" using "0.prems"(6) by blast
  then have "free_chain (rm_hdr s) (file_page s)"
    unfolding free_chain_def using "0.prems"(4,5) by blast
  with "0.prems"(1) p show ?case by (simp add: table_file_def)
next
  case (Suc k)
  let ?h = "rm_hdr s" and ?V = "file_page s" and ?d = "file_page s p"
  have lt: "p < num_pages ?h" using Suc.hyps(2) by simp
  then have rp: "record_page ?h p" using Suc.prems(2) by (simp add: record_page_def RM_FIRST_RECORD_PAGE_def)
  note td = table_pagesD [OF Suc.prems(1)]
  from fetch_ok [OF Suc.prems(1) rp] obtain f s1 where f: "fetch_page_handle R p s = Ret f s1"
    and h: "rm_hdr s1 = ?h" and b: "borrowed F s p ?d f s1"
    and n1: "fd2pageno (disk_st (rm_pool s1)) = fd2pageno (disk_st (rm_pool s))" by metis
  have pd: "page_data f s1 = ?d" using b by (simp add: borrowed_def)
  let ?free = "num_records ?d < num_records_per_page ?h"
  define d' where "d' = set_next_free_page_no (if ?free then first_free_page_no ?h else RM_NO_PAGE) ?d"
  define x where "x = (if ?free then p else first_free_page_no ?h)"
  define fl' where "fl' = (if ?free then p # fl else fl)"
  note sn = set_next_ok [OF td(3) td(7) [OF rp], of "if ?free then first_free_page_no ?h else RM_NO_PAGE",
      folded d'_def]
  let ?s2 = "unpin R p True ((set_page_data f d' s1)\<lparr>rm_hdr := ?h\<lparr>first_free_page_no := x\<rparr>\<rparr>)"
  have "length d' = PAGE_SIZE" using sn(1) by (simp add: page_ok_def)
  with b have se: "settled F s ?s2 p d'"
    and n: "fd2pageno (disk_st (rm_pool ?s2)) = fd2pageno (disk_st (rm_pool s))"
    using n1 by (simp_all add: borrowed_def)
  have "is_i32 p" using Suc.prems(2) lt td(5) by (auto simp: is_i32_def)
  then have i32: "is_i32 x" "is_i32 (if ?free then first_free_page_no ?h else RM_NO_PAGE)"
    using td(8) by (simp_all add: x_def RM_NO_PAGE_def is_i32_def)
  have h2: "rm_hdr ?s2 = ?h\<lparr>first_free_page_no := x\<rparr>" by simp
  note ch = settled_change [OF Suc.prems(1) se rp h2 n i32(1) sn(1)]
  have rec: "records ?s2 = records s"
    using ch(2) [of 0 "page_record ?h ?d 0"] sn(2) rp by (auto simp: records_def fun_upd_idem_iff)
  have fp: "free_pages ?h (file_page ?s2) = free_pages ?h ?V"
    using free_pages_upd [OF ch(3) rp] sn(3) rp by (auto simp: free_pages_def)
  have pnin: "p \<notin> set fl" using Suc.prems(6) by simp
  have "chain (file_page ?s2) (first_free_page_no ?h) fl"
    using Suc.prems(4,6) chain_others [OF pnin, of ?h ?V "file_page ?s2"] ch(3) by (auto simp: page_upd_def)
  moreover have "file_page ?s2 p = d'" using ch(3) Suc.prems(2) by (simp add: page_upd_def)
  ultimately have "chain (file_page ?s2) x fl'"
    using sn(4) [OF i32(2)] by (auto simp: x_def fl'_def)
  moreover have "distinct fl'" using Suc.prems(5) pnin by (simp add: fl'_def)
  moreover have "set fl' = {no \<in> free_pages ?h (file_page ?s2). no < p + 1}"
  proof -
    have "p \<in> free_pages ?h ?V \<longleftrightarrow> ?free" using rp by (simp add: free_pages_def)
    moreover have "no < p + 1 \<longleftrightarrow> no < p \<or> no = p" for no by auto
    ultimately show ?thesis unfolding fp fl'_def using Suc.prems(6) by auto
  qed
  moreover have "k = nat (num_pages (rm_hdr ?s2) - (p + 1))" using Suc.hyps(2) by simp
  ultimately obtain s' where "rebuild_loop R [p + 1..num_pages ?h - 1] ?s2 = Ret () s'" "table_file F s'"
    "records s' = records s" "others F ?s2 s'"
    using Suc.hyps(1) [of ?s2 "p + 1" fl'] ch(1) Suc.prems(2) lt rec by auto
  moreover have "rebuild_loop R [p..num_pages ?h - 1] s = rebuild_loop R [p + 1..num_pages ?h - 1] ?s2"
    using f h pd lt by (cases ?free) (simp_all add: upto_rec1 Let_def d'_def x_def set_hdr_same)
  ultimately show ?case using others_trans [OF ch(4)] by auto
qed

lemma rebuild_ok:
  assumes "table_pages F s"
  shows "\<exists>s'. rebuild_free_page_list R s = Ret () s' \<and> table_file F s' \<and> records s' = records s \<and>
    others F s s'"
proof -
  let ?s = "s\<lparr>rm_hdr := (rm_hdr s)\<lparr>first_free_page_no := RM_NO_PAGE\<rparr>\<rparr>"
  have v: "file_page ?s = file_page s" by (simp add: fun_eq_iff file_page_def)
  have "is_i32 RM_NO_PAGE" by (simp add: RM_NO_PAGE_def is_i32_def)
  then have t: "table_pages F ?s" using assms by (simp add: table_pages_def v record_page_def)
  have r: "records ?s = records s" by (rule ext) (simp add: records_def v)
  have "{no \<in> free_pages (rm_hdr ?s) (file_page ?s). no < 1} = {}"
    by (auto simp: free_pages_def record_page_def RM_FIRST_RECORD_PAGE_def)
  moreover have "others F ?s s' = others F s s'" for s' by (simp add: others_def)
  ultimately show ?thesis using rebuild_loop_ok [OF t, of 1 "[]"] table_pagesD(4) [OF assms] r
    by (simp add: rebuild_free_page_list_def RM_FIRST_RECORD_PAGE_def)
qed

end

section \<open>Putting a record at a given place\<close>

lemma set_page_data_same: "set_page_data f (page_data f s) s = s"
  by (simp add: set_page_data_def page_data_def set_page_def fun_upd_idem)

lemma next_free_i32 [simp]: "is_i32 (next_free_page_no d)"
  by (simp add: next_free_page_no_def)

context replacer begin

lemma append_page_ok:
  assumes "table_pages F s" and "is_i32 (num_pages (rm_hdr s) + 1)"
  shows "\<exists>f s1. create_new_page_handle R s = Ret (f, num_pages (rm_hdr s)) s1 \<and>
    (let s2 = unpin R (num_pages (rm_hdr s)) True s1 in
     table_pages F s2 \<and> records s2 = records s \<and> (table_file F s \<longrightarrow> table_file F s2) \<and> others F s s2 \<and>
     rm_hdr s2 = (rm_hdr s)\<lparr>first_free_page_no := num_pages (rm_hdr s), num_pages := num_pages (rm_hdr s) + 1\<rparr>)"
proof -
  note td = table_pagesD [OF assms(1)]
  let ?h = "rm_hdr s" and ?no = "num_pages (rm_hdr s)" and ?V = "file_page s"
  define d where "d = set_bitmap (bitmap_init (bitmap_size ?h)) (set_num_records 0
                 (set_next_free_page_no (first_free_page_no ?h) (zeros PAGE_SIZE)))"
  let ?h1 = "?h\<lparr>first_free_page_no := ?no, num_pages := ?no + 1\<rparr>"
  from create_new_page_ok [OF td(1,2) _ td(3)] assms(2) td(6) obtain f s1 where
    c: "create_new_page_handle R s = Ret (f, ?no) s1" and h: "rm_hdr s1 = ?h1"
    and n1: "fd2pageno (disk_st (rm_pool s1)) = (fd2pageno (disk_st (rm_pool s)))(rm_fd s := ?no + 1)"
    and b: "borrowed F s ?no d f s1"
    unfolding d_def by auto
  note fp = fresh_page_ok [OF td(3,8), folded d_def]
  let ?s2 = "unpin R ?no True s1"
  have same: "(set_page_data f d s1)\<lparr>rm_hdr := ?h1\<rparr> = s1"
    using b h set_page_data_same [of f s1] by (auto simp: borrowed_def)
  have "length d = PAGE_SIZE" using fp(1) by (simp add: page_ok_def)
  with b have se: "settled F s ?s2 ?no d"
    and n: "fd2pageno (disk_st (rm_pool ?s2)) = fd2pageno (disk_st (rm_pool s1))"
    unfolding borrowed_def using same by metis+
  have u: "page_upd ?V ?no d (file_page ?s2)"
    unfolding page_upd_def using settled_file_page [OF se td(2)] by blast
  have rp: "record_page ?h1 p \<longleftrightarrow> p = ?no \<or> record_page ?h p" for p
    using td(4) by (auto simp: record_page_def RM_FIRST_RECORD_PAGE_def)
  have nrp: "\<not> record_page ?h ?no" by (simp add: record_page_def)
  have fd: "rm_fd ?s2 = rm_fd s" and r: "rest F (rm_pool ?s2)" using se by (simp_all add: settled_def)
  have v: "file_page ?s2 p = (if p = ?no then d else ?V p)" if "record_page ?h1 p" for p
    by (rule page_updD [OF u that])
  have "page_ok ?h1 (file_page ?s2 p)" if "record_page ?h1 p" for p
    using v [OF that] fp(1) td(7) rp that by auto
  moreover have "is_i32 ?no" by (rule td(5))
  ultimately have tp: "table_pages F ?s2"
    using td r fd n n1 assms(2) h by (simp add: table_pages_def)
  have rec: "records ?s2 = records s"
  proof
    fix q
    show "records ?s2 q = records s q"
      using v [of "page_no q"] rp [of "page_no q"] nrp fp(2) h
      by (cases "page_no q = ?no") (simp_all add: records_def)
  qed
  have "table_file F ?s2" if t: "table_file F s"
  proof -
    have fc: "free_chain ?h ?V" using t by (simp add: table_file_def)
    have cap: "0 < num_records_per_page ?h" using td(3) by (simp add: layout_ok_def)
    have "p \<in> free_pages ?h1 (file_page ?s2) \<longleftrightarrow> p = ?no \<or> p \<in> free_pages ?h ?V" for p
      using v [of p] rp [of p] fp(3) cap nrp by (auto simp: free_pages_def)
    then have "free_pages ?h1 (file_page ?s2) = insert ?no (free_pages ?h ?V)" by blast
    moreover have "?no \<notin> free_pages ?h ?V" using nrp by (simp add: free_pages_def)
    ultimately have "free_chain ?h1 (file_page ?s2)"
      using free_chain_push [OF fc _ u fp(4), of ?h1] td(4) by simp
    with tp h show ?thesis by (simp add: table_file_def)
  qed
  moreover have "others F s ?s2" by (rule settled_others [OF se]) (simp add: n n1)
  ultimately show ?thesis using c tp rec h by (auto simp: Let_def)
qed

lemma append_pages_ok:
  assumes "table_pages F s" and "is_i32 (no + 1)" and "nat (no + 1 - num_pages (rm_hdr s)) \<le> k"
  shows "\<exists>s'. append_pages k R no s = Ret () s' \<and> table_pages F s' \<and> records s' = records s \<and>
    (table_file F s \<longrightarrow> table_file F s') \<and> others F s s' \<and> no < num_pages (rm_hdr s') \<and>
    num_pages (rm_hdr s) \<le> num_pages (rm_hdr s') \<and>
    record_size (rm_hdr s') = record_size (rm_hdr s) \<and>
    num_records_per_page (rm_hdr s') = num_records_per_page (rm_hdr s)"
  using assms
proof (induction k arbitrary: s)
  case 0
  then show ?case by (intro exI [of _ s]) auto
next
  case (Suc k)
  show ?case
  proof (cases "num_pages (rm_hdr s) \<le> no")
    case True
    have "is_i32 (num_pages (rm_hdr s) + 1)"
      using True Suc.prems(2) table_pagesD(4) [OF Suc.prems(1)] by (auto simp: is_i32_def)
    from append_page_ok [OF Suc.prems(1) this] obtain f s1 where
      c: "create_new_page_handle R s = Ret (f, num_pages (rm_hdr s)) s1" and
      s2: "let s2 = unpin R (num_pages (rm_hdr s)) True s1 in
       table_pages F s2 \<and> records s2 = records s \<and> (table_file F s \<longrightarrow> table_file F s2) \<and> others F s s2 \<and>
       rm_hdr s2 = (rm_hdr s)\<lparr>first_free_page_no := num_pages (rm_hdr s), num_pages := num_pages (rm_hdr s) + 1\<rparr>"
      by blast
    let ?s2 = "unpin R (num_pages (rm_hdr s)) True s1"
    have "table_pages F ?s2" "nat (no + 1 - num_pages (rm_hdr ?s2)) \<le> k"
      using s2 Suc.prems(3) by (simp_all add: Let_def)
    moreover have "others F s s' " if "others F ?s2 s'" for s' using others_trans [OF _ that] s2 by (simp add: Let_def)
    ultimately show ?thesis using Suc.IH [OF _ Suc.prems(2), of ?s2] s2 c True by (auto simp: Let_def)
  qed (use Suc.prems in \<open>intro exI [of _ s], simp\<close>)
qed

lemma insert_record_at_ok:
  assumes "table_pages F s" and "RM_FIRST_RECORD_PAGE \<le> page_no r" and "is_i32 (page_no r + 1)"
    and "nat (record_size (rm_hdr s)) \<le> length buf"
  shows "\<exists>s'. insert_record_at R r buf s =
      (if slot_ok (rm_hdr s) (slot_no r) then Ret () s'
       else Throw (RecordNotFoundError (page_no r) (slot_no r)) s') \<and>
    table_pages F s' \<and> others F s s' \<and> record_size (rm_hdr s') = record_size (rm_hdr s) \<and>
    num_records_per_page (rm_hdr s') = num_records_per_page (rm_hdr s) \<and> num_pages (rm_hdr s) \<le> num_pages (rm_hdr s') \<and>
    records s' = (if slot_ok (rm_hdr s) (slot_no r) \<and> records s r = None
      then (records s)(r \<mapsto> take (nat (record_size (rm_hdr s))) buf) else records s)"
proof -
  let ?no = "page_no r" and ?i = "slot_no r"
  from append_pages_ok [OF assms(1,3) order_refl] obtain s0 where
    ap: "append_pages (nat (?no + 1 - num_pages (rm_hdr s))) R ?no s = Ret () s0"
    and t: "table_pages F s0" and rec: "records s0 = records s" and np: "?no < num_pages (rm_hdr s0)"
    and o: "others F s s0" and hs: "record_size (rm_hdr s0) = record_size (rm_hdr s)"
      "num_pages (rm_hdr s) \<le> num_pages (rm_hdr s0)" "num_records_per_page (rm_hdr s0) = num_records_per_page (rm_hdr s)" by blast
  let ?h = "rm_hdr s0" and ?d = "file_page s0 ?no"
  have rp: "record_page ?h ?no" using np assms(2) by (simp add: record_page_def)
  note td = table_pagesD [OF t]
  from fetch_ok [OF t rp] obtain f s1 where f: "fetch_page_handle R ?no s0 = Ret f s1"
    and h: "rm_hdr s1 = ?h" and b: "borrowed F s0 ?no ?d f s1"
    and n1: "fd2pageno (disk_st (rm_pool s1)) = fd2pageno (disk_st (rm_pool s0))"
    and se: "settled F s0 (unpin R ?no False s1) ?no ?d"
    and n: "fd2pageno (disk_st (rm_pool (unpin R ?no False s1))) = fd2pageno (disk_st (rm_pool s0))"
    by metis
  have pd: "page_data f s1 = ?d" using b by (simp add: borrowed_def)
  have same: "(set_page_data f ?d s1)\<lparr>rm_hdr := ?h\<rparr> = s1"
    using pd h set_page_data_same [of f s1] by auto
  have len: "length ?d = PAGE_SIZE" using td(7) [OF rp] by (simp add: page_ok_def)
  show ?thesis
  proof (cases "slot_ok ?h ?i \<and> \<not> bitmap_is_set (bitmap ?h ?d) ?i")
    case False
    have se1: "settled F s0 (unpin R ?no True s1) ?no ?d"
      and nn: "fd2pageno (disk_st (rm_pool (unpin R ?no True s1))) = fd2pageno (disk_st (rm_pool s0))"
      using b len n1 unfolding borrowed_def using same by metis+
    note ss = settled_same [OF t se rp _ n, simplified, OF h]
      settled_same [OF t se1 rp _ nn, simplified, OF h]
    have "slot_ok ?h ?i \<Longrightarrow> records s r \<noteq> None"
      using False rp by (auto simp: rec [symmetric] records_def page_record_def)
    then show ?thesis using False ap f h pd hs rec ss others_trans [OF o ss(5)] others_trans [OF o ss(10)]
      by (auto simp: insert_record_at_def Let_def)
  next
    case True
    let ?buf = "take (nat (record_size ?h)) buf"
    have lb: "length ?buf = nat (record_size ?h)" using assms(4) hs by simp
    define d3 where "d3 = put_record ?h ?i ?buf ?d"
    note pr = put_record_ok [OF td(3) td(7) [OF rp] _ lb, of ?i, folded d3_def]
    have p3: "page_ok ?h d3" "page_record ?h d3 = (page_record ?h ?d)(?i \<mapsto> ?buf)"
      using pr True by auto
    let ?full = "num_records d3 = num_records_per_page ?h"
    define d4 where "d4 = (if ?full then set_next_free_page_no RM_NO_PAGE d3 else d3)"
    define x where "x = (if ?full \<and> first_free_page_no ?h = ?no then next_free_page_no d3
                         else first_free_page_no ?h)"
    have p4: "page_ok ?h d4" "page_record ?h d4 = (page_record ?h ?d)(?i \<mapsto> ?buf)"
      using p3 set_next_ok [OF td(3) p3(1)] by (simp_all add: d4_def)
    let ?s' = "unpin R ?no True ((set_page_data f d4 s1)\<lparr>rm_hdr := ?h\<lparr>first_free_page_no := x\<rparr>\<rparr>)"
    have "length d4 = PAGE_SIZE" using p4(1) by (simp add: page_ok_def)
    with b have se': "settled F s0 ?s' ?no d4"
      and n': "fd2pageno (disk_st (rm_pool ?s')) = fd2pageno (disk_st (rm_pool s0))"
      using n1 by (simp_all add: borrowed_def)
    have "is_i32 x" using td(8) by (simp add: x_def)
    have h': "rm_hdr ?s' = ?h\<lparr>first_free_page_no := x\<rparr>" by simp
    note ch = settled_change [OF t se' rp h' n' \<open>is_i32 x\<close> p4(1)]
    have "insert_record_at R r buf s = Ret () ?s'"
      using True ap f h pd by (simp add: insert_record_at_def Let_def d4_def x_def d3_def put_record_def
          set_hdr_same)
    moreover have "records s r = None"
      using True by (auto simp: rec [symmetric] records_def page_record_def)
    ultimately show ?thesis using ch(1) ch(2) [OF p4(2)] True hs rec others_trans [OF o ch(4)] by (intro exI [of _ ?s']) simp
  qed
qed

end

end
