(* ===== verification/Record_File_Table.thy ===== *)
theory Record_File_Table
  imports Record_File_Scan
begin

text \<open>
  The table file as a whole: sequences of operations refine a finite map, the page layout that
  \<^verbatim>\<open>RmManager::create_file\<close> computes fits into a page, and the theorems of the component for the
  pool with its LRU replacer.
\<close>

section \<open>The layout of a new file\<close>

lemma new_file_hdr_sel:
  assumes "1 \<le> sz"
  shows "record_size (new_file_hdr sz) = sz" "num_pages (new_file_hdr sz) = 1"
    "first_free_page_no (new_file_hdr sz) = RM_NO_PAGE"
    "num_records_per_page (new_file_hdr sz) = 32601 div (1 + 8 * sz)"
    "bitmap_size (new_file_hdr sz) = (32601 div (1 + 8 * sz) + 7) div 8"
proof -
  have d: "a sdiv b = a div b" if "0 \<le> a" "0 < b" for a b :: int
    using that by (cases "a = 0") (simp_all add: signed_divide_int_def)
  have n: "(BITMAP_WIDTH * (int PAGE_SIZE - 1 - int SIZEOF_RmFileHdr) + 1) sdiv (1 + sz * BITMAP_WIDTH) =
      32601 div (1 + 8 * sz)"
    using assms d [of 32601 "1 + 8 * sz"]
    by (simp add: BITMAP_WIDTH_def PAGE_SIZE_def SIZEOF_RmFileHdr_def mult.commute)
  have p: "0 \<le> 32601 div (1 + 8 * sz)" using assms by (simp add: pos_imp_zdiv_nonneg_iff)
  then have "(32601 div (1 + 8 * sz) + BITMAP_WIDTH - 1) sdiv BITMAP_WIDTH = (32601 div (1 + 8 * sz) + 7) div 8"
    using d [of "32601 div (1 + 8 * sz) + 7" 8] by (simp add: BITMAP_WIDTH_def add.commute)
  then show "record_size (new_file_hdr sz) = sz" "num_pages (new_file_hdr sz) = 1"
    "first_free_page_no (new_file_hdr sz) = RM_NO_PAGE"
    "num_records_per_page (new_file_hdr sz) = 32601 div (1 + 8 * sz)"
    "bitmap_size (new_file_hdr sz) = (32601 div (1 + 8 * sz) + 7) div 8"
    using n by (simp_all add: new_file_hdr_def Let_def)
qed

lemma new_file_hdr_layout:
  assumes "1 \<le> sz" and "sz \<le> RM_MAX_RECORD_SIZE"
  shows "layout_ok (new_file_hdr sz)"
proof -
  note s = new_file_hdr_sel [OF assms(1)]
  let ?n = "32601 div (1 + 8 * sz)"
  have "1 \<le> ?n" using assms by (simp add: RM_MAX_RECORD_SIZE_def pos_imp_zdiv_pos_iff int_one_le_iff_zero_less)
  moreover have "?n * (1 + 8 * sz) \<le> 32601"
  proof -
    have "0 \<le> 32601 mod (1 + 8 * sz)" using assms by (intro pos_mod_sign) simp
    then show ?thesis using minus_mod_eq_div_mult [of 32601 "1 + 8 * sz"] by linarith
  qed
  then have "?n + 8 * (?n * sz) \<le> 32601" by (simp add: algebra_simps)
  moreover have "(?n + 7) div 8 * 8 \<le> ?n + 7" by simp
  ultimately show ?thesis using assms(1) unfolding layout_ok_def s PAGE_SIZE_def by linarith
qed

section \<open>Sequences of operations\<close>

datatype rm_call = RGet rid | RInsert bytes | RDelete rid | RUpdate rid bytes

datatype rm_obs = ORecord bytes | ORid rid | OUnit

definition rm_exec :: "'r replacer_ops \<Rightarrow> rm_call \<Rightarrow> 'r rm_file \<Rightarrow> (rm_obs, 'r rm_file) res" where
  "rm_exec R c s =
     (case c of
        RGet r \<Rightarrow> seqE (get_record R r s) (\<lambda>b s1. Ret (ORecord b) s1)
      | RInsert b \<Rightarrow> seqE (insert_record R b s) (\<lambda>r s1. Ret (ORid r) s1)
      | RDelete r \<Rightarrow> seqE (delete_record R r s) (\<lambda>_ s1. Ret OUnit s1)
      | RUpdate r b \<Rightarrow> seqE (update_record R r b s) (\<lambda>_ s1. Ret OUnit s1))"

text \<open>A run goes on after an exception, as the callers of the file do.\<close>

fun rm_run :: "'r replacer_ops \<Rightarrow> rm_call list \<Rightarrow> 'r rm_file \<Rightarrow> (rmdb_error + rm_obs) list \<times> 'r rm_file" where
  "rm_run R [] s = ([], s)"
| "rm_run R (c # cs) s =
     (case rm_exec R c s of (x, s1) \<Rightarrow> (case rm_run R cs s1 of (xs, s2) \<Rightarrow> (x # xs, s2)))"

text \<open>
  What a map from record numbers to records of \<open>n\<close> bytes allows: an insertion picks a number that
  is not in use, a call on a number that is not in use throws and changes nothing.
\<close>

definition map_step :: "nat \<Rightarrow> rm_call \<Rightarrow> (rid \<rightharpoonup> bytes) \<Rightarrow> (rmdb_error + rm_obs) \<Rightarrow> (rid \<rightharpoonup> bytes) \<Rightarrow> bool"
where
  "map_step n c m x m' =
     (case c of
        RGet r \<Rightarrow> m' = m \<and> (case m r of None \<Rightarrow> isl x | Some b \<Rightarrow> x = Inr (ORecord b))
      | RInsert b \<Rightarrow> (\<exists>r. m r = None \<and> x = Inr (ORid r) \<and> m' = m(r \<mapsto> take n b))
      | RDelete r \<Rightarrow> (if m r = None then isl x \<and> m' = m else x = Inr OUnit \<and> m' = m(r := None))
      | RUpdate r b \<Rightarrow> (if m r = None then isl x \<and> m' = m else x = Inr OUnit \<and> m' = m(r \<mapsto> take n b)))"

fun map_run :: "nat \<Rightarrow> rm_call list \<Rightarrow> (rid \<rightharpoonup> bytes) \<Rightarrow> (rmdb_error + rm_obs) list \<Rightarrow> (rid \<rightharpoonup> bytes) \<Rightarrow> bool"
where
  "map_run n [] m xs m' \<longleftrightarrow> xs = [] \<and> m' = m"
| "map_run n (c # cs) m xs m' \<longleftrightarrow>
     (\<exists>x ys m1. xs = x # ys \<and> map_step n c m x m1 \<and> map_run n cs m1 ys m')"

fun call_ok :: "nat \<Rightarrow> rm_call \<Rightarrow> bool" where
  "call_ok n (RInsert b) = (n \<le> length b)"
| "call_ok n (RUpdate r b) = (n \<le> length b)"
| "call_ok n c = True"

lemma bad_page_none: "\<not> record_page (rm_hdr s) (page_no r) \<Longrightarrow> records s r = None"
  by (simp add: records_def)

context replacer begin

lemma bad_page_throws:
  assumes "\<not> record_page (rm_hdr s) no"
  shows "\<exists>e. fetch_page_handle R no s = Throw e s"
  using assms by (auto simp: fetch_page_handle_def record_page_def get_file_name_def split: option.split)

lemma rm_step_ok:
  assumes "table_file F s" and "call_ok (nat (record_size (rm_hdr s))) c"
    and "is_i32 (num_pages (rm_hdr s) + 1)"
  shows "\<exists>x s'. rm_exec R c s = (x, s') \<and> table_file F s' \<and> hdr_step 1 (rm_hdr s) (rm_hdr s') \<and>
    map_step (nat (record_size (rm_hdr s))) c (records s) x (records s')"
proof -
  have bad: "\<exists>e. fetch_page_handle R (page_no r) s = Throw e s \<and> records s r = None"
    if "\<not> record_page (rm_hdr s) (page_no r)" for r
    using bad_page_throws [OF that] bad_page_none [OF that] by blast
  have weak: "hdr_step 1 h h'" if "hdr_step 0 h h'" for h h' using that by (simp add: hdr_step_def)
  show ?thesis
  proof (cases c)
    case (RGet r)
    show ?thesis
    proof (cases "record_page (rm_hdr s) (page_no r)")
      case True
      from get_record_ok [OF table_file_pages [OF assms(1)] True] assms(1) RGet show ?thesis
        by (cases "records s r") (auto simp: rm_exec_def map_step_def)
    next
      case False
      from bad [OF this] RGet assms(1) show ?thesis by (auto simp: rm_exec_def get_record_def map_step_def)
    qed
  next
    case (RInsert b)
    from insert_record_ok [OF assms(1,3), of b] assms(2) RInsert obtain r s' where
      "insert_record R b s = Ret r s'" "table_file F s'" "hdr_step 1 (rm_hdr s) (rm_hdr s')"
      "records s r = None" "records s' = (records s)(r \<mapsto> take (nat (record_size (rm_hdr s))) b)" by auto
    then show ?thesis using RInsert by (auto simp: rm_exec_def map_step_def)
  next
    case (RDelete r)
    show ?thesis
    proof (cases "record_page (rm_hdr s) (page_no r)")
      case True
      from delete_record_ok [OF table_file_pages [OF assms(1)] True] assms(1) RDelete weak show ?thesis
        by (cases "records s r") (auto simp: rm_exec_def map_step_def fun_upd_idem)
    next
      case False
      from bad [OF this] RDelete assms(1) show ?thesis by (auto simp: rm_exec_def delete_record_def map_step_def)
    qed
  next
    case (RUpdate r b)
    show ?thesis
    proof (cases "record_page (rm_hdr s) (page_no r)")
      case True
      from update_record_ok [OF table_file_pages [OF assms(1)] True, of b] assms(1,2) RUpdate weak show ?thesis
        by (cases "records s r") (auto simp: rm_exec_def map_step_def)
    next
      case False
      from bad [OF this] RUpdate assms(1) show ?thesis by (auto simp: rm_exec_def update_record_def map_step_def)
    qed
  qed
qed

lemma rm_run_ok:
  assumes "table_file F s" and "\<forall>c \<in> set cs. call_ok (nat (record_size (rm_hdr s))) c"
    and "is_i32 (num_pages (rm_hdr s) + int (length cs))"
  shows "\<exists>xs s'. rm_run R cs s = (xs, s') \<and> table_file F s' \<and>
    map_run (nat (record_size (rm_hdr s))) cs (records s) xs (records s')"
  using assms
proof (induction cs arbitrary: s)
  case (Cons c cs)
  have n1: "1 \<le> num_pages (rm_hdr s)" using table_fileD(4) [OF Cons.prems(1)] .
  have "is_i32 (num_pages (rm_hdr s) + 1)" using Cons.prems(3) n1 by (simp add: is_i32_def)
  from rm_step_ok [OF Cons.prems(1) _ this, of c] Cons.prems(2) obtain x s1 where
    s1: "rm_exec R c s = (x, s1)" "table_file F s1" "hdr_step 1 (rm_hdr s) (rm_hdr s1)"
    "map_step (nat (record_size (rm_hdr s))) c (records s) x (records s1)" by auto
  have "is_i32 (num_pages (rm_hdr s1) + int (length cs))"
    using s1(3) Cons.prems(3) n1 by (simp add: hdr_step_def is_i32_def)
  with Cons.IH [OF s1(2)] Cons.prems(2) s1(3) obtain xs s' where
    "rm_run R cs s1 = (xs, s')" "table_file F s'"
    "map_run (nat (record_size (rm_hdr s))) cs (records s1) xs (records s')"
    by (auto simp: hdr_step_def)
  with s1 show ?case by auto
qed simp

end

section \<open>The table file on the LRU buffer pool\<close>

text \<open>
  Claim C8. A table file is a map from record numbers to records: on a pool at rest with at least one
  frame, every sequence of \<^verbatim>\<open>get_record\<close>, \<^verbatim>\<open>insert_record\<close>, \<^verbatim>\<open>delete_record\<close> and \<^verbatim>\<open>update_record\<close>
  calls returns what the map returns, an insertion always succeeds and never reuses the place of a
  live record, a call on a record that does not exist throws and changes nothing, and the chain of
  pages with free space stays exact.
\<close>

theorem rm_file_refines_map:
  assumes "lru.table_file F s" and "\<forall>c \<in> set cs. call_ok (nat (record_size (rm_hdr s))) c"
    and "is_i32 (num_pages (rm_hdr s) + int (length cs))"
  shows "\<exists>xs s'. rm_run lru_ops cs s = (xs, s') \<and> lru.table_file F s' \<and>
    map_run (nat (record_size (rm_hdr s))) cs (records s) xs (records s')"
  by (rule lru.rm_run_ok [OF assms])

text \<open>A fresh file of eight-byte records on a pool with one frame.\<close>

definition tiny_table :: "lru rm_file" where
  "tiny_table = \<lparr>rm_fd = 3, rm_hdr = new_file_hdr 8,
                 rm_pool = lru_pool 1 (set_fd2pageno 3 1 (tiny_disk [Eintr]))\<rparr>"

lemma lru_rest_init:
  assumes "disk_ok F d" and "\<forall>fd \<in> F. 0 \<le> fd2pageno d fd" and "0 < n"
  shows "lru.rest F (lru_pool n d)"
  using lru_sim_init [OF assms(1,2), of n] assms(2,3)
  by (auto simp: lru.rest_def init_store_def store_rel_def lru_pool_def BufferPoolManager_def)

lemma tiny_table_ok: "lru.table_file {3} tiny_table"
proof (rule lru.table_fileI)
  have d: "disk_ok {3} (set_fd2pageno 3 1 (tiny_disk [Eintr]))"
    using tiny_disk_ok [of "[Eintr]"] by (simp add: set_fd2pageno_def)
  show "lru.rest {3} (rm_pool tiny_table)"
    using lru_rest_init [OF d, of 1] by (simp add: tiny_table_def set_fd2pageno_def)
  have h: "num_pages (rm_hdr tiny_table) = 1" "first_free_page_no (rm_hdr tiny_table) = RM_NO_PAGE"
    using new_file_hdr_sel [of 8] by (simp_all add: tiny_table_def)
  then have np: "\<not> record_page (rm_hdr tiny_table) no" for no
    by (simp add: record_page_def RM_FIRST_RECORD_PAGE_def)
  show "free_chain (rm_hdr tiny_table) (file_page tiny_table)"
    unfolding free_chain_def by (intro exI [of _ "[]"]) (simp add: h free_pages_def np)
  show "page_ok (rm_hdr tiny_table) (file_page tiny_table no)" if "record_page (rm_hdr tiny_table) no" for no
    using that np by blast
  show "layout_ok (rm_hdr tiny_table)"
    using new_file_hdr_layout [of 8] by (simp add: tiny_table_def RM_MAX_RECORD_SIZE_def)
  show "rm_fd tiny_table \<in> {3}" "1 \<le> num_pages (rm_hdr tiny_table)" "is_i32 (num_pages (rm_hdr tiny_table))"
    using h by (simp_all add: tiny_table_def is_i32_def)
  show "fd2pageno (disk_st (rm_pool tiny_table)) (rm_fd tiny_table) = num_pages (rm_hdr tiny_table)"
    unfolding h by (simp add: tiny_table_def lru_pool_def BufferPoolManager_def set_fd2pageno_def)
qed

lemma tiny_table_hdr: "nat (record_size (rm_hdr tiny_table)) = 8" "num_pages (rm_hdr tiny_table) = 1"
  using new_file_hdr_sel [of 8] by (simp_all add: tiny_table_def)

theorem rm_file_refines_map_witness:
  "\<exists>xs s'. rm_run lru_ops [RInsert (replicate 8 1), RInsert (replicate 8 2), RGet (Rid 9 0)] tiny_table = (xs, s') \<and>
     lru.table_file {3} s' \<and>
     map_run 8 [RInsert (replicate 8 1), RInsert (replicate 8 2), RGet (Rid 9 0)] (records tiny_table) xs (records s')"
  using rm_file_refines_map [OF tiny_table_ok, of "[RInsert (replicate 8 1), RInsert (replicate 8 2), RGet (Rid 9 0)]"]
  by (simp add: tiny_table_hdr is_i32_def)

text \<open>
  Claim C9. \<^verbatim>\<open>RmScan\<close>: constructing a scan and calling \<^verbatim>\<open>next\<close> until \<^verbatim>\<open>is_end\<close> terminates after as
  many steps as the file has records, and visits every record exactly once, in ascending order
  of page and slot.
\<close>

theorem rm_scan_enumerates:
  assumes "lru.table_file F s" and "card (dom (records s)) \<le> k"
  shows "\<exists>r0 s0 rs s'. RmScan lru_ops s = Ret r0 s0 \<and> scan_collect k lru_ops r0 s0 = Ret rs s' \<and>
    sorted_wrt after rs \<and> set rs = dom (records s) \<and> records s' = records s"
  using lru.scan_all_ok [OF lru.table_file_pages [OF assms(1)] assms(2)] by blast

lemma tiny_table_empty: "records tiny_table = Map.empty"
  by (rule ext) (auto simp: records_def record_page_def RM_FIRST_RECORD_PAGE_def tiny_table_hdr)

theorem rm_scan_enumerates_witness:
  "\<exists>r0 s0 rs s'. RmScan lru_ops tiny_table = Ret r0 s0 \<and> scan_collect 5 lru_ops r0 s0 = Ret rs s' \<and>
    sorted_wrt after rs \<and> set rs = dom (records tiny_table) \<and> records s' = records tiny_table"
  by (rule rm_scan_enumerates [OF tiny_table_ok]) (simp add: tiny_table_empty)

text \<open>
  Claim C10. \<open>insert_record(rid, buf)\<close>, which undo and recovery use, puts the record at the given
  place, appending pages as needed, leaves every other record alone, and does nothing when the place
  is taken; a slot number outside the page throws \<^verbatim>\<open>RecordNotFoundError\<close>.
\<close>

theorem rm_insert_at:
  assumes "lru.table_pages F s" and "RM_FIRST_RECORD_PAGE \<le> page_no r" and "is_i32 (page_no r + 1)"
    and "nat (record_size (rm_hdr s)) \<le> length buf"
  shows "\<exists>s'. insert_record_at lru_ops r buf s =
      (if slot_ok (rm_hdr s) (slot_no r) then Ret () s'
       else Throw (RecordNotFoundError (page_no r) (slot_no r)) s') \<and>
    lru.table_pages F s' \<and> records s' = (if slot_ok (rm_hdr s) (slot_no r) \<and> records s r = None
      then (records s)(r \<mapsto> take (nat (record_size (rm_hdr s))) buf) else records s)"
  using lru.insert_record_at_ok [OF assms] by blast

theorem rm_insert_at_witness:
  "\<exists>s'. insert_record_at lru_ops (Rid 4 2) (replicate 8 5) tiny_table = Ret () s' \<and>
    records s' = (records tiny_table)(Rid 4 2 \<mapsto> replicate 8 5)"
proof -
  have "slot_ok (rm_hdr tiny_table) 2"
    using new_file_hdr_sel(4) [of 8] by (simp add: tiny_table_def)
  with rm_insert_at [OF lru.table_file_pages [OF tiny_table_ok], of "Rid 4 2" "replicate 8 5"]
  show ?thesis
    by (auto simp: tiny_table_hdr RM_FIRST_RECORD_PAGE_def is_i32_def tiny_table_empty)
qed

text \<open>
  Claim C11. \<^verbatim>\<open>rebuild_free_page_list\<close> repairs the chain of free pages whatever it looked like: after
  it the chain holds exactly the pages that are not full, and no record has changed.
\<close>

theorem rm_rebuild_free_list:
  assumes "lru.table_pages F s"
  shows "\<exists>s'. rebuild_free_page_list lru_ops s = Ret () s' \<and> free_chain (rm_hdr s') (file_page s') \<and>
    lru.table_file F s' \<and> records s' = records s"
  using lru.rebuild_ok [OF assms] lru.table_fileD(8) by blast

theorem rm_rebuild_free_list_witness:
  "\<exists>s'. rebuild_free_page_list lru_ops tiny_table = Ret () s' \<and> free_chain (rm_hdr s') (file_page s') \<and>
    lru.table_file {3} s' \<and> records s' = records tiny_table"
  by (rule rm_rebuild_free_list [OF lru.table_file_pages [OF tiny_table_ok]])

text \<open>
  Claim C12. The layout computed by \<^verbatim>\<open>RmManager::create_file\<close>: for every record size it accepts, a page
  holds at least one record, and page LSN, page header, bitmap and all slots fit into the page,
  although the formula reserves room for the file header rather than for the page header.
\<close>

theorem rm_layout_fits:
  assumes "1 \<le> sz" and "sz \<le> RM_MAX_RECORD_SIZE"
  shows "1 \<le> num_records_per_page (new_file_hdr sz) \<and>
    int (slots_off (new_file_hdr sz)) + num_records_per_page (new_file_hdr sz) * sz \<le> int PAGE_SIZE \<and>
    num_records_per_page (new_file_hdr sz) \<le> 8 * bitmap_size (new_file_hdr sz)"
proof -
  note l = new_file_hdr_layout [OF assms]
  have sz: "record_size (new_file_hdr sz) = sz" by (rule new_file_hdr_sel(1) [OF assms(1)])
  show ?thesis
    using l [unfolded layout_ok_def] layoutD(2) [OF l] by (simp add: sz page_offsets)
qed

theorem rm_layout_fits_witness:
  "1 \<le> num_records_per_page (new_file_hdr 512) \<and>
    int (slots_off (new_file_hdr 512)) + num_records_per_page (new_file_hdr 512) * 512 \<le> int PAGE_SIZE \<and>
    num_records_per_page (new_file_hdr 512) \<le> 8 * bitmap_size (new_file_hdr 512)"
  by (rule rm_layout_fits) (simp_all add: RM_MAX_RECORD_SIZE_def)

end
