(* ===== verification/Lock_Manager.thy ===== *)
theory Lock_Manager
  imports Record_File
begin

text \<open>
  The lock manager, \<^verbatim>\<open>transaction/concurrency/lock_manager.cpp\<close>, with the data of
  \<^verbatim>\<open>transaction/txn_defs.h\<close> and \<^verbatim>\<open>transaction/transaction.h\<close>: multi-granularity locks on
  tables and records, two-phase, and no-wait (a request that conflicts aborts its transaction).
  The latch makes each operation atomic; operations of different transactions interleave freely
  in the step relation \<open>lock_step\<close> at the end of the theory.
\<close>

section \<open>Data\<close>

datatype lock_mode = SHARED | EXLUCSIVE | INTENTION_SHARED | INTENTION_EXCLUSIVE | S_IX

datatype group_lock_mode = G_NON_LOCK | G_IS | G_IX | G_S | G_X | G_SIX

datatype lock_data_type = TABLE | RECORD

datatype lock_data_id = LockDataId (ld_fd: int) (ld_rid: rid) (ld_type: lock_data_type)

definition table_id :: "int \<Rightarrow> lock_data_id" where
  "table_id fd = LockDataId fd (Rid (-1) (-1)) TABLE"

definition record_id :: "int \<Rightarrow> rid \<Rightarrow> lock_data_id" where
  "record_id fd rid = LockDataId fd rid RECORD"

record lock_request =
  lr_txn_id :: int
  lr_mode :: lock_mode
  lr_granted :: bool

record lock_request_queue =
  request_queue :: "lock_request list"
  group_lock_mode :: group_lock_mode

definition new_queue :: lock_request_queue where
  "new_queue = \<lparr>request_queue = [], group_lock_mode = G_NON_LOCK\<rparr>"

type_synonym lock_table = "lock_data_id \<rightharpoonup> lock_request_queue"

datatype transaction_state = DEFAULT | GROWING | SHRINKING | COMMITTED | ABORTED

datatype isolation_level = READ_UNCOMMITTED | REPEATABLE_READ | READ_COMMITTED | SERIALIZABLE

datatype w_type = INSERT_TUPLE | DELETE_TUPLE | UPDATE_TUPLE

record write_record =
  wtype :: w_type
  wr_tab_name :: string
  wr_rid :: rid
  wr_record :: bytes

text \<open>
  The two page sets of a \<^verbatim>\<open>Transaction\<close> are never used and left out; the set of locks is a
  list without repetitions, whose order stands for the unspecified iteration order.
\<close>

record transaction =
  txn_mode :: bool
  txn_state :: transaction_state
  isolation :: isolation_level
  thread_id :: nat
  prev_lsn :: int
  txn_id :: int
  start_ts :: int
  write_set :: "write_record list"
  lock_set :: "lock_data_id list"

definition Transaction :: "nat \<Rightarrow> int \<Rightarrow> transaction" where
  "Transaction thr tid =
     \<lparr>txn_mode = False, txn_state = DEFAULT, isolation = SERIALIZABLE, thread_id = thr,
      prev_lsn = INVALID_LSN, txn_id = tid, start_ts = 0, write_set = [], lock_set = []\<rparr>"

section \<open>Modes\<close>

definition compatible :: "lock_mode \<Rightarrow> lock_mode \<Rightarrow> bool" where
  "compatible requested granted =
     (if requested = INTENTION_SHARED then granted \<noteq> EXLUCSIVE
      else if requested = INTENTION_EXCLUSIVE
      then granted = INTENTION_SHARED \<or> granted = INTENTION_EXCLUSIVE
      else if requested = SHARED then granted = INTENTION_SHARED \<or> granted = SHARED
      else if requested = S_IX then granted = INTENTION_SHARED
      else False)"

definition subsumes :: "lock_mode \<Rightarrow> lock_mode \<Rightarrow> bool" where
  "subsumes held requested =
     (if held = requested \<or> held = EXLUCSIVE then True
      else if held = S_IX then requested \<noteq> EXLUCSIVE
      else False)"

definition combine :: "lock_mode \<Rightarrow> lock_mode \<Rightarrow> lock_mode" where
  "combine held requested =
     (if subsumes held requested then held
      else if subsumes requested held then requested
      else if held = SHARED \<and> requested = INTENTION_EXCLUSIVE \<or>
              held = INTENTION_EXCLUSIVE \<and> requested = SHARED then S_IX
      else if held = INTENTION_SHARED \<and> requested = INTENTION_EXCLUSIVE \<or>
              held = INTENTION_EXCLUSIVE \<and> requested = INTENTION_SHARED then INTENTION_EXCLUSIVE
      else if held = INTENTION_SHARED then requested
      else if requested = INTENTION_SHARED then held
      else EXLUCSIVE)"

text \<open>The flags \<^verbatim>\<open>has_is\<close>, ... that the loop of \<^verbatim>\<open>group_mode\<close> collects.\<close>

definition has_mode :: "lock_mode \<Rightarrow> lock_request list \<Rightarrow> bool" where
  "has_mode m rs = list_ex (\<lambda>r. lr_granted r \<and> lr_mode r = m) rs"

definition group_mode :: "lock_request list \<Rightarrow> group_lock_mode" where
  "group_mode rs =
     (if has_mode EXLUCSIVE rs then G_X
      else if has_mode S_IX rs \<or> has_mode SHARED rs \<and> has_mode INTENTION_EXCLUSIVE rs then G_SIX
      else if has_mode SHARED rs then G_S
      else if has_mode INTENTION_EXCLUSIVE rs then G_IX
      else if has_mode INTENTION_SHARED rs then G_IS
      else G_NON_LOCK)"

section \<open>Requests\<close>

text \<open>
  An operation takes the transaction (\<open>None\<close> is the null pointer) and the lock table and
  leaves both behind.
\<close>

type_synonym lock_st = "transaction option \<times> lock_table"

definition own_request :: "int \<Rightarrow> lock_request list \<Rightarrow> lock_request option" where
  "own_request t rs = find (\<lambda>r. lr_txn_id r = t) rs"

fun upgrade :: "int \<Rightarrow> lock_mode \<Rightarrow> lock_request list \<Rightarrow> lock_request list" where
  "upgrade t m [] = []"
| "upgrade t m (r # rs) =
     (if lr_txn_id r = t then r\<lparr>lr_mode := m, lr_granted := True\<rparr> # rs else r # upgrade t m rs)"

definition conflicting :: "int \<Rightarrow> lock_mode \<Rightarrow> lock_request \<Rightarrow> bool" where
  "conflicting t m r \<longleftrightarrow> lr_granted r \<and> lr_txn_id r \<noteq> t \<and> \<not> compatible m (lr_mode r)"

definition grant :: "int \<Rightarrow> lock_mode \<Rightarrow> lock_request list \<Rightarrow> lock_request list" where
  "grant t m rs =
     (if own_request t rs = None then rs @ [\<lparr>lr_txn_id = t, lr_mode = m, lr_granted = True\<rparr>]
      else upgrade t m rs)"

definition request_lock :: "lock_data_id \<Rightarrow> lock_mode \<Rightarrow> lock_st \<Rightarrow> (bool, lock_st) res" where
  "request_lock lid mode st =
     (case fst st of
        None \<Rightarrow> Ret False st
      | Some txn \<Rightarrow>
          if txn_state txn \<noteq> GROWING then Throw (TransactionAbort (txn_id txn) LOCK_ON_SHIRINKING) st
          else
            let tab = snd st; t = txn_id txn;
                queue = (case tab lid of None \<Rightarrow> new_queue | Some q \<Rightarrow> q);
                tab1 = tab(lid \<mapsto> queue);
                rs = request_queue queue;
                own = own_request t rs;
                target = (case own of None \<Rightarrow> mode | Some r \<Rightarrow> combine (lr_mode r) mode)
            in if (case own of None \<Rightarrow> False | Some r \<Rightarrow> subsumes (lr_mode r) mode)
               then Ret True (Some txn, tab1)
               else if list_ex (conflicting t target) rs
               then Throw (TransactionAbort t DEADLOCK_PREVENTION) (Some txn, tab1)
               else let rs' = grant t target rs
                    in Ret True (Some (txn\<lparr>lock_set := List.insert lid (lock_set txn)\<rparr>),
                         tab1(lid \<mapsto> \<lparr>request_queue = rs', group_lock_mode = group_mode rs'\<rparr>)))"

definition lock_IS_on_table :: "int \<Rightarrow> lock_st \<Rightarrow> (bool, lock_st) res" where
  "lock_IS_on_table fd st = request_lock (table_id fd) INTENTION_SHARED st"

definition lock_IX_on_table :: "int \<Rightarrow> lock_st \<Rightarrow> (bool, lock_st) res" where
  "lock_IX_on_table fd st = request_lock (table_id fd) INTENTION_EXCLUSIVE st"

definition lock_shared_on_table :: "int \<Rightarrow> lock_st \<Rightarrow> (bool, lock_st) res" where
  "lock_shared_on_table fd st = request_lock (table_id fd) SHARED st"

definition lock_exclusive_on_table :: "int \<Rightarrow> lock_st \<Rightarrow> (bool, lock_st) res" where
  "lock_exclusive_on_table fd st = request_lock (table_id fd) EXLUCSIVE st"

definition lock_shared_on_record :: "rid \<Rightarrow> int \<Rightarrow> lock_st \<Rightarrow> (bool, lock_st) res" where
  "lock_shared_on_record rid fd st =
     seqE (lock_IS_on_table fd st) (\<lambda>_ st1. request_lock (record_id fd rid) SHARED st1)"

definition lock_exclusive_on_record :: "rid \<Rightarrow> int \<Rightarrow> lock_st \<Rightarrow> (bool, lock_st) res" where
  "lock_exclusive_on_record rid fd st =
     seqE (lock_IX_on_table fd st) (\<lambda>_ st1. request_lock (record_id fd rid) EXLUCSIVE st1)"

fun erase_request :: "int \<Rightarrow> lock_request list \<Rightarrow> lock_request list" where
  "erase_request t [] = []"
| "erase_request t (r # rs) = (if lr_txn_id r = t then rs else r # erase_request t rs)"

definition unlock :: "lock_data_id \<Rightarrow> lock_st \<Rightarrow> bool \<times> lock_st" where
  "unlock lid st =
     (case fst st of
        None \<Rightarrow> (False, st)
      | Some txn \<Rightarrow>
          (case snd st lid of
             None \<Rightarrow> (False, st)
           | Some queue \<Rightarrow>
               if own_request (txn_id txn) (request_queue queue) = None then (False, st)
               else
                 let rs = erase_request (txn_id txn) (request_queue queue);
                     txn1 = txn\<lparr>lock_set := remove1 lid (lock_set txn)\<rparr>;
                     tab = (if rs = [] then (snd st)(lid := None)
                            else (snd st)(lid \<mapsto> \<lparr>request_queue = rs, group_lock_mode = group_mode rs\<rparr>));
                     txn2 = (if txn_state txn1 = GROWING then txn1\<lparr>txn_state := SHRINKING\<rparr> else txn1)
                 in (True, (Some txn2, tab))))"

text \<open>The loop with which commit and abort release the locks of a transaction.\<close>

fun release_locks :: "lock_data_id list \<Rightarrow> lock_st \<Rightarrow> lock_st" where
  "release_locks [] st = st"
| "release_locks (l # ls) st = release_locks ls (snd (unlock l st))"

end
