(* ===== verification/Lock_Manager_Props.thy ===== *)
theory Lock_Manager_Props
  imports Lock_Manager
begin

text \<open>
  What the lock manager guarantees. A queue is abstracted to the modes the transactions hold;
  against this abstraction every request and every release has a simple specification, from
  which follow, for every interleaving of transactions, the absence of conflicting locks, the
  two phases, and the isolation of growing transactions across the two lock granularities.
\<close>

named_theorems lock_mode_defs \<open>unfolding of the mode tables\<close>

declare compatible_def [lock_mode_defs] subsumes_def [lock_mode_defs] combine_def [lock_mode_defs]

section \<open>The lattice of modes\<close>

lemma compatible_sym: "compatible a b = compatible b a"
  by (cases a; cases b) (simp_all add: lock_mode_defs)

lemma compatible_combine: "compatible (combine a b) g \<longleftrightarrow> compatible a g \<and> compatible b g"
  by (cases a; cases b; cases g) (simp_all add: lock_mode_defs)

lemma combine_subsumed: "subsumes a b \<Longrightarrow> combine a b = a"
  by (simp add: combine_def)

text \<open>
  The compatibility matrix written out as reading and writing rights: a mode claims to read or
  write the whole object, or to read or write inside it.
\<close>

definition reads_all :: "lock_mode \<Rightarrow> bool" where
  "reads_all m \<longleftrightarrow> m \<in> {SHARED, S_IX, EXLUCSIVE}"

definition writes_all :: "lock_mode \<Rightarrow> bool" where
  "writes_all m \<longleftrightarrow> m = EXLUCSIVE"

definition writes_in :: "lock_mode \<Rightarrow> bool" where
  "writes_in m \<longleftrightarrow> m \<in> {INTENTION_EXCLUSIVE, S_IX, EXLUCSIVE}"

lemmas right_defs = reads_all_def writes_all_def writes_in_def

lemma rights_combine [simp]:
  "writes_all (combine a b) \<longleftrightarrow> writes_all a \<or> writes_all b"
  "writes_in (combine a b) \<longleftrightarrow> writes_in a \<or> writes_in b"
  "reads_all (combine a b) \<longleftrightarrow> reads_all a \<or> reads_all b"
  by (cases a; cases b; simp add: lock_mode_defs right_defs)+

lemma rights_conflict:
  "compatible a b \<Longrightarrow> writes_in a \<Longrightarrow> \<not> reads_all b"
  "compatible a b \<Longrightarrow> \<not> writes_all a"
  by (cases a; cases b; simp add: lock_mode_defs right_defs)+

section \<open>Queues\<close>

lemma own_request_Cons [simp]:
  "own_request t [] = None"
  "own_request t (r # rs) = (if lr_txn_id r = t then Some r else own_request t rs)"
  by (simp_all add: own_request_def)

lemma own_request_None: "own_request t rs = None \<longleftrightarrow> t \<notin> lr_txn_id ` set rs"
  by (induction rs) auto

lemma own_request_Some: "own_request t rs = Some r \<Longrightarrow> r \<in> set rs \<and> lr_txn_id r = t"
  by (induction rs) (auto split: if_splits)

lemma own_request_mem:
  "distinct (map lr_txn_id rs) \<Longrightarrow> r \<in> set rs \<Longrightarrow> own_request (lr_txn_id r) rs = Some r"
  by (induction rs) (auto simp: rev_image_eqI)

lemma own_request_append [simp]:
  "own_request t (rs @ rs') = (case own_request t rs of None \<Rightarrow> own_request t rs' | Some r \<Rightarrow> Some r)"
  by (induction rs) auto

lemma own_request_upgrade:
  "own_request t' (upgrade t m rs) =
     (if t' = t then map_option (\<lambda>r. r\<lparr>lr_mode := m, lr_granted := True\<rparr>) (own_request t rs)
      else own_request t' rs)"
  by (induction rs) auto

lemma own_request_erase:
  "distinct (map lr_txn_id rs) \<Longrightarrow>
     own_request t' (erase_request t rs) = (if t' = t then None else own_request t' rs)"
  by (induction rs) (auto simp: own_request_None)

lemma txn_ids_upgrade [simp]: "map lr_txn_id (upgrade t m rs) = map lr_txn_id rs"
  by (induction rs) auto

lemma set_erase_request: "set (erase_request t rs) \<subseteq> set rs"
  by (induction rs) auto

lemma distinct_erase_request:
  "distinct (map lr_txn_id rs) \<Longrightarrow> distinct (map lr_txn_id (erase_request t rs))"
  using set_erase_request by (induction rs) (fastforce)+

lemma granted_upgrade:
  "\<forall>r\<in>set rs. lr_granted r \<Longrightarrow> \<forall>r\<in>set (upgrade t m rs). lr_granted r"
  by (induction rs) auto

definition queue_modes :: "lock_request list \<Rightarrow> int \<Rightarrow> lock_mode option" where
  "queue_modes rs t = map_option lr_mode (own_request t rs)"

definition queue_ok :: "lock_request_queue \<Rightarrow> bool" where
  "queue_ok q \<longleftrightarrow>
     request_queue q \<noteq> [] \<and> distinct (map lr_txn_id (request_queue q)) \<and>
     (\<forall>r\<in>set (request_queue q). lr_granted r) \<and>
     (\<forall>t t' m m'. t \<noteq> t' \<longrightarrow> queue_modes (request_queue q) t = Some m \<longrightarrow>
        queue_modes (request_queue q) t' = Some m' \<longrightarrow> compatible m m') \<and>
     group_lock_mode q = group_mode (request_queue q)"

lemma queue_modes_grant:
  "queue_modes (grant t m rs) t' = (if t' = t then Some m else queue_modes rs t')"
  by (auto simp: queue_modes_def grant_def own_request_upgrade split: option.splits)

lemma grant_wf:
  assumes "distinct (map lr_txn_id rs)" and "\<forall>r\<in>set rs. lr_granted r"
  shows "grant t m rs \<noteq> []" "distinct (map lr_txn_id (grant t m rs))"
    "\<forall>r\<in>set (grant t m rs). lr_granted r"
proof -
  have "rs \<noteq> [] \<Longrightarrow> upgrade t m rs \<noteq> []" by (cases rs) auto
  moreover have "own_request t rs \<noteq> None \<Longrightarrow> rs \<noteq> []" by auto
  ultimately show "grant t m rs \<noteq> []" by (auto simp: grant_def)
  show "distinct (map lr_txn_id (grant t m rs))"
    using assms(1) by (auto simp: grant_def own_request_None)
  show "\<forall>r\<in>set (grant t m rs). lr_granted r"
    using assms(2) by (simp add: grant_def granted_upgrade)
qed

lemma conflict_iff_queue:
  assumes "distinct (map lr_txn_id rs)" and "\<forall>r\<in>set rs. lr_granted r"
  shows "list_ex (conflicting t m) rs \<longleftrightarrow>
    (\<exists>t' g. t' \<noteq> t \<and> queue_modes rs t' = Some g \<and> \<not> compatible m g)" (is "?l \<longleftrightarrow> ?r")
proof
  assume ?l
  then obtain r where r: "r \<in> set rs" "conflicting t m r" by (auto simp: list_ex_iff)
  with own_request_mem [OF assms(1) r(1)] show ?r
    by (auto simp: conflicting_def queue_modes_def intro!: exI [of _ "lr_txn_id r"])
next
  assume ?r
  then obtain t' r where "t' \<noteq> t" "own_request t' rs = Some r" "\<not> compatible m (lr_mode r)"
    by (auto simp: queue_modes_def)
  with own_request_Some [of t' rs r] assms(2) show ?l
    by (auto simp: list_ex_iff conflicting_def)
qed

section \<open>The lock table as a map of held modes\<close>

definition held_mode :: "lock_table \<Rightarrow> int \<Rightarrow> lock_data_id \<Rightarrow> lock_mode option" where
  "held_mode tab t lid = (case tab lid of None \<Rightarrow> None | Some q \<Rightarrow> queue_modes (request_queue q) t)"

definition table_locks_ok :: "lock_table \<Rightarrow> bool" where
  "table_locks_ok tab \<longleftrightarrow> (\<forall>lid q. tab lid = Some q \<longrightarrow> queue_ok q)"

lemma held_compatible:
  assumes "table_locks_ok tab" and "t \<noteq> t'" and "held_mode tab t lid = Some m"
    and "held_mode tab t' lid = Some m'"
  shows "compatible m m'"
proof (cases "tab lid")
  case None
  with assms show ?thesis by (simp add: held_mode_def)
next
  case (Some q)
  with assms have "queue_ok q" by (simp add: table_locks_ok_def)
  with Some assms(2-4) show ?thesis unfolding queue_ok_def held_mode_def by auto
qed

text \<open>The mode a transaction ends up with when its request is granted.\<close>

definition target_mode :: "lock_table \<Rightarrow> int \<Rightarrow> lock_data_id \<Rightarrow> lock_mode \<Rightarrow> lock_mode" where
  "target_mode tab t lid m = (case held_mode tab t lid of None \<Rightarrow> m | Some h \<Rightarrow> combine h m)"

definition blocked :: "lock_table \<Rightarrow> int \<Rightarrow> lock_data_id \<Rightarrow> lock_mode \<Rightarrow> bool" where
  "blocked tab t lid m \<longleftrightarrow>
     (\<exists>t' g. t' \<noteq> t \<and> held_mode tab t' lid = Some g \<and> \<not> compatible (target_mode tab t lid m) g)"

lemma held_mode_upd:
  "held_mode (tab(lid \<mapsto> q)) t' l' =
     (if l' = lid then queue_modes (request_queue q) t' else held_mode tab t' l')"
  "held_mode (tab(lid := None)) t' l' = (if l' = lid then None else held_mode tab t' l')"
  by (simp_all add: held_mode_def)

text \<open>The queue a request works on, absent ones being created empty.\<close>

definition the_queue :: "lock_table \<Rightarrow> lock_data_id \<Rightarrow> lock_request_queue" where
  "the_queue tab lid = (case tab lid of None \<Rightarrow> new_queue | Some q \<Rightarrow> q)"

lemma the_queue_facts:
  assumes "table_locks_ok tab"
  shows "distinct (map lr_txn_id (request_queue (the_queue tab lid)))"
    and "\<forall>r\<in>set (request_queue (the_queue tab lid)). lr_granted r"
    and "held_mode tab t lid = queue_modes (request_queue (the_queue tab lid)) t"
  using assms
  by (auto simp: the_queue_def table_locks_ok_def queue_ok_def held_mode_def new_queue_def
      queue_modes_def split: option.splits)

lemma request_lock_growing:
  assumes ok: "table_locks_ok tab" and gr: "txn_state x = GROWING"
  shows "request_lock lid m (Some x, tab) =
    (let t = txn_id x in
     if \<exists>h. held_mode tab t lid = Some h \<and> subsumes h m then Ret True (Some x, tab)
     else if blocked tab t lid m then Throw (TransactionAbort t DEADLOCK_PREVENTION) (Some x, tab)
     else let rs = grant t (target_mode tab t lid m) (request_queue (the_queue tab lid)) in
       Ret True (Some (x\<lparr>lock_set := List.insert lid (lock_set x)\<rparr>),
         tab(lid \<mapsto> \<lparr>request_queue = rs, group_lock_mode = group_mode rs\<rparr>)))"
proof -
  let ?q = "the_queue tab lid" and ?t = "txn_id x"
  note facts = the_queue_facts [OF ok, where lid = lid]
  have own: "(case own_request ?t (request_queue ?q) of None \<Rightarrow> m | Some r \<Rightarrow> combine (lr_mode r) m)
      = target_mode tab ?t lid m"
    "(case own_request ?t (request_queue ?q) of None \<Rightarrow> False | Some r \<Rightarrow> subsumes (lr_mode r) m)
      = (\<exists>h. held_mode tab ?t lid = Some h \<and> subsumes h m)"
    by (simp_all add: target_mode_def facts(3) queue_modes_def split: option.split)
  have present: "tab(lid \<mapsto> ?q) = tab" if "own_request t (request_queue ?q) = Some r \<or>
      list_ex P (request_queue ?q)" for t r P
    using that by (cases "tab lid") (auto simp: the_queue_def new_queue_def)
  have blk: "list_ex (conflicting ?t (target_mode tab ?t lid m)) (request_queue ?q) =
      blocked tab ?t lid m"
    using conflict_iff_queue [OF facts(1,2)] by (simp add: blocked_def facts(3))
  have sub: "(\<exists>h. held_mode tab ?t lid = Some h \<and> subsumes h m) \<Longrightarrow> tab(lid \<mapsto> ?q) = tab"
    using present by (auto simp: facts(3) queue_modes_def)
  show ?thesis
    using gr sub present [of _ _ "conflicting ?t (target_mode tab ?t lid m)"]
    unfolding request_lock_def the_queue_def [symmetric] Let_def fst_conv snd_conv option.case own blk
    by auto
qed

text \<open>
  The contract of a request of a growing transaction: it is refused exactly when the combined
  mode conflicts with a lock of another transaction, and then nothing changes; otherwise the
  combined mode is held afterwards and no other lock changes.
\<close>

lemma request_lock_spec:
  assumes ok: "table_locks_ok tab" and gr: "txn_state x = GROWING"
    and ls: "\<And>l. l \<in> set (lock_set x) \<longleftrightarrow> held_mode tab (txn_id x) l \<noteq> None"
  shows "if blocked tab (txn_id x) lid m
    then request_lock lid m (Some x, tab) =
           Throw (TransactionAbort (txn_id x) DEADLOCK_PREVENTION) (Some x, tab)
    else \<exists>tab'. request_lock lid m (Some x, tab) =
           Ret True (Some (x\<lparr>lock_set := List.insert lid (lock_set x)\<rparr>), tab') \<and> table_locks_ok tab' \<and>
           (\<forall>t l. held_mode tab' t l = (if t = txn_id x \<and> l = lid
              then Some (target_mode tab (txn_id x) lid m) else held_mode tab t l))"
proof -
  let ?t = "txn_id x" and ?q = "the_queue tab lid"
  let ?rs = "grant ?t (target_mode tab ?t lid m) (request_queue ?q)"
  note facts = the_queue_facts [OF ok, where lid = lid]
  have nb: "\<not> blocked tab ?t lid m" and tgt: "target_mode tab ?t lid m = h" and
    ins: "List.insert lid (lock_set x) = lock_set x"
    if "held_mode tab ?t lid = Some h" "subsumes h m" for h
    using that held_compatible [OF ok] ls
    by (auto simp: blocked_def target_mode_def combine_subsumed in_set_insert) metis
  have good: "table_locks_ok (tab(lid \<mapsto> \<lparr>request_queue = ?rs, group_lock_mode = group_mode ?rs\<rparr>))"
    if "\<not> blocked tab ?t lid m"
  proof -
    have "compatible a b" if "t1 \<noteq> t2" "queue_modes ?rs t1 = Some a" "queue_modes ?rs t2 = Some b"
      for t1 t2 a b
      using that \<open>\<not> blocked tab ?t lid m\<close> held_compatible [OF ok, of t1 t2 lid]
      by (auto simp: queue_modes_grant blocked_def facts(3) split: if_splits) (metis compatible_sym)+
    then have "queue_ok \<lparr>request_queue = ?rs, group_lock_mode = group_mode ?rs\<rparr>"
      unfolding queue_ok_def using grant_wf [OF facts(1,2)] by simp
    with ok show ?thesis by (auto simp: table_locks_ok_def)
  qed
  show ?thesis
  proof (cases "\<exists>h. held_mode tab ?t lid = Some h \<and> subsumes h m")
    case True
    then obtain h where h: "held_mode tab ?t lid = Some h" "subsumes h m" by blast
    have "request_lock lid m (Some x, tab) = Ret True (Some x, tab)"
      unfolding request_lock_growing [OF ok gr] Let_def using True by simp
    with nb [OF h] tgt [OF h] ins [OF h] ok h(1) show ?thesis by auto
  next
    case False
    have "\<forall>t l. held_mode (tab(lid \<mapsto> \<lparr>request_queue = ?rs, group_lock_mode = group_mode ?rs\<rparr>)) t l =
      (if t = ?t \<and> l = lid then Some (target_mode tab ?t lid m) else held_mode tab t l)"
      by (auto simp: held_mode_upd queue_modes_grant facts(3))
    with False good show ?thesis
      unfolding request_lock_growing [OF ok gr] Let_def by auto
  qed
qed

lemma request_lock_late:
  "txn_state x \<noteq> GROWING \<Longrightarrow>
   request_lock lid m (Some x, tab) = Throw (TransactionAbort (txn_id x) LOCK_ON_SHIRINKING) (Some x, tab)"
  by (simp add: request_lock_def)

section \<open>Release\<close>

lemma unlock_spec:
  assumes ok: "table_locks_ok tab" and ls: "lid \<in> set (lock_set x) \<longleftrightarrow> held_mode tab (txn_id x) lid \<noteq> None"
  shows "\<exists>tab'. unlock lid (Some x, tab) =
      (lid \<in> set (lock_set x),
       (Some (x\<lparr>lock_set := remove1 lid (lock_set x), txn_state :=
          (if lid \<in> set (lock_set x) \<and> txn_state x = GROWING then SHRINKING else txn_state x)\<rparr>), tab')) \<and>
    table_locks_ok tab' \<and>
    (\<forall>t l. held_mode tab' t l = (if t = txn_id x \<and> l = lid then None else held_mode tab t l))"
proof (cases "lid \<in> set (lock_set x)")
  case False
  with ls have "held_mode tab (txn_id x) lid = None" by simp
  moreover from this have "unlock lid (Some x, tab) = (False, (Some x, tab))"
    by (auto simp: unlock_def held_mode_def queue_modes_def split: option.splits)
  ultimately show ?thesis using False ok by (auto simp: remove1_idem)
next
  case True
  with ls obtain q where q: "tab lid = Some q" and own: "own_request (txn_id x) (request_queue q) \<noteq> None"
    by (auto simp: held_mode_def queue_modes_def split: option.splits)
  let ?rs = "erase_request (txn_id x) (request_queue q)"
  define tab' where "tab' = (if ?rs = [] then tab(lid := None)
    else tab(lid \<mapsto> \<lparr>request_queue = ?rs, group_lock_mode = group_mode ?rs\<rparr>))"
  have qok: "queue_ok q" using ok q by (simp add: table_locks_ok_def)
  then have dis: "distinct (map lr_txn_id (request_queue q))" by (simp add: queue_ok_def)
  have modes: "queue_modes ?rs t = (if t = txn_id x then None else queue_modes (request_queue q) t)" for t
    by (simp add: queue_modes_def own_request_erase [OF dis])
  have "queue_ok \<lparr>request_queue = ?rs, group_lock_mode = group_mode ?rs\<rparr>" if "?rs \<noteq> []"
    unfolding queue_ok_def lock_request_queue.select_convs modes
    using that qok distinct_erase_request [OF dis] set_erase_request [of "txn_id x" "request_queue q"]
    by (auto simp: queue_ok_def split: if_splits)
  with ok have "table_locks_ok tab'" by (auto simp: tab'_def table_locks_ok_def)
  moreover have "held_mode tab' t l = (if t = txn_id x \<and> l = lid then None else held_mode tab t l)" for t l
  proof -
    have "?rs = [] \<Longrightarrow> t \<noteq> txn_id x \<Longrightarrow> queue_modes (request_queue q) t = None"
      using modes [of t] by (simp add: queue_modes_def)
    moreover have "queue_modes (request_queue q) t = held_mode tab t lid"
      using q by (simp add: held_mode_def)
    ultimately show ?thesis by (auto simp: tab'_def held_mode_upd modes)
  qed
  moreover have "unlock lid (Some x, tab) = (True, (Some (x\<lparr>lock_set := remove1 lid (lock_set x),
      txn_state := (if txn_state x = GROWING then SHRINKING else txn_state x)\<rparr>), tab'))"
    using q own by (simp add: unlock_def tab'_def Let_def)
  ultimately show ?thesis using True by auto
qed

section \<open>Interleaved transactions\<close>

datatype lock_call =
    LockSharedRecord rid int | LockExclusiveRecord rid int
  | LockSharedTable int | LockExclusiveTable int | LockISTable int | LockIXTable int

fun lock_exec :: "lock_call \<Rightarrow> lock_st \<Rightarrow> (bool, lock_st) res" where
  "lock_exec (LockSharedRecord r fd) st = lock_shared_on_record r fd st"
| "lock_exec (LockExclusiveRecord r fd) st = lock_exclusive_on_record r fd st"
| "lock_exec (LockSharedTable fd) st = lock_shared_on_table fd st"
| "lock_exec (LockExclusiveTable fd) st = lock_exclusive_on_table fd st"
| "lock_exec (LockISTable fd) st = lock_IS_on_table fd st"
| "lock_exec (LockIXTable fd) st = lock_IX_on_table fd st"

record lock_sys =
  ls_txns :: "int \<rightharpoonup> transaction"
  ls_table :: lock_table

definition init_sys :: lock_sys where
  "init_sys = \<lparr>ls_txns = Map.empty, ls_table = Map.empty\<rparr>"

text \<open>
  One step of the system: a transaction begins, asks for a lock, gives one up, commits or aborts
  (the change of its state; the releases are steps of their own), or does work that leaves its
  state and its locks alone. Record locks are taken through the two calls that also take the
  intention lock of the table.
\<close>

inductive lock_step :: "lock_sys \<Rightarrow> lock_sys \<Rightarrow> bool" where
  step_begin: "ls_txns s t = None \<Longrightarrow>
     lock_step s (s\<lparr>ls_txns := (ls_txns s)(t \<mapsto> (Transaction thr t)\<lparr>txn_state := GROWING\<rparr>)\<rparr>)"
| step_lock: "ls_txns s t = Some x \<Longrightarrow> lock_exec c (Some x, ls_table s) = (r, (Some x', tab)) \<Longrightarrow>
     lock_step s \<lparr>ls_txns = (ls_txns s)(t \<mapsto> x'), ls_table = tab\<rparr>"
| step_unlock: "ls_txns s t = Some x \<Longrightarrow> unlock lid (Some x, ls_table s) = (b, (Some x', tab)) \<Longrightarrow>
     lock_step s \<lparr>ls_txns = (ls_txns s)(t \<mapsto> x'), ls_table = tab\<rparr>"
| step_end: "ls_txns s t = Some x \<Longrightarrow> st \<in> {COMMITTED, ABORTED} \<Longrightarrow>
     lock_step s (s\<lparr>ls_txns := (ls_txns s)(t \<mapsto> x\<lparr>txn_state := st\<rparr>)\<rparr>)"
| step_work: "ls_txns s t = Some x \<Longrightarrow> txn_id x' = txn_id x \<Longrightarrow> txn_state x' = txn_state x \<Longrightarrow>
     lock_set x' = lock_set x \<Longrightarrow> lock_step s (s\<lparr>ls_txns := (ls_txns s)(t \<mapsto> x')\<rparr>)"

inductive_cases lock_stepE: "lock_step s s'"

text \<open>The intention discipline of a growing transaction.\<close>

definition intents_ok :: "lock_table \<Rightarrow> int \<Rightarrow> bool" where
  "intents_ok tab t \<longleftrightarrow> (\<forall>fd r m. held_mode tab t (record_id fd r) = Some m \<longrightarrow>
     (\<exists>g. held_mode tab t (table_id fd) = Some g \<and> (writes_all m \<longrightarrow> writes_in g)))"

definition txn_ok :: "lock_table \<Rightarrow> int \<Rightarrow> transaction \<Rightarrow> bool" where
  "txn_ok tab t x \<longleftrightarrow> txn_id x = t \<and> distinct (lock_set x) \<and>
     (\<forall>l. l \<in> set (lock_set x) \<longleftrightarrow> held_mode tab t l \<noteq> None) \<and>
     (txn_state x = GROWING \<longrightarrow> intents_ok tab t)"

definition sys_ok :: "lock_sys \<Rightarrow> bool" where
  "sys_ok s \<longleftrightarrow> table_locks_ok (ls_table s) \<and>
     (\<forall>t. ls_txns s t = None \<longrightarrow> (\<forall>l. held_mode (ls_table s) t l = None)) \<and>
     (\<forall>t x. ls_txns s t = Some x \<longrightarrow> txn_ok (ls_table s) t x)"

lemma ids_neq [simp]: "table_id fd \<noteq> record_id fd' r" "record_id fd' r \<noteq> table_id fd"
  "record_id fd r = record_id fd' r' \<longleftrightarrow> fd = fd' \<and> r = r'" "table_id fd = table_id fd' \<longleftrightarrow> fd = fd'"
  by (simp_all add: table_id_def record_id_def)

text \<open>The effect of one operation of transaction \<open>t\<close> on its own locks only.\<close>

definition own_locks_only :: "int \<Rightarrow> lock_table \<Rightarrow> lock_table \<Rightarrow> bool" where
  "own_locks_only t tab tab' \<longleftrightarrow>
     table_locks_ok tab' \<and> (\<forall>t' l. t' \<noteq> t \<longrightarrow> held_mode tab' t' l = held_mode tab t' l)"

lemma sys_ok_step:
  assumes "sys_ok s" and "ls_txns s t = Some x" and "own_locks_only t (ls_table s) tab"
    and "txn_ok tab t x'"
  shows "sys_ok \<lparr>ls_txns = (ls_txns s)(t \<mapsto> x'), ls_table = tab\<rparr>"
  using assms by (auto simp: sys_ok_def own_locks_only_def txn_ok_def intents_ok_def)

lemma combine_target_rights:
  "writes_all (target_mode tab t l m) \<longleftrightarrow>
     writes_all m \<or> (\<exists>h. held_mode tab t l = Some h \<and> writes_all h)"
  "writes_in (target_mode tab t l m) \<longleftrightarrow>
     writes_in m \<or> (\<exists>h. held_mode tab t l = Some h \<and> writes_in h)"
  by (auto simp: target_mode_def split: option.splits)

text \<open>
  A single request keeps the invariant of its transaction; for a record lock the intention lock
  of the table must be there.
\<close>

lemma request_lock_ok:
  assumes ok: "table_locks_ok tab" and x: "txn_ok tab t x"
    and rec: "\<And>fd r. lid = record_id fd r \<Longrightarrow> txn_state x = GROWING \<Longrightarrow>
      \<exists>g. held_mode tab t (table_id fd) = Some g \<and> (writes_all m \<longrightarrow> writes_in g)"
  obtains r x' tab' where "request_lock lid m (Some x, tab) = (r, (Some x', tab'))"
    and "own_locks_only t tab tab'" and "txn_ok tab' t x'" and "txn_state x' = txn_state x"
    and "\<And>l h. held_mode tab t l = Some h \<Longrightarrow> \<exists>h'. held_mode tab' t l = Some h'"
    and "txn_state x \<noteq> GROWING \<Longrightarrow> r = Inl (TransactionAbort t LOCK_ON_SHIRINKING) \<and> tab' = tab"
    and "r = Inr True \<Longrightarrow> held_mode tab' t lid = Some (target_mode tab t lid m)"
    and "r \<noteq> Inr True \<Longrightarrow> (\<exists>e. r = Inl e)"
proof (cases "txn_state x = GROWING")
  case False
  with that [of "Inl (TransactionAbort t LOCK_ON_SHIRINKING)" x tab] ok x show ?thesis
    by (auto simp: request_lock_late own_locks_only_def txn_ok_def)
next
  case gr: True
  have id: "txn_id x = t" and ls: "\<And>l. l \<in> set (lock_set x) \<longleftrightarrow> held_mode tab (txn_id x) l \<noteq> None"
    using x by (auto simp: txn_ok_def)
  note spec = request_lock_spec [OF ok gr ls, of lid m, unfolded id]
  show ?thesis
  proof (cases "blocked tab t lid m")
    case True
    with spec that [of "Inl (TransactionAbort t DEADLOCK_PREVENTION)" x tab] ok x gr show ?thesis
      by (auto simp: own_locks_only_def)
  next
    case False
    with spec obtain tab' where
      eq: "request_lock lid m (Some x, tab) = Ret True (Some (x\<lparr>lock_set := List.insert lid (lock_set x)\<rparr>), tab')"
      and ok': "table_locks_ok tab'"
      and held: "\<And>t' l. held_mode tab' t' l =
        (if t' = t \<and> l = lid then Some (target_mode tab t lid m) else held_mode tab t' l)"
      by auto
    have old: "intents_ok tab t" using x gr by (simp add: txn_ok_def)
    have "intents_ok tab' t"
      unfolding intents_ok_def
    proof (intro allI impI)
      fix fd r m' assume m': "held_mode tab' t (record_id fd r) = Some m'"
      consider "lid = record_id fd r" | "lid = table_id fd" | "lid \<noteq> record_id fd r" "lid \<noteq> table_id fd"
        by blast
      then show "\<exists>g. held_mode tab' t (table_id fd) = Some g \<and> (writes_all m' \<longrightarrow> writes_in g)"
      proof cases
        case 1
        with m' held have "m' = target_mode tab t lid m" by simp
        with 1 rec [OF 1 gr] old show ?thesis
          by (fastforce simp: held combine_target_rights intents_ok_def)
      next
        case 2
        with m' held have "held_mode tab t (record_id fd r) = Some m'" by simp
        with old obtain g where "held_mode tab t (table_id fd) = Some g" "writes_all m' \<longrightarrow> writes_in g"
          unfolding intents_ok_def by blast
        with 2 show ?thesis by (auto simp: held combine_target_rights)
      next
        case 3
        with m' held old show ?thesis by (auto simp: intents_ok_def)
      qed
    qed
    then have "txn_ok tab' t (x\<lparr>lock_set := List.insert lid (lock_set x)\<rparr>)"
      using x by (auto simp: txn_ok_def held)
    with eq ok' gr held show ?thesis
      by (intro that [OF eq]) (auto simp: own_locks_only_def)
  qed
qed

lemma own_locks_only_trans:
  "own_locks_only t a b \<Longrightarrow> own_locks_only t b c \<Longrightarrow> own_locks_only t a c"
  by (simp add: own_locks_only_def)

text \<open>The obligations of one call, collected for the step relation.\<close>

definition call_keeps :: "int \<Rightarrow> transaction \<Rightarrow> lock_table \<Rightarrow> (bool, lock_st) res \<Rightarrow> bool" where
  "call_keeps t x tab res \<longleftrightarrow> (\<exists>r x' tab'. res = (r, (Some x', tab')) \<and>
     own_locks_only t tab tab' \<and> txn_ok tab' t x' \<and> txn_state x' = txn_state x \<and>
     (\<forall>l h. held_mode tab t l = Some h \<longrightarrow> held_mode tab' t l \<noteq> None) \<and>
     (txn_state x \<noteq> GROWING \<longrightarrow> tab' = tab))"

lemma request_table_keeps:
  assumes "table_locks_ok tab" and "txn_ok tab t x"
  shows "call_keeps t x tab (request_lock (table_id fd) m (Some x, tab))"
  using assms by (rule request_lock_ok [of tab t x "table_id fd" m]) (auto simp: call_keeps_def)

lemma record_call_keeps:
  assumes ok: "table_locks_ok tab" and x: "txn_ok tab t x" and m: "writes_all m \<longrightarrow> writes_in im"
  shows "call_keeps t x tab (seqE (request_lock (table_id fd) im (Some x, tab))
    (\<lambda>_ st. request_lock (record_id fd rid) m st))"
proof (rule request_lock_ok [OF ok x, of "table_id fd" im])
  fix r x1 tab1
  assume eq: "request_lock (table_id fd) im (Some x, tab) = (r, (Some x1, tab1))"
    and own: "own_locks_only t tab tab1" and x1: "txn_ok tab1 t x1" and st: "txn_state x1 = txn_state x"
    and grow: "\<And>l h. held_mode tab t l = Some h \<Longrightarrow> \<exists>h'. held_mode tab1 t l = Some h'"
    and late: "txn_state x \<noteq> GROWING \<Longrightarrow> r = Inl (TransactionAbort t LOCK_ON_SHIRINKING) \<and> tab1 = tab"
    and got: "r = Inr True \<Longrightarrow> held_mode tab1 t (table_id fd) = Some (target_mode tab t (table_id fd) im)"
    and err: "r \<noteq> Inr True \<Longrightarrow> \<exists>e. r = Inl e"
  show ?thesis
  proof (cases "r = Inr True")
    case False
    with err obtain e where "r = Inl e" by blast
    with eq own x1 st grow late show ?thesis by (auto simp: call_keeps_def)
  next
    case True
    have ok1: "table_locks_ok tab1" using own by (simp add: own_locks_only_def)
    have gr: "txn_state x = GROWING" using late True by force
    have im: "\<exists>g. held_mode tab1 t (table_id fd) = Some g \<and> (writes_all m \<longrightarrow> writes_in g)"
      using got [OF True] m by (auto simp: combine_target_rights)
    show ?thesis
    proof (rule request_lock_ok [OF ok1 x1, of "record_id fd rid" m])
      fix r2 x2 tab2
      assume eq2: "request_lock (record_id fd rid) m (Some x1, tab1) = (r2, (Some x2, tab2))"
        and own2: "own_locks_only t tab1 tab2" and x2: "txn_ok tab2 t x2"
        and st2: "txn_state x2 = txn_state x1"
        and grow2: "\<And>l h. held_mode tab1 t l = Some h \<Longrightarrow> \<exists>h'. held_mode tab2 t l = Some h'"
      have "own_locks_only t tab tab2" using own own2 by (rule own_locks_only_trans)
      moreover have "\<forall>l h. held_mode tab t l = Some h \<longrightarrow> held_mode tab2 t l \<noteq> None"
        using grow grow2 by (metis option.distinct(1))
      ultimately show ?thesis
        using eq True eq2 x2 st st2 gr by (auto simp: call_keeps_def)
    qed (use im in auto)
  qed
qed auto

lemma lock_exec_keeps:
  assumes "table_locks_ok tab" and "txn_ok tab t x"
  shows "call_keeps t x tab (lock_exec c (Some x, tab))"
  using request_table_keeps [OF assms] record_call_keeps [OF assms]
  by (cases c) (simp_all add: lock_shared_on_record_def lock_exclusive_on_record_def
      lock_shared_on_table_def lock_exclusive_on_table_def lock_IS_on_table_def lock_IX_on_table_def
      right_defs)

lemma unlock_keeps:
  assumes ok: "table_locks_ok tab" and x: "txn_ok tab t x"
    and eq: "unlock lid (Some x, tab) = (b, (Some x', tab'))"
  shows "own_locks_only t tab tab'" and "txn_ok tab' t x'"
    and "held_mode tab' t l = (if l = lid then None else held_mode tab t l)"
    and "txn_state x' = (if held_mode tab t lid \<noteq> None \<and> txn_state x = GROWING then SHRINKING else txn_state x)"
    and "lock_set x' = remove1 lid (lock_set x)"
proof -
  have id: "txn_id x = t" and ls: "\<And>l. l \<in> set (lock_set x) \<longleftrightarrow> held_mode tab (txn_id x) l \<noteq> None"
    and d: "distinct (lock_set x)" and int: "txn_state x = GROWING \<Longrightarrow> intents_ok tab t"
    using x by (auto simp: txn_ok_def)
  from unlock_spec [OF ok ls, of lid] eq have
    x': "x' = x\<lparr>lock_set := remove1 lid (lock_set x), txn_state :=
       (if lid \<in> set (lock_set x) \<and> txn_state x = GROWING then SHRINKING else txn_state x)\<rparr>"
    and ok': "table_locks_ok tab'"
    and held: "\<And>t' l. held_mode tab' t' l = (if t' = t \<and> l = lid then None else held_mode tab t' l)"
    by (auto simp: id)
  show "own_locks_only t tab tab'" using ok' held by (simp add: own_locks_only_def)
  show "held_mode tab' t l = (if l = lid then None else held_mode tab t l)" by (simp add: held)
  show "txn_state x' = (if held_mode tab t lid \<noteq> None \<and> txn_state x = GROWING then SHRINKING else txn_state x)"
    using ls [of lid] id by (simp add: x')
  show "lock_set x' = remove1 lid (lock_set x)" by (simp add: x')
  have "intents_ok tab' t" if "txn_state x' = GROWING"
  proof -
    have "held_mode tab t lid = None" "txn_state x = GROWING"
      using that ls [of lid] id by (auto simp: x' split: if_splits)
    moreover from this have "held_mode tab' t = held_mode tab t" by (auto simp: held)
    ultimately show ?thesis using int by (simp add: intents_ok_def)
  qed
  then show "txn_ok tab' t x'"
    using d ls id by (auto simp: txn_ok_def x' held set_remove1_eq)
qed

lemma sys_okD:
  assumes "sys_ok s"
  shows "table_locks_ok (ls_table s)" and "ls_txns s t = Some x \<Longrightarrow> txn_ok (ls_table s) t x"
  using assms by (auto simp: sys_ok_def)

lemma sys_ok_table_same:
  assumes "sys_ok s" and "ls_txns s t = Some x" and "txn_ok (ls_table s) t x'"
  shows "sys_ok (s\<lparr>ls_txns := (ls_txns s)(t \<mapsto> x')\<rparr>)"
  using assms by (auto simp: sys_ok_def)

lemma lock_step_ok:
  assumes "lock_step s s'" and "sys_ok s"
  shows "sys_ok s'"
  using assms
proof (induction rule: lock_step.induct)
  case (step_begin s t thr)
  then show ?case by (auto simp: sys_ok_def txn_ok_def Transaction_def intents_ok_def)
next
  case (step_lock s t x c r x' tab)
  note d = sys_okD [OF step_lock.prems]
  from lock_exec_keeps [OF d(1) d(2) [OF step_lock.hyps(1)], of c] step_lock.hyps(2)
  have "own_locks_only t (ls_table s) tab" "txn_ok tab t x'" by (auto simp: call_keeps_def)
  with step_lock show ?case by (blast intro: sys_ok_step)
next
  case (step_unlock s t x lid b x' tab)
  note d = sys_okD [OF step_unlock.prems]
  show ?case
    using unlock_keeps(1,2) [OF d(1) d(2) [OF step_unlock.hyps(1)] step_unlock.hyps(2)] step_unlock
    by (blast intro: sys_ok_step)
next
  case (step_end s t x st)
  have "txn_ok (ls_table s) t (x\<lparr>txn_state := st\<rparr>)"
    using sys_okD(2) [OF step_end.prems step_end.hyps(1)] step_end.hyps(2) by (auto simp: txn_ok_def)
  with step_end show ?case by (blast intro: sys_ok_table_same)
next
  case (step_work s t x x')
  have "txn_ok (ls_table s) t x'"
    using sys_okD(2) [OF step_work.prems step_work.hyps(1)] step_work.hyps by (auto simp: txn_ok_def)
  with step_work show ?case by (blast intro: sys_ok_table_same)
qed

lemma sys_ok_init: "sys_ok init_sys"
  by (simp add: sys_ok_def init_sys_def table_locks_ok_def held_mode_def)

abbreviation lock_steps :: "lock_sys \<Rightarrow> lock_sys \<Rightarrow> bool" where
  "lock_steps \<equiv> lock_step\<^sup>*\<^sup>*"

lemma lock_steps_ok: "lock_steps s s' \<Longrightarrow> sys_ok s \<Longrightarrow> sys_ok s'"
  by (induction rule: rtranclp_induct) (auto intro: lock_step_ok)

lemmas reachable_ok = lock_steps_ok [OF _ sys_ok_init]

text \<open>How one step changes the locks and the phase of a transaction.\<close>

lemma lock_step_phase:
  assumes "lock_step s s'" and "sys_ok s" and "ls_txns s t = Some x"
  shows "\<exists>x'. ls_txns s' t = Some x' \<and> (txn_state x \<noteq> GROWING \<longrightarrow> txn_state x' \<noteq> GROWING \<and>
      (\<forall>l m. held_mode (ls_table s') t l = Some m \<longrightarrow> held_mode (ls_table s) t l = Some m)) \<and>
    (txn_state x' = GROWING \<longrightarrow>
      (\<forall>l. held_mode (ls_table s) t l \<noteq> None \<longrightarrow> held_mode (ls_table s') t l \<noteq> None))"
  using assms
proof (induction rule: lock_step.induct)
  case (step_lock s t' x1 c r x' tab)
  note d = sys_okD [OF step_lock.prems(1)]
  from lock_exec_keeps [OF d(1) d(2) [OF step_lock.hyps(1)], of c] step_lock.hyps(2)
  have "own_locks_only t' (ls_table s) tab" "txn_state x' = txn_state x1"
    "\<forall>l h. held_mode (ls_table s) t' l = Some h \<longrightarrow> held_mode tab t' l \<noteq> None"
    "txn_state x1 \<noteq> GROWING \<longrightarrow> tab = ls_table s" by (auto simp: call_keeps_def)
  with step_lock.prems(2) step_lock.hyps(1) show ?case
    by (cases "t' = t") (auto simp: own_locks_only_def)
next
  case (step_unlock s t' x1 lid b x' tab)
  note d = sys_okD [OF step_unlock.prems(1)]
  note k = unlock_keeps [OF d(1) d(2) [OF step_unlock.hyps(1)] step_unlock.hyps(2)]
  show ?case
    using step_unlock.prems(2) step_unlock.hyps(1) k(1) k(3,4)
    by (cases "t' = t") (auto simp: own_locks_only_def)
qed auto

lemma lock_steps_phase:
  assumes "lock_steps s s'" and "sys_ok s" and "ls_txns s t = Some x"
  shows "\<exists>x'. ls_txns s' t = Some x' \<and> (txn_state x \<noteq> GROWING \<longrightarrow> txn_state x' \<noteq> GROWING \<and>
      (\<forall>l m. held_mode (ls_table s') t l = Some m \<longrightarrow> held_mode (ls_table s) t l = Some m)) \<and>
    (txn_state x' = GROWING \<longrightarrow>
      (\<forall>l. held_mode (ls_table s) t l \<noteq> None \<longrightarrow> held_mode (ls_table s') t l \<noteq> None))"
  using assms
proof (induction rule: rtranclp_induct)
  case (step s1 s2)
  from step.IH [OF step.prems] obtain x1 where x1: "ls_txns s1 t = Some x1"
    and a: "txn_state x \<noteq> GROWING \<longrightarrow> txn_state x1 \<noteq> GROWING \<and>
      (\<forall>l m. held_mode (ls_table s1) t l = Some m \<longrightarrow> held_mode (ls_table s) t l = Some m)"
    and b: "txn_state x1 = GROWING \<longrightarrow>
      (\<forall>l. held_mode (ls_table s) t l \<noteq> None \<longrightarrow> held_mode (ls_table s1) t l \<noteq> None)" by blast
  have "sys_ok s1" using lock_steps_ok [OF step.hyps(1) step.prems(1)] .
  from lock_step_phase [OF step.hyps(2) this x1] a b show ?case by metis
qed auto

section \<open>Releasing everything\<close>

lemma release_locks_ok:
  assumes "table_locks_ok tab" and "txn_ok tab t x" and "set ls = set (lock_set x)" and "distinct ls"
  shows "\<exists>x' tab'. release_locks ls (Some x, tab) = (Some x', tab') \<and> own_locks_only t tab tab' \<and>
    txn_ok tab' t x' \<and> lock_set x' = [] \<and> (\<forall>l. held_mode tab' t l = None) \<and>
    x' = x\<lparr>lock_set := [], txn_state := (if txn_state x = GROWING \<and> ls \<noteq> [] then SHRINKING else txn_state x)\<rparr>"
  using assms
proof (induction ls arbitrary: x tab)
  case Nil
  then show ?case by (auto simp: own_locks_only_def txn_ok_def)
next
  case (Cons l ls)
  have mem: "l \<in> set (lock_set x)" using Cons.prems(3) by auto
  have id: "txn_id x = t" and ls: "\<And>l. l \<in> set (lock_set x) \<longleftrightarrow> held_mode tab (txn_id x) l \<noteq> None"
    and d: "distinct (lock_set x)" using Cons.prems(2) by (auto simp: txn_ok_def)
  let ?x1 = "x\<lparr>lock_set := remove1 l (lock_set x), txn_state :=
    (if txn_state x = GROWING then SHRINKING else txn_state x)\<rparr>"
  from unlock_spec [OF Cons.prems(1) ls, of l] mem obtain tab1
    where u: "unlock l (Some x, tab) = (True, (Some ?x1, tab1))" by auto
  note k = unlock_keeps [OF Cons.prems(1,2) u]
  have "table_locks_ok tab1" using k(1) by (simp add: own_locks_only_def)
  moreover have "set ls = set (lock_set ?x1)"
    using Cons.prems(3,4) d by (auto simp: set_remove1_eq)
  ultimately obtain x' tab' where r: "release_locks ls (Some ?x1, tab1) = (Some x', tab')"
    "own_locks_only t tab1 tab'" "txn_ok tab' t x'" "lock_set x' = []" "\<forall>l. held_mode tab' t l = None"
    "x' = ?x1\<lparr>lock_set := [], txn_state :=
       (if txn_state ?x1 = GROWING \<and> ls \<noteq> [] then SHRINKING else txn_state ?x1)\<rparr>"
    using Cons.IH [OF _ k(2)] Cons.prems(4) by auto
  moreover have "x' = x\<lparr>lock_set := [], txn_state := (if txn_state x = GROWING then SHRINKING else txn_state x)\<rparr>"
    using r(6) by (simp split: if_splits)
  ultimately show ?case using u own_locks_only_trans [OF k(1) r(2)] by (auto split: if_splits)
qed

section \<open>Properties\<close>

text \<open>
  The mode arithmetic of \<^verbatim>\<open>LockManager\<close> is consistent with the compatibility matrix: the
  matrix is symmetric, \<^verbatim>\<open>combine\<close> is symmetric, and a combined lock tolerates exactly what both of
  its parts tolerate, so an upgrade gives the weakest mode that covers both requests.
\<close>

theorem lock_combine_lub:
  "(compatible (combine a b) g \<longleftrightarrow> compatible a g \<and> compatible b g) \<and>
   compatible a b = compatible b a \<and> combine a b = combine b a"
proof (intro conjI)
  show "compatible (combine a b) g \<longleftrightarrow> compatible a g \<and> compatible b g" by (rule compatible_combine)
  show "compatible a b = compatible b a" by (rule compatible_sym)
  show "combine a b = combine b a" by (cases a; cases b) (simp_all add: lock_mode_defs)
qed

text \<open>
  Claim C18. The contract of a lock request of a growing transaction, in every reachable state: it is
  refused with a \<^verbatim>\<open>DEADLOCK_PREVENTION\<close> abort exactly when the mode combined with what the
  transaction already holds conflicts with a lock of another transaction, and then nothing changes;
  otherwise it returns at once, the transaction holds the combined mode, its lock set records the
  lock, and no other lock changes.
\<close>

theorem lock_request_contract:
  assumes "lock_steps init_sys s" and "ls_txns s t = Some x" and "txn_state x = GROWING"
  shows "if blocked (ls_table s) t lid m
    then request_lock lid m (Some x, ls_table s) =
           Throw (TransactionAbort t DEADLOCK_PREVENTION) (Some x, ls_table s)
    else \<exists>tab'. request_lock lid m (Some x, ls_table s) =
           Ret True (Some (x\<lparr>lock_set := List.insert lid (lock_set x)\<rparr>), tab') \<and>
         (\<forall>t' l. held_mode tab' t' l = (if t' = t \<and> l = lid
            then Some (target_mode (ls_table s) t lid m) else held_mode (ls_table s) t' l))"
proof -
  have ok: "sys_ok s" using assms(1) by (rule reachable_ok)
  have x: "txn_ok (ls_table s) t x" using sys_okD(2) [OF ok assms(2)] .
  then have "txn_id x = t" "\<And>l. l \<in> set (lock_set x) \<longleftrightarrow> held_mode (ls_table s) (txn_id x) l \<noteq> None"
    by (auto simp: txn_ok_def)
  from request_lock_spec [OF sys_okD(1) [OF ok] assms(3) this(2), of lid m] this(1)
  show ?thesis by (auto split: if_splits)
qed

text \<open>Two transactions, the first of which has locked table 7 exclusively.\<close>

definition two_txns :: lock_sys where
  "two_txns = init_sys\<lparr>ls_txns := [1 \<mapsto> (Transaction 0 1)\<lparr>txn_state := GROWING\<rparr>,
                                 2 \<mapsto> (Transaction 0 2)\<lparr>txn_state := GROWING\<rparr>]\<rparr>"

definition locked_table :: lock_sys where
  "locked_table = (case lock_exclusive_on_table 7 (ls_txns two_txns 1, ls_table two_txns) of
     (_, (Some x, tab)) \<Rightarrow> \<lparr>ls_txns = (ls_txns two_txns)(1 \<mapsto> x), ls_table = tab\<rparr> | _ \<Rightarrow> two_txns)"

lemma two_txns_reachable: "lock_steps init_sys two_txns"
proof -
  have "lock_step init_sys (init_sys\<lparr>ls_txns := [1 \<mapsto> (Transaction 0 1)\<lparr>txn_state := GROWING\<rparr>]\<rparr>)"
    using step_begin [of init_sys 1 0] by (simp add: init_sys_def)
  moreover have "lock_step (init_sys\<lparr>ls_txns := [1 \<mapsto> (Transaction 0 1)\<lparr>txn_state := GROWING\<rparr>]\<rparr>) two_txns"
    using step_begin [of "init_sys\<lparr>ls_txns := [1 \<mapsto> (Transaction 0 1)\<lparr>txn_state := GROWING\<rparr>]\<rparr>" 2 0]
    by (simp add: two_txns_def init_sys_def)
  ultimately show ?thesis by (blast intro: rtranclp_trans)
qed

lemma lock_example:
  "lock_exclusive_on_table 7 (ls_txns two_txns 1, ls_table two_txns) =
     Ret True (ls_txns locked_table 1, ls_table locked_table)"
  "ls_txns locked_table 1 = Some ((Transaction 0 1)\<lparr>txn_state := GROWING, lock_set := [table_id 7]\<rparr>)"
  "ls_txns locked_table 2 = Some ((Transaction 0 2)\<lparr>txn_state := GROWING\<rparr>)"
  "held_mode (ls_table locked_table) 1 (table_id 7) = Some EXLUCSIVE"
  by (simp_all add: locked_table_def two_txns_def init_sys_def lock_exclusive_on_table_def
      request_lock_def Transaction_def new_queue_def grant_def held_mode_def queue_modes_def Let_def)

lemma locked_table_reachable: "lock_steps init_sys locked_table"
proof -
  have x: "ls_txns two_txns 1 = Some ((Transaction 0 1)\<lparr>txn_state := GROWING\<rparr>)"
    by (simp add: two_txns_def)
  let ?x' = "(Transaction 0 1)\<lparr>txn_state := GROWING, lock_set := [table_id 7]\<rparr>"
  have e: "lock_exec (LockExclusiveTable 7) (Some ((Transaction 0 1)\<lparr>txn_state := GROWING\<rparr>), ls_table two_txns)
      = (Inr True, (Some ?x', ls_table locked_table))"
    using lock_example(1,2) x by simp
  have "locked_table = \<lparr>ls_txns = (ls_txns two_txns)(1 \<mapsto> ?x'), ls_table = ls_table locked_table\<rparr>"
    by (simp add: locked_table_def two_txns_def init_sys_def lock_exclusive_on_table_def
      request_lock_def Transaction_def new_queue_def grant_def Let_def)
  with step_lock [OF x e] have "lock_step two_txns locked_table" by metis
  with two_txns_reachable show ?thesis by simp
qed

theorem lock_request_contract_witness:
  "request_lock (table_id 7) SHARED (ls_txns locked_table 2, ls_table locked_table) =
     Throw (TransactionAbort 2 DEADLOCK_PREVENTION) (ls_txns locked_table 2, ls_table locked_table)"
proof -
  have "\<not> compatible m EXLUCSIVE" for m by (cases m) (simp_all add: lock_mode_defs)
  with lock_example(4) have "blocked (ls_table locked_table) 2 (table_id 7) SHARED"
    unfolding blocked_def by (intro exI [of _ 1] exI [of _ EXLUCSIVE]) simp
  with lock_request_contract [OF locked_table_reachable lock_example(3), of "table_id 7" SHARED]
  show ?thesis by (simp add: lock_example(3) Transaction_def)
qed

text \<open>What a transaction may do with a record, through a lock on the record or on its table.\<close>

definition may_read :: "lock_table \<Rightarrow> int \<Rightarrow> int \<Rightarrow> rid \<Rightarrow> bool" where
  "may_read tab t fd r \<longleftrightarrow>
     (\<exists>m. held_mode tab t (record_id fd r) = Some m \<and> reads_all m) \<or>
     (\<exists>m. held_mode tab t (table_id fd) = Some m \<and> reads_all m)"

definition may_write :: "lock_table \<Rightarrow> int \<Rightarrow> int \<Rightarrow> rid \<Rightarrow> bool" where
  "may_write tab t fd r \<longleftrightarrow>
     (\<exists>m. held_mode tab t (record_id fd r) = Some m \<and> writes_all m) \<or>
     (\<exists>m. held_mode tab t (table_id fd) = Some m \<and> writes_all m)"

text \<open>
  Claim C15. Isolation across granularities: in every state that any interleaving of transactions
  reaches, while a growing transaction holds the right to write a record (an exclusive lock on the
  record or on its table), no other growing transaction holds the right to read or write it.
\<close>

theorem lock_isolation:
  assumes "lock_steps init_sys s" and "ls_txns s t1 = Some x1" and "ls_txns s t2 = Some x2"
    and "txn_state x1 = GROWING" and "txn_state x2 = GROWING" and "t1 \<noteq> t2"
    and "may_write (ls_table s) t1 fd r"
  shows "\<not> may_read (ls_table s) t2 fd r \<and> \<not> may_write (ls_table s) t2 fd r"
proof -
  have ok: "sys_ok s" using assms(1) by (rule reachable_ok)
  note compat = held_compatible [OF sys_okD(1) [OF ok] assms(6)]
  have int: "intents_ok (ls_table s) t1" "intents_ok (ls_table s) t2"
    using sys_okD(2) [OF ok] assms(2-5) by (auto simp: txn_ok_def)
  have wr: "writes_all m \<Longrightarrow> reads_all m" "writes_all m \<Longrightarrow> writes_in m" for m
    by (auto simp: right_defs)
  have "\<not> may_read (ls_table s) t2 fd r"
  proof
    assume "may_read (ls_table s) t2 fd r"
    then consider m where "held_mode (ls_table s) t2 (record_id fd r) = Some m" "reads_all m"
      | m where "held_mode (ls_table s) t2 (table_id fd) = Some m" "reads_all m"
      by (auto simp: may_read_def)
    then obtain g2 where g2: "held_mode (ls_table s) t2 (table_id fd) = Some g2"
      using int(2) unfolding intents_ok_def by cases blast+
    have "\<exists>g1. held_mode (ls_table s) t1 (table_id fd) = Some g1 \<and> writes_in g1"
      using assms(7) int(1) wr(2) unfolding may_write_def intents_ok_def by blast
    then obtain g1 where g1: "held_mode (ls_table s) t1 (table_id fd) = Some g1" "writes_in g1" by blast
    with compat g2 rights_conflict have "\<not> reads_all g2" "\<not> writes_all g1" by blast+
    then obtain m1 m2 where "held_mode (ls_table s) t1 (record_id fd r) = Some m1" "writes_all m1"
      "held_mode (ls_table s) t2 (record_id fd r) = Some m2" "reads_all m2"
      using assms(7) \<open>may_read (ls_table s) t2 fd r\<close> g1 g2 by (auto simp: may_read_def may_write_def)
    with compat rights_conflict(2) show False by blast
  qed
  moreover have "may_write (ls_table s) t2 fd r \<Longrightarrow> may_read (ls_table s) t2 fd r"
    using wr(1) by (auto simp: may_read_def may_write_def)
  ultimately show ?thesis by blast
qed

theorem lock_isolation_witness:
  "may_write (ls_table locked_table) 1 7 (Rid 1 0) \<and> \<not> may_read (ls_table locked_table) 2 7 (Rid 1 0)"
proof -
  have "may_write (ls_table locked_table) 1 7 (Rid 1 0)"
    using lock_example(4) by (auto simp: may_write_def right_defs)
  with lock_isolation [OF locked_table_reachable lock_example(2,3), of 7 "Rid 1 0"] show ?thesis by simp
qed



text \<open>
  The release loop of commit and abort, run over the lock set of a transaction in any
  reachable state, leaves the transaction without locks and with an empty lock set, in whatever
  order the set is enumerated, and does not touch the locks of any other transaction.
\<close>

theorem lock_release_all:
  assumes "lock_steps init_sys s" and "ls_txns s t = Some x"
    and "set ls = set (lock_set x)" and "distinct ls"
  shows "\<exists>x' tab'. release_locks ls (Some x, ls_table s) = (Some x', tab') \<and> lock_set x' = [] \<and>
    (\<forall>t' l. held_mode tab' t' l = (if t' = t then None else held_mode (ls_table s) t' l))"
proof -
  have ok: "sys_ok s" using assms(1) by (rule reachable_ok)
  from release_locks_ok [OF sys_okD(1) [OF ok] sys_okD(2) [OF ok assms(2)] assms(3,4)]
  obtain x' tab' where "release_locks ls (Some x, ls_table s) = (Some x', tab')" "lock_set x' = []"
    "own_locks_only t (ls_table s) tab'" "\<forall>l. held_mode tab' t l = None" by blast
  then show ?thesis by (intro exI [of _ x'] exI [of _ tab']) (simp add: own_locks_only_def)
qed

theorem lock_release_all_witness:
  "\<exists>x' tab'. release_locks [table_id 7] (ls_txns locked_table 1, ls_table locked_table) = (Some x', tab') \<and>
    held_mode tab' 1 (table_id 7) = None"
  using lock_release_all [OF locked_table_reachable lock_example(2), of "[table_id 7]"] lock_example(2)
  by auto

section \<open>Progress\<close>

text \<open>Transactions end one after the other, each giving up its locks with the release loop of commit and abort.\<close>

definition end_txn :: "int \<Rightarrow> lock_sys \<Rightarrow> lock_sys" where
  "end_txn t s =
     (case ls_txns s t of
        None \<Rightarrow> s
      | Some x \<Rightarrow>
          (case release_locks (lock_set x) (Some x, ls_table s) of
             (Some x', tab) \<Rightarrow> \<lparr>ls_txns = (ls_txns s)(t \<mapsto> x'\<lparr>txn_state := COMMITTED\<rparr>), ls_table = tab\<rparr>
           | (None, tab) \<Rightarrow> s))"

lemma end_txn_ok:
  assumes "sys_ok s"
  shows "sys_ok (end_txn t s)" and "t' \<noteq> t \<Longrightarrow> ls_txns (end_txn t s) t' = ls_txns s t'"
    and "held_mode (ls_table (end_txn t s)) t' l = (if t' = t then None else held_mode (ls_table s) t' l)"
proof (atomize (full), cases "ls_txns s t")
  case None
  with assms show "sys_ok (end_txn t s) \<and> (t' \<noteq> t \<longrightarrow> ls_txns (end_txn t s) t' = ls_txns s t') \<and>
      held_mode (ls_table (end_txn t s)) t' l = (if t' = t then None else held_mode (ls_table s) t' l)"
    by (simp add: end_txn_def sys_ok_def)
next
  case (Some x)
  note x = sys_okD(2) [OF assms Some]
  then have "distinct (lock_set x)" by (simp add: txn_ok_def)
  from release_locks_ok [OF sys_okD(1) [OF assms] x refl this] obtain x' tab where
    r: "release_locks (lock_set x) (Some x, ls_table s) = (Some x', tab)" "own_locks_only t (ls_table s) tab" "txn_ok tab t x'"
    "\<forall>l. held_mode tab t l = None" by blast
  then have "txn_ok tab t (x'\<lparr>txn_state := COMMITTED\<rparr>)" by (simp add: txn_ok_def)
  with sys_ok_step [OF assms Some r(2)] r show "sys_ok (end_txn t s) \<and> (t' \<noteq> t \<longrightarrow> ls_txns (end_txn t s) t' = ls_txns s t') \<and>
      held_mode (ls_table (end_txn t s)) t' l = (if t' = t then None else held_mode (ls_table s) t' l)"
    by (auto simp: end_txn_def Some own_locks_only_def)
qed

lemma end_txns_ok:
  assumes "sys_ok s"
  shows "sys_ok (fold end_txn ts s) \<and> (t \<notin> set ts \<longrightarrow> ls_txns (fold end_txn ts s) t = ls_txns s t) \<and>
    (\<forall>l. held_mode (ls_table (fold end_txn ts s)) t l = (if t \<in> set ts then None else held_mode (ls_table s) t l))"
  using assms
proof (induction ts arbitrary: s)
  case (Cons u ts)
  from Cons.IH [OF end_txn_ok(1) [OF Cons.prems, of u]] end_txn_ok(2,3) [OF Cons.prems] show ?case by auto
qed simp

text \<open>
  Claim C39. Locks are not lost: whatever an interleaving of transactions has done, a growing transaction whose request is
  refused gets the lock once the transactions that stand in its way have ended, in whatever order; a request nobody stands
  in the way of is granted at once. Between the two nothing else has to happen.
\<close>

theorem lock_granted_after_end:
  assumes "lock_steps init_sys s" and "ls_txns s t = Some x" and "txn_state x = GROWING" and "t \<notin> set ts"
    and "\<forall>t' g. t' \<noteq> t \<longrightarrow> held_mode (ls_table s) t' lid = Some g \<longrightarrow> \<not> compatible (target_mode (ls_table s) t lid m) g \<longrightarrow> t' \<in> set ts"
  shows "\<exists>tab'. request_lock lid m (Some x, ls_table (fold end_txn ts s)) =
    Ret True (Some (x\<lparr>lock_set := List.insert lid (lock_set x)\<rparr>), tab') \<and>
    held_mode tab' t lid = Some (target_mode (ls_table s) t lid m)"
proof -
  let ?s = "fold end_txn ts s"
  note e = end_txns_ok [OF reachable_ok [OF assms(1)], of ts]
  have ok: "sys_ok ?s" and tx: "ls_txns ?s t = Some x" using e [of t] assms(2,4) by simp_all
  have x: "txn_id x = t" "\<And>l. l \<in> set (lock_set x) \<longleftrightarrow> held_mode (ls_table ?s) (txn_id x) l \<noteq> None"
    using sys_okD(2) [OF ok tx] by (auto simp: txn_ok_def)
  have tm: "target_mode (ls_table ?s) t lid m = target_mode (ls_table s) t lid m"
    using e [of t] assms(4) by (simp add: target_mode_def)
  have "\<not> blocked (ls_table ?s) t lid m" unfolding blocked_def tm using e assms(5) by (auto split: if_splits)
  with request_lock_spec [OF sys_okD(1) [OF ok] assms(3) x(2), of lid m] x(1) tm show ?thesis by (auto split: if_splits)
qed

theorem lock_granted_after_end_witness:
  "\<exists>tab'. request_lock (table_id 7) SHARED (ls_txns locked_table 2, ls_table (fold end_txn [1] locked_table)) =
     Ret True (Some ((Transaction 0 2)\<lparr>txn_state := GROWING, lock_set := [table_id 7]\<rparr>), tab') \<and>
     held_mode tab' 2 (table_id 7) = Some SHARED"
proof -
  have h: "held_mode (ls_table locked_table) t (table_id 7) = (if t = 1 then Some EXLUCSIVE else None)" for t
    by (simp add: locked_table_def two_txns_def init_sys_def lock_exclusive_on_table_def request_lock_def Transaction_def
        new_queue_def grant_def held_mode_def queue_modes_def own_request_def Let_def)
  have "target_mode (ls_table locked_table) 2 (table_id 7) SHARED = SHARED" by (simp add: target_mode_def h)
  with lock_granted_after_end [OF locked_table_reachable lock_example(3), of "[1]" "table_id 7" SHARED] show ?thesis
    by (auto simp: lock_example(3) h Transaction_def split: if_splits)
qed

end
