(* ===== verification/Floats.thy ===== *)
theory Floats
  imports Bytes "HOL-Library.Signed_Division"
begin

text \<open>
  IEEE 754 numbers as far as the program uses \<^verbatim>\<open>float\<close> and \<^verbatim>\<open>double\<close>: the value of a 32-bit
  pattern, comparison, the conversions between integers, \<^verbatim>\<open>float\<close> and \<^verbatim>\<open>double\<close> rounding to
  nearest with ties to even, and addition of \<^verbatim>\<open>double\<close>s. Everything is integer arithmetic on
  dyadic numbers, so it evaluates.
\<close>

datatype fp = NaN | Inf bool | Fin bool nat int

text \<open>\<open>Fin neg m e\<close> stands for the number \<open>m * 2 ^ e\<close>, negated when \<open>neg\<close> holds.\<close>

definition dec_f32 :: "32 word \<Rightarrow> fp" where
  "dec_f32 w =
     (let n = unat w; neg = (2 ^ 31 \<le> n); e = n div 2 ^ 23 mod 2 ^ 8; m = n mod 2 ^ 23 in
      if e = 255 then (if m = 0 then Inf neg else NaN)
      else if e = 0 then Fin neg m (-149)
      else Fin neg (m + 2 ^ 23) (int e - 150))"

definition get_f32 :: "bytes \<Rightarrow> nat \<Rightarrow> fp" where
  "get_f32 bs off = dec_f32 (get_u32 bs off)"

section \<open>Comparison\<close>

definition signed_mant :: "bool \<Rightarrow> nat \<Rightarrow> int" where
  "signed_mant neg m = (if neg then - int m else int m)"

text \<open>The mantissa of a finite number when its exponent is lowered to \<open>k\<close>.\<close>

definition mant_at :: "int \<Rightarrow> bool \<Rightarrow> nat \<Rightarrow> int \<Rightarrow> int" where
  "mant_at k neg m e = signed_mant neg m * 2 ^ nat (e - k)"

fun fp_less :: "fp \<Rightarrow> fp \<Rightarrow> bool" where
  "fp_less (Fin s m e) (Fin s' m' e') =
     (mant_at (min e e') s m e < mant_at (min e e') s' m' e')"
| "fp_less (Fin s m e) (Inf s') = (\<not> s')"
| "fp_less (Inf s) (Fin s' m e) = s"
| "fp_less (Inf s) (Inf s') = (s \<and> \<not> s')"
| "fp_less NaN y = False"
| "fp_less (Fin s m e) NaN = False"
| "fp_less (Inf s) NaN = False"

section \<open>Rounding\<close>

fun nbits :: "nat \<Rightarrow> nat" where
  "nbits n = (if n = 0 then 0 else Suc (nbits (n div 2)))"

declare nbits.simps [simp del]

text \<open>Rounding \<open>m * 2 ^ e\<close> to \<open>p\<close> bits and to exponents of at least \<open>emin\<close>.\<close>

definition round_mant :: "nat \<Rightarrow> int \<Rightarrow> nat \<Rightarrow> int \<Rightarrow> nat \<times> int" where
  "round_mant p emin m e =
     (let e' = max (e + int (nbits m) - int p) emin in
      if e' \<le> e then (m * 2 ^ nat (e - e'), e')
      else let k = nat (e' - e); q = m div 2 ^ k; r = m mod 2 ^ k; half = 2 ^ (k - 1) in
           (if r > half \<or> r = half \<and> odd q then (q + 1, e') else (q, e')))"

text \<open>\<open>emax\<close> is the first power of two that overflows.\<close>

definition round_fp :: "nat \<Rightarrow> int \<Rightarrow> int \<Rightarrow> bool \<Rightarrow> nat \<Rightarrow> int \<Rightarrow> fp" where
  "round_fp p emin emax neg m e =
     (case round_mant p emin m e of (q, e') \<Rightarrow>
        if int (nbits q) + e' > emax then Inf neg else Fin neg q e')"

definition round_f64 :: "bool \<Rightarrow> nat \<Rightarrow> int \<Rightarrow> fp" where
  "round_f64 = round_fp 53 (-1074) 1024"

definition round_f32 :: "bool \<Rightarrow> nat \<Rightarrow> int \<Rightarrow> fp" where
  "round_f32 = round_fp 24 (-149) 128"

fun to_f32 :: "fp \<Rightarrow> fp" where
  "to_f32 (Fin neg m e) = round_f32 neg m e"
| "to_f32 x = x"

definition f32_of_int :: "int \<Rightarrow> fp" where
  "f32_of_int i = round_f32 (i < 0) (nat \<bar>i\<bar>) 0"

definition f64_of_int :: "int \<Rightarrow> fp" where
  "f64_of_int i = round_f64 (i < 0) (nat \<bar>i\<bar>) 0"

text \<open>
  Addition of two doubles. The sum of finite numbers is exact before it is rounded; an exact
  zero is positive unless both arguments are negative zeros.
\<close>

fun f64_add :: "fp \<Rightarrow> fp \<Rightarrow> fp" where
  "f64_add (Fin s m e) (Fin s' m' e') =
     (let k = min e e'; v = mant_at k s m e + mant_at k s' m' e' in
      round_f64 (if v = 0 then s \<and> s' else v < 0) (nat \<bar>v\<bar>) k)"
| "f64_add (Inf s) (Inf s') = (if s = s' then Inf s else NaN)"
| "f64_add (Inf s) (Fin _ _ _) = Inf s"
| "f64_add (Fin _ _ _) (Inf s) = Inf s"
| "f64_add NaN y = NaN"
| "f64_add (Fin s m e) NaN = NaN"
| "f64_add (Inf s) NaN = NaN"

text \<open>
  Conversion to a 32-bit integer truncates towards zero. What does not fit, undefined in C++, gives
  the smallest integer, as the conversion instruction of the target does.
\<close>

fun i32_of_fp :: "fp \<Rightarrow> int" where
  "i32_of_fp (Fin neg m e) =
     (let q = (if 0 \<le> e then int m * 2 ^ nat e else int m div 2 ^ nat (- e));
          v = (if neg then - q else q)
      in if is_i32 v then v else - (2 ^ 31))"
| "i32_of_fp _ = - (2 ^ 31)"

text \<open>The pattern of a number that has been rounded to 24 bits.\<close>

fun enc_f32 :: "fp \<Rightarrow> 32 word" where
  "enc_f32 NaN = 0x7FC00000"
| "enc_f32 (Inf neg) = (if neg then 0xFF800000 else 0x7F800000)"
| "enc_f32 (Fin neg m e) =
     (let k = int (nbits m) + e - 24; e' = max k (-149);
          m' = (if e' \<le> e then m * 2 ^ nat (e - e') else m div 2 ^ nat (e' - e));
          body = (if m' < 2 ^ 23 then int m' else (e' + 149) * 2 ^ 23 + int m')
      in word_of_int (body + (if neg then 2 ^ 31 else 0)))"

definition FLT_MAX :: fp where
  "FLT_MAX = Fin False (2 ^ 24 - 1) 104"

section \<open>Integers that fit are exact\<close>

lemma nbits_bound: "m < 2 ^ nbits m"
proof (induction m rule: nbits.induct)
  case (1 m)
  show ?case
  proof (cases "m = 0")
    case False
    with 1 have "m div 2 < 2 ^ nbits (m div 2)" by simp
    then have "m < 2 * 2 ^ nbits (m div 2)" by linarith
    with False show ?thesis by (simp add: nbits.simps [of m])
  qed (simp add: nbits.simps)
qed

lemma nbits_le: "m < 2 ^ k \<Longrightarrow> nbits m \<le> k"
proof (induction m arbitrary: k rule: nbits.induct)
  case (1 m)
  show ?case
  proof (cases "m = 0")
    case False
    with 1(2) obtain k' where k: "k = Suc k'" by (cases k) auto
    with 1(2) have "m div 2 < 2 ^ k'" by auto
    with 1(1) False k show ?thesis by (simp add: nbits.simps [of m])
  qed (simp add: nbits.simps)
qed

lemma nbits_mult_pow: "m \<noteq> 0 \<Longrightarrow> nbits (m * 2 ^ j) = nbits m + j"
proof (induction j)
  case (Suc j)
  then have "nbits (m * 2 ^ Suc j) = Suc (nbits (m * 2 ^ Suc j div 2))"
    by (subst nbits.simps) simp
  also have "m * 2 ^ Suc j div 2 = m * 2 ^ j" by simp
  finally show ?case using Suc by simp
qed simp

definition int_fp :: "int \<Rightarrow> fp \<Rightarrow> bool" where
  "int_fp v x \<longleftrightarrow> (\<exists>neg m e. x = Fin neg m e \<and> -1074 \<le> e \<and> e \<le> 0 \<and>
     signed_mant neg m = v * 2 ^ nat (- e))"

text \<open>The number \<open>x\<close> is the integer \<open>v\<close>, with a non-positive exponent.\<close>

lemma pow_split: "b \<le> a \<Longrightarrow> (2 :: nat) ^ nat a = 2 ^ nat b * 2 ^ nat (a - b)" if "0 \<le> b" for a b :: int
  using that by (simp add: power_add [symmetric] nat_add_distrib [symmetric])

lemma round_mant_int:
  assumes "0 < n" and "n < 2 ^ 53" and "-1074 \<le> k" and "k \<le> 0"
  shows "round_mant 53 (-1074) (n * 2 ^ nat (- k)) k =
    (n * 2 ^ nat (53 - int (nbits n)), int (nbits n) - 53)"
proof -
  let ?e = "int (nbits n) - 53"
  have nb: "nbits n \<le> 53" using nbits_le assms(2) by blast
  have bits: "int (nbits (n * 2 ^ nat (- k))) = int (nbits n) - k"
    using nbits_mult_pow [of n "nat (- k)"] assms by simp
  then have e: "max (k + int (nbits (n * 2 ^ nat (- k))) - int 53) (-1074) = ?e"
    using nb by simp
  show ?thesis
  proof (cases "?e \<le> k")
    case True
    have "(2 :: nat) ^ nat (53 - int (nbits n)) = 2 ^ nat (- k) * 2 ^ nat (k - ?e)"
      using pow_split [of "- k" "53 - int (nbits n)"] True assms(4) by (simp add: algebra_simps)
    with True e show ?thesis by (simp add: round_mant_def Let_def)
  next
    case False
    have split: "(2 :: nat) ^ nat (- k) = 2 ^ nat (53 - int (nbits n)) * 2 ^ nat (?e - k)"
      using pow_split [of "53 - int (nbits n)" "- k"] False nb by (simp add: algebra_simps)
    have "n * 2 ^ nat (- k) div 2 ^ nat (?e - k) = n * 2 ^ nat (53 - int (nbits n))"
      "n * 2 ^ nat (- k) mod 2 ^ nat (?e - k) = 0"
      unfolding split by (simp_all add: mult.assoc [symmetric])
    with False e show ?thesis by (simp add: round_mant_def Let_def)
  qed
qed

lemma round_f64_int:
  assumes "\<bar>v\<bar> < 2 ^ 53" and "-1074 \<le> k" and "k \<le> 0" and "v \<noteq> 0 \<longrightarrow> neg = (v < 0)"
  shows "int_fp v (round_f64 neg (nat \<bar>v\<bar> * 2 ^ nat (- k)) k)"
proof (cases "v = 0")
  case True
  then show ?thesis
    using assms(2,3)
    by (auto simp: round_f64_def round_fp_def round_mant_def int_fp_def signed_mant_def nbits.simps max_def)
next
  case False
  let ?n = "nat \<bar>v\<bar>"
  have n: "0 < ?n" "?n < 2 ^ 53" using False assms(1) by auto
  have nb: "nbits ?n \<le> 53" using nbits_le n(2) by blast
  have bits: "int (nbits (?n * 2 ^ nat (53 - int (nbits ?n)))) + (int (nbits ?n) - 53) = int (nbits ?n)"
    using nbits_mult_pow [of ?n "nat (53 - int (nbits ?n))"] n(1) nb by simp
  have "round_f64 neg (?n * 2 ^ nat (- k)) k =
      Fin neg (?n * 2 ^ nat (53 - int (nbits ?n))) (int (nbits ?n) - 53)"
    unfolding round_f64_def round_fp_def round_mant_int [OF n assms(2,3)] using bits nb by simp
  moreover have "signed_mant neg (?n * j) = v * int j" for j
    using assms(4) False by (simp add: signed_mant_def)
  ultimately show ?thesis
    unfolding int_fp_def using nb
    by (intro exI conjI) (auto simp: minus_diff_eq)
qed

lemma f64_of_int_exact: "\<bar>v\<bar> < 2 ^ 53 \<Longrightarrow> int_fp v (f64_of_int v)"
  using round_f64_int [of v 0 "v < 0"] by (simp add: f64_of_int_def)

lemma f64_add_exact:
  assumes "int_fp a x" and "int_fp b y" and "\<bar>a + b\<bar> < 2 ^ 53"
  shows "int_fp (a + b) (f64_add x y)"
proof -
  from assms obtain s m e s' m' e' where x: "x = Fin s m e" "-1074 \<le> e" "e \<le> 0"
    "signed_mant s m = a * 2 ^ nat (- e)" and y: "y = Fin s' m' e'" "-1074 \<le> e'" "e' \<le> 0"
    "signed_mant s' m' = b * 2 ^ nat (- e')"
    by (auto simp: int_fp_def)
  let ?k = "min e e'"
  have at: "mant_at ?k s m e = a * 2 ^ nat (- ?k)" "mant_at ?k s' m' e' = b * 2 ^ nat (- ?k)"
    using x y by (auto simp: mant_at_def power_add [symmetric] mult.assoc nat_add_distrib [symmetric])
  then have v: "mant_at ?k s m e + mant_at ?k s' m' e' = (a + b) * 2 ^ nat (- ?k)"
    by (simp add: algebra_simps)
  have "nat \<bar>(a + b) * 2 ^ nat (- ?k)\<bar> = nat \<bar>a + b\<bar> * 2 ^ nat (- ?k)"
    by (simp add: abs_mult nat_mult_distrib nat_power_eq)
  with v have "f64_add x y = round_f64 (if (a + b) * 2 ^ nat (- ?k) = 0 then s \<and> s'
      else (a + b) * 2 ^ nat (- ?k) < 0) (nat \<bar>a + b\<bar> * 2 ^ nat (- ?k)) ?k"
    unfolding x(1) y(1) f64_add.simps Let_def by simp
  then show ?thesis
    using round_f64_int [OF assms(3), of ?k] x y by (simp add: mult_less_0_iff)
qed

lemma i32_of_int_fp:
  assumes "int_fp v x" and "is_i32 v"
  shows "i32_of_fp x = v"
proof -
  from assms(1) obtain s m e where x: "x = Fin s m e" "e \<le> 0" "signed_mant s m = v * 2 ^ nat (- e)"
    by (auto simp: int_fp_def)
  have "int m = \<bar>v\<bar> * 2 ^ nat (- e)"
    using arg_cong [OF x(3), of abs] by (simp add: signed_mant_def abs_mult split: if_splits)
  then have q: "int m div 2 ^ nat (- e) = \<bar>v\<bar>" by simp
  have pos: "(0 :: int) < 2 ^ nat (- e)" by simp
  have "s \<Longrightarrow> v * 2 ^ nat (- e) \<le> 0" "\<not> s \<Longrightarrow> 0 \<le> v * 2 ^ nat (- e)"
    using x(3) by (auto simp: signed_mant_def)
  then have sgn: "s \<Longrightarrow> v \<le> 0" "\<not> s \<Longrightarrow> 0 \<le> v"
    using pos by (auto simp: mult_le_0_iff zero_le_mult_iff)
  show ?thesis
    using x(1,2) q sgn assms(2) by (cases s) (auto simp: Let_def)
qed

end
