(* ===== verification/Values.thy ===== *)
theory Values
  imports Floats
begin

text \<open>
  Column types, values, dates and conditions: \<^verbatim>\<open>defs.h\<close> and \<^verbatim>\<open>common/common.h\<close>. Strings are lists of
  characters; their bytes are the codes of the characters. A \<^verbatim>\<open>Value\<close> is its tagged payload and
  the raw buffer \<^verbatim>\<open>init_raw\<close> fills; the members of the union that the tag does not select are never
  read by the program and have no counterpart.
\<close>

datatype col_type = TYPE_INT | TYPE_FLOAT | TYPE_STRING | TYPE_BIGINT | TYPE_DATETIME

fun coltype2str :: "col_type \<Rightarrow> string" where
  "coltype2str TYPE_INT = ''INT''"
| "coltype2str TYPE_FLOAT = ''FLOAT''"
| "coltype2str TYPE_STRING = ''STRING''"
| "coltype2str TYPE_BIGINT = ''BIGINT''"
| "coltype2str TYPE_DATETIME = ''DATETIME''"

section \<open>Decimal numbers\<close>

definition digit_char :: "nat \<Rightarrow> char" where
  "digit_char n = char_of (48 + n)"

definition is_digit :: "char \<Rightarrow> bool" where
  "is_digit c \<longleftrightarrow> 48 \<le> (of_char c :: nat) \<and> (of_char c :: nat) \<le> 57"

definition digit_val :: "char \<Rightarrow> int" where
  "digit_val c = int (of_char c) - 48"

fun nat_str :: "nat \<Rightarrow> string" where
  "nat_str n = (if n < 10 then [digit_char n] else nat_str (n div 10) @ [digit_char (n mod 10)])"

declare nat_str.simps [simp del]

definition int_str :: "int \<Rightarrow> string" where
  "int_str i = (if i < 0 then CHR ''-'' # nat_str (nat (- i)) else nat_str (nat i))"

text \<open>Output with \<^verbatim>\<open>setfill('0')\<close> and \<^verbatim>\<open>setw(w)\<close>.\<close>

definition pad0 :: "nat \<Rightarrow> string \<Rightarrow> string" where
  "pad0 w s = replicate (w - length s) (CHR ''0'') @ s"

section \<open>Dates\<close>

definition is_leap_year :: "int \<Rightarrow> bool" where
  "is_leap_year year \<longleftrightarrow> (year smod 4 = 0 \<and> year smod 100 \<noteq> 0) \<or> year smod 400 = 0"

definition kDays :: "int list" where
  "kDays = [0, 31, 28, 31, 30, 31, 30, 31, 31, 30, 31, 30, 31]"

definition days_in_month :: "int \<Rightarrow> int \<Rightarrow> int" where
  "days_in_month year month =
     (if month = 2 then (if is_leap_year year then 29 else 28) else kDays ! nat month)"

text \<open>The loop of \<^verbatim>\<open>parse_component\<close> over the characters it looks at.\<close>

fun parse_digits :: "int \<Rightarrow> string \<Rightarrow> int" where
  "parse_digits acc [] = acc"
| "parse_digits acc (c # cs) = (if is_digit c then parse_digits (acc * 10 + digit_val c) cs else -1)"

definition parse_component :: "string \<Rightarrow> nat \<Rightarrow> nat \<Rightarrow> int" where
  "parse_component str pos len = parse_digits 0 (take len (drop pos str))"

definition parse_datetime_string :: "string \<Rightarrow> int option" where
  "parse_datetime_string str =
     (if length str \<noteq> 19 \<or> str ! 4 \<noteq> CHR ''-'' \<or> str ! 7 \<noteq> CHR ''-'' \<or> str ! 10 \<noteq> CHR '' '' \<or>
         str ! 13 \<noteq> CHR '':'' \<or> str ! 16 \<noteq> CHR '':''
      then None
      else
        let year = parse_component str 0 4; month = parse_component str 5 2;
            day = parse_component str 8 2; hour = parse_component str 11 2;
            minute = parse_component str 14 2; second = parse_component str 17 2
        in if year < 1000 \<or> year > 9999 \<or> month < 1 \<or> month > 12 \<or> day < 1 \<or> hour < 0 \<or> hour > 23 \<or>
              minute < 0 \<or> minute > 59 \<or> second < 0 \<or> second > 59
           then None
           else if day > days_in_month year month then None
           else Some (year * 10000000000 + month * 100000000 + day * 1000000 + hour * 10000 +
                      minute * 100 + second))"

definition format_datetime_value :: "int \<Rightarrow> string" where
  "format_datetime_value e0 =
     (let second = e0 smod 100; e1 = e0 sdiv 100;
          minute = e1 smod 100; e2 = e1 sdiv 100;
          hour = e2 smod 100; e3 = e2 sdiv 100;
          day = e3 smod 100; e4 = e3 sdiv 100;
          month = e4 smod 100; year = e4 sdiv 100
      in pad0 4 (int_str year) @ ''-'' @ pad0 2 (int_str month) @ ''-'' @ pad0 2 (int_str day) @ '' '' @
         pad0 2 (int_str hour) @ '':'' @ pad0 2 (int_str minute) @ '':'' @ pad0 2 (int_str second))"

section \<open>Values and conditions\<close>

record tab_col =
  tab_name :: string
  col_name :: string

datatype value_data = VInt int | VFloat fp | VStr string | VBigint int | VDatetime int

record sql_value =
  vdata :: value_data
  raw :: "bytes option"

fun value_type :: "value_data \<Rightarrow> col_type" where
  "value_type (VInt _) = TYPE_INT"
| "value_type (VFloat _) = TYPE_FLOAT"
| "value_type (VStr _) = TYPE_STRING"
| "value_type (VBigint _) = TYPE_BIGINT"
| "value_type (VDatetime _) = TYPE_DATETIME"

definition str_bytes :: "string \<Rightarrow> bytes" where
  "str_bytes s = map (\<lambda>c. of_nat (of_char c)) s"

text \<open>
  \<^verbatim>\<open>init_raw\<close>: the bytes of the payload in a column of length \<open>len\<close>. The asserts on the length
  compare with the sizes of the machine types.
\<close>

fun raw_bytes :: "value_data \<Rightarrow> int \<Rightarrow> rmdb_error + bytes" where
  "raw_bytes (VInt i) len = (if len = 4 then Inr (enc_i32 i) else Inl AssertionFailure)"
| "raw_bytes (VFloat x) len = (if len = 4 then Inr (enc_u32 (enc_f32 x)) else Inl AssertionFailure)"
| "raw_bytes (VBigint i) len = (if len = 8 then Inr (enc_i64 i) else Inl AssertionFailure)"
| "raw_bytes (VDatetime i) len = (if len = 8 then Inr (enc_i64 i) else Inl AssertionFailure)"
| "raw_bytes (VStr s) len =
     (if len < int (length s) then Inl StringOverflowError
      else Inr (blit (zeros (nat len)) 0 (str_bytes s)))"

definition init_raw :: "sql_value \<Rightarrow> int \<Rightarrow> rmdb_error + sql_value" where
  "init_raw v len =
     (if raw v \<noteq> None then Inl AssertionFailure
      else case raw_bytes (vdata v) len of Inl e \<Rightarrow> Inl e | Inr bs \<Rightarrow> Inr (v\<lparr>raw := Some bs\<rparr>))"

definition coerce_value_type :: "sql_value \<Rightarrow> col_type \<Rightarrow> int \<Rightarrow> rmdb_error + sql_value" where
  "coerce_value_type v target len =
     (let incompatible = Inl (IncompatibleTypeError (coltype2str target) (coltype2str (value_type (vdata v))))
      in if value_type (vdata v) = target
         then (case vdata v of
                 VStr s \<Rightarrow> if len < int (length s) then Inl StringOverflowError else Inr v
               | _ \<Rightarrow> Inr v)
         else case target of
           TYPE_INT \<Rightarrow>
             (case vdata v of
                VBigint i \<Rightarrow> if i < - (2 ^ 31) \<or> i > 2 ^ 31 - 1 then Inl (ValueOutOfRangeError ''INT'' i)
                             else Inr (v\<lparr>vdata := VInt i\<rparr>)
              | _ \<Rightarrow> incompatible)
         | TYPE_FLOAT \<Rightarrow>
             (case vdata v of
                VInt i \<Rightarrow> Inr (v\<lparr>vdata := VFloat (f32_of_int i)\<rparr>)
              | VBigint i \<Rightarrow> Inr (v\<lparr>vdata := VFloat (f32_of_int i)\<rparr>)
              | _ \<Rightarrow> incompatible)
         | TYPE_BIGINT \<Rightarrow>
             (case vdata v of VInt i \<Rightarrow> Inr (v\<lparr>vdata := VBigint i\<rparr>) | _ \<Rightarrow> incompatible)
         | TYPE_DATETIME \<Rightarrow>
             (case vdata v of
                VStr s \<Rightarrow> (case parse_datetime_string s of
                             None \<Rightarrow> Inl (InvalidDateTimeError s)
                           | Some e \<Rightarrow> Inr (v\<lparr>vdata := VDatetime e\<rparr>))
              | _ \<Rightarrow> incompatible)
         | TYPE_STRING \<Rightarrow> incompatible)"

datatype comp_op = OP_EQ | OP_NE | OP_LT | OP_GT | OP_LE | OP_GE

record condition =
  lhs_col :: tab_col
  cond_op :: comp_op
  is_rhs_val :: bool
  rhs_col :: tab_col
  rhs_val :: sql_value

record set_clause =
  set_lhs :: tab_col
  set_rhs :: sql_value

section \<open>Comparing stored values\<close>

text \<open>The pattern \<^verbatim>\<open>(l < r) ? -1 : (l > r ? 1 : 0)\<close> of all comparisons in the program.\<close>

definition three_way :: "bool \<Rightarrow> bool \<Rightarrow> int" where
  "three_way lt gt = (if lt then -1 else if gt then 1 else 0)"

definition int_cmp :: "int \<Rightarrow> int \<Rightarrow> int" where
  "int_cmp l r = three_way (l < r) (l > r)"

definition fp_cmp :: "fp \<Rightarrow> fp \<Rightarrow> int" where
  "fp_cmp l r = three_way (fp_less l r) (fp_less r l)"

definition compare_typed :: "col_type \<Rightarrow> nat \<Rightarrow> bytes \<Rightarrow> bytes \<Rightarrow> int" where
  "compare_typed type len lhs rhs =
     (case type of
        TYPE_INT \<Rightarrow> int_cmp (get_i32 lhs 0) (get_i32 rhs 0)
      | TYPE_FLOAT \<Rightarrow> fp_cmp (get_f32 lhs 0) (get_f32 rhs 0)
      | TYPE_BIGINT \<Rightarrow> int_cmp (get_i64 lhs 0) (get_i64 rhs 0)
      | TYPE_DATETIME \<Rightarrow> int_cmp (get_i64 lhs 0) (get_i64 rhs 0)
      | TYPE_STRING \<Rightarrow> memcmp (take len lhs) (take len rhs))"

fun op_holds :: "comp_op \<Rightarrow> int \<Rightarrow> bool" where
  "op_holds OP_EQ cmp = (cmp = 0)"
| "op_holds OP_NE cmp = (cmp \<noteq> 0)"
| "op_holds OP_LT cmp = (cmp < 0)"
| "op_holds OP_GT cmp = (cmp > 0)"
| "op_holds OP_LE cmp = (cmp \<le> 0)"
| "op_holds OP_GE cmp = (cmp \<ge> 0)"

section \<open>Decimal strings\<close>

lemma digit_char_val: "n < 10 \<Longrightarrow> is_digit (digit_char n) \<and> digit_val (digit_char n) = int n"
  by (simp add: is_digit_def digit_val_def digit_char_def of_char_of)

lemma digit_cases:
  assumes "is_digit c"
  obtains n where "n < 10" and "c = digit_char n" and "digit_val c = int n"
proof -
  let ?n = "of_char c - 48 :: nat"
  have "48 + ?n = of_char c" "?n < 10" using assms by (auto simp: is_digit_def)
  then show ?thesis using that [of ?n] by (simp add: digit_char_def digit_val_def)
qed

text \<open>Two digits, and four digits not starting with zero, are printed back as they were read.\<close>

lemma nat_str_small: "n < 10 \<Longrightarrow> nat_str n = [digit_char n]"
  by (simp add: nat_str.simps)

lemma nat_str_step: "10 \<le> n \<Longrightarrow> nat_str n = nat_str (n div 10) @ [digit_char (n mod 10)]"
  by (subst nat_str.simps) simp

lemma digits_value:
  assumes "parse_digits 0 cs = n" and "n \<ge> 0" and "cs \<noteq> []"
  shows "list_all is_digit cs"
proof -
  have "list_all is_digit cs \<or> parse_digits acc cs = -1" for acc
  proof (induction cs arbitrary: acc)
    case (Cons c cs)
    show ?case using Cons [of "acc * 10 + digit_val c"] by auto
  qed simp
  with assms show ?thesis by fastforce
qed

lemma digit_char_0: "digit_char 0 = CHR ''0''"
  by (code_simp)

lemma nat_str_snoc: "1 \<le> m \<Longrightarrow> r < 10 \<Longrightarrow> nat_str (10 * m + r) = nat_str m @ [digit_char r]"
  by (simp add: nat_str_step)

lemma two_digits:
  assumes "parse_digits 0 [a, b] = n" and "n \<ge> 0"
  shows "pad0 2 (int_str n) = [a, b]" and "n < 100"
proof -
  have d: "is_digit a" "is_digit b" using digits_value [OF assms] by auto
  from d(1) obtain x where x: "x < 10" "a = digit_char x" "digit_val a = int x" by (rule digit_cases)
  from d(2) obtain y where y: "y < 10" "b = digit_char y" "digit_val b = int y" by (rule digit_cases)
  have n: "n = int (10 * x + y)" using assms(1) d x(3) y(3) by simp
  show "n < 100" using n x(1) y(1) by linarith
  show "pad0 2 (int_str n) = [a, b]"
  proof (cases "x = 0")
    case True
    then show ?thesis
      using n x(2) y(1,2) by (simp add: int_str_def nat_str_small pad0_def digit_char_0)
  next
    case False
    then have "nat_str (10 * x + y) = [digit_char x, digit_char y]"
      using x(1) y(1) by (simp add: nat_str_step nat_str_small)
    then show ?thesis using n x(2) y(2) by (simp add: int_str_def pad0_def del: of_nat_add of_nat_mult)
  qed
qed

lemma four_digits:
  assumes "parse_digits 0 [a, b, c, d] = n" and "n \<ge> 1000"
  shows "pad0 4 (int_str n) = [a, b, c, d]"
proof -
  have dig: "is_digit a" "is_digit b" "is_digit c" "is_digit d"
    using digits_value [OF assms(1)] assms(2) by auto
  from dig(1) obtain x where x: "x < 10" "a = digit_char x" "digit_val a = int x" by (rule digit_cases)
  from dig(2) obtain y where y: "y < 10" "b = digit_char y" "digit_val b = int y" by (rule digit_cases)
  from dig(3) obtain z where z: "z < 10" "c = digit_char z" "digit_val c = int z" by (rule digit_cases)
  from dig(4) obtain w where w: "w < 10" "d = digit_char w" "digit_val d = int w" by (rule digit_cases)
  let ?n = "10 * (10 * (10 * x + y) + z) + w"
  have n: "n = int ?n" using assms(1) dig x(3) y(3) z(3) w(3) by simp
  have "1 \<le> x" using n assms(2) x(1) y(1) z(1) w(1) by (cases "x = 0") auto
  then have "nat_str ?n = [digit_char x, digit_char y, digit_char z, digit_char w]"
    using x(1) y(1) z(1) w(1) nat_str_snoc [of "10 * (10 * x + y) + z" w] nat_str_snoc [of "10 * x + y" z]
      nat_str_snoc [of x y] nat_str_small [of x] by simp
  then show ?thesis using n x(2) y(2) z(2) w(2)
    by (simp add: int_str_def pad0_def del: of_nat_add of_nat_mult)
qed

lemma component_chars:
  "pos + 2 \<le> length str \<Longrightarrow> parse_component str pos 2 = parse_digits 0 [str ! pos, str ! (pos + 1)]"
  "pos + 4 \<le> length str \<Longrightarrow> parse_component str pos 4 =
     parse_digits 0 [str ! pos, str ! (pos + 1), str ! (pos + 2), str ! (pos + 3)]"
  by (simp_all add: parse_component_def take_Suc_conv_app_nth numeral_eq_Suc add.commute
      del: parse_digits.simps)

lemma list19:
  assumes "length v = 19"
  shows "v = [v!0, v!1, v!2, v!3, v!4, v!5, v!6, v!7, v!8, v!9, v!10, v!11, v!12, v!13, v!14, v!15,
              v!16, v!17, v!18]"
  by (rule nth_equalityI) (use assms in \<open>auto simp: less_Suc_eq numeral_eq_Suc\<close>)

lemma smod_sdiv_pos: "0 \<le> (a :: int) \<Longrightarrow> a smod 100 = a mod 100 \<and> a sdiv 100 = a div 100"
  by (cases "a = 0") (simp_all add: signed_modulo_int_def signed_divide_int_def)

lemma unpack100:
  assumes "0 \<le> r" and "r < 100" and "0 \<le> (q :: int)"
  shows "(q * 100 + r) smod 100 = r" and "(q * 100 + r) sdiv 100 = q"
  using smod_sdiv_pos [of "q * 100 + r"] assms by simp_all

lemma format_fields:
  assumes "0 \<le> y" and "0 \<le> mo" and "mo < 100" and "0 \<le> d" and "d < 100" and "0 \<le> h" and "h < 100"
    and "0 \<le> mi" and "mi < 100" and "0 \<le> s" and "s < 100"
  shows "format_datetime_value (y * 10000000000 + mo * 100000000 + d * 1000000 + h * 10000 + mi * 100 + s) =
    pad0 4 (int_str y) @ ''-'' @ pad0 2 (int_str mo) @ ''-'' @ pad0 2 (int_str d) @ '' '' @
    pad0 2 (int_str h) @ '':'' @ pad0 2 (int_str mi) @ '':'' @ pad0 2 (int_str s)"
proof -
  have "y * 10000000000 + mo * 100000000 + d * 1000000 + h * 10000 + mi * 100 + s =
      ((((y * 100 + mo) * 100 + d) * 100 + h) * 100 + mi) * 100 + s" by simp
  then show ?thesis
    using assms unfolding format_datetime_value_def Let_def by (simp add: unpack100 del: distrib_right_numeral)
qed

text \<open>
  Claim C24. Dates: whatever \<^verbatim>\<open>parse_datetime_string\<close> accepts, \<^verbatim>\<open>format_datetime_value\<close> prints back
  character by character, so the encoding is injective; and the encoded number fits in 64 bits.
\<close>

theorem datetime_parse_format:
  assumes "parse_datetime_string v = Some e"
  shows "format_datetime_value e = v \<and> is_i64 e"
proof -
  define y mo d h mi s where f: "y = parse_component v 0 4" "mo = parse_component v 5 2"
    "d = parse_component v 8 2" "h = parse_component v 11 2" "mi = parse_component v 14 2"
    "s = parse_component v 17 2"
  note fold = f [symmetric]
  from assms have len: "length v = 19" and sep: "v!4 = CHR ''-''" "v!7 = CHR ''-''" "v!10 = CHR '' ''"
      "v!13 = CHR '':''" "v!16 = CHR '':''"
    and rng: "1000 \<le> y" "y \<le> 9999" "0 \<le> mo" "0 \<le> d" "0 \<le> h" "0 \<le> mi" "0 \<le> s"
    and e: "e = y * 10000000000 + mo * 100000000 + d * 1000000 + h * 10000 + mi * 100 + s"
    unfolding parse_datetime_string_def Let_def fold by (auto split: if_splits)
  have c: "parse_digits 0 [v!0, v!1, v!2, v!3] = y" "parse_digits 0 [v!5, v!6] = mo"
    "parse_digits 0 [v!8, v!9] = d" "parse_digits 0 [v!11, v!12] = h" "parse_digits 0 [v!14, v!15] = mi"
    "parse_digits 0 [v!17, v!18] = s"
    using len f component_chars(2) [of 0 v] component_chars(1) [of 5 v] component_chars(1) [of 8 v]
      component_chars(1) [of 11 v] component_chars(1) [of 14 v] component_chars(1) [of 17 v]
    by (simp_all add: numeral_2_eq_2 del: parse_digits.simps)
  note two = two_digits [OF c(2) rng(3)] two_digits [OF c(3) rng(4)] two_digits [OF c(4) rng(5)]
    two_digits [OF c(5) rng(6)] two_digits [OF c(6) rng(7)]
  have y0: "0 \<le> y" using rng(1) by simp
  have "format_datetime_value e = [v!0, v!1, v!2, v!3] @ ''-'' @ [v!5, v!6] @ ''-'' @ [v!8, v!9] @ '' '' @
      [v!11, v!12] @ '':'' @ [v!14, v!15] @ '':'' @ [v!17, v!18]"
    unfolding e format_fields [OF y0 rng(3) two(2) rng(4) two(4) rng(5) two(6) rng(6) two(8) rng(7) two(10)]
      two four_digits [OF c(1) rng(1)] ..
  also have "\<dots> = v" using list19 [OF len] sep by simp
  finally have "format_datetime_value e = v" .
  moreover have "is_i64 e" unfolding e is_i64_def using rng two by auto
  ultimately show ?thesis by simp
qed

theorem datetime_parse_format_witness:
  "format_datetime_value 20240229235959 = ''2024-02-29 23:59:59''"
proof -
  have "parse_datetime_string ''2024-02-29 23:59:59'' = Some 20240229235959" by code_simp
  then show ?thesis using datetime_parse_format by blast
qed

end
