(* ===== verification/Metadata.thy ===== *)
theory Metadata
  imports Values "HOL-Library.List_Lexorder" "HOL-Library.Char_ord"
begin

text \<open>
  The catalogue, \<^verbatim>\<open>system/sm_meta.h\<close>: metadata of columns, indexes, tables and the database, its
  lookup operations, and its text form, written with \<^verbatim>\<open>operator<<\<close> and read back with
  \<^verbatim>\<open>operator>>\<close>. A \<^verbatim>\<open>std::map\<close> is an association list sorted by key. An extraction from a
  stream that fails leaves its variables unspecified; it is the result \<open>None\<close>.
\<close>

section \<open>Data\<close>

record col_meta =
  cm_tab_name :: string
  cm_name :: string
  cm_type :: col_type
  cm_len :: int
  cm_offset :: int
  cm_index :: bool

record index_meta =
  im_tab_name :: string
  col_tot_len :: int
  col_num :: int
  im_cols :: "col_meta list"

record tab_meta =
  tm_name :: string
  tm_cols :: "col_meta list"
  indexes :: "index_meta list"

record db_meta =
  db_name :: string
  tabs :: "(string \<times> tab_meta) list"

section \<open>Lookups\<close>

definition new_TabMeta :: tab_meta where
  "new_TabMeta = \<lparr>tm_name = [], tm_cols = [], indexes = []\<rparr>"

text \<open>The copy constructor, which does not copy the indexes (the assignment operator does).\<close>

definition copy_TabMeta :: "tab_meta \<Rightarrow> tab_meta" where
  "copy_TabMeta other = new_TabMeta\<lparr>tm_name := tm_name other, tm_cols := tm_cols other\<rparr>"

definition is_col :: "tab_meta \<Rightarrow> string \<Rightarrow> bool" where
  "is_col t c = (find (\<lambda>col. cm_name col = c) (tm_cols t) \<noteq> None)"

text \<open>The loop that compares the names of an index with the names asked for.\<close>

definition index_matches :: "string list \<Rightarrow> index_meta \<Rightarrow> bool" where
  "index_matches names ix \<longleftrightarrow>
     col_num ix = int (length names) \<and> map cm_name (take (length names) (im_cols ix)) = names"

definition is_index :: "tab_meta \<Rightarrow> string list \<Rightarrow> bool" where
  "is_index t names = list_ex (index_matches names) (indexes t)"

text \<open>\<open>get_index_meta\<close> returns an iterator: the position of the entry.\<close>

fun index_pos :: "nat \<Rightarrow> string list \<Rightarrow> index_meta list \<Rightarrow> nat option" where
  "index_pos i names [] = None"
| "index_pos i names (ix # ixs) =
     (if index_matches names ix then Some i else index_pos (Suc i) names ixs)"

definition get_index_meta :: "tab_meta \<Rightarrow> string list \<Rightarrow> rmdb_error + nat" where
  "get_index_meta t names =
     (case index_pos 0 names (indexes t) of
        None \<Rightarrow> Inl (IndexNotFoundError (tm_name t) names) | Some i \<Rightarrow> Inr i)"

definition tab_get_col :: "tab_meta \<Rightarrow> string \<Rightarrow> rmdb_error + col_meta" where
  "tab_get_col t c =
     (case find (\<lambda>col. cm_name col = c) (tm_cols t) of
        None \<Rightarrow> Inl (ColumnNotFoundError c) | Some col \<Rightarrow> Inr col)"

definition is_table :: "db_meta \<Rightarrow> string \<Rightarrow> bool" where
  "is_table db t = (map_of (tabs db) t \<noteq> None)"

text \<open>\<open>m[k] = v\<close> on a \<^verbatim>\<open>std::map\<close>.\<close>

fun map_put :: "string \<Rightarrow> 'v \<Rightarrow> (string \<times> 'v) list \<Rightarrow> (string \<times> 'v) list" where
  "map_put k v [] = [(k, v)]"
| "map_put k v ((k', v') # m) =
     (if k < k' then (k, v) # (k', v') # m else if k = k' then (k, v) # m else (k', v') # map_put k v m)"

definition SetTabMeta :: "string \<Rightarrow> tab_meta \<Rightarrow> db_meta \<Rightarrow> db_meta" where
  "SetTabMeta t meta db = db\<lparr>tabs := map_put t meta (tabs db)\<rparr>"

definition get_table :: "db_meta \<Rightarrow> string \<Rightarrow> rmdb_error + tab_meta" where
  "get_table db t =
     (case map_of (tabs db) t of None \<Rightarrow> Inl (TableNotFoundError t) | Some m \<Rightarrow> Inr m)"

section \<open>Writing\<close>

definition nl :: string where "nl = [char_of (10 :: nat)]"

fun col_type_code :: "col_type \<Rightarrow> int" where
  "col_type_code TYPE_INT = 0"
| "col_type_code TYPE_FLOAT = 1"
| "col_type_code TYPE_STRING = 2"
| "col_type_code TYPE_BIGINT = 3"
| "col_type_code TYPE_DATETIME = 4"

definition put_col :: "col_meta \<Rightarrow> string" where
  "put_col c = cm_tab_name c @ '' '' @ cm_name c @ '' '' @ int_str (col_type_code (cm_type c)) @ '' '' @
     int_str (cm_len c) @ '' '' @ int_str (cm_offset c) @ '' '' @ (if cm_index c then ''1'' else ''0'')"

definition put_index :: "index_meta \<Rightarrow> string" where
  "put_index ix = im_tab_name ix @ '' '' @ int_str (col_tot_len ix) @ '' '' @ int_str (col_num ix) @
     concat (map (\<lambda>c. nl @ put_col c) (im_cols ix))"

definition put_tab :: "tab_meta \<Rightarrow> string" where
  "put_tab t = tm_name t @ nl @ nat_str (length (tm_cols t)) @ nl @
     concat (map (\<lambda>c. put_col c @ nl) (tm_cols t)) @
     nat_str (length (indexes t)) @ nl @ concat (map (\<lambda>ix. put_index ix @ nl) (indexes t))"

definition put_db :: "db_meta \<Rightarrow> string" where
  "put_db db = db_name db @ nl @ nat_str (length (tabs db)) @ nl @
     concat (map (\<lambda>(k, t). put_tab t @ nl) (tabs db))"

section \<open>Reading\<close>

type_synonym 'a reader = "string \<Rightarrow> ('a \<times> string) option"

definition then_read :: "'a reader \<Rightarrow> ('a \<Rightarrow> 'b reader) \<Rightarrow> 'b reader" where
  "then_read r f s = (case r s of None \<Rightarrow> None | Some (x, s') \<Rightarrow> f x s')"

definition is_space :: "char \<Rightarrow> bool" where
  "is_space c \<longleftrightarrow> (let n = of_char c :: nat in n = 32 \<or> 9 \<le> n \<and> n \<le> 13)"

definition read_word :: "string reader" where
  "read_word s =
     (let t = dropWhile is_space s; w = takeWhile (\<lambda>c. \<not> is_space c) t
      in if w = [] then None else Some (w, dropWhile (\<lambda>c. \<not> is_space c) t))"

fun digits_nat :: "nat \<Rightarrow> string \<Rightarrow> nat" where
  "digits_nat acc [] = acc"
| "digits_nat acc (c # cs) = digits_nat (acc * 10 + nat (digit_val c)) cs"

text \<open>The number at the front of the stream: its sign and the value of its digits.\<close>

definition read_number :: "(bool \<times> nat) reader" where
  "read_number s =
     (let t = dropWhile is_space s;
          neg = (t \<noteq> [] \<and> hd t = CHR ''-'');
          u = (if t \<noteq> [] \<and> (hd t = CHR ''-'' \<or> hd t = CHR ''+'') then tl t else t);
          ds = takeWhile is_digit u
      in if ds = [] then None else Some ((neg, digits_nat 0 ds), dropWhile is_digit u))"

definition read_int :: "int reader" where
  "read_int = then_read read_number (\<lambda>(neg, n) s.
     let v = (if neg then - int n else int n) in if is_i32 v then Some (v, s) else None)"

definition read_size :: "nat reader" where
  "read_size = then_read read_number (\<lambda>(neg, n) s.
     if n < 2 ^ 64 then Some ((if neg then (2 ^ 64 - n) mod 2 ^ 64 else n), s) else None)"

definition read_bool :: "bool reader" where
  "read_bool = then_read read_number (\<lambda>(neg, n) s.
     if n = 0 then Some (False, s) else if n = 1 \<and> \<not> neg then Some (True, s) else None)"

text \<open>A number outside the enumeration gives a value the program has no name for.\<close>

definition read_col_type :: "col_type reader" where
  "read_col_type = then_read read_int (\<lambda>v s.
     if v = 0 then Some (TYPE_INT, s) else if v = 1 then Some (TYPE_FLOAT, s)
     else if v = 2 then Some (TYPE_STRING, s) else if v = 3 then Some (TYPE_BIGINT, s)
     else if v = 4 then Some (TYPE_DATETIME, s) else None)"

definition read_col :: "col_meta reader" where
  "read_col =
     then_read read_word (\<lambda>tn. then_read read_word (\<lambda>n. then_read read_col_type (\<lambda>ty.
     then_read read_int (\<lambda>l. then_read read_int (\<lambda>off. then_read read_bool (\<lambda>ix s.
       Some (\<lparr>cm_tab_name = tn, cm_name = n, cm_type = ty, cm_len = l, cm_offset = off, cm_index = ix\<rparr>, s)))))))"

primrec read_many :: "nat \<Rightarrow> 'a reader \<Rightarrow> 'a list reader" where
  "read_many 0 r s = Some ([], s)"
| "read_many (Suc n) r s = then_read r (\<lambda>x. then_read (read_many n r) (\<lambda>xs s'. Some (x # xs, s'))) s"

definition read_index :: "index_meta reader" where
  "read_index =
     then_read read_word (\<lambda>tn. then_read read_int (\<lambda>tot. then_read read_int (\<lambda>num.
     then_read (read_many (nat num) read_col) (\<lambda>cols s.
       Some (\<lparr>im_tab_name = tn, col_tot_len = tot, col_num = num, im_cols = cols\<rparr>, s)))))"

definition read_tab :: "tab_meta reader" where
  "read_tab =
     then_read read_word (\<lambda>tn. then_read read_size (\<lambda>n. then_read (read_many n read_col) (\<lambda>cols.
     then_read read_size (\<lambda>m. then_read (read_many m read_index) (\<lambda>ixs s.
       Some (\<lparr>tm_name = tn, tm_cols = cols, indexes = ixs\<rparr>, s))))))"

definition read_db :: "db_meta reader" where
  "read_db =
     then_read read_word (\<lambda>dn. then_read read_size (\<lambda>n. then_read (read_many n read_tab) (\<lambda>ts s.
       Some (\<lparr>db_name = dn, tabs = fold (\<lambda>t. map_put (tm_name t) t) ts []\<rparr>, s))))"

section \<open>Tokens\<close>

definition word_ok :: "string \<Rightarrow> bool" where
  "word_ok w \<longleftrightarrow> w \<noteq> [] \<and> list_all (\<lambda>c. \<not> is_space c) w"

definition delim :: "string \<Rightarrow> bool" where
  "delim s \<longleftrightarrow> (case s of [] \<Rightarrow> True | c # _ \<Rightarrow> is_space c)"

lemma space_chars [simp]: "is_space (CHR '' '')" "is_space (char_of (10 :: nat))"
  by (simp_all add: is_space_def of_char_of)

lemma delim_simps [simp]: "delim []" "delim (c # s) = is_space c"
  by (simp_all add: delim_def)

lemma digit_not_space: "is_digit c \<Longrightarrow> \<not> is_space c"
  by (auto simp: is_digit_def is_space_def Let_def)

lemma read_skip [simp]:
  "is_space c \<Longrightarrow> read_word (c # s) = read_word s"
  "is_space c \<Longrightarrow> read_number (c # s) = read_number s"
  by (simp_all add: read_word_def read_number_def)

lemma takeWhile_word:
  assumes "list_all P w" and "rest = [] \<or> \<not> P (hd rest)"
  shows "takeWhile P (w @ rest) = w" and "dropWhile P (w @ rest) = rest"
  using assms by (induction w) (auto simp: takeWhile_eq_Nil_iff dropWhile_eq_self_iff)

lemma read_word_put: "word_ok w \<Longrightarrow> delim rest \<Longrightarrow> read_word (w @ rest) = Some (w, rest)"
proof -
  assume w: "word_ok w" and r: "delim rest"
  have "dropWhile is_space (w @ rest) = w @ rest" using w by (cases w) (auto simp: word_ok_def)
  moreover have "rest = [] \<or> \<not> \<not> is_space (hd rest)" using r by (cases rest) auto
  ultimately show ?thesis
    using w takeWhile_word [of "\<lambda>c. \<not> is_space c" w rest] by (simp add: read_word_def word_ok_def)
qed

lemma digits_nat_snoc: "digits_nat acc (cs @ [c]) = digits_nat acc cs * 10 + nat (digit_val c)"
  by (induction cs arbitrary: acc) auto

lemma nat_str_digits: "list_all is_digit (nat_str n) \<and> nat_str n \<noteq> [] \<and> digits_nat 0 (nat_str n) = n"
proof (induction n rule: nat_str.induct)
  case (1 n)
  show ?case
  proof (cases "n < 10")
    case True
    then show ?thesis using digit_char_val [of n] by (simp add: nat_str_small)
  next
    case False
    with 1 show ?thesis using digit_char_val [of "n mod 10"] by (simp add: nat_str_step digits_nat_snoc)
  qed
qed

lemma read_number_put:
  assumes "delim rest"
  shows "read_number (nat_str n @ rest) = Some ((False, n), rest)"
    and "read_number (CHR ''-'' # nat_str n @ rest) = Some ((True, n), rest)"
proof -
  note d = nat_str_digits [of n]
  have r: "rest = [] \<or> \<not> is_digit (hd rest)" using assms digit_not_space by (cases rest) auto
  obtain c cs where c: "nat_str n = c # cs" "is_digit c" using d by (cases "nat_str n") auto
  have ws: "\<not> is_space c" "\<not> is_space (CHR ''-'')" "c \<noteq> CHR ''-''" "c \<noteq> CHR ''+''"
    using digit_not_space [OF c(2)] c(2) by (auto simp: is_digit_def is_space_def)
  have t: "dropWhile is_space (nat_str n @ rest) = nat_str n @ rest" using ws(1) by (simp add: c(1))
  have h: "hd (nat_str n @ rest) = c" "nat_str n @ rest \<noteq> []" by (simp_all add: c(1))
  show "read_number (nat_str n @ rest) = Some ((False, n), rest)"
    unfolding read_number_def t Let_def h(1)
    using takeWhile_word [OF conjunct1 [OF d] r] ws(3,4) h(2) d by simp
  show "read_number (CHR ''-'' # nat_str n @ rest) = Some ((True, n), rest)"
    unfolding read_number_def Let_def
    using takeWhile_word [OF conjunct1 [OF d] r] ws(2) d by simp
qed

lemma read_int_put: "is_i32 v \<Longrightarrow> delim rest \<Longrightarrow> read_int (int_str v @ rest) = Some (v, rest)"
  by (simp add: read_int_def then_read_def int_str_def read_number_put)

lemma read_size_put: "n < 2 ^ 64 \<Longrightarrow> delim rest \<Longrightarrow> read_size (nat_str n @ rest) = Some (n, rest)"
  by (simp add: read_size_def then_read_def read_number_put)

lemma read_bool_put: "delim rest \<Longrightarrow> read_bool ((if b then ''1'' else ''0'') @ rest) = Some (b, rest)"
proof -
  have "nat_str 0 = ''0''" "nat_str 1 = ''1''" by (code_simp, code_simp)
  moreover assume "delim rest"
  ultimately show ?thesis
    using read_number_put(1) [of rest 0] read_number_put(1) [of rest 1]
    by (simp add: read_bool_def then_read_def)
qed

lemma read_skips [simp]:
  "is_space c \<Longrightarrow> read_int (c # s) = read_int s" "is_space c \<Longrightarrow> read_size (c # s) = read_size s"
  "is_space c \<Longrightarrow> read_bool (c # s) = read_bool s" "is_space c \<Longrightarrow> read_col_type (c # s) = read_col_type s"
  by (simp_all add: read_int_def read_size_def read_bool_def read_col_type_def then_read_def)

lemma read_col_type_put: "delim rest \<Longrightarrow> read_col_type (int_str (col_type_code t) @ rest) = Some (t, rest)"
  by (cases t) (simp_all add: read_col_type_def then_read_def read_int_put is_i32_def)

lemma then_read_Some [simp]: "r s = Some (x, s') \<Longrightarrow> then_read r f s = f x s'"
  by (simp add: then_read_def)

section \<open>The round trip\<close>

definition col_ok :: "col_meta \<Rightarrow> bool" where
  "col_ok c \<longleftrightarrow> word_ok (cm_tab_name c) \<and> word_ok (cm_name c) \<and> is_i32 (cm_len c) \<and> is_i32 (cm_offset c)"

definition index_ok :: "index_meta \<Rightarrow> bool" where
  "index_ok ix \<longleftrightarrow> word_ok (im_tab_name ix) \<and> is_i32 (col_tot_len ix) \<and> is_i32 (col_num ix) \<and>
     col_num ix = int (length (im_cols ix)) \<and> list_all col_ok (im_cols ix)"

definition tab_ok :: "tab_meta \<Rightarrow> bool" where
  "tab_ok t \<longleftrightarrow> word_ok (tm_name t) \<and> list_all col_ok (tm_cols t) \<and> list_all index_ok (indexes t) \<and>
     length (tm_cols t) < 2 ^ 64 \<and> length (indexes t) < 2 ^ 64"

text \<open>The tables are keyed by their own names, in the order of the map.\<close>

definition db_ok :: "db_meta \<Rightarrow> bool" where
  "db_ok db \<longleftrightarrow> word_ok (db_name db) \<and> length (tabs db) < 2 ^ 64 \<and>
     sorted_wrt (<) (map fst (tabs db)) \<and> list_all (\<lambda>(k, t). k = tm_name t \<and> tab_ok t) (tabs db)"

lemma read_col_put:
  assumes "col_ok c" and "delim rest"
  shows "read_col (put_col c @ rest) = Some (c, rest)"
  using assms unfolding read_col_def put_col_def col_ok_def
  by (simp add: read_word_put read_int_put read_bool_put [simplified] read_col_type_put)

lemma read_col_skip [simp]: "is_space c \<Longrightarrow> read_col (c # s) = read_col s"
  by (simp add: read_col_def then_read_def)

lemma read_many_lines:
  assumes "\<And>x rest. P x \<Longrightarrow> delim rest \<Longrightarrow> r (put x @ rest) = Some (x, rest)"
    and "\<And>c s. is_space c \<Longrightarrow> r (c # s) = r s" and "list_all P xs" and "delim rest"
  shows "read_many (length xs) r (concat (map (\<lambda>x. nl @ put x) xs) @ rest) = Some (xs, rest)"
  using assms(3)
proof (induction xs)
  case (Cons x xs)
  have "delim (concat (map (\<lambda>x. nl @ put x) xs) @ rest)"
    using assms(4) by (cases xs) (auto simp: nl_def)
  with Cons assms(1,2) show ?case by (simp add: nl_def)
qed simp

text \<open>Elements followed by a newline each, from behind a newline to the newline that ends them.\<close>

lemma lines_shift:
  "nl @ concat (map (\<lambda>x. put x @ nl) xs) @ rest = concat (map (\<lambda>x. nl @ put x) xs) @ nl @ rest"
  by (induction xs) simp_all

lemma nl_simps [simp]:
  "delim (nl @ s)" "read_word (nl @ s) = read_word s" "read_size (nl @ s) = read_size s"
  "read_col (nl @ s) = read_col s"
  by (simp_all add: nl_def)

lemma read_index_put:
  assumes "index_ok ix" and "delim rest"
  shows "read_index (put_index ix @ rest) = Some (ix, rest)"
proof -
  have d: "delim (concat (map (\<lambda>c. nl @ put_col c) (im_cols ix)) @ rest)"
    using assms(2) by (cases "im_cols ix") simp_all
  have "read_many (length (im_cols ix)) read_col (concat (map (\<lambda>c. nl @ put_col c) (im_cols ix)) @ rest)
      = Some (im_cols ix, rest)"
    by (rule read_many_lines [where P = col_ok])
      (use assms in \<open>auto simp: read_col_put index_ok_def\<close>)
  moreover have "word_ok (im_tab_name ix)" "is_i32 (col_tot_len ix)" "is_i32 (col_num ix)"
    and "nat (col_num ix) = length (im_cols ix)"
    using assms(1) by (auto simp: index_ok_def)
  ultimately show ?thesis
    using d unfolding read_index_def put_index_def by (simp add: read_word_put read_int_put)
qed

lemma read_index_skip [simp]: "is_space c \<Longrightarrow> read_index (c # s) = read_index s"
  by (simp add: read_index_def then_read_def)

lemma read_tab_put:
  assumes "tab_ok t" and "delim rest"
  shows "read_tab (put_tab t @ rest) = Some (t, nl @ rest)"
proof -
  let ?ixs = "nl @ concat (map (\<lambda>ix. put_index ix @ nl) (indexes t)) @ rest"
  have cols: "read_many (length (tm_cols t)) read_col
      (nl @ concat (map (\<lambda>c. put_col c @ nl) (tm_cols t)) @ nat_str (length (indexes t)) @ ?ixs) =
      Some (tm_cols t, nl @ nat_str (length (indexes t)) @ ?ixs)"
    unfolding lines_shift
    by (rule read_many_lines [where P = col_ok]) (use assms in \<open>auto simp: read_col_put tab_ok_def\<close>)
  have "read_many (length (indexes t)) read_index ?ixs = Some (indexes t, nl @ rest)"
    unfolding lines_shift
    by (rule read_many_lines [where P = index_ok]) (use assms in \<open>auto simp: read_index_put tab_ok_def\<close>)
  with cols show ?thesis
    using assms(1) unfolding read_tab_def put_tab_def tab_ok_def
    by (simp add: read_word_put read_size_put)
qed

lemma read_tab_skip [simp]: "is_space c \<Longrightarrow> read_tab (c # s) = read_tab s" "read_tab (nl @ s) = read_tab s"
  by (simp_all add: read_tab_def then_read_def nl_def)

lemma read_tabs_put:
  assumes "list_all tab_ok ts"
  shows "\<exists>ws. read_many (length ts) read_tab (nl @ concat (map (\<lambda>t. put_tab t @ nl) ts)) = Some (ts, ws) \<and>
    list_all is_space ws"
proof -
  have "\<exists>ws. read_many (length ts) read_tab (pre @ concat (map (\<lambda>t. put_tab t @ nl) ts)) = Some (ts, ws) \<and>
      list_all is_space ws" if "list_all is_space pre" for pre
    using assms that
  proof (induction ts arbitrary: pre)
    case (Cons t ts)
    have pre: "read_tab (pre @ s) = read_tab s" for s using Cons.prems(2) by (induction pre) auto
    from Cons.IH [of "nl @ nl"] Cons.prems(1) obtain ws where
      "read_many (length ts) read_tab (nl @ nl @ concat (map (\<lambda>t. put_tab t @ nl) ts)) = Some (ts, ws)"
      "list_all is_space ws" by (auto simp: nl_def)
    with Cons.prems(1) show ?case by (simp add: pre read_tab_put then_read_def)
  qed simp
  from this [of nl] show ?thesis by (simp add: nl_def)
qed

lemma map_put_last: "(\<forall>k' \<in> set (map fst m). k' < k) \<Longrightarrow> map_put k v m = m @ [(k, v)]"
  by (induction m rule: map_put.induct) auto

lemma fold_map_put:
  "sorted_wrt (<) (map fst (m @ map (\<lambda>t. (tm_name t, t)) ts)) \<Longrightarrow>
   fold (\<lambda>t. map_put (tm_name t) t) ts m = m @ map (\<lambda>t. (tm_name t, t)) ts"
proof (induction ts arbitrary: m)
  case (Cons t ts)
  have "map_put (tm_name t) t m = m @ [(tm_name t, t)]"
    by (rule map_put_last) (use Cons.prems in \<open>auto simp: sorted_wrt_append\<close>)
  with Cons show ?case by simp
qed simp

lemma read_db_put:
  assumes "db_ok db"
  shows "\<exists>ws. read_db (put_db db) = Some (db, ws) \<and> list_all is_space ws"
proof -
  let ?ts = "map snd (tabs db)"
  have pairs: "tabs db = map (\<lambda>t. (tm_name t, t)) ?ts"
    using assms by (auto simp: db_ok_def list_all_iff intro!: nth_equalityI [of "tabs db"])
      (metis (mono_tags, lifting) case_prod_conv nth_mem prod.collapse)
  have body: "concat (map (\<lambda>(k, t). put_tab t @ nl) (tabs db)) = concat (map (\<lambda>t. put_tab t @ nl) ?ts)"
    by (simp add: comp_def split_def)
  have "list_all tab_ok ?ts" using assms by (auto simp: db_ok_def list_all_iff)
  then obtain ws where ws: "read_many (length ?ts) read_tab (nl @ concat (map (\<lambda>t. put_tab t @ nl) ?ts)) =
      Some (?ts, ws)" "list_all is_space ws"
    using read_tabs_put by blast
  have sorted: "fold (\<lambda>t. map_put (tm_name t) t) ?ts [] = tabs db"
    using fold_map_put [of "[]" ?ts, unfolded append_Nil, folded pairs] assms unfolding db_ok_def by blast
  show ?thesis
    using assms ws sorted unfolding read_db_def put_db_def db_ok_def body
    by (simp add: read_word_put read_size_put)
qed

text \<open>
  Claim C23. The catalogue survives a restart: for every catalogue whose names are words (not empty, no
  white space), whose numbers fit their C++ types and whose tables are filed under their own names,
  reading what \<^verbatim>\<open>flush_meta\<close> writes gives the same catalogue, indexes included, and leaves only white
  space unread.
\<close>

theorem meta_roundtrip:
  assumes "db_ok db"
  shows "\<exists>ws. read_db (put_db db) = Some (db, ws) \<and> list_all is_space ws"
  by (rule read_db_put [OF assms])

definition tiny_db :: db_meta where
  "tiny_db = (let c = \<lparr>cm_tab_name = ''t'', cm_name = ''id'', cm_type = TYPE_INT, cm_len = 4, cm_offset = 0,
                     cm_index = True\<rparr>
              in \<lparr>db_name = ''d'', tabs = [(''t'', \<lparr>tm_name = ''t'', tm_cols = [c],
                   indexes = [\<lparr>im_tab_name = ''t'', col_tot_len = 4, col_num = 1, im_cols = [c]\<rparr>]\<rparr>)]\<rparr>)"

theorem meta_roundtrip_witness:
  "\<exists>ws. read_db (put_db tiny_db) = Some (tiny_db, ws) \<and> list_all is_space ws"
proof (rule meta_roundtrip)
  show "db_ok tiny_db"
    by (simp add: tiny_db_def db_ok_def tab_ok_def col_ok_def index_ok_def word_ok_def is_i32_def is_space_def Let_def)
qed

end
