(* ===== verification/Log_Records.thy ===== *)
theory Log_Records
  imports Record_File Values
begin

text \<open>
  Log records and their byte format: \<^verbatim>\<open>recovery/log_defs.h\<close>, the record classes of
  \<^verbatim>\<open>recovery/log_manager.h\<close> and their (de)serialisation in \<^verbatim>\<open>recovery/log_manager.cpp\<close>. The class
  of a record and its \<^verbatim>\<open>log_type_\<close> always agree, so the type is read off the payload.
\<close>

section \<open>Layout\<close>

definition OFFSET_LOG_TYPE :: nat where "OFFSET_LOG_TYPE = 0"
definition LOG_OFFSET_LSN :: nat where "LOG_OFFSET_LSN = 4"
definition OFFSET_LOG_TOT_LEN :: nat where "OFFSET_LOG_TOT_LEN = 8"
definition OFFSET_LOG_TID :: nat where "OFFSET_LOG_TID = 12"
definition OFFSET_PREV_LSN :: nat where "OFFSET_PREV_LSN = 16"
definition OFFSET_LOG_DATA :: nat where "OFFSET_LOG_DATA = 20"
definition LOG_HEADER_SIZE :: nat where "LOG_HEADER_SIZE = 20"
definition LOG_BUFFER_SIZE :: nat where "LOG_BUFFER_SIZE = 1024 * PAGE_SIZE"

definition INVALID_TXN_ID :: int where "INVALID_TXN_ID = -1"

lemmas log_offsets = OFFSET_LOG_TYPE_def LOG_OFFSET_LSN_def OFFSET_LOG_TOT_LEN_def OFFSET_LOG_TID_def
  OFFSET_PREV_LSN_def OFFSET_LOG_DATA_def LOG_HEADER_SIZE_def

section \<open>Records\<close>

datatype log_type = LOG_UPDATE | LOG_INSERT | LOG_DELETE | LOG_BEGIN | LOG_COMMIT | LOG_ABORT

fun log_type_code :: "log_type \<Rightarrow> int" where
  "log_type_code LOG_UPDATE = 0"
| "log_type_code LOG_INSERT = 1"
| "log_type_code LOG_DELETE = 2"
| "log_type_code LOG_BEGIN = 3"
| "log_type_code LOG_COMMIT = 4"
| "log_type_code LOG_ABORT = 5"

datatype log_body =
    BeginBody | CommitBody | AbortBody
  | InsertBody bytes rid string
  | DeleteBody bytes rid string
  | UpdateBody bytes bytes rid string

record log_record =
  lsn :: int
  log_tot_len :: "32 word"
  log_tid :: int
  log_prev_lsn :: int
  body :: log_body

fun body_type :: "log_body \<Rightarrow> log_type" where
  "body_type BeginBody = LOG_BEGIN"
| "body_type CommitBody = LOG_COMMIT"
| "body_type AbortBody = LOG_ABORT"
| "body_type (InsertBody _ _ _) = LOG_INSERT"
| "body_type (DeleteBody _ _ _) = LOG_DELETE"
| "body_type (UpdateBody _ _ _ _) = LOG_UPDATE"

abbreviation log_type_of :: "log_record \<Rightarrow> log_type" where
  "log_type_of r \<equiv> body_type (body r)"

text \<open>The constructors.\<close>

definition BeginLogRecord :: "int \<Rightarrow> log_record" where
  "BeginLogRecord t = \<lparr>lsn = INVALID_LSN, log_tot_len = of_nat LOG_HEADER_SIZE, log_tid = t,
     log_prev_lsn = INVALID_LSN, body = BeginBody\<rparr>"

definition CommitLogRecord :: "int \<Rightarrow> log_record" where
  "CommitLogRecord t = \<lparr>lsn = INVALID_LSN, log_tot_len = of_nat LOG_HEADER_SIZE, log_tid = t,
     log_prev_lsn = INVALID_LSN, body = CommitBody\<rparr>"

definition AbortLogRecord :: "int \<Rightarrow> log_record" where
  "AbortLogRecord t = \<lparr>lsn = INVALID_LSN, log_tot_len = of_nat LOG_HEADER_SIZE, log_tid = t,
     log_prev_lsn = INVALID_LSN, body = AbortBody\<rparr>"

definition InsertLogRecord :: "int \<Rightarrow> bytes \<Rightarrow> rid \<Rightarrow> string \<Rightarrow> log_record" where
  "InsertLogRecord t v r tab = \<lparr>lsn = INVALID_LSN,
     log_tot_len = of_nat LOG_HEADER_SIZE + 4 + of_nat (length v) + 8 + (4 + of_nat (length tab)),
     log_tid = t, log_prev_lsn = INVALID_LSN, body = InsertBody v r tab\<rparr>"

definition DeleteLogRecord :: "int \<Rightarrow> bytes \<Rightarrow> rid \<Rightarrow> string \<Rightarrow> log_record" where
  "DeleteLogRecord t v r tab = \<lparr>lsn = INVALID_LSN,
     log_tot_len = of_nat LOG_HEADER_SIZE + (4 + of_nat (length v) + 8 + 4 + of_nat (length tab)),
     log_tid = t, log_prev_lsn = INVALID_LSN, body = DeleteBody v r tab\<rparr>"

definition UpdateLogRecord :: "int \<Rightarrow> bytes \<Rightarrow> bytes \<Rightarrow> rid \<Rightarrow> string \<Rightarrow> log_record" where
  "UpdateLogRecord t old new r tab = \<lparr>lsn = INVALID_LSN,
     log_tot_len = of_nat LOG_HEADER_SIZE +
       (2 * 4 + of_nat (length old) + of_nat (length new) + 8 + 4 + of_nat (length tab)),
     log_tid = t, log_prev_lsn = INVALID_LSN, body = UpdateBody old new r tab\<rparr>"

section \<open>Writing records\<close>

text \<open>The writes of \<^verbatim>\<open>serialize\<close> fill the destination from its start without gaps.\<close>

definition serialize_hdr :: "log_record \<Rightarrow> bytes" where
  "serialize_hdr r = enc_i32 (log_type_code (log_type_of r)) @ enc_i32 (lsn r) @ enc_u32 (log_tot_len r) @
     enc_i32 (log_tid r) @ enc_i32 (log_prev_lsn r)"

definition serialize_record :: "bytes \<Rightarrow> bytes" where
  "serialize_record v = enc_i32 (int (length v)) @ v"

definition serialize_rid :: "rid \<Rightarrow> bytes" where
  "serialize_rid r = enc_i32 (page_no r) @ enc_i32 (slot_no r)"

definition serialize_tail :: "rid \<Rightarrow> string \<Rightarrow> bytes" where
  "serialize_tail r tab = serialize_rid r @ enc_u32 (of_nat (length tab)) @ str_bytes tab"

definition insert_serialize :: "bytes \<Rightarrow> rid \<Rightarrow> string \<Rightarrow> bytes" where
  "insert_serialize v r tab =
     enc_i32 (int (length v)) @ v @ serialize_rid r @ enc_u32 (of_nat (length tab)) @ str_bytes tab"

definition delete_serialize :: "bytes \<Rightarrow> rid \<Rightarrow> string \<Rightarrow> bytes" where
  "delete_serialize v r tab = serialize_record v @ serialize_tail r tab"

definition update_serialize :: "bytes \<Rightarrow> bytes \<Rightarrow> rid \<Rightarrow> string \<Rightarrow> bytes" where
  "update_serialize old new r tab = serialize_record old @ serialize_record new @ serialize_tail r tab"

text \<open>The virtual call: what each class writes behind the header.\<close>

fun serialize_body :: "log_body \<Rightarrow> bytes" where
  "serialize_body (InsertBody v r tab) = insert_serialize v r tab"
| "serialize_body (DeleteBody v r tab) = delete_serialize v r tab"
| "serialize_body (UpdateBody old new r tab) = update_serialize old new r tab"
| "serialize_body _ = []"

lemma class_serialize [simp]:
  "insert_serialize v r tab = serialize_record v @ serialize_tail r tab"
  "delete_serialize v r tab = serialize_record v @ serialize_tail r tab"
  "update_serialize old new r tab = serialize_record old @ serialize_record new @ serialize_tail r tab"
  by (simp_all add: insert_serialize_def delete_serialize_def update_serialize_def serialize_record_def
      serialize_tail_def)

definition serialize :: "log_record \<Rightarrow> bytes" where
  "serialize r = serialize_hdr r @ serialize_body (body r)"

section \<open>Reading records\<close>

text \<open>
  Reading past the end of the source, which is undefined in C++, and a negative size, which makes
  the allocation throw, are the result \<open>None\<close>.
\<close>

definition bytes_str :: "bytes \<Rightarrow> string" where
  "bytes_str bs = map (\<lambda>b. char_of (unat b)) bs"

definition deserialize_record :: "bytes \<Rightarrow> nat \<Rightarrow> (bytes \<times> nat) option" where
  "deserialize_record src offset =
     (if offset + 4 > length src then None
      else let size = get_i32 src offset in
           if size < 0 \<or> int (offset + 4) + size > int (length src) then None
           else Some (slice src (offset + 4) (nat size), offset + 4 + nat size))"

definition deserialize_tail :: "bytes \<Rightarrow> nat \<Rightarrow> (rid \<times> string) option" where
  "deserialize_tail src offset =
     (if offset + 12 > length src then None
      else let r = Rid (get_i32 src offset) (get_i32 src (offset + 4)); size = unat (get_u32 src (offset + 8)) in
           if offset + 12 + size > length src then None
           else Some (r, bytes_str (slice src (offset + 12) size)))"

text \<open>
  \<^verbatim>\<open>make_log_record\<close> throws on an unknown type. Each class's \<^verbatim>\<open>deserialize\<close> is a branch here.
\<close>

definition make_log_record :: "int \<Rightarrow> rmdb_error + log_type" where
  "make_log_record code =
     (if code = 1 then Inr LOG_INSERT else if code = 2 then Inr LOG_DELETE
      else if code = 0 then Inr LOG_UPDATE else if code = 3 then Inr LOG_BEGIN
      else if code = 4 then Inr LOG_COMMIT else if code = 5 then Inr LOG_ABORT
      else Inl (InternalError ''unknown log record type''))"

definition insert_deserialize :: "bytes \<Rightarrow> log_body option" where
  "insert_deserialize src =
     (case deserialize_record src OFFSET_LOG_DATA of None \<Rightarrow> None | Some (v, off) \<Rightarrow>
        (case deserialize_tail src off of None \<Rightarrow> None | Some (r, tab) \<Rightarrow> Some (InsertBody v r tab)))"

definition delete_deserialize :: "bytes \<Rightarrow> log_body option" where
  "delete_deserialize src =
     (case deserialize_record src OFFSET_LOG_DATA of None \<Rightarrow> None | Some (v, off) \<Rightarrow>
        (case deserialize_tail src off of None \<Rightarrow> None | Some (r, tab) \<Rightarrow> Some (DeleteBody v r tab)))"

definition update_deserialize :: "bytes \<Rightarrow> log_body option" where
  "update_deserialize src =
     (case deserialize_record src OFFSET_LOG_DATA of None \<Rightarrow> None | Some (old, off) \<Rightarrow>
        (case deserialize_record src off of None \<Rightarrow> None | Some (new, off') \<Rightarrow>
           (case deserialize_tail src off' of None \<Rightarrow> None
            | Some (r, tab) \<Rightarrow> Some (UpdateBody old new r tab))))"

definition deserialize_body :: "log_type \<Rightarrow> bytes \<Rightarrow> log_body option" where
  "deserialize_body ty src =
     (case ty of
        LOG_BEGIN \<Rightarrow> Some BeginBody | LOG_COMMIT \<Rightarrow> Some CommitBody | LOG_ABORT \<Rightarrow> Some AbortBody
      | LOG_INSERT \<Rightarrow> insert_deserialize src
      | LOG_DELETE \<Rightarrow> delete_deserialize src
      | LOG_UPDATE \<Rightarrow> update_deserialize src)"

definition deserialize :: "log_type \<Rightarrow> bytes \<Rightarrow> log_record option" where
  "deserialize ty src =
     map_option (\<lambda>b. \<lparr>lsn = get_i32 src LOG_OFFSET_LSN, log_tot_len = get_u32 src OFFSET_LOG_TOT_LEN,
                      log_tid = get_i32 src OFFSET_LOG_TID, log_prev_lsn = get_i32 src OFFSET_PREV_LSN,
                      body = b\<rparr>) (deserialize_body ty src)"

section \<open>Round trip\<close>

lemma slice_at: "off = length xs \<Longrightarrow> n = length ys \<Longrightarrow> slice (xs @ ys @ zs) off n = ys"
  by (simp add: slice_def)

lemma length_serialize_parts [simp]:
  "length (serialize_hdr r) = 20" "length (serialize_record v) = 4 + length v"
  "length (serialize_rid i) = 8" "length (serialize_tail i tab) = 12 + length tab"
  by (simp_all add: serialize_hdr_def serialize_record_def serialize_rid_def serialize_tail_def str_bytes_def)

lemma bytes_str_bytes [simp]: "bytes_str (str_bytes s) = s"
proof -
  have "(of_char c :: nat) < 256" for c by simp
  then have "unat (of_nat (of_char c) :: byte) = of_char c" for c by (simp add: unat_of_nat)
  then show ?thesis by (simp add: bytes_str_def str_bytes_def comp_def)
qed

text \<open>A record that fits the format: numbers of 32 bits and a length that is the real one.\<close>

definition rid_i32 :: "rid \<Rightarrow> bool" where
  "rid_i32 r \<longleftrightarrow> is_i32 (page_no r) \<and> is_i32 (slot_no r)"

fun body_ok :: "log_body \<Rightarrow> bool" where
  "body_ok (InsertBody v r tab) \<longleftrightarrow> rid_i32 r"
| "body_ok (DeleteBody v r tab) \<longleftrightarrow> rid_i32 r"
| "body_ok (UpdateBody old new r tab) \<longleftrightarrow> rid_i32 r"
| "body_ok _ \<longleftrightarrow> True"

definition log_ok :: "log_record \<Rightarrow> bool" where
  "log_ok r \<longleftrightarrow> is_i32 (lsn r) \<and> is_i32 (log_tid r) \<and> is_i32 (log_prev_lsn r) \<and> body_ok (body r) \<and>
     length (serialize r) \<le> LOG_BUFFER_SIZE \<and> log_tot_len r = of_nat (length (serialize r))"

lemma deserialize_record_at:
  assumes "off = length xs" and "length v < 2 ^ 31"
  shows "deserialize_record (xs @ serialize_record v @ zs) off = Some (v, off + 4 + length v)"
proof -
  have "slice (xs @ serialize_record v @ zs) off 4 = enc_i32 (int (length v))"
    using slice_at [of off xs 4 "enc_i32 (int (length v))" "v @ zs"] assms(1)
    by (simp add: serialize_record_def)
  moreover have "slice (xs @ serialize_record v @ zs) (off + 4) (length v) = v"
    using slice_at [of "off + 4" "xs @ enc_i32 (int (length v))" "length v" v zs] assms(1)
    by (simp add: serialize_record_def)
  ultimately show ?thesis
    using assms by (simp add: deserialize_record_def is_i32_def)
qed

lemma deserialize_tail_at:
  assumes "off = length xs" and "rid_i32 r" and "length tab < 2 ^ 32"
  shows "deserialize_tail (xs @ serialize_tail r tab) off = Some (r, tab)"
proof -
  let ?s = "xs @ serialize_tail r tab"
  have "slice ?s off 4 = enc_i32 (page_no r)" "slice ?s (off + 4) 4 = enc_i32 (slot_no r)"
    "slice ?s (off + 8) 4 = enc_u32 (of_nat (length tab))" "slice ?s (off + 12) (length tab) = str_bytes tab"
    unfolding assms(1) serialize_tail_def serialize_rid_def by (simp_all add: slice_def str_bytes_def)
  moreover have "unat (of_nat (length tab) :: 32 word) = length tab"
    using assms(3) by (simp add: unat_of_nat)
  moreover have "r = Rid (page_no r) (slot_no r)" by simp
  ultimately show ?thesis
    using assms(1,2) unfolding deserialize_tail_def rid_i32_def Let_def by simp
qed

lemma serialize_bounds:
  assumes "length (serialize r) \<le> LOG_BUFFER_SIZE"
  shows "length (serialize_body (body r)) < 2 ^ 31"
  using assms by (simp add: serialize_def LOG_BUFFER_SIZE_def PAGE_SIZE_def)

lemma deserialize_body_serialize:
  assumes "body_ok b" and "length (serialize_body b) < 2 ^ 31" and "length h = 20"
  shows "deserialize_body (body_type b) (h @ serialize_body b) = Some b"
proof (cases b)
  case (InsertBody v r tab)
  show ?thesis
    using assms deserialize_record_at [of 20 h v "serialize_tail r tab"]
      deserialize_tail_at [of "24 + length v" "h @ serialize_record v" r tab]
    by (simp add: InsertBody deserialize_body_def insert_deserialize_def log_offsets)
next
  case (DeleteBody v r tab)
  show ?thesis
    using assms deserialize_record_at [of 20 h v "serialize_tail r tab"]
      deserialize_tail_at [of "24 + length v" "h @ serialize_record v" r tab]
    by (simp add: DeleteBody deserialize_body_def delete_deserialize_def log_offsets)
next
  case (UpdateBody old new r tab)
  show ?thesis
    using assms deserialize_record_at [of 20 h old "serialize_record new @ serialize_tail r tab"]
      deserialize_record_at [of "24 + length old" "h @ serialize_record old" new "serialize_tail r tab"]
      deserialize_tail_at [of "28 + length old + length new" "h @ serialize_record old @ serialize_record new" r tab]
    by (simp add: UpdateBody deserialize_body_def update_deserialize_def log_offsets)
qed (simp_all add: deserialize_body_def)

lemma serialize_fields:
  shows "get_u32 (serialize r @ zs) OFFSET_LOG_TOT_LEN = log_tot_len r"
    and "is_i32 (lsn r) \<Longrightarrow> get_i32 (serialize r @ zs) LOG_OFFSET_LSN = lsn r"
    and "is_i32 (log_tid r) \<Longrightarrow> get_i32 (serialize r @ zs) OFFSET_LOG_TID = log_tid r"
    and "is_i32 (log_prev_lsn r) \<Longrightarrow> get_i32 (serialize r @ zs) OFFSET_PREV_LSN = log_prev_lsn r"
    and "get_i32 (serialize r @ zs) OFFSET_LOG_TYPE = log_type_code (log_type_of r)"
proof -
  have "is_i32 (log_type_code (log_type_of r))" by (cases "log_type_of r") (simp_all add: is_i32_def)
  moreover have "slice (serialize r @ zs) OFFSET_LOG_TYPE 4 = enc_i32 (log_type_code (log_type_of r))"
    "slice (serialize r @ zs) LOG_OFFSET_LSN 4 = enc_i32 (lsn r)"
    "slice (serialize r @ zs) OFFSET_LOG_TOT_LEN 4 = enc_u32 (log_tot_len r)"
    "slice (serialize r @ zs) OFFSET_LOG_TID 4 = enc_i32 (log_tid r)"
    "slice (serialize r @ zs) OFFSET_PREV_LSN 4 = enc_i32 (log_prev_lsn r)"
    unfolding serialize_def serialize_hdr_def log_offsets by (simp_all add: slice_def)
  ultimately show "get_u32 (serialize r @ zs) OFFSET_LOG_TOT_LEN = log_tot_len r"
    and "is_i32 (lsn r) \<Longrightarrow> get_i32 (serialize r @ zs) LOG_OFFSET_LSN = lsn r"
    and "is_i32 (log_tid r) \<Longrightarrow> get_i32 (serialize r @ zs) OFFSET_LOG_TID = log_tid r"
    and "is_i32 (log_prev_lsn r) \<Longrightarrow> get_i32 (serialize r @ zs) OFFSET_PREV_LSN = log_prev_lsn r"
    and "get_i32 (serialize r @ zs) OFFSET_LOG_TYPE = log_type_code (log_type_of r)"
    by simp_all
qed

lemma deserialize_serialize:
  assumes "log_ok r"
  shows "deserialize (log_type_of r) (serialize r) = Some r"
  using assms serialize_fields [of r "[]"] serialize_bounds [of r]
    deserialize_body_serialize [of "body r" "serialize_hdr r"]
  by (simp add: deserialize_def log_ok_def) (simp add: serialize_def)

lemma make_log_record_code [simp]: "make_log_record (log_type_code t) = Inr t"
  by (cases t) (simp_all add: make_log_record_def)

text \<open>
  Claim C22. Log records survive their byte format: for every record of any of the six kinds that fits the
  log buffer, the type code in the serialised header selects the right class and that class's
  \<^verbatim>\<open>deserialize\<close> restores every field, the before and after images included; the length field of the
  header is the number of bytes written.
\<close>

theorem log_record_roundtrip:
  assumes "log_ok r"
  shows "make_log_record (get_i32 (serialize r) OFFSET_LOG_TYPE) = Inr (log_type_of r) \<and>
    deserialize (log_type_of r) (serialize r) = Some r \<and>
    unat (get_u32 (serialize r) OFFSET_LOG_TOT_LEN) = length (serialize r)"
proof -
  have "length (serialize r) < 2 ^ 32"
    using assms by (simp add: log_ok_def LOG_BUFFER_SIZE_def PAGE_SIZE_def)
  then have "unat (of_nat (length (serialize r)) :: 32 word) = length (serialize r)"
    by (simp add: unat_of_nat)
  with assms serialize_fields [of r "[]"] deserialize_serialize [OF assms] show ?thesis
    by (simp add: log_ok_def)
qed

text \<open>The constructors build records that fit the format.\<close>

lemma constructed_log_ok:
  "is_i32 t \<Longrightarrow> log_ok (BeginLogRecord t)" "is_i32 t \<Longrightarrow> log_ok (CommitLogRecord t)"
  "is_i32 t \<Longrightarrow> log_ok (AbortLogRecord t)"
  "is_i32 t \<Longrightarrow> rid_i32 r \<Longrightarrow> length v + length tab + 36 \<le> LOG_BUFFER_SIZE \<Longrightarrow> log_ok (InsertLogRecord t v r tab)"
  "is_i32 t \<Longrightarrow> rid_i32 r \<Longrightarrow> length v + length tab + 36 \<le> LOG_BUFFER_SIZE \<Longrightarrow> log_ok (DeleteLogRecord t v r tab)"
  "is_i32 t \<Longrightarrow> rid_i32 r \<Longrightarrow> length v + length w + length tab + 40 \<le> LOG_BUFFER_SIZE \<Longrightarrow>
     log_ok (UpdateLogRecord t v w r tab)"
  by (simp_all add: log_ok_def BeginLogRecord_def CommitLogRecord_def AbortLogRecord_def InsertLogRecord_def
      DeleteLogRecord_def UpdateLogRecord_def serialize_def LOG_HEADER_SIZE_def INVALID_LSN_def is_i32_def
      LOG_BUFFER_SIZE_def PAGE_SIZE_def)

theorem log_record_roundtrip_witness:
  "deserialize LOG_UPDATE (serialize (UpdateLogRecord 3 [1, 2] [3, 4] (Rid 1 5) ''t'')) =
     Some (UpdateLogRecord 3 [1, 2] [3, 4] (Rid 1 5) ''t'')"
proof -
  have "log_ok (UpdateLogRecord 3 [1, 2] [3, 4] (Rid 1 5) ''t'')"
    by (rule constructed_log_ok) (simp_all add: is_i32_def rid_i32_def LOG_BUFFER_SIZE_def PAGE_SIZE_def)
  from log_record_roundtrip [OF this] show ?thesis by (simp add: UpdateLogRecord_def)
qed

end
