(* ===== verification/Log_Manager.thy ===== *)
theory Log_Manager
  imports Log_Records
begin

text \<open>
  The log manager, \<^verbatim>\<open>recovery/log_manager.cpp\<close>, and the analysis pass of recovery,
  \<^verbatim>\<open>RecoveryManager::analyze\<close> in \<^verbatim>\<open>recovery/log_recovery.cpp\<close>, over the log file of the disk
  manager. Loops whose progress depends on what the file holds run on fuel: one more than the size
  of what they scan, which \<open>analyze_terminates\<close> shows to be enough for the analysis.
\<close>

section \<open>LogManager\<close>

record log_mgr =
  global_lsn :: int
  log_buffer :: bytes
  buf_offset :: int
  persist_lsn :: int
  initialized :: bool

type_synonym log_st = "log_mgr \<times> disk"

definition LogManager :: log_mgr where
  "LogManager = \<lparr>global_lsn = 0, log_buffer = zeros (LOG_BUFFER_SIZE + 1), buf_offset = 0,
     persist_lsn = INVALID_LSN, initialized = False\<rparr>"

fun lsn_loop :: "nat \<Rightarrow> int \<Rightarrow> int \<Rightarrow> int \<Rightarrow> disk \<Rightarrow> (int, disk) res" where
  "lsn_loop 0 file_size offset max_lsn d = Throw NonTermination d"
| "lsn_loop (Suc k) file_size offset max_lsn d =
     (if offset + int LOG_HEADER_SIZE \<le> file_size
      then seqE (read_log (int LOG_HEADER_SIZE) offset d)
        (\<lambda>(n, header) d1.
           if n \<noteq> int LOG_HEADER_SIZE then Ret max_lsn d1
           else let len = get_u32 header OFFSET_LOG_TOT_LEN; l = get_i32 header LOG_OFFSET_LSN in
                if unat len < LOG_HEADER_SIZE \<or> offset + sint len > file_size then Ret max_lsn d1
                else lsn_loop k file_size (wrap32 (offset + uint len)) (max max_lsn l) d1)
      else Ret max_lsn d)"

definition initialize_lsn :: "log_st \<Rightarrow> (unit, log_st) res" where
  "initialize_lsn st =
     (case st of (lm, d) \<Rightarrow>
        if initialized lm then Ret () st
        else let lm1 = lm\<lparr>initialized := True\<rparr>; file_size = get_file_size LOG_FILE_NAME d in
             (case lsn_loop (Suc (nat file_size)) file_size 0 INVALID_LSN d of
                (Inl e, d1) \<Rightarrow> Throw e (lm1, d1)
              | (Inr m, d1) \<Rightarrow> Ret () (lm1\<lparr>global_lsn := wrap32 (m + 1), persist_lsn := m\<rparr>, d1)))"

text \<open>The loop that finds the last log number among the records just written.\<close>

fun persist_loop :: "nat \<Rightarrow> bytes \<Rightarrow> int \<Rightarrow> int \<Rightarrow> int \<Rightarrow> rmdb_error + int" where
  "persist_loop 0 buf end_off offset p = Inl NonTermination"
| "persist_loop (Suc k) buf end_off offset p =
     (if offset < end_off
      then persist_loop k buf end_off
             (wrap32 (offset + uint (get_u32 buf (nat offset + OFFSET_LOG_TOT_LEN))))
             (get_i32 buf (nat offset + LOG_OFFSET_LSN))
      else Inr p)"

definition flush_log_to_disk_unlocked :: "log_st \<Rightarrow> (unit, log_st) res" where
  "flush_log_to_disk_unlocked st =
     (case st of (lm, d) \<Rightarrow>
        if buf_offset lm = 0 then Ret () st
        else (case write_log (take (nat (buf_offset lm)) (log_buffer lm)) d of
                (Inl e, d1) \<Rightarrow> Throw e (lm, d1)
              | (Inr _, d1) \<Rightarrow>
                  (case persist_loop (Suc (nat (buf_offset lm))) (log_buffer lm) (buf_offset lm) 0 (persist_lsn lm) of
                     Inl e \<Rightarrow> Throw e (lm, d1)
                   | Inr p \<Rightarrow> Ret () (lm\<lparr>persist_lsn := p, buf_offset := 0,
                                       log_buffer := zeros (length (log_buffer lm))\<rparr>, d1))))"

definition buffer_full :: "log_mgr \<Rightarrow> int \<Rightarrow> bool" where
  "buffer_full lm append_size \<longleftrightarrow> buf_offset lm + append_size > int LOG_BUFFER_SIZE"

text \<open>The numbered record, serialised at the end of the buffer.\<close>

definition append_record :: "log_record \<Rightarrow> log_mgr \<Rightarrow> log_mgr" where
  "append_record r lm =
     lm\<lparr>global_lsn := wrap32 (global_lsn lm + 1),
        log_buffer := blit (log_buffer lm) (nat (buf_offset lm)) (serialize (r\<lparr>lsn := global_lsn lm\<rparr>)),
        buf_offset := wrap32 (buf_offset lm + uint (log_tot_len r))\<rparr>"

definition add_log_to_buffer :: "log_record \<Rightarrow> log_st \<Rightarrow> (int, log_st) res" where
  "add_log_to_buffer r st =
     (if unat (log_tot_len r) > LOG_BUFFER_SIZE then Throw (InternalError ''invalid log record size'') st
      else seqE (initialize_lsn st)
        (\<lambda>_ st1. seqE (if buffer_full (fst st1) (sint (log_tot_len r))
                       then flush_log_to_disk_unlocked st1 else Ret () st1)
           (\<lambda>_ st2. let l = global_lsn (fst st2) in
              seqE (flush_log_to_disk_unlocked (append_record r (fst st2), snd st2))
                (\<lambda>_ st3. Ret l st3))))"

definition flush_log_to_disk :: "log_st \<Rightarrow> (unit, log_st) res" where
  "flush_log_to_disk st = seqE (initialize_lsn st) (\<lambda>_ st1. flush_log_to_disk_unlocked st1)"

section \<open>RecoveryManager::analyze\<close>

record recovery =
  rec_logs :: "log_record list"
  committed_txns :: "int set"
  aborted_txns :: "int set"

text \<open>
  A record whose payload points outside of its own bytes makes the program read outside of the
  vector, which is undefined; the model gives \<open>OutOfRange\<close>.
\<close>

fun analyze_loop :: "nat \<Rightarrow> int \<Rightarrow> int \<Rightarrow> recovery \<Rightarrow> disk \<Rightarrow> (recovery, disk) res" where
  "analyze_loop 0 file_size offset rc d = Throw NonTermination d"
| "analyze_loop (Suc k) file_size offset rc d =
     (if offset + int LOG_HEADER_SIZE \<le> file_size
      then seqE (read_log (int LOG_HEADER_SIZE) offset d)
        (\<lambda>(n, header) d1.
           if n \<noteq> int LOG_HEADER_SIZE then Ret rc d1
           else let ty = get_i32 header OFFSET_LOG_TYPE; len = unat (get_u32 header OFFSET_LOG_TOT_LEN) in
                if len < LOG_HEADER_SIZE \<or> len > LOG_BUFFER_SIZE \<or> offset + int len > file_size then Ret rc d1
                else seqE (read_log (int len) offset d1)
                  (\<lambda>(m, bs) d2.
                     if m \<noteq> int len then Ret rc d2
                     else case make_log_record ty of
                            Inl e \<Rightarrow> Throw e d2
                          | Inr t \<Rightarrow>
                              (case deserialize t bs of
                                 None \<Rightarrow> Throw OutOfRange d2
                               | Some r \<Rightarrow>
                                   analyze_loop k file_size (offset + int len)
                                     (rc\<lparr>rec_logs := rec_logs rc @ [r],
                                         committed_txns := (if log_type_of r = LOG_COMMIT
                                           then insert (log_tid r) (committed_txns rc) else committed_txns rc),
                                         aborted_txns := (if log_type_of r = LOG_ABORT
                                           then insert (log_tid r) (aborted_txns rc) else aborted_txns rc)\<rparr>) d2)))
      else Ret rc d)"

definition analyze :: "disk \<Rightarrow> (recovery, disk) res" where
  "analyze d =
     (let rc = \<lparr>rec_logs = [], committed_txns = {}, aborted_txns = {}\<rparr>;
          file_size = get_file_size LOG_FILE_NAME d
      in if file_size \<le> 0 then Ret rc d
         else analyze_loop (Suc (nat file_size)) file_size 0 rc d)"

section \<open>The log file\<close>

text \<open>The log is open, holds \<open>c\<close>, and no call is going to fail.\<close>

definition log_at :: "disk \<Rightarrow> bytes \<Rightarrow> bool" where
  "log_at d c \<longleftrightarrow> log_fd d \<noteq> -1 \<and> map_of (kfd d) (log_fd d) = Some LOG_FILE_NAME \<and>
     fs d LOG_FILE_NAME = Some c \<and> io d = [] \<and> length c < 2 ^ 31"

lemma log_at_size: "log_at d c \<Longrightarrow> get_file_size LOG_FILE_NAME d = int (length c)"
  by (simp add: log_at_def get_file_size_def is_i32_def)

lemma read_log_at:
  assumes "log_at d c" and "off \<le> length c" and "n \<le> length c - off" and "0 < n"
  shows "read_log (int n) (int off) d = Ret (int n, slice c off n) d"
proof -
  have "min (int n) (int (length c) - int off) = int n" using assms(2,3) by simp
  with assms log_at_size [OF assms(1)] show ?thesis
    by (simp add: read_log_def ensure_log_def log_at_def fd_file_def)
qed

lemma write_log_at:
  assumes "log_at d c" and "length c + length bs < 2 ^ 31"
  shows "\<exists>d'. write_log bs d = Ret () d' \<and> log_at d' (c @ bs)"
  using assms by (simp add: write_log_def ensure_log_def log_at_def fd_file_def set_fd_file_def)

definition logs_bytes :: "log_record list \<Rightarrow> bytes" where
  "logs_bytes rs = concat (map serialize rs)"

lemma logs_bytes_simps [simp]:
  "logs_bytes [] = []" "logs_bytes (r # rs) = serialize r @ logs_bytes rs"
  "logs_bytes (rs @ rs') = logs_bytes rs @ logs_bytes rs'"
  by (simp_all add: logs_bytes_def)

lemma log_ok_len:
  assumes "log_ok r"
  shows "unat (log_tot_len r) = length (serialize r)" "sint (log_tot_len r) = int (length (serialize r))"
    "uint (log_tot_len r) = int (length (serialize r))" "20 \<le> length (serialize r)"
    "length (serialize r) \<le> LOG_BUFFER_SIZE"
proof -
  show b: "length (serialize r) \<le> LOG_BUFFER_SIZE" using assms by (simp add: log_ok_def)
  have w: "log_tot_len r = of_nat (length (serialize r))" using assms by (simp add: log_ok_def)
  have lt: "length (serialize r) < 2 ^ 31" using b by (simp add: LOG_BUFFER_SIZE_def PAGE_SIZE_def)
  then show u: "unat (log_tot_len r) = length (serialize r)" by (simp add: w unat_of_nat)
  then show "uint (log_tot_len r) = int (length (serialize r))" by (metis of_nat_unat)
  then show "sint (log_tot_len r) = int (length (serialize r))"
    using lt by (simp add: sint_uint signed_take_bit_int_eq_self)
  show "20 \<le> length (serialize r)" by (simp add: serialize_def)
qed

lemma logs_bytes_len: "list_all log_ok rs \<Longrightarrow> 20 * length rs \<le> length (logs_bytes rs)"
  by (induction rs) (auto dest: log_ok_len(4))

text \<open>What the header of the record at some position of a log reads as.\<close>

lemma header_fields:
  assumes "log_ok r"
  shows "get_u32 (slice (p @ serialize r @ q) (length p) LOG_HEADER_SIZE) OFFSET_LOG_TOT_LEN = log_tot_len r"
    and "get_i32 (slice (p @ serialize r @ q) (length p) LOG_HEADER_SIZE) LOG_OFFSET_LSN = lsn r"
    and "get_i32 (slice (p @ serialize r @ q) (length p) LOG_HEADER_SIZE) OFFSET_LOG_TYPE =
      log_type_code (log_type_of r)"
proof -
  have "slice (p @ serialize r @ q) (length p) LOG_HEADER_SIZE = serialize_hdr r"
    by (simp add: slice_def serialize_def log_offsets)
  moreover have "slice (serialize r @ []) off 4 = slice (serialize_hdr r) off 4" if "off + 4 \<le> 20" for off
    using that by (simp add: serialize_def slice_append_left)
  ultimately show "get_u32 (slice (p @ serialize r @ q) (length p) LOG_HEADER_SIZE) OFFSET_LOG_TOT_LEN = log_tot_len r"
    "get_i32 (slice (p @ serialize r @ q) (length p) LOG_HEADER_SIZE) LOG_OFFSET_LSN = lsn r"
    "get_i32 (slice (p @ serialize r @ q) (length p) LOG_HEADER_SIZE) OFFSET_LOG_TYPE = log_type_code (log_type_of r)"
    using serialize_fields(1,2,5) [of r "[]"] assms by (simp_all add: log_offsets log_ok_def)
qed

definition max_lsn_of :: "log_record list \<Rightarrow> int \<Rightarrow> int" where
  "max_lsn_of rs m = fold (\<lambda>r m. max m (lsn r)) rs m"

lemma lsn_loop_ok:
  assumes "log_at d c" and "c = p @ logs_bytes rs" and "list_all log_ok rs" and "length rs < k"
  shows "lsn_loop k (int (length c)) (int (length p)) m d = Ret (max_lsn_of rs m) d"
  using assms(2-)
proof (induction rs arbitrary: k p m)
  case Nil
  then show ?case by (cases k) (simp_all add: max_lsn_of_def log_offsets)
next
  case (Cons r rs)
  then obtain k' where k: "k = Suc k'" by (cases k) auto
  have r: "log_ok r" and c: "c = (p @ serialize r) @ logs_bytes rs" using Cons.prems by auto
  note len = log_ok_len [OF r]
  have le: "length p + length (serialize r) \<le> length c" using c by simp
  have i: "is_i32 (int (length p) + int (length (serialize r)))"
    using le assms(1) by (simp add: is_i32_def log_at_def)
  have hdr: "read_log (int LOG_HEADER_SIZE) (int (length p)) d = Ret (int LOG_HEADER_SIZE, slice c (length p) LOG_HEADER_SIZE) d"
    by (rule read_log_at [OF assms(1)]) (use le len(4) in \<open>auto simp: LOG_HEADER_SIZE_def\<close>)
  have f: "get_u32 (slice c (length p) LOG_HEADER_SIZE) OFFSET_LOG_TOT_LEN = log_tot_len r"
    "get_i32 (slice c (length p) LOG_HEADER_SIZE) LOG_OFFSET_LSN = lsn r"
    using header_fields [OF r, of p "logs_bytes rs"] c by simp_all
  have IH: "lsn_loop k' (int (length c)) (int (length p + length (serialize r))) (max m (lsn r)) d =
      Ret (max_lsn_of rs (max m (lsn r))) d"
    using Cons.IH [OF c, of k' "max m (lsn r)"] Cons.prems k by simp
  have "\<not> (unat (log_tot_len r) < LOG_HEADER_SIZE \<or> int (length p) + sint (log_tot_len r) > int (length c))"
    "int (length p) + int LOG_HEADER_SIZE \<le> int (length c)"
    using len le by (auto simp: LOG_HEADER_SIZE_def)
  moreover have "wrap32 (int (length p) + uint (log_tot_len r)) = int (length p + length (serialize r))"
    using i len(3) by simp
  ultimately show ?case
    unfolding k lsn_loop.simps hdr using IH by (simp add: f max_lsn_of_def)
qed

section \<open>Appending\<close>

text \<open>The state of the manager on a log that holds the records \<open>rs\<close>.\<close>

definition log_inv :: "log_record list \<Rightarrow> log_st \<Rightarrow> bool" where
  "log_inv rs st \<longleftrightarrow> log_at (snd st) (logs_bytes rs) \<and> list_all log_ok rs \<and> buf_offset (fst st) = 0 \<and>
     length (log_buffer (fst st)) = LOG_BUFFER_SIZE + 1 \<and>
     (initialized (fst st) \<longrightarrow> global_lsn (fst st) = max_lsn_of rs INVALID_LSN + 1 \<and>
        persist_lsn (fst st) = max_lsn_of rs INVALID_LSN)"

definition next_lsn :: "log_record list \<Rightarrow> int" where
  "next_lsn rs = max_lsn_of rs INVALID_LSN + 1"

lemma next_lsn_pos: "0 \<le> next_lsn rs"
proof -
  have "m \<le> max_lsn_of rs m" for m
    by (induction rs arbitrary: m) (auto simp: max_lsn_of_def intro: order_trans [OF max.cobounded1])
  from this [of INVALID_LSN] show ?thesis by (simp add: next_lsn_def INVALID_LSN_def)
qed

lemma initialize_lsn_ok:
  assumes "log_inv rs st" and "is_i32 (next_lsn rs)"
  shows "\<exists>lm. initialize_lsn st = Ret () (lm, snd st) \<and> log_inv rs (lm, snd st) \<and> initialized lm"
proof -
  obtain lm d where st: "st = (lm, d)" by fastforce
  show ?thesis
  proof (cases "initialized lm")
    case True
    then show ?thesis using assms st by (simp add: initialize_lsn_def)
  next
    case False
    have d: "log_at d (logs_bytes rs)" and ok: "list_all log_ok rs" using assms st by (auto simp: log_inv_def)
    have "length rs < Suc (nat (int (length (logs_bytes rs))))"
      using logs_bytes_len [OF ok] by simp
    from lsn_loop_ok [OF d _ ok this, of "[]" INVALID_LSN]
    have "lsn_loop (Suc (nat (int (length (logs_bytes rs))))) (int (length (logs_bytes rs))) 0 INVALID_LSN d =
        Ret (max_lsn_of rs INVALID_LSN) d"
      by (simp del: lsn_loop.simps)
    with False assms st log_at_size [OF d] show ?thesis
      by (simp add: initialize_lsn_def log_inv_def next_lsn_def Let_def del: lsn_loop.simps)
  qed
qed

lemma blit_start: "length src \<le> length dst \<Longrightarrow> blit dst 0 src = src @ drop (length src) dst"
  by (simp add: blit_def)

lemma flush_one:
  assumes at: "log_at d c" and r: "log_ok r" and room: "length c + length (serialize r) < 2 ^ 31"
    and buf: "log_buffer lm = serialize r @ rest" and off: "buf_offset lm = int (length (serialize r))"
  shows "\<exists>d'. flush_log_to_disk_unlocked (lm, d) =
      Ret () (lm\<lparr>persist_lsn := lsn r, buf_offset := 0, log_buffer := zeros (length (log_buffer lm))\<rparr>, d') \<and>
    log_at d' (c @ serialize r)"
proof -
  note len = log_ok_len [OF r]
  obtain k where k: "nat (buf_offset lm) = Suc k" using off len(4) by (cases "nat (buf_offset lm)") auto
  have f: "get_u32 (log_buffer lm) OFFSET_LOG_TOT_LEN = log_tot_len r" "get_i32 (log_buffer lm) LOG_OFFSET_LSN = lsn r"
    unfolding buf using serialize_fields(1,2) [of r rest] r by (simp_all add: log_ok_def)
  have "is_i32 (int (length (serialize r)))" using room by (simp add: is_i32_def)
  then have p: "persist_loop (Suc (nat (buf_offset lm))) (log_buffer lm) (buf_offset lm) 0 (persist_lsn lm) = Inr (lsn r)"
    unfolding k using len off by (auto simp: f)
  from write_log_at [OF at room] obtain d' where
    w: "write_log (serialize r) d = Ret () d'" "log_at d' (c @ serialize r)" by blast
  have t: "take (nat (buf_offset lm)) (log_buffer lm) = serialize r" using buf off by simp
  have "buf_offset lm \<noteq> 0" using off len(4) by auto
  with w t p show ?thesis by (simp add: flush_log_to_disk_unlocked_def)
qed

lemma log_ok_lsn: "log_ok r \<Longrightarrow> is_i32 l \<Longrightarrow> log_ok (r\<lparr>lsn := l\<rparr>)"
  by (simp add: log_ok_def serialize_def)

lemma add_log_ok:
  assumes inv: "log_inv rs st" and r: "log_ok r"
    and room: "length (logs_bytes rs) + length (serialize r) < 2 ^ 31" and i: "is_i32 (next_lsn rs + 1)"
  shows "\<exists>st'. add_log_to_buffer r st = Ret (next_lsn rs) st' \<and>
    log_inv (rs @ [r\<lparr>lsn := next_lsn rs\<rparr>]) st'"
proof -
  have i0: "is_i32 (next_lsn rs)" using i next_lsn_pos [of rs] by (auto simp: is_i32_def)
  from initialize_lsn_ok [OF inv i0] obtain lm where
    init: "initialize_lsn st = Ret () (lm, snd st)" and inv1: "log_inv rs (lm, snd st)" "initialized lm" by blast
  let ?r = "r\<lparr>lsn := next_lsn rs\<rparr>" and ?lm = "append_record r lm"
  have ok': "log_ok ?r" using log_ok_lsn [OF r i0] .
  note len = log_ok_len [OF r]
  have same: "length (serialize ?r) = length (serialize r)" by (simp add: serialize_def)
  have g: "global_lsn lm = next_lsn rs" "buf_offset lm = 0" "length (log_buffer lm) = LOG_BUFFER_SIZE + 1"
    "log_at (snd st) (logs_bytes rs)"
    using inv1 by (auto simp: log_inv_def next_lsn_def)
  have "is_i32 (int (length (serialize r)))" using room by (simp add: is_i32_def)
  then have off: "buf_offset ?lm = int (length (serialize ?r))"
    using g(2) len(3) same by (simp add: append_record_def)
  have buf: "log_buffer ?lm = serialize ?r @ drop (length (serialize ?r)) (log_buffer lm)"
    using g len(5) same by (simp add: append_record_def blit_start)
  from flush_one [OF g(4) ok' _ buf off] room same obtain d' where
    fl: "flush_log_to_disk_unlocked (?lm, snd st) = Ret () (?lm\<lparr>persist_lsn := next_lsn rs, buf_offset := 0,
       log_buffer := zeros (length (log_buffer ?lm))\<rparr>, d')" and at: "log_at d' (logs_bytes rs @ serialize ?r)"
    by auto
  have m: "max_lsn_of (rs @ [?r]) INVALID_LSN = next_lsn rs"
    by (simp add: max_lsn_of_def next_lsn_def)
  have "\<not> unat (log_tot_len r) > LOG_BUFFER_SIZE" "\<not> buffer_full lm (sint (log_tot_len r))"
    using len g(2) by (auto simp: buffer_full_def)
  then have "add_log_to_buffer r st = Ret (next_lsn rs) (?lm\<lparr>persist_lsn := next_lsn rs, buf_offset := 0,
       log_buffer := zeros (length (log_buffer ?lm))\<rparr>, d')"
    using fl g(1) by (simp add: add_log_to_buffer_def init Let_def)
  moreover have "log_inv (rs @ [?r]) (?lm\<lparr>persist_lsn := next_lsn rs, buf_offset := 0,
       log_buffer := zeros (length (log_buffer ?lm))\<rparr>, d')"
    using at inv1 ok' g i m buf len(5) same by (simp add: log_inv_def append_record_def)
  ultimately show ?thesis by blast
qed

fun stamp :: "int \<Rightarrow> log_record list \<Rightarrow> log_record list" where
  "stamp l [] = []"
| "stamp l (r # rs) = r\<lparr>lsn := l\<rparr> # stamp (l + 1) rs"

text \<open>A sequence of calls, with the numbers they return.\<close>

fun add_logs :: "log_record list \<Rightarrow> log_st \<Rightarrow> (int list, log_st) res" where
  "add_logs [] st = Ret [] st"
| "add_logs (r # rs) st =
     seqE (add_log_to_buffer r st) (\<lambda>l st1. seqE (add_logs rs st1) (\<lambda>ls st2. Ret (l # ls) st2))"

lemma add_logs_ok:
  assumes "log_inv old st" and "list_all log_ok rs"
    and "length (logs_bytes old) + length (logs_bytes rs) < 2 ^ 31" and "is_i32 (next_lsn old + int (length rs))"
  shows "\<exists>st'. add_logs rs st = Ret (map lsn (stamp (next_lsn old) rs)) st' \<and>
    log_inv (old @ stamp (next_lsn old) rs) st'"
  using assms
proof (induction rs arbitrary: old st)
  case (Cons r rs)
  have b: "length (logs_bytes old) + length (serialize r) < 2 ^ 31" "is_i32 (next_lsn old + 1)"
    using Cons.prems(3,4) next_lsn_pos [of old] by (auto simp: is_i32_def)
  from add_log_ok [OF Cons.prems(1) _ b] Cons.prems(2) obtain st1 where
    a: "add_log_to_buffer r st = Ret (next_lsn old) st1" "log_inv (old @ [r\<lparr>lsn := next_lsn old\<rparr>]) st1" by auto
  let ?old = "old @ [r\<lparr>lsn := next_lsn old\<rparr>]"
  have n: "next_lsn ?old = next_lsn old + 1"
    by (simp add: next_lsn_def max_lsn_of_def)
  have "length (serialize (r\<lparr>lsn := next_lsn old\<rparr>)) = length (serialize r)" by (simp add: serialize_def)
  then have "length (logs_bytes ?old) + length (logs_bytes rs) < 2 ^ 31" "is_i32 (next_lsn ?old + int (length rs))"
    using Cons.prems(3,4) n by (auto simp: algebra_simps)
  from Cons.IH [OF a(2) _ this] Cons.prems(2) obtain st' where
    "add_logs rs st1 = Ret (map lsn (stamp (next_lsn ?old) rs)) st'" "log_inv (?old @ stamp (next_lsn ?old) rs) st'"
    by auto
  with a(1) n show ?case by auto
qed simp

section \<open>Analysis\<close>

definition finished :: "log_type \<Rightarrow> log_record list \<Rightarrow> int set" where
  "finished ty rs = {log_tid r | r. r \<in> set rs \<and> log_type_of r = ty}"

definition analyzed :: "log_record list \<Rightarrow> recovery" where
  "analyzed rs = \<lparr>rec_logs = rs, committed_txns = finished LOG_COMMIT rs, aborted_txns = finished LOG_ABORT rs\<rparr>"

lemma analyzed_snoc:
  "analyzed (rs @ [r]) = (analyzed rs)\<lparr>rec_logs := rs @ [r],
     committed_txns := (if log_type_of r = LOG_COMMIT then insert (log_tid r) (finished LOG_COMMIT rs) else finished LOG_COMMIT rs),
     aborted_txns := (if log_type_of r = LOG_ABORT then insert (log_tid r) (finished LOG_ABORT rs) else finished LOG_ABORT rs)\<rparr>"
  by (auto simp: analyzed_def finished_def)

text \<open>What may be left of the last record when a crash cuts its write short.\<close>

definition torn :: "bytes \<Rightarrow> bool" where
  "torn t \<longleftrightarrow> (\<exists>r n. log_ok r \<and> n < length (serialize r) \<and> t = take n (serialize r))"

lemma analyze_loop_torn:
  assumes at: "log_at d c" and c: "c = p @ t" and t: "torn t"
  shows "analyze_loop (Suc k) (int (length c)) (int (length p)) rc d = Ret rc d"
proof (cases "length t < LOG_HEADER_SIZE")
  case True
  then show ?thesis by (simp add: c)
next
  case False
  from t obtain r n where r: "log_ok r" and n: "n < length (serialize r)" and tt: "t = take n (serialize r)"
    by (auto simp: torn_def)
  have n20: "LOG_HEADER_SIZE \<le> n" using False tt n by simp
  note len = log_ok_len [OF r]
  have read: "read_log (int LOG_HEADER_SIZE) (int (length p)) d =
      Ret (int LOG_HEADER_SIZE, slice c (length p) LOG_HEADER_SIZE) d"
    by (rule read_log_at [OF at]) (use False c in \<open>auto simp: LOG_HEADER_SIZE_def\<close>)
  have "slice c (length p) LOG_HEADER_SIZE = slice (p @ serialize r @ []) (length p) LOG_HEADER_SIZE"
    using n20 n by (simp add: c tt slice_def min_def)
  then have f: "get_u32 (slice c (length p) LOG_HEADER_SIZE) OFFSET_LOG_TOT_LEN = log_tot_len r"
    using header_fields(1) [OF r, of p "[]"] by simp
  have "int (length p) + int (unat (log_tot_len r)) > int (length c)" using len(1) n tt c by simp
  moreover have "int (length p) + int LOG_HEADER_SIZE \<le> int (length c)" using False c by simp
  ultimately show ?thesis by (simp add: read f)
qed

lemma analyze_loop_ok:
  assumes at: "log_at d c" and t: "torn t"
    and "c = logs_bytes done @ logs_bytes rs @ t" and "list_all log_ok rs" and "length rs < k"
  shows "analyze_loop k (int (length c)) (int (length (logs_bytes done))) (analyzed done) d =
    Ret (analyzed (done @ rs)) d"
  using assms(3-)
proof (induction rs arbitrary: k "done")
  case Nil
  then obtain k' where "k = Suc k'" by (cases k) auto
  with Nil analyze_loop_torn [OF at _ t, of "logs_bytes done"] show ?case by simp
next
  case (Cons r rs)
  then obtain k' where k: "k = Suc k'" by (cases k) auto
  let ?p = "logs_bytes done"
  have r: "log_ok r" and c: "c = ?p @ serialize r @ (logs_bytes rs @ t)" using Cons.prems by auto
  note len = log_ok_len [OF r]
  have le: "length ?p + length (serialize r) \<le> length c" using c by simp
  have hdr: "read_log (int LOG_HEADER_SIZE) (int (length ?p)) d = Ret (int LOG_HEADER_SIZE, slice c (length ?p) LOG_HEADER_SIZE) d"
    by (rule read_log_at [OF at]) (use le len(4) in \<open>auto simp: LOG_HEADER_SIZE_def\<close>)
  have all: "read_log (int (length (serialize r))) (int (length ?p)) d = Ret (int (length (serialize r)), serialize r) d"
    using read_log_at [OF at, of "length ?p" "length (serialize r)"] le len(4) c
    by (cases "serialize r = []") (simp_all add: slice_def)
  have f: "get_u32 (slice c (length ?p) LOG_HEADER_SIZE) OFFSET_LOG_TOT_LEN = log_tot_len r"
    "get_i32 (slice c (length ?p) LOG_HEADER_SIZE) OFFSET_LOG_TYPE = log_type_code (log_type_of r)"
    using header_fields [OF r, of ?p "logs_bytes rs @ t"] c by simp_all
  have IH: "analyze_loop k' (int (length c)) (int (length (logs_bytes (done @ [r])))) (analyzed (done @ [r])) d =
      Ret (analyzed ((done @ [r]) @ rs)) d"
    using Cons.IH [of "done @ [r]" k'] Cons.prems k by simp
  have off: "int (length (logs_bytes (done @ [r]))) = int (length ?p) + int (length (serialize r))" by simp
  have "\<not> (unat (log_tot_len r) < LOG_HEADER_SIZE \<or> unat (log_tot_len r) > LOG_BUFFER_SIZE \<or>
      int (length ?p) + int (unat (log_tot_len r)) > int (length c))"
    "int (length ?p) + int LOG_HEADER_SIZE \<le> int (length c)"
    using len le by (auto simp: LOG_HEADER_SIZE_def)
  with IH show ?case
    unfolding k analyze_loop.simps hdr analyzed_snoc off
    using all deserialize_serialize [OF r] len(1,3)
    by (simp add: f Let_def) (simp add: analyzed_def split: if_splits)
qed

lemma ensure_log_no_fuel: "ensure_log d = (Inl e, d') \<Longrightarrow> e \<noteq> NonTermination"
  by (auto simp: ensure_log_def open_file_def bindE_eq_Throw Let_def
      split: prod.splits if_splits bool.splits)

lemma read_log_no_fuel: "fst (read_log n off d) \<noteq> Inl NonTermination"
  using ensure_log_no_fuel [of d]
  by (auto simp: read_log_def bindE_def Let_def
      split: prod.splits sum.splits option.splits list.splits io_event.splits)

lemma analyze_loop_terminates:
  "nat (file_size - offset) < k \<Longrightarrow> fst (analyze_loop k file_size offset rc d) \<noteq> Inl NonTermination"
proof (induction k arbitrary: offset rc d)
  case (Suc k)
  have step: "nat (file_size - (offset + int n)) < k" if "LOG_HEADER_SIZE \<le> n" "offset + int LOG_HEADER_SIZE \<le> file_size" for n
    using that Suc.prems by (auto simp: LOG_HEADER_SIZE_def)
  have nf: "read_log n off d1 = (Inl e, d2) \<Longrightarrow> e \<noteq> NonTermination" for n off d1 e d2
    using read_log_no_fuel [of n off d1] by auto
  have mk: "make_log_record ty = Inl e \<Longrightarrow> e \<noteq> NonTermination" for ty e
    by (auto simp: make_log_record_def split: if_splits)
  show ?case
    using Suc.IH [OF step] nf mk
    by (auto simp: bindE_def Let_def split: prod.splits sum.splits option.splits if_splits) (fastforce simp: not_less)+
qed simp

section \<open>Properties\<close>

text \<open>
  Claim C19. The log is written through: starting the manager on a log file that holds the records \<open>old\<close>,
  every sequence of appended records is in the log file, after the old ones and in the order of the
  calls, as soon as the calls have returned; the numbers they return continue the old ones without
  gaps.
\<close>

theorem log_write_through:
  assumes "log_at d (logs_bytes old)" and "list_all log_ok old" and "list_all log_ok rs"
    and "length (logs_bytes old) + length (logs_bytes rs) < 2 ^ 31" and "is_i32 (next_lsn old + int (length rs))"
  shows "\<exists>lm d'. add_logs rs (LogManager, d) = Ret (map lsn (stamp (next_lsn old) rs)) (lm, d') \<and>
    log_at d' (logs_bytes (old @ stamp (next_lsn old) rs))"
proof -
  have "log_inv old (LogManager, d)"
    using assms(1,2) by (simp add: log_inv_def LogManager_def)
  from add_logs_ok [OF this assms(3-5)] show ?thesis by (auto simp: log_inv_def)
qed

text \<open>
  Claim C20. Analysis after a crash: if the log file holds complete records followed by any proper part of
  one more record, cut anywhere, \<^verbatim>\<open>analyze\<close> recovers exactly the complete records, in order, and
  exactly the transactions whose commit (abort) record is among them.
\<close>

theorem log_analyze_recovers:
  assumes "log_at d (logs_bytes rs @ t)" and "torn t" and "list_all log_ok rs"
  shows "analyze d = Ret \<lparr>rec_logs = rs, committed_txns = {log_tid r | r. r \<in> set rs \<and> log_type_of r = LOG_COMMIT},
    aborted_txns = {log_tid r | r. r \<in> set rs \<and> log_type_of r = LOG_ABORT}\<rparr> d"
proof -
  let ?c = "logs_bytes rs @ t"
  have size: "get_file_size LOG_FILE_NAME d = int (length ?c)" by (rule log_at_size [OF assms(1)])
  have fuel: "length rs < Suc (nat (int (length ?c)))" using logs_bytes_len [OF assms(3)] by simp
  have empty: "analyzed [] = \<lparr>rec_logs = [], committed_txns = {}, aborted_txns = {}\<rparr>"
    by (simp add: analyzed_def finished_def)
  have "analyze d = Ret (analyzed rs) d"
  proof (cases "?c = []")
    case True
    then have "rs = []" using logs_bytes_len [OF assms(3)] by simp
    with True size show ?thesis by (simp add: analyze_def empty)
  next
    case False
    then have "\<not> int (length ?c) \<le> 0" by (simp only: of_nat_le_0_iff length_0_conv not_False_eq_True)
    with analyze_loop_ok [OF assms(1,2) _ assms(3) fuel, of "[]"] size show ?thesis
      unfolding analyze_def empty Let_def by (simp del: analyze_loop.simps)
  qed
  then show ?thesis by (simp add: analyzed_def finished_def)
qed

text \<open>
  Claim C21. Analysis always ends, whatever bytes the log file holds and whatever the reads do: the fuel of
  the model, one more than the size of the file, is never spent.
\<close>

theorem analyze_terminates: "fst (analyze d) \<noteq> Inl NonTermination"
  using analyze_loop_terminates [of "get_file_size LOG_FILE_NAME d" 0 "Suc (nat (get_file_size LOG_FILE_NAME d))"]
  by (simp add: analyze_def Let_def del: analyze_loop.simps)

text \<open>A disk with an open log.\<close>

definition log_disk :: "bytes \<Rightarrow> disk" where
  "log_disk c = (DiskManager [LOG_FILE_NAME \<mapsto> c] [(3, LOG_FILE_NAME)] [])
     \<lparr>path2fd := [LOG_FILE_NAME \<mapsto> 3], fd2path := [3 \<mapsto> LOG_FILE_NAME], log_fd := 3\<rparr>"

lemma log_disk_at: "length c < 2 ^ 31 \<Longrightarrow> log_at (log_disk c) c"
  by (simp add: log_at_def log_disk_def DiskManager_def)

theorem log_write_through_witness:
  "\<exists>lm d'. add_logs [BeginLogRecord 7, CommitLogRecord 7] (LogManager, log_disk []) = Ret [0, 1] (lm, d') \<and>
    log_at d' (serialize ((BeginLogRecord 7)\<lparr>lsn := 0\<rparr>) @ serialize ((CommitLogRecord 7)\<lparr>lsn := 1\<rparr>))"
proof -
  let ?rs = "[BeginLogRecord 7, CommitLogRecord 7]"
  have ok: "list_all log_ok ?rs" by (simp add: constructed_log_ok is_i32_def)
  have "length (logs_bytes ?rs) = 40" by (simp add: serialize_def BeginLogRecord_def CommitLogRecord_def)
  moreover have "next_lsn [] = 0" by (simp add: next_lsn_def max_lsn_of_def INVALID_LSN_def)
  ultimately show ?thesis
    using log_write_through [of "log_disk []" "[]" ?rs] log_disk_at [of "[]"] ok by (simp add: is_i32_def)
qed

theorem log_analyze_recovers_witness:
  "analyze (log_disk (serialize (BeginLogRecord 7) @ take 30 (serialize (InsertLogRecord 7 [1, 2] (Rid 1 0) ''t'')))) =
   Ret \<lparr>rec_logs = [BeginLogRecord 7], committed_txns = {}, aborted_txns = {}\<rparr>
     (log_disk (serialize (BeginLogRecord 7) @ take 30 (serialize (InsertLogRecord 7 [1, 2] (Rid 1 0) ''t''))))"
proof -
  let ?r = "InsertLogRecord 7 [1, 2] (Rid 1 0) ''t''"
  have r: "log_ok ?r"
    by (rule constructed_log_ok) (simp_all add: is_i32_def rid_i32_def LOG_BUFFER_SIZE_def PAGE_SIZE_def)
  have "length (serialize ?r) = 39" by (simp add: serialize_def InsertLogRecord_def)
  with r have t: "torn (take 30 (serialize ?r))" unfolding torn_def by (intro exI [of _ ?r] exI [of _ 30]) simp
  have "length (serialize (BeginLogRecord 7)) = 20" by (simp add: serialize_def BeginLogRecord_def)
  then have "log_at (log_disk (logs_bytes [BeginLogRecord 7] @ take 30 (serialize ?r)))
      (logs_bytes [BeginLogRecord 7] @ take 30 (serialize ?r))"
    by (intro log_disk_at) simp
  from log_analyze_recovers [OF this t] constructed_log_ok(1) [of 7] show ?thesis
    by (simp add: is_i32_def BeginLogRecord_def)
qed

end
