(* ===== verification/Index_Node.thy ===== *)
theory Index_Node
  imports Record_File Metadata
begin

text \<open>
  Nodes of the B+ tree: \<^verbatim>\<open>index/ix_defs.h\<close> (the file header and the page header), the key comparison
  and \<^verbatim>\<open>IxNodeHandle\<close> of \<^verbatim>\<open>index/ix_index_handle.h\<close> and \<^verbatim>\<open>.cpp\<close>. A node is the bytes of its page: the
  page header, the array of keys, the array of record numbers. Node operations are functions on
  those bytes; the assertions of the code make them fail.
\<close>

section \<open>File header\<close>

definition IX_NO_PAGE :: int where "IX_NO_PAGE = -1"
definition IX_FILE_HDR_PAGE :: int where "IX_FILE_HDR_PAGE = 0"
definition IX_LEAF_HEADER_PAGE :: int where "IX_LEAF_HEADER_PAGE = 1"
definition IX_INIT_ROOT_PAGE :: int where "IX_INIT_ROOT_PAGE = 2"
definition IX_INIT_NUM_PAGES :: int where "IX_INIT_NUM_PAGES = 3"
definition IX_MAX_COL_LEN :: int where "IX_MAX_COL_LEN = 512"

record ix_file_hdr =
  ih_first_free :: int
  ih_num_pages :: int
  root_page :: int
  ih_col_num :: int
  col_types :: "col_type list"
  col_lens :: "int list"
  ih_col_tot_len :: int
  btree_order :: int
  keys_size :: int
  first_leaf :: int
  last_leaf :: int
  tot_len :: int

definition update_tot_len :: "ix_file_hdr \<Rightarrow> ix_file_hdr" where
  "update_tot_len h = h\<lparr>tot_len := 4 * 4 + 4 * 6 + (4 * ih_col_num h + 4 * ih_col_num h)\<rparr>"

text \<open>The bytes \<^verbatim>\<open>serialize\<close> writes; it asserts at the end that their number is \<^verbatim>\<open>tot_len_\<close>.\<close>

definition ix_hdr_bytes :: "ix_file_hdr \<Rightarrow> bytes" where
  "ix_hdr_bytes h =
     enc_i32 (tot_len h) @ enc_i32 (ih_first_free h) @ enc_i32 (ih_num_pages h) @ enc_i32 (root_page h) @
     enc_i32 (ih_col_num h) @
     concat (map (\<lambda>t. enc_i32 (col_type_code t)) (take (nat (ih_col_num h)) (col_types h))) @
     concat (map enc_i32 (take (nat (ih_col_num h)) (col_lens h))) @
     enc_i32 (ih_col_tot_len h) @ enc_i32 (btree_order h) @ enc_i32 (keys_size h) @
     enc_i32 (first_leaf h) @ enc_i32 (last_leaf h)"

definition ix_hdr_serialize :: "ix_file_hdr \<Rightarrow> rmdb_error + bytes" where
  "ix_hdr_serialize h =
     (if int (length (ix_hdr_bytes h)) = tot_len h then Inr (ix_hdr_bytes h) else Inl AssertionFailure)"

text \<open>An integer that is no \<^verbatim>\<open>ColType\<close> makes every later comparison throw; the model stops here.\<close>

definition col_type_of_code :: "int \<Rightarrow> rmdb_error + col_type" where
  "col_type_of_code v =
     (if v = 0 then Inr TYPE_INT else if v = 1 then Inr TYPE_FLOAT else if v = 2 then Inr TYPE_STRING
      else if v = 3 then Inr TYPE_BIGINT else if v = 4 then Inr TYPE_DATETIME
      else Inl (InternalError ''Unexpected data type''))"

primrec read_types :: "nat \<Rightarrow> bytes \<Rightarrow> nat \<Rightarrow> rmdb_error + col_type list" where
  "read_types 0 src off = Inr []"
| "read_types (Suc n) src off =
     (case col_type_of_code (get_i32 src off) of
        Inl e \<Rightarrow> Inl e
      | Inr t \<Rightarrow> (case read_types n src (off + 4) of Inl e \<Rightarrow> Inl e | Inr ts \<Rightarrow> Inr (t # ts)))"

primrec read_ints :: "nat \<Rightarrow> bytes \<Rightarrow> nat \<Rightarrow> int list" where
  "read_ints 0 src off = []"
| "read_ints (Suc n) src off = get_i32 src off # read_ints n src (off + 4)"

definition ix_hdr_deserialize :: "bytes \<Rightarrow> rmdb_error + ix_file_hdr" where
  "ix_hdr_deserialize src =
     (let n = nat (get_i32 src 16) in
      case read_types n src 20 of
        Inl e \<Rightarrow> Inl e
      | Inr ts \<Rightarrow>
          let o1 = 20 + 4 * n + 4 * n;
              h = \<lparr>ih_first_free = get_i32 src 4, ih_num_pages = get_i32 src 8, root_page = get_i32 src 12,
                   ih_col_num = get_i32 src 16, col_types = ts, col_lens = read_ints n src (20 + 4 * n),
                   ih_col_tot_len = get_i32 src o1, btree_order = get_i32 src (o1 + 4),
                   keys_size = get_i32 src (o1 + 8), first_leaf = get_i32 src (o1 + 12),
                   last_leaf = get_i32 src (o1 + 16), tot_len = get_i32 src 0\<rparr>
          in if int (o1 + 20) = tot_len h then Inr h else Inl AssertionFailure)"

section \<open>Comparing keys\<close>

definition ix_compare_col :: "bytes \<Rightarrow> bytes \<Rightarrow> col_type \<Rightarrow> int \<Rightarrow> int" where
  "ix_compare_col a b type col_len =
     (case type of
        TYPE_INT \<Rightarrow> int_cmp (get_i32 a 0) (get_i32 b 0)
      | TYPE_FLOAT \<Rightarrow> fp_cmp (get_f32 a 0) (get_f32 b 0)
      | TYPE_BIGINT \<Rightarrow> int_cmp (get_i64 a 0) (get_i64 b 0)
      | TYPE_DATETIME \<Rightarrow> int_cmp (get_i64 a 0) (get_i64 b 0)
      | TYPE_STRING \<Rightarrow> memcmp (take (nat col_len) a) (take (nat col_len) b))"

fun ix_compare_from :: "nat \<Rightarrow> bytes \<Rightarrow> bytes \<Rightarrow> col_type list \<Rightarrow> int list \<Rightarrow> int" where
  "ix_compare_from off a b (t # ts) (l # ls) =
     (let res = ix_compare_col (drop off a) (drop off b) t l in
      if res \<noteq> 0 then res else ix_compare_from (off + nat l) a b ts ls)"
| "ix_compare_from off a b _ _ = 0"

definition ix_compare :: "bytes \<Rightarrow> bytes \<Rightarrow> col_type list \<Rightarrow> int list \<Rightarrow> int" where
  "ix_compare a b types lens = ix_compare_from 0 a b types lens"

section \<open>The layout of a node\<close>

text \<open>\<^verbatim>\<open>IxPageHdr\<close> occupies 24 bytes: the flag at offset 12 is padded to four.\<close>

definition SIZEOF_IxPageHdr :: nat where "SIZEOF_IxPageHdr = 24"

definition parent :: "bytes \<Rightarrow> int" where "parent d = get_i32 d 4"
definition num_key :: "bytes \<Rightarrow> int" where "num_key d = get_i32 d 8"
definition is_leaf :: "bytes \<Rightarrow> bool" where "is_leaf d \<longleftrightarrow> slice d 12 1 \<noteq> [0]"
definition prev_leaf :: "bytes \<Rightarrow> int" where "prev_leaf d = get_i32 d 16"
definition next_leaf :: "bytes \<Rightarrow> int" where "next_leaf d = get_i32 d 20"

definition set_parent :: "int \<Rightarrow> bytes \<Rightarrow> bytes" where "set_parent v d = put_i32 d 4 v"
definition set_size :: "int \<Rightarrow> bytes \<Rightarrow> bytes" where "set_size v d = put_i32 d 8 v"
definition set_is_leaf :: "bool \<Rightarrow> bytes \<Rightarrow> bytes" where "set_is_leaf b d = blit d 12 [if b then 1 else 0]"
definition set_prev_leaf :: "int \<Rightarrow> bytes \<Rightarrow> bytes" where "set_prev_leaf v d = put_i32 d 16 v"
definition set_next_leaf :: "int \<Rightarrow> bytes \<Rightarrow> bytes" where "set_next_leaf v d = put_i32 d 20 v"

definition key_off :: "ix_file_hdr \<Rightarrow> int \<Rightarrow> nat" where
  "key_off h i = SIZEOF_IxPageHdr + nat (i * ih_col_tot_len h)"

definition rid_off :: "ix_file_hdr \<Rightarrow> int \<Rightarrow> nat" where
  "rid_off h i = SIZEOF_IxPageHdr + nat (keys_size h) + nat (8 * i)"

definition get_key :: "ix_file_hdr \<Rightarrow> int \<Rightarrow> bytes \<Rightarrow> bytes" where
  "get_key h i d = slice d (key_off h i) (nat (ih_col_tot_len h))"

definition ix_rid :: "ix_file_hdr \<Rightarrow> int \<Rightarrow> bytes \<Rightarrow> rid" where
  "ix_rid h i d = Rid (get_i32 d (rid_off h i)) (get_i32 d (rid_off h i + 4))"

definition set_key :: "ix_file_hdr \<Rightarrow> int \<Rightarrow> bytes \<Rightarrow> bytes \<Rightarrow> bytes" where
  "set_key h i key d = blit d (key_off h i) (take (nat (ih_col_tot_len h)) key)"

definition rid_bytes :: "rid \<Rightarrow> bytes" where
  "rid_bytes r = enc_i32 (page_no r) @ enc_i32 (slot_no r)"

definition value_at :: "ix_file_hdr \<Rightarrow> int \<Rightarrow> bytes \<Rightarrow> int" where
  "value_at h i d = page_no (ix_rid h i d)"

definition get_max_size :: "ix_file_hdr \<Rightarrow> int" where
  "get_max_size h = btree_order h + 1"

definition get_min_size :: "ix_file_hdr \<Rightarrow> int" where
  "get_min_size h = get_max_size h sdiv 2"

definition is_root_page :: "bytes \<Rightarrow> bool" where
  "is_root_page d \<longleftrightarrow> parent d = IX_NO_PAGE"

section \<open>Searching\<close>

text \<open>The loop of both binary searches: \<open>below mid\<close> is the test that moves the left end.\<close>

function bsearch :: "(nat \<Rightarrow> bool) \<Rightarrow> nat \<Rightarrow> nat \<Rightarrow> nat" where
  "bsearch below left right =
     (if left < right
      then let mid = (left + right) div 2 in
           if below mid then bsearch below (mid + 1) right else bsearch below left mid
      else left)"
  by pat_completeness auto
termination by (relation "measure (\<lambda>(_, left, right). right - left)") auto

declare bsearch.simps [simp del]

definition node_lower_bound :: "ix_file_hdr \<Rightarrow> bytes \<Rightarrow> bytes \<Rightarrow> int" where
  "node_lower_bound h d target =
     int (bsearch (\<lambda>mid. ix_compare (get_key h (int mid) d) target (col_types h) (col_lens h) < 0)
            0 (nat (num_key d)))"

definition node_upper_bound :: "ix_file_hdr \<Rightarrow> bytes \<Rightarrow> bytes \<Rightarrow> int" where
  "node_upper_bound h d target =
     int (bsearch (\<lambda>mid. ix_compare (get_key h (int mid) d) target (col_types h) (col_lens h) \<le> 0)
            0 (nat (num_key d)))"

definition key_found :: "ix_file_hdr \<Rightarrow> bytes \<Rightarrow> int \<Rightarrow> bytes \<Rightarrow> bool" where
  "key_found h d pos key \<longleftrightarrow>
     pos < num_key d \<and> ix_compare (get_key h pos d) key (col_types h) (col_lens h) = 0"

definition leaf_lookup :: "ix_file_hdr \<Rightarrow> bytes \<Rightarrow> bytes \<Rightarrow> rid option" where
  "leaf_lookup h d key =
     (let pos = node_lower_bound h d key in if key_found h d pos key then Some (ix_rid h pos d) else None)"

definition internal_lookup :: "ix_file_hdr \<Rightarrow> bytes \<Rightarrow> bytes \<Rightarrow> int" where
  "internal_lookup h d key =
     (let pos = node_upper_bound h d key - 1; pos' = (if pos < 0 then 0 else pos) in value_at h pos' d)"

text \<open>\<^verbatim>\<open>find_child\<close> asserts that the child is there.\<close>

definition find_child :: "ix_file_hdr \<Rightarrow> bytes \<Rightarrow> int \<Rightarrow> rmdb_error + int" where
  "find_child h d child =
     (case find (\<lambda>i. value_at h (int i) d = child) [0..<nat (num_key d)] of
        None \<Rightarrow> Inl AssertionFailure | Some i \<Rightarrow> Inr (int i))"

section \<open>Changing a node\<close>

text \<open>\<^verbatim>\<open>memmove\<close> inside a page.\<close>

definition move_bytes :: "nat \<Rightarrow> nat \<Rightarrow> nat \<Rightarrow> bytes \<Rightarrow> bytes" where
  "move_bytes dst src n d = blit d dst (slice d src n)"

definition insert_pairs :: "ix_file_hdr \<Rightarrow> int \<Rightarrow> bytes \<Rightarrow> bytes \<Rightarrow> int \<Rightarrow> bytes \<Rightarrow> rmdb_error + bytes" where
  "insert_pairs h pos key rids n d =
     (if \<not> (pos \<ge> 0 \<and> pos \<le> num_key d) then Inl AssertionFailure
      else if \<not> (n \<ge> 0 \<and> num_key d + n \<le> get_max_size h) then Inl AssertionFailure
      else
        let move_num = num_key d - pos;
            len = ih_col_tot_len h;
            d1 = (if move_num > 0
                  then move_bytes (rid_off h (pos + n)) (rid_off h pos) (nat (move_num * 8))
                         (move_bytes (key_off h (pos + n)) (key_off h pos) (nat (move_num * len)) d)
                  else d);
            d2 = blit d1 (key_off h pos) (take (nat (n * len)) key);
            d3 = blit d2 (rid_off h pos) (take (nat (n * 8)) rids)
        in Inr (set_size (num_key d3 + n) d3))"

definition insert_pair :: "ix_file_hdr \<Rightarrow> int \<Rightarrow> bytes \<Rightarrow> rid \<Rightarrow> bytes \<Rightarrow> rmdb_error + bytes" where
  "insert_pair h pos key r d = insert_pairs h pos key (rid_bytes r) 1 d"

text \<open>\<open>node_insert\<close> returns the node; the size the code returns is its \<open>num_key\<close>.\<close>

definition node_insert :: "ix_file_hdr \<Rightarrow> bytes \<Rightarrow> rid \<Rightarrow> bytes \<Rightarrow> rmdb_error + bytes" where
  "node_insert h key r d =
     (let pos = node_lower_bound h d key in
      if key_found h d pos key then Inr d else insert_pair h pos key r d)"

definition erase_pair :: "ix_file_hdr \<Rightarrow> int \<Rightarrow> bytes \<Rightarrow> rmdb_error + bytes" where
  "erase_pair h pos d =
     (if \<not> (pos \<ge> 0 \<and> pos < num_key d) then Inl AssertionFailure
      else
        let move_num = num_key d - pos - 1;
            d1 = (if move_num > 0
                  then move_bytes (rid_off h pos) (rid_off h (pos + 1)) (nat (move_num * 8))
                         (move_bytes (key_off h pos) (key_off h (pos + 1)) (nat (move_num * ih_col_tot_len h)) d)
                  else d)
        in Inr (set_size (num_key d1 - 1) d1))"

definition node_remove :: "ix_file_hdr \<Rightarrow> bytes \<Rightarrow> bytes \<Rightarrow> rmdb_error + bytes" where
  "node_remove h key d =
     (let pos = node_lower_bound h d key in if key_found h d pos key then erase_pair h pos d else Inr d)"

definition remove_and_return_only_child :: "ix_file_hdr \<Rightarrow> bytes \<Rightarrow> rmdb_error + (int \<times> bytes)" where
  "remove_and_return_only_child h d =
     (if num_key d \<noteq> 1 then Inl AssertionFailure
      else let child = value_at h 0 d in
           case erase_pair h 0 d of
             Inl e \<Rightarrow> Inl e
           | Inr d' \<Rightarrow> if num_key d' = 0 then Inr (child, d') else Inl AssertionFailure)"

end
