(* ===== verification/Index_Tree.thy ===== *)
theory Index_Tree
  imports Index_Node
begin

text \<open>
  The B+ tree: \<^verbatim>\<open>IxIndexHandle\<close> (\<^verbatim>\<open>index/ix_index_handle.cpp\<close>), \<^verbatim>\<open>IxScan\<close> (\<^verbatim>\<open>index/ix_scan.cpp\<close>) and
  \<^verbatim>\<open>IxManager\<close> (\<^verbatim>\<open>index/ix_manager.h\<close>), over the model of the buffer pool. The state of a handle is its
  descriptor, the file header and the pool. An \<^verbatim>\<open>IxNodeHandle\<close> is the frame its page sits in, so that
  a handle used after its page was unpinned reads whatever the frame holds by then.
  A loop that follows page numbers, and the recursions over the levels of the tree, get the number of
  pages of the file as fuel: a path that visits no page twice is not longer.
\<close>

datatype iid = Iid (iid_page: int) (iid_slot: int)

record 'r ix_file =
  ix_fd :: int
  ix_hdr :: ix_file_hdr
  ix_pool :: "'r bpm"

definition node_data :: "int \<Rightarrow> 'r ix_file \<Rightarrow> bytes" where
  "node_data f s = data (pages (ix_pool s) f)"

definition put_node :: "int \<Rightarrow> bytes \<Rightarrow> 'r ix_file \<Rightarrow> 'r ix_file" where
  "put_node f d s = s\<lparr>ix_pool := set_page f ((pages (ix_pool s) f)\<lparr>data := d\<rparr>) (ix_pool s)\<rparr>"

definition node_no :: "int \<Rightarrow> 'r ix_file \<Rightarrow> int" where
  "node_no f s = pid_no (id (pages (ix_pool s) f))"

definition unpin_node :: "'r replacer_ops \<Rightarrow> int \<Rightarrow> bool \<Rightarrow> 'r ix_file \<Rightarrow> 'r ix_file" where
  "unpin_node R f dirty s =
     s\<lparr>ix_pool := snd (unpin_page R (id (pages (ix_pool s) f)) dirty (ix_pool s))\<rparr>"

text \<open>A node operation that may fail an assertion.\<close>

definition on_node :: "int \<Rightarrow> (bytes \<Rightarrow> rmdb_error + bytes) \<Rightarrow> 'r ix_file \<Rightarrow> (unit, 'r ix_file) res" where
  "on_node f g s = (case g (node_data f s) of Inl e \<Rightarrow> Throw e s | Inr d \<Rightarrow> Ret () (put_node f d s))"

definition pure :: "(rmdb_error + 'a) \<Rightarrow> 's \<Rightarrow> ('a, 's) res" where
  "pure r s = (r, s)"

section \<open>Nodes\<close>

definition update_root_page_no :: "int \<Rightarrow> 'r ix_file \<Rightarrow> 'r ix_file" where
  "update_root_page_no root s = s\<lparr>ix_hdr := (ix_hdr s)\<lparr>root_page := root\<rparr>\<rparr>"

definition ix_is_empty :: "'r ix_file \<Rightarrow> bool" where
  "ix_is_empty s \<longleftrightarrow> root_page (ix_hdr s) = IX_NO_PAGE"

text \<open>A pool with no frame to spare returns a null page, which the node handle dereferences.\<close>

definition fetch_node :: "'r replacer_ops \<Rightarrow> int \<Rightarrow> 'r ix_file \<Rightarrow> (int, 'r ix_file) res" where
  "fetch_node R no s =
     (case fetch_page R (PageId (ix_fd s) no) (ix_pool s) of
        (Inl e, p) \<Rightarrow> Throw e (s\<lparr>ix_pool := p\<rparr>)
      | (Inr None, p) \<Rightarrow> Throw NullDereference (s\<lparr>ix_pool := p\<rparr>)
      | (Inr (Some f), p) \<Rightarrow> Ret f (s\<lparr>ix_pool := p\<rparr>))"

definition create_node :: "'r replacer_ops \<Rightarrow> 'r ix_file \<Rightarrow> (int, 'r ix_file) res" where
  "create_node R s0 =
     (let s = s0\<lparr>ix_hdr := (ix_hdr s0)\<lparr>ih_num_pages := wrap32 (ih_num_pages (ix_hdr s0) + 1)\<rparr>\<rparr> in
      case new_page R (ix_fd s) (ix_pool s) of
        (Inl e, p) \<Rightarrow> Throw e (s\<lparr>ix_pool := p\<rparr>)
      | (Inr None, p) \<Rightarrow> Throw NullDereference (s\<lparr>ix_pool := p\<rparr>)
      | (Inr (Some (f, _)), p) \<Rightarrow> Ret f (s\<lparr>ix_pool := p\<rparr>))"

definition fuel_of :: "'r ix_file \<Rightarrow> nat" where
  "fuel_of s = nat (ih_num_pages (ix_hdr s))"

text \<open>\<^verbatim>\<open>maintain_parent\<close>: the pointer to the first key of \<open>cur\<close> is read after its parent was fetched.\<close>

fun maintain_parent_loop :: "nat \<Rightarrow> 'r replacer_ops \<Rightarrow> int \<Rightarrow> 'r ix_file \<Rightarrow> (unit, 'r ix_file) res" where
  "maintain_parent_loop k R cur s =
     (if parent (node_data cur s) \<noteq> IX_NO_PAGE
      then (case k of 0 \<Rightarrow> Throw NonTermination s | Suc k' \<Rightarrow>
        seqE (fetch_node R (parent (node_data cur s)) s)
          (\<lambda>p s1. seqE (pure (find_child (ix_hdr s1) (node_data p s1) (node_no cur s1)) s1)
             (\<lambda>rank s2.
                let h = ix_hdr s2; first = get_key h 0 (node_data cur s2) in
                if memcmp (get_key h rank (node_data p s2)) first = 0
                then (case unpin_page R (id (pages (ix_pool s2) p)) True (ix_pool s2) of
                        (ok, q) \<Rightarrow> if ok then Ret () (s2\<lparr>ix_pool := q\<rparr>) else Throw AssertionFailure s2)
                else let s3 = put_node p (set_key h rank first (node_data p s2)) s2 in
                     (case unpin_page R (id (pages (ix_pool s3) p)) True (ix_pool s3) of
                        (ok, q) \<Rightarrow> if ok then maintain_parent_loop k' R p (s3\<lparr>ix_pool := q\<rparr>)
                                   else Throw AssertionFailure s3))))
      else Ret () s)"

declare maintain_parent_loop.simps [simp del]

definition maintain_parent :: "'r replacer_ops \<Rightarrow> int \<Rightarrow> 'r ix_file \<Rightarrow> (unit, 'r ix_file) res" where
  "maintain_parent R f s = maintain_parent_loop (fuel_of s) R f s"

definition maintain_child :: "'r replacer_ops \<Rightarrow> int \<Rightarrow> int \<Rightarrow> 'r ix_file \<Rightarrow> (unit, 'r ix_file) res" where
  "maintain_child R f i s =
     (if \<not> is_leaf (node_data f s)
      then seqE (fetch_node R (value_at (ix_hdr s) i (node_data f s)) s)
             (\<lambda>c s1. Ret () (unpin_node R c True
                (put_node c (set_parent (node_no f s1) (node_data c s1)) s1)))
      else Ret () s)"

fun maintain_children :: "'r replacer_ops \<Rightarrow> int \<Rightarrow> int list \<Rightarrow> 'r ix_file \<Rightarrow> (unit, 'r ix_file) res" where
  "maintain_children R f [] s = Ret () s"
| "maintain_children R f (i # is) s = seqE (maintain_child R f i s) (\<lambda>_ s1. maintain_children R f is s1)"

definition erase_leaf :: "'r replacer_ops \<Rightarrow> int \<Rightarrow> 'r ix_file \<Rightarrow> (unit, 'r ix_file) res" where
  "erase_leaf R f s =
     (if \<not> is_leaf (node_data f s) then Throw AssertionFailure s
      else seqE (fetch_node R (prev_leaf (node_data f s)) s)
        (\<lambda>p s1.
           let s2 = unpin_node R p True
                      (put_node p (set_next_leaf (next_leaf (node_data f s1)) (node_data p s1)) s1)
           in seqE (fetch_node R (next_leaf (node_data f s2)) s2)
                (\<lambda>n s3. Ret () (unpin_node R n True
                   (put_node n (set_prev_leaf (prev_leaf (node_data f s3)) (node_data n s3)) s3)))))"

definition release_node_handle :: "'r ix_file \<Rightarrow> 'r ix_file" where
  "release_node_handle s = s\<lparr>ix_hdr := (ix_hdr s)\<lparr>ih_num_pages := wrap32 (ih_num_pages (ix_hdr s) - 1)\<rparr>\<rparr>"

section \<open>Searching\<close>

fun find_leaf_loop :: "nat \<Rightarrow> 'r replacer_ops \<Rightarrow> bytes \<Rightarrow> bool \<Rightarrow> int \<Rightarrow> 'r ix_file \<Rightarrow> (int, 'r ix_file) res" where
  "find_leaf_loop k R key find_first f s =
     (if \<not> is_leaf (node_data f s)
      then (case k of 0 \<Rightarrow> Throw NonTermination s | Suc k' \<Rightarrow>
        let d = node_data f s; h = ix_hdr s;
            child = (if find_first then value_at h 0 d else internal_lookup h d key)
        in seqE (fetch_node R child (unpin_node R f False s)) (\<lambda>f' s1. find_leaf_loop k' R key find_first f' s1))
      else Ret f s)"

declare find_leaf_loop.simps [simp del]

text \<open>An empty tree gives the null handle, \<open>None\<close>.\<close>

definition find_leaf_page :: "'r replacer_ops \<Rightarrow> bytes \<Rightarrow> bool \<Rightarrow> 'r ix_file \<Rightarrow> (int option, 'r ix_file) res" where
  "find_leaf_page R key find_first s =
     (if ix_is_empty s then Ret None s
      else seqE (fetch_node R (root_page (ix_hdr s)) s)
        (\<lambda>f s1. seqE (find_leaf_loop (fuel_of s1) R key find_first f s1) (\<lambda>f' s2. Ret (Some f') s2)))"

definition get_value :: "'r replacer_ops \<Rightarrow> bytes \<Rightarrow> 'r ix_file \<Rightarrow> (rid option, 'r ix_file) res" where
  "get_value R key s =
     seqE (find_leaf_page R key False s)
       (\<lambda>leaf s1. case leaf of
          None \<Rightarrow> Ret None s1
        | Some f \<Rightarrow> Ret (leaf_lookup (ix_hdr s1) (node_data f s1) key) (unpin_node R f False s1))"

definition ix_get_rid :: "'r replacer_ops \<Rightarrow> iid \<Rightarrow> 'r ix_file \<Rightarrow> (rid, 'r ix_file) res" where
  "ix_get_rid R iid s =
     seqE (fetch_node R (iid_page iid) s)
       (\<lambda>f s1. if iid_slot iid \<ge> num_key (node_data f s1) then Throw IndexEntryNotFoundError s1
               else let s2 = unpin_node R f False s1 in Ret (ix_rid (ix_hdr s2) (iid_slot iid) (node_data f s2)) s2)"

definition leaf_end :: "'r replacer_ops \<Rightarrow> 'r ix_file \<Rightarrow> (iid, 'r ix_file) res" where
  "leaf_end R s =
     seqE (fetch_node R (last_leaf (ix_hdr s)) s)
       (\<lambda>f s1. Ret (Iid (last_leaf (ix_hdr s1)) (num_key (node_data f s1))) (unpin_node R f False s1))"

definition leaf_begin :: "'r ix_file \<Rightarrow> iid" where
  "leaf_begin s = Iid (first_leaf (ix_hdr s)) 0"

text \<open>The loop of both bounds that skips leaves with nothing at or after the position.\<close>

fun bound_loop :: "nat \<Rightarrow> 'r replacer_ops \<Rightarrow> int \<Rightarrow> int \<Rightarrow> int \<Rightarrow> 'r ix_file \<Rightarrow> (iid, 'r ix_file) res" where
  "bound_loop k R f no pos s =
     (if pos = num_key (node_data f s) \<and> no \<noteq> last_leaf (ix_hdr s)
      then (case k of 0 \<Rightarrow> Throw NonTermination s | Suc k' \<Rightarrow>
        seqE (fetch_node R (next_leaf (node_data f s)) (unpin_node R f False s))
          (\<lambda>f' s1. bound_loop k' R f' (node_no f' s1) 0 s1))
      else Ret (Iid no pos) (unpin_node R f False s))"

declare bound_loop.simps [simp del]

definition ix_lower_bound :: "'r replacer_ops \<Rightarrow> bytes \<Rightarrow> 'r ix_file \<Rightarrow> (iid, 'r ix_file) res" where
  "ix_lower_bound R key s =
     seqE (find_leaf_page R key False s)
       (\<lambda>leaf s1. case leaf of
          None \<Rightarrow> leaf_end R s1
        | Some f \<Rightarrow> bound_loop (fuel_of s1) R f (node_no f s1)
                     (node_lower_bound (ix_hdr s1) (node_data f s1) key) s1)"

definition ix_upper_bound :: "'r replacer_ops \<Rightarrow> bytes \<Rightarrow> 'r ix_file \<Rightarrow> (iid, 'r ix_file) res" where
  "ix_upper_bound R key s =
     seqE (find_leaf_page R key False s)
       (\<lambda>leaf s1. case leaf of
          None \<Rightarrow> leaf_end R s1
        | Some f \<Rightarrow> bound_loop (fuel_of s1) R f (node_no f s1)
                     (node_upper_bound (ix_hdr s1) (node_data f s1) key) s1)"

section \<open>Insertion\<close>

definition set_last_leaf :: "int \<Rightarrow> 'r ix_file \<Rightarrow> 'r ix_file" where
  "set_last_leaf no s = s\<lparr>ix_hdr := (ix_hdr s)\<lparr>last_leaf := no\<rparr>\<rparr>"

definition ix_split :: "'r replacer_ops \<Rightarrow> int \<Rightarrow> 'r ix_file \<Rightarrow> (int, 'r ix_file) res" where
  "ix_split R f s =
     seqE (create_node R s)
       (\<lambda>g s1.
          let h = ix_hdr s1; d = node_data f s1;
              e = set_size 0 (set_parent (parent d) (set_is_leaf (is_leaf d) (node_data g s1)));
              split_pos = num_key d sdiv 2;
              move_num = num_key d - split_pos
          in seqE (on_node g (\<lambda>_. insert_pairs h 0 (drop (key_off h split_pos) d) (drop (rid_off h split_pos) d)
                                    move_num e) s1)
            (\<lambda>_ s2.
               let s3 = put_node f (set_size split_pos (node_data f s2)) s2 in
               if is_leaf (node_data f s3)
               then let next = next_leaf (node_data f s3);
                        s4 = put_node g (set_next_leaf next (set_prev_leaf (node_no f s3) (node_data g s3))) s3
                    in seqE (if next \<noteq> IX_LEAF_HEADER_PAGE
                             then seqE (fetch_node R next s4)
                                    (\<lambda>n s5. Ret () (unpin_node R n True
                                       (put_node n (set_prev_leaf (node_no g s5) (node_data n s5)) s5)))
                             else Ret () s4)
                         (\<lambda>_ s6.
                            let s7 = put_node f (set_next_leaf (node_no g s6) (node_data f s6)) s6;
                                s8 = (if last_leaf (ix_hdr s7) = node_no f s7 then set_last_leaf (node_no g s7) s7 else s7)
                            in Ret g s8)
               else seqE (maintain_children R g [0..num_key (node_data g s3) - 1] s3) (\<lambda>_ s4. Ret g s4)))"

fun insert_into_parent :: "nat \<Rightarrow> 'r replacer_ops \<Rightarrow> int \<Rightarrow> bytes \<Rightarrow> int \<Rightarrow> 'r ix_file \<Rightarrow> (unit, 'r ix_file) res" where
  "insert_into_parent k R old key new s =
     (if is_root_page (node_data old s)
      then seqE (create_node R s)
        (\<lambda>r s1.
           let h = ix_hdr s1;
               s2 = put_node r (set_size 0 (set_parent IX_NO_PAGE (set_is_leaf False (node_data r s1)))) s1
           in seqE (on_node r (insert_pair h 0 (get_key h 0 (node_data old s2)) (Rid (node_no old s2) (-1))) s2)
             (\<lambda>_ s3. seqE (on_node r (insert_pair h 1 (get_key h 0 (node_data new s3)) (Rid (node_no new s3) (-1))) s3)
                (\<lambda>_ s4.
                   let s5 = put_node old (set_parent (node_no r s4) (node_data old s4)) s4;
                       s6 = put_node new (set_parent (node_no r s5) (node_data new s5)) s5;
                       s7 = update_root_page_no (node_no r s6) s6
                   in Ret () (unpin_node R r True s7))))
      else case k of 0 \<Rightarrow> Throw NonTermination s | Suc k' \<Rightarrow>
        seqE (fetch_node R (parent (node_data old s)) s)
          (\<lambda>p s1. seqE (pure (find_child (ix_hdr s1) (node_data p s1) (node_no old s1)) s1)
             (\<lambda>rank s2. seqE (on_node p (insert_pair (ix_hdr s2) (rank + 1) key (Rid (node_no new s2) (-1))) s2)
                (\<lambda>_ s3.
                   let s4 = put_node new (set_parent (node_no p s3) (node_data new s3)) s3 in
                   if num_key (node_data p s4) \<ge> get_max_size (ix_hdr s4)
                   then seqE (ix_split R p s4)
                     (\<lambda>np s5. seqE (insert_into_parent k' R p (get_key (ix_hdr s5) 0 (node_data np s5)) np s5)
                        (\<lambda>_ s6. Ret () (unpin_node R p True (unpin_node R np True s6))))
                   else Ret () (unpin_node R p True s4)))))"

declare insert_into_parent.simps [simp del]

definition insert_entry :: "'r replacer_ops \<Rightarrow> bytes \<Rightarrow> rid \<Rightarrow> 'r ix_file \<Rightarrow> (int, 'r ix_file) res" where
  "insert_entry R key val s =
     seqE (find_leaf_page R key False s)
       (\<lambda>leaf s1. case leaf of
          None \<Rightarrow> Throw NullDereference s1
        | Some f \<Rightarrow>
            let old_size = num_key (node_data f s1) in
            seqE (on_node f (node_insert (ix_hdr s1) key val) s1)
              (\<lambda>_ s2.
                 if num_key (node_data f s2) = old_size
                 then let s3 = unpin_node R f False s2 in Ret (node_no f s3) s3
                 else seqE (if num_key (node_data f s2) \<ge> get_max_size (ix_hdr s2)
                            then seqE (ix_split R f s2)
                              (\<lambda>g s3. seqE (insert_into_parent (fuel_of s3) R f
                                               (get_key (ix_hdr s3) 0 (node_data g s3)) g s3)
                                 (\<lambda>_ s4. Ret () (unpin_node R g True s4)))
                            else maintain_parent R f s2)
                        (\<lambda>_ s5. let no = node_no f s5 in Ret no (unpin_node R f True s5))))"

section \<open>Deletion\<close>

definition delete_entry :: "'r replacer_ops \<Rightarrow> bytes \<Rightarrow> 'r ix_file \<Rightarrow> (bool, 'r ix_file) res" where
  "delete_entry R key s =
     seqE (find_leaf_page R key False s)
       (\<lambda>leaf s1. case leaf of
          None \<Rightarrow> Ret False s1
        | Some f \<Rightarrow>
            let old_size = num_key (node_data f s1);
                old_pos = node_lower_bound (ix_hdr s1) (node_data f s1) key
            in seqE (on_node f (node_remove (ix_hdr s1) key) s1)
                 (\<lambda>_ s2.
                    if num_key (node_data f s2) = old_size then Ret False (unpin_node R f False s2)
                    else seqE (if num_key (node_data f s2) > 0 \<and> old_pos = 0 then maintain_parent R f s2 else Ret () s2)
                           (\<lambda>_ s3. Ret True (unpin_node R f True s3))))"

definition adjust_root :: "'r replacer_ops \<Rightarrow> int \<Rightarrow> 'r ix_file \<Rightarrow> (bool, 'r ix_file) res" where
  "adjust_root R f s =
     (if \<not> is_leaf (node_data f s) \<and> num_key (node_data f s) = 1
      then (case remove_and_return_only_child (ix_hdr s) (node_data f s) of
              Inl e \<Rightarrow> Throw e s
            | Inr (child_no, d) \<Rightarrow>
                seqE (fetch_node R child_no (put_node f d s))
                  (\<lambda>c s1.
                     let s2 = put_node c (set_parent IX_NO_PAGE (node_data c s1)) s1;
                         s3 = update_root_page_no child_no s2
                     in Ret True (unpin_node R f True (unpin_node R c True s3))))
      else if is_leaf (node_data f s) \<and> num_key (node_data f s) = 0
      then Ret False (unpin_node R f True s)
      else Ret False s)"

definition redistribute :: "'r replacer_ops \<Rightarrow> int \<Rightarrow> int \<Rightarrow> int \<Rightarrow> int \<Rightarrow> 'r ix_file \<Rightarrow> (unit, 'r ix_file) res" where
  "redistribute R nb f p index s =
     (let h = ix_hdr s; end_pos = num_key (node_data nb s) - 1 in
      seqE (if index = 0
            then seqE (on_node f (insert_pair h (num_key (node_data f s)) (get_key h 0 (node_data nb s))
                                    (ix_rid h 0 (node_data nb s))) s)
                   (\<lambda>_ s1. seqE (on_node nb (erase_pair h 0) s1)
                      (\<lambda>_ s2. maintain_child R f (num_key (node_data f s2) - 1) s2))
            else seqE (on_node f (insert_pair h 0 (get_key h end_pos (node_data nb s)) (ix_rid h end_pos (node_data nb s))) s)
                   (\<lambda>_ s1. seqE (on_node nb (erase_pair h (num_key (node_data nb s1) - 1)) s1)
                      (\<lambda>_ s2. maintain_child R f 0 s2)))
        (\<lambda>_ s3. seqE (pure (find_child h (node_data p s3) (node_no f s3)) s3)
           (\<lambda>i s4.
              let s5 = put_node p (set_key h i (get_key h 0 (node_data f s4)) (node_data p s4)) s4
              in seqE (pure (find_child h (node_data p s5) (node_no nb s5)) s5)
                   (\<lambda>j s6. Ret () (put_node p (set_key h j (get_key h 0 (node_data nb s6)) (node_data p s6)) s6)))))"

text \<open>
  \<^verbatim>\<open>coalesce\<close> merges the right node into the left one; it swaps the caller's two handles when the node
  is the left one, which the caller then sees. The recursion goes up one level.
\<close>

fun coalesce_or_redistribute :: "nat \<Rightarrow> 'r replacer_ops \<Rightarrow> int \<Rightarrow> 'r ix_file \<Rightarrow> (bool, 'r ix_file) res"
and coalesce :: "nat \<Rightarrow> 'r replacer_ops \<Rightarrow> int \<Rightarrow> int \<Rightarrow> int \<Rightarrow> int \<Rightarrow> 'r ix_file \<Rightarrow> (bool, 'r ix_file) res"
where
  "coalesce_or_redistribute k R f s =
     (if is_root_page (node_data f s) then adjust_root R f s
      else if num_key (node_data f s) \<ge> get_min_size (ix_hdr s)
      then seqE (maintain_parent R f s) (\<lambda>_ s1. Ret False s1)
      else case k of 0 \<Rightarrow> Throw NonTermination s | Suc k' \<Rightarrow>
        seqE (fetch_node R (parent (node_data f s)) s)
          (\<lambda>p s1. seqE (pure (find_child (ix_hdr s1) (node_data p s1) (node_no f s1)) s1)
             (\<lambda>index s2.
                let nb_index = (if index > 0 then index - 1 else index + 1)
                in seqE (fetch_node R (value_at (ix_hdr s2) nb_index (node_data p s2)) s2)
                  (\<lambda>nb s3.
                     if num_key (node_data f s3) + num_key (node_data nb s3) \<ge> get_min_size (ix_hdr s3) * 2
                     then seqE (redistribute R nb f p index s3)
                            (\<lambda>_ s4. Ret False (unpin_node R p True (unpin_node R nb True s4)))
                     else seqE (coalesce k' R nb f p index s3)
                            (\<lambda>parent_should_delete s4.
                               let s5 = unpin_node R (if index = 0 then f else nb) True s4
                               in Ret True (if parent_should_delete then s5 else unpin_node R p True s5))))))"
| "coalesce k R nb0 f0 p index s =
     (let nb = (if index = 0 then f0 else nb0); f = (if index = 0 then nb0 else f0);
          h = ix_hdr s; d = node_data f s; old_size = num_key (node_data nb s)
      in seqE (on_node nb (insert_pairs h old_size (drop (key_off h 0) d) (drop (rid_off h 0) d) (num_key d)) s)
        (\<lambda>_ s1. seqE
           (if \<not> is_leaf (node_data nb s1)
            then maintain_children R nb [old_size..num_key (node_data nb s1) - 1] s1
            else let s2 = put_node nb (set_next_leaf (next_leaf (node_data f s1)) (node_data nb s1)) s1
                 in seqE (if next_leaf (node_data f s2) \<noteq> IX_LEAF_HEADER_PAGE
                          then seqE (fetch_node R (next_leaf (node_data f s2)) s2)
                                 (\<lambda>n s3. Ret () (unpin_node R n True
                                    (put_node n (set_prev_leaf (node_no nb s3) (node_data n s3)) s3)))
                          else Ret () s2)
                      (\<lambda>_ s4. Ret () (if last_leaf (ix_hdr s4) = node_no f s4 then set_last_leaf (node_no nb s4) s4 else s4)))
           (\<lambda>_ s5. seqE (pure (find_child (ix_hdr s5) (node_data p s5) (node_no f s5)) s5)
              (\<lambda>i s6. seqE (on_node p (erase_pair (ix_hdr s6) i) s6)
                 (\<lambda>_ s7. case k of 0 \<Rightarrow> Throw NonTermination s7 | Suc k' \<Rightarrow> coalesce_or_redistribute k' R p s7)))))"

declare coalesce_or_redistribute.simps [simp del] coalesce.simps [simp del]

section \<open>Scanning\<close>

definition ix_scan_is_end :: "iid \<Rightarrow> iid \<Rightarrow> bool" where
  "ix_scan_is_end cur stop = (cur = stop)"

definition ix_scan_next :: "'r replacer_ops \<Rightarrow> iid \<Rightarrow> iid \<Rightarrow> 'r ix_file \<Rightarrow> (iid, 'r ix_file) res" where
  "ix_scan_next R cur stop s =
     (if ix_scan_is_end cur stop then Throw AssertionFailure s
      else seqE (fetch_node R (iid_page cur) s)
        (\<lambda>f s1.
           if \<not> is_leaf (node_data f s1) then Throw AssertionFailure s1
           else if \<not> iid_slot cur < num_key (node_data f s1) then Throw AssertionFailure s1
           else let slot = iid_slot cur + 1;
                    nxt = (if iid_page cur \<noteq> last_leaf (ix_hdr s1) \<and> slot = num_key (node_data f s1)
                           then Iid (next_leaf (node_data f s1)) 0 else Iid (iid_page cur) slot)
                in Ret nxt (unpin_node R f False s1)))"

definition ix_scan_rid :: "'r replacer_ops \<Rightarrow> iid \<Rightarrow> 'r ix_file \<Rightarrow> (rid, 'r ix_file) res" where
  "ix_scan_rid R cur s = ix_get_rid R cur s"

section \<open>IxManager\<close>

definition get_index_name :: "string \<Rightarrow> string list \<Rightarrow> string" where
  "get_index_name filename index_cols = filename @ concat (map (\<lambda>c. ''_'' @ c) index_cols) @ ''.idx''"

definition ix_exists :: "string \<Rightarrow> string list \<Rightarrow> 'r bpm \<Rightarrow> bool" where
  "ix_exists filename index_cols s = is_file (get_index_name filename index_cols) (disk_st s)"

text \<open>The order of a tree, with the unsigned 64-bit arithmetic of the expression.\<close>

definition order_for :: "int \<Rightarrow> int" where
  "order_for tot =
     wrap32 (((int PAGE_SIZE - int SIZEOF_IxPageHdr) div ((tot + 8) mod 2 ^ 64) - 1) mod 2 ^ 64)"

definition new_ix_hdr :: "col_meta list \<Rightarrow> ix_file_hdr" where
  "new_ix_hdr cols =
     (let tot = foldl (\<lambda>a c. wrap32 (a + cm_len c)) 0 cols; ord = order_for tot in
      update_tot_len
        \<lparr>ih_first_free = IX_NO_PAGE, ih_num_pages = IX_INIT_NUM_PAGES, root_page = IX_INIT_ROOT_PAGE,
         ih_col_num = int (length cols), col_types = map cm_type cols, col_lens = map cm_len cols,
         ih_col_tot_len = tot, btree_order = ord, keys_size = (ord + 1) * tot,
         first_leaf = IX_INIT_ROOT_PAGE, last_leaf = IX_INIT_ROOT_PAGE, tot_len = 0\<rparr>)"

text \<open>The bytes of the leaf header page and of the first root: a page header, then zeros.\<close>

definition new_leaf_page :: "int \<Rightarrow> bytes" where
  "new_leaf_page link =
     set_next_leaf link (set_prev_leaf link (set_is_leaf True (set_size 0 (set_parent IX_NO_PAGE
       (put_i32 (zeros PAGE_SIZE) 0 IX_NO_PAGE)))))"

definition create_index :: "string \<Rightarrow> col_meta list \<Rightarrow> 'r bpm \<Rightarrow> (unit, 'r bpm) res" where
  "create_index filename index_cols s0 =
     (let ix_name = get_index_name filename (map cm_name index_cols); h = new_ix_hdr index_cols in
      seqE (on_disk (create_file ix_name) s0)
        (\<lambda>_ s1. seqE (on_disk (open_file ix_name) s1)
           (\<lambda>fd s2.
              if ih_col_tot_len h > IX_MAX_COL_LEN then Throw (InvalidColLengthError (ih_col_tot_len h)) s2
              else if \<not> btree_order h > 2 then Throw AssertionFailure s2
              else seqE (pure (ix_hdr_serialize h) s2)
                (\<lambda>bs s3. seqE (on_disk (write_page fd IX_FILE_HDR_PAGE bs) s3)
                   (\<lambda>_ s4. seqE (on_disk (write_page fd IX_LEAF_HEADER_PAGE (new_leaf_page IX_INIT_ROOT_PAGE)) s4)
                      (\<lambda>_ s5. seqE (on_disk (write_page fd IX_INIT_ROOT_PAGE (new_leaf_page IX_LEAF_HEADER_PAGE)) s5)
                         (\<lambda>_ s6. on_disk (close_file fd)
                            (s6\<lparr>disk_st := set_fd2pageno fd IX_INIT_NUM_PAGES (disk_st s6)\<rparr>))))))))"

definition destroy_index :: "string \<Rightarrow> string list \<Rightarrow> 'r bpm \<Rightarrow> (unit, 'r bpm) res" where
  "destroy_index filename index_cols s = on_disk (destroy_file (get_index_name filename index_cols)) s"

text \<open>The constructor reads the header page twice; the first read only fills eight bytes of the handle itself.\<close>

definition IxIndexHandle :: "int \<Rightarrow> 'r bpm \<Rightarrow> ('r ix_file, 'r bpm) res" where
  "IxIndexHandle fd s =
     (case read_page fd IX_FILE_HDR_PAGE (zeros 8) (disk_st s) of
        (Inl e, (_, d)) \<Rightarrow> Throw e (s\<lparr>disk_st := d\<rparr>)
      | (Inr _, (_, d)) \<Rightarrow>
          (case read_page fd IX_FILE_HDR_PAGE (zeros PAGE_SIZE) d of
             (Inl e, (_, d1)) \<Rightarrow> Throw e (s\<lparr>disk_st := d1\<rparr>)
           | (Inr _, (buf, d1)) \<Rightarrow>
               (case ix_hdr_deserialize buf of
                  Inl e \<Rightarrow> Throw e (s\<lparr>disk_st := d1\<rparr>)
                | Inr h \<Rightarrow>
                    let d2 = set_fd2pageno fd (max (get_fd2pageno fd d1) (ih_num_pages h)) d1;
                        s1 = s\<lparr>disk_st := d2\<rparr>
                    in Ret \<lparr>ix_fd = fd, ix_hdr = h, ix_pool = s1\<rparr> s1)))"

definition open_index :: "string \<Rightarrow> string list \<Rightarrow> 'r bpm \<Rightarrow> ('r ix_file, 'r bpm) res" where
  "open_index filename index_cols s =
     seqE (on_disk (open_file (get_index_name filename index_cols)) s) (\<lambda>fd s1. IxIndexHandle fd s1)"

definition close_index :: "'r replacer_ops \<Rightarrow> 'r ix_file \<Rightarrow> (unit, 'r bpm) res" where
  "close_index R s =
     seqE (pure (ix_hdr_serialize (ix_hdr s)) (ix_pool s))
       (\<lambda>bs p. seqE (on_disk (write_page (ix_fd s) IX_FILE_HDR_PAGE bs) p)
          (\<lambda>_ p1. seqE (delete_all_pages R (ix_fd s) p1)
             (\<lambda>_ p2. on_disk (close_file (ix_fd s)) p2)))"

end
