(* ===== verification/Index_Node_Props.thy ===== *)
theory Index_Node_Props
  imports Index_Node
begin

text \<open>
  What a B+ tree node holds and what the node operations do to it. The bytes of a page are read as a
  list of pairs (\<open>entries\<close>); insertion and removal are list operations on it; with keys in strictly
  increasing order, the binary searches find the right place, so that a node behaves as a sorted
  map. The order of keys is an interface (\<open>key_order\<close>) that \<^verbatim>\<open>ix_compare\<close> provides.
\<close>

section \<open>The parts of a node\<close>

text \<open>A page laid out for \<open>h\<close> has room for \<^verbatim>\<open>get_max_size\<close> keys and record numbers.\<close>

definition ix_layout :: "ix_file_hdr \<Rightarrow> bool" where
  "ix_layout h \<longleftrightarrow> 0 < ih_col_tot_len h \<and> 2 < btree_order h \<and>
     keys_size h = get_max_size h * ih_col_tot_len h \<and>
     24 + get_max_size h * (ih_col_tot_len h + 8) \<le> int PAGE_SIZE"

definition node_ok :: "ix_file_hdr \<Rightarrow> bytes \<Rightarrow> bool" where
  "node_ok h d \<longleftrightarrow> length d = PAGE_SIZE \<and> 0 \<le> num_key d \<and> num_key d \<le> get_max_size h"

lemma ix_layoutD:
  assumes "ix_layout h"
  shows "0 < nat (ih_col_tot_len h)" "0 \<le> i \<Longrightarrow> key_off h i = 24 + nat i * nat (ih_col_tot_len h)"
    "0 \<le> i \<Longrightarrow> rid_off h i = 24 + nat (get_max_size h) * nat (ih_col_tot_len h) + nat i * 8"
    "24 + nat (get_max_size h) * nat (ih_col_tot_len h) + 8 * nat (get_max_size h) \<le> PAGE_SIZE"
    "3 < get_max_size h"
proof -
  note l = assms [unfolded ix_layout_def]
  show "0 < nat (ih_col_tot_len h)" "3 < get_max_size h" using l by (auto simp: get_max_size_def)
  show "0 \<le> i \<Longrightarrow> key_off h i = 24 + nat i * nat (ih_col_tot_len h)"
    using l by (simp add: key_off_def SIZEOF_IxPageHdr_def nat_mult_distrib)
  show "0 \<le> i \<Longrightarrow> rid_off h i = 24 + nat (get_max_size h) * nat (ih_col_tot_len h) + nat i * 8"
    using l by (simp add: rid_off_def SIZEOF_IxPageHdr_def nat_mult_distrib get_max_size_def)
  have "int (24 + nat (get_max_size h) * nat (ih_col_tot_len h) + 8 * nat (get_max_size h)) =
      24 + get_max_size h * (ih_col_tot_len h + 8)"
    using l by (simp add: get_max_size_def algebra_simps)
  then show "24 + nat (get_max_size h) * nat (ih_col_tot_len h) + 8 * nat (get_max_size h) \<le> PAGE_SIZE"
    using l by linarith
qed

text \<open>The pairs a node holds, as a list.\<close>

definition entries :: "ix_file_hdr \<Rightarrow> bytes \<Rightarrow> (bytes \<times> rid) list" where
  "entries h d = map (\<lambda>i. (get_key h (int i) d, ix_rid h (int i) d)) [0..<nat (num_key d)]"

lemma length_entries [simp]: "length (entries h d) = nat (num_key d)"
  by (simp add: entries_def)

lemma nth_entries: "i < nat (num_key d) \<Longrightarrow> entries h d ! i = (get_key h (int i) d, ix_rid h (int i) d)"
  by (simp add: entries_def)

subsection \<open>Arrays inside a page\<close>

definition chunk :: "nat \<Rightarrow> nat \<Rightarrow> bytes \<Rightarrow> nat \<Rightarrow> bytes" where
  "chunk base L d i = slice d (base + i * L) L"

lemma index_step: "i < (j :: nat) \<Longrightarrow> i * L + L \<le> j * L"
  using mult_le_mono1 [of "Suc i" j L] by simp

lemma chunk_blit:
  assumes "length src = n * L" and "base + (p + n) * L \<le> length d" and "base + i * L + L \<le> length d"
  shows "chunk base L (blit d (base + p * L) src) i =
    (if p \<le> i \<and> i < p + n then slice src ((i - p) * L) L else chunk base L d i)"
proof -
  have fits: "base + p * L + length src \<le> length d" using assms(1,2) by (simp add: algebra_simps)
  consider "i < p" | "p \<le> i" "i < p + n" | "p + n \<le> i" by linarith
  then show ?thesis
  proof cases
    case 1
    with index_step [OF 1, of L] fits assms(3) show ?thesis
      by (simp add: chunk_def slice_blit_other)
  next
    case 2
    have "p * L \<le> i * L" "i * L + L \<le> (p + n) * L" using 2 index_step [OF 2(2), of L] by simp_all
    then have "slice (blit d (base + p * L) src) (base + i * L) L = slice src (base + i * L - (base + p * L)) L"
      using fits assms(1) by (intro slice_blit_in) (auto simp: algebra_simps)
    with 2 show ?thesis by (simp add: chunk_def diff_mult_distrib)
  next
    case 3
    have "(p + n) * L \<le> i * L" using 3 by (rule mult_le_mono1)
    with 3 fits assms(1,3) show ?thesis
      by (simp add: chunk_def slice_blit_other algebra_simps)
  qed
qed

lemma chunk_slice: "i < n \<Longrightarrow> slice (slice d (base + p * L) (n * L)) (i * L) L = chunk base L d (p + i)"
  using index_step [of i n L] by (simp add: chunk_def slice_slice algebra_simps)

lemma chunk_move:
  assumes "base + (p + n) * L \<le> length d" and "base + (q + n) * L \<le> length d" and "base + i * L + L \<le> length d"
  shows "chunk base L (move_bytes (base + q * L) (base + p * L) (n * L) d) i =
    (if q \<le> i \<and> i < q + n then chunk base L d (p + (i - q)) else chunk base L d i)"
proof -
  have "base + p * L + n * L \<le> length d" using assms(1) by (simp add: algebra_simps)
  then have len: "length (slice d (base + p * L) (n * L)) = n * L" by simp
  show ?thesis
    unfolding move_bytes_def using chunk_blit [OF len assms(2,3)] chunk_slice [of "i - q" n] by auto
qed

lemma length_move_bytes [simp]:
  "dst + n \<le> length d \<Longrightarrow> src + n \<le> length d \<Longrightarrow> length (move_bytes dst src n d) = length d"
  by (simp add: move_bytes_def)

lemma slice_move_other:
  "dst + n \<le> length d \<Longrightarrow> src + n \<le> length d \<Longrightarrow> o' + k \<le> length d \<Longrightarrow> o' + k \<le> dst \<or> dst + n \<le> o' \<Longrightarrow>
   slice (move_bytes dst src n d) o' k = slice d o' k"
  by (simp add: move_bytes_def slice_blit_other)

lemma get_key_chunk: "ix_layout h \<Longrightarrow> get_key h (int i) d = chunk 24 (nat (ih_col_tot_len h)) d i"
  by (simp add: get_key_def chunk_def ix_layoutD(2))

definition dec_rid :: "bytes \<Rightarrow> rid" where
  "dec_rid bs = Rid (get_i32 bs 0) (get_i32 bs 4)"

lemma ix_rid_chunk:
  "ix_layout h \<Longrightarrow> ix_rid h (int i) d =
     dec_rid (chunk (24 + nat (get_max_size h) * nat (ih_col_tot_len h)) 8 d i)"
  by (simp add: ix_rid_def chunk_def dec_rid_def slice_slice ix_layoutD(3) algebra_simps)

text \<open>The two arrays of a page laid out for \<open>h\<close>.\<close>

abbreviation key_len :: "ix_file_hdr \<Rightarrow> nat" where "key_len h \<equiv> nat (ih_col_tot_len h)"
abbreviation max_keys :: "ix_file_hdr \<Rightarrow> nat" where "max_keys h \<equiv> nat (get_max_size h)"
abbreviation rid_base :: "ix_file_hdr \<Rightarrow> nat" where "rid_base h \<equiv> 24 + max_keys h * key_len h"

lemma array_bounds:
  assumes "ix_layout h" and "length d = PAGE_SIZE" and "j \<le> max_keys h"
  shows "24 + j * key_len h \<le> rid_base h" "rid_base h \<le> length d" "24 + j * key_len h \<le> length d"
    "rid_base h + j * 8 \<le> length d"
proof -
  show k: "24 + j * key_len h \<le> rid_base h" using mult_le_mono1 [OF assms(3), of "key_len h"] by linarith
  have r: "rid_base h + 8 * max_keys h \<le> PAGE_SIZE" using ix_layoutD(4) [OF assms(1)] .
  then show "rid_base h \<le> length d" using assms(2) by linarith
  then show "24 + j * key_len h \<le> length d" using k by linarith
  show "rid_base h + j * 8 \<le> length d" using r assms(2,3) by linarith
qed

text \<open>A store into one array is not seen in the other, nor in the page header.\<close>

lemma keys_rids_disjoint:
  assumes l: "ix_layout h" and d: "length d = PAGE_SIZE" and j: "p + n \<le> max_keys h"
  shows "length src = n * key_len h \<Longrightarrow> i < max_keys h \<Longrightarrow>
      chunk (rid_base h) 8 (blit d (24 + p * key_len h) src) i = chunk (rid_base h) 8 d i"
    and "length src = n * 8 \<Longrightarrow> i < max_keys h \<Longrightarrow>
      chunk 24 (key_len h) (blit d (rid_base h + p * 8) src) i = chunk 24 (key_len h) d i"
    and "length src = n * key_len h \<Longrightarrow> o' + k \<le> 24 \<Longrightarrow> slice (blit d (24 + p * key_len h) src) o' k = slice d o' k"
    and "length src = n * 8 \<Longrightarrow> o' + k \<le> 24 \<Longrightarrow> slice (blit d (rid_base h + p * 8) src) o' k = slice d o' k"
proof -
  note b = array_bounds [OF l d j]
  have pn: "24 + p * key_len h + n * key_len h \<le> rid_base h" "rid_base h + p * 8 + n * 8 \<le> length d"
    using b by (simp_all add: algebra_simps)
  have i8: "rid_base h + i * 8 + 8 \<le> length d" "24 + i * key_len h + key_len h \<le> rid_base h" if "i < max_keys h" for i
    using array_bounds [OF l d, of "Suc i"] that by (simp_all add: algebra_simps)
  show "chunk (rid_base h) 8 (blit d (24 + p * key_len h) src) i = chunk (rid_base h) 8 d i"
    if "length src = n * key_len h" "i < max_keys h"
    unfolding chunk_def by (rule slice_blit_other) (use that pn b i8 in auto)
  show "chunk 24 (key_len h) (blit d (rid_base h + p * 8) src) i = chunk 24 (key_len h) d i"
    if "length src = n * 8" "i < max_keys h"
    unfolding chunk_def by (rule slice_blit_other) (use that pn b i8 [OF that(2)] in auto)
  show "slice (blit d (24 + p * key_len h) src) o' k = slice d o' k"
    if "length src = n * key_len h" "o' + k \<le> 24"
    by (rule slice_blit_other) (use that pn b in auto)
  show "slice (blit d (rid_base h + p * 8) src) o' k = slice d o' k" if "length src = n * 8" "o' + k \<le> 24"
    by (rule slice_blit_other) (use that pn b in auto)
qed


lemma key_store [simp]: "chunk 24 (key_len h) (blit d (24 + p * key_len h) src) i =
    (if p \<le> i \<and> i < p + n then slice src ((i - p) * key_len h) (key_len h) else chunk 24 (key_len h) d i)"
  if "ix_layout h" "length d = PAGE_SIZE" "length src = n * key_len h" "p + n \<le> max_keys h" "i < max_keys h"
  using chunk_blit [OF that(3), of 24 p d i] array_bounds [OF that(1,2), of "p + n"]
    array_bounds [OF that(1,2), of "Suc i"] that(4,5) by (simp add: algebra_simps)

lemma rid_store [simp]: "chunk (rid_base h) 8 (blit d (rid_base h + p * 8) src) i =
    (if p \<le> i \<and> i < p + n then slice src ((i - p) * 8) 8 else chunk (rid_base h) 8 d i)"
  if "ix_layout h" "length d = PAGE_SIZE" "length src = n * 8" "p + n \<le> max_keys h" "i < max_keys h"
  using chunk_blit [OF that(3), of "rid_base h" p d i] array_bounds [OF that(1,2), of "p + n"]
    array_bounds [OF that(1,2), of "Suc i"] that(4,5) by (simp add: algebra_simps)

text \<open>Moving pairs from index \<open>p\<close> on to index \<open>q\<close> on, in both arrays.\<close>

definition move_pairs :: "ix_file_hdr \<Rightarrow> nat \<Rightarrow> nat \<Rightarrow> nat \<Rightarrow> bytes \<Rightarrow> bytes" where
  "move_pairs h q p n d =
     move_bytes (rid_base h + q * 8) (rid_base h + p * 8) (n * 8)
       (move_bytes (24 + q * key_len h) (24 + p * key_len h) (n * key_len h) d)"

definition put_pairs :: "ix_file_hdr \<Rightarrow> nat \<Rightarrow> bytes \<Rightarrow> bytes \<Rightarrow> bytes \<Rightarrow> bytes" where
  "put_pairs h p key rids d = blit (blit d (24 + p * key_len h) key) (rid_base h + p * 8) rids"

lemma put_pairs:
  assumes l: "ix_layout h" and d: "length d = PAGE_SIZE" and fit: "p + n \<le> max_keys h"
    and k: "length key = n * key_len h" and r: "length rids = n * 8"
  shows "length (put_pairs h p key rids d) = PAGE_SIZE"
    and "o' + m \<le> 24 \<Longrightarrow> slice (put_pairs h p key rids d) o' m = slice d o' m"
    and "i < max_keys h \<Longrightarrow> chunk 24 (key_len h) (put_pairs h p key rids d) i =
      (if p \<le> i \<and> i < p + n then slice key ((i - p) * key_len h) (key_len h) else chunk 24 (key_len h) d i)"
    and "i < max_keys h \<Longrightarrow> chunk (rid_base h) 8 (put_pairs h p key rids d) i =
      (if p \<le> i \<and> i < p + n then slice rids ((i - p) * 8) 8 else chunk (rid_base h) 8 d i)"
proof -
  note b = array_bounds [OF l d fit]
  let ?dk = "blit d (24 + p * key_len h) key"
  have dk: "length ?dk = PAGE_SIZE" using b k d by (simp add: algebra_simps)
  show "length (put_pairs h p key rids d) = PAGE_SIZE"
    unfolding put_pairs_def using b r d dk by (simp add: algebra_simps)
  show "slice (put_pairs h p key rids d) o' m = slice d o' m" if "o' + m \<le> 24"
    unfolding put_pairs_def
    using keys_rids_disjoint(4) [OF l dk fit r that] keys_rids_disjoint(3) [OF l d fit k that] by simp
  show "chunk 24 (key_len h) (put_pairs h p key rids d) i =
      (if p \<le> i \<and> i < p + n then slice key ((i - p) * key_len h) (key_len h) else chunk 24 (key_len h) d i)"
    if "i < max_keys h"
    unfolding put_pairs_def
    using keys_rids_disjoint(2) [OF l dk fit r that] key_store [OF l d k fit that] by simp
  show "chunk (rid_base h) 8 (put_pairs h p key rids d) i =
      (if p \<le> i \<and> i < p + n then slice rids ((i - p) * 8) 8 else chunk (rid_base h) 8 d i)"
    if "i < max_keys h"
    unfolding put_pairs_def
    using keys_rids_disjoint(1) [OF l d fit k that] rid_store [OF l dk r fit that] by simp
qed

lemma move_pairs:
  assumes l: "ix_layout h" and d: "length d = PAGE_SIZE" and p: "p + n \<le> max_keys h" and q: "q + n \<le> max_keys h"
  shows "move_pairs h q p n d =
      put_pairs h q (slice d (24 + p * key_len h) (n * key_len h)) (slice d (rid_base h + p * 8) (n * 8)) d"
    (is ?eq)
    and "length (move_pairs h q p n d) = PAGE_SIZE"
    and "o' + m \<le> 24 \<Longrightarrow> slice (move_pairs h q p n d) o' m = slice d o' m"
    and "i < max_keys h \<Longrightarrow> chunk 24 (key_len h) (move_pairs h q p n d) i =
      chunk 24 (key_len h) d (if q \<le> i \<and> i < q + n then p + (i - q) else i)"
    and "i < max_keys h \<Longrightarrow> chunk (rid_base h) 8 (move_pairs h q p n d) i =
      chunk (rid_base h) 8 d (if q \<le> i \<and> i < q + n then p + (i - q) else i)"
proof -
  note bp = array_bounds [OF l d p]
  note bq = array_bounds [OF l d q]
  let ?k = "slice d (24 + p * key_len h) (n * key_len h)"
  let ?r = "slice d (rid_base h + p * 8) (n * 8)"
  have k: "length ?k = n * key_len h" using bp by (simp add: algebra_simps)
  have r: "length ?r = n * 8" using bp by (simp add: algebra_simps)
  have "slice (blit d (24 + q * key_len h) ?k) (rid_base h + p * 8) (n * 8) = ?r"
    by (rule slice_blit_other) (use bp bq k in \<open>auto simp: algebra_simps\<close>)
  then show eq: ?eq by (simp add: move_pairs_def put_pairs_def move_bytes_def)
  note pp = put_pairs [OF l d q k r]
  show "length (move_pairs h q p n d) = PAGE_SIZE" using pp(1) eq by simp
  show "slice (move_pairs h q p n d) o' m = slice d o' m" if "o' + m \<le> 24" using pp(2) [OF that] eq by simp
  show "chunk 24 (key_len h) (move_pairs h q p n d) i =
      chunk 24 (key_len h) d (if q \<le> i \<and> i < q + n then p + (i - q) else i)" if "i < max_keys h"
    using pp(3) [OF that] eq chunk_slice [of "i - q" n d 24 p "key_len h"] by auto
  show "chunk (rid_base h) 8 (move_pairs h q p n d) i =
      chunk (rid_base h) 8 d (if q \<le> i \<and> i < q + n then p + (i - q) else i)" if "i < max_keys h"
    using pp(4) [OF that] eq chunk_slice [of "i - q" n d "rid_base h" p 8] by auto
qed

subsection \<open>Insertion and removal of pairs\<close>

text \<open>What the page header says besides the number of keys.\<close>

definition hdr_rest :: "bytes \<Rightarrow> bytes \<times> bytes" where
  "hdr_rest d = (slice d 0 8, slice d 12 12)"

lemma hdr_restD:
  assumes "hdr_rest d' = hdr_rest d"
  shows "parent d' = parent d" "is_leaf d' = is_leaf d" "prev_leaf d' = prev_leaf d" "next_leaf d' = next_leaf d"
proof -
  have eq: "slice d' 0 8 = slice d 0 8" "slice d' 12 12 = slice d 12 12" using assms by (auto simp: hdr_rest_def)
  have a: "slice (slice x 0 8) 4 4 = slice x 4 4" for x by (simp add: slice_slice)
  have b: "slice (slice x 12 12) 0 1 = slice x 12 1" "slice (slice x 12 12) 4 4 = slice x 16 4"
    "slice (slice x 12 12) 8 4 = slice x 20 4" for x by (simp_all add: slice_slice)
  show "parent d' = parent d" using eq(1) a [of d'] a [of d] by (simp add: parent_def)
  show "is_leaf d' = is_leaf d" "prev_leaf d' = prev_leaf d" "next_leaf d' = next_leaf d"
    using eq(2) b [of d'] b [of d] by (simp_all add: is_leaf_def prev_leaf_def next_leaf_def)
qed

lemma set_size:
  assumes l: "ix_layout h" and d: "length d = PAGE_SIZE" and v: "0 \<le> v" "v \<le> get_max_size h"
  shows "length (set_size v d) = PAGE_SIZE" "num_key (set_size v d) = v" "hdr_rest (set_size v d) = hdr_rest d"
    "i < max_keys h \<Longrightarrow> chunk 24 (key_len h) (set_size v d) i = chunk 24 (key_len h) d i"
    "i < max_keys h \<Longrightarrow> chunk (rid_base h) 8 (set_size v d) i = chunk (rid_base h) 8 d i"
proof -
  have "nat (get_max_size h) \<le> PAGE_SIZE" using ix_layoutD(4) [OF l] by linarith
  then have v32: "is_i32 v" using v by (simp add: is_i32_def PAGE_SIZE_def)
  show "length (set_size v d) = PAGE_SIZE" using d by (simp add: set_size_def PAGE_SIZE_def)
  show "num_key (set_size v d) = v" using d v32 by (simp add: set_size_def num_key_def PAGE_SIZE_def)
  show "hdr_rest (set_size v d) = hdr_rest d"
    using d by (simp add: set_size_def hdr_rest_def slice_blit_other PAGE_SIZE_def)
  fix i assume i: "i < max_keys h"
  have b: "24 + i * key_len h + key_len h \<le> length d" "rid_base h + i * 8 + 8 \<le> length d"
    using array_bounds [OF l d, of "Suc i"] i by (simp_all add: algebra_simps)
  show "chunk 24 (key_len h) (set_size v d) i = chunk 24 (key_len h) d i"
    unfolding chunk_def set_size_def by (rule slice_blit_other) (use b d in \<open>auto simp: PAGE_SIZE_def\<close>)
  show "chunk (rid_base h) 8 (set_size v d) i = chunk (rid_base h) 8 d i"
    unfolding chunk_def set_size_def by (rule slice_blit_other) (use b d in \<open>auto simp: PAGE_SIZE_def\<close>)
qed

text \<open>Pairs given as two packed arrays, the way \<^verbatim>\<open>insert_pairs\<close> takes them.\<close>

definition packed :: "ix_file_hdr \<Rightarrow> nat \<Rightarrow> bytes \<Rightarrow> bytes \<Rightarrow> (bytes \<times> rid) list" where
  "packed h n key rids = map (\<lambda>i. (slice key (i * key_len h) (key_len h), dec_rid (slice rids (i * 8) 8))) [0..<n]"

lemma length_packed [simp]: "length (packed h n key rids) = n"
  by (simp add: packed_def)

lemma entries_chunks:
  assumes "ix_layout h"
  shows "entries h d = map (\<lambda>i. (chunk 24 (key_len h) d i, dec_rid (chunk (rid_base h) 8 d i))) [0..<nat (num_key d)]"
  using assms by (simp add: entries_def get_key_chunk ix_rid_chunk)

lemma slice_take: "i + m \<le> n \<Longrightarrow> slice (take n xs) i m = slice xs i m"
  by (simp add: slice_def take_drop [symmetric] min_def drop_take)

lemma packed_take:
  "packed h n (take (n * key_len h) key) (take (n * 8) rids) = packed h n key rids"
  using index_step [of _ n "key_len h"] index_step [of _ n 8]
  by (auto simp: packed_def slice_take intro!: map_cong)

lemma insert_pairs_entries:
  assumes l: "ix_layout h" and ok: "node_ok h d" and pos: "0 \<le> pos" "pos \<le> num_key d"
    and n: "0 \<le> n" "num_key d + n \<le> get_max_size h"
    and k: "nat n * key_len h \<le> length key" and r: "nat n * 8 \<le> length rids"
  shows "\<exists>d'. insert_pairs h pos key rids n d = Inr d' \<and> node_ok h d' \<and> hdr_rest d' = hdr_rest d \<and>
    num_key d' = num_key d + n \<and>
    entries h d' = take (nat pos) (entries h d) @ packed h (nat n) key rids @ drop (nat pos) (entries h d)"
proof -
  define P N K where "P = nat pos" "N = nat n" "K = nat (num_key d)"
  note PNK = P_N_K_def
  have d: "length d = PAGE_SIZE" using ok by (simp add: node_ok_def)
  have le: "P \<le> K" "K + N \<le> max_keys h" using pos n by (auto simp: PNK)
  let ?k = "take (N * key_len h) key" and ?r = "take (N * 8) rids"
  have kr: "length ?k = N * key_len h" "length ?r = N * 8" using k r by (auto simp: PNK)
  define d1 where "d1 = move_pairs h (P + N) P (K - P) d"
  define d3 where "d3 = put_pairs h P ?k ?r d1"
  have f1: "P + (K - P) \<le> max_keys h" "P + N + (K - P) \<le> max_keys h" "P + N \<le> max_keys h" using le by auto
  note m = move_pairs [OF l d f1(1,2), folded d1_def]
  note w = put_pairs [OF l m(2) f1(3) kr, folded d3_def]
  note z = set_size [OF l w(1), of "num_key d + n"]
  have rest: "hdr_rest d3 = hdr_rest d" "num_key d3 = num_key d"
    using w(2) m(3) by (simp_all add: hdr_rest_def num_key_def)
  have nn: "0 \<le> num_key d + n" using pos n by linarith
  have d1': "(if num_key d - pos > 0
       then move_bytes (rid_off h (pos + n)) (rid_off h pos) (nat ((num_key d - pos) * 8))
              (move_bytes (key_off h (pos + n)) (key_off h pos) (nat ((num_key d - pos) * ih_col_tot_len h)) d)
       else d) = d1"
  proof -
    have nm: "nat ((num_key d - pos) * 8) = (K - P) * 8"
      "nat ((num_key d - pos) * ih_col_tot_len h) = (K - P) * key_len h"
      using pos by (simp_all add: PNK nat_mult_distrib nat_diff_distrib)
    have np: "nat (pos + n) = P + N" using pos n by (simp add: PNK nat_add_distrib)
    show ?thesis
      using pos n unfolding d1_def move_pairs_def nm
      by (auto simp: ix_layoutD(2,3) [OF l] np PNK move_bytes_def slice_def mult.commute)
  qed
  have ins: "insert_pairs h pos key rids n d = Inr (set_size (num_key d + n) d3)"
    using pos n ix_layoutD(1) [OF l] unfolding insert_pairs_def Let_def d1'
    by (simp add: ix_layoutD(2,3) [OF l] PNK [symmetric] nat_mult_distrib put_pairs_def [symmetric]
        d3_def [symmetric] rest)
  let ?d' = "set_size (num_key d + n) d3"
  have at: "chunk 24 (key_len h) ?d' i = (if i < P then chunk 24 (key_len h) d i
        else if i < P + N then slice ?k ((i - P) * key_len h) (key_len h) else chunk 24 (key_len h) d (i - N))"
      "chunk (rid_base h) 8 ?d' i = (if i < P then chunk (rid_base h) 8 d i
        else if i < P + N then slice ?r ((i - P) * 8) 8 else chunk (rid_base h) 8 d (i - N))"
    if "i < K + N" for i
    using that le z(4,5) [OF nn n(2), of i] w(3,4) [of i] m(4,5) [of i] by auto
  have size: "nat (num_key ?d') = K + N" using z(2) [OF nn n(2)] pos n by (simp add: PNK nat_add_distrib)
  have "entries h ?d' = take P (entries h d) @ packed h N ?k ?r @ drop P (entries h d)"
    unfolding entries_chunks [OF l] size packed_def PNK(3) [symmetric]
    by (rule nth_equalityI) (use le in \<open>auto simp: at nth_append\<close>)
  then have "entries h ?d' = take P (entries h d) @ packed h N key rids @ drop P (entries h d)"
    by (simp add: packed_take)
  moreover have "node_ok h ?d'" using z(1,2) [OF nn n(2)] nn n by (simp add: node_ok_def)
  ultimately show ?thesis using ins z(2,3) [OF nn n(2)] rest by (auto simp: PNK)
qed

lemma erase_pair_entries:
  assumes l: "ix_layout h" and ok: "node_ok h d" and pos: "0 \<le> pos" "pos < num_key d"
  shows "\<exists>d'. erase_pair h pos d = Inr d' \<and> node_ok h d' \<and> hdr_rest d' = hdr_rest d \<and>
    num_key d' = num_key d - 1 \<and> entries h d' = take (nat pos) (entries h d) @ drop (nat pos + 1) (entries h d)"
proof -
  define P K where "P = nat pos" "K = nat (num_key d)"
  note PK = P_K_def
  have d: "length d = PAGE_SIZE" and max: "num_key d \<le> get_max_size h" using ok by (auto simp: node_ok_def)
  have le: "P < K" "K \<le> max_keys h" using pos max by (auto simp: PK)
  define d1 where "d1 = move_pairs h P (P + 1) (K - P - 1) d"
  have f1: "P + 1 + (K - P - 1) \<le> max_keys h" "P + (K - P - 1) \<le> max_keys h" using le by auto
  note m = move_pairs [OF l d f1, folded d1_def]
  have nn: "0 \<le> num_key d - 1" "num_key d - 1 \<le> get_max_size h" using pos max by auto
  note z = set_size [OF l m(2) nn]
  have rest: "hdr_rest d1 = hdr_rest d" "num_key d1 = num_key d"
    using m(3) by (simp_all add: hdr_rest_def num_key_def)
  have d1': "(if num_key d - pos - 1 > 0
       then move_bytes (rid_off h pos) (rid_off h (pos + 1)) (nat ((num_key d - pos - 1) * 8))
              (move_bytes (key_off h pos) (key_off h (pos + 1)) (nat ((num_key d - pos - 1) * ih_col_tot_len h)) d)
       else d) = d1"
  proof -
    have nm: "nat ((num_key d - pos - 1) * 8) = (K - P - 1) * 8"
      "nat ((num_key d - pos - 1) * ih_col_tot_len h) = (K - P - 1) * key_len h"
      using pos by (simp_all add: PK nat_mult_distrib nat_diff_distrib)
    have np: "nat (pos + 1) = P + 1" using pos by (simp add: PK nat_add_distrib)
    have last: "K - P - 1 = 0" if "\<not> num_key d - pos - 1 > 0" using that pos by (simp add: PK)
    have off: "rid_off h pos = rid_base h + P * 8" "key_off h pos = 24 + P * key_len h"
      "rid_off h (pos + 1) = rid_base h + (P + 1) * 8" "key_off h (pos + 1) = 24 + (P + 1) * key_len h"
      using pos np by (simp_all add: ix_layoutD(2,3) [OF l] PK)
    show ?thesis
      unfolding d1_def move_pairs_def nm off using last by (auto simp: move_bytes_def slice_def)
  qed
  let ?d' = "set_size (num_key d - 1) d1"
  have er: "erase_pair h pos d = Inr ?d'"
    using pos unfolding erase_pair_def Let_def d1' by (simp add: rest)
  have at: "chunk 24 (key_len h) ?d' i = chunk 24 (key_len h) d (if i < P then i else i + 1)"
      "chunk (rid_base h) 8 ?d' i = chunk (rid_base h) 8 d (if i < P then i else i + 1)"
    if "i < K - 1" for i
    using that le z(4,5) [of i] m(4,5) [of i] by auto
  have size: "nat (num_key ?d') = K - 1" using z(2) pos by (simp add: PK)
  have "entries h ?d' = take P (entries h d) @ drop (P + 1) (entries h d)"
    unfolding entries_chunks [OF l] size PK(2) [symmetric]
    by (rule nth_equalityI) (use le in \<open>auto simp: at nth_append\<close>)
  moreover have "node_ok h ?d'" using z(1,2) nn by (simp add: node_ok_def)
  ultimately show ?thesis using er z(2,3) rest by (auto simp: PK)
qed

section \<open>Binary search\<close>

lemma bsearch_spec:
  assumes "left \<le> right" and mono: "\<And>i j. left \<le> i \<Longrightarrow> i \<le> j \<Longrightarrow> j < right \<Longrightarrow> below j \<Longrightarrow> below i"
  shows "left \<le> bsearch below left right \<and> bsearch below left right \<le> right \<and>
    (\<forall>i. left \<le> i \<and> i < bsearch below left right \<longrightarrow> below i) \<and>
    (\<forall>i. bsearch below left right \<le> i \<and> i < right \<longrightarrow> \<not> below i)"
  using assms
proof (induction below left right rule: bsearch.induct)
  case (1 below left right)
  show ?case
  proof (cases "left < right")
    case False
    with "1.prems"(1) show ?thesis by (auto simp: bsearch.simps)
  next
    case True
    define mid where "mid = (left + right) div 2"
    have m: "left \<le> mid" "mid < right" using True by (auto simp: mid_def)
    show ?thesis
    proof (cases "below mid")
      case b: True
      then have eq: "bsearch below left right = bsearch below (mid + 1) right"
        using True by (simp add: bsearch.simps [of below left] mid_def)
      have mono': "\<And>i j. mid + 1 \<le> i \<Longrightarrow> i \<le> j \<Longrightarrow> j < right \<Longrightarrow> below j \<Longrightarrow> below i"
        by (rule "1.prems"(2)) (use m in auto)
      have lo: "below i" if "left \<le> i" "i \<le> mid" for i using "1.prems"(2) [OF that m(2) b] .
      have ih: "mid + 1 \<le> bsearch below (mid + 1) right \<and> bsearch below (mid + 1) right \<le> right \<and>
          (\<forall>i. mid + 1 \<le> i \<and> i < bsearch below (mid + 1) right \<longrightarrow> below i) \<and>
          (\<forall>i. bsearch below (mid + 1) right \<le> i \<and> i < right \<longrightarrow> \<not> below i)"
        using "1.IH"(1) [OF True mid_def b _ mono'] m by simp
      then have "below i" if "left \<le> i" "i < bsearch below (mid + 1) right" for i
        using lo [of i] that by (cases "i \<le> mid") auto
      with ih m show ?thesis unfolding eq by simp
    next
      case b: False
      then have eq: "bsearch below left right = bsearch below left mid"
        using True by (simp add: bsearch.simps [of below left right] mid_def)
      have mono': "\<And>i j. left \<le> i \<Longrightarrow> i \<le> j \<Longrightarrow> j < mid \<Longrightarrow> below j \<Longrightarrow> below i"
        by (rule "1.prems"(2)) (use m in auto)
      have hi: "\<not> below i" if "mid \<le> i" "i < right" for i using "1.prems"(2) [OF m(1) that] b by blast
      have ih: "left \<le> bsearch below left mid \<and> bsearch below left mid \<le> mid \<and>
          (\<forall>i. left \<le> i \<and> i < bsearch below left mid \<longrightarrow> below i) \<and>
          (\<forall>i. bsearch below left mid \<le> i \<and> i < mid \<longrightarrow> \<not> below i)"
        using "1.IH"(2) [OF True mid_def b m(1) mono'] .
      then have "\<not> below i" if "bsearch below left mid \<le> i" "i < right" for i
        using hi [of i] that by (cases "mid \<le> i") auto
      with ih m show ?thesis unfolding eq by simp
    qed
  qed
qed

section \<open>The order of keys\<close>

text \<open>
  A comparison that orders the valid keys: the sign of the result says which is smaller, zero that they
  count as the same.
\<close>

locale key_order =
  fixes cmp :: "'a \<Rightarrow> 'a \<Rightarrow> int" and valid :: "'a \<Rightarrow> bool"
  assumes antisym: "valid a \<Longrightarrow> valid b \<Longrightarrow> cmp a b = - cmp b a"
    and trans: "valid a \<Longrightarrow> valid b \<Longrightarrow> valid c \<Longrightarrow> cmp a b \<le> 0 \<Longrightarrow> cmp b c \<le> 0 \<Longrightarrow> cmp a c \<le> 0"
begin

lemma less_trans: "valid a \<Longrightarrow> valid b \<Longrightarrow> valid c \<Longrightarrow> cmp a b < 0 \<Longrightarrow> cmp b c \<le> 0 \<Longrightarrow> cmp a c < 0"
  using trans [of b c a] antisym [of a b] antisym [of a c] by fastforce

lemma less_trans': "valid a \<Longrightarrow> valid b \<Longrightarrow> valid c \<Longrightarrow> cmp a b \<le> 0 \<Longrightarrow> cmp b c < 0 \<Longrightarrow> cmp a c < 0"
  using trans [of c a b] antisym [of b c] antisym [of a c] by fastforce

lemma refl: "valid a \<Longrightarrow> cmp a a = 0"
  using antisym [of a a] by simp

lemma eq_subst: "valid a \<Longrightarrow> valid b \<Longrightarrow> valid c \<Longrightarrow> cmp a b = 0 \<Longrightarrow> cmp a c < 0 \<longleftrightarrow> cmp b c < 0"
  using less_trans' [of a b c] less_trans' [of b a c] antisym [of a b] by fastforce

text \<open>Keys in strictly increasing order, and what a search for \<open>k\<close> has to find.\<close>

definition increasing :: "('a \<times> 'v) list \<Rightarrow> bool" where
  "increasing es \<longleftrightarrow> (\<forall>e \<in> set es. valid (fst e)) \<and> sorted_wrt (\<lambda>e e'. cmp (fst e) (fst e') < 0) es"

lemma increasing_nth:
  "increasing es \<Longrightarrow> i < j \<Longrightarrow> j < length es \<Longrightarrow> cmp (fst (es ! i)) (fst (es ! j)) < 0"
  by (auto simp: increasing_def sorted_wrt_iff_nth_less)

lemma increasing_valid: "increasing es \<Longrightarrow> i < length es \<Longrightarrow> valid (fst (es ! i))"
  by (auto simp: increasing_def)

lemma below_mono:
  assumes "increasing es" "valid k" "i \<le> j" "j < length es"
  shows "cmp (fst (es ! j)) k < 0 \<Longrightarrow> cmp (fst (es ! i)) k < 0" and "cmp (fst (es ! j)) k \<le> 0 \<Longrightarrow> cmp (fst (es ! i)) k \<le> 0"
proof -
  have v: "valid (fst (es ! i))" "valid (fst (es ! j))"
    using increasing_valid [OF assms(1), of i] increasing_valid [OF assms(1), of j] assms(3,4) by simp_all
  have le: "cmp (fst (es ! i)) (fst (es ! j)) \<le> 0"
    using increasing_nth [OF assms(1), of i j] assms(3,4) refl [OF v(2)] by (cases "i = j") auto
  show "cmp (fst (es ! j)) k < 0 \<Longrightarrow> cmp (fst (es ! i)) k < 0" using less_trans' [OF v assms(2) le] .
  show "cmp (fst (es ! j)) k \<le> 0 \<Longrightarrow> cmp (fst (es ! i)) k \<le> 0" using trans [OF v assms(2) le] .
qed

text \<open>The place of \<open>k\<close> in the list: \<open>xs\<close> before it, \<open>ys\<close> from it on.\<close>

lemma find_at:
  assumes inc: "increasing (xs @ ys)" and k: "valid k"
    and lo: "\<forall>e \<in> set xs. cmp (fst e) k < 0" and hi: "\<forall>e \<in> set ys. 0 \<le> cmp (fst e) k"
  shows "find (\<lambda>e. cmp (fst e) k = 0) (xs @ ys) =
    (case ys of [] \<Rightarrow> None | e # _ \<Rightarrow> if cmp (fst e) k = 0 then Some e else None)"
proof -
  have skip: "find P (xs @ ys) = find P ys" if "\<forall>e \<in> set xs. \<not> P e" for P and xs ys :: "('a \<times> 'v) list"
    using that by (induction xs) auto
  have "\<forall>e \<in> set xs. cmp (fst e) k \<noteq> 0" using lo by auto
  from skip [OF this] have "find (\<lambda>e. cmp (fst e) k = 0) (xs @ ys) = find (\<lambda>e. cmp (fst e) k = 0) ys" .
  also have "\<dots> = (case ys of [] \<Rightarrow> None | e # _ \<Rightarrow> if cmp (fst e) k = 0 then Some e else None)"
  proof (cases ys)
    case (Cons e zs)
    have v: "valid (fst e)" "\<forall>z \<in> set zs. valid (fst z) \<and> cmp (fst e) (fst z) < 0"
      using inc Cons by (auto simp: increasing_def sorted_wrt_append)
    have "cmp (fst z) k \<noteq> 0" if "z \<in> set zs" for z
    proof
      assume z: "cmp (fst z) k = 0"
      have "cmp (fst e) k < 0" using less_trans [of "fst e" "fst z" k] v that k z by simp
      with hi Cons show False by simp
    qed
    then have "find (\<lambda>e. cmp (fst e) k = 0) zs = None" by (auto simp: find_None_iff)
    with Cons show ?thesis by simp
  qed simp
  finally show ?thesis .
qed

lemma insert_at:
  assumes inc: "increasing (xs @ ys)" and k: "valid k"
    and lo: "\<forall>e \<in> set xs. cmp (fst e) k < 0" and hi: "\<forall>e \<in> set ys. 0 < cmp (fst e) k"
  shows "increasing (xs @ (k, v) # ys)"
proof -
  have "cmp k (fst e) < 0" if "e \<in> set ys" for e
    using antisym [OF k, of "fst e"] inc hi that by (auto simp: increasing_def)
  then show ?thesis using inc k lo by (auto simp: increasing_def sorted_wrt_append)
qed

lemma remove_at: "increasing (xs @ e # ys) \<Longrightarrow> increasing (xs @ ys)"
  by (auto simp: increasing_def sorted_wrt_append)

lemma above_after:
  assumes inc: "increasing (xs @ e # ys)" and k: "valid k" and "0 < cmp (fst e) k"
  shows "\<forall>z \<in> set (e # ys). 0 < cmp (fst z) k"
proof
  fix z assume z: "z \<in> set (e # ys)"
  have v: "valid (fst e)" "valid (fst z)" "z = e \<or> cmp (fst e) (fst z) < 0"
    using inc z by (auto simp: increasing_def sorted_wrt_append)
  show "0 < cmp (fst z) k"
    using less_trans [of k "fst e" "fst z"] antisym [OF k v(1)] antisym [OF k v(2)] v assms(3) k by auto
qed

end

section \<open>The comparison of the index is an order\<close>

lemma mant_at_mono:
  assumes "k \<le> e" "k \<le> e'"
  shows "fp_less (Fin s m e) (Fin s' m' e') \<longleftrightarrow> mant_at k s m e < mant_at k s' m' e'"
proof -
  have "mant_at k s m e = mant_at (min e e') s m e * 2 ^ nat (min e e' - k)"
    "mant_at k s' m' e' = mant_at (min e e') s' m' e' * 2 ^ nat (min e e' - k)"
    using assms by (simp_all add: mant_at_def mult.assoc power_add [symmetric] nat_add_distrib [symmetric])
  then show ?thesis by simp
qed

lemma fp_less_asym: "fp_less x y \<Longrightarrow> \<not> fp_less y x"
  by (cases x; cases y) (auto simp: min.commute)

lemma fp_not_less_trans:
  assumes "x \<noteq> NaN" "y \<noteq> NaN" "z \<noteq> NaN" "\<not> fp_less y x" "\<not> fp_less z y"
  shows "\<not> fp_less z x"
proof (cases "\<exists>s m e. x = Fin s m e"; cases "\<exists>s m e. y = Fin s m e"; cases "\<exists>s m e. z = Fin s m e")
  assume "\<exists>s m e. x = Fin s m e" "\<exists>s m e. y = Fin s m e" "\<exists>s m e. z = Fin s m e"
  then obtain s m e s' m' e' s'' m'' e'' where xyz: "x = Fin s m e" "y = Fin s' m' e'" "z = Fin s'' m'' e''" by blast
  define k where "k = min e (min e' e'')"
  have k: "k \<le> e" "k \<le> e'" "k \<le> e''" by (auto simp: k_def)
  show ?thesis
    using assms(4,5) unfolding xyz mant_at_mono [OF k(2,1)] mant_at_mono [OF k(3,2)] mant_at_mono [OF k(3,1)] by simp
qed (use assms in \<open>cases x; cases y; cases z; auto\<close>)+

lemma three_way_cases [simp]:
  "three_way l g < 0 \<longleftrightarrow> l" "three_way l g \<le> 0 \<longleftrightarrow> l \<or> \<not> g" "three_way l g = 0 \<longleftrightarrow> \<not> l \<and> \<not> g"
  by (auto simp: three_way_def)

lemma three_way_swap: "\<not> (l \<and> g) \<Longrightarrow> three_way l g = - three_way g l"
  by (auto simp: three_way_def)

lemma memcmp_trans_le:
  assumes "length a = length b" "length b = length c" "memcmp a b \<le> 0" "memcmp b c \<le> 0"
  shows "memcmp a c \<le> 0"
  using memcmp_trans_less [of a b c] memcmp_eq_0 [OF assms(1)] memcmp_eq_0 [OF assms(2)] assms
  by (metis order_le_less)

text \<open>A key is valid when it has room for every column and no \<^verbatim>\<open>FLOAT\<close> column holds a NaN.\<close>

definition col_valid :: "bytes \<Rightarrow> col_type \<Rightarrow> int \<Rightarrow> bool" where
  "col_valid bs t l \<longleftrightarrow> 0 \<le> l \<and> nat l \<le> length bs \<and> (t = TYPE_FLOAT \<longrightarrow> get_f32 bs 0 \<noteq> NaN)"

fun key_valid_from :: "nat \<Rightarrow> col_type list \<Rightarrow> int list \<Rightarrow> bytes \<Rightarrow> bool" where
  "key_valid_from off (t # ts) (l # ls) a \<longleftrightarrow> col_valid (drop off a) t l \<and> key_valid_from (off + nat l) ts ls a"
| "key_valid_from off _ _ a \<longleftrightarrow> True"

definition key_valid :: "col_type list \<Rightarrow> int list \<Rightarrow> bytes \<Rightarrow> bool" where
  "key_valid ts ls a = key_valid_from 0 ts ls a"

lemma int_cmp_antisym: "int_cmp a b = - int_cmp b a"
  by (auto simp: int_cmp_def three_way_def)

lemma fp_cmp_antisym: "fp_cmp a b = - fp_cmp b a"
  unfolding fp_cmp_def by (rule three_way_swap) (use fp_less_asym in blast)

interpretation col_order: key_order "\<lambda>a b. ix_compare_col a b t l" "\<lambda>bs. col_valid bs t l" for t l
proof
  fix a b c
  assume v: "col_valid a t l" "col_valid b t l"
  have m: "memcmp (take (nat l) a) (take (nat l) b) = - memcmp (take (nat l) b) (take (nat l) a)"
    by (rule memcmp_antisym) (use v in \<open>auto simp: col_valid_def\<close>)
  show "ix_compare_col a b t l = - ix_compare_col b a t l"
    using m int_cmp_antisym [of "get_i32 a 0" "get_i32 b 0"]
      int_cmp_antisym [of "get_i64 a 0" "get_i64 b 0"] fp_cmp_antisym [of "get_f32 a 0" "get_f32 b 0"]
    by (cases t) (simp_all only: ix_compare_col_def col_type.case)
  assume c: "col_valid c t l" and le: "ix_compare_col a b t l \<le> 0" "ix_compare_col b c t l \<le> 0"
  show "ix_compare_col a c t l \<le> 0"
  proof (cases t)
    case TYPE_FLOAT
    with le have "\<not> fp_less (get_f32 b 0) (get_f32 a 0)" "\<not> fp_less (get_f32 c 0) (get_f32 b 0)"
      using fp_less_asym by (auto simp: ix_compare_col_def fp_cmp_def)
    with fp_not_less_trans v c TYPE_FLOAT show ?thesis
      by (auto simp: ix_compare_col_def fp_cmp_def col_valid_def)
  next
    case TYPE_STRING
    with le memcmp_trans_le [of "take (nat l) a" "take (nat l) b" "take (nat l) c"] v c show ?thesis
      by (auto simp: ix_compare_col_def col_valid_def)
  qed (use le in \<open>auto simp: ix_compare_col_def int_cmp_def\<close>)
qed

lemma ix_compare_from_antisym:
  "key_valid_from off ts ls a \<Longrightarrow> key_valid_from off ts ls b \<Longrightarrow>
   ix_compare_from off a b ts ls = - ix_compare_from off b a ts ls"
proof (induction off a b ts ls rule: ix_compare_from.induct)
  case (1 off a b t ts l ls)
  have "ix_compare_col (drop off a) (drop off b) t l = - ix_compare_col (drop off b) (drop off a) t l"
    by (rule col_order.antisym) (use "1.prems" in auto)
  moreover have "ix_compare_from (off + nat l) a b ts ls = - ix_compare_from (off + nat l) b a ts ls"
    if "ix_compare_col (drop off a) (drop off b) t l = 0"
    by (rule "1.IH") (use that "1.prems" in auto)
  ultimately show ?case by (auto simp: Let_def)
qed auto

lemma ix_compare_from_trans:
  "key_valid_from off ts ls a \<Longrightarrow> key_valid_from off ts ls b \<Longrightarrow> key_valid_from off ts ls c \<Longrightarrow>
   ix_compare_from off a b ts ls \<le> 0 \<Longrightarrow> ix_compare_from off b c ts ls \<le> 0 \<Longrightarrow> ix_compare_from off a c ts ls \<le> 0"
proof (induction off a b ts ls rule: ix_compare_from.induct)
  case (1 off a b t ts l ls)
  let ?ab = "ix_compare_col (drop off a) (drop off b) t l" and ?bc = "ix_compare_col (drop off b) (drop off c) t l"
    and ?ac = "ix_compare_col (drop off a) (drop off c) t l"
  have v: "col_valid (drop off a) t l" "col_valid (drop off b) t l" "col_valid (drop off c) t l"
    using "1.prems" by auto
  have le: "?ab \<le> 0" "?bc \<le> 0" using "1.prems"(4,5) by (auto simp: Let_def split: if_splits)
  note ac = col_order.trans [OF v le]
  show ?case
  proof (cases "?ac = 0")
    case False
    with ac show ?thesis by (simp add: Let_def)
  next
    case True
    then have "?ab = 0" "?bc = 0"
      using col_order.less_trans [OF v _ le(2)] col_order.less_trans' [OF v le(1)] le by fastforce+
    with True 1 show ?thesis by (simp add: Let_def)
  qed
qed auto

interpretation ix_order: key_order "\<lambda>a b. ix_compare a b ts ls" "key_valid ts ls" for ts ls
  by unfold_locales (unfold ix_compare_def key_valid_def, rule ix_compare_from_antisym, assumption+,
      rule ix_compare_from_trans)

section \<open>A node is a sorted map\<close>

definition key_cmp :: "ix_file_hdr \<Rightarrow> bytes \<Rightarrow> bytes \<Rightarrow> int" where
  "key_cmp h a b = ix_compare a b (col_types h) (col_lens h)"

definition valid_key :: "ix_file_hdr \<Rightarrow> bytes \<Rightarrow> bool" where
  "valid_key h k \<longleftrightarrow> length k = nat (ih_col_tot_len h) \<and> key_valid (col_types h) (col_lens h) k"

interpretation node_order: key_order "key_cmp h" "valid_key h" for h
  by unfold_locales (unfold key_cmp_def valid_key_def, (rule ix_order.antisym; blast),
      (rule ix_order.trans; blast))

abbreviation node_sorted :: "ix_file_hdr \<Rightarrow> bytes \<Rightarrow> bool" where
  "node_sorted h d \<equiv> node_order.increasing h (entries h d)"

text \<open>The map a list of pairs stands for.\<close>

definition assoc :: "ix_file_hdr \<Rightarrow> (bytes \<times> rid) list \<Rightarrow> bytes \<Rightarrow> rid option" where
  "assoc h es k = map_option snd (find (\<lambda>e. key_cmp h (fst e) k = 0) es)"

lemma ball_take: "(\<And>i. i < n \<Longrightarrow> i < length xs \<Longrightarrow> P (xs ! i)) \<Longrightarrow> \<forall>e \<in> set (take n xs). P e"
  by (auto simp: in_set_conv_nth)

lemma ball_drop: "(\<And>i. n \<le> i \<Longrightarrow> i < length xs \<Longrightarrow> P (xs ! i)) \<Longrightarrow> \<forall>e \<in> set (drop n xs). P e"
  by (auto simp: in_set_conv_nth)

lemma lower_bound_spec:
  assumes sorted: "node_sorted h d" and k: "valid_key h k" and ok: "node_ok h d"
  shows "0 \<le> node_lower_bound h d k" "node_lower_bound h d k \<le> num_key d"
    "\<forall>e \<in> set (take (nat (node_lower_bound h d k)) (entries h d)). key_cmp h (fst e) k < 0"
    "\<forall>e \<in> set (drop (nat (node_lower_bound h d k)) (entries h d)). 0 \<le> key_cmp h (fst e) k"
proof -
  let ?K = "nat (num_key d)"
  let ?below = "\<lambda>mid. ix_compare (get_key h (int mid) d) k (col_types h) (col_lens h) < 0"
  have at: "?below i = (key_cmp h (fst (entries h d ! i)) k < 0)" if "i < ?K" for i
    using that by (simp add: nth_entries key_cmp_def)
  have "?below i" if "i \<le> j" "j < ?K" "?below j" for i j
    using node_order.below_mono(1) [OF sorted k that(1)] that at [of i] at [of j] by simp
  then obtain B where lb: "node_lower_bound h d k = int B" and le: "B \<le> ?K"
    and lo: "\<And>i. i < B \<Longrightarrow> ?below i" and hi: "\<And>i. B \<le> i \<Longrightarrow> i < ?K \<Longrightarrow> \<not> ?below i"
    using bsearch_spec [of 0 ?K ?below] unfolding node_lower_bound_def by blast
  show "0 \<le> node_lower_bound h d k" unfolding lb by simp
  show "node_lower_bound h d k \<le> num_key d" using le ok unfolding lb node_ok_def by linarith
  show "\<forall>e \<in> set (take (nat (node_lower_bound h d k)) (entries h d)). key_cmp h (fst e) k < 0"
    unfolding lb by (rule ball_take) (use lo in \<open>simp add: at [symmetric]\<close>)
  show "\<forall>e \<in> set (drop (nat (node_lower_bound h d k)) (entries h d)). 0 \<le> key_cmp h (fst e) k"
    unfolding lb by (rule ball_drop) (use hi in \<open>simp add: at [symmetric] not_less [symmetric]\<close>)
qed

lemma leaf_lookup_assoc:
  assumes "node_sorted h d" and "valid_key h k" and "node_ok h d"
  shows "leaf_lookup h d k = assoc h (entries h d) k"
    and "key_found h d (node_lower_bound h d k) k \<longleftrightarrow> assoc h (entries h d) k \<noteq> None"
proof -
  define P where "P = nat (node_lower_bound h d k)"
  note lb = lower_bound_spec [OF assms]
  have pos: "node_lower_bound h d k = int P" using lb(1) by (simp add: P_def)
  let ?es = "entries h d"
  have f: "find (\<lambda>e. key_cmp h (fst e) k = 0) ?es =
      (case drop P ?es of [] \<Rightarrow> None | e # _ \<Rightarrow> if key_cmp h (fst e) k = 0 then Some e else None)"
    using node_order.find_at [of h "take P ?es" "drop P ?es" k] assms(1,2) lb(3,4) by (simp add: P_def)
  have kf: "key_found h d (int P) k \<longleftrightarrow> P < length ?es \<and> key_cmp h (fst (?es ! P)) k = 0"
    using assms(3) by (auto simp: key_found_def nth_entries key_cmp_def node_ok_def zless_nat_eq_int_zless)
  have hd: "drop P ?es = ?es ! P # drop (Suc P) ?es" if "P < length ?es"
    using that by (simp add: Cons_nth_drop_Suc)
  show "leaf_lookup h d k = assoc h ?es k"
    unfolding leaf_lookup_def assoc_def f pos Let_def kf
    using hd by (cases "P < length ?es") (auto simp: nth_entries)
  show "key_found h d (node_lower_bound h d k) k \<longleftrightarrow> assoc h ?es k \<noteq> None"
    unfolding assoc_def f pos kf using hd by (cases "P < length ?es") auto
qed

lemma dec_rid_bytes: "is_i32 (page_no r) \<Longrightarrow> is_i32 (slot_no r) \<Longrightarrow> dec_rid (rid_bytes r) = r"
  by (cases r) (simp add: dec_rid_def rid_bytes_def slice_def)

lemma find_map_eq:
  assumes "\<And>e. e \<in> set xs \<Longrightarrow> P e = Q e"
  shows "find P xs = find Q xs"
  using assms by (induction xs) auto

lemma find_append: "find P (xs @ ys) = (case find P xs of None \<Rightarrow> find P ys | Some e \<Rightarrow> Some e)"
  by (induction xs) auto

text \<open>How the map changes when a pair is put at its place or taken out.\<close>

lemma assoc_None: "assoc h es k = None \<longleftrightarrow> (\<forall>e \<in> set es. key_cmp h (fst e) k \<noteq> 0)"
  unfolding assoc_def map_option_is_None find_None_iff by blast

lemma assoc_None_same:
  assumes v: "\<forall>e \<in> set es. valid_key h (fst e)" "valid_key h k" "valid_key h k'"
    and eq: "key_cmp h k k' = 0" and none: "assoc h es k = None"
  shows "assoc h es k' = None"
  unfolding assoc_None
proof
  fix e assume e: "e \<in> set es"
  then have ve: "valid_key h (fst e)" using v(1) by blast
  have "key_cmp h (fst e) k' = 0 \<Longrightarrow> key_cmp h (fst e) k = 0"
    using node_order.trans [OF ve v(3,2)] node_order.trans [OF v(2,3) ve] node_order.antisym [OF v(2,3)]
      node_order.antisym [OF ve v(3)] node_order.antisym [OF ve v(2)] eq by simp
  with none e show "key_cmp h (fst e) k' \<noteq> 0" unfolding assoc_None by blast
qed

lemma assoc_insert:
  assumes inc: "node_order.increasing h (xs @ ys)" and v: "valid_key h k" "valid_key h k'"
    and none: "assoc h (xs @ ys) k = None"
  shows "assoc h (xs @ (k, r) # ys) k' = (if key_cmp h k k' = 0 then Some r else assoc h (xs @ ys) k')"
proof (cases "key_cmp h k k' = 0")
  case True
  have "assoc h (xs @ ys) k' = None"
    by (rule assoc_None_same [OF _ v True none]) (use inc in \<open>simp add: node_order.increasing_def\<close>)
  with True show ?thesis by (auto simp: assoc_def find_append split: option.splits)
qed (simp add: assoc_def find_append split: option.split)

lemma assoc_remove:
  assumes inc: "node_order.increasing h (xs @ e # ys)" and v: "valid_key h k" "valid_key h k'"
    and e: "key_cmp h (fst e) k = 0"
  shows "assoc h (xs @ ys) k' = (if key_cmp h k k' = 0 then None else assoc h (xs @ e # ys) k')"
proof -
  have ve: "valid_key h (fst e)" using inc by (auto simp: node_order.increasing_def)
  note sym = node_order.antisym [OF ve v(1)] node_order.antisym [OF v] node_order.antisym [OF ve v(2)]
  have same: "key_cmp h k k' = 0 \<longleftrightarrow> key_cmp h (fst e) k' = 0"
    using node_order.trans [OF ve v] node_order.trans [OF v(2,1) ve] node_order.trans [OF v(1) ve v(2)]
      node_order.trans [OF v(2) ve v(1)] sym e by fastforce
  have "key_cmp h (fst z) k' \<noteq> 0" if z: "z \<in> set (xs @ ys)" and k': "key_cmp h (fst e) k' = 0" for z
  proof
    assume zk: "key_cmp h (fst z) k' = 0"
    have vz: "valid_key h (fst z)" and lt: "key_cmp h (fst z) (fst e) < 0 \<or> key_cmp h (fst e) (fst z) < 0"
      using inc z by (auto simp: node_order.increasing_def sorted_wrt_append)
    show False
      using node_order.less_trans [OF vz ve v(2)] node_order.less_trans [OF ve vz v(2)] lt zk k' by fastforce
  qed
  then have "assoc h (xs @ ys) k' = None" if "key_cmp h (fst e) k' = 0"
    using that unfolding assoc_None by blast
  then show ?thesis using same by (auto simp: assoc_def find_append split: option.splits)
qed

lemma node_insert_assoc:
  assumes l: "ix_layout h" and ok: "node_ok h d" and sorted: "node_sorted h d" and k: "valid_key h k"
    and r: "is_i32 (page_no r)" "is_i32 (slot_no r)" and room: "num_key d < get_max_size h"
  shows "\<exists>d'. node_insert h k r d = Inr d' \<and> node_ok h d' \<and> node_sorted h d' \<and> hdr_rest d' = hdr_rest d \<and>
    num_key d' = num_key d + (if leaf_lookup h d k = None then 1 else 0) \<and>
    (\<forall>k'. valid_key h k' \<longrightarrow>
      leaf_lookup h d' k' = (if leaf_lookup h d k = None \<and> key_cmp h k k' = 0 then Some r else leaf_lookup h d k'))"
proof (cases "leaf_lookup h d k = None")
  case False
  then have "node_insert h k r d = Inr d"
    using leaf_lookup_assoc [OF sorted k ok] by (simp add: node_insert_def Let_def)
  with False ok sorted show ?thesis by auto
next
  case True
  note lb = lower_bound_spec [OF sorted k ok]
  let ?p = "node_lower_bound h d k"
  let ?xs = "take (nat ?p) (entries h d)" and ?ys = "drop (nat ?p) (entries h d)"
  have none: "assoc h (entries h d) k = None" using True leaf_lookup_assoc(1) [OF sorted k ok] by simp
  obtain d' where d': "insert_pairs h ?p k (rid_bytes r) 1 d = Inr d'" "node_ok h d'" "hdr_rest d' = hdr_rest d"
    "num_key d' = num_key d + 1" "entries h d' = ?xs @ packed h 1 k (rid_bytes r) @ ?ys"
    using insert_pairs_entries [OF l ok lb(1,2), of 1 k "rid_bytes r"] room k
    by (auto simp: valid_key_def rid_bytes_def)
  have "packed h 1 k (rid_bytes r) = [(k, r)]"
    using k r dec_rid_bytes [of r] by (simp add: packed_def valid_key_def rid_bytes_def)
  with d'(5) have e: "entries h d' = ?xs @ (k, r) # ?ys" by simp
  have ins: "node_insert h k r d = Inr d'"
    using d'(1) none leaf_lookup_assoc(2) [OF sorted k ok] by (simp add: node_insert_def Let_def insert_pair_def)
  have "\<forall>z \<in> set ?ys. 0 < key_cmp h (fst z) k"
    using lb(4) none unfolding assoc_None by (metis in_set_dropD order_le_less)
  then have s': "node_sorted h d'"
    using node_order.insert_at [of h ?xs ?ys k r] sorted k lb(3) unfolding e by simp
  have "leaf_lookup h d' k' = (if key_cmp h k k' = 0 then Some r else leaf_lookup h d k')" if "valid_key h k'" for k'
    using assoc_insert [of h ?xs ?ys k k' r] sorted k that none
      leaf_lookup_assoc(1) [OF s' that d'(2)] leaf_lookup_assoc(1) [OF sorted that ok] unfolding e by simp
  with ins d' s' True show ?thesis by auto
qed

lemma node_remove_assoc:
  assumes l: "ix_layout h" and ok: "node_ok h d" and sorted: "node_sorted h d" and k: "valid_key h k"
  shows "\<exists>d'. node_remove h k d = Inr d' \<and> node_ok h d' \<and> node_sorted h d' \<and> hdr_rest d' = hdr_rest d \<and>
    num_key d' = num_key d - (if leaf_lookup h d k = None then 0 else 1) \<and>
    (\<forall>k'. valid_key h k' \<longrightarrow> leaf_lookup h d' k' = (if key_cmp h k k' = 0 then None else leaf_lookup h d k'))"
proof -
  note lb = lower_bound_spec [OF sorted k ok]
  note la = leaf_lookup_assoc [OF sorted k ok]
  let ?p = "node_lower_bound h d k"
  let ?xs = "take (nat ?p) (entries h d)" and ?ys = "drop (nat ?p + 1) (entries h d)"
  show ?thesis
  proof (cases "key_found h d ?p k")
    case False
    then have none: "leaf_lookup h d k = None" and rm: "node_remove h k d = Inr d"
      using la by (simp_all add: node_remove_def Let_def)
    have "leaf_lookup h d k' = None" if "valid_key h k'" and "key_cmp h k k' = 0" for k'
      using assoc_None_same [OF _ k that] none la(1) leaf_lookup_assoc(1) [OF sorted that(1) ok] sorted
      by (simp add: node_order.increasing_def)
    with none rm ok sorted show ?thesis by auto
  next
    case True
    then have p: "?p < num_key d" and eq: "key_cmp h (fst (entries h d ! nat ?p)) k = 0"
      using lb(1) by (auto simp: key_found_def key_cmp_def nth_entries)
    obtain d' where d': "erase_pair h ?p d = Inr d'" "node_ok h d'" "hdr_rest d' = hdr_rest d"
      "num_key d' = num_key d - 1" "entries h d' = ?xs @ ?ys"
      using erase_pair_entries [OF l ok lb(1) p] by auto
    have split: "entries h d = ?xs @ entries h d ! nat ?p # ?ys"
      using id_take_nth_drop [of "nat ?p" "entries h d"] p lb(1) by simp
    have s': "node_sorted h d'"
      using node_order.remove_at [of h ?xs "entries h d ! nat ?p" ?ys] sorted split d'(5) by simp
    have "leaf_lookup h d' k' = (if key_cmp h k k' = 0 then None else leaf_lookup h d k')" if k': "valid_key h k'" for k'
      using assoc_remove [of h ?xs "entries h d ! nat ?p" ?ys k k'] sorted split k k' eq d'(5)
        leaf_lookup_assoc(1) [OF s' k' d'(2)] leaf_lookup_assoc(1) [OF sorted k' ok] by metis
    moreover have "node_remove h k d = Inr d'" using True d'(1) by (simp add: node_remove_def Let_def)
    moreover have "leaf_lookup h d k \<noteq> None" using True la by simp
    ultimately show ?thesis using d' s' by auto
  qed
qed

section \<open>Sequences of changes of a node\<close>

datatype node_op = Insert bytes rid | Remove bytes

fun node_apply :: "ix_file_hdr \<Rightarrow> node_op \<Rightarrow> bytes \<Rightarrow> rmdb_error + bytes" where
  "node_apply h (Insert k r) d = node_insert h k r d"
| "node_apply h (Remove k) d = node_remove h k d"

fun node_run :: "ix_file_hdr \<Rightarrow> node_op list \<Rightarrow> bytes \<Rightarrow> rmdb_error + bytes" where
  "node_run h [] d = Inr d"
| "node_run h (p # ps) d = (case node_apply h p d of Inl e \<Rightarrow> Inl e | Inr d' \<Rightarrow> node_run h ps d')"

text \<open>The same operations on a map from keys: the first value of a key stays.\<close>

fun map_apply :: "ix_file_hdr \<Rightarrow> node_op \<Rightarrow> (bytes \<Rightarrow> rid option) \<Rightarrow> bytes \<Rightarrow> rid option" where
  "map_apply h (Insert k r) m = (\<lambda>k'. if m k = None \<and> key_cmp h k k' = 0 then Some r else m k')"
| "map_apply h (Remove k) m = (\<lambda>k'. if key_cmp h k k' = 0 then None else m k')"

fun op_valid :: "ix_file_hdr \<Rightarrow> node_op \<Rightarrow> bool" where
  "op_valid h (Insert k r) \<longleftrightarrow> valid_key h k \<and> is_i32 (page_no r) \<and> is_i32 (slot_no r)"
| "op_valid h (Remove k) \<longleftrightarrow> valid_key h k"

lemma node_apply_map:
  assumes "ix_layout h" "node_ok h d" "node_sorted h d" "op_valid h p" "num_key d < get_max_size h"
  shows "\<exists>d'. node_apply h p d = Inr d' \<and> node_ok h d' \<and> node_sorted h d' \<and> num_key d' \<le> num_key d + 1 \<and>
    (\<forall>k'. valid_key h k' \<longrightarrow> leaf_lookup h d' k' = map_apply h p (leaf_lookup h d) k')"
proof (cases p)
  case (Insert k r)
  then show ?thesis using node_insert_assoc [OF assms(1-3), of k r] assms(4,5) by fastforce
next
  case (Remove k)
  then show ?thesis using node_remove_assoc [OF assms(1-3), of k] assms(4) by fastforce
qed

lemma node_run_map:
  assumes "ix_layout h" "node_ok h d" "node_sorted h d" "list_all (op_valid h) ps"
    "num_key d + int (length ps) \<le> get_max_size h" "\<forall>k'. valid_key h k' \<longrightarrow> leaf_lookup h d k' = m k'"
  shows "\<exists>d'. node_run h ps d = Inr d' \<and> node_ok h d' \<and> node_sorted h d' \<and>
    (\<forall>k'. valid_key h k' \<longrightarrow> leaf_lookup h d' k' = fold (map_apply h) ps m k')"
  using assms
proof (induction ps arbitrary: d m)
  case (Cons p ps)
  obtain d1 where d1: "node_apply h p d = Inr d1" "node_ok h d1" "node_sorted h d1" "num_key d1 \<le> num_key d + 1"
    "\<forall>k'. valid_key h k' \<longrightarrow> leaf_lookup h d1 k' = map_apply h p (leaf_lookup h d) k'"
    using node_apply_map [OF Cons.prems(1-3), of p] Cons.prems(4,5) by auto
  have "map_apply h p (leaf_lookup h d) k' = map_apply h p m k'" if "valid_key h k'" for k'
    using that Cons.prems(4,6) by (cases p) auto
  with d1(5) have m: "\<forall>k'. valid_key h k' \<longrightarrow> leaf_lookup h d1 k' = map_apply h p m k'" by simp
  show ?case
    using Cons.IH [OF Cons.prems(1) d1(2,3) _ _ m] Cons.prems(4,5) d1(1,4) by simp
qed simp

text \<open>
  Claim C25. A node is a sorted map: from a node with keys in increasing order, any sequence of insertions and
  removals that the node has room for succeeds without an assertion failing, keeps the keys in
  increasing order and the number of keys in bounds, and every later lookup by binary search finds
  exactly what the same operations on an abstract map give, where inserting a key that is there changes nothing.
\<close>

theorem index_node_refines_map:
  assumes "ix_layout h" and "node_ok h d" and "node_order.increasing h (entries h d)"
    and "list_all (op_valid h) ps" and "num_key d + int (length ps) \<le> get_max_size h"
  shows "\<exists>d'. node_run h ps d = Inr d' \<and> node_ok h d' \<and> node_order.increasing h (entries h d') \<and>
    (\<forall>k'. valid_key h k' \<longrightarrow> leaf_lookup h d' k' = fold (map_apply h) ps (leaf_lookup h d) k')"
  by (rule node_run_map [OF assms]) simp

definition sample_hdr :: ix_file_hdr where
  "sample_hdr = update_tot_len
     \<lparr>ih_first_free = IX_NO_PAGE, ih_num_pages = 3, root_page = 2, ih_col_num = 2,
      col_types = [TYPE_INT, TYPE_FLOAT], col_lens = [4, 4], ih_col_tot_len = 8, btree_order = 253,
      keys_size = 2032, first_leaf = 2, last_leaf = 2, tot_len = 0\<rparr>"

definition sample_key :: "int \<Rightarrow> bytes" where
  "sample_key i = enc_i32 i @ [0, 0, 128, 63]"

lemma sample_layout: "ix_layout sample_hdr"
  by (simp add: ix_layout_def sample_hdr_def update_tot_len_def get_max_size_def PAGE_SIZE_def)

lemma sample_key_valid: "valid_key sample_hdr (sample_key i)"
proof -
  have f: "get_f32 (drop 4 (sample_key i)) 0 = Fin False 8388608 (-23)"
    by (simp add: sample_key_def get_f32_def slice_def dec_u32_def dec_f32_def Let_def)
  have "length (sample_key i) = 8" by (simp add: sample_key_def)
  with f show ?thesis
    by (simp add: valid_key_def key_valid_def col_valid_def sample_hdr_def update_tot_len_def)
qed

lemma empty_node: "num_key (zeros PAGE_SIZE) = 0"
  by (simp add: num_key_def zeros_def slice_def PAGE_SIZE_def dec_i32_def dec_u32_def numeral_eq_Suc)

theorem index_node_refines_map_witness:
  "\<exists>d'. node_run sample_hdr [Insert (sample_key 7) (Rid 1 2), Insert (sample_key 5) (Rid 1 0), Remove (sample_key 7)]
      (zeros PAGE_SIZE) = Inr d' \<and> leaf_lookup sample_hdr d' (sample_key 5) =
    fold (map_apply sample_hdr) [Insert (sample_key 7) (Rid 1 2), Insert (sample_key 5) (Rid 1 0), Remove (sample_key 7)]
      (leaf_lookup sample_hdr (zeros PAGE_SIZE)) (sample_key 5)"
proof -
  let ?ps = "[Insert (sample_key 7) (Rid 1 2), Insert (sample_key 5) (Rid 1 0), Remove (sample_key 7)]"
  have "node_ok sample_hdr (zeros PAGE_SIZE)"
    by (simp add: node_ok_def empty_node get_max_size_def sample_hdr_def update_tot_len_def)
  moreover have "node_order.increasing sample_hdr (entries sample_hdr (zeros PAGE_SIZE))"
    by (simp add: node_order.increasing_def entries_def empty_node)
  moreover have "list_all (op_valid sample_hdr) ?ps" by (simp add: sample_key_valid is_i32_def)
  moreover have "num_key (zeros PAGE_SIZE) + int (length ?ps) \<le> get_max_size sample_hdr"
    by (simp add: empty_node get_max_size_def sample_hdr_def update_tot_len_def)
  ultimately show ?thesis
    using index_node_refines_map [OF sample_layout, of "zeros PAGE_SIZE" ?ps] sample_key_valid [of 5] by blast
qed

section \<open>The file header survives a write and a read\<close>

definition ix_hdr_ok :: "ix_file_hdr \<Rightarrow> bool" where
  "ix_hdr_ok h \<longleftrightarrow> ih_col_num h = int (length (col_types h)) \<and> length (col_lens h) = length (col_types h) \<and>
     length (col_types h) < 2 ^ 20 \<and> list_all is_i32 (col_lens h) \<and>
     list_all is_i32 [ih_first_free h, ih_num_pages h, root_page h, ih_col_tot_len h, btree_order h, keys_size h,
       first_leaf h, last_leaf h]"

lemma get_i32_here: "get_i32 (xs @ enc_i32 v @ ys) (length xs) = dec_i32 (enc_i32 v)"
  by (simp add: slice_def)

lemma get_i32_at: "off = length xs \<Longrightarrow> is_i32 v \<Longrightarrow> get_i32 (xs @ enc_i32 v @ ys) off = v"
  by (simp add: slice_def)

lemma col_type_code_roundtrip: "col_type_of_code (col_type_code t) = Inr t" "is_i32 (col_type_code t)"
  by (cases t; simp add: col_type_of_code_def is_i32_def)+

lemma read_types_at:
  "read_types (length ts) (xs @ concat (map (\<lambda>t. enc_i32 (col_type_code t)) ts) @ ys) (length xs) = Inr ts"
proof (induction ts arbitrary: xs)
  case (Cons t ts)
  have "get_i32 (xs @ enc_i32 (col_type_code t) @ concat (map (\<lambda>t. enc_i32 (col_type_code t)) ts) @ ys) (length xs) =
      col_type_code t"
    by (rule get_i32_at) (simp_all add: col_type_code_roundtrip)
  then show ?case
    using Cons.IH [of "xs @ enc_i32 (col_type_code t)"] by (simp add: col_type_code_roundtrip)
qed simp

lemma read_ints_at:
  "list_all is_i32 vs \<Longrightarrow> read_ints (length vs) (xs @ concat (map enc_i32 vs) @ ys) (length xs) = vs"
proof (induction vs arbitrary: xs)
  case (Cons v vs)
  have "get_i32 (xs @ enc_i32 v @ concat (map enc_i32 vs) @ ys) (length xs) = v"
    by (rule get_i32_at) (use Cons.prems in simp_all)
  then show ?case using Cons.IH [of "xs @ enc_i32 v"] Cons.prems by simp
qed simp

lemma length_concat_enc [simp]: "length (concat (map (\<lambda>x. enc_i32 (f x)) xs)) = 4 * length xs"
  by (induction xs) auto

text \<open>
  The header of an index file survives being written and read back: with its length field set by
  \<^verbatim>\<open>update_tot_len\<close>, serialising it passes the assertion on the number of bytes written, and deserialising
  a page that starts with those bytes gives the same header, whatever the rest of the page holds.
\<close>

theorem index_header_roundtrip:
  assumes "ix_hdr_ok h"
  shows "\<exists>bs. ix_hdr_serialize (update_tot_len h) = Inr bs \<and>
    ix_hdr_deserialize (bs @ rest) = Inr (update_tot_len h)"
proof -
  define n where "n = length (col_types h)"
  let ?T = "concat (map (\<lambda>t. enc_i32 (col_type_code t)) (col_types h))"
  let ?L = "concat (map enc_i32 (col_lens h))"
  let ?tot = "16 + 24 + (4 * int n + 4 * int n)"
  have lens: "length ?T = 4 * n" "length ?L = 4 * n" and num: "ih_col_num h = int n" and small: "n < 2 ^ 20"
    and lv: "list_all is_i32 (col_lens h)" and ll: "length (col_lens h) = n"
    using assms length_concat_enc [of "\<lambda>x. x" "col_lens h"] by (auto simp: ix_hdr_ok_def n_def)
  have i32: "is_i32 (ih_first_free h)" "is_i32 (ih_num_pages h)" "is_i32 (root_page h)" "is_i32 (ih_col_tot_len h)"
    "is_i32 (btree_order h)" "is_i32 (keys_size h)" "is_i32 (first_leaf h)" "is_i32 (last_leaf h)"
    using assms by (auto simp: ix_hdr_ok_def)
  have i32': "is_i32 ?tot" "is_i32 (int n)" using small by (simp_all add: is_i32_def)
  let ?A = "enc_i32 ?tot @ enc_i32 (ih_first_free h) @ enc_i32 (ih_num_pages h) @ enc_i32 (root_page h) @ enc_i32 (int n)"
  let ?Z = "enc_i32 (ih_col_tot_len h) @ enc_i32 (btree_order h) @ enc_i32 (keys_size h) @ enc_i32 (first_leaf h) @
    enc_i32 (last_leaf h) @ rest"
  let ?bs = "ix_hdr_bytes (update_tot_len h)"
  have bs: "?bs @ rest = ?A @ ?T @ ?L @ ?Z"
    using num ll by (simp add: ix_hdr_bytes_def update_tot_len_def n_def)
  have "length (?bs @ rest) = length (?A @ ?T @ ?L @ ?Z)" by (simp only: bs)
  then have len: "int (length ?bs) = ?tot" by (simp add: ll n_def [symmetric])
  have head: "get_i32 (?bs @ rest) 0 = ?tot" "get_i32 (?bs @ rest) 4 = ih_first_free h"
    "get_i32 (?bs @ rest) 8 = ih_num_pages h" "get_i32 (?bs @ rest) 12 = root_page h" "get_i32 (?bs @ rest) 16 = int n"
    unfolding bs using i32 i32' by (simp_all add: slice_def)
  have types: "read_types n (?bs @ rest) 20 = Inr (col_types h)"
    using read_types_at [of "col_types h" ?A "?L @ ?Z"] unfolding bs n_def by simp
  have ints: "read_ints n (?bs @ rest) (20 + 4 * n) = col_lens h"
    using read_ints_at [OF lv, of "?A @ ?T" ?Z] unfolding bs by (simp add: ll n_def [symmetric])
  have tail: "get_i32 (?bs @ rest) (20 + 4 * n + 4 * n) = ih_col_tot_len h"
    "get_i32 (?bs @ rest) (20 + 4 * n + 4 * n + 4) = btree_order h"
    "get_i32 (?bs @ rest) (20 + 4 * n + 4 * n + 8) = keys_size h"
    "get_i32 (?bs @ rest) (20 + 4 * n + 4 * n + 12) = first_leaf h"
    "get_i32 (?bs @ rest) (20 + 4 * n + 4 * n + 16) = last_leaf h"
    unfolding bs using i32 by (simp_all add: slice_def ll n_def [symmetric])
  have "ix_hdr_serialize (update_tot_len h) = Inr ?bs"
    using len num by (simp add: ix_hdr_serialize_def update_tot_len_def)
  moreover have "ix_hdr_deserialize (?bs @ rest) = Inr (update_tot_len h)"
    unfolding ix_hdr_deserialize_def head nat_int types tail Let_def ints
    using num by (simp add: update_tot_len_def)
  ultimately show ?thesis by blast
qed

theorem index_header_roundtrip_witness:
  "\<exists>bs. ix_hdr_serialize (update_tot_len sample_hdr) = Inr bs \<and>
     ix_hdr_deserialize (bs @ zeros 8) = Inr (update_tot_len sample_hdr)"
  by (rule index_header_roundtrip) (simp add: ix_hdr_ok_def sample_hdr_def update_tot_len_def is_i32_def IX_NO_PAGE_def)

end
