(* ===== verification/Index_Search.thy ===== *)
theory Index_Search
  imports Index_Tree Index_Node_Props Record_File_Pages
begin

text \<open>
  Searching the B+ tree. \<open>btree\<close> says what the pages of a file must look like for a page number to be the
  root of a tree with given pairs in its leaves; over such pages the descent from the root ends in
  the leaf that decides about the key, so \<^verbatim>\<open>get_value\<close> is the lookup in the pairs of the whole tree. The
  pages are read through the buffer pool, one pinned page at a time, for every replacer that meets
  its contract. Also here: the order that \<^verbatim>\<open>IxManager::create_index\<close> computes makes a node fit its page.
\<close>

section \<open>Well-formed trees\<close>

inductive btree :: "ix_file_hdr \<Rightarrow> (int \<Rightarrow> bytes) \<Rightarrow> int \<Rightarrow> nat \<Rightarrow> int \<Rightarrow> (bytes \<times> rid) list \<Rightarrow> bool"
  for h P N
where
  btree_leaf: "0 \<le> no \<Longrightarrow> no < N \<Longrightarrow> node_ok h (P no) \<Longrightarrow> is_leaf (P no) \<Longrightarrow> node_sorted h (P no) \<Longrightarrow>
    btree h P N 0 no (entries h (P no))"
| btree_inner: "0 \<le> no \<Longrightarrow> no < N \<Longrightarrow> node_ok h (P no) \<Longrightarrow> \<not> is_leaf (P no) \<Longrightarrow> node_sorted h (P no) \<Longrightarrow>
    0 < num_key (P no) \<Longrightarrow> length ess = nat (num_key (P no)) \<Longrightarrow>
    (\<And>i. i < length ess \<Longrightarrow> btree h P N n (value_at h (int i) (P no)) (ess ! i)) \<Longrightarrow>
    (\<And>i e. i < length ess \<Longrightarrow> 0 < i \<Longrightarrow> e \<in> set (ess ! i) \<Longrightarrow> key_cmp h (get_key h (int i) (P no)) (fst e) \<le> 0) \<Longrightarrow>
    (\<And>i e. i + 1 < length ess \<Longrightarrow> e \<in> set (ess ! i) \<Longrightarrow> key_cmp h (fst e) (get_key h (int (i + 1)) (P no)) < 0) \<Longrightarrow>
    btree h P N (Suc n) no (concat ess)"

inductive_cases btree_0E: "btree h P N 0 no es"
inductive_cases btree_SucE: "btree h P N (Suc n) no es"

lemma btree_page: "btree h P N n no es \<Longrightarrow> 0 \<le> no \<and> no < N \<and> (is_leaf (P no) \<longleftrightarrow> n = 0)"
  by (induction rule: btree.induct) auto

lemma in_concat: "e \<in> set (concat ess) \<longleftrightarrow> (\<exists>i < length ess. e \<in> set (ess ! i))"
  by (metis (no_types, lifting) UN_iff in_set_conv_nth set_concat)

lemma btree_valid: "btree h P N n no es \<Longrightarrow> e \<in> set es \<Longrightarrow> valid_key h (fst e)"
proof (induction rule: btree.induct)
  case (btree_leaf no)
  then show ?case by (auto simp: node_order.increasing_def)
next
  case (btree_inner no ess n)
  from btree_inner.prems obtain i where "i < length ess" "e \<in> set (ess ! i)" by (auto simp only: in_concat)
  then show ?case by (rule btree_inner.IH)
qed

section \<open>The child to descend to\<close>

lemma upper_bound_spec:
  assumes sorted: "node_sorted h d" and k: "valid_key h k"
  obtains B where "node_upper_bound h d k = int B" "B \<le> nat (num_key d)"
    "\<And>i. i < B \<Longrightarrow> key_cmp h (get_key h (int i) d) k \<le> 0"
    "\<And>i. B \<le> i \<Longrightarrow> i < nat (num_key d) \<Longrightarrow> 0 < key_cmp h (get_key h (int i) d) k"
proof -
  let ?K = "nat (num_key d)"
  let ?below = "\<lambda>mid. ix_compare (get_key h (int mid) d) k (col_types h) (col_lens h) \<le> 0"
  have "?below i" if "i \<le> j" "j < ?K" "?below j" for i j
    using node_order.below_mono(2) [OF sorted k that(1)] that by (simp add: nth_entries key_cmp_def)
  then obtain B where "node_upper_bound h d k = int B" "B \<le> ?K" "\<And>i. i < B \<Longrightarrow> ?below i"
    "\<And>i. B \<le> i \<Longrightarrow> i < ?K \<Longrightarrow> \<not> ?below i"
    using bsearch_spec [of 0 ?K ?below] unfolding node_upper_bound_def by blast
  then show thesis by (intro that [of B]) (auto simp: key_cmp_def not_le)
qed

lemma get_key_increasing:
  assumes "node_sorted h d" and "i \<le> j" and "j < nat (num_key d)"
  shows "key_cmp h (get_key h (int i) d) (get_key h (int j) d) \<le> 0"
    and "valid_key h (get_key h (int i) d)" "valid_key h (get_key h (int j) d)"
proof -
  show v: "valid_key h (get_key h (int i) d)" "valid_key h (get_key h (int j) d)"
    using node_order.increasing_valid [OF assms(1), of i] node_order.increasing_valid [OF assms(1), of j] assms(2,3)
    by (simp_all add: nth_entries)
  show "key_cmp h (get_key h (int i) d) (get_key h (int j) d) \<le> 0"
    using node_order.increasing_nth [OF assms(1), of i j] node_order.refl [OF v(2)] assms(2,3)
    by (cases "i = j") (simp_all add: nth_entries)
qed

lemma assoc_concat:
  assumes "c < length ess" and "\<And>j. j < length ess \<Longrightarrow> j \<noteq> c \<Longrightarrow> assoc h (ess ! j) k = None"
  shows "assoc h (concat ess) k = assoc h (ess ! c) k"
proof -
  have "concat ess = concat (take c ess) @ ess ! c @ concat (drop (Suc c) ess)"
    using id_take_nth_drop [OF assms(1)] by (metis concat.simps(2) concat_append)
  moreover have "assoc h (concat (take c ess)) k = None"
    unfolding assoc_None
  proof
    fix e assume "e \<in> set (concat (take c ess))"
    then obtain i where "i < c" "e \<in> set (ess ! i)" unfolding in_concat using assms(1) by auto
    then show "key_cmp h (fst e) k \<noteq> 0" using assms(1) assms(2) [of i] unfolding assoc_None by auto
  qed
  moreover have "assoc h (concat (drop (Suc c) ess)) k = None"
    unfolding assoc_None
  proof
    fix e assume "e \<in> set (concat (drop (Suc c) ess))"
    then obtain i where i: "i < length (drop (Suc c) ess)" "e \<in> set (drop (Suc c) ess ! i)" unfolding in_concat by blast
    then have "Suc c + i < length ess" "e \<in> set (ess ! (Suc c + i))" by auto
    then show "key_cmp h (fst e) k \<noteq> 0" using assms(2) [of "Suc c + i"] unfolding assoc_None by auto
  qed
  ultimately show ?thesis by (auto simp: assoc_def find_append split: option.splits)
qed

lemma inner_child:
  assumes ok: "node_ok h d" and sorted: "node_sorted h d" and pos: "0 < num_key d" and len: "length ess = nat (num_key d)"
    and v: "\<And>i e. i < length ess \<Longrightarrow> e \<in> set (ess ! i) \<Longrightarrow> valid_key h (fst e)"
    and lo: "\<And>i e. i < length ess \<Longrightarrow> 0 < i \<Longrightarrow> e \<in> set (ess ! i) \<Longrightarrow> key_cmp h (get_key h (int i) d) (fst e) \<le> 0"
    and hi: "\<And>i e. i + 1 < length ess \<Longrightarrow> e \<in> set (ess ! i) \<Longrightarrow> key_cmp h (fst e) (get_key h (int (i + 1)) d) < 0"
    and k: "valid_key h k"
  obtains c where "c < length ess" "internal_lookup h d k = value_at h (int c) d"
    "assoc h (concat ess) k = assoc h (ess ! c) k"
proof -
  obtain B where B: "node_upper_bound h d k = int B" "B \<le> nat (num_key d)"
    "\<And>i. i < B \<Longrightarrow> key_cmp h (get_key h (int i) d) k \<le> 0"
    "\<And>i. B \<le> i \<Longrightarrow> i < nat (num_key d) \<Longrightarrow> 0 < key_cmp h (get_key h (int i) d) k"
    using upper_bound_spec [OF sorted k] by blast
  define c where "c = B - 1"
  have c: "c < length ess" using B(2) pos len by (simp add: c_def)
  have look: "internal_lookup h d k = value_at h (int c) d"
    by (cases B) (simp_all add: internal_lookup_def B(1) c_def)
  have "assoc h (ess ! j) k = None" if j: "j < length ess" "j \<noteq> c" for j
    unfolding assoc_None
  proof
    fix e assume e: "e \<in> set (ess ! j)"
    note ve = v [OF j(1) e]
    show "key_cmp h (fst e) k \<noteq> 0"
    proof (cases "j < c")
      case True
      then have "j + 1 \<le> c" "c < nat (num_key d)" "c < B" using c len by (auto simp: c_def)
      note key = get_key_increasing [OF sorted this(1,2)]
      have "key_cmp h (get_key h (int (j + 1)) d) k \<le> 0"
        using node_order.trans [OF key(2,3) k key(1)] B(3) [OF \<open>c < B\<close>] by blast
      then have "key_cmp h (fst e) k < 0"
        using node_order.less_trans [OF ve key(2) k] hi [of j e] True c e by simp
      then show ?thesis by simp
    next
      case False
      then have jB: "B \<le> j" "0 < j" "j < nat (num_key d)" using j len by (auto simp: c_def)
      note vj = get_key_increasing(2) [OF sorted order.refl jB(3)]
      have "key_cmp h k (get_key h (int j) d) < 0"
        using B(4) [OF jB(1,3)] node_order.antisym [OF k vj] by simp
      then have "key_cmp h k (fst e) < 0"
        using node_order.less_trans [OF k vj ve] lo [OF j(1) jB(2) e] by simp
      then show ?thesis using node_order.antisym [OF k ve] by simp
    qed
  qed
  with c look show thesis by (intro that [of c] assoc_concat) auto
qed

section \<open>Reading through the pool\<close>

definition ix_page :: "'r ix_file \<Rightarrow> int \<Rightarrow> bytes" where
  "ix_page s no = page_view (ix_pool s) (PageId (ix_fd s) no)"

definition ix_size :: "'r ix_file \<Rightarrow> int" where
  "ix_size s = fd2pageno (disk_st (ix_pool s)) (ix_fd s)"

context replacer begin

text \<open>The pages of the open files, and this handle, are the same in both states.\<close>

definition ix_same :: "int set \<Rightarrow> 'r ix_file \<Rightarrow> 'r ix_file \<Rightarrow> bool" where
  "ix_same F s s' \<longleftrightarrow> ix_fd s' = ix_fd s \<and> ix_hdr s' = ix_hdr s \<and> ix_size s' = ix_size s \<and>
     (\<forall>q. on_file F q \<longrightarrow> page_view (ix_pool s') q = page_view (ix_pool s) q)"

lemma ix_same_trans: "ix_same F s s' \<Longrightarrow> ix_same F s' s'' \<Longrightarrow> ix_same F s s''"
  by (simp add: ix_same_def)

lemma ix_same_page: "ix_same F s s' \<Longrightarrow> ix_fd s \<in> F \<Longrightarrow> 0 \<le> no \<Longrightarrow> ix_page s' no = ix_page s no"
  by (simp add: ix_same_def ix_page_def)

text \<open>\<open>at_node F s no f\<close>: page \<open>no\<close> is the one pinned page, in frame \<open>f\<close>.\<close>

definition at_node :: "int set \<Rightarrow> 'r ix_file \<Rightarrow> int \<Rightarrow> int \<Rightarrow> bool" where
  "at_node F s no f \<longleftrightarrow> held F {} (PageId (ix_fd s) no) f (ix_pool s)"

lemma at_node_data: "at_node F s no f \<Longrightarrow> node_data f s = ix_page s no \<and> node_no f s = no"
  unfolding at_node_def using held_data by (fastforce simp: node_data_def node_no_def ix_page_def)

lemma fetch_node_ok:
  assumes "rest F (ix_pool s)" and "ix_fd s \<in> F" and "0 \<le> no" and "no < ix_size s"
  shows "\<exists>f s1. fetch_node R no s = Ret f s1 \<and> at_node F s1 no f \<and> ix_same F s s1"
proof -
  have "on_file F (PageId (ix_fd s) no)" "no < fd2pageno (disk_st (ix_pool s)) (ix_fd s)"
    using assms by (auto simp: ix_size_def)
  with fetch_rest [OF assms(1), of "PageId (ix_fd s) no"] obtain f p where
    "fetch_page R (PageId (ix_fd s) no) (ix_pool s) = Ret (Some f) p" "held F {} (PageId (ix_fd s) no) f p"
    "\<forall>q. on_file F q \<longrightarrow> page_view p q = page_view (ix_pool s) q" "fd2pageno (disk_st p) = fd2pageno (disk_st (ix_pool s))"
    by auto
  then show ?thesis
    by (intro exI [of _ f] exI [of _ "s\<lparr>ix_pool := p\<rparr>"]) (simp add: fetch_node_def at_node_def ix_same_def ix_size_def)
qed

lemma unpin_node_ok:
  assumes "at_node F s no f"
  shows "rest F (ix_pool (unpin_node R f False s))" "ix_same F s (unpin_node R f False s)"
proof -
  have h: "held F {} (PageId (ix_fd s) no) f (ix_pool s)" using assms by (simp add: at_node_def)
  have id: "id (pages (ix_pool s) f) = PageId (ix_fd s) no" using held_data [OF h] by simp
  note u = unpin_held [OF h, of False]
  show "rest F (ix_pool (unpin_node R f False s))" using u(1) by (simp add: unpin_node_def id)
  show "ix_same F s (unpin_node R f False s)" using u(2,3) by (simp add: unpin_node_def id ix_same_def ix_size_def)
qed

lemma find_leaf_loop_ok:
  assumes "btree h P N n no es" and "ix_hdr s = h" "\<forall>q \<ge> 0. ix_page s q = P q" "N = ix_size s" and "ix_fd s \<in> F" "n \<le> k"
    and "at_node F s no f" and key: "valid_key h key"
  shows "\<exists>f' s' no'. find_leaf_loop k R key False f s = Ret f' s' \<and> at_node F s' no' f' \<and> ix_same F s s' \<and>
    btree h P N 0 no' (entries h (P no')) \<and> assoc h es key = assoc h (entries h (P no')) key"
  using assms
proof (induction arbitrary: s f k rule: btree.induct)
  case (btree_leaf no)
  have "find_leaf_loop k R key False f s = Ret f s"
    using at_node_data [OF btree_leaf.prems(6)] btree_leaf by (subst find_leaf_loop.simps) simp
  moreover have "btree h P N 0 no (entries h (P no))" using btree_leaf by (intro btree.btree_leaf)
  ultimately show ?case using btree_leaf.prems(6) by (auto simp: ix_same_def)
next
  case (btree_inner no ess n)
  have d: "node_data f s = P no" using at_node_data [OF btree_inner.prems(6)] btree_inner.hyps(1) btree_inner.prems(2) by simp
  have v: "valid_key h (fst e)" if "i < length ess" "e \<in> set (ess ! i)" for i e
    using btree_valid [OF btree_inner.hyps(8) [OF that(1)] that(2)] .
  obtain c where c: "c < length ess" "internal_lookup h (P no) key = value_at h (int c) (P no)"
    "assoc h (concat ess) key = assoc h (ess ! c) key"
    by (rule inner_child [OF btree_inner.hyps(3,5,6,7) v btree_inner.hyps(9,10) key])
  let ?child = "value_at h (int c) (P no)"
  let ?s1 = "unpin_node R f False s"
  note u = unpin_node_ok [OF btree_inner.prems(6)]
  note child = btree_page [OF btree_inner.hyps(8) [OF c(1)]]
  have s1: "ix_fd ?s1 \<in> F" "?child < ix_size ?s1"
    using u(2) btree_inner.prems(3,4) child by (auto simp: ix_same_def)
  obtain f' s2 where f': "fetch_node R ?child ?s1 = Ret f' s2" "at_node F s2 ?child f'" "ix_same F ?s1 s2"
    using fetch_node_ok [OF u(1) s1(1) _ s1(2)] child by blast
  note same = ix_same_trans [OF u(2) f'(3)]
  obtain k' where k: "k = Suc k'" "n \<le> k'" using btree_inner.prems(5) by (cases k) auto
  have step: "find_leaf_loop k R key False f s = find_leaf_loop k' R key False f' s2"
    using d btree_inner.hyps(4) btree_inner.prems(1) c(2) f'(1) k(1)
    by (subst find_leaf_loop.simps) (simp add: Let_def)
  have pages: "\<forall>q \<ge> 0. ix_page s2 q = P q"
    using ix_same_page [OF same btree_inner.prems(4)] btree_inner.prems(2) by simp
  have st: "ix_hdr s2 = h" "N = ix_size s2" "ix_fd s2 \<in> F"
    using same btree_inner.prems(1,3,4) by (simp_all add: ix_same_def)
  from btree_inner.IH [OF c(1) st(1) pages st(2,3) k(2) f'(2) key] show ?case
    unfolding step c(3) using ix_same_trans [OF same] by blast
qed

text \<open>A file at rest whose header points to the root of a tree with the pairs \<open>es\<close>.\<close>

definition tree_file :: "int set \<Rightarrow> (bytes \<times> rid) list \<Rightarrow> 'r ix_file \<Rightarrow> bool" where
  "tree_file F es s \<longleftrightarrow> rest F (ix_pool s) \<and> ix_fd s \<in> F \<and> root_page (ix_hdr s) \<noteq> IX_NO_PAGE \<and>
     (\<exists>n. n \<le> fuel_of s \<and> btree (ix_hdr s) (ix_page s) (ix_size s) n (root_page (ix_hdr s)) es)"

lemma find_leaf_page_ok:
  assumes t: "tree_file F es s" and key: "valid_key (ix_hdr s) key"
  shows "\<exists>f s' no. find_leaf_page R key False s = Ret (Some f) s' \<and> at_node F s' no f \<and> ix_same F s s' \<and>
    0 \<le> no \<and> btree (ix_hdr s) (ix_page s) (ix_size s) 0 no (entries (ix_hdr s) (ix_page s no)) \<and>
    assoc (ix_hdr s) es key = assoc (ix_hdr s) (entries (ix_hdr s) (ix_page s no)) key"
proof -
  obtain n where n: "n \<le> fuel_of s" "btree (ix_hdr s) (ix_page s) (ix_size s) n (root_page (ix_hdr s)) es"
    and r: "rest F (ix_pool s)" "ix_fd s \<in> F" "root_page (ix_hdr s) \<noteq> IX_NO_PAGE"
    using t by (auto simp: tree_file_def)
  note root = btree_page [OF n(2)]
  obtain f1 s1 where f1: "fetch_node R (root_page (ix_hdr s)) s = Ret f1 s1" "at_node F s1 (root_page (ix_hdr s)) f1"
    "ix_same F s s1" using fetch_node_ok [OF r(1,2)] root by blast
  have st: "ix_hdr s1 = ix_hdr s" "ix_size s = ix_size s1" "ix_fd s1 \<in> F" "\<forall>q \<ge> 0. ix_page s1 q = ix_page s q" "n \<le> fuel_of s1"
    using f1(3) r(2) n(1) ix_same_page [OF f1(3) r(2)] by (simp_all add: ix_same_def fuel_of_def)
  from find_leaf_loop_ok [OF n(2) st(1,4,2,3,5) f1(2) key]
  obtain f s' no where "find_leaf_loop (fuel_of s1) R key False f1 s1 = Ret f s'" "at_node F s' no f" "ix_same F s1 s'"
    "btree (ix_hdr s) (ix_page s) (ix_size s) 0 no (entries (ix_hdr s) (ix_page s no))"
    "assoc (ix_hdr s) es key = assoc (ix_hdr s) (entries (ix_hdr s) (ix_page s no)) key" by blast
  with f1 r(3) show ?thesis
    using ix_same_trans [OF f1(3), of s'] btree_page
    by (intro exI [of _ f] exI [of _ s'] exI [of _ no]) (auto simp: find_leaf_page_def ix_is_empty_def)
qed

lemma get_value_ok:
  assumes t: "tree_file F es s" and key: "valid_key (ix_hdr s) key"
  shows "\<exists>s'. get_value R key s = Ret (assoc (ix_hdr s) es key) s' \<and> rest F (ix_pool s') \<and> ix_same F s s'"
proof -
  obtain f s1 no where f: "find_leaf_page R key False s = Ret (Some f) s1" "at_node F s1 no f" "ix_same F s s1" "0 \<le> no"
    "btree (ix_hdr s) (ix_page s) (ix_size s) 0 no (entries (ix_hdr s) (ix_page s no))"
    "assoc (ix_hdr s) es key = assoc (ix_hdr s) (entries (ix_hdr s) (ix_page s no)) key"
    using find_leaf_page_ok [OF assms] by blast
  have fd: "ix_fd s \<in> F" using t by (simp add: tree_file_def)
  have d: "node_data f s1 = ix_page s no" "ix_hdr s1 = ix_hdr s"
    using at_node_data [OF f(2)] ix_same_page [OF f(3) fd f(4)] f(3) by (simp_all add: ix_same_def)
  have leaf: "node_ok (ix_hdr s) (ix_page s no)" "node_sorted (ix_hdr s) (ix_page s no)"
    using f(5) by (auto elim: btree_0E)
  note u = unpin_node_ok [OF f(2)]
  have "get_value R key s = Ret (assoc (ix_hdr s) es key) (unpin_node R f False s1)"
    using f(1,6) d leaf_lookup_assoc(1) [OF leaf(2) key leaf(1)] by (simp add: get_value_def)
  then show ?thesis using u(1) ix_same_trans [OF f(3) u(2)] by blast
qed

end

text \<open>
  Claim C26. Searching the B+ tree is correct: over the pages of a well-formed tree, \<^verbatim>\<open>get_value\<close> descends through the
  buffer pool to a leaf and returns exactly what the pairs of the whole tree associate with the key
  (found or not), whatever pages the pool holds or has to evict on the way; it raises no error, ends with
  every page unpinned, and changes neither the index nor any page of an open file.
\<close>

theorem index_get_value:
  assumes "lru.tree_file F es s" and "valid_key (ix_hdr s) key"
  shows "\<exists>s'. get_value lru_ops key s = Ret (assoc (ix_hdr s) es key) s' \<and> lru.rest F (ix_pool s') \<and>
    ix_hdr s' = ix_hdr s \<and> (\<forall>q. on_file F q \<longrightarrow> page_view (ix_pool s') q = page_view (ix_pool s) q)"
  using lru.get_value_ok [OF assms] by (auto simp: lru.ix_same_def)

text \<open>An index of one leaf, page 2 of a file whose other pages are empty, on a pool with a single frame.\<close>

definition sample_index :: "bytes \<Rightarrow> lru ix_file" where
  "sample_index d = \<lparr>ix_fd = 3, ix_hdr = sample_hdr,
     ix_pool = lru_pool 1 (set_fd2pageno 3 3 ((tiny_disk [])\<lparr>fs := [''t'' \<mapsto> zeros (2 * PAGE_SIZE) @ d]\<rparr>))\<rparr>"

lemma sample_index_tree:
  assumes d: "node_ok sample_hdr d" "is_leaf d" "node_sorted sample_hdr d"
  shows "lru.tree_file {3} (entries sample_hdr d) (sample_index d)"
proof -
  let ?disk = "set_fd2pageno 3 3 ((tiny_disk [])\<lparr>fs := [''t'' \<mapsto> zeros (2 * PAGE_SIZE) @ d]\<rparr>)"
  have f: "fd_file ?disk 3 = Some (zeros (2 * PAGE_SIZE) @ d)" by (simp add: fd_file_def set_fd2pageno_def)
  have "disk_ok {3} ?disk"
    unfolding disk_ok_def using f by (simp add: io_clean_def set_fd2pageno_def MAX_FD_def LOG_FILE_NAME_def)
  then have "lru.rest {3} (ix_pool (sample_index d))"
    by (simp add: sample_index_def lru.rest_def) (use lru_sim_init [of "{3}" ?disk 1] in
      \<open>auto simp: init_store_def store_rel_def lru_pool_def BufferPoolManager_def set_fd2pageno_def\<close>)
  moreover have "length d = PAGE_SIZE" using d(1) by (simp add: node_ok_def)
  then have page: "ix_page (sample_index d) 2 = d"
    using f by (simp add: ix_page_def sample_index_def page_view_def lru_pool_def BufferPoolManager_def disk_view_def
        disk_page_def file_get_def slice_def zeros_def)
  have size: "ix_size (sample_index d) = 3"
    by (simp add: ix_size_def sample_index_def lru_pool_def BufferPoolManager_def set_fd2pageno_def)
  have "btree sample_hdr (ix_page (sample_index d)) 3 0 2 (entries sample_hdr d)"
    using btree_leaf [of 2 3 sample_hdr "ix_page (sample_index d)"] d page by simp
  then have "\<exists>n. n \<le> fuel_of (sample_index d) \<and> btree sample_hdr (ix_page (sample_index d)) 3 n 2 (entries sample_hdr d)"
    by (intro exI [of _ 0]) simp
  then show ?thesis
    using size calculation by (simp add: lru.tree_file_def sample_index_def sample_hdr_def update_tot_len_def IX_NO_PAGE_def)
qed

lemma leaf_page_node: "node_ok sample_hdr (new_leaf_page 1)" "is_leaf (new_leaf_page 1)" "num_key (new_leaf_page 1) = 0"
proof -
  show n: "num_key (new_leaf_page 1) = 0"
    by (simp add: num_key_def new_leaf_page_def set_next_leaf_def set_prev_leaf_def set_is_leaf_def set_size_def
        set_parent_def slice_blit_other PAGE_SIZE_def is_i32_def)
  show "node_ok sample_hdr (new_leaf_page 1)" unfolding node_ok_def n
    by (simp add: new_leaf_page_def set_next_leaf_def set_prev_leaf_def set_is_leaf_def set_size_def
        set_parent_def PAGE_SIZE_def get_max_size_def sample_hdr_def update_tot_len_def)
  have "slice (new_leaf_page 1) 12 1 = [1]"
    using slice_blit_same [of 1 "[1]" 12 "set_size 0 (set_parent IX_NO_PAGE (put_i32 (zeros PAGE_SIZE) 0 IX_NO_PAGE))"]
    by (simp add: new_leaf_page_def set_next_leaf_def set_prev_leaf_def set_is_leaf_def set_size_def
        set_parent_def slice_blit_other PAGE_SIZE_def)
  then show "is_leaf (new_leaf_page 1)" by (simp add: is_leaf_def)
qed

theorem index_get_value_witness:
  "\<exists>s es. es \<noteq> [] \<and> (\<exists>s'. get_value lru_ops (sample_key 5) (s :: lru ix_file) = Ret (assoc (ix_hdr s) es (sample_key 5)) s' \<and>
     lru.rest {3} (ix_pool s'))"
proof -
  have inc: "node_sorted sample_hdr (new_leaf_page 1)"
    by (simp add: node_order.increasing_def entries_def leaf_page_node(3))
  have max: "get_max_size sample_hdr = 254" by (simp add: get_max_size_def sample_hdr_def update_tot_len_def)
  obtain d where d: "node_insert sample_hdr (sample_key 5) (Rid 1 0) (new_leaf_page 1) = Inr d" "node_ok sample_hdr d"
    "node_sorted sample_hdr d" "hdr_rest d = hdr_rest (new_leaf_page 1)"
    "num_key d = (if leaf_lookup sample_hdr (new_leaf_page 1) (sample_key 5) = None then 1 else 0)"
    using node_insert_assoc [OF sample_layout leaf_page_node(1) inc sample_key_valid [of 5], of "Rid 1 0"]
    unfolding leaf_page_node(3) max by (simp add: is_i32_def) blast
  have "num_key d = 1"
    using d(5) leaf_lookup_assoc(1) [OF inc sample_key_valid [of 5] leaf_page_node(1)]
    by (simp add: entries_def leaf_page_node(3) assoc_def)
  then have ne: "entries sample_hdr d \<noteq> []" by (simp add: entries_def)
  have "is_leaf d" using hdr_restD(2) [OF d(4)] leaf_page_node(2) by simp
  then have t: "lru.tree_file {3} (entries sample_hdr d) (sample_index d)" using sample_index_tree d(2,3) by blast
  have h: "ix_hdr (sample_index d) = sample_hdr" by (simp add: sample_index_def)
  have v: "valid_key (ix_hdr (sample_index d)) (sample_key 5)" using sample_key_valid h by simp
  obtain s' where s': "get_value lru_ops (sample_key 5) (sample_index d) =
      Ret (assoc (ix_hdr (sample_index d)) (entries sample_hdr d) (sample_key 5)) s'" "lru.rest {3} (ix_pool s')"
    using index_get_value [OF t v] by blast
  show ?thesis
    by (rule exI [of _ "sample_index d"], rule exI [of _ "entries sample_hdr d"], rule conjI [OF ne],
        rule exI [of _ s'], rule conjI [OF s'])
qed

section \<open>A new index\<close>

text \<open>
  The order \<^verbatim>\<open>create_index\<close> computes fits the page: for every key length it accepts the tree order is at least three
  (so its assertion holds), and page header, keys and record numbers of a node with one pair more than
  the order still fit into a page.
\<close>

theorem index_layout_fits:
  assumes "cols \<noteq> []" and "list_all (\<lambda>c. 0 < cm_len c) cols" and "sum_list (map cm_len cols) \<le> IX_MAX_COL_LEN"
  shows "ix_layout (new_ix_hdr cols) \<and> ih_col_tot_len (new_ix_hdr cols) = sum_list (map cm_len cols) \<and>
    2 < btree_order (new_ix_hdr cols)"
proof -
  let ?t = "sum_list (map cm_len cols)"
  have tot: "foldl (\<lambda>a c. wrap32 (a + cm_len c)) a cs = a + sum_list (map cm_len cs)"
    if "list_all (\<lambda>c. 0 < cm_len c) cs" "0 \<le> a" "a + sum_list (map cm_len cs) \<le> IX_MAX_COL_LEN" for a cs
    using that
  proof (induction cs arbitrary: a)
    case (Cons c cs)
    have "0 \<le> sum_list (map cm_len cs)" using Cons.prems(1) by (intro sum_list_nonneg) (auto simp: list_all_iff)
    then have "wrap32 (a + cm_len c) = a + cm_len c"
      using Cons.prems by (intro wrap32_id) (auto simp: is_i32_def IX_MAX_COL_LEN_def)
    then show ?case using Cons by (simp add: algebra_simps)
  qed simp
  have t: "0 < ?t"
  proof (cases cols)
    case (Cons c cs)
    have "0 \<le> sum_list (map cm_len cs)"
      using assms(2) Cons by (intro sum_list_nonneg) (auto simp: list_all_iff)
    then show ?thesis using assms(2) Cons by simp
  qed (use assms(1) in simp)
  have t5: "?t \<le> 512" using assms(3) by (simp add: IX_MAX_COL_LEN_def)
  define q where "q = 4072 div (?t + 8)"
  have lo: "7 \<le> q" using t t5 zdiv_mono2 [of 4072 "?t + 8" 520] by (simp add: q_def)
  have hi: "q * (?t + 8) \<le> 4072" 
    unfolding q_def using t minus_mod_eq_div_mult [of 4072 "?t + 8"] pos_mod_sign [of "?t + 8" 4072] by linarith
  have q4: "q \<le> 4072" using hi t lo mult_left_mono [of 1 "?t + 8" q] by linarith
  have ord: "order_for ?t = q - 1"
    using t t5 lo q4 wrap32_id [of "q - 1"]
    by (simp add: order_for_def PAGE_SIZE_def SIZEOF_IxPageHdr_def mod_pos_pos_trivial q_def [symmetric] is_i32_def)
  have h: "ih_col_tot_len (new_ix_hdr cols) = ?t" "btree_order (new_ix_hdr cols) = q - 1" "keys_size (new_ix_hdr cols) = q * ?t"
    using tot [of cols 0] assms(2,3) ord by (simp_all add: new_ix_hdr_def Let_def update_tot_len_def)
  show ?thesis
    using h lo t hi by (auto simp: ix_layout_def get_max_size_def PAGE_SIZE_def)
qed

theorem index_layout_fits_witness:
  "ix_layout (new_ix_hdr [\<lparr>cm_tab_name = ''t'', cm_name = ''c'', cm_type = TYPE_STRING, cm_len = 512, cm_offset = 0,
     cm_index = True\<rparr>])"
  using index_layout_fits [of "[\<lparr>cm_tab_name = ''t'', cm_name = ''c'', cm_type = TYPE_STRING, cm_len = 512,
     cm_offset = 0, cm_index = True\<rparr>]"] by (simp add: IX_MAX_COL_LEN_def)

end
