(* ===== verification/Sm_Manager.thy ===== *)
theory Sm_Manager
  imports Index_Tree
begin

text \<open>
  The system manager, \<^verbatim>\<open>system/sm_manager.cpp\<close>: the catalogue, the open table and index handles over one
  shared pool, and the statements that define tables and indexes. A handle is its descriptor and its
  cached file header; \<open>on_table\<close> and \<open>on_index\<close> run an operation of a handle on the shared pool. The
  directories of the file system are maps of files; the current one is the file system of the disk
  model. The shell command that makes a directory is modelled for names that are plain words.
\<close>

section \<open>State\<close>

record 'r sm =
  sm_db :: db_meta
  fhs :: "(string \<times> int \<times> rm_file_hdr) list"
  ihs :: "(string \<times> int \<times> ix_file_hdr) list"
  sm_pool :: "'r bpm"
  dirs :: "string \<rightharpoonup> (string \<rightharpoonup> bytes)"
  cwd :: "(string \<times> (string \<rightharpoonup> bytes)) option"

definition DB_META_NAME :: string where "DB_META_NAME = ''db.meta''"

definition on_pool :: "('r bpm \<Rightarrow> ('a, 'r bpm) res) \<Rightarrow> ('r, 'z) sm_scheme \<Rightarrow> ('a, ('r, 'z) sm_scheme) res" where
  "on_pool m s = (case m (sm_pool s) of (r, p) \<Rightarrow> (r, s\<lparr>sm_pool := p\<rparr>))"

text \<open>\<^verbatim>\<open>fhs_.at(name)\<close> throws when there is no such handle.\<close>

definition on_table :: "string \<Rightarrow> ('r rm_file \<Rightarrow> ('a, 'r rm_file) res) \<Rightarrow> ('r, 'z) sm_scheme \<Rightarrow>
  ('a, ('r, 'z) sm_scheme) res" where
  "on_table t m s =
     (case map_of (fhs s) t of
        None \<Rightarrow> Throw OutOfRange s
      | Some (fd, h) \<Rightarrow>
          (case m \<lparr>rm_fd = fd, rm_hdr = h, rm_pool = sm_pool s\<rparr> of
             (r, f) \<Rightarrow> (r, s\<lparr>fhs := AList.update t (rm_fd f, rm_hdr f) (fhs s), sm_pool := rm_pool f\<rparr>)))"

definition on_index :: "string \<Rightarrow> ('r ix_file \<Rightarrow> ('a, 'r ix_file) res) \<Rightarrow> ('r, 'z) sm_scheme \<Rightarrow>
  ('a, ('r, 'z) sm_scheme) res" where
  "on_index i m s =
     (case map_of (ihs s) i of
        None \<Rightarrow> Throw OutOfRange s
      | Some (fd, h) \<Rightarrow>
          (case m \<lparr>ix_fd = fd, ix_hdr = h, ix_pool = sm_pool s\<rparr> of
             (r, f) \<Rightarrow> (r, s\<lparr>ihs := AList.update i (ix_fd f, ix_hdr f) (ihs s), sm_pool := ix_pool f\<rparr>)))"

text \<open>\<^verbatim>\<open>emplace\<close> keeps an entry that is there.\<close>

definition emplace :: "string \<Rightarrow> 'v \<Rightarrow> (string \<times> 'v) list \<Rightarrow> (string \<times> 'v) list" where
  "emplace k v m = (case map_of m k of None \<Rightarrow> m @ [(k, v)] | Some _ \<Rightarrow> m)"

text \<open>What \<^verbatim>\<open>catch (...)\<close> catches: a failed assertion, a null dereference and an endless loop are not exceptions.\<close>

definition catchable :: "rmdb_error \<Rightarrow> bool" where
  "catchable e \<longleftrightarrow> e \<noteq> AssertionFailure \<and> e \<noteq> NullDereference \<and> e \<noteq> NonTermination"

section \<open>Databases\<close>

definition is_dir :: "string \<Rightarrow> ('r, 'z) sm_scheme \<Rightarrow> bool" where
  "is_dir d s \<longleftrightarrow> dirs s d \<noteq> None"

definition chars_bytes :: "string \<Rightarrow> bytes" where
  "chars_bytes s = map (\<lambda>c. of_nat (of_char c)) s"

definition bytes_chars :: "bytes \<Rightarrow> string" where
  "bytes_chars bs = map (\<lambda>b. char_of (unat b)) bs"

text \<open>A call of the system, which may fail.\<close>

definition sys_call :: "(('r, 'z) sm_scheme \<Rightarrow> ('r, 'z) sm_scheme) \<Rightarrow> ('r, 'z) sm_scheme \<Rightarrow> (unit, ('r, 'z) sm_scheme) res" where
  "sys_call g s =
     (case sys_ok (disk_st (sm_pool s)) of
        (ok, d) \<Rightarrow> let s1 = s\<lparr>sm_pool := (sm_pool s)\<lparr>disk_st := d\<rparr>\<rparr> in
          if ok then Ret () (g s1) else Throw UnixError s1)"

text \<open>
  The directory operations of \<^verbatim>\<open>DiskManager\<close>. They run \<^verbatim>\<open>mkdir\<close> and \<^verbatim>\<open>rm -r\<close> in a shell and notice only that the shell
  could not be started: a directory that is there already stays as it is, and one that is not is not missed.
\<close>

definition dm_is_dir :: "string \<Rightarrow> ('r, 'z) sm_scheme \<Rightarrow> bool" where
  "dm_is_dir d s \<longleftrightarrow> dirs s d \<noteq> None"

definition create_dir :: "string \<Rightarrow> ('r, 'z) sm_scheme \<Rightarrow> (unit, ('r, 'z) sm_scheme) res" where
  "create_dir d s = sys_call (\<lambda>s1. if dm_is_dir d s1 then s1 else s1\<lparr>dirs := (dirs s1)(d \<mapsto> Map.empty)\<rparr>) s"

definition destroy_dir :: "string \<Rightarrow> ('r, 'z) sm_scheme \<Rightarrow> (unit, ('r, 'z) sm_scheme) res" where
  "destroy_dir d s = sys_call (\<lambda>s1. s1\<lparr>dirs := (dirs s1)(d := None)\<rparr>) s"

definition set_fs :: "(string \<rightharpoonup> bytes) \<Rightarrow> ('r, 'z) sm_scheme \<Rightarrow> ('r, 'z) sm_scheme" where
  "set_fs m s = s\<lparr>sm_pool := (sm_pool s)\<lparr>disk_st := (disk_st (sm_pool s))\<lparr>fs := m\<rparr>\<rparr>\<rparr>"

definition chdir_into :: "string \<Rightarrow> ('r, 'z) sm_scheme \<Rightarrow> (unit, ('r, 'z) sm_scheme) res" where
  "chdir_into d s =
     (case dirs s d of
        None \<Rightarrow> Throw UnixError s
      | Some m \<Rightarrow> sys_call (\<lambda>s1. set_fs m (s1\<lparr>cwd := Some (d, fs (disk_st (sm_pool s1)))\<rparr>)) s)"

definition chdir_up :: "('r, 'z) sm_scheme \<Rightarrow> (unit, ('r, 'z) sm_scheme) res" where
  "chdir_up s =
     (case cwd s of
        None \<Rightarrow> sys_call (\<lambda>s1. s1) s
      | Some (d, outer) \<Rightarrow>
          sys_call (\<lambda>s1. set_fs outer (s1\<lparr>dirs := (dirs s1)(d \<mapsto> fs (disk_st (sm_pool s1))), cwd := None\<rparr>)) s)"

definition write_meta :: "db_meta \<Rightarrow> ('r, 'z) sm_scheme \<Rightarrow> ('r, 'z) sm_scheme" where
  "write_meta m s = set_fs ((fs (disk_st (sm_pool s)))(DB_META_NAME \<mapsto> chars_bytes (put_db m))) s"

definition create_db :: "string \<Rightarrow> ('r, 'z) sm_scheme \<Rightarrow> (unit, ('r, 'z) sm_scheme) res" where
  "create_db name s =
     (if is_dir name s then Throw (DatabaseExistsError name) s
      else seqE (sys_call (\<lambda>s1. s1\<lparr>dirs := (dirs s1)(name \<mapsto> Map.empty)\<rparr>) s)
        (\<lambda>_ s1. seqE (chdir_into name s1)
           (\<lambda>_ s2. seqE (on_pool (on_disk (create_file LOG_FILE_NAME)) (write_meta \<lparr>db_name = name, tabs = []\<rparr> s2))
              (\<lambda>_ s3. chdir_up s3))))"

definition drop_db :: "string \<Rightarrow> ('r, 'z) sm_scheme \<Rightarrow> (unit, ('r, 'z) sm_scheme) res" where
  "drop_db name s =
     (if \<not> is_dir name s then Throw (DatabaseNotFoundError name) s
      else sys_call (\<lambda>s1. s1\<lparr>dirs := (dirs s1)(name := None)\<rparr>) s)"

definition flush_meta :: "('r, 'z) sm_scheme \<Rightarrow> ('r, 'z) sm_scheme" where
  "flush_meta s = write_meta (sm_db s) s"

definition open_table :: "string \<Rightarrow> ('r, 'z) sm_scheme \<Rightarrow> (unit, ('r, 'z) sm_scheme) res" where
  "open_table t s =
     (case rm_open_file t (sm_pool s) of
        (Inl e, p) \<Rightarrow> Throw e (s\<lparr>sm_pool := p\<rparr>)
      | (Inr f, p) \<Rightarrow> Ret () (s\<lparr>sm_pool := p, fhs := emplace t (rm_fd f, rm_hdr f) (fhs s)\<rparr>))"

definition index_name_of :: "string \<Rightarrow> index_meta \<Rightarrow> string" where
  "index_name_of t ix = get_index_name t (map cm_name (im_cols ix))"

fun open_indexes :: "string \<Rightarrow> index_meta list \<Rightarrow> ('r, 'z) sm_scheme \<Rightarrow> (unit, ('r, 'z) sm_scheme) res" where
  "open_indexes t [] s = Ret () s"
| "open_indexes t (ix # ixs) s =
     (case open_index t (map cm_name (im_cols ix)) (sm_pool s) of
        (Inl e, p) \<Rightarrow> Throw e (s\<lparr>sm_pool := p\<rparr>)
      | (Inr f, p) \<Rightarrow>
          open_indexes t ixs (s\<lparr>sm_pool := p, ihs := emplace (index_name_of t ix) (ix_fd f, ix_hdr f) (ihs s)\<rparr>))"

fun open_tables :: "(string \<times> tab_meta) list \<Rightarrow> ('r, 'z) sm_scheme \<Rightarrow> (unit, ('r, 'z) sm_scheme) res" where
  "open_tables [] s = Ret () s"
| "open_tables ((k, t) # ts) s =
     seqE (open_table (tm_name t) s)
       (\<lambda>_ s1. seqE (open_indexes (tm_name t) (indexes t) s1) (\<lambda>_ s2. open_tables ts s2))"

text \<open>A meta file that does not parse leaves the program with half a catalogue; the model stops there.\<close>

definition open_db :: "string \<Rightarrow> ('r, 'z) sm_scheme \<Rightarrow> (unit, ('r, 'z) sm_scheme) res" where
  "open_db name s =
     (if \<not> is_dir name s then Throw (DatabaseNotFoundError name) s
      else seqE (chdir_into name s)
        (\<lambda>_ s1.
           case fs (disk_st (sm_pool s1)) DB_META_NAME of
             None \<Rightarrow> Throw (InternalError ''unreadable meta file'') s1
           | Some bs \<Rightarrow>
               (case read_db (bytes_chars bs) of
                  None \<Rightarrow> Throw (InternalError ''unreadable meta file'') s1
                | Some (m, _) \<Rightarrow> open_tables (tabs m) (s1\<lparr>sm_db := m\<rparr>))))"

text \<open>The loops of \<^verbatim>\<open>close_db\<close> over the handles, which stay in the map until all are closed.\<close>

fun close_indexes :: "'r replacer_ops \<Rightarrow> (string \<times> int \<times> ix_file_hdr) list \<Rightarrow> ('r, 'z) sm_scheme \<Rightarrow>
  (unit, ('r, 'z) sm_scheme) res" where
  "close_indexes R [] s = Ret () s"
| "close_indexes R ((i, fd, h) # l) s =
     seqE (on_pool (\<lambda>p. close_index R \<lparr>ix_fd = fd, ix_hdr = h, ix_pool = p\<rparr>) s) (\<lambda>_ s1. close_indexes R l s1)"

fun close_tables :: "'r replacer_ops \<Rightarrow> (string \<times> int \<times> rm_file_hdr) list \<Rightarrow> ('r, 'z) sm_scheme \<Rightarrow>
  (unit, ('r, 'z) sm_scheme) res" where
  "close_tables R [] s = Ret () s"
| "close_tables R ((t, fd, h) # l) s =
     seqE (on_pool (\<lambda>p. rm_close_file R \<lparr>rm_fd = fd, rm_hdr = h, rm_pool = p\<rparr>) s) (\<lambda>_ s1. close_tables R l s1)"

definition close_db :: "'r replacer_ops \<Rightarrow> ('r, 'z) sm_scheme \<Rightarrow> (unit, ('r, 'z) sm_scheme) res" where
  "close_db R s =
     seqE (close_indexes R (ihs s) s)
       (\<lambda>_ s1. seqE (close_tables R (fhs s1) (s1\<lparr>ihs := []\<rparr>))
          (\<lambda>_ s2. chdir_up (flush_meta (s2\<lparr>fhs := []\<rparr>))))"

section \<open>Tables\<close>

record col_def =
  cd_name :: string
  cd_type :: col_type
  cd_len :: int

text \<open>The loop that lays the columns out one after the other; the second component is the record size.\<close>

fun layout_cols :: "string \<Rightarrow> int \<Rightarrow> col_def list \<Rightarrow> col_meta list \<times> int" where
  "layout_cols t off [] = ([], off)"
| "layout_cols t off (c # cs) =
     (let col = \<lparr>cm_tab_name = t, cm_name = cd_name c, cm_type = cd_type c, cm_len = cd_len c, cm_offset = off,
                 cm_index = False\<rparr>;
          r = layout_cols t (wrap32 (off + cd_len c)) cs
      in (col # fst r, snd r))"

definition create_table :: "string \<Rightarrow> col_def list \<Rightarrow> ('r, 'z) sm_scheme \<Rightarrow> (unit, ('r, 'z) sm_scheme) res" where
  "create_table t defs s =
     (if is_table (sm_db s) t then Throw (TableExistsError t) s
      else let r = layout_cols t 0 defs; tab = \<lparr>tm_name = t, tm_cols = fst r, indexes = []\<rparr> in
           seqE (on_pool (rm_create_file t (snd r)) s)
             (\<lambda>_ s1. seqE (open_table t (s1\<lparr>sm_db := (sm_db s1)\<lparr>tabs := map_put t tab (tabs (sm_db s1))\<rparr>\<rparr>))
                (\<lambda>_ s2. Ret () (flush_meta s2))))"

definition update_tab :: "string \<Rightarrow> (tab_meta \<Rightarrow> tab_meta) \<Rightarrow> ('r, 'z) sm_scheme \<Rightarrow> ('r, 'z) sm_scheme" where
  "update_tab t g s = s\<lparr>sm_db := (sm_db s)\<lparr>tabs := map (\<lambda>(k, m). if k = t then (k, g m) else (k, m)) (tabs (sm_db s))\<rparr>\<rparr>"

definition lift_sm :: "(rmdb_error + 'a) \<Rightarrow> ('r, 'z) sm_scheme \<Rightarrow> ('a, ('r, 'z) sm_scheme) res" where
  "lift_sm r s = (r, s)"

text \<open>The column flags after an index is gone: still indexed by one of the others or not.\<close>

definition reset_index_flags :: "tab_meta \<Rightarrow> tab_meta" where
  "reset_index_flags t =
     t\<lparr>tm_cols := map (\<lambda>c. c\<lparr>cm_index := list_ex (\<lambda>ix. list_ex (\<lambda>ic. cm_name ic = cm_name c) (im_cols ix)) (indexes t)\<rparr>)
                    (tm_cols t)\<rparr>"

definition remove_nth :: "nat \<Rightarrow> 'a list \<Rightarrow> 'a list" where
  "remove_nth i xs = take i xs @ drop (Suc i) xs"

definition drop_index :: "'r replacer_ops \<Rightarrow> string \<Rightarrow> string list \<Rightarrow> ('r, 'z) sm_scheme \<Rightarrow> (unit, ('r, 'z) sm_scheme) res" where
  "drop_index R t names s =
     seqE (lift_sm (get_table (sm_db s) t) s)
       (\<lambda>tab s1. seqE (lift_sm (get_index_meta tab names) s1)
          (\<lambda>i s2.
             let ix = indexes tab ! i; nm = index_name_of t ix in
             seqE (case map_of (ihs s2) nm of
                     None \<Rightarrow> Ret () s2
                   | Some (fd, h) \<Rightarrow>
                       seqE (on_pool (\<lambda>p. close_index R \<lparr>ix_fd = fd, ix_hdr = h, ix_pool = p\<rparr>) s2)
                         (\<lambda>_ s3. Ret () (s3\<lparr>ihs := AList.delete nm (ihs s3)\<rparr>)))
               (\<lambda>_ s4. seqE (on_pool (destroy_index t (map cm_name (im_cols ix))) s4)
                  (\<lambda>_ s5. Ret () (flush_meta
                     (update_tab t (\<lambda>m. reset_index_flags (m\<lparr>indexes := remove_nth i (indexes m)\<rparr>)) s5))))))"

text \<open>The overload that is given columns.\<close>

definition drop_index_cols :: "'r replacer_ops \<Rightarrow> string \<Rightarrow> col_meta list \<Rightarrow> ('r, 'z) sm_scheme \<Rightarrow> (unit, ('r, 'z) sm_scheme) res" where
  "drop_index_cols R t cols s = drop_index R t (map cm_name cols) s"

text \<open>Each turn of the loop in \<^verbatim>\<open>drop_table\<close> drops one index, so the number of indexes bounds it.\<close>

primrec drop_indexes :: "nat \<Rightarrow> 'r replacer_ops \<Rightarrow> string \<Rightarrow> ('r, 'z) sm_scheme \<Rightarrow> (unit, ('r, 'z) sm_scheme) res" where
  "drop_indexes 0 R t s = Ret () s"
| "drop_indexes (Suc k) R t s =
     seqE (lift_sm (get_table (sm_db s) t) s)
       (\<lambda>tab s1.
          if indexes tab = [] then Ret () s1
          else seqE (drop_index R t (map cm_name (im_cols (last (indexes tab)))) s1)
                 (\<lambda>_ s2. drop_indexes k R t s2))"

definition drop_table :: "'r replacer_ops \<Rightarrow> string \<Rightarrow> ('r, 'z) sm_scheme \<Rightarrow> (unit, ('r, 'z) sm_scheme) res" where
  "drop_table R t s =
     (if \<not> is_table (sm_db s) t then Throw (TableNotFoundError t) s
      else seqE (lift_sm (get_table (sm_db s) t) s)
        (\<lambda>tab s1. seqE (drop_indexes (length (indexes tab)) R t s1)
           (\<lambda>_ s2.
              case map_of (fhs s2) t of
                None \<Rightarrow> Throw OutOfRange s2
              | Some (fd, h) \<Rightarrow>
                  seqE (on_pool (\<lambda>p. rm_close_file R \<lparr>rm_fd = fd, rm_hdr = h, rm_pool = p\<rparr>) s2)
                    (\<lambda>_ s3. seqE (on_pool (rm_destroy_file t) (s3\<lparr>fhs := AList.delete t (fhs s3)\<rparr>))
                       (\<lambda>_ s4. Ret () (flush_meta
                          (s4\<lparr>sm_db := (sm_db s4)\<lparr>tabs := AList.delete t (tabs (sm_db s4))\<rparr>\<rparr>)))))))"

section \<open>Indexes\<close>

text \<open>
  The key of a record for an index: the columns one after the other. The key buffer has \<open>tot\<close> bytes.
\<close>

fun copy_cols :: "bytes \<Rightarrow> nat \<Rightarrow> col_meta list \<Rightarrow> bytes \<Rightarrow> bytes" where
  "copy_cols key off [] record = key"
| "copy_cols key off (c # cs) record =
     copy_cols (blit key off (slice record (nat (cm_offset c)) (nat (cm_len c)))) (off + nat (cm_len c)) cs record"

definition record_key :: "int \<Rightarrow> col_meta list \<Rightarrow> bytes \<Rightarrow> bytes" where
  "record_key tot cols record = copy_cols (zeros (nat tot)) 0 cols record"

fun find_cols :: "tab_meta \<Rightarrow> string list \<Rightarrow> rmdb_error + col_meta list" where
  "find_cols t [] = Inr []"
| "find_cols t (n # ns) =
     (case tab_get_col t n of
        Inl e \<Rightarrow> Inl e
      | Inr c \<Rightarrow> (case find_cols t ns of Inl e \<Rightarrow> Inl e | Inr cs \<Rightarrow> Inr (c # cs)))"

text \<open>
  The loop that fills a new index from the table: the handle of the new index is not in the map yet,
  so it is threaded. The scan is bounded by fuel, one step per record.
\<close>

type_synonym handle = "int \<times> ix_file_hdr"

definition on_handle :: "('r ix_file \<Rightarrow> ('a, 'r ix_file) res) \<Rightarrow> handle \<times> ('r, 'z) sm_scheme \<Rightarrow>
  ('a, handle \<times> ('r, 'z) sm_scheme) res" where
  "on_handle m st =
     (case m \<lparr>ix_fd = fst (fst st), ix_hdr = snd (fst st), ix_pool = sm_pool (snd st)\<rparr> of
        (r, f) \<Rightarrow> (r, ((ix_fd f, ix_hdr f), (snd st)\<lparr>sm_pool := ix_pool f\<rparr>)))"

definition beside :: "('s \<Rightarrow> ('a, 's) res) \<Rightarrow> 'x \<times> 's \<Rightarrow> ('a, 'x \<times> 's) res" where
  "beside m st = (case m (snd st) of (r, s) \<Rightarrow> (r, (fst st, s)))"

fun fill_index :: "nat \<Rightarrow> 'r replacer_ops \<Rightarrow> bool \<Rightarrow> string \<Rightarrow> string list \<Rightarrow> int \<Rightarrow> col_meta list \<Rightarrow> rid \<Rightarrow>
  handle \<times> ('r, 'z) sm_scheme \<Rightarrow> (unit, handle \<times> ('r, 'z) sm_scheme) res" where
  "fill_index k R uniq t names tot cols r st =
     seqE (beside (on_table t (\<lambda>f. Ret (scan_is_end r f) f)) st)
       (\<lambda>stop st1.
          if stop then Ret () st1
          else case k of 0 \<Rightarrow> Throw NonTermination st1 | Suc k' \<Rightarrow>
            seqE (beside (on_table t (get_record R r)) st1)
              (\<lambda>record st2.
                 let key = record_key tot cols record in
                 seqE (if uniq then on_handle (get_value R key) st2 else Ret None st2)
                   (\<lambda>found st3.
                      if found \<noteq> None then Throw (IndexExistsError t names) st3
                      else seqE (on_handle (insert_entry R key r) st3)
                        (\<lambda>_ st4. seqE (beside (on_table t (scan_next R r)) st4)
                           (\<lambda>r' st5. fill_index k' R uniq t names tot cols r' st5)))))"

declare fill_index.simps [simp del]

text \<open>The scan visits each slot of each page at most once.\<close>

definition scan_fuel :: "string \<Rightarrow> ('r, 'z) sm_scheme \<Rightarrow> nat" where
  "scan_fuel t s =
     (case map_of (fhs s) t of None \<Rightarrow> 0 | Some (fd, h) \<Rightarrow> nat (num_pages h) * nat (num_records_per_page h))"

text \<open>\<^verbatim>\<open>get_col\<close> finds the first column of a name.\<close>

fun mark_col :: "string \<Rightarrow> col_meta list \<Rightarrow> col_meta list" where
  "mark_col n [] = []"
| "mark_col n (c # cs) = (if cm_name c = n then c\<lparr>cm_index := True\<rparr> # cs else c # mark_col n cs)"

definition mark_indexed :: "col_meta list \<Rightarrow> tab_meta \<Rightarrow> tab_meta" where
  "mark_indexed cols t = t\<lparr>tm_cols := foldl (\<lambda>cs c. mark_col (cm_name c) cs) (tm_cols t) cols\<rparr>"

definition sm_create_index :: "'r replacer_ops \<Rightarrow> string \<Rightarrow> string list \<Rightarrow> ('r, 'z) sm_scheme \<Rightarrow>
  (unit, ('r, 'z) sm_scheme) res" where
  "sm_create_index R t names s =
     seqE (lift_sm (get_table (sm_db s) t) s)
       (\<lambda>tab s1.
          if is_index tab names then Throw (IndexExistsError t names) s1
          else seqE (lift_sm (find_cols tab names) s1)
            (\<lambda>cols s2.
               let tot = foldl (\<lambda>a c. wrap32 (a + cm_len c)) 0 cols in
               seqE (on_pool (create_index t cols) s2)
                 (\<lambda>_ s3. seqE (on_pool (open_index t (map cm_name cols)) s3)
                    (\<lambda>f s4.
                       case seqE (beside (on_table t (RmScan R)) ((ix_fd f, ix_hdr f), s4))
                              (\<lambda>r st. fill_index (scan_fuel t (snd st)) R True t names tot cols r st) of
                         (Inl e, (ih, s6)) \<Rightarrow>
                           if \<not> catchable e then Throw e s6
                           else seqE (on_pool (\<lambda>p. close_index R \<lparr>ix_fd = fst ih, ix_hdr = snd ih, ix_pool = p\<rparr>) s6)
                                  (\<lambda>_ s7. seqE (on_pool (destroy_index t (map cm_name cols)) s7)
                                     (\<lambda>_ s8. Throw e s8))
                       | (Inr _, (ih, s6)) \<Rightarrow>
                           let ix = \<lparr>im_tab_name = t, col_tot_len = tot, col_num = int (length cols), im_cols = cols\<rparr>;
                               s7 = update_tab t (\<lambda>m. mark_indexed cols (m\<lparr>indexes := indexes m @ [ix]\<rparr>)) s6;
                               s8 = s7\<lparr>ihs := emplace (index_name_of t ix) ih (ihs s7)\<rparr>
                           in Ret () (flush_meta s8)))))"

end
