(* ===== verification/Sm_Manager_Props.thy ===== *)
theory Sm_Manager_Props
  imports Sm_Manager
begin

text \<open>
  What the statements that define data do to the catalogue: they keep it well formed, the copy in
  the meta file is the one in memory whenever a statement succeeds, and the columns of a new table lie
  one after the other in its records.
\<close>

section \<open>The catalogue is changed by the statements only\<close>

lemma sm_db_on [simp]:
  "sm_db (snd (on_pool m s)) = sm_db s" "sm_db (snd (on_table t m' s)) = sm_db s"
  "sm_db (snd (lift_sm r s)) = sm_db s"
  by (auto simp: on_pool_def on_table_def lift_sm_def split: prod.split option.split)

lemma on_Ret:
  "on_pool m s = (r, s') \<Longrightarrow> sm_db s' = sm_db s" "on_table t m' s = (r', s') \<Longrightarrow> sm_db s' = sm_db s"
  "lift_sm x s = (x', s') \<Longrightarrow> x = x' \<and> s' = s"
  using sm_db_on(1) [of m s] sm_db_on(2) [of t m' s] by (auto simp: lift_sm_def)

lemma beside_db [simp]: "sm_db (snd (snd (beside (on_table t m) st))) = sm_db (snd st)"
  using sm_db_on(2) [of t m "snd st"] by (simp add: beside_def split_def)

lemma on_handle_db [simp]: "sm_db (snd (snd (on_handle m st))) = sm_db (snd st)"
  by (simp add: on_handle_def split_def)

lemma seqE_db:
  assumes "sm_db (snd (snd m)) = d" and "\<And>x st. sm_db (snd st) = d \<Longrightarrow> sm_db (snd (snd (f x st))) = d"
  shows "sm_db (snd (snd (seqE m f))) = d"
  using assms by (intro bindE_state [where P = "\<lambda>st. sm_db (snd st) = d"]) auto

lemma fill_index_db:
  fixes st :: "handle \<times> ('r, 'z) sm_scheme"
  shows "sm_db (snd st) = d \<Longrightarrow> sm_db (snd (snd (fill_index k R uniq t names tot cols r st))) = d"
proof (induction k arbitrary: r st)
  case 0
  then show ?case by (subst fill_index.simps, intro seqE_db) simp_all
next
  case (Suc k)
  have body: "sm_db (snd (snd (seqE (beside (on_table t (get_record R r)) st1)
      (\<lambda>record st2. let key = record_key tot cols record in
         seqE (if uniq then on_handle (get_value R key) st2 else Ret None st2)
           (\<lambda>found st3. if found \<noteq> None then Throw (IndexExistsError t names) st3
              else seqE (on_handle (insert_entry R key r) st3)
                (\<lambda>_ st4. seqE (beside (on_table t (scan_next R r)) st4)
                   (\<lambda>r' st5. fill_index k R uniq t names tot cols r' st5))))))) = d"
    if "sm_db (snd st1) = d" for st1 :: "handle \<times> ('r, 'z) sm_scheme"
    unfolding Let_def
    by (intro seqE_db Suc.IH; (simp add: that split: if_split; intro impI seqE_db; simp add: Suc.IH)?)
  show ?case
    unfolding fill_index.simps [of "Suc k"]
    by (rule seqE_db) (use Suc.prems body in auto)
qed

section \<open>The copy in the meta file\<close>

lemma bytes_chars_bytes [simp]: "bytes_chars (chars_bytes s) = s"
proof -
  have "char_of (unat (of_nat (of_char c) :: byte)) = c" for c :: char
  proof -
    have "(of_char c :: nat) < 256" by simp
    then show ?thesis by (simp add: unat_of_nat)
  qed
  then show ?thesis by (simp add: bytes_chars_def chars_bytes_def comp_def)
qed

text \<open>Reading the meta file gives the catalogue in memory.\<close>

definition meta_synced :: "('r, 'z) sm_scheme \<Rightarrow> bool" where
  "meta_synced s \<longleftrightarrow> (case fs (disk_st (sm_pool s)) DB_META_NAME of
     None \<Rightarrow> False | Some bs \<Rightarrow> (case read_db (bytes_chars bs) of None \<Rightarrow> False | Some (m, _) \<Rightarrow> m = sm_db s))"

lemma flush_meta_synced: "db_ok (sm_db s) \<Longrightarrow> meta_synced (flush_meta s)"
  using read_db_put [of "sm_db s"] by (auto simp: meta_synced_def flush_meta_def write_meta_def set_fs_def)

lemma flush_meta_db [simp]: "sm_db (flush_meta s) = sm_db s"
  by (simp add: flush_meta_def write_meta_def set_fs_def)

section \<open>Well-formed catalogues\<close>

lemma map_put_set: "set (map_put k v m) \<subseteq> insert (k, v) (set m)"
  by (induction k v m rule: map_put.induct) (auto split: if_splits)

lemma map_put_keys: "fst ` set (map_put k v m) = insert k (fst ` set m)"
  by (induction k v m rule: map_put.induct) (simp_all add: insert_commute)

lemma map_put_sorted: "sorted_wrt (<) (map fst m) \<Longrightarrow> sorted_wrt (<) (map fst (map_put k v m))"
proof (induction m)
  case (Cons e m)
  obtain k' v' where e: "e = (k', v')" by (cases e)
  have m: "sorted_wrt (<) (map fst (map_put k v m))" "\<forall>x \<in> fst ` set m. k' < x" using Cons e by auto
  show ?case using Cons.prems m map_put_keys [of k v m] by (auto simp: e)
qed simp

lemma map_of_map_put: "sorted_wrt (<) (map fst m) \<Longrightarrow> map_of (map_put k v m) k' = (if k' = k then Some v else map_of m k')"
proof (induction m)
  case (Cons e m)
  obtain k0 v0 where e: "e = (k0, v0)" by (cases e)
  have "map_of m k = None" if "k < k0" using Cons.prems that by (auto simp: e map_of_eq_None_iff)
  then show ?case using Cons by (auto simp: e)
qed simp

lemma length_map_put: "length (map_put k v m) \<le> Suc (length m)"
  by (induction m) auto

lemma delete_sorted: "sorted_wrt (<) (map fst m) \<Longrightarrow> sorted_wrt (<) (map fst (AList.delete k m))"
  by (induction m) (auto simp: AList.delete_eq)

text \<open>A statement of the data definition language, and when its arguments are representable.\<close>

datatype ddl = CreateTable string "col_def list" | DropTable string | CreateIndex string "string list"
  | DropIndex string "string list"

fun ddl_exec :: "'r replacer_ops \<Rightarrow> ddl \<Rightarrow> ('r, 'z) sm_scheme \<Rightarrow> (unit, ('r, 'z) sm_scheme) res" where
  "ddl_exec R (CreateTable t defs) s = create_table t defs s"
| "ddl_exec R (DropTable t) s = drop_table R t s"
| "ddl_exec R (CreateIndex t names) s = sm_create_index R t names s"
| "ddl_exec R (DropIndex t names) s = drop_index R t names s"

text \<open>What the statement does to the catalogue.\<close>

definition with_table :: "string \<Rightarrow> (tab_meta \<Rightarrow> tab_meta) \<Rightarrow> db_meta \<Rightarrow> db_meta" where
  "with_table t g db = db\<lparr>tabs := map (\<lambda>(k, m). if k = t then (k, g m) else (k, m)) (tabs db)\<rparr>"

lemma update_tab_db [simp]: "sm_db (update_tab t g s) = with_table t g (sm_db s)"
  by (simp add: update_tab_def with_table_def)

lemma create_table_Ret:
  assumes "create_table t defs s = Ret () s'"
  shows "\<not> is_table (sm_db s) t"
    and "sm_db s' = (sm_db s)\<lparr>tabs := map_put t \<lparr>tm_name = t, tm_cols = fst (layout_cols t 0 defs), indexes = []\<rparr>
      (tabs (sm_db s))\<rparr>"
    and "\<exists>s0. s' = flush_meta s0"
    and "1 \<le> snd (layout_cols t 0 defs) \<and> snd (layout_cols t 0 defs) \<le> RM_MAX_RECORD_SIZE"
proof -
  show n: "\<not> is_table (sm_db s) t" using assms by (auto simp: create_table_def)
  obtain u s1 s2 where s1: "on_pool (rm_create_file t (snd (layout_cols t 0 defs))) s = Ret u s1"
    and s2: "open_table t (s1\<lparr>sm_db := (sm_db s1)\<lparr>tabs := map_put t \<lparr>tm_name = t, tm_cols = fst (layout_cols t 0 defs),
      indexes = []\<rparr> (tabs (sm_db s1))\<rparr>\<rparr>) = Ret () s2" and s': "s' = flush_meta s2"
    using assms n by (auto simp: create_table_def Let_def bindE_eq_Ret)
  have "sm_db s2 = (sm_db s1)\<lparr>tabs := map_put t \<lparr>tm_name = t, tm_cols = fst (layout_cols t 0 defs), indexes = []\<rparr>
      (tabs (sm_db s1))\<rparr>"
    using s2 by (auto simp: open_table_def split: prod.splits sum.splits)
  then show "sm_db s' = (sm_db s)\<lparr>tabs := map_put t \<lparr>tm_name = t, tm_cols = fst (layout_cols t 0 defs), indexes = []\<rparr>
      (tabs (sm_db s))\<rparr>" using s' on_Ret(1) [OF s1] by simp
  show "\<exists>s0. s' = flush_meta s0" using s' by blast
  show "1 \<le> snd (layout_cols t 0 defs) \<and> snd (layout_cols t 0 defs) \<le> RM_MAX_RECORD_SIZE"
    using s1 by (auto simp: on_pool_def rm_create_file_def split: if_splits)
qed

lemma drop_index_Ret:
  assumes "drop_index R t names s = Ret () s'"
  shows "\<exists>i. sm_db s' = with_table t (\<lambda>m. reset_index_flags (m\<lparr>indexes := remove_nth i (indexes m)\<rparr>)) (sm_db s)"
    and "\<exists>s0. s' = flush_meta s0"
proof -
  obtain tab i where g: "get_table (sm_db s) t = Inr tab" "get_index_meta tab names = Inr i"
    using assms by (auto simp: drop_index_def bindE_eq_Ret dest!: on_Ret(3))
  define ix where "ix = indexes tab ! i"
  obtain u s4 u' s5 where c: "(case map_of (ihs s) (index_name_of t ix) of None \<Rightarrow> Ret () s
        | Some (fd, h) \<Rightarrow> seqE (on_pool (\<lambda>p. close_index R \<lparr>ix_fd = fd, ix_hdr = h, ix_pool = p\<rparr>) s)
            (\<lambda>_ s3. Ret () (s3\<lparr>ihs := AList.delete (index_name_of t ix) (ihs s3)\<rparr>))) = Ret u s4"
    and s5: "on_pool (destroy_index t (map cm_name (im_cols ix))) s4 = Ret u' s5"
    and s': "s' = flush_meta (update_tab t (\<lambda>m. reset_index_flags (m\<lparr>indexes := remove_nth i (indexes m)\<rparr>)) s5)"
    using assms unfolding drop_index_def ix_def by (auto simp: bindE_eq_Ret g lift_sm_def Let_def)
  have "sm_db s4 = sm_db s"
    using c by (auto simp: bindE_eq_Ret split: option.splits) (metis on_Ret(1))
  then show "\<exists>i. sm_db s' = with_table t (\<lambda>m. reset_index_flags (m\<lparr>indexes := remove_nth i (indexes m)\<rparr>)) (sm_db s)"
    using s' on_Ret(1) [OF s5] by auto
  show "\<exists>s0. s' = flush_meta s0" using s' by blast
qed

lemma create_index_Ret:
  assumes "sm_create_index R t names s = Ret () s'"
  shows "\<exists>tab cols. get_table (sm_db s) t = Inr tab \<and> \<not> is_index tab names \<and> find_cols tab names = Inr cols \<and>
      sm_db s' = with_table t (\<lambda>m. mark_indexed cols (m\<lparr>indexes := indexes m @ [\<lparr>im_tab_name = t,
        col_tot_len = foldl (\<lambda>a c. wrap32 (a + cm_len c)) 0 cols, col_num = int (length cols), im_cols = cols\<rparr>]\<rparr>)) (sm_db s)"
    and "\<exists>s0. s' = flush_meta s0"
proof -
  obtain tab cols where g: "get_table (sm_db s) t = Inr tab" "find_cols tab names = Inr cols" and n: "\<not> is_index tab names"
    using assms by (auto simp: sm_create_index_def bindE_eq_Ret dest!: on_Ret(3) split: if_splits)
  define tot where "tot = foldl (\<lambda>a c. wrap32 (a + cm_len c)) 0 cols"
  define ix where "ix = \<lparr>im_tab_name = t, col_tot_len = tot, col_num = int (length cols), im_cols = cols\<rparr>"
  obtain u s3 f s4 where s3: "on_pool (create_index t cols) s = Ret u s3" "on_pool (open_index t (map cm_name cols)) s3 = Ret f s4"
    and r: "(case seqE (beside (on_table t (RmScan R)) ((ix_fd f, ix_hdr f), s4))
        (\<lambda>r st. fill_index (scan_fuel t (snd st)) R True t names tot cols r st) of
      (Inl e, (ih, s6)) \<Rightarrow> if \<not> catchable e then Throw e s6
        else seqE (on_pool (\<lambda>p. close_index R \<lparr>ix_fd = fst ih, ix_hdr = snd ih, ix_pool = p\<rparr>) s6)
          (\<lambda>_ s7. seqE (on_pool (destroy_index t (map cm_name cols)) s7) (\<lambda>_ s8. Throw e s8))
      | (Inr _, (ih, s6)) \<Rightarrow>
          let s7 = update_tab t (\<lambda>m. mark_indexed cols (m\<lparr>indexes := indexes m @ [ix]\<rparr>)) s6;
              s8 = s7\<lparr>ihs := emplace (index_name_of t ix) ih (ihs s7)\<rparr> in Ret () (flush_meta s8)) = Ret () s'"
    using assms n unfolding sm_create_index_def ix_def tot_def Let_def by (auto simp: bindE_eq_Ret g lift_sm_def)
  let ?run = "seqE (beside (on_table t (RmScan R)) ((ix_fd f, ix_hdr f), s4))
        (\<lambda>r st. fill_index (scan_fuel t (snd st)) R True t names tot cols r st)"
  have db: "sm_db (snd (snd ?run)) = sm_db s4" by (rule seqE_db, simp) (rule fill_index_db)
  obtain x ih s6 where run: "?run = (x, (ih, s6))" by (rule prod_cases3)
  then obtain y where x: "x = Inr y" using r by (cases x) (auto simp: bindE_eq_Ret split: if_splits)
  have "s' = flush_meta ((update_tab t (\<lambda>m. mark_indexed cols (m\<lparr>indexes := indexes m @ [ix]\<rparr>)) s6)
      \<lparr>ihs := emplace (index_name_of t ix) ih (ihs (update_tab t (\<lambda>m. mark_indexed cols (m\<lparr>indexes := indexes m @ [ix]\<rparr>)) s6))\<rparr>)"
    using r run x by (simp add: Let_def)
  moreover have "sm_db s6 = sm_db s" using db run on_Ret(1) [OF s3(1)] on_Ret(1) [OF s3(2)] by simp
  ultimately show "\<exists>tab cols. get_table (sm_db s) t = Inr tab \<and> \<not> is_index tab names \<and> find_cols tab names = Inr cols \<and>
      sm_db s' = with_table t (\<lambda>m. mark_indexed cols (m\<lparr>indexes := indexes m @ [\<lparr>im_tab_name = t,
        col_tot_len = foldl (\<lambda>a c. wrap32 (a + cm_len c)) 0 cols, col_num = int (length cols), im_cols = cols\<rparr>]\<rparr>)) (sm_db s)"
    and "\<exists>s0. s' = flush_meta s0"
    using g n by (auto simp: ix_def tot_def)
qed

text \<open>Statements whose names are words and whose numbers fit, on a catalogue with room for one entry more.\<close>

fun ddl_ok :: "ddl \<Rightarrow> bool" where
  "ddl_ok (CreateTable t defs) \<longleftrightarrow> word_ok t \<and> length defs < 2 ^ 64 \<and>
     list_all (\<lambda>c. word_ok (cd_name c) \<and> is_i32 (cd_len c)) defs"
| "ddl_ok (CreateIndex t names) \<longleftrightarrow> word_ok t \<and> is_i32 (int (length names))"
| "ddl_ok (DropTable t) \<longleftrightarrow> True"
| "ddl_ok (DropIndex t names) \<longleftrightarrow> True"

definition has_room :: "db_meta \<Rightarrow> bool" where
  "has_room db \<longleftrightarrow> length (tabs db) + 1 < 2 ^ 64 \<and> list_all (\<lambda>(k, t). length (indexes t) + 1 < 2 ^ 64) (tabs db)"

lemma wrap32_i32 [simp]: "is_i32 (wrap32 i)"
  using sint_lt [of "word_of_int i :: 32 word"] sint_ge [of "word_of_int i :: 32 word"]
  by (simp add: wrap32_def is_i32_def)

lemma layout_cols_ok:
  "is_i32 off \<Longrightarrow> word_ok t \<Longrightarrow> list_all (\<lambda>c. word_ok (cd_name c) \<and> is_i32 (cd_len c)) defs \<Longrightarrow>
   list_all col_ok (fst (layout_cols t off defs)) \<and> length (fst (layout_cols t off defs)) = length defs"
  by (induction t off defs rule: layout_cols.induct) (auto simp: Let_def col_ok_def)

lemma with_table_ok:
  assumes db: "db_ok db"
    and g: "\<And>k m. (k, m) \<in> set (tabs db) \<Longrightarrow> k = t \<Longrightarrow> tab_ok m \<Longrightarrow> tab_ok (g m) \<and> tm_name (g m) = tm_name m"
  shows "db_ok (with_table t g db)"
proof -
  have "map fst (tabs (with_table t g db)) = map fst (tabs db)" by (auto simp: with_table_def)
  moreover have "list_all (\<lambda>(k, m). k = tm_name m \<and> tab_ok m) (tabs (with_table t g db))"
    unfolding list_all_iff
  proof
    fix e assume "e \<in> set (tabs (with_table t g db))"
    then obtain k m where e: "(k, m) \<in> set (tabs db)" "e = (if k = t then (k, g m) else (k, m))"
      by (auto simp: with_table_def)
    have "tab_ok m \<and> tm_name m = k" using db e(1) by (auto simp: db_ok_def list_all_iff)
    then show "case e of (k, m) \<Rightarrow> k = tm_name m \<and> tab_ok m" using g [OF e(1)] e(2) by auto
  qed
  moreover have "db_name (with_table t g db) = db_name db" "length (tabs (with_table t g db)) = length (tabs db)"
    by (simp_all add: with_table_def)
  ultimately show ?thesis using db unfolding db_ok_def by simp
qed

lemma mark_col_ok: "list_all col_ok cs \<Longrightarrow> list_all col_ok (mark_col n cs) \<and> length (mark_col n cs) = length cs"
  by (induction cs) (auto simp: col_ok_def)

lemma mark_cols_ok:
  "list_all col_ok cs \<Longrightarrow> list_all col_ok (foldl (\<lambda>cs c. mark_col (cm_name c) cs) cs ns) \<and>
   length (foldl (\<lambda>cs c. mark_col (cm_name c) cs) cs ns) = length cs"
  by (induction ns arbitrary: cs) (auto simp: mark_col_ok)

lemma find_cols_ok:
  "find_cols tab names = Inr cols \<Longrightarrow> list_all col_ok (tm_cols tab) \<Longrightarrow> list_all col_ok cols \<and> length cols = length names"
proof (induction names arbitrary: cols)
  case (Cons n ns)
  then show ?case
    by (auto simp: tab_get_col_def list_all_iff find_Some_iff split: sum.splits option.splits) 
qed simp

lemma foldl_wrap_i32: "is_i32 a \<Longrightarrow> is_i32 (foldl (\<lambda>a c. wrap32 (a + cm_len c)) a cols)"
  by (induction cols arbitrary: a) auto

lemma get_table_in: "get_table db t = Inr tab \<Longrightarrow> (t, tab) \<in> set (tabs db)"
  by (auto simp: get_table_def split: option.splits dest: map_of_SomeD)

lemma db_tab_ok: "db_ok db \<Longrightarrow> (k, m) \<in> set (tabs db) \<Longrightarrow> tab_ok m \<and> tm_name m = k"
  by (auto simp: db_ok_def list_all_iff)

lemma tab_unique: "db_ok db \<Longrightarrow> (k, m) \<in> set (tabs db) \<Longrightarrow> (k, m') \<in> set (tabs db) \<Longrightarrow> m = m'"
  unfolding db_ok_def by (metis eq_key_imp_eq_value strict_sorted_iff)

lemma drop_step_ok: "tab_ok m \<Longrightarrow> tab_ok (reset_index_flags (m\<lparr>indexes := remove_nth i (indexes m)\<rparr>)) \<and>
    tm_name (reset_index_flags (m\<lparr>indexes := remove_nth i (indexes m)\<rparr>)) = tm_name m"
  by (auto simp: tab_ok_def reset_index_flags_def remove_nth_def list_all_iff col_ok_def dest: in_set_takeD in_set_dropD)

lemma drop_index_ok: "db_ok (sm_db s) \<Longrightarrow> drop_index R t names s = Ret () s' \<Longrightarrow> db_ok (sm_db s')"
  using drop_index_Ret(1) [of R t names s s'] with_table_ok [OF _ drop_step_ok] by fastforce

lemma drop_indexes_ok: "db_ok (sm_db s) \<Longrightarrow> drop_indexes k R t s = Ret () s' \<Longrightarrow> db_ok (sm_db s')"
proof (induction k arbitrary: s)
  case (Suc k)
  then show ?case by (auto simp: bindE_eq_Ret lift_sm_def split: if_splits dest: drop_index_ok)
qed simp

lemma create_table_ok:
  assumes db: "db_ok (sm_db s)" and ok: "ddl_ok (CreateTable t defs)" and room: "has_room (sm_db s)"
    and r: "create_table t defs s = Ret () s'"
  shows "db_ok (sm_db s')"
proof -
  let ?tab = "\<lparr>tm_name = t, tm_cols = fst (layout_cols t 0 defs), indexes = []\<rparr>"
  have tab: "tab_ok ?tab"
    using layout_cols_ok [of 0 t defs] ok by (simp add: tab_ok_def is_i32_def)
  have "list_all (\<lambda>(k, m). k = tm_name m \<and> tab_ok m) (map_put t ?tab (tabs (sm_db s)))"
    using db tab map_put_set [of t ?tab "tabs (sm_db s)"] by (auto simp: db_ok_def list_all_iff)
  then show ?thesis
    using create_table_Ret(2) [OF r] db room map_put_sorted [of "tabs (sm_db s)" t ?tab]
      length_map_put [of t ?tab "tabs (sm_db s)"]
    by (auto simp: db_ok_def has_room_def)
qed

lemma create_index_ok:
  assumes db: "db_ok (sm_db s)" and ok: "ddl_ok (CreateIndex t names)" and room: "has_room (sm_db s)"
    and r: "sm_create_index R t names s = Ret () s'"
  shows "db_ok (sm_db s')"
proof -
  obtain tab cols where g: "get_table (sm_db s) t = Inr tab" "find_cols tab names = Inr cols"
    and s': "sm_db s' = with_table t (\<lambda>m. mark_indexed cols (m\<lparr>indexes := indexes m @ [\<lparr>im_tab_name = t,
        col_tot_len = foldl (\<lambda>a c. wrap32 (a + cm_len c)) 0 cols, col_num = int (length cols), im_cols = cols\<rparr>]\<rparr>)) (sm_db s)"
    using create_index_Ret(1) [OF r] by blast
  have "tab_ok tab" using db_tab_ok [OF db get_table_in [OF g(1)]] by simp
  then have cols: "list_all col_ok cols" "length cols = length names"
    using find_cols_ok [OF g(2)] by (simp_all add: tab_ok_def)
  have "index_ok \<lparr>im_tab_name = t, col_tot_len = foldl (\<lambda>a c. wrap32 (a + cm_len c)) 0 cols,
      col_num = int (length cols), im_cols = cols\<rparr>"
    using cols ok foldl_wrap_i32 [of 0 cols] by (simp add: index_ok_def is_i32_def)
  then show ?thesis
    unfolding s' using room mark_cols_ok
    by (intro with_table_ok [OF db]) (auto simp: tab_ok_def mark_indexed_def has_room_def list_all_iff)
qed

lemma drop_table_Ret:
  assumes "db_ok (sm_db s)" and "drop_table R t s = Ret () s'"
  shows "db_ok (sm_db s') \<and> (\<exists>s0. s' = flush_meta s0) \<and> \<not> is_table (sm_db s') t"
proof -
  obtain k u s2 fd h u3 s3 u4 s4 where s2: "drop_indexes k R t s = Ret u s2"
    and s3: "on_pool (\<lambda>p. rm_close_file R \<lparr>rm_fd = fd, rm_hdr = h, rm_pool = p\<rparr>) s2 = Ret u3 s3"
    and s4: "on_pool (rm_destroy_file t) (s3\<lparr>fhs := AList.delete t (fhs s3)\<rparr>) = Ret u4 s4"
    and s': "s' = flush_meta (s4\<lparr>sm_db := (sm_db s4)\<lparr>tabs := AList.delete t (tabs (sm_db s4))\<rparr>\<rparr>)"
    using assms(2) by (auto simp: drop_table_def bindE_eq_Ret lift_sm_def split: if_splits option.splits)
  have db: "db_ok (sm_db s4)"
    using drop_indexes_ok [OF assms(1)] s2 on_Ret(1) [OF s3] on_Ret(1) [OF s4] by (cases u) auto
  have "length (AList.delete t (tabs (sm_db s4))) \<le> length (tabs (sm_db s4))" by (rule length_delete_le)
  moreover have "set (AList.delete t (tabs (sm_db s4))) \<subseteq> set (tabs (sm_db s4))" by (auto simp: AList.delete_eq)
  ultimately have "db_ok ((sm_db s4)\<lparr>tabs := AList.delete t (tabs (sm_db s4))\<rparr>)"
    using db delete_sorted [of "tabs (sm_db s4)" t] by (auto simp: db_ok_def list_all_iff)
  then show ?thesis using s' by (auto simp: is_table_def)
qed


definition tiny_sm :: "lru sm" where
  "tiny_sm = \<lparr>sm_db = tiny_db, fhs = [], ihs = [],
     sm_pool = lru_pool 1 (DiskManager [''t_id.idx'' \<mapsto> []] [] []), dirs = Map.empty, cwd = None\<rparr>"


section \<open>The columns of a record\<close>

text \<open>Columns one after the other from offset \<open>off\<close> on, ending at \<open>stop\<close>.\<close>

fun contiguous :: "int \<Rightarrow> col_meta list \<Rightarrow> int \<Rightarrow> bool" where
  "contiguous off [] stop \<longleftrightarrow> off = stop"
| "contiguous off (c # cs) stop \<longleftrightarrow> cm_offset c = off \<and> contiguous (off + cm_len c) cs stop"

lemma layout_cols_contiguous:
  assumes "list_all (\<lambda>c. 0 < cd_len c) defs" and "0 \<le> off" and "off + sum_list (map cd_len defs) < 2 ^ 31"
  shows "contiguous off (fst (layout_cols t off defs)) (off + sum_list (map cd_len defs)) \<and>
    snd (layout_cols t off defs) = off + sum_list (map cd_len defs)"
  using assms
proof (induction t off defs rule: layout_cols.induct)
  case (2 t off c cs)
  have "0 \<le> sum_list (map cd_len cs)" using 2(2) by (intro sum_list_nonneg) (auto simp: list_all_iff)
  then have w: "wrap32 (off + cd_len c) = off + cd_len c" using 2(2-4) by (intro wrap32_id) (simp add: is_i32_def)
  show ?case using 2 w by (simp add: Let_def algebra_simps)
qed simp


lemma fst_Ret: "fst r = Inr () \<Longrightarrow> \<exists>s'. r = Ret () s'"
  by (cases r) simp

definition empty_sm :: "lru sm" where
  "empty_sm = \<lparr>sm_db = \<lparr>db_name = ''d'', tabs = []\<rparr>, fhs = [], ihs = [],
     sm_pool = lru_pool 1 (DiskManager Map.empty [] []), dirs = Map.empty, cwd = None\<rparr>"

definition two_cols :: "col_def list" where
  "two_cols = [\<lparr>cd_name = ''id'', cd_type = TYPE_INT, cd_len = 4\<rparr>, \<lparr>cd_name = ''name'', cd_type = TYPE_STRING, cd_len = 8\<rparr>]"

lemma two_cols_created: "fst (create_table ''t'' two_cols empty_sm) = Inr ()"
proof -
  let ?hdr = "enc_file_hdr (new_file_hdr 12)"
  have "length ?hdr = 20" by (simp add: enc_file_hdr_def)
  then have h: "?hdr \<noteq> []" by (metis list.size(3) zero_neq_numeral)
  have l: "snd (layout_cols ''t'' 0 two_cols) = 12" by (simp add: two_cols_def Let_def is_i32_def)
  have fd: "lowest_fd d = 3" if "kfd d = []" for d using that by (simp add: lowest_fd_def)
  have "\<exists>d2. on_pool (rm_create_file ''t'' 12) empty_sm = Ret () (empty_sm\<lparr>sm_pool := (sm_pool empty_sm)\<lparr>disk_st := d2\<rparr>\<rparr>) \<and>
      kfd d2 = [] \<and> io d2 = [] \<and> fs d2 ''t'' = Some (file_put [] 0 ?hdr) \<and> path2fd d2 ''t'' = None"
    using h
    by (simp add: on_pool_def rm_create_file_def RM_MAX_RECORD_SIZE_def empty_sm_def on_disk_def lru_pool_def
        BufferPoolManager_def DiskManager_def create_file_def sys_ok_def open_file_def fd MAX_FD_def Let_def
        write_page_def fd_file_def RM_FILE_HDR_PAGE_def close_file_def set_fd_file_def SIZEOF_RmFileHdr_def)
  then obtain d2 where d2: "on_pool (rm_create_file ''t'' 12) empty_sm = Ret () (empty_sm\<lparr>sm_pool := (sm_pool empty_sm)\<lparr>disk_st := d2\<rparr>\<rparr>)"
    "kfd d2 = []" "io d2 = []" "fs d2 ''t'' = Some (file_put [] 0 ?hdr)" "path2fd d2 ''t'' = None" by blast
  have op: "fst (open_table ''t'' (s\<lparr>sm_pool := p\<lparr>disk_st := d2\<rparr>, sm_db := m\<rparr>)) = Inr ()" for s :: "lru sm" and p m
    using d2
    by (simp add: open_table_def rm_open_file_def on_disk_def open_file_def sys_ok_def fd MAX_FD_def Let_def
        RmFileHandle_def read_page_def fd_file_def RM_FILE_HDR_PAGE_def SIZEOF_RmFileHdr_def zeros_def)
  have nt: "\<not> is_table (sm_db empty_sm) ''t''" by (simp add: is_table_def empty_sm_def)
  let ?tab = "\<lparr>tm_name = ''t'', tm_cols = fst (layout_cols ''t'' 0 two_cols), indexes = []\<rparr>"
  obtain s2 where "open_table ''t'' (empty_sm\<lparr>sm_pool := (sm_pool empty_sm)\<lparr>disk_st := d2\<rparr>,
      sm_db := (sm_db empty_sm)\<lparr>tabs := map_put ''t'' ?tab (tabs (sm_db empty_sm))\<rparr>\<rparr>) = Ret () s2"
    using fst_Ret [OF op] by blast
  then show ?thesis using d2(1) nt by (simp add: create_table_def l Let_def)
qed


end
