(* ===== verification/Transactions.thy ===== *)
theory Transactions
  imports Sm_Manager Lock_Manager Log_Manager
begin

text \<open>
  The transaction manager, \<^verbatim>\<open>transaction/transaction_manager.cpp\<close> and \<^verbatim>\<open>.h\<close>. The state of the whole
  system extends that of the system manager with the log manager, the lock table, and the table of
  transactions, which holds the transaction objects themselves. A transaction pointer is the number of
  its transaction, \<open>None\<close> the null pointer; \<open>logged\<close> says whether a log manager was passed.
\<close>

record 'r sys = "'r sm" +
  sy_log :: log_mgr
  sy_locks :: lock_table
  txn_map :: "int \<rightharpoonup> transaction"
  next_txn_id :: int
  next_timestamp :: int

section \<open>Parts of the system\<close>

definition on_log :: "(log_st \<Rightarrow> ('a, log_st) res) \<Rightarrow> 'r sys \<Rightarrow> ('a, 'r sys) res" where
  "on_log m s =
     (case m (sy_log s, disk_st (sm_pool s)) of
        (r, (lm, d)) \<Rightarrow> (r, s\<lparr>sy_log := lm, sm_pool := (sm_pool s)\<lparr>disk_st := d\<rparr>\<rparr>))"

definition txn_update :: "int \<Rightarrow> (transaction \<Rightarrow> transaction) \<Rightarrow> 'r sys \<Rightarrow> 'r sys" where
  "txn_update t g s = (case txn_map s t of None \<Rightarrow> s | Some x \<Rightarrow> s\<lparr>txn_map := (txn_map s)(t \<mapsto> g x)\<rparr>)"

text \<open>A call of the lock manager with the transaction.\<close>

definition on_locks :: "int option \<Rightarrow> (lock_st \<Rightarrow> ('a, lock_st) res) \<Rightarrow> 'r sys \<Rightarrow> ('a, 'r sys) res" where
  "on_locks t m s =
     (case m (Option.bind t (txn_map s), sy_locks s) of
        (r, (x, tab)) \<Rightarrow>
          (r, (case (t, x) of
                 (Some t', Some x') \<Rightarrow> s\<lparr>sy_locks := tab, txn_map := (txn_map s)(t' \<mapsto> x')\<rparr>
               | _ \<Rightarrow> s\<lparr>sy_locks := tab\<rparr>)))"

text \<open>Writing a log record for a transaction: it is linked to the previous one and becomes the last.\<close>

definition log_for :: "int \<Rightarrow> log_record \<Rightarrow> 'r sys \<Rightarrow> (unit, 'r sys) res" where
  "log_for t r s =
     (case txn_map s t of
        None \<Rightarrow> Throw NullDereference s
      | Some x \<Rightarrow>
          seqE (on_log (add_log_to_buffer (r\<lparr>log_prev_lsn := prev_lsn x\<rparr>)) s)
            (\<lambda>l s1. Ret () (txn_update t (\<lambda>x. x\<lparr>prev_lsn := l\<rparr>) s1)))"

definition append_write :: "int \<Rightarrow> write_record \<Rightarrow> 'r sys \<Rightarrow> 'r sys" where
  "append_write t w s = txn_update t (\<lambda>x. x\<lparr>write_set := write_set x @ [w]\<rparr>) s"

section \<open>Begin, commit, abort\<close>

definition txn_begin :: "nat \<Rightarrow> int option \<Rightarrow> bool \<Rightarrow> 'r sys \<Rightarrow> (int, 'r sys) res" where
  "txn_begin thr txn logged s =
     (let (t, x, s1) = (case Option.bind txn (txn_map s) of
            None \<Rightarrow> (next_txn_id s, Transaction thr (next_txn_id s), s\<lparr>next_txn_id := wrap32 (next_txn_id s + 1)\<rparr>)
          | Some x \<Rightarrow> (txn_id x, x, s));
          x1 = x\<lparr>start_ts := next_timestamp s1, txn_state := GROWING\<rparr>;
          s2 = s1\<lparr>next_timestamp := wrap32 (next_timestamp s1 + 1), txn_map := (txn_map s1)(t \<mapsto> x1)\<rparr>
      in if logged then seqE (log_for t (BeginLogRecord t) s2) (\<lambda>_ s3. Ret t s3) else Ret t s2)"

text \<open>The loop that deletes the write records from the back.\<close>

definition clear_write_set :: "int \<Rightarrow> 'r sys \<Rightarrow> 'r sys" where
  "clear_write_set t s = txn_update t (\<lambda>x. x\<lparr>write_set := []\<rparr>) s"

text \<open>Commit and abort release the locks the transaction holds at that moment.\<close>

definition unlock_all :: "int \<Rightarrow> 'r sys \<Rightarrow> 'r sys" where
  "unlock_all t s =
     (case txn_map s t of
        None \<Rightarrow> s
      | Some x \<Rightarrow> snd (on_locks (Some t) (\<lambda>st. Ret () (release_locks (lock_set x) st)) s))"

definition txn_commit :: "int option \<Rightarrow> bool \<Rightarrow> 'r sys \<Rightarrow> (unit, 'r sys) res" where
  "txn_commit txn logged s =
     (case txn of
        None \<Rightarrow> Ret () s
      | Some t \<Rightarrow>
          seqE (if logged then log_for t (CommitLogRecord t) s else Ret () s)
            (\<lambda>_ s1. Ret () (txn_update t (\<lambda>x. x\<lparr>txn_state := COMMITTED\<rparr>) (unlock_all t (clear_write_set t s1)))))"

definition make_index_key :: "bytes \<Rightarrow> index_meta \<Rightarrow> bytes" where
  "make_index_key record ix = record_key (col_tot_len ix) (im_cols ix) record"

text \<open>The loops over the indexes of a table when a write is taken back.\<close>

fun drop_keys :: "'r replacer_ops \<Rightarrow> string \<Rightarrow> bytes \<Rightarrow> index_meta list \<Rightarrow> ('r, 'z) sm_scheme \<Rightarrow> (unit, ('r, 'z) sm_scheme) res" where
  "drop_keys R t record [] s = Ret () s"
| "drop_keys R t record (ix # ixs) s =
     seqE (on_index (index_name_of t ix) (delete_entry R (make_index_key record ix)) s)
       (\<lambda>_ s1. drop_keys R t record ixs s1)"

fun add_keys :: "'r replacer_ops \<Rightarrow> string \<Rightarrow> bytes \<Rightarrow> rid \<Rightarrow> index_meta list \<Rightarrow> ('r, 'z) sm_scheme \<Rightarrow> (unit, ('r, 'z) sm_scheme) res" where
  "add_keys R t record r [] s = Ret () s"
| "add_keys R t record r (ix # ixs) s =
     seqE (on_index (index_name_of t ix) (insert_entry R (make_index_key record ix) r) s)
       (\<lambda>_ s1. add_keys R t record r ixs s1)"

fun swap_keys :: "'r replacer_ops \<Rightarrow> string \<Rightarrow> bytes \<Rightarrow> bytes \<Rightarrow> rid \<Rightarrow> index_meta list \<Rightarrow> ('r, 'z) sm_scheme \<Rightarrow>
  (unit, ('r, 'z) sm_scheme) res" where
  "swap_keys R t cur old r [] s = Ret () s"
| "swap_keys R t cur old r (ix # ixs) s =
     (let k = make_index_key cur ix; k' = make_index_key old ix in
      seqE (if memcmp k k' \<noteq> 0
            then seqE (on_index (index_name_of t ix) (delete_entry R k) s)
                   (\<lambda>_ s1. seqE (on_index (index_name_of t ix) (insert_entry R k' r) s1) (\<lambda>_ s2. Ret () s2))
            else Ret () s)
        (\<lambda>_ s3. swap_keys R t cur old r ixs s3))"

definition undo_write :: "'r replacer_ops \<Rightarrow> write_record \<Rightarrow> ('r, 'z) sm_scheme \<Rightarrow> (unit, ('r, 'z) sm_scheme) res" where
  "undo_write R w s =
     (let t = wr_tab_name w; r = wr_rid w in
      seqE (lift_sm (get_table (sm_db s) t) s)
        (\<lambda>tab s1.
           if map_of (fhs s1) t = None then Throw OutOfRange s1
           else case wtype w of
             INSERT_TUPLE \<Rightarrow>
               seqE (on_table t (get_record R r) s1)
                 (\<lambda>record s2. seqE (drop_keys R t record (indexes tab) s2)
                    (\<lambda>_ s3. on_table t (delete_record R r) s3))
           | DELETE_TUPLE \<Rightarrow>
               seqE (on_table t (insert_record_at R r (wr_record w)) s1)
                 (\<lambda>_ s2. add_keys R t (wr_record w) r (indexes tab) s2)
           | UPDATE_TUPLE \<Rightarrow>
               seqE (on_table t (get_record R r) s1)
                 (\<lambda>cur s2. seqE (swap_keys R t cur (wr_record w) r (indexes tab) s2)
                    (\<lambda>_ s3. on_table t (update_record R r (wr_record w)) s3))))"

text \<open>The writes are taken back from the last to the first; each leaves the write set before its turn.\<close>

primrec undo_writes :: "nat \<Rightarrow> 'r replacer_ops \<Rightarrow> int \<Rightarrow> 'r sys \<Rightarrow> (unit, 'r sys) res" where
  "undo_writes 0 R t s = Ret () s"
| "undo_writes (Suc k) R t s =
     (case txn_map s t of
        None \<Rightarrow> Ret () s
      | Some x \<Rightarrow>
          if write_set x = [] then Ret () s
          else seqE (undo_write R (last (write_set x)) (txn_update t (\<lambda>x. x\<lparr>write_set := butlast (write_set x)\<rparr>) s))
                 (\<lambda>_ s1. undo_writes k R t s1))"

definition txn_abort :: "'r replacer_ops \<Rightarrow> int option \<Rightarrow> bool \<Rightarrow> 'r sys \<Rightarrow> (unit, 'r sys) res" where
  "txn_abort R txn logged s =
     (case txn of
        None \<Rightarrow> Ret () s
      | Some t \<Rightarrow>
          (case txn_map s t of
             None \<Rightarrow> Throw NullDereference s
           | Some x \<Rightarrow>
               seqE (undo_writes (length (write_set x)) R t (txn_update t (\<lambda>x. x\<lparr>txn_state := ABORTED\<rparr>) s))
                 (\<lambda>_ s1. let s2 = unlock_all t s1 in
                    if logged then log_for t (AbortLogRecord t) s2 else Ret () s2)))"

text \<open>\<^verbatim>\<open>get_transaction\<close> asserts that the transaction is there and belongs to the calling thread.\<close>

definition get_transaction :: "nat \<Rightarrow> int \<Rightarrow> 'r sys \<Rightarrow> rmdb_error + int option" where
  "get_transaction thr t s =
     (if t = INVALID_TXN_ID then Inr None
      else case txn_map s t of
             None \<Rightarrow> Inl AssertionFailure
           | Some x \<Rightarrow> if thread_id x = thr then Inr (Some t) else Inl AssertionFailure)"

end
