(* ===== verification/Recovery.thy ===== *)
theory Recovery
  imports Transactions
begin

text \<open>
  Recovery after a crash: the redo and undo passes and the rebuilding of indexes of
  \<^verbatim>\<open>RecoveryManager\<close> in \<^verbatim>\<open>recovery/log_recovery.cpp\<close>. The analysis pass is in the theory of the log
  manager. Records with a table that is not in the catalogue are skipped.
\<close>

definition has_record :: "'r replacer_ops \<Rightarrow> rid \<Rightarrow> 'r rm_file \<Rightarrow> (bool, 'r rm_file) res" where
  "has_record R r f =
     (if page_no r < RM_FIRST_RECORD_PAGE \<or> page_no r \<ge> num_pages (rm_hdr f) then Ret False f
      else is_record R r f)"

text \<open>The three cases of redo and of undo on one file: insert unless there, delete if there, overwrite if there.\<close>

definition ensure_record :: "'r replacer_ops \<Rightarrow> rid \<Rightarrow> bytes \<Rightarrow> 'r rm_file \<Rightarrow> (unit, 'r rm_file) res" where
  "ensure_record R r v f = seqE (has_record R r f) (\<lambda>b f1. if \<not> b then insert_record_at R r v f1 else Ret () f1)"

definition ensure_no_record :: "'r replacer_ops \<Rightarrow> rid \<Rightarrow> 'r rm_file \<Rightarrow> (unit, 'r rm_file) res" where
  "ensure_no_record R r f = seqE (has_record R r f) (\<lambda>b f1. if b then delete_record R r f1 else Ret () f1)"

definition overwrite_record :: "'r replacer_ops \<Rightarrow> rid \<Rightarrow> bytes \<Rightarrow> 'r rm_file \<Rightarrow> (unit, 'r rm_file) res" where
  "overwrite_record R r v f = seqE (has_record R r f) (\<lambda>b f1. if b then update_record R r v f1 else Ret () f1)"

fun body_table :: "log_body \<Rightarrow> string" where
  "body_table (InsertBody v r t) = t"
| "body_table (DeleteBody v r t) = t"
| "body_table (UpdateBody old new r t) = t"
| "body_table _ = []"

fun redo_body :: "'r replacer_ops \<Rightarrow> log_body \<Rightarrow> 'r rm_file \<Rightarrow> (unit, 'r rm_file) res" where
  "redo_body R (InsertBody v r t) f = ensure_record R r v f"
| "redo_body R (DeleteBody v r t) f = ensure_no_record R r f"
| "redo_body R (UpdateBody old new r t) f = overwrite_record R r new f"
| "redo_body R _ f = Ret () f"

fun undo_body :: "'r replacer_ops \<Rightarrow> log_body \<Rightarrow> 'r rm_file \<Rightarrow> (unit, 'r rm_file) res" where
  "undo_body R (InsertBody v r t) f = ensure_no_record R r f"
| "undo_body R (DeleteBody v r t) f = ensure_record R r v f"
| "undo_body R (UpdateBody old new r t) f = overwrite_record R r old f"
| "undo_body R _ f = Ret () f"

definition is_change :: "log_record \<Rightarrow> bool" where
  "is_change l \<longleftrightarrow> log_type_of l = LOG_INSERT \<or> log_type_of l = LOG_DELETE \<or> log_type_of l = LOG_UPDATE"

definition redo_skips :: "recovery \<Rightarrow> log_record \<Rightarrow> bool" where
  "redo_skips rc l \<longleftrightarrow> log_tid l \<in> aborted_txns rc \<or> \<not> is_change l"

definition undo_skips :: "recovery \<Rightarrow> log_record \<Rightarrow> bool" where
  "undo_skips rc l \<longleftrightarrow> log_tid l \<in> committed_txns rc \<or> log_tid l \<in> aborted_txns rc \<or> \<not> is_change l"

fun redo_loop :: "'r replacer_ops \<Rightarrow> recovery \<Rightarrow> log_record list \<Rightarrow> ('r, 'z) sm_scheme \<Rightarrow> (unit, ('r, 'z) sm_scheme) res" where
  "redo_loop R rc [] s = Ret () s"
| "redo_loop R rc (l # ls) s =
     (if redo_skips rc l \<or> \<not> is_table (sm_db s) (body_table (body l)) then redo_loop R rc ls s
      else seqE (on_table (body_table (body l)) (redo_body R (body l)) s) (\<lambda>_ s1. redo_loop R rc ls s1))"

definition redo :: "'r replacer_ops \<Rightarrow> recovery \<Rightarrow> ('r, 'z) sm_scheme \<Rightarrow> (unit, ('r, 'z) sm_scheme) res" where
  "redo R rc s = redo_loop R rc (rec_logs rc) s"

fun undo_loop :: "'r replacer_ops \<Rightarrow> recovery \<Rightarrow> log_record list \<Rightarrow> ('r, 'z) sm_scheme \<Rightarrow> (unit, ('r, 'z) sm_scheme) res" where
  "undo_loop R rc [] s = Ret () s"
| "undo_loop R rc (l # ls) s =
     (if undo_skips rc l \<or> \<not> is_table (sm_db s) (body_table (body l)) then undo_loop R rc ls s
      else seqE (on_table (body_table (body l)) (undo_body R (body l)) s) (\<lambda>_ s1. undo_loop R rc ls s1))"

text \<open>
  One index of one table: its file is made anew and filled from the table without looking for
  duplicates, then closed and opened again.
\<close>

definition rebuild_index :: "'r replacer_ops \<Rightarrow> string \<Rightarrow> index_meta \<Rightarrow> ('r, 'z) sm_scheme \<Rightarrow> (unit, ('r, 'z) sm_scheme) res" where
  "rebuild_index R t ix s =
     (let nm = index_name_of t ix; names = map cm_name (im_cols ix) in
      seqE (case map_of (ihs s) nm of
              None \<Rightarrow> Ret () s
            | Some (fd, h) \<Rightarrow>
                seqE (on_pool (\<lambda>p. close_index R \<lparr>ix_fd = fd, ix_hdr = h, ix_pool = p\<rparr>) s)
                  (\<lambda>_ s1. Ret () (s1\<lparr>ihs := AList.delete nm (ihs s1)\<rparr>)))
        (\<lambda>_ s2. seqE (if ix_exists t names (sm_pool s2) then on_pool (destroy_index t names) s2 else Ret () s2)
           (\<lambda>_ s3. seqE (on_pool (create_index t (im_cols ix)) s3)
              (\<lambda>_ s4. seqE (on_pool (open_index t names) s4)
                 (\<lambda>f s5. let s6 = s5\<lparr>ihs := AList.update nm (ix_fd f, ix_hdr f) (ihs s5)\<rparr> in
                    case seqE (beside (on_table t (RmScan R)) ((ix_fd f, ix_hdr f), s6))
                           (\<lambda>r st. fill_index (scan_fuel t (snd st)) R False t names (col_tot_len ix) (im_cols ix) r st) of
                      (Inl e, (ih, s7)) \<Rightarrow> Throw e (s7\<lparr>ihs := AList.update nm ih (ihs s7)\<rparr>)
                    | (Inr _, (ih, s7)) \<Rightarrow>
                        seqE (on_pool (\<lambda>p. close_index R \<lparr>ix_fd = fst ih, ix_hdr = snd ih, ix_pool = p\<rparr>) s7)
                          (\<lambda>_ s8. seqE (on_pool (open_index t names) (s8\<lparr>ihs := AList.delete nm (ihs s8)\<rparr>))
                             (\<lambda>g s9. Ret () (s9\<lparr>ihs := AList.update nm (ix_fd g, ix_hdr g) (ihs s9)\<rparr>))))))))"

fun rebuild_table_indexes :: "'r replacer_ops \<Rightarrow> string \<Rightarrow> index_meta list \<Rightarrow> ('r, 'z) sm_scheme \<Rightarrow>
  (unit, ('r, 'z) sm_scheme) res" where
  "rebuild_table_indexes R t [] s = Ret () s"
| "rebuild_table_indexes R t (ix # ixs) s =
     seqE (rebuild_index R t ix s) (\<lambda>_ s1. rebuild_table_indexes R t ixs s1)"

fun rebuild_indexes_loop :: "'r replacer_ops \<Rightarrow> string list \<Rightarrow> ('r, 'z) sm_scheme \<Rightarrow> (unit, ('r, 'z) sm_scheme) res" where
  "rebuild_indexes_loop R [] s = Ret () s"
| "rebuild_indexes_loop R (t # ts) s =
     seqE (lift_sm (get_table (sm_db s) t) s)
       (\<lambda>tab s1. seqE (rebuild_table_indexes R t (indexes tab) s1) (\<lambda>_ s2. rebuild_indexes_loop R ts s2))"

definition rebuild_indexes :: "'r replacer_ops \<Rightarrow> ('r, 'z) sm_scheme \<Rightarrow> (unit, ('r, 'z) sm_scheme) res" where
  "rebuild_indexes R s = rebuild_indexes_loop R (map fst (fhs s)) s"

text \<open>The last loop of undo: free lists are rebuilt, and every table file is written out.\<close>

definition settle_table :: "'r replacer_ops \<Rightarrow> 'r rm_file \<Rightarrow> (unit, 'r rm_file) res" where
  "settle_table R f =
     seqE (rebuild_free_page_list R f)
       (\<lambda>_ f1.
          case flush_all_pages (rm_fd f1) (rm_pool f1) of
            (Inl e, p) \<Rightarrow> Throw e (f1\<lparr>rm_pool := p\<rparr>)
          | (Inr _, p) \<Rightarrow>
              (case on_disk (write_page (rm_fd f1) RM_FILE_HDR_PAGE (enc_file_hdr (rm_hdr f1))) p of
                 (r, p1) \<Rightarrow> (r, f1\<lparr>rm_pool := p1\<rparr>)))"

fun settle_tables :: "'r replacer_ops \<Rightarrow> string list \<Rightarrow> ('r, 'z) sm_scheme \<Rightarrow> (unit, ('r, 'z) sm_scheme) res" where
  "settle_tables R [] s = Ret () s"
| "settle_tables R (t # ts) s = seqE (on_table t (settle_table R) s) (\<lambda>_ s1. settle_tables R ts s1)"

definition undo :: "'r replacer_ops \<Rightarrow> recovery \<Rightarrow> ('r, 'z) sm_scheme \<Rightarrow> (unit, ('r, 'z) sm_scheme) res" where
  "undo R rc s =
     seqE (undo_loop R rc (rev (rec_logs rc)) s)
       (\<lambda>_ s1. seqE (rebuild_indexes R s1)
          (\<lambda>_ s2. seqE (settle_tables R (map fst (fhs s2)) s2)
             (\<lambda>_ s3. on_pool (on_disk reset_log) s3)))"

end
