(* ===== verification/Database.thy ===== *)
theory Database
  imports Sm_Manager Record_File_Table
begin

text \<open>
  A database as its users see it: every open table is a map from record numbers to records, and an
  operation on one table leaves the others alone, although all share one buffer pool. This is the
  interface between the record files and everything above them: executors, transactions, recovery.
\<close>

section \<open>The order of record numbers\<close>

instantiation rid :: linorder
begin

definition less_rid :: "rid \<Rightarrow> rid \<Rightarrow> bool" where
  "less_rid a b = after a b"

definition less_eq_rid :: "rid \<Rightarrow> rid \<Rightarrow> bool" where
  "less_eq_rid a b \<longleftrightarrow> a = b \<or> after a b"

instance
  by standard (auto simp: less_rid_def less_eq_rid_def dest: after_trans after_total)

end

text \<open>The records of a table in the order a scan visits them.\<close>

definition table_rids :: "(rid \<rightharpoonup> bytes) \<Rightarrow> rid list" where
  "table_rids m = sorted_list_of_set (dom m)"

definition table_rows :: "(rid \<rightharpoonup> bytes) \<Rightarrow> bytes list" where
  "table_rows m = map (\<lambda>r. the (m r)) (table_rids m)"

section \<open>Open tables\<close>

definition table_of :: "string \<Rightarrow> ('r, 'z) sm_scheme \<Rightarrow> 'r rm_file option" where
  "table_of t s = map_option (\<lambda>(fd, h). \<lparr>rm_fd = fd, rm_hdr = h, rm_pool = sm_pool s\<rparr>) (map_of (fhs s) t)"

definition rows :: "('r, 'z) sm_scheme \<Rightarrow> string \<Rightarrow> rid \<rightharpoonup> bytes" where
  "rows s t = (case table_of t s of None \<Rightarrow> Map.empty | Some f \<Rightarrow> records f)"

lemma table_of_None: "table_of t s = None \<longleftrightarrow> map_of (fhs s) t = None"
  by (simp add: table_of_def)

lemma rows_table [simp]: "table_of t s = Some f \<Longrightarrow> rows s t = records f"
  by (simp add: rows_def)

text \<open>The state after an operation of a handle: the handle and the pool have changed, nothing else.\<close>

definition put_table :: "string \<Rightarrow> 'r rm_file \<Rightarrow> ('r, 'z) sm_scheme \<Rightarrow> ('r, 'z) sm_scheme" where
  "put_table t f s = s\<lparr>fhs := AList.update t (rm_fd f, rm_hdr f) (fhs s), sm_pool := rm_pool f\<rparr>"

lemma on_table_put: "table_of t s = Some f \<Longrightarrow> on_table t m s = (case m f of (r, f') \<Rightarrow> (r, put_table t f' s))"
  by (auto simp: table_of_def on_table_def put_table_def split: option.splits prod.splits)

lemma put_table_sel [simp]:
  "sm_db (put_table t f s) = sm_db s" "ihs (put_table t f s) = ihs s" "sm_pool (put_table t f s) = rm_pool f"
  "dirs (put_table t f s) = dirs s" "cwd (put_table t f s) = cwd s" "sm.more (put_table t f s) = sm.more s"
  by (simp_all add: put_table_def)

lemma put_table_keys [simp]: "map_of (fhs s) t \<noteq> None \<Longrightarrow> map fst (fhs (put_table t f s)) = map fst (fhs s)"
  by (auto simp: put_table_def update_keys dest: map_of_SomeD intro: rev_image_eqI)

lemma table_of_put: "table_of t' (put_table t f s) =
    (if t' = t then Some f else map_option (\<lambda>g. g\<lparr>rm_pool := rm_pool f\<rparr>) (table_of t' s))"
  by (cases "map_of (fhs s) t'") (auto simp: table_of_def put_table_def update_conv' split: prod.splits)

context replacer begin

text \<open>Every open table is in order, and no two share a file.\<close>

definition db_ok :: "int set \<Rightarrow> ('r, 'z) sm_scheme \<Rightarrow> bool" where
  "db_ok F s \<longleftrightarrow> (\<forall>t f. table_of t s = Some f \<longrightarrow> table_pages F f) \<and>
     (\<forall>t t' f f'. table_of t s = Some f \<longrightarrow> table_of t' s = Some f' \<longrightarrow> rm_fd f = rm_fd f' \<longrightarrow> t = t')"

lemma db_okD: "db_ok F s \<Longrightarrow> table_of t s = Some f \<Longrightarrow> table_pages F f"
  by (simp add: db_ok_def)

text \<open>What a table is does not depend on the pages of other files.\<close>

lemma other_table:
  assumes "table_pages F g" and "table_pages F f'" and "others F f f'" and "rm_fd g \<noteq> rm_fd f" and "rm_pool g = rm_pool f"
  shows "table_pages F (g\<lparr>rm_pool := rm_pool f'\<rparr>)" and "records (g\<lparr>rm_pool := rm_pool f'\<rparr>) = records g"
    and "table_file F g \<Longrightarrow> table_file F (g\<lparr>rm_pool := rm_pool f'\<rparr>)"
proof -
  let ?g = "g\<lparr>rm_pool := rm_pool f'\<rparr>"
  note td = table_pagesD [OF assms(1)]
  have v: "file_page ?g no = file_page g no" if "0 \<le> no" for no
    using assms(3-5) td(2) that by (simp add: others_def file_page_def)
  then have v': "file_page ?g no = file_page g no" if "record_page (rm_hdr g) no" for no
    using record_page_nonneg [OF that] by simp
  have n: "fd2pageno (disk_st (rm_pool f')) (rm_fd g) = num_pages (rm_hdr g)"
    using assms(3-5) td(6) by (simp add: others_def)
  show tp: "table_pages F ?g"
    using td v' n table_pagesD(1) [OF assms(2)] by (simp add: table_pages_def)
  show "records ?g = records g" by (rule ext) (simp add: records_def v')
  assume "table_file F g"
  then have fc: "free_chain (rm_hdr g) (file_page g)" by (simp add: table_file_def)
  have "free_chain (rm_hdr ?g) (file_page ?g)"
    by (rule free_chain_same [OF fc]) (auto simp: free_pages_def v')
  with tp show "table_file F ?g" by (simp add: table_file_def)
qed

text \<open>
  Running an operation of one table: its outcome is that of the operation, and the other tables have
  the records and the headers they had.
\<close>

lemma on_table_ok:
  assumes "db_ok F s" and "table_of t s = Some f" and "m f = (r, f')" and "table_pages F f'" and "others F f f'"
  shows "on_table t m s = (r, put_table t f' s)" and "db_ok F (put_table t f' s)"
    and "rows (put_table t f' s) = (rows s)(t := records f')"
    and "t' \<noteq> t \<Longrightarrow> map_of (fhs (put_table t f' s)) t' = map_of (fhs s) t'"
proof -
  let ?s = "put_table t f' s"
  show "on_table t m s = (r, ?s)" using assms(2,3) by (simp add: on_table_put)
  show "map_of (fhs ?s) t' = map_of (fhs s) t'" if "t' \<noteq> t"
    using that by (simp add: put_table_def update_conv')
  have fd: "rm_fd f' = rm_fd f" using assms(5) by (simp add: others_def)
  have pool: "rm_pool g = sm_pool s" if "table_of t' s = Some g" for t' g
    using that by (auto simp: table_of_def)
  have oth: "table_pages F (g\<lparr>rm_pool := rm_pool f'\<rparr>) \<and> records (g\<lparr>rm_pool := rm_pool f'\<rparr>) = records g"
    if g: "table_of t' s = Some g" and n: "t' \<noteq> t" for t' g
  proof -
    have "rm_fd g \<noteq> rm_fd f" using assms(1,2) g n by (auto simp: db_ok_def)
    with other_table [OF db_okD [OF assms(1) g] assms(4,5)] pool [OF g] pool [OF assms(2)] show ?thesis by simp
  qed
  show "rows ?s = (rows s)(t := records f')"
  proof
    fix t'
    show "rows ?s t' = ((rows s)(t := records f')) t'"
      using oth [of t'] by (cases "table_of t' s") (auto simp: rows_def table_of_put)
  qed
  have tp: "table_pages F g" if "table_of t' ?s = Some g" for t' g
    using that oth [of t'] assms(4) by (auto simp: table_of_put split: if_splits)
  moreover have "t1 = t2" if "table_of t1 ?s = Some g1" "table_of t2 ?s = Some g2" "rm_fd g1 = rm_fd g2" for t1 t2 g1 g2
  proof -
    have old: "\<exists>g0. table_of t' s = Some g0 \<and> rm_fd g0 = rm_fd g" if "table_of t' ?s = Some g" for t' g
      using that assms(2) fd by (auto simp: table_of_put split: if_splits)
    from old [OF that(1)] old [OF that(2)] that(3) assms(1) show ?thesis by (auto simp: db_ok_def)
  qed
  ultimately show "db_ok F ?s" unfolding db_ok_def by blast
qed

end

end
