(* ===== verification/Executors.thy ===== *)
theory Executors
  imports Sm_Manager
begin

text \<open>
  The query executors, \<^verbatim>\<open>execution/executor_*.h\<close> and \<^verbatim>\<open>execution_sort.h\<close>. An executor object is a value
  of the datatype \<open>exec\<close>, one constructor per class, children first; its virtual functions are a record of
  operations on the object and the system state, which \<open>vtable\<close> puts together from those of the
  children. An object whose operation throws is destroyed by the unwinding, so its fields are not
  tracked beyond that point. Loops that run until a child ends take fuel \<open>k\<close>; \<open>srt\<close> is
  \<^verbatim>\<open>std::sort\<close>, which is free to order equivalent tuples as it likes.
\<close>

section \<open>Objects\<close>

datatype rec_scan = RmScanAt rid | IxScanAt iid iid

record scan_exec =
  sc_tab :: string
  sc_conds :: "condition list"
  sc_cols :: "col_meta list"
  sc_len :: int
  sc_rid :: rid
  sc_scan :: "rec_scan option"

record join_exec =
  jn_len :: int
  jn_cols :: "col_meta list"
  jn_conds :: "condition list"
  jn_isend :: bool
  left_block_capacity :: nat
  left_block :: "bytes list"
  left_block_idx :: nat
  right_tuple :: "bytes option"
  current_tuple :: "bytes option"

record projection_exec =
  pj_cols :: "col_meta list"
  pj_len :: int
  sel_idxs :: "nat list"

record sort_exec =
  sort_cols :: "col_meta list"
  is_descs :: "bool list"
  so_cols :: "col_meta list"
  so_len :: int
  so_limit :: int
  so_cursor :: nat
  so_tuples :: "bytes list"

record limit_exec =
  li_cols :: "col_meta list"
  li_len :: int
  li_limit :: int
  li_count :: int

datatype agg_func = AGG_COUNT | AGG_MAX | AGG_MIN | AGG_SUM

record agg_call =
  func_type :: agg_func
  agg_col :: tab_col
  agg_alias :: string
  agg_is_star :: bool

record agg_exec =
  agg_calls :: "agg_call list"
  ag_cols :: "col_meta list"
  ag_len :: int
  ag_produced :: bool
  ag_end :: bool
  ag_result :: bytes

datatype exec =
    SeqScan scan_exec
  | IndexScan index_meta scan_exec
  | NestedLoopJoin exec exec join_exec
  | Projection exec projection_exec
  | Sort exec sort_exec
  | Limit exec limit_exec
  | Aggregate exec agg_exec

record 's executor =
  beginTuple :: "exec \<times> 's \<Rightarrow> (unit, exec \<times> 's) res"
  nextTuple :: "exec \<times> 's \<Rightarrow> (unit, exec \<times> 's) res"
  Next :: "exec \<times> 's \<Rightarrow> (bytes option, exec \<times> 's) res"
  is_end :: "exec \<times> 's \<Rightarrow> bool"

primrec exec_cols :: "exec \<Rightarrow> col_meta list" where
  "exec_cols (SeqScan e) = sc_cols e"
| "exec_cols (IndexScan ix e) = sc_cols e"
| "exec_cols (NestedLoopJoin l r e) = jn_cols e"
| "exec_cols (Projection p e) = pj_cols e"
| "exec_cols (Sort p e) = so_cols e"
| "exec_cols (Limit p e) = li_cols e"
| "exec_cols (Aggregate p e) = ag_cols e"

primrec tupleLen :: "exec \<Rightarrow> int" where
  "tupleLen (SeqScan e) = sc_len e"
| "tupleLen (IndexScan ix e) = sc_len e"
| "tupleLen (NestedLoopJoin l r e) = jn_len e"
| "tupleLen (Projection p e) = pj_len e"
| "tupleLen (Sort p e) = so_len e"
| "tupleLen (Limit p e) = li_len e"
| "tupleLen (Aggregate p e) = ag_len e"

text \<open>\<^verbatim>\<open>rid()\<close>: joins, projections, sorts and aggregates return a field nobody has written.\<close>

primrec exec_rid :: "exec \<Rightarrow> rid option" where
  "exec_rid (SeqScan e) = Some (sc_rid e)"
| "exec_rid (IndexScan ix e) = Some (sc_rid e)"
| "exec_rid (NestedLoopJoin l r e) = None"
| "exec_rid (Projection p e) = None"
| "exec_rid (Sort p e) = None"
| "exec_rid (Limit p e) = exec_rid p"
| "exec_rid (Aggregate p e) = None"

text \<open>The state of a child becomes part of the state of its parent.\<close>

definition child :: "(exec \<Rightarrow> exec) \<Rightarrow> ('a, exec \<times> 's) res \<Rightarrow> ('a, exec \<times> 's) res" where
  "child con r = (case r of (x, (e, s)) \<Rightarrow> (x, (con e, s)))"

section \<open>AbstractExecutor\<close>

definition col_is :: "tab_col \<Rightarrow> col_meta \<Rightarrow> bool" where
  "col_is target c \<longleftrightarrow> cm_tab_name c = tab_name target \<and> cm_name c = col_name target"

primrec col_index :: "col_meta list \<Rightarrow> tab_col \<Rightarrow> nat option" where
  "col_index [] target = None"
| "col_index (c # cs) target = (if col_is target c then Some 0 else map_option Suc (col_index cs target))"

definition get_col :: "col_meta list \<Rightarrow> tab_col \<Rightarrow> rmdb_error + nat" where
  "get_col rec_cols target =
     (case col_index rec_cols target of
        None \<Rightarrow> Inl (ColumnNotFoundError (tab_name target @ ''.'' @ col_name target))
      | Some i \<Rightarrow> Inr i)"

definition get_col_offset :: "col_meta list \<Rightarrow> tab_col \<Rightarrow> rmdb_error + col_meta" where
  "get_col_offset cols target = (case get_col cols target of Inl e \<Rightarrow> Inl e | Inr i \<Rightarrow> Inr (cols ! i))"

definition compare_values :: "bytes \<Rightarrow> bytes \<Rightarrow> col_type \<Rightarrow> int \<Rightarrow> comp_op \<Rightarrow> bool" where
  "compare_values lhs rhs type len op = op_holds op (compare_typed type (nat len) lhs rhs)"

text \<open>The bytes of a column from its offset on.\<close>

definition field :: "col_meta \<Rightarrow> bytes \<Rightarrow> bytes" where
  "field c record = drop (nat (cm_offset c)) record"

definition check_compare :: "col_meta \<Rightarrow> bytes \<Rightarrow> rmdb_error + bytes \<times> col_type \<Rightarrow> comp_op \<Rightarrow> rmdb_error + bool" where
  "check_compare lhs_meta lhs r op =
     (case r of
        Inl e \<Rightarrow> Inl e
      | Inr (rhs, rhs_type) \<Rightarrow>
          if cm_type lhs_meta \<noteq> rhs_type
          then Inl (IncompatibleTypeError (coltype2str (cm_type lhs_meta)) (coltype2str rhs_type))
          else Inr (compare_values lhs rhs (cm_type lhs_meta) (cm_len lhs_meta) op))"

text \<open>A value whose raw bytes were never made is a null pointer.\<close>

definition rhs_value :: "condition \<Rightarrow> rmdb_error + bytes \<times> col_type" where
  "rhs_value c =
     (case raw (rhs_val c) of None \<Rightarrow> Inl NullDereference | Some b \<Rightarrow> Inr (b, value_type (vdata (rhs_val c))))"

definition eval_cond :: "col_meta list \<Rightarrow> bytes \<Rightarrow> condition \<Rightarrow> rmdb_error + bool" where
  "eval_cond rec_cols record c =
     (case get_col rec_cols (lhs_col c) of
        Inl e \<Rightarrow> Inl e
      | Inr i \<Rightarrow>
          check_compare (rec_cols ! i) (field (rec_cols ! i) record)
            (if is_rhs_val c then rhs_value c
             else case get_col rec_cols (rhs_col c) of
                    Inl e \<Rightarrow> Inl e
                  | Inr j \<Rightarrow> Inr (field (rec_cols ! j) record, cm_type (rec_cols ! j)))
            (cond_op c))"

fun all_hold :: "('c \<Rightarrow> rmdb_error + bool) \<Rightarrow> 'c list \<Rightarrow> rmdb_error + bool" where
  "all_hold f [] = Inr True"
| "all_hold f (c # cs) = (case f c of Inl e \<Rightarrow> Inl e | Inr b \<Rightarrow> if b then all_hold f cs else Inr False)"

definition eval_conds :: "col_meta list \<Rightarrow> bytes \<Rightarrow> condition list \<Rightarrow> rmdb_error + bool" where
  "eval_conds rec_cols record conds = all_hold (eval_cond rec_cols record) conds"

section \<open>SeqScanExecutor and IndexScanExecutor\<close>

text \<open>The two implementations of \<^verbatim>\<open>RecScan\<close>; \<open>ix\<close> is the name of the index.\<close>

fun rec_is_end :: "string \<Rightarrow> rec_scan \<Rightarrow> ('r, 'z) sm_scheme \<Rightarrow> bool" where
  "rec_is_end t (RmScanAt r) s = (case map_of (fhs s) t of None \<Rightarrow> True | Some (fd, h) \<Rightarrow> page_no r \<ge> num_pages h)"
| "rec_is_end t (IxScanAt i stop) s = ix_scan_is_end i stop"

fun rec_rid :: "'r replacer_ops \<Rightarrow> string \<Rightarrow> rec_scan \<Rightarrow> ('r, 'z) sm_scheme \<Rightarrow> (rid, ('r, 'z) sm_scheme) res" where
  "rec_rid R ix (RmScanAt r) s = Ret r s"
| "rec_rid R ix (IxScanAt i stop) s = on_index ix (ix_scan_rid R i) s"

fun rec_next :: "'r replacer_ops \<Rightarrow> string \<Rightarrow> string \<Rightarrow> rec_scan \<Rightarrow> ('r, 'z) sm_scheme \<Rightarrow> (rec_scan, ('r, 'z) sm_scheme) res" where
  "rec_next R t ix (RmScanAt r) s = seqE (on_table t (scan_next R r) s) (\<lambda>r' s1. Ret (RmScanAt r') s1)"
| "rec_next R t ix (IxScanAt i stop) s = seqE (on_index ix (ix_scan_next R i stop) s) (\<lambda>i' s1. Ret (IxScanAt i' stop) s1)"

text \<open>
  The loop both executors share: from the current position on, find a record that meets the conditions.
  It returns the position reached and the number of the record found, if any.
\<close>

primrec seek :: "nat \<Rightarrow> 'r replacer_ops \<Rightarrow> string \<Rightarrow> scan_exec \<Rightarrow> rec_scan \<Rightarrow> ('r, 'z) sm_scheme \<Rightarrow>
  (rec_scan \<times> rid option, ('r, 'z) sm_scheme) res" where
  "seek 0 R ix e sc s = Throw NonTermination s"
| "seek (Suc k) R ix e sc s =
     (if rec_is_end (sc_tab e) sc s then Ret (sc, None) s
      else seqE (rec_rid R ix sc s)
        (\<lambda>r s1. seqE (on_table (sc_tab e) (get_record R r) s1)
           (\<lambda>record s2.
              case eval_conds (sc_cols e) record (sc_conds e) of
                Inl err \<Rightarrow> Throw err s2
              | Inr True \<Rightarrow> seqE (rec_rid R ix sc s2) (\<lambda>r' s3. Ret (sc, Some r') s3)
              | Inr False \<Rightarrow>
                  seqE (rec_next R (sc_tab e) ix sc s2) (\<lambda>sc' s3. seek k R ix e sc' s3))))"

definition landed :: "scan_exec \<Rightarrow> rec_scan \<times> rid option \<Rightarrow> scan_exec" where
  "landed e p = (case p of (sc, None) \<Rightarrow> e\<lparr>sc_scan := Some sc\<rparr> | (sc, Some r) \<Rightarrow> e\<lparr>sc_scan := Some sc, sc_rid := r\<rparr>)"

definition scan_at_end :: "scan_exec \<Rightarrow> ('r, 'z) sm_scheme \<Rightarrow> bool" where
  "scan_at_end e s \<longleftrightarrow> (case sc_scan e of None \<Rightarrow> True | Some sc \<Rightarrow> rec_is_end (sc_tab e) sc s)"

definition scan_advance :: "nat \<Rightarrow> 'r replacer_ops \<Rightarrow> string \<Rightarrow> scan_exec \<Rightarrow> ('r, 'z) sm_scheme \<Rightarrow> (scan_exec, ('r, 'z) sm_scheme) res" where
  "scan_advance k R ix e s =
     (case sc_scan e of
        None \<Rightarrow> Ret e s
      | Some sc \<Rightarrow>
          if rec_is_end (sc_tab e) sc s then Ret e s
          else seqE (rec_next R (sc_tab e) ix sc s)
            (\<lambda>sc' s1. seqE (seek k R ix e sc' s1) (\<lambda>p s2. Ret (landed e p) s2)))"

definition scan_get :: "'r replacer_ops \<Rightarrow> scan_exec \<Rightarrow> ('r, 'z) sm_scheme \<Rightarrow> (bytes option, ('r, 'z) sm_scheme) res" where
  "scan_get R e s =
     (if scan_at_end e s then Ret None s
      else seqE (on_table (sc_tab e) (get_record R (sc_rid e)) s) (\<lambda>b s1. Ret (Some b) s1))"

definition seq_begin :: "nat \<Rightarrow> 'r replacer_ops \<Rightarrow> scan_exec \<Rightarrow> ('r, 'z) sm_scheme \<Rightarrow> (scan_exec, ('r, 'z) sm_scheme) res" where
  "seq_begin k R e s =
     seqE (on_table (sc_tab e) (RmScan R) s)
       (\<lambda>r s1. seqE (seek k R [] e (RmScanAt r) s1) (\<lambda>p s2. Ret (landed e p) s2))"

definition fill_min :: "bytes \<Rightarrow> nat \<Rightarrow> col_meta \<Rightarrow> bytes" where
  "fill_min key off c =
     (case cm_type c of
        TYPE_INT \<Rightarrow> blit key off (enc_i32 (- (2 ^ 31)))
      | TYPE_FLOAT \<Rightarrow> blit key off (enc_u32 (enc_f32 (Fin True (2 ^ 24 - 1) 104)))
      | TYPE_BIGINT \<Rightarrow> blit key off (enc_i64 (- (2 ^ 63)))
      | TYPE_DATETIME \<Rightarrow> blit key off (enc_i64 (- (2 ^ 63)))
      | TYPE_STRING \<Rightarrow> blit key off (replicate (nat (cm_len c)) 0))"

definition fill_max :: "bytes \<Rightarrow> nat \<Rightarrow> col_meta \<Rightarrow> bytes" where
  "fill_max key off c =
     (case cm_type c of
        TYPE_INT \<Rightarrow> blit key off (enc_i32 (2 ^ 31 - 1))
      | TYPE_FLOAT \<Rightarrow> blit key off (enc_u32 (enc_f32 FLT_MAX))
      | TYPE_BIGINT \<Rightarrow> blit key off (enc_i64 (2 ^ 63 - 1))
      | TYPE_DATETIME \<Rightarrow> blit key off (enc_i64 (2 ^ 63 - 1))
      | TYPE_STRING \<Rightarrow> blit key off (replicate (nat (cm_len c)) 0xFF))"

text \<open>The last equality, lower and upper bound among the conditions on a column with a value.\<close>

record col_bounds =
  cb_eq :: "condition option"
  cb_lower :: "condition option"
  cb_upper :: "condition option"

definition note_bound :: "string \<Rightarrow> col_bounds \<Rightarrow> condition \<Rightarrow> col_bounds" where
  "note_bound name b c =
     (if \<not> is_rhs_val c \<or> col_name (lhs_col c) \<noteq> name then b
      else if cond_op c = OP_EQ then b\<lparr>cb_eq := Some c\<rparr>
      else if cond_op c = OP_GT \<or> cond_op c = OP_GE then b\<lparr>cb_lower := Some c\<rparr>
      else if cond_op c = OP_LT \<or> cond_op c = OP_LE then b\<lparr>cb_upper := Some c\<rparr>
      else b)"

definition bounds_of :: "string \<Rightarrow> condition list \<Rightarrow> col_bounds" where
  "bounds_of name conds = foldl (note_bound name) \<lparr>cb_eq = None, cb_lower = None, cb_upper = None\<rparr> conds"

definition copy_bound :: "bytes \<Rightarrow> nat \<Rightarrow> int \<Rightarrow> condition option \<Rightarrow> rmdb_error + bytes" where
  "copy_bound key off len c =
     (case c of
        None \<Rightarrow> Inr key
      | Some c \<Rightarrow> (case raw (rhs_val c) of None \<Rightarrow> Inl NullDereference | Some b \<Rightarrow> Inr (blit key off (take (nat len) b))))"

fun key_range :: "condition list \<Rightarrow> col_meta list \<Rightarrow> nat \<Rightarrow> bool \<Rightarrow> bytes \<Rightarrow> bytes \<Rightarrow> rmdb_error + bytes \<times> bytes" where
  "key_range conds [] off stop lo up = Inr (lo, up)"
| "key_range conds (c # cs) off stop lo up =
     (let lo1 = fill_min lo off c; up1 = fill_max up off c; b = bounds_of (cm_name c) conds;
          off' = off + nat (cm_len c) in
      if stop then key_range conds cs off' True lo1 up1
      else let eq = cb_eq b \<noteq> None in
        case (copy_bound lo1 off (cm_len c) (if eq then cb_eq b else cb_lower b),
              copy_bound up1 off (cm_len c) (if eq then cb_eq b else cb_upper b)) of
          (Inr lo2, Inr up2) \<Rightarrow> key_range conds cs off' (\<not> eq) lo2 up2
        | (Inl e, _) \<Rightarrow> Inl e
        | (_, Inl e) \<Rightarrow> Inl e)"

definition ix_begin :: "nat \<Rightarrow> 'r replacer_ops \<Rightarrow> index_meta \<Rightarrow> scan_exec \<Rightarrow> ('r, 'z) sm_scheme \<Rightarrow> (scan_exec, ('r, 'z) sm_scheme) res" where
  "ix_begin k R im e s =
     (let ix = index_name_of (sc_tab e) im; z = zeros (nat (col_tot_len im)) in
      case key_range (sc_conds e) (im_cols im) 0 False z z of
        Inl err \<Rightarrow> Throw err s
      | Inr (lower_key, upper_key) \<Rightarrow>
          seqE (on_index ix (ix_lower_bound R lower_key) s)
            (\<lambda>lower s1. seqE (on_index ix (ix_upper_bound R upper_key) s1)
               (\<lambda>upper s2. seqE (seek k R ix e (IxScanAt lower upper) s2) (\<lambda>p s3. Ret (landed e p) s3))))"

text \<open>The virtual functions of the two scans.\<close>

definition scan_op :: "(scan_exec \<Rightarrow> exec) \<Rightarrow> (scan_exec, 's) res \<Rightarrow> scan_exec \<Rightarrow> (unit, exec \<times> 's) res" where
  "scan_op con r e = (case r of (Inl err, s) \<Rightarrow> Throw err (con e, s) | (Inr e', s) \<Rightarrow> Ret () (con e', s))"

definition seq_scan :: "nat \<Rightarrow> 'r replacer_ops \<Rightarrow> (('r, 'z) sm_scheme) executor" where
  "seq_scan k R =
     \<lparr>beginTuple = (\<lambda>(x, s). case x of SeqScan e \<Rightarrow> scan_op SeqScan (seq_begin k R e s) e | _ \<Rightarrow> Throw NullDereference (x, s)),
      nextTuple = (\<lambda>(x, s). case x of SeqScan e \<Rightarrow> scan_op SeqScan (scan_advance k R [] e s) e | _ \<Rightarrow> Throw NullDereference (x, s)),
      Next = (\<lambda>(x, s). case x of SeqScan e \<Rightarrow> beside (scan_get R e) (x, s) | _ \<Rightarrow> Throw NullDereference (x, s)),
      is_end = (\<lambda>(x, s). case x of SeqScan e \<Rightarrow> scan_at_end e s | _ \<Rightarrow> True)\<rparr>"

definition index_scan :: "nat \<Rightarrow> 'r replacer_ops \<Rightarrow> (('r, 'z) sm_scheme) executor" where
  "index_scan k R =
     \<lparr>beginTuple = (\<lambda>(x, s). case x of IndexScan im e \<Rightarrow> scan_op (IndexScan im) (ix_begin k R im e s) e
                               | _ \<Rightarrow> Throw NullDereference (x, s)),
      nextTuple = (\<lambda>(x, s). case x of IndexScan im e \<Rightarrow>
                       scan_op (IndexScan im) (scan_advance k R (index_name_of (sc_tab e) im) e s) e
                     | _ \<Rightarrow> Throw NullDereference (x, s)),
      Next = (\<lambda>(x, s). case x of IndexScan im e \<Rightarrow> beside (scan_get R e) (x, s) | _ \<Rightarrow> Throw NullDereference (x, s)),
      is_end = (\<lambda>(x, s). case x of IndexScan im e \<Rightarrow> scan_at_end e s | _ \<Rightarrow> True)\<rparr>"

end
