(* ===== verification/Dml.thy ===== *)
theory Dml
  imports Transactions Executors
begin

text \<open>
  The executors that change tables, \<^verbatim>\<open>execution/executor_insert.h\<close>, \<^verbatim>\<open>executor_delete.h\<close> and
  \<^verbatim>\<open>executor_update.h\<close>: a constructor that looks the table up and takes an exclusive lock on it, and one
  call of \<^verbatim>\<open>Next\<close> that does the work. \<open>t\<close> is the transaction of the context, \<open>logged\<close> says whether
  it has a log manager.
\<close>

section \<open>Constructors\<close>

record insert_exec =
  in_tab :: tab_meta
  in_values :: "sql_value list"
  in_tab_name :: string

record modify_exec =
  mo_tab :: tab_meta
  mo_conds :: "condition list"
  mo_rids :: "rid list"
  mo_tab_name :: string
  mo_set_clauses :: "set_clause list"

text \<open>The handle of a table, \<^verbatim>\<open>fhs_.at(tab_name)\<close>, and the exclusive lock on its file.\<close>

definition lock_table_exclusive :: "int \<Rightarrow> string \<Rightarrow> 'r sys \<Rightarrow> (unit, 'r sys) res" where
  "lock_table_exclusive t tab s =
     (case map_of (fhs s) tab of
        None \<Rightarrow> Throw OutOfRange s
      | Some (fd, h) \<Rightarrow> seqE (on_locks (Some t) (lock_exclusive_on_table fd) s) (\<lambda>_ s1. Ret () s1))"

definition InsertExecutor :: "int \<Rightarrow> string \<Rightarrow> sql_value list \<Rightarrow> 'r sys \<Rightarrow> (insert_exec, 'r sys) res" where
  "InsertExecutor t tab values s =
     seqE (lift_sm (get_table (sm_db s) tab) s)
       (\<lambda>m s1.
          if length values \<noteq> length (tm_cols m) then Throw InvalidValueCountError s1
          else seqE (lock_table_exclusive t tab s1)
                 (\<lambda>_ s2. Ret \<lparr>in_tab = m, in_values = values, in_tab_name = tab\<rparr> s2))"

definition DeleteExecutor :: "int \<Rightarrow> string \<Rightarrow> condition list \<Rightarrow> rid list \<Rightarrow> 'r sys \<Rightarrow> (modify_exec, 'r sys) res" where
  "DeleteExecutor t tab conds rids s =
     seqE (lift_sm (get_table (sm_db s) tab) s)
       (\<lambda>m s1. seqE (lock_table_exclusive t tab s1)
          (\<lambda>_ s2. Ret \<lparr>mo_tab = m, mo_conds = conds, mo_rids = rids, mo_tab_name = tab, mo_set_clauses = []\<rparr> s2))"

definition UpdateExecutor :: "int \<Rightarrow> string \<Rightarrow> set_clause list \<Rightarrow> condition list \<Rightarrow> rid list \<Rightarrow> 'r sys \<Rightarrow>
  (modify_exec, 'r sys) res" where
  "UpdateExecutor t tab clauses conds rids s =
     seqE (lift_sm (get_table (sm_db s) tab) s)
       (\<lambda>m s1. seqE (lock_table_exclusive t tab s1)
          (\<lambda>_ s2. Ret \<lparr>mo_tab = m, mo_conds = conds, mo_rids = rids, mo_tab_name = tab, mo_set_clauses = clauses\<rparr> s2))"

section \<open>InsertExecutor\<close>

text \<open>
  The record buffer: one value per column, made raw if it is not yet. The buffer starts uninitialised;
  the columns of a table cover the record, so the zeros of the model are all overwritten.
\<close>

fun make_row :: "col_meta list \<Rightarrow> sql_value list \<Rightarrow> bytes \<Rightarrow> rmdb_error + bytes" where
  "make_row (c # cs) (v # vs) buf =
     (if cm_type c \<noteq> value_type (vdata v)
      then Inl (IncompatibleTypeError (coltype2str (cm_type c)) (coltype2str (value_type (vdata v))))
      else case (case raw v of Some b \<Rightarrow> Inr b | None \<Rightarrow> raw_bytes (vdata v) (cm_len c)) of
             Inl e \<Rightarrow> Inl e
           | Inr b \<Rightarrow> make_row cs vs (blit buf (nat (cm_offset c)) (take (nat (cm_len c)) b)))"
| "make_row _ _ buf = Inr buf"

text \<open>The loop over the indexes: a key that is there already takes the record back and throws.\<close>

fun insert_keys :: "'r replacer_ops \<Rightarrow> string \<Rightarrow> bytes \<Rightarrow> rid \<Rightarrow> index_meta list \<Rightarrow> ('r, 'z) sm_scheme \<Rightarrow>
  (unit, ('r, 'z) sm_scheme) res" where
  "insert_keys R tab record r [] s = Ret () s"
| "insert_keys R tab record r (ix # ixs) s =
     (let nm = index_name_of tab ix; key = make_index_key record ix in
      seqE (on_index nm (get_value R key) s)
        (\<lambda>found s1.
           if found \<noteq> None
           then seqE (on_table tab (delete_record R r) s1)
                  (\<lambda>_ s2. Throw (IndexExistsError tab (map cm_name (im_cols ix))) s2)
           else seqE (on_index nm (insert_entry R key r) s1) (\<lambda>_ s2. insert_keys R tab record r ixs s2)))"

text \<open>A log record, when there is a log manager.\<close>

definition log_if :: "bool \<Rightarrow> int \<Rightarrow> log_record \<Rightarrow> 'r sys \<Rightarrow> (unit, 'r sys) res" where
  "log_if logged t l s = (if logged then log_for t l s else Ret () s)"

definition insert_next :: "'r replacer_ops \<Rightarrow> bool \<Rightarrow> int \<Rightarrow> insert_exec \<Rightarrow> 'r sys \<Rightarrow> (rid, 'r sys) res" where
  "insert_next R logged t e s =
     (let tab = in_tab_name e in
      case map_of (fhs s) tab of
        None \<Rightarrow> Throw OutOfRange s
      | Some (fd, h) \<Rightarrow>
          (case make_row (tm_cols (in_tab e)) (in_values e) (zeros (nat (record_size h))) of
             Inl err \<Rightarrow> Throw err s
           | Inr record \<Rightarrow>
               seqE (on_table tab (insert_record R record) s)
                 (\<lambda>r s1. seqE (insert_keys R tab record r (indexes (in_tab e)) s1)
                    (\<lambda>_ s2. seqE (log_if logged t (InsertLogRecord t record r tab) s2)
                       (\<lambda>_ s3. Ret r (append_write t \<lparr>wtype = INSERT_TUPLE, wr_tab_name = tab, wr_rid = r, wr_record = []\<rparr> s3))))))"

section \<open>DeleteExecutor\<close>

definition delete_row :: "'r replacer_ops \<Rightarrow> bool \<Rightarrow> int \<Rightarrow> modify_exec \<Rightarrow> rid \<Rightarrow> 'r sys \<Rightarrow> (unit, 'r sys) res" where
  "delete_row R logged t e r s =
     (let tab = mo_tab_name e in
      seqE (on_table tab (get_record R r) s)
        (\<lambda>record s1. seqE (log_if logged t (DeleteLogRecord t record r tab) s1)
           (\<lambda>_ s2. seqE (drop_keys R tab record (indexes (mo_tab e))
                          (append_write t \<lparr>wtype = DELETE_TUPLE, wr_tab_name = tab, wr_rid = r, wr_record = record\<rparr> s2))
              (\<lambda>_ s3. on_table tab (delete_record R r) s3))))"

section \<open>UpdateExecutor\<close>

fun apply_clauses :: "tab_meta \<Rightarrow> set_clause list \<Rightarrow> bytes \<Rightarrow> rmdb_error + bytes" where
  "apply_clauses m [] record = Inr record"
| "apply_clauses m (c # cs) record =
     (case tab_get_col m (col_name (set_lhs c)) of
        Inl e \<Rightarrow> Inl e
      | Inr col \<Rightarrow>
          (case raw (set_rhs c) of
             None \<Rightarrow> Inl NullDereference
           | Some b \<Rightarrow> apply_clauses m cs (blit record (nat (cm_offset col)) (take (nat (cm_len col)) b))))"

text \<open>No changed key may be in its index already.\<close>

fun check_keys :: "'r replacer_ops \<Rightarrow> string \<Rightarrow> bytes \<Rightarrow> bytes \<Rightarrow> index_meta list \<Rightarrow> ('r, 'z) sm_scheme \<Rightarrow>
  (unit, ('r, 'z) sm_scheme) res" where
  "check_keys R tab old new [] s = Ret () s"
| "check_keys R tab old new (ix # ixs) s =
     (let k = make_index_key old ix; k' = make_index_key new ix in
      if memcmp k k' \<noteq> 0
      then seqE (on_index (index_name_of tab ix) (get_value R k') s)
             (\<lambda>found s1.
                if found \<noteq> None then Throw (IndexExistsError tab (map cm_name (im_cols ix))) s1
                else check_keys R tab old new ixs s1)
      else check_keys R tab old new ixs s)"

definition update_row :: "'r replacer_ops \<Rightarrow> bool \<Rightarrow> int \<Rightarrow> modify_exec \<Rightarrow> rid \<Rightarrow> 'r sys \<Rightarrow> (unit, 'r sys) res" where
  "update_row R logged t e r s =
     (let tab = mo_tab_name e; ixs = indexes (mo_tab e) in
      seqE (on_table tab (get_record R r) s)
        (\<lambda>old s1.
           case apply_clauses (mo_tab e) (mo_set_clauses e) old of
             Inl err \<Rightarrow> Throw err s1
           | Inr new \<Rightarrow>
               seqE (check_keys R tab old new ixs s1)
                 (\<lambda>_ s2. seqE (log_if logged t (UpdateLogRecord t old new r tab) s2)
                    (\<lambda>_ s3. seqE (swap_keys R tab old new r ixs
                                   (append_write t \<lparr>wtype = UPDATE_TUPLE, wr_tab_name = tab, wr_rid = r, wr_record = old\<rparr> s3))
                       (\<lambda>_ s4. on_table tab (update_record R r new) s4)))))"

text \<open>\<^verbatim>\<open>Next\<close> of both: the loop over the record numbers.\<close>

fun each_rid :: "(rid \<Rightarrow> 'r sys \<Rightarrow> (unit, 'r sys) res) \<Rightarrow> rid list \<Rightarrow> 'r sys \<Rightarrow> (unit, 'r sys) res" where
  "each_rid f [] s = Ret () s"
| "each_rid f (r # rs) s = seqE (f r s) (\<lambda>_ s1. each_rid f rs s1)"

definition delete_next :: "'r replacer_ops \<Rightarrow> bool \<Rightarrow> int \<Rightarrow> modify_exec \<Rightarrow> 'r sys \<Rightarrow> (unit, 'r sys) res" where
  "delete_next R logged t e s = each_rid (delete_row R logged t e) (mo_rids e) s"

definition update_next :: "'r replacer_ops \<Rightarrow> bool \<Rightarrow> int \<Rightarrow> modify_exec \<Rightarrow> 'r sys \<Rightarrow> (unit, 'r sys) res" where
  "update_next R logged t e s = each_rid (update_row R logged t e) (mo_rids e) s"

end
