(* ===== verification/Log_Frame.thy ===== *)
theory Log_Frame
  imports Database Dml
begin

text \<open>
  The log and the tables do not disturb each other: whatever a call of the log manager does, and
  however it ends, the pages of the tables stay what they are.
\<close>

section \<open>Disks\<close>

definition disk_same :: "int set \<Rightarrow> disk \<Rightarrow> disk \<Rightarrow> bool" where
  "disk_same F d d' \<longleftrightarrow> disk_ok F d' \<and> (\<forall>fd \<in> F. fd_file d' fd = fd_file d fd \<and> fd2pageno d' fd = fd2pageno d fd)"

lemma disk_same_refl: "disk_ok F d \<Longrightarrow> disk_same F d d"
  by (simp add: disk_same_def)

lemma disk_same_trans: "disk_same F d d1 \<Longrightarrow> disk_same F d1 d2 \<Longrightarrow> disk_same F d d2"
  by (simp add: disk_same_def)

lemma disk_same_ok: "disk_same F d d' \<Longrightarrow> disk_ok F d'"
  by (simp add: disk_same_def)

lemma fd_file_fields [simp]: "fd_file (d\<lparr>io := ev\<rparr>) = fd_file d" "fd_file (d\<lparr>log_fd := n\<rparr>) = fd_file d"
  by (rule ext, simp add: fd_file_def split: option.split)+

lemma disk_same_io:
  assumes "disk_ok F d" and "set ev \<subseteq> set (io d)"
  shows "disk_same F d (d\<lparr>io := ev\<rparr>)"
  using assms by (auto simp: disk_same_def disk_ok_def io_clean_def)

lemma disk_same_log:
  assumes "disk_ok F d" and "log_fd d \<noteq> -1"
  shows "disk_same F d (set_fd_file d (log_fd d) c)"
  using assms by (auto simp: disk_same_def disk_ok_def io_clean_def fd_file_def set_fd_file_def split: option.splits)

lemma open_log_frame:
  assumes "disk_ok F d" and "open_file LOG_FILE_NAME d = (x, d')"
  shows "disk_same F d d' \<and> (\<forall>fd. x = Inr fd \<longrightarrow> map_of (kfd d') fd = Some LOG_FILE_NAME \<and> fd \<noteq> -1)"
proof (cases "path2fd d LOG_FILE_NAME \<noteq> None \<or> fs d LOG_FILE_NAME = None")
  case True
  then have "d' = d \<and> (\<exists>e. x = Inl e)" using assms(2) by (auto simp: open_file_def split: if_splits)
  then show ?thesis using disk_same_refl [OF assms(1)] by auto
next
  case False
  obtain b d1 where so: "sys_ok d = (b, d1)" by fastforce
  have d1: "disk_same F d d1"
    using so disk_same_refl [OF assms(1)] disk_same_io [OF assms(1), of "tl (io d)"]
    by (cases "io d") (auto simp: sys_ok_def)
  let ?fd = "lowest_fd d1"
  show ?thesis
  proof (cases "b \<and> ?fd < MAX_FD")
    case c: False
    then have "d' = d1 \<and> (\<exists>e. x = Inl e)" using assms(2) False so by (auto simp: open_file_def Let_def split: bool.splits)
    then show ?thesis using d1 by auto
  next
    case True
    let ?n = "(get_file_size LOG_FILE_NAME (d1\<lparr>kfd := (?fd, LOG_FILE_NAME) # kfd d1,
      path2fd := (path2fd d1)(LOG_FILE_NAME \<mapsto> ?fd), fd2path := (fd2path d1)(?fd \<mapsto> LOG_FILE_NAME)\<rparr>) + int PAGE_SIZE - 1) sdiv int PAGE_SIZE"
    have r: "x = Inr ?fd" "d' = d1\<lparr>kfd := (?fd, LOG_FILE_NAME) # kfd d1, path2fd := (path2fd d1)(LOG_FILE_NAME \<mapsto> ?fd),
        fd2path := (fd2path d1)(?fd \<mapsto> LOG_FILE_NAME), fd2pageno := (fd2pageno d1)(?fd := ?n)\<rparr>"
      using assms(2) False so True by (auto simp: open_file_def Let_def)
    have fr: "map_of (kfd d1) ?fd = None" "?fd \<noteq> -1" using lowest_fd_fresh [of d1] by (auto simp: map_of_eq_None_iff)
    have ok: "disk_ok F d1" using d1 by (simp add: disk_same_def)
    have ne: "fd \<noteq> ?fd" if "fd \<in> F" for fd using ok fr(1) that by (auto simp: disk_ok_def fd_file_def)
    have ff: "fd_file d' fd = fd_file d1 fd" if "fd \<in> F" for fd
      using ne [OF that] by (cases "map_of (kfd d1) fd") (simp_all add: fd_file_def r(2))
    have "kfd d' = (?fd, LOG_FILE_NAME) # kfd d1" "io d' = io d1" "log_fd d' = log_fd d1" "fd2pageno d' = (fd2pageno d1)(?fd := ?n)"
      by (simp_all add: r(2))
    with ok fr ff ne have "disk_same F d1 d'" by (auto simp: disk_same_def disk_ok_def io_clean_def inj_on_def)
    then show ?thesis using disk_same_trans [OF d1] r fr by auto
  qed
qed

lemma ensure_log_frame:
  assumes "disk_ok F d" and "ensure_log d = (x, d')"
  shows "disk_same F d d'" and "x = Inr () \<Longrightarrow> log_fd d' \<noteq> -1"
proof -
  have "disk_same F d d' \<and> (x = Inr () \<longrightarrow> log_fd d' \<noteq> -1)"
  proof (cases "log_fd d = -1")
    case True
    obtain y d1 where o: "open_file LOG_FILE_NAME d = (y, d1)" by fastforce
    note f = open_log_frame [OF assms(1) o]
    show ?thesis
    proof (cases y)
      case (Inl e)
      with True o f assms(2) show ?thesis by (auto simp: ensure_log_def)
    next
      case (Inr fd)
      then have d': "d' = d1\<lparr>log_fd := fd\<rparr>" "x = Inr ()" using True o assms(2) by (auto simp: ensure_log_def)
      have "disk_same F d1 d'" using f Inr unfolding d' by (auto simp: disk_same_def disk_ok_def io_clean_def)
      then show ?thesis using f Inr d' disk_same_trans by auto
    qed
  qed (use assms disk_same_refl in \<open>auto simp: ensure_log_def\<close>)
  then show "disk_same F d d'" "x = Inr () \<Longrightarrow> log_fd d' \<noteq> -1" by auto
qed

lemma tl_events: "io d = e # ev \<Longrightarrow> set ev \<subseteq> set (io d)"
  by auto

lemma read_log_frame:
  assumes "disk_ok F d" and "read_log n off d = (x, d')"
  shows "disk_same F d d'"
proof -
  obtain y d1 where e: "ensure_log d = (y, d1)" by fastforce
  note f = ensure_log_frame(1) [OF assms(1) e]
  have io: "disk_same F d (d1\<lparr>io := ev\<rparr>)" if "set ev \<subseteq> set (io d1)" for ev
    by (rule disk_same_trans [OF f disk_same_io [OF disk_same_ok [OF f] that]])
  have "d' = d1 \<or> (\<exists>ev. set ev \<subseteq> set (io d1) \<and> d' = d1\<lparr>io := ev\<rparr>)"
    using assms(2) e tl_events [of d1]
    by (cases y) (auto simp: read_log_def Let_def split: if_splits option.splits list.splits io_event.splits)
  then show ?thesis using f io by auto
qed

lemma write_log_frame:
  assumes "disk_ok F d" and "write_log bs d = (x, d')"
  shows "disk_same F d d'"
proof -
  obtain y d1 where e: "ensure_log d = (y, d1)" by fastforce
  note f = ensure_log_frame(1) [OF assms(1) e]
  show ?thesis
  proof (cases y)
    case (Inr u)
    then have l: "log_fd d1 \<noteq> -1" using ensure_log_frame(2) [OF assms(1) e] by simp
    have io: "disk_same F d (d2\<lparr>io := ev\<rparr>)" if "disk_same F d1 d2" "set ev \<subseteq> set (io d2)" for d2 ev
      using disk_same_trans [OF f disk_same_trans [OF that(1) disk_same_io [OF disk_same_ok [OF that(1)] that(2)]]] .
    have lg: "disk_same F d1 (set_fd_file d1 (log_fd d1) c)" for c by (rule disk_same_log [OF disk_same_ok [OF f] l])
    have i: "io (set_fd_file d1 (log_fd d1) c) = io d1" for c by (simp add: set_fd_file_def split: option.splits)
    have "d' = d1 \<or> (\<exists>c. d' = set_fd_file d1 (log_fd d1) c) \<or> (\<exists>ev. set ev \<subseteq> set (io d1) \<and> d' = d1\<lparr>io := ev\<rparr>) \<or>
        (\<exists>c ev. set ev \<subseteq> set (io d1) \<and> d' = (set_fd_file d1 (log_fd d1) c)\<lparr>io := ev\<rparr>)"
      using assms(2) e Inr tl_events [of d1]
      by (auto simp: write_log_def Let_def split: if_splits option.splits list.splits io_event.splits)
    then show ?thesis using f disk_same_trans [OF f lg] io [OF disk_same_refl [OF disk_same_ok [OF f]]] io [OF lg] i by auto
  qed (use assms(2) e f in \<open>auto simp: write_log_def\<close>)
qed

lemma lsn_loop_frame: "disk_ok F d \<Longrightarrow> lsn_loop k n off m d = (x, d') \<Longrightarrow> disk_same F d d'"
proof (induction k arbitrary: off m d)
  case (Suc k)
  show ?case
  proof (cases "off + int LOG_HEADER_SIZE \<le> n")
    case True
    obtain y d1 where rd: "read_log (int LOG_HEADER_SIZE) off d = (y, d1)" by fastforce
    note f = read_log_frame [OF Suc.prems(1) rd]
    from Suc.prems(2) True rd have "d' = d1 \<or> (\<exists>off' m'. lsn_loop k n off' m' d1 = (x, d'))"
      by (cases y) (auto simp: Let_def split: if_splits)
    then show ?thesis using f Suc.IH [OF disk_same_ok [OF f]] disk_same_trans [OF f] by blast
  qed (use Suc.prems disk_same_refl in auto)
qed (auto intro: disk_same_refl)

lemma flush_log_frame:
  assumes "disk_ok F d" and "flush_log_to_disk_unlocked (lm, d) = (x, (lm', d'))"
  shows "disk_same F d d'"
  using assms write_log_frame [OF assms(1)] disk_same_refl [OF assms(1)]
  by (auto simp: flush_log_to_disk_unlocked_def split: if_splits sum.splits prod.splits)

lemma initialize_lsn_frame:
  assumes "disk_ok F d" and "initialize_lsn (lm, d) = (x, (lm', d'))"
  shows "disk_same F d d'"
  using assms lsn_loop_frame [OF assms(1)] disk_same_refl [OF assms(1)]
  by (auto simp: initialize_lsn_def Let_def simp del: lsn_loop.simps split: if_splits sum.splits prod.splits)

lemma add_log_frame:
  assumes "disk_ok F d" and "add_log_to_buffer r (lm, d) = (x, (lm', d'))"
  shows "disk_same F d d'"
proof (cases "unat (log_tot_len r) > LOG_BUFFER_SIZE")
  case False
  obtain y lm1 d1 where i: "initialize_lsn (lm, d) = (y, (lm1, d1))" by (metis prod_cases3)
  note f1 = initialize_lsn_frame [OF assms(1) i]
  obtain z lm2 d2 where fl: "(if buffer_full lm1 (sint (log_tot_len r)) then flush_log_to_disk_unlocked (lm1, d1)
      else Ret () (lm1, d1)) = (z, (lm2, d2))" by (metis prod_cases3)
  have f2: "disk_same F d1 d2"
    using fl flush_log_frame [OF disk_same_ok [OF f1], of lm1] disk_same_refl [OF disk_same_ok [OF f1]] by (auto split: if_splits)
  obtain w lm3 d3 where g: "flush_log_to_disk_unlocked (append_record r lm2, d2) = (w, (lm3, d3))" by (metis prod_cases3)
  note f3 = flush_log_frame [OF disk_same_ok [OF f2] g]
  have "d' = d1 \<or> d' = d2 \<or> d' = d3"
    using assms(2) False i fl g by (cases y; cases z; cases w) (auto simp: add_log_to_buffer_def Let_def)
  then show ?thesis using f1 disk_same_trans [OF f1 f2] disk_same_trans [OF disk_same_trans [OF f1 f2] f3] by auto
qed (use assms disk_same_refl in \<open>auto simp: add_log_to_buffer_def\<close>)

section \<open>Pools and databases\<close>

context replacer begin

lemma rest_disk_same:
  assumes "rest F p" and "disk_same F (disk_st p) d"
  shows "rest F (p\<lparr>disk_st := d\<rparr>)" and "on_file F q \<Longrightarrow> page_view (p\<lparr>disk_st := d\<rparr>) q = page_view p q"
proof -
  have dv: "disk_view d q = disk_view (disk_st p) q" if "on_file F q" for q
    using assms(2) that by (simp add: disk_same_def disk_view_def disk_page_def)
  show "on_file F q \<Longrightarrow> page_view (p\<lparr>disk_st := d\<rparr>) q = page_view p q"
    using dv [of q] by (simp add: page_view_def split: option.split)
  have po: "pok F {} p" using assms(1) by (simp add: rest_def)
  note pd = pool_okD [OF po]
  have m: "on_file F pid \<and> pid_no pid < fd2pageno (disk_st p) (pid_fd pid)" if "pt p pid = Some f" for pid f
    using pd(4) that by (simp add: mapped_ok_def)
  have n: "fd2pageno d fd = fd2pageno (disk_st p) fd" if "fd \<in> F" for fd using assms(2) that by (simp add: disk_same_def)
  have "coherent {} (p\<lparr>disk_st := d\<rparr>)"
    using pd(5) m dv by (auto simp: coherent_def)
  moreover have "mapped_ok F (p\<lparr>disk_st := d\<rparr>)" using m n by (auto simp: mapped_ok_def)
  moreover have "bpm_inv evictable capacity rinv (p\<lparr>disk_st := d\<rparr>)"
    using pd(1) by (simp add: bpm_inv_def table_ok_def free_ok_def evict_ok_def)
  moreover have "\<forall>f. in_pool f (p\<lparr>disk_st := d\<rparr>) \<longrightarrow> frame_ok evictable (p\<lparr>disk_st := d\<rparr>) f"
    using pd(2) by (simp add: frame_ok_def)
  ultimately have "pok F {} (p\<lparr>disk_st := d\<rparr>)"
    using assms(2) by (simp add: pool_ok_def disk_same_def)
  then show "rest F (p\<lparr>disk_st := d\<rparr>)"
    using assms(1) n client_cong(1) [of "p\<lparr>disk_st := d\<rparr>" p] by (simp add: rest_def)
qed

definition same_views :: "int set \<Rightarrow> 'r bpm \<Rightarrow> 'r bpm \<Rightarrow> bool" where
  "same_views F p p' \<longleftrightarrow> rest F p' \<and> (\<forall>q. on_file F q \<longrightarrow> page_view p' q = page_view p q) \<and>
     (\<forall>fd \<in> F. fd2pageno (disk_st p') fd = fd2pageno (disk_st p) fd)"

lemma table_same_views:
  assumes "table_pages F g" and "same_views F (rm_pool g) p"
  shows "table_pages F (g\<lparr>rm_pool := p\<rparr>)" and "records (g\<lparr>rm_pool := p\<rparr>) = records g"
    and "table_file F g \<Longrightarrow> table_file F (g\<lparr>rm_pool := p\<rparr>)"
proof -
  let ?g = "g\<lparr>rm_pool := p\<rparr>"
  note td = table_pagesD [OF assms(1)]
  have v: "file_page ?g no = file_page g no" if "record_page (rm_hdr g) no" for no
    using assms(2) td(2) record_page_nonneg [OF that] by (simp add: same_views_def file_page_def)
  have n: "fd2pageno (disk_st p) (rm_fd g) = num_pages (rm_hdr g)"
    using assms(2) td(2,6) by (simp add: same_views_def)
  show tp: "table_pages F ?g" using td v n assms(2) by (simp add: table_pages_def same_views_def)
  show "records ?g = records g" by (rule ext) (simp add: records_def v)
  assume "table_file F g"
  then have fc: "free_chain (rm_hdr g) (file_page g)" by (simp add: table_file_def)
  have "free_chain (rm_hdr ?g) (file_page ?g)" by (rule free_chain_same [OF fc]) (auto simp: free_pages_def v)
  with tp show "table_file F ?g" by (simp add: table_file_def)
qed

text \<open>A database in which insertion is possible too: the chains of free pages are in order.\<close>

definition tables_ok :: "int set \<Rightarrow> ('r, 'z) sm_scheme \<Rightarrow> bool" where
  "tables_ok F s \<longleftrightarrow> db_ok F s \<and> (\<forall>t f. table_of t s = Some f \<longrightarrow> table_file F f)"

lemma tables_ok_db: "tables_ok F s \<Longrightarrow> db_ok F s"
  by (simp add: tables_ok_def)

lemma table_of_pool: "table_of t s = Some f \<Longrightarrow> rm_pool f = sm_pool s"
  by (auto simp: table_of_def)

text \<open>The state \<open>s'\<close> has the tables of \<open>s\<close>, whatever else has changed.\<close>

definition same_tables :: "int set \<Rightarrow> ('r, 'z) sm_scheme \<Rightarrow> ('r, 'z) sm_scheme \<Rightarrow> bool" where
  "same_tables F s s' \<longleftrightarrow> fhs s' = fhs s \<and> sm_db s' = sm_db s \<and>
     (rest F (sm_pool s) \<longrightarrow> same_views F (sm_pool s) (sm_pool s'))"

lemma same_tables_refl: "same_tables F s s"
  by (simp add: same_tables_def same_views_def)

lemma same_tables_trans: "same_tables F s s1 \<Longrightarrow> same_tables F s1 s2 \<Longrightarrow> same_tables F s s2"
  by (auto simp: same_tables_def same_views_def)

lemma same_tables_pool: "fhs s' = fhs s \<Longrightarrow> sm_db s' = sm_db s \<Longrightarrow> sm_pool s' = sm_pool s \<Longrightarrow> same_tables F s s'"
  by (simp add: same_tables_def same_views_def)

lemma same_tables_ok:
  assumes "db_ok F s" and "same_tables F s s'"
  shows "db_ok F s'" and "rows s' = rows s" and "tables_ok F s \<Longrightarrow> tables_ok F s'"
proof -
  have eq: "table_of t s' = map_option (\<lambda>g. g\<lparr>rm_pool := sm_pool s'\<rparr>) (table_of t s)" for t
    using assms(2) by (cases "map_of (fhs s) t") (auto simp: table_of_def same_tables_def)
  have sv: "same_views F (rm_pool g) (sm_pool s')" if "table_of t s = Some g" for t g
    using table_pagesD(1) [OF db_okD [OF assms(1) that]] assms(2) table_of_pool [OF that] by (simp add: same_tables_def)
  note ts = table_same_views [OF db_okD [OF assms(1)] sv]
  show db: "db_ok F s'"
    using ts(1) assms(1) by (auto simp: db_ok_def eq)
  show "rows s' = rows s"
  proof
    fix t
    show "rows s' t = rows s t" using ts(2) [of t] by (cases "table_of t s") (auto simp: rows_def eq)
  qed
  show "tables_ok F s'" if "tables_ok F s"
    using db ts(3) that by (auto simp: tables_ok_def eq)
qed

lemma on_log_frame:
  assumes "on_log (add_log_to_buffer r) s = (x, s')"
  shows "same_tables F s s'" and "txn_map s' = txn_map s" and "sy_locks s' = sy_locks s"
proof -
  obtain y lm d where a: "add_log_to_buffer r (sy_log s, disk_st (sm_pool s)) = (y, (lm, d))" by (metis prod_cases3)
  then have s': "s' = s\<lparr>sy_log := lm, sm_pool := (sm_pool s)\<lparr>disk_st := d\<rparr>\<rparr>" using assms by (simp add: on_log_def)
  have "same_views F (sm_pool s) ((sm_pool s)\<lparr>disk_st := d\<rparr>)" if "rest F (sm_pool s)"
  proof -
    have "disk_ok F (disk_st (sm_pool s))" using that pool_okD(3) unfolding rest_def by blast
    from add_log_frame [OF this a] rest_disk_same [OF that] show ?thesis by (auto simp: same_views_def disk_same_def)
  qed
  then show "same_tables F s s'" by (simp add: same_tables_def s')
  show "txn_map s' = txn_map s" "sy_locks s' = sy_locks s" by (simp_all add: s')
qed

end

end
