(* ===== verification/Atomicity.thy ===== *)
theory Atomicity
  imports Log_Frame
begin

text \<open>
  Atomicity of transactions on tables without indexes: whatever a transaction has inserted, deleted
  and updated, aborting it puts every table back to what it was when the transaction began.
\<close>

section \<open>Undoing writes, on the level of records\<close>

definition undo_row :: "write_record \<Rightarrow> (string \<Rightarrow> rid \<rightharpoonup> bytes) \<Rightarrow> string \<Rightarrow> rid \<rightharpoonup> bytes" where
  "undo_row w m =
     m(wr_tab_name w :=
         (if wtype w = INSERT_TUPLE then (m (wr_tab_name w))(wr_rid w := None)
          else (m (wr_tab_name w))(wr_rid w \<mapsto> wr_record w)))"

text \<open>The writes are given with the last one first.\<close>

primrec undo_rows :: "write_record list \<Rightarrow> (string \<Rightarrow> rid \<rightharpoonup> bytes) \<Rightarrow> string \<Rightarrow> rid \<rightharpoonup> bytes" where
  "undo_rows [] m = m"
| "undo_rows (w # ws) m = undo_rows ws (undo_row w m)"

section \<open>What the operations on tables leave alone\<close>

definition shape :: "('r, 'z) sm_scheme \<Rightarrow> string \<Rightarrow> (int \<times> int) option" where
  "shape s t = map_option (\<lambda>(fd, h). (record_size h, num_records_per_page h)) (map_of (fhs s) t)"

definition static :: "('r, 'z) sm_scheme \<Rightarrow> ('r, 'z) sm_scheme \<Rightarrow> bool" where
  "static s s' \<longleftrightarrow> sm_db s' = sm_db s \<and> shape s' = shape s"

text \<open>Every file has at most \<open>k\<close> pages more than before, and there is room for \<open>k\<close> pages in every file.\<close>

definition pages_of :: "('r, 'z) sm_scheme \<Rightarrow> string \<Rightarrow> int" where
  "pages_of s t = (case map_of (fhs s) t of None \<Rightarrow> 0 | Some (fd, h) \<Rightarrow> num_pages h)"

definition grows :: "int \<Rightarrow> ('r, 'z) sm_scheme \<Rightarrow> ('r, 'z) sm_scheme \<Rightarrow> bool" where
  "grows k s s' \<longleftrightarrow> (\<forall>t. pages_of s' t \<le> pages_of s t + k)"

definition room :: "int \<Rightarrow> ('r, 'z) sm_scheme \<Rightarrow> bool" where
  "room k s \<longleftrightarrow> (\<forall>t. pages_of s t + k < 2 ^ 31)"

text \<open>An open table without indexes.\<close>

definition plain :: "('r, 'z) sm_scheme \<Rightarrow> string \<Rightarrow> bool" where
  "plain s t \<longleftrightarrow> (\<exists>m. get_table (sm_db s) t = Inr m \<and> indexes m = []) \<and> shape s t \<noteq> None"

lemma static_refl [simp]: "static s s"
  by (simp add: static_def)

lemma static_trans: "static s s1 \<Longrightarrow> static s1 s2 \<Longrightarrow> static s s2"
  by (simp add: static_def)

lemma static_plain: "static s s' \<Longrightarrow> plain s' t = plain s t"
  by (simp add: static_def plain_def)

lemma grows_refl [simp]: "0 \<le> k \<Longrightarrow> grows k s s"
  by (simp add: grows_def)

lemma grows_trans: "grows k s s1 \<Longrightarrow> grows j s1 s2 \<Longrightarrow> grows (k + j) s s2"
  unfolding grows_def by (metis (no_types, opaque_lifting) add.assoc add_right_mono order_trans)

lemma grows_room: "grows k s s' \<Longrightarrow> room (k + j) s \<Longrightarrow> room j s'"
proof (unfold grows_def room_def, rule allI)
  fix t
  assume a: "\<forall>t. pages_of s' t \<le> pages_of s t + k" "\<forall>t. pages_of s t + (k + j) < 2 ^ 31"
  show "pages_of s' t + j < 2 ^ 31" using a [THEN spec, of t] by linarith
qed

lemma pages_of_table: "table_of t s = Some f \<Longrightarrow> pages_of s t = num_pages (rm_hdr f)"
  by (auto simp: table_of_def pages_of_def)

lemma shape_table: "table_of t s = Some f \<Longrightarrow> shape s t = Some (record_size (rm_hdr f), num_records_per_page (rm_hdr f))"
  by (auto simp: table_of_def shape_def)

lemma plain_table: "plain s t \<Longrightarrow> \<exists>f. table_of t s = Some f"
  by (auto simp: plain_def shape_def table_of_def)

lemma more_sys:
  assumes "sm.more s' = sm.more s"
  shows "txn_map s' = txn_map s" "sy_locks s' = sy_locks s" "sy_log s' = sy_log s"
  using assms by (cases s; cases s'; simp)+

section \<open>Operations on one table\<close>

context replacer begin

text \<open>A step has changed the records to \<open>m\<close> and at most added \<open>k\<close> pages to a file.\<close>

definition stepped :: "int \<Rightarrow> int set \<Rightarrow> ('r, 'z) sm_scheme \<Rightarrow> ('r, 'z) sm_scheme \<Rightarrow> (string \<Rightarrow> rid \<rightharpoonup> bytes) \<Rightarrow> bool" where
  "stepped k F s s' m \<longleftrightarrow> db_ok F s' \<and> rows s' = m \<and> static s s' \<and> grows k s s' \<and> sm.more s' = sm.more s"

lemma steppedD:
  assumes "stepped k F s s' m"
  shows "db_ok F s'" "rows s' = m" "static s s'" "grows k s s'" "sm.more s' = sm.more s"
  using assms by (simp_all add: stepped_def)

lemma table_step:
  assumes "db_ok F s" and "table_of t s = Some f" and "m f = (x, f')" and "table_pages F f'" and "others F f f'"
    and "record_size (rm_hdr f') = record_size (rm_hdr f)" and "num_records_per_page (rm_hdr f') = num_records_per_page (rm_hdr f)"
    and "num_pages (rm_hdr f') \<le> num_pages (rm_hdr f) + k" and "0 \<le> k"
  shows "on_table t m s = (x, put_table t f' s)" and "stepped k F s (put_table t f' s) ((rows s)(t := records f'))"
    and "tables_ok F s \<Longrightarrow> table_file F f' \<Longrightarrow> tables_ok F (put_table t f' s)"
proof -
  let ?s = "put_table t f' s"
  note ot = on_table_ok [where m = m, OF assms(1-5)]
  show "on_table t m s = (x, ?s)" by (rule ot(1))
  have fh: "map_of (fhs ?s) t = Some (rm_fd f', rm_hdr f')" by (simp add: put_table_def update_conv')
  have "shape ?s t' = shape s t'" for t'
    using shape_table [OF assms(2)] ot(4) [of t'] fh assms(6,7) by (cases "t' = t") (auto simp: shape_def)
  then have "static s ?s" by (auto simp: static_def)
  moreover have "pages_of ?s t' \<le> pages_of s t' + k" for t'
    using pages_of_table [OF assms(2)] ot(4) [of t'] fh assms(8,9) by (cases "t' = t") (auto simp: pages_of_def)
  ultimately show "stepped k F s ?s ((rows s)(t := records f'))"
    using ot(2,3) by (simp add: stepped_def grows_def)
  assume tk: "tables_ok F s" and tf: "table_file F f'"
  have "table_file F g" if g: "table_of t' ?s = Some g" for t' g
  proof (cases "t' = t")
    case True
    with g tf show ?thesis by (simp add: table_of_put)
  next
    case False
    with g obtain g0 where g0: "table_of t' s = Some g0" "g = g0\<lparr>rm_pool := rm_pool f'\<rparr>" by (auto simp: table_of_put)
    have "rm_fd g0 \<noteq> rm_fd f" using assms(1,2) g0(1) False by (auto simp: db_ok_def)
    with other_table(3) [OF db_okD [OF assms(1) g0(1)] assms(4,5)] table_of_pool [OF g0(1)] table_of_pool [OF assms(2)] tk g0
    show ?thesis by (simp add: tables_ok_def)
  qed
  then show "tables_ok F ?s" using ot(2) by (simp add: tables_ok_def)
qed

lemma row_bounds:
  assumes "db_ok F s" and "table_of t s = Some f" and "rows s t r = Some b"
  shows "record_page (rm_hdr f) (page_no r)" "slot_ok (rm_hdr f) (slot_no r)" "length b = nat (record_size (rm_hdr f))"
    "is_i32 (page_no r + 1)" "RM_FIRST_RECORD_PAGE \<le> page_no r"
proof -
  have r: "records f r = Some b" using assms(2,3) by simp
  note td = table_pagesD [OF db_okD [OF assms(1,2)]]
  show rb: "record_page (rm_hdr f) (page_no r)" "slot_ok (rm_hdr f) (slot_no r)" using records_bounds [of f r] r by auto
  then show "is_i32 (page_no r + 1)" "RM_FIRST_RECORD_PAGE \<le> page_no r"
    using td(5) by (auto simp: record_page_def is_i32_def RM_FIRST_RECORD_PAGE_def)
  have "b = get_slot (rm_hdr f) (slot_no r) (file_page f (page_no r))" using r rb by (auto simp: records_def page_record_def split: if_splits)
  moreover have "length (file_page f (page_no r)) = PAGE_SIZE" using td(7) [OF rb(1)] by (simp add: page_ok_def)
  ultimately show "length b = nat (record_size (rm_hdr f))" using layoutD(4) [OF td(3) rb(2)] by (simp add: get_slot_def)
qed

text \<open>
  Each operation on the records of a table. A record number outside of the file throws as a missing
  record does.
\<close>

lemma get_step:
  assumes "db_ok F s" and "table_of t s = Some f"
  shows "\<exists>e s'. on_table t (get_record R r) s = (case rows s t r of None \<Rightarrow> Inl e | Some b \<Rightarrow> Inr b, s') \<and>
    stepped 0 F s s' (rows s) \<and> (tables_ok F s \<longrightarrow> tables_ok F s')"
proof -
  have tp: "table_pages F f" by (rule db_okD [OF assms])
  have "\<exists>e f'. get_record R r f = (case records f r of None \<Rightarrow> Inl e | Some b \<Rightarrow> Inr b, f') \<and> table_pages F f' \<and> others F f f' \<and>
      rm_hdr f' = rm_hdr f \<and> records f' = records f \<and> (table_file F f \<longrightarrow> table_file F f')"
  proof (cases "record_page (rm_hdr f) (page_no r)")
    case True
    from get_record_ok [OF tp True] show ?thesis by (cases "records f r") auto
  next
    case False
    from bad_page_throws [OF this] bad_page_none [OF this] tp show ?thesis by (auto simp: get_record_def)
  qed
  then obtain e f' where g: "get_record R r f = (case records f r of None \<Rightarrow> Inl e | Some b \<Rightarrow> Inr b, f')"
    "table_pages F f'" "others F f f'" "rm_hdr f' = rm_hdr f" "records f' = records f" "table_file F f \<longrightarrow> table_file F f'" by blast
  have "(rows s)(t := records f') = rows s" using g(5) assms(2) by (simp add: fun_upd_idem)
  moreover note ts = table_step [where m = "get_record R r", OF assms g(1-3), of 0]
  moreover have "table_file F f" if "tables_ok F s" using that assms(2) by (simp add: tables_ok_def)
  ultimately show ?thesis using g(4,6) assms(2) by auto
qed

lemma delete_step:
  assumes "db_ok F s" and "rows s t r = Some b" and "table_of t s = Some f"
  shows "\<exists>s'. on_table t (delete_record R r) s = Ret () s' \<and> stepped 0 F s s' ((rows s)(t := (rows s t)(r := None))) \<and>
    (tables_ok F s \<longrightarrow> tables_ok F s')"
proof -
  from delete_record_ok [OF db_okD [OF assms(1,3)] row_bounds(1) [OF assms(1,3,2)]] assms(2,3) obtain f' where
    g: "delete_record R r f = Ret () f'" "table_pages F f'" "others F f f'" "table_file F f \<longrightarrow> table_file F f'"
    "hdr_step 0 (rm_hdr f) (rm_hdr f')" "records f' = (records f)(r := None)" by auto
  have "table_file F f" if "tables_ok F s" using that assms(3) by (simp add: tables_ok_def)
  with table_step [where m = "delete_record R r", OF assms(1,3) g(1-3), of 0] g(4-6) assms(3) show ?thesis
    by (auto simp: hdr_step_def)
qed

lemma update_step:
  assumes "db_ok F s" and "rows s t r = Some b" and "table_of t s = Some f" and "length b \<le> length buf"
  shows "\<exists>s'. on_table t (update_record R r buf) s = Ret () s' \<and> stepped 0 F s s' ((rows s)(t := (rows s t)(r \<mapsto> take (length b) buf))) \<and>
    (tables_ok F s \<longrightarrow> tables_ok F s')"
proof -
  note rb = row_bounds [OF assms(1,3,2)]
  from update_record_ok [OF db_okD [OF assms(1,3)] rb(1), of buf] rb(3) assms(2-4) obtain f' where
    g: "update_record R r buf f = Ret () f'" "table_pages F f'" "others F f f'" "table_file F f \<longrightarrow> table_file F f'"
    "hdr_step 0 (rm_hdr f) (rm_hdr f')" "records f' = (records f)(r \<mapsto> take (length b) buf)" by auto
  have "table_file F f" if "tables_ok F s" using that assms(3) by (simp add: tables_ok_def)
  with table_step [where m = "update_record R r buf", OF assms(1,3) g(1-3), of 0] g(4-6) assms(3) show ?thesis
    by (auto simp: hdr_step_def)
qed

lemma insert_step:
  assumes "tables_ok F s" and "table_of t s = Some f" and "nat (record_size (rm_hdr f)) \<le> length buf" and "room 1 s"
  shows "\<exists>r s'. on_table t (insert_record R buf) s = Ret r s' \<and> rows s t r = None \<and>
    stepped 1 F s s' ((rows s)(t := (rows s t)(r \<mapsto> take (nat (record_size (rm_hdr f))) buf))) \<and> tables_ok F s'"
proof -
  have tf: "table_file F f" using assms(1,2) by (simp add: tables_ok_def)
  have "is_i32 (num_pages (rm_hdr f) + 1)"
    using assms(4) [unfolded room_def, THEN spec, of t] pages_of_table [OF assms(2)] table_fileD(4) [OF tf] by (simp add: is_i32_def)
  from insert_record_ok [OF tf this assms(3)] obtain r f' where
    g: "insert_record R buf f = Ret r f'" "table_file F f'" "others F f f'" "hdr_step 1 (rm_hdr f) (rm_hdr f')" "records f r = None"
    "records f' = (records f)(r \<mapsto> take (nat (record_size (rm_hdr f))) buf)" by blast
  from table_step [where m = "insert_record R buf", OF tables_ok_db [OF assms(1)] assms(2) g(1) table_file_pages [OF g(2)] g(3), of 1]
    g(2,4-6) assms(1,2) show ?thesis by (auto simp: hdr_step_def)
qed

lemma insert_at_step:
  assumes "db_ok F s" and "table_of t s = Some f" and "rows s t r = None" and "nat (record_size (rm_hdr f)) = length buf"
    and "RM_FIRST_RECORD_PAGE \<le> page_no r" and "is_i32 (page_no r + 1)" and "slot_ok (rm_hdr f) (slot_no r)"
  shows "\<exists>s'. on_table t (insert_record_at R r buf) s = Ret () s' \<and> db_ok F s' \<and> rows s' = (rows s)(t := (rows s t)(r \<mapsto> buf)) \<and>
    static s s' \<and> sm.more s' = sm.more s"
proof -
  from insert_record_at_ok [OF db_okD [OF assms(1,2)] assms(5,6), of buf] assms(2-4,7) obtain f' where
    g: "insert_record_at R r buf f = Ret () f'" "table_pages F f'" "others F f f'"
    "record_size (rm_hdr f') = record_size (rm_hdr f)" "num_records_per_page (rm_hdr f') = num_records_per_page (rm_hdr f)"
    "num_pages (rm_hdr f) \<le> num_pages (rm_hdr f')" "records f' = (records f)(r \<mapsto> buf)" by auto
  from table_step [where m = "insert_record_at R r buf", OF assms(1,2) g(1-5), of "num_pages (rm_hdr f') - num_pages (rm_hdr f)"]
    g(6,7) assms(2) show ?thesis by (auto simp: stepped_def)
qed

end

section \<open>Abort\<close>

text \<open>What a write record says about the current records, and that it can be taken back.\<close>

definition write_fits :: "('r, 'z) sm_scheme \<Rightarrow> (string \<Rightarrow> rid \<rightharpoonup> bytes) \<Rightarrow> write_record \<Rightarrow> bool" where
  "write_fits s m w \<longleftrightarrow> plain s (wr_tab_name w) \<and>
     (case wtype w of
        INSERT_TUPLE \<Rightarrow> m (wr_tab_name w) (wr_rid w) \<noteq> None
      | UPDATE_TUPLE \<Rightarrow> (\<exists>b. m (wr_tab_name w) (wr_rid w) = Some b \<and> length b = length (wr_record w))
      | DELETE_TUPLE \<Rightarrow> m (wr_tab_name w) (wr_rid w) = None \<and>
          RM_FIRST_RECORD_PAGE \<le> page_no (wr_rid w) \<and> is_i32 (page_no (wr_rid w) + 1) \<and>
          (\<exists>sz n. shape s (wr_tab_name w) = Some (sz, n) \<and> nat sz = length (wr_record w) \<and>
             0 \<le> slot_no (wr_rid w) \<and> slot_no (wr_rid w) < n))"

primrec undoable :: "('r, 'z) sm_scheme \<Rightarrow> write_record list \<Rightarrow> (string \<Rightarrow> rid \<rightharpoonup> bytes) \<Rightarrow> bool" where
  "undoable s [] m \<longleftrightarrow> True"
| "undoable s (w # ws) m \<longleftrightarrow> write_fits s m w \<and> undoable s ws (undo_row w m)"

lemma static_fits: "static s s' \<Longrightarrow> write_fits s' m w = write_fits s m w"
  using static_plain [of s s' "wr_tab_name w"] by (cases "wtype w") (simp_all add: write_fits_def static_def)

lemma static_undoable: "static s s' \<Longrightarrow> undoable s' ws m = undoable s ws m"
  by (induction ws arbitrary: m) (simp_all add: static_fits)

lemma butlast_rev: "ws \<noteq> [] \<Longrightarrow> rev ws = last ws # rev (butlast ws)"
  by (cases ws rule: rev_cases) simp_all

text \<open>A change of the transaction table alone.\<close>

lemma txn_update_sel [simp]:
  "fhs (txn_update t g s) = fhs s" "sm_db (txn_update t g s) = sm_db s" "sm_pool (txn_update t g s) = sm_pool s"
  "sy_locks (txn_update t g s) = sy_locks s"
  by (cases "txn_map s t"; simp add: txn_update_def)+

lemma txn_update_map: "txn_map (txn_update t g s) = (txn_map s)(t := map_option g (txn_map s t))"
  by (auto simp: txn_update_def split: option.split)

lemma sm_only:
  assumes "fhs s' = fhs s" and "sm_db s' = sm_db s" and "sm_pool s' = sm_pool s"
  shows "rows s' = rows s" "static s s'" "pages_of s' = pages_of s" "plain s' = plain s"
  using assms by (auto simp: rows_def table_of_def static_def shape_def plain_def pages_of_def fun_eq_iff)

context replacer begin

lemma undo_write_ok:
  assumes "db_ok F s" and "write_fits s (rows s) w"
  shows "\<exists>s'. undo_write R w s = Ret () s' \<and> db_ok F s' \<and> rows s' = undo_row w (rows s) \<and> static s s' \<and> sm.more s' = sm.more s"
proof -
  let ?t = "wr_tab_name w" and ?r = "wr_rid w"
  have pl: "plain s ?t" using assms(2) by (simp add: write_fits_def)
  then obtain m where m: "get_table (sm_db s) ?t = Inr m" "indexes m = []" by (auto simp: plain_def)
  from plain_table [OF pl] obtain f where f: "table_of ?t s = Some f" by blast
  then have fh: "map_of (fhs s) ?t \<noteq> None" by (metis option.distinct(1) table_of_None)
  show ?thesis
  proof (cases "wtype w")
    case INSERT_TUPLE
    then obtain b where b: "rows s ?t ?r = Some b" using assms(2) by (auto simp: write_fits_def)
    from get_step [OF assms(1) f, of ?r] b obtain s1 where
      g: "on_table ?t (get_record R ?r) s = Ret b s1" "stepped 0 F s s1 (rows s)" by auto
    note sd = steppedD [OF g(2)]
    have "plain s1 ?t" using static_plain [OF sd(3)] pl by simp
    from plain_table [OF this] obtain f1 where f1: "table_of ?t s1 = Some f1" by blast
    from delete_step [OF sd(1) _ f1, of ?r b] sd(2) b obtain s2 where
      d: "on_table ?t (delete_record R ?r) s1 = Ret () s2" "stepped 0 F s1 s2 ((rows s)(?t := (rows s ?t)(?r := None)))" by auto
    have "undo_write R w s = Ret () s2" using m fh g(1) d(1) INSERT_TUPLE by (simp add: undo_write_def lift_sm_def Let_def)
    then show ?thesis using steppedD [OF d(2)] sd static_trans INSERT_TUPLE by (auto simp: undo_row_def)
  next
    case UPDATE_TUPLE
    then obtain b where b: "rows s ?t ?r = Some b" "length b = length (wr_record w)" using assms(2) by (auto simp: write_fits_def)
    from get_step [OF assms(1) f, of ?r] b obtain s1 where
      g: "on_table ?t (get_record R ?r) s = Ret b s1" "stepped 0 F s s1 (rows s)" by auto
    note sd = steppedD [OF g(2)]
    have "plain s1 ?t" using static_plain [OF sd(3)] pl by simp
    from plain_table [OF this] obtain f1 where f1: "table_of ?t s1 = Some f1" by blast
    from update_step [OF sd(1) _ f1, of ?r b "wr_record w"] sd(2) b obtain s2 where
      d: "on_table ?t (update_record R ?r (wr_record w)) s1 = Ret () s2"
      "stepped 0 F s1 s2 ((rows s)(?t := (rows s ?t)(?r \<mapsto> wr_record w)))" by auto
    have "undo_write R w s = Ret () s2" using m fh g(1) d(1) UPDATE_TUPLE by (simp add: undo_write_def lift_sm_def Let_def)
    then show ?thesis using steppedD [OF d(2)] sd static_trans UPDATE_TUPLE by (auto simp: undo_row_def)
  next
    case DELETE_TUPLE
    with assms(2) shape_table [OF f] have c: "rows s ?t ?r = None" "nat (record_size (rm_hdr f)) = length (wr_record w)"
      "RM_FIRST_RECORD_PAGE \<le> page_no ?r" "is_i32 (page_no ?r + 1)" "slot_ok (rm_hdr f) (slot_no ?r)"
      by (auto simp: write_fits_def)
    from insert_at_step [OF assms(1) f c] m fh DELETE_TUPLE show ?thesis
      by (auto simp: undo_write_def lift_sm_def Let_def undo_row_def)
  qed
qed

lemma undo_writes_ok:
  assumes "db_ok F s" and "txn_map s t = Some x" and "undoable s (rev (write_set x)) (rows s)"
  shows "\<exists>s' x'. undo_writes (length (write_set x)) R t s = Ret () s' \<and> db_ok F s' \<and>
    rows s' = undo_rows (rev (write_set x)) (rows s) \<and> txn_map s' t = Some x' \<and> static s s'"
  using assms
proof (induction "length (write_set x)" arbitrary: s x)
  case (Suc k)
  then have ne: "write_set x \<noteq> []" by auto
  let ?w = "last (write_set x)" and ?s = "txn_update t (\<lambda>x. x\<lparr>write_set := butlast (write_set x)\<rparr>) s"
  note so = sm_only [of ?s s, simplified]
  have rv: "rev (write_set x) = ?w # rev (butlast (write_set x))" by (rule butlast_rev [OF ne])
  have "same_tables F s ?s" by (rule same_tables_pool) simp_all
  then have db: "db_ok F ?s" using same_tables_ok(1) [OF Suc.prems(1)] by blast
  have fits: "write_fits ?s (rows ?s) ?w" using Suc.prems(3) so rv by (simp add: static_fits)
  from undo_write_ok [OF db fits] obtain s1 where
    u: "undo_write R ?w ?s = Ret () s1" "db_ok F s1" "rows s1 = undo_row ?w (rows s)" "static ?s s1" "sm.more s1 = sm.more ?s"
    using so(1) by auto
  let ?x = "x\<lparr>write_set := butlast (write_set x)\<rparr>"
  have x1: "txn_map s1 t = Some ?x" using more_sys(1) [OF u(5)] Suc.prems(2) by (simp add: txn_update_map)
  have st: "static s s1" using static_trans [OF so(2) u(4)] .
  have "undoable s1 (rev (write_set ?x)) (rows s1)" using Suc.prems(3) rv u(3) by (simp add: static_undoable [OF st])
  have k: "k = length (write_set ?x)" using Suc.hyps(2) by simp
  from Suc.hyps(1) [OF k u(2) x1 \<open>undoable s1 _ _\<close>, folded k] obtain s' x' where
    r: "undo_writes k R t s1 = Ret () s'" "db_ok F s'" "rows s' = undo_rows (rev (write_set ?x)) (rows s1)" "txn_map s' t = Some x'"
    "static s1 s'" by auto
  have "undo_writes (Suc k) R t s = Ret () s'" using Suc.prems(2) ne u(1) r(1) by simp
  moreover have "undo_rows (rev (write_set x)) (rows s) = undo_rows (rev (write_set ?x)) (rows s1)"
    unfolding rv u(3) by simp
  ultimately show ?case unfolding Suc.hyps(2) [symmetric] using r(2-4) static_trans [OF st r(5)] by auto
qed simp

text \<open>The transaction \<open>t\<close> has turned the records \<open>m\<close> into the current ones.\<close>

definition changed_from :: "(string \<Rightarrow> rid \<rightharpoonup> bytes) \<Rightarrow> int \<Rightarrow> 'r sys \<Rightarrow> bool" where
  "changed_from m t s \<longleftrightarrow> (\<exists>x. txn_map s t = Some x \<and> undoable s (rev (write_set x)) (rows s) \<and>
     undo_rows (rev (write_set x)) (rows s) = m)"

lemma log_for_frame:
  assumes "log_for t l s = (y, s')" and "txn_map s t = Some x"
  shows "same_tables F s s' \<and> (\<exists>x'. txn_map s' t = Some x' \<and> write_set x' = write_set x)"
proof -
  obtain z s1 where a: "on_log (add_log_to_buffer (l\<lparr>log_prev_lsn := prev_lsn x\<rparr>)) s = (z, s1)" by fastforce
  note f = on_log_frame [OF a]
  show ?thesis
  proof (cases z)
    case (Inl e)
    then show ?thesis using a assms f(1) [of F] f(2) by (auto simp: log_for_def)
  next
    case (Inr n)
    then have "s' = txn_update t (\<lambda>x. x\<lparr>prev_lsn := n\<rparr>) s1" using a assms by (simp add: log_for_def)
    moreover have "same_tables F s1 (txn_update t (\<lambda>x. x\<lparr>prev_lsn := n\<rparr>) s1)" by (rule same_tables_pool) simp_all
    ultimately show ?thesis using same_tables_trans [OF f(1) [of F]] f(2) assms(2) by (auto simp: txn_update_map)
  qed
qed

lemma unlock_all_frame: "same_tables F s (unlock_all t s)" "txn_map s t = Some x \<Longrightarrow> \<exists>x'. txn_map (unlock_all t s) t = Some x'"
proof -
  have "fhs (unlock_all t s) = fhs s \<and> sm_db (unlock_all t s) = sm_db s \<and> sm_pool (unlock_all t s) = sm_pool s \<and>
      (txn_map s t = Some x \<longrightarrow> (\<exists>x'. txn_map (unlock_all t s) t = Some x'))"
    by (cases "txn_map s t") (auto simp: unlock_all_def on_locks_def split: option.splits prod.splits)
  then show "same_tables F s (unlock_all t s)" "txn_map s t = Some x \<Longrightarrow> \<exists>x'. txn_map (unlock_all t s) t = Some x'"
    by (auto intro: same_tables_pool)
qed

lemma abort_ok:
  assumes "db_ok F s" and "changed_from m t s"
  shows "\<exists>y s'. txn_abort R (Some t) logged s = (y, s') \<and> db_ok F s' \<and> rows s' = m \<and> (\<not> logged \<longrightarrow> y = Inr ())"
proof -
  from assms(2) obtain x where
    x: "txn_map s t = Some x" "undoable s (rev (write_set x)) (rows s)" "undo_rows (rev (write_set x)) (rows s) = m"
    by (auto simp: changed_from_def)
  let ?s = "txn_update t (\<lambda>x. x\<lparr>txn_state := ABORTED\<rparr>) s" and ?x = "x\<lparr>txn_state := ABORTED\<rparr>"
  note so = sm_only [of ?s s, simplified]
  have "same_tables F s ?s" by (rule same_tables_pool) simp_all
  then have db: "db_ok F ?s" using same_tables_ok(1) [OF assms(1)] by blast
  have "txn_map ?s t = Some ?x" "undoable ?s (rev (write_set ?x)) (rows ?s)"
    using x so by (simp_all add: txn_update_map static_undoable [OF so(2)])
  from undo_writes_ok [OF db this] x(3) so(1) obtain s1 x1 where
    u: "undo_writes (length (write_set x)) R t ?s = Ret () s1" "db_ok F s1" "rows s1 = m" "txn_map s1 t = Some x1" by auto
  let ?s2 = "unlock_all t s1"
  note k = same_tables_ok [OF u(2) unlock_all_frame(1)]
  have ab: "txn_abort R (Some t) logged s = (if logged then log_for t (AbortLogRecord t) ?s2 else Ret () ?s2)"
    using x(1) u(1) by (simp add: txn_abort_def Let_def)
  show ?thesis
  proof (cases logged)
    case True
    from unlock_all_frame(2) [OF u(4)] obtain x2 where x2: "txn_map ?s2 t = Some x2" by blast
    obtain y s' where l: "log_for t (AbortLogRecord t) ?s2 = (y, s')" by fastforce
    from log_for_frame [OF l x2] have "same_tables F ?s2 s'" by blast
    from same_tables_ok [OF k(1) this] ab True l k(2) u(3) show ?thesis by auto
  next
    case False
    with ab k u(3) show ?thesis by auto
  qed
qed

end

end
