(* ===== verification/Recovery_Cells.thy ===== *)
theory Recovery_Cells
  imports Recovery Atomicity
begin

text \<open>
  Recovery on a single place of a single table. The changes that were logged for the place form a
  history; a crash leaves the place in the state after some part of the history; replaying all of it
  gives the last state, and taking changes back gives the earlier ones.
\<close>

section \<open>Histories of one place\<close>

text \<open>The changes as they happened, and what redo and undo do.\<close>

fun change_cell :: "log_body \<Rightarrow> bytes option \<Rightarrow> bytes option" where
  "change_cell (InsertBody v r t) c = Some v"
| "change_cell (DeleteBody v r t) c = None"
| "change_cell (UpdateBody old new r t) c = Some new"
| "change_cell _ c = c"

fun redo_cell :: "log_body \<Rightarrow> bytes option \<Rightarrow> bytes option" where
  "redo_cell (InsertBody v r t) c = (if c = None then Some v else c)"
| "redo_cell (DeleteBody v r t) c = None"
| "redo_cell (UpdateBody old new r t) c = (if c = None then None else Some new)"
| "redo_cell _ c = c"

fun undo_cell :: "log_body \<Rightarrow> bytes option \<Rightarrow> bytes option" where
  "undo_cell (InsertBody v r t) c = None"
| "undo_cell (DeleteBody v r t) c = (if c = None then Some v else c)"
| "undo_cell (UpdateBody old new r t) c = (if c = None then None else Some old)"
| "undo_cell _ c = c"

text \<open>A change fits the state it was made in.\<close>

fun change_fits :: "log_body \<Rightarrow> bytes option \<Rightarrow> bool" where
  "change_fits (InsertBody v r t) c \<longleftrightarrow> c = None"
| "change_fits (DeleteBody v r t) c \<longleftrightarrow> c = Some v"
| "change_fits (UpdateBody old new r t) c \<longleftrightarrow> c = Some old"
| "change_fits _ c \<longleftrightarrow> False"

primrec history :: "bytes option \<Rightarrow> log_body list \<Rightarrow> bool" where
  "history c [] \<longleftrightarrow> True"
| "history c (b # bs) \<longleftrightarrow> change_fits b c \<and> history (change_cell b c) bs"

abbreviation run_cell :: "log_body list \<Rightarrow> bytes option \<Rightarrow> bytes option" where
  "run_cell bs c \<equiv> fold change_cell bs c"

lemma history_append: "history c (xs @ ys) \<longleftrightarrow> history c xs \<and> history (run_cell xs c) ys"
  by (induction xs arbitrary: c) auto

lemma redo_fits: "change_fits b c \<Longrightarrow> redo_cell b c = change_cell b c"
  by (cases b) auto

lemma redo_in_step: "history c bs \<Longrightarrow> fold redo_cell bs c = run_cell bs c"
  by (induction bs arbitrary: c) (simp_all add: redo_fits)

lemma undo_change: "change_fits b c \<Longrightarrow> undo_cell b (change_cell b c) = c"
  by (cases b) auto

lemma undo_history: "history c bs \<Longrightarrow> foldr undo_cell bs (run_cell bs c) = c"
proof (induction bs arbitrary: c rule: rev_induct)
  case (snoc b bs)
  then have "history c bs" "change_fits b (run_cell bs c)" by (auto simp: history_append)
  with snoc.IH [of c] undo_change show ?case by simp
qed simp

text \<open>A deletion synchronises replay with the history, from any state.\<close>

lemma redo_after_delete:
  assumes "history c (xs @ DeleteBody v r t # ys)"
  shows "fold redo_cell (xs @ DeleteBody v r t # ys) d = run_cell (xs @ DeleteBody v r t # ys) c"
  using assms redo_in_step [of None ys] by (simp add: history_append)

text \<open>Without a deletion a place that has a record keeps one.\<close>

lemma redo_keeps_record:
  "\<forall>b \<in> set bs. \<forall>v r t. b \<noteq> DeleteBody v r t \<Longrightarrow> d \<noteq> None \<Longrightarrow> fold redo_cell bs d \<noteq> None"
proof (induction bs arbitrary: d)
  case (Cons b bs)
  then have "redo_cell b d \<noteq> None" by (cases b) auto
  with Cons show ?case by simp
qed simp

lemma history_no_delete:
  "history c bs \<Longrightarrow> \<forall>b \<in> set bs. \<forall>v r t. b \<noteq> DeleteBody v r t \<Longrightarrow> c \<noteq> None \<Longrightarrow> run_cell bs c \<noteq> None"
  using redo_keeps_record redo_in_step by metis

text \<open>Replaying a part of the history from its last state leads back to that state.\<close>

lemma redo_prefix: "history c bs \<Longrightarrow> fold redo_cell bs (run_cell bs c) = run_cell bs c"
proof (induction bs rule: rev_induct)
  case (snoc b bs)
  have h: "history c bs" "change_fits b (run_cell bs c)" using snoc.prems by (auto simp: history_append)
  show ?case
  proof (cases "\<exists>v r t. DeleteBody v r t \<in> set (bs @ [b])")
    case True
    then obtain v r t xs ys where s: "bs @ [b] = xs @ DeleteBody v r t # ys" by (metis split_list)
    then show ?thesis using redo_after_delete [of c xs v r t ys "run_cell (bs @ [b]) c"] snoc.prems by simp
  next
    case False
    then have nd: "\<forall>b \<in> set bs. \<forall>v r t. b \<noteq> DeleteBody v r t" by fastforce
    show ?thesis
    proof (cases b)
      case (UpdateBody old new r t)
      then have "run_cell (bs @ [b]) c = Some new" by simp
      with redo_keeps_record [OF nd, of "Some new"] UpdateBody show ?thesis by auto
    next
      case (InsertBody v r t)
      with h(2) have "run_cell bs c = None" by simp
      moreover have "bs = []"
      proof (rule ccontr)
        assume "bs \<noteq> []"
        then obtain x xs where bs: "bs = x # xs" by (cases bs) auto
        then have "change_cell x c \<noteq> None" using h(1) nd by (cases x) auto
        with history_no_delete [of "change_cell x c" xs] h(1) nd bs \<open>run_cell bs c = None\<close> show False by simp
      qed
      ultimately show ?thesis using InsertBody by simp
    qed (use h(2) False in auto)
  qed
qed simp

text \<open>Redo after a crash: from the state after any part of the history, it leads to the last state.\<close>

lemma redo_cell_ok: "history c bs \<Longrightarrow> fold redo_cell bs (run_cell (take n bs) c) = run_cell bs c"
proof -
  assume h: "history c bs"
  have "history c (take n bs)" "history (run_cell (take n bs) c) (drop n bs)"
    using h history_append [of c "take n bs" "drop n bs"] by simp_all
  then have "fold redo_cell (take n bs @ drop n bs) (run_cell (take n bs) c) = run_cell (take n bs @ drop n bs) c"
    unfolding fold_append comp_apply by (simp add: redo_prefix redo_in_step)
  then show ?thesis by simp
qed

section \<open>Replaying on one file\<close>

fun body_rid :: "log_body \<Rightarrow> rid" where
  "body_rid (InsertBody v r t) = r"
| "body_rid (DeleteBody v r t) = r"
| "body_rid (UpdateBody old new r t) = r"
| "body_rid _ = Rid 0 0"

fun body_values :: "log_body \<Rightarrow> bytes list" where
  "body_values (InsertBody v r t) = [v]"
| "body_values (DeleteBody v r t) = [v]"
| "body_values (UpdateBody old new r t) = [old, new]"
| "body_values _ = []"

text \<open>A change that can belong to a file with records of \<open>sz\<close> bytes, \<open>n\<close> to a page.\<close>

definition body_ok :: "int \<Rightarrow> int \<Rightarrow> log_body \<Rightarrow> bool" where
  "body_ok sz n b \<longleftrightarrow> (\<forall>v \<in> set (body_values b). length v = nat sz) \<and> RM_FIRST_RECORD_PAGE \<le> page_no (body_rid b) \<and>
     is_i32 (page_no (body_rid b) + 1) \<and> 0 \<le> slot_no (body_rid b) \<and> slot_no (body_rid b) < n"

context replacer begin

text \<open>The file \<open>f'\<close> is \<open>f\<close> with one place changed; it may have grown.\<close>

definition cell_step :: "int set \<Rightarrow> 'r rm_file \<Rightarrow> rid \<Rightarrow> bytes option \<Rightarrow> 'r rm_file \<Rightarrow> bool" where
  "cell_step F f r c f' \<longleftrightarrow> table_pages F f' \<and> others F f f' \<and> record_size (rm_hdr f') = record_size (rm_hdr f) \<and>
     num_records_per_page (rm_hdr f') = num_records_per_page (rm_hdr f) \<and> num_pages (rm_hdr f) \<le> num_pages (rm_hdr f') \<and>
     records f' = (records f)(r := c)"

lemma cell_step_trans: "cell_step F f r c f1 \<Longrightarrow> cell_step F f1 r c' f2 \<Longrightarrow> cell_step F f r c' f2"
  using others_trans [of F f f1 f2] by (auto simp: cell_step_def)

lemma has_record_ok:
  assumes "table_pages F f"
  shows "\<exists>f'. has_record R r f = Ret (records f r \<noteq> None) f' \<and> cell_step F f r (records f r) f' \<and> rm_hdr f' = rm_hdr f"
proof (cases "record_page (rm_hdr f) (page_no r)")
  case True
  from fetch_ok [OF assms True] obtain i f1 where p: "fetch_page_handle R (page_no r) f = Ret i f1"
    and h: "rm_hdr f1 = rm_hdr f" and b: "borrowed F f (page_no r) (file_page f (page_no r)) i f1"
    and se: "settled F f (unpin R (page_no r) False f1) (page_no r) (file_page f (page_no r))"
    and n: "fd2pageno (disk_st (rm_pool (unpin R (page_no r) False f1))) = fd2pageno (disk_st (rm_pool f))"
    by metis
  note ss = settled_same [OF assms se True _ n, simplified, OF h]
  have "has_record R r f = Ret (records f r \<noteq> None) (unpin R (page_no r) False f1)"
    using p no_record_iff [OF True h b] True by (auto simp: has_record_def is_record_def record_page_def)
  moreover have "cell_step F f r (records f r) (unpin R (page_no r) False f1)" "rm_hdr (unpin R (page_no r) False f1) = rm_hdr f"
    using ss h by (simp_all add: cell_step_def)
  ultimately show ?thesis by blast
next
  case False
  then have "has_record R r f = Ret False f" by (auto simp: has_record_def record_page_def)
  with bad_page_none [OF False] assms show ?thesis by (simp add: cell_step_def fun_upd_idem)
qed

lemma ensure_record_ok:
  assumes "table_pages F f" and "length v = nat (record_size (rm_hdr f))" and "RM_FIRST_RECORD_PAGE \<le> page_no r"
    and "is_i32 (page_no r + 1)" and "slot_ok (rm_hdr f) (slot_no r)"
  shows "\<exists>f'. ensure_record R r v f = Ret () f' \<and> cell_step F f r (if records f r = None then Some v else records f r) f'"
proof -
  from has_record_ok [OF assms(1), of r] obtain f1 where
    h: "has_record R r f = Ret (records f r \<noteq> None) f1" "cell_step F f r (records f r) f1" "rm_hdr f1 = rm_hdr f" by blast
  show ?thesis
  proof (cases "records f r")
    case None
    have "table_pages F f1" "records f1 r = None" using h(2) None by (auto simp: cell_step_def)
    with insert_record_at_ok [of F f1 r v] assms(2-5) h(3) obtain f2 where
      "insert_record_at R r v f1 = Ret () f2" "cell_step F f1 r (Some v) f2" by (auto simp: cell_step_def)
    with h None cell_step_trans [OF h(2)] show ?thesis by (auto simp: ensure_record_def)
  next
    case (Some b)
    with h show ?thesis by (auto simp: ensure_record_def)
  qed
qed

lemma ensure_no_record_ok:
  assumes "table_pages F f"
  shows "\<exists>f'. ensure_no_record R r f = Ret () f' \<and> cell_step F f r None f'"
proof -
  from has_record_ok [OF assms, of r] obtain f1 where
    h: "has_record R r f = Ret (records f r \<noteq> None) f1" "cell_step F f r (records f r) f1" by blast
  show ?thesis
  proof (cases "records f r")
    case (Some b)
    have t: "table_pages F f1" "records f1 r = Some b" using h(2) Some by (auto simp: cell_step_def)
    with delete_record_ok [OF t(1), of r] records_bounds(1) [of f1 r] obtain f2 where
      "delete_record R r f1 = Ret () f2" "cell_step F f1 r None f2" by (auto simp: cell_step_def hdr_step_def)
    with h Some cell_step_trans [OF h(2)] show ?thesis by (auto simp: ensure_no_record_def)
  qed (use h in \<open>auto simp: ensure_no_record_def\<close>)
qed

lemma overwrite_record_ok:
  assumes "table_pages F f" and "length v = nat (record_size (rm_hdr f))"
  shows "\<exists>f'. overwrite_record R r v f = Ret () f' \<and> cell_step F f r (if records f r = None then None else Some v) f'"
proof -
  from has_record_ok [OF assms(1), of r] obtain f1 where
    h: "has_record R r f = Ret (records f r \<noteq> None) f1" "cell_step F f r (records f r) f1" "rm_hdr f1 = rm_hdr f" by blast
  show ?thesis
  proof (cases "records f r")
    case (Some b)
    have t: "table_pages F f1" "records f1 r = Some b" using h(2) Some by (auto simp: cell_step_def)
    with update_record_ok [OF t(1), of r v] records_bounds(1) [of f1 r] assms(2) h(3) obtain f2 where
      "update_record R r v f1 = Ret () f2" "cell_step F f1 r (Some v) f2" by (auto simp: cell_step_def hdr_step_def)
    with h Some cell_step_trans [OF h(2)] show ?thesis by (auto simp: overwrite_record_def)
  qed (use h in \<open>auto simp: overwrite_record_def\<close>)
qed

lemma replay_body_ok:
  assumes "table_pages F f" and "body_ok (record_size (rm_hdr f)) (num_records_per_page (rm_hdr f)) b" and "body_values b \<noteq> []"
  shows "\<exists>f'. redo_body R b f = Ret () f' \<and> cell_step F f (body_rid b) (redo_cell b (records f (body_rid b))) f'"
    and "\<exists>f'. undo_body R b f = Ret () f' \<and> cell_step F f (body_rid b) (undo_cell b (records f (body_rid b))) f'"
  using assms ensure_record_ok [OF assms(1)] ensure_no_record_ok [OF assms(1)] overwrite_record_ok [OF assms(1)]
  by (cases b; simp add: body_ok_def)+

end

end
