(* ===== verification/Atomicity_Dml.thy ===== *)
theory Atomicity_Dml
  imports Atomicity
begin

text \<open>
  The executors that change tables record in the write set of the transaction how to take their
  changes back, so that aborting restores the tables, on the LRU buffer pool.
\<close>

section \<open>What the executors record\<close>

lemma grows_mono: "grows j s s' \<Longrightarrow> j \<le> k \<Longrightarrow> grows k s s'"
  unfolding grows_def by (meson add_left_mono order_trans)

lemma room_mono: "room k s \<Longrightarrow> j \<le> k \<Longrightarrow> room j s"
  unfolding room_def by (meson add_left_mono le_less_trans)

lemma length_blit_ge: "length dst \<le> length (blit dst off src)"
  by (auto simp: blit_def)

lemma make_row_length: "make_row cs vs buf = Inr b \<Longrightarrow> length buf \<le> length b"
proof (induction cs vs buf rule: make_row.induct)
  case (1 c cs v vs buf)
  from "1.prems" obtain b' where
    "make_row cs vs (blit buf (nat (cm_offset c)) (take (nat (cm_len c)) b')) = Inr b"
    "(case raw v of Some b \<Rightarrow> Inr b | None \<Rightarrow> raw_bytes (vdata v) (cm_len c)) = Inr b'" "\<not> cm_type c \<noteq> value_type (vdata v)"
    by (auto split: if_splits sum.splits)
  with "1.IH" show ?case using length_blit_ge le_trans by blast
qed auto

lemma apply_clauses_length: "apply_clauses m cs buf = Inr b \<Longrightarrow> length buf \<le> length b"
proof (induction cs arbitrary: buf)
  case (Cons c cs)
  from Cons.prems obtain off src where "apply_clauses m cs (blit buf off src) = Inr b" by (auto split: sum.splits option.splits)
  from Cons.IH [OF this] show ?case using length_blit_ge [of buf off src] by linarith
qed simp

context replacer begin

lemma changed_same:
  assumes "changed_from m t s" and "txn_map s t = Some x" and "txn_map s' t = Some x'" and "write_set x' = write_set x"
    and "static s s'" and "rows s' = rows s"
  shows "changed_from m t s'"
  using assms static_undoable [OF assms(5)] by (auto simp: changed_from_def)

lemma changed_snoc:
  assumes "changed_from m t s" and "txn_map s t = Some x" and "txn_map s' t = Some x'" and "write_set x' = write_set x @ [w]"
    and "static s s'" and "write_fits s' (rows s') w" and "undo_row w (rows s') = rows s"
  shows "changed_from m t s'"
  using assms static_undoable [OF assms(5)] static_fits [OF assms(5)] by (auto simp: changed_from_def)

lemma same_tables_static: "same_tables F s s' \<Longrightarrow> static s s' \<and> pages_of s' = pages_of s"
  by (auto simp: same_tables_def static_def shape_def pages_of_def fun_eq_iff)

lemma log_if_frame:
  assumes "log_if logged t l s = (y, s')" and "txn_map s t = Some x"
  shows "same_tables F s s' \<and> (\<exists>x'. txn_map s' t = Some x' \<and> write_set x' = write_set x) \<and> (\<not> logged \<longrightarrow> y = Inr ())"
  using assms log_for_frame [of t l s y s' x F] same_tables_refl by (auto simp: log_if_def split: if_splits)

lemma append_write_frame:
  "same_tables F s (append_write t w s)"
  "txn_map s t = Some x \<Longrightarrow> \<exists>x'. txn_map (append_write t w s) t = Some x' \<and> write_set x' = write_set x @ [w]"
  by (auto intro: same_tables_pool simp: append_write_def txn_update_map)

text \<open>Writing a log record and noting a write: the tables stay as they are.\<close>

lemma log_then_note:
  assumes "tables_ok F s" and "txn_map s t = Some x"
  shows "\<exists>z s2 x2 x3. log_if logged t l s = (z, s2) \<and> (\<not> logged \<longrightarrow> z = Inr ()) \<and>
    tables_ok F s2 \<and> rows s2 = rows s \<and> static s s2 \<and> grows 0 s s2 \<and> txn_map s2 t = Some x2 \<and> write_set x2 = write_set x \<and>
    tables_ok F (append_write t w s2) \<and> rows (append_write t w s2) = rows s \<and> static s (append_write t w s2) \<and>
    grows 0 s (append_write t w s2) \<and> txn_map (append_write t w s2) t = Some x3 \<and> write_set x3 = write_set x @ [w]"
proof -
  obtain z s2 where l: "log_if logged t l s = (z, s2)" by fastforce
  from log_if_frame [OF l assms(2), of F] obtain x2 where
    lf: "same_tables F s s2" "txn_map s2 t = Some x2" "write_set x2 = write_set x" "\<not> logged \<longrightarrow> z = Inr ()" by blast
  from append_write_frame(2) [OF lf(2), of w] obtain x3 where
    x3: "txn_map (append_write t w s2) t = Some x3" "write_set x3 = write_set x @ [w]" using lf(3) by auto
  note st = same_tables_trans [OF lf(1) append_write_frame(1) [of F s2 t w]]
  have "grows 0 s s2" "grows 0 s (append_write t w s2)" "static s s2" "static s (append_write t w s2)"
    using same_tables_static [OF lf(1)] same_tables_static [OF st] by (simp_all add: grows_def)
  then show ?thesis
    using l lf x3 same_tables_ok [OF tables_ok_db [OF assms(1)] lf(1)] same_tables_ok [OF tables_ok_db [OF assms(1)] st] assms(1) by auto
qed

lemma insert_next_ok:
  assumes "tables_ok F s" and "changed_from m t s" and "plain s (in_tab_name e)" and "indexes (in_tab e) = []" and "room 1 s"
  shows "\<exists>y s'. insert_next R logged t e s = (y, s') \<and> tables_ok F s' \<and> static s s' \<and> grows 1 s s' \<and>
    (\<not> logged \<or> \<not> isl y \<longrightarrow> changed_from m t s') \<and>
    (\<forall>r. y = Inr r \<longrightarrow> rows s (in_tab_name e) r = None \<and>
       (\<exists>b. rows s' = (rows s)(in_tab_name e := (rows s (in_tab_name e))(r \<mapsto> b))))"
proof -
  let ?t = "in_tab_name e"
  from plain_table [OF assms(3)] obtain f where f: "table_of ?t s = Some f" by blast
  then obtain fd where fh: "map_of (fhs s) ?t = Some (fd, rm_hdr f)" by (auto simp: table_of_def)
  from assms(2) obtain x where x: "txn_map s t = Some x" by (auto simp: changed_from_def)
  show ?thesis
  proof (cases "make_row (tm_cols (in_tab e)) (in_values e) (zeros (nat (record_size (rm_hdr f))))")
    case (Inl err)
    then show ?thesis using fh assms(1,2) by (simp add: insert_next_def)
  next
    case (Inr b)
    then have "nat (record_size (rm_hdr f)) \<le> length b" using make_row_length [OF Inr] by (simp add: zeros_def)
    from insert_step [OF assms(1) f this assms(5)] obtain r s1 where
      i: "on_table ?t (insert_record R b) s = Ret r s1" "rows s ?t r = None"
      "stepped 1 F s s1 ((rows s)(?t := (rows s ?t)(r \<mapsto> take (nat (record_size (rm_hdr f))) b)))" "tables_ok F s1" by blast
    note sd = steppedD [OF i(3)]
    have x1: "txn_map s1 t = Some x" using more_sys(1) [OF sd(5)] x by simp
    define w where "w = \<lparr>wtype = INSERT_TUPLE, wr_tab_name = ?t, wr_rid = r, wr_record = []\<rparr>"
    from log_then_note [OF i(4) x1, of logged "InsertLogRecord t b r ?t" w] obtain z s2 x3 where
      l: "log_if logged t (InsertLogRecord t b r ?t) s1 = (z, s2)" "\<not> logged \<longrightarrow> z = Inr ()" "tables_ok F s2" "static s1 s2" "grows 0 s1 s2"
      and n: "tables_ok F (append_write t w s2)" "rows (append_write t w s2) = rows s1" "static s1 (append_write t w s2)"
        "grows 0 s1 (append_write t w s2)" "txn_map (append_write t w s2) t = Some x3" "write_set x3 = write_set x @ [w]" by blast
    have st: "static s s2" "grows 1 s s2" "static s (append_write t w s2)" "grows 1 s (append_write t w s2)"
      using static_trans [OF sd(3)] grows_trans [OF sd(4)] l(4,5) n(3,4) by fastforce+
    have ex: "insert_next R logged t e s = (case z of Inl err \<Rightarrow> Throw err s2 | Inr _ \<Rightarrow> Ret r (append_write t w s2))"
      using fh Inr i(1) assms(4) l by (simp add: insert_next_def Let_def w_def split: sum.split)
    show ?thesis
    proof (cases z)
      case (Inl err)
      with ex l st show ?thesis by auto
    next
      case (Inr u)
      have "write_fits (append_write t w s2) (rows (append_write t w s2)) w"
        using assms(3) static_plain [OF st(3)] n(2) sd(2) by (simp add: write_fits_def w_def)
      moreover have "undo_row w (rows (append_write t w s2)) = rows s" using n(2) sd(2) i(2) by (simp add: undo_row_def w_def fun_upd_idem)
      ultimately have "changed_from m t (append_write t w s2)" by (rule changed_snoc [OF assms(2) x n(5,6) st(3)])
      with ex Inr n(1,2) st sd(2) i(2) show ?thesis by auto
    qed
  qed
qed

text \<open>Reading the old record, as deletion and update do first.\<close>

lemma read_old:
  assumes "tables_ok F s" and "changed_from m t s" and "plain s tab"
  shows "\<exists>err s1 x f. on_table tab (get_record R r) s = (case rows s tab r of None \<Rightarrow> Inl err | Some b \<Rightarrow> Inr b, s1) \<and>
    table_of tab s = Some f \<and> txn_map s t = Some x \<and> txn_map s1 t = Some x \<and>
    tables_ok F s1 \<and> static s s1 \<and> grows 0 s s1 \<and> rows s1 = rows s \<and> changed_from m t s1"
proof -
  from plain_table [OF assms(3)] obtain f where f: "table_of tab s = Some f" by blast
  from assms(2) obtain x where x: "txn_map s t = Some x" by (auto simp: changed_from_def)
  from get_step [OF tables_ok_db [OF assms(1)] f, of r] obtain err s1 where
    g: "on_table tab (get_record R r) s = (case rows s tab r of None \<Rightarrow> Inl err | Some b \<Rightarrow> Inr b, s1)"
    "stepped 0 F s s1 (rows s)" "tables_ok F s1" using assms(1) by blast
  note sd = steppedD [OF g(2)]
  have x1: "txn_map s1 t = Some x" using more_sys(1) [OF sd(5)] x by simp
  have "changed_from m t s1" by (rule changed_same [OF assms(2) x x1 refl sd(3,2)])
  with g f x x1 sd show ?thesis by blast
qed

lemma delete_row_ok:
  assumes "tables_ok F s" and "changed_from m t s" and "plain s (mo_tab_name e)" and "indexes (mo_tab e) = []"
  shows "\<exists>y s'. delete_row R logged t e r s = (y, s') \<and> tables_ok F s' \<and> static s s' \<and> grows 0 s s' \<and> changed_from m t s' \<and>
    (y = Inr () \<longrightarrow> rows s' = (rows s)(mo_tab_name e := (rows s (mo_tab_name e))(r := None))) \<and>
    (\<not> logged \<longrightarrow> rows s (mo_tab_name e) r \<noteq> None \<longrightarrow> y = Inr ())"
proof -
  let ?t = "mo_tab_name e"
  from read_old [OF assms(1-3), of r] obtain err s1 x f where
    g: "on_table ?t (get_record R r) s = (case rows s ?t r of None \<Rightarrow> Inl err | Some b \<Rightarrow> Inr b, s1)"
    and f: "table_of ?t s = Some f" and x: "txn_map s t = Some x" "txn_map s1 t = Some x"
    and s1: "tables_ok F s1" "static s s1" "grows 0 s s1" "rows s1 = rows s" "changed_from m t s1" by blast
  show ?thesis
  proof (cases "rows s ?t r")
    case None
    with g s1 show ?thesis by (auto simp: delete_row_def)
  next
    case (Some b)
    define w where "w = \<lparr>wtype = DELETE_TUPLE, wr_tab_name = ?t, wr_rid = r, wr_record = b\<rparr>"
    from log_then_note [OF s1(1) x(2), of logged "DeleteLogRecord t b r ?t" w] obtain z s2 x2 x3 where
      z: "\<not> logged \<longrightarrow> z = Inr ()" and l: "log_if logged t (DeleteLogRecord t b r ?t) s1 = (z, s2)" "tables_ok F s2" "rows s2 = rows s1" "static s1 s2" "grows 0 s1 s2"
        "txn_map s2 t = Some x2" "write_set x2 = write_set x"
      and n: "tables_ok F (append_write t w s2)" "rows (append_write t w s2) = rows s1" "static s1 (append_write t w s2)"
        "grows 0 s1 (append_write t w s2)" "txn_map (append_write t w s2) t = Some x3" "write_set x3 = write_set x @ [w]" by blast
    let ?s3 = "append_write t w s2"
    note st2 = static_trans [OF s1(2) l(4)] and st3 = static_trans [OF s1(2) n(3)]
    from plain_table [of ?s3 ?t] static_plain [OF st3] assms(3) obtain f3 where f3: "table_of ?t ?s3 = Some f3" by auto
    from delete_step [OF tables_ok_db [OF n(1)] _ f3, of r b] n(1,2) s1(4) Some obtain s4 where
      d: "on_table ?t (delete_record R r) ?s3 = Ret () s4" "stepped 0 F ?s3 s4 ((rows s)(?t := (rows s ?t)(r := None)))" "tables_ok F s4"
      by auto
    note sd = steppedD [OF d(2)]
    have s4: "static s s4" "grows 0 s s4" using static_trans [OF st3 sd(3)] grows_trans [OF grows_trans [OF s1(3) n(4)] sd(4)] by simp_all
    show ?thesis
    proof (cases z)
      case (Inl e')
      have "changed_from m t s2" by (rule changed_same [OF s1(5) x(2) l(6,7,4,3)])
      with Inl z g Some l(1,2) st2 grows_trans [OF s1(3) l(5)] show ?thesis by (auto simp: delete_row_def)
    next
      case (Inr u)
      have x4: "txn_map s4 t = Some x3" using more_sys(1) [OF sd(5)] n(5) by simp
      have sh: "shape s4 ?t = Some (record_size (rm_hdr f), num_records_per_page (rm_hdr f))"
        using shape_table [OF f] s4(1) by (simp add: static_def)
      have "write_fits s4 (rows s4) w"
        using assms(3) static_plain [OF s4(1)] sd(2) row_bounds [OF tables_ok_db [OF assms(1)] f Some] sh by (simp add: write_fits_def w_def)
      moreover have "undo_row w (rows s4) = rows s" using sd(2) Some by (simp add: undo_row_def w_def fun_upd_idem)
      ultimately have "changed_from m t s4" by (rule changed_snoc [OF assms(2) x(1) x4 n(6) s4(1)])
      with Inr g Some l(1) d(1,3) s4 sd(2) assms(4) show ?thesis by (auto simp: delete_row_def w_def)
    qed
  qed
qed

lemma update_row_ok:
  assumes "tables_ok F s" and "changed_from m t s" and "plain s (mo_tab_name e)" and "indexes (mo_tab e) = []"
  shows "\<exists>y s'. update_row R logged t e r s = (y, s') \<and> tables_ok F s' \<and> static s s' \<and> grows 0 s s' \<and> changed_from m t s' \<and>
    (y = Inr () \<longrightarrow> (\<exists>old new. rows s (mo_tab_name e) r = Some old \<and> apply_clauses (mo_tab e) (mo_set_clauses e) old = Inr new \<and>
       rows s' = (rows s)(mo_tab_name e := (rows s (mo_tab_name e))(r \<mapsto> take (length old) new)))) \<and>
    (\<not> logged \<longrightarrow> (\<exists>old new. rows s (mo_tab_name e) r = Some old \<and> apply_clauses (mo_tab e) (mo_set_clauses e) old = Inr new) \<longrightarrow> y = Inr ())"
proof -
  let ?t = "mo_tab_name e"
  from read_old [OF assms(1-3), of r] obtain err s1 x f where
    g: "on_table ?t (get_record R r) s = (case rows s ?t r of None \<Rightarrow> Inl err | Some b \<Rightarrow> Inr b, s1)"
    and f: "table_of ?t s = Some f" and x: "txn_map s t = Some x" "txn_map s1 t = Some x"
    and s1: "tables_ok F s1" "static s s1" "grows 0 s s1" "rows s1 = rows s" "changed_from m t s1" by blast
  show ?thesis
  proof (cases "\<exists>b new. rows s ?t r = Some b \<and> apply_clauses (mo_tab e) (mo_set_clauses e) b = Inr new")
    case False
    then have "\<exists>e'. update_row R logged t e r s = Throw e' s1"
      using g by (cases "rows s ?t r"; cases "apply_clauses (mo_tab e) (mo_set_clauses e) (the (rows s ?t r))")
        (auto simp: update_row_def Let_def)
    with s1 False show ?thesis by auto
  next
    case True
    then obtain b new where b: "rows s ?t r = Some b" and ap: "apply_clauses (mo_tab e) (mo_set_clauses e) b = Inr new" by blast
    note al = apply_clauses_length [OF ap]
    define w where "w = \<lparr>wtype = UPDATE_TUPLE, wr_tab_name = ?t, wr_rid = r, wr_record = b\<rparr>"
    from log_then_note [OF s1(1) x(2), of logged "UpdateLogRecord t b new r ?t" w] obtain z s2 x2 x3 where
      z: "\<not> logged \<longrightarrow> z = Inr ()" and l: "log_if logged t (UpdateLogRecord t b new r ?t) s1 = (z, s2)" "tables_ok F s2" "rows s2 = rows s1" "static s1 s2" "grows 0 s1 s2"
        "txn_map s2 t = Some x2" "write_set x2 = write_set x"
      and n: "tables_ok F (append_write t w s2)" "rows (append_write t w s2) = rows s1" "static s1 (append_write t w s2)"
        "grows 0 s1 (append_write t w s2)" "txn_map (append_write t w s2) t = Some x3" "write_set x3 = write_set x @ [w]" by blast
    let ?s3 = "append_write t w s2"
    note st2 = static_trans [OF s1(2) l(4)] and st3 = static_trans [OF s1(2) n(3)]
    from plain_table [of ?s3 ?t] static_plain [OF st3] assms(3) obtain f3 where f3: "table_of ?t ?s3 = Some f3" by auto
    from update_step [OF tables_ok_db [OF n(1)] _ f3, of r b new] n(1,2) s1(4) b al obtain s4 where
      d: "on_table ?t (update_record R r new) ?s3 = Ret () s4"
      "stepped 0 F ?s3 s4 ((rows s)(?t := (rows s ?t)(r \<mapsto> take (length b) new)))" "tables_ok F s4"
      by auto
    note sd = steppedD [OF d(2)]
    have s4: "static s s4" "grows 0 s s4" using static_trans [OF st3 sd(3)] grows_trans [OF grows_trans [OF s1(3) n(4)] sd(4)] by simp_all
    show ?thesis
    proof (cases z)
      case (Inl e')
      have "changed_from m t s2" by (rule changed_same [OF s1(5) x(2) l(6,7,4,3)])
      with Inl z g b ap l(1,2) st2 grows_trans [OF s1(3) l(5)] assms(4) show ?thesis by (auto simp: update_row_def)
    next
      case (Inr u)
      have x4: "txn_map s4 t = Some x3" using more_sys(1) [OF sd(5)] n(5) by simp
      have "write_fits s4 (rows s4) w" using assms(3) static_plain [OF s4(1)] sd(2) al by (simp add: write_fits_def w_def)
      moreover have "undo_row w (rows s4) = rows s" using sd(2) b by (simp add: undo_row_def w_def fun_upd_idem)
      ultimately have "changed_from m t s4" by (rule changed_snoc [OF assms(2) x(1) x4 n(6) s4(1)])
      with Inr g b ap l(1) d(1,3) s4 sd(2) assms(4) show ?thesis by (auto simp: update_row_def Let_def w_def)
    qed
  qed
qed

lemma each_rid_ok:
  assumes step: "\<And>r s. tables_ok F s \<Longrightarrow> changed_from m t s \<Longrightarrow> plain s tab \<Longrightarrow>
      \<exists>y s'. f r s = (y, s') \<and> tables_ok F s' \<and> static s s' \<and> grows 0 s s' \<and> changed_from m t s'"
    and "tables_ok F s" and "changed_from m t s" and "plain s tab"
  shows "\<exists>y s'. each_rid f rs s = (y, s') \<and> tables_ok F s' \<and> static s s' \<and> grows 0 s s' \<and> changed_from m t s'"
  using assms(2-4)
proof (induction rs arbitrary: s)
  case (Cons r rs)
  from step [OF Cons.prems] obtain y s1 where
    1: "f r s = (y, s1)" "tables_ok F s1" "static s s1" "grows 0 s s1" "changed_from m t s1" by blast
  show ?case
  proof (cases y)
    case (Inr u)
    have "plain s1 tab" using static_plain [OF 1(3)] Cons.prems(3) by simp
    from Cons.IH [OF 1(2,5) this] obtain y' s' where
      "each_rid f rs s1 = (y', s')" "tables_ok F s'" "static s1 s'" "grows 0 s1 s'" "changed_from m t s'" by blast
    with 1 Inr static_trans [OF 1(3)] grows_trans [OF 1(4), of 0 s'] show ?thesis by auto
  qed (use 1 in auto)
qed simp

text \<open>When the loop ends normally, exactly the records with the given numbers have changed.\<close>

lemma each_rid_rows:
  assumes step: "\<And>r s b. tables_ok F s \<Longrightarrow> changed_from m t s \<Longrightarrow> plain s tab \<Longrightarrow> rows s tab r = Some b \<Longrightarrow> P b \<Longrightarrow>
      \<exists>y s'. f r s = (y, s') \<and> tables_ok F s' \<and> static s s' \<and> changed_from m t s' \<and> (\<not> logged \<longrightarrow> y = Inr ()) \<and>
        (y = Inr () \<longrightarrow> rows s' = (rows s)(tab := (rows s tab)(r := g b)))"
    and "tables_ok F s" and "changed_from m t s" and "plain s tab" and "distinct rs"
    and "\<forall>r \<in> set rs. \<exists>b. rows s tab r = Some b \<and> P b"
  shows "\<exists>y s'. each_rid f rs s = (y, s') \<and> tables_ok F s' \<and> changed_from m t s' \<and> (\<not> logged \<longrightarrow> y = Inr ()) \<and>
    (y = Inr () \<longrightarrow> rows s' = (rows s)(tab := (\<lambda>r. if r \<in> set rs then g (the (rows s tab r)) else rows s tab r)))"
  using assms(2-6)
proof (induction rs arbitrary: s)
  case (Cons r rs)
  then obtain b where b: "rows s tab r = Some b" "P b" by auto
  from step [OF Cons.prems(1-3) b] obtain y s1 where
    1: "f r s = (y, s1)" "tables_ok F s1" "static s s1" "changed_from m t s1" "\<not> logged \<longrightarrow> y = Inr ()"
    "y = Inr () \<longrightarrow> rows s1 = (rows s)(tab := (rows s tab)(r := g b))" by blast
  show ?case
  proof (cases y)
    case (Inr u)
    then have r1: "rows s1 = (rows s)(tab := (rows s tab)(r := g b))" using 1(6) by simp
    have "plain s1 tab" using static_plain [OF 1(3)] Cons.prems(3) by simp
    moreover have "distinct rs" "\<forall>r \<in> set rs. \<exists>b. rows s1 tab r = Some b \<and> P b" using Cons.prems(4,5) r1 by auto
    ultimately obtain y' s' where
      2: "each_rid f rs s1 = (y', s')" "tables_ok F s'" "changed_from m t s'" "\<not> logged \<longrightarrow> y' = Inr ()"
      "y' = Inr () \<longrightarrow> rows s' = (rows s1)(tab := (\<lambda>r. if r \<in> set rs then g (the (rows s1 tab r)) else rows s1 tab r))"
      using Cons.IH [OF 1(2,4)] by blast
    have "(\<lambda>q. if q \<in> set rs then g (the (rows s1 tab q)) else rows s1 tab q) =
        (\<lambda>q. if q \<in> set (r # rs) then g (the (rows s tab q)) else rows s tab q)"
      using Cons.prems(4) r1 b(1) by (auto simp: fun_eq_iff)
    then show ?thesis using 1(1) 2 Inr r1 by auto
  qed (use 1 in auto)
qed simp

lemma lock_frame:
  assumes "lock_table_exclusive t tab s = (y, s')" and "txn_map s t = Some x"
  shows "same_tables F s s' \<and> (\<exists>x'. txn_map s' t = Some x' \<and> write_set x' = write_set x)"
proof (cases "map_of (fhs s) tab")
  case (Some p)
  obtain fd h where p: "p = (fd, h)" by fastforce
  obtain z x1 tb where r: "lock_exclusive_on_table fd (Some x, sy_locks s) = (z, (x1, tb))" by (metis prod_cases3)
  then obtain x' where x': "x1 = Some x'" "write_set x' = write_set x"
    by (auto simp: lock_exclusive_on_table_def request_lock_def Let_def split: if_splits)
  have "s' = s\<lparr>sy_locks := tb, txn_map := (txn_map s)(t \<mapsto> x')\<rparr>"
    using assms Some p r x'(1) by (cases z) (auto simp: lock_table_exclusive_def on_locks_def)
  with x' show ?thesis by (auto intro: same_tables_pool)
qed (use assms same_tables_refl in \<open>auto simp: lock_table_exclusive_def\<close>)

end

section \<open>Statements\<close>

text \<open>A data modification statement, as the portal runs it: the executor is built, then its \<^verbatim>\<open>Next\<close> is called once.\<close>

datatype dml =
    InsertInto string "sql_value list"
  | DeleteFrom string "condition list" "rid list"
  | UpdateSet string "set_clause list" "condition list" "rid list"

fun dml_table :: "dml \<Rightarrow> string" where
  "dml_table (InsertInto tab vs) = tab"
| "dml_table (DeleteFrom tab cs rs) = tab"
| "dml_table (UpdateSet tab sc cs rs) = tab"

fun dml_exec :: "'r replacer_ops \<Rightarrow> bool \<Rightarrow> int \<Rightarrow> dml \<Rightarrow> 'r sys \<Rightarrow> (unit, 'r sys) res" where
  "dml_exec R logged t (InsertInto tab vs) s =
     seqE (InsertExecutor t tab vs s) (\<lambda>e s1. seqE (insert_next R logged t e s1) (\<lambda>_ s2. Ret () s2))"
| "dml_exec R logged t (DeleteFrom tab cs rs) s = seqE (DeleteExecutor t tab cs rs s) (\<lambda>e s1. delete_next R logged t e s1)"
| "dml_exec R logged t (UpdateSet tab sc cs rs) s = seqE (UpdateExecutor t tab sc cs rs s) (\<lambda>e s1. update_next R logged t e s1)"

fun dml_run :: "'r replacer_ops \<Rightarrow> bool \<Rightarrow> int \<Rightarrow> dml list \<Rightarrow> 'r sys \<Rightarrow> (rmdb_error + unit) list \<times> 'r sys" where
  "dml_run R logged t [] s = ([], s)"
| "dml_run R logged t (c # cs) s =
     (case dml_exec R logged t c s of (y, s1) \<Rightarrow> (case dml_run R logged t cs s1 of (ys, s2) \<Rightarrow> (y # ys, s2)))"

context replacer begin

lemma locked:
  assumes "tables_ok F s" and "changed_from m t s" and "lock_table_exclusive t tab s = (y, s1)"
  shows "tables_ok F s1" "changed_from m t s1" "static s s1" "pages_of s1 = pages_of s"
proof -
  from assms(2) obtain x where x: "txn_map s t = Some x" by (auto simp: changed_from_def)
  from lock_frame [OF assms(3) x, of F] obtain x' where
    lf: "same_tables F s s1" "txn_map s1 t = Some x'" "write_set x' = write_set x" by blast
  note k = same_tables_ok [OF tables_ok_db [OF assms(1)] lf(1)] and st = same_tables_static [OF lf(1)]
  show "tables_ok F s1" using k(3) assms(1) by blast
  show "static s s1" "pages_of s1 = pages_of s" using st by auto
  show "changed_from m t s1" by (rule changed_same [OF assms(2) x lf(2,3)]) (use st k(2) in auto)
qed

lemma dml_ok:
  assumes "tables_ok F s" and "changed_from m t s" and "plain s (dml_table c)" and "room 1 s"
  shows "\<exists>y s'. dml_exec R logged t c s = (y, s') \<and> tables_ok F s' \<and> static s s' \<and> grows 1 s s' \<and>
    (\<not> logged \<or> \<not> isl y \<longrightarrow> changed_from m t s')"
proof -
  let ?tab = "dml_table c"
  from assms(3) obtain tm where tm: "get_table (sm_db s) ?tab = Inr tm" "indexes tm = []" by (auto simp: plain_def)
  obtain y1 s1 where l: "lock_table_exclusive t ?tab s = (y1, s1)" by fastforce
  note k = locked [OF assms(1,2) l]
  have pl: "plain s1 ?tab" using static_plain [OF k(3)] assms(3) by simp
  have g1: "grows 1 s s'" if "grows j s1 s'" "j \<le> 1" for j s' using grows_mono [OF that] k(4) by (simp add: grows_def)
  show ?thesis
  proof (cases c)
    case (InsertInto tab vs)
    show ?thesis
    proof (cases "length vs = length (tm_cols tm) \<and> y1 = Inr ()")
      case False
      then have "\<exists>e s'. dml_exec R logged t c s = Throw e s' \<and> (s' = s \<or> s' = s1)"
        using InsertInto tm l by (cases y1) (auto simp: InsertExecutor_def lift_sm_def)
      then show ?thesis using assms(1,2) k g1 [of 0 s1] by (auto simp del: dml_exec.simps)
    next
      case True
      let ?e = "\<lparr>in_tab = tm, in_values = vs, in_tab_name = tab\<rparr>"
      have "room 1 s1" using assms(4) k(4) by (simp add: room_def)
      from insert_next_ok [OF k(1,2), of ?e logged] pl InsertInto tm(2) this obtain y s' where
        i: "insert_next R logged t ?e s1 = (y, s')" "tables_ok F s'" "static s1 s'" "grows 1 s1 s'"
        "\<not> logged \<or> \<not> isl y \<longrightarrow> changed_from m t s'" by auto
      have "dml_exec R logged t c s = (map_sum (\<lambda>e. e) (\<lambda>_. ()) y, s')"
        using InsertInto True tm l i(1) by (cases y) (simp_all add: InsertExecutor_def lift_sm_def)
      moreover have "isl (map_sum (\<lambda>e. e) (\<lambda>_. ()) y) = isl y" by (cases y) simp_all
      ultimately show ?thesis using i(2,5) static_trans [OF k(3) i(3)] g1 [OF i(4)] by auto
    qed
  next
    case (DeleteFrom tab cs rs)
    let ?e = "\<lparr>mo_tab = tm, mo_conds = cs, mo_rids = rs, mo_tab_name = tab, mo_set_clauses = []\<rparr>"
    from each_rid_ok [OF _ k(1,2) pl, of "delete_row R logged t ?e" rs] delete_row_ok [of F _ m t ?e logged] tm(2) DeleteFrom obtain y s' where
      i: "each_rid (delete_row R logged t ?e) rs s1 = (y, s')" "tables_ok F s'" "static s1 s'" "grows 0 s1 s'" "changed_from m t s'"
      by fastforce
    show ?thesis
      using DeleteFrom tm l i static_trans [OF k(3) i(3)] g1 [OF i(4)] k g1 [of 0 s1]
      by (cases y1) (auto simp: DeleteExecutor_def lift_sm_def delete_next_def)
  next
    case (UpdateSet tab sc cs rs)
    let ?e = "\<lparr>mo_tab = tm, mo_conds = cs, mo_rids = rs, mo_tab_name = tab, mo_set_clauses = sc\<rparr>"
    from each_rid_ok [OF _ k(1,2) pl, of "update_row R logged t ?e" rs] update_row_ok [of F _ m t ?e logged] tm(2) UpdateSet obtain y s' where
      i: "each_rid (update_row R logged t ?e) rs s1 = (y, s')" "tables_ok F s'" "static s1 s'" "grows 0 s1 s'" "changed_from m t s'"
      by fastforce
    show ?thesis
      using UpdateSet tm l i static_trans [OF k(3) i(3)] g1 [OF i(4)] k g1 [of 0 s1]
      by (cases y1) (auto simp: UpdateExecutor_def lift_sm_def update_next_def)
  qed
qed

lemma dml_run_ok:
  assumes "tables_ok F s" and "changed_from m t s" and "\<forall>c \<in> set cs. plain s (dml_table c)" and "room (int (length cs)) s"
    and "dml_run R logged t cs s = (ys, s')" and "\<not> logged \<or> (\<forall>y \<in> set ys. \<not> isl y)"
  shows "tables_ok F s' \<and> changed_from m t s'"
  using assms
proof (induction cs arbitrary: s ys)
  case (Cons c cs)
  obtain y s1 ys' where d: "dml_exec R logged t c s = (y, s1)" "dml_run R logged t cs s1 = (ys', s')" "ys = y # ys'"
    using Cons.prems(5) by (auto split: prod.splits)
  have "room 1 s" "room (1 + int (length cs)) s" using Cons.prems(4) room_mono [of "1 + int (length cs)" s 1] by simp_all
  with dml_ok [OF Cons.prems(1,2), of c logged] Cons.prems(3,6) d obtain
    1: "tables_ok F s1" "static s s1" "grows 1 s s1" "changed_from m t s1" by fastforce
  have "\<forall>c \<in> set cs. plain s1 (dml_table c)" using static_plain [OF 1(2)] Cons.prems(3) by simp
  moreover have "room (int (length cs)) s1" by (rule grows_room [OF 1(3)]) fact
  ultimately show ?case using Cons.IH [OF 1(1,4) _ _ d(2)] Cons.prems(6) d(3) by auto
qed simp

end

section \<open>Transactions on the LRU buffer pool\<close>




section \<open>A database with one record\<close>

definition num_col :: "string \<Rightarrow> int \<Rightarrow> col_meta" where
  "num_col n off = \<lparr>cm_tab_name = ''t'', cm_name = n, cm_type = TYPE_INT, cm_len = 4, cm_offset = off, cm_index = False\<rparr>"

definition tab_t :: tab_meta where
  "tab_t = \<lparr>tm_name = ''t'', tm_cols = [num_col ''id'' 0, num_col ''val'' 4], indexes = []\<rparr>"

definition tiny_sys :: "lru rm_file \<Rightarrow> lru sys" where
  "tiny_sys f = \<lparr>sm_db = \<lparr>db_name = ''d'', tabs = [(''t'', tab_t)]\<rparr>, fhs = [(''t'', rm_fd f, rm_hdr f)], ihs = [],
     sm_pool = rm_pool f, dirs = Map.empty, cwd = None, sy_log = LogManager, sy_locks = Map.empty,
     txn_map = [1 \<mapsto> (Transaction 0 1)\<lparr>txn_state := GROWING\<rparr>], next_txn_id = 2, next_timestamp = 0\<rparr>"

lemma tiny_sys_table: "table_of t (tiny_sys f) = (if t = ''t'' then Some f else None)"
  by (cases f) (auto simp: table_of_def tiny_sys_def)

lemma tiny_sys_ok:
  assumes "lru.table_file F f"
  shows "lru.tables_ok F (tiny_sys f)" and "plain (tiny_sys f) ''t''" and "rows (tiny_sys f) ''t'' = records f"
    and "lru.changed_from (rows (tiny_sys f)) 1 (tiny_sys f)"
  using lru.table_file_pages [OF assms] assms
  by (auto simp: lru.tables_ok_def lru.db_ok_def tiny_sys_table plain_def shape_def rows_def lru.changed_from_def split: if_splits)
    (auto simp: tiny_sys_def get_table_def tab_t_def Transaction_def)


lemma one_record: "\<exists>f. lru.table_file {3} f \<and> records f (Rid 1 0) \<noteq> None"
proof -
  have "slot_ok (rm_hdr tiny_table) 0" using new_file_hdr_sel(4) [of 8] by (simp add: tiny_table_def)
  with lru.insert_record_at_ok [OF lru.table_file_pages [OF tiny_table_ok], of "Rid 1 0" "replicate 8 7"] obtain f where
    f: "lru.table_pages {3} f" "records f = [Rid 1 0 \<mapsto> replicate 8 7]"
    by (auto simp: tiny_table_hdr RM_FIRST_RECORD_PAGE_def is_i32_def tiny_table_empty)
  from lru.rebuild_ok [OF f(1)] f(2) show ?thesis by (metis fun_upd_same option.distinct(1))
qed



end
