(* ===== verification/Recovery_Props.thy ===== *)
theory Recovery_Props
  imports Recovery_Cells Atomicity_Dml
begin

text \<open>
  Crash recovery: after the redo and undo passes every table holds exactly what the committed
  transactions wrote, whatever part of the logged changes had reached the disk.
\<close>

section \<open>Passes over a log\<close>

definition cell_row :: "(log_body \<Rightarrow> bytes option \<Rightarrow> bytes option) \<Rightarrow> log_body \<Rightarrow> (string \<Rightarrow> rid \<rightharpoonup> bytes) \<Rightarrow> string \<Rightarrow> rid \<rightharpoonup> bytes" where
  "cell_row g b m = m(body_table b := (m (body_table b))(body_rid b := g b (m (body_table b) (body_rid b))))"

definition at_place :: "string \<Rightarrow> rid \<Rightarrow> log_body \<Rightarrow> bool" where
  "at_place t r b \<longleftrightarrow> body_table b = t \<and> body_rid b = r"

text \<open>A pass treats every place on its own.\<close>

lemma fold_cell_row: "fold (cell_row g) bs m t r = fold g (filter (at_place t r) bs) (m t r)"
proof (induction bs arbitrary: m)
  case (Cons b bs)
  have "cell_row g b m t r = (if at_place t r b then g b (m t r) else m t r)"
    by (auto simp: cell_row_def at_place_def)
  then show ?case using Cons.IH [of "cell_row g b m"] by simp
qed simp

text \<open>The table of a change is in the catalogue and open, and the change fits its records.\<close>

definition log_fits :: "('r, 'z) sm_scheme \<Rightarrow> log_record \<Rightarrow> bool" where
  "log_fits s l \<longleftrightarrow> is_table (sm_db s) (body_table (body l)) \<and>
     (\<exists>sz n. shape s (body_table (body l)) = Some (sz, n) \<and> body_ok sz n (body l))"

lemma static_log_fits: "static s s' \<Longrightarrow> log_fits s' l = log_fits s l"
  by (simp add: log_fits_def static_def)

lemma is_change_values: "is_change l \<Longrightarrow> body_values (body l) \<noteq> []"
  by (cases "body l") (auto simp: is_change_def)

context replacer begin

lemma replay_step:
  assumes "db_ok F s" and "log_fits s l" and "is_change l"
  shows "\<exists>s'. on_table (body_table (body l)) (redo_body R (body l)) s = Ret () s' \<and> db_ok F s' \<and>
      rows s' = cell_row redo_cell (body l) (rows s) \<and> static s s'" (is ?redo)
    and "\<exists>s'. on_table (body_table (body l)) (undo_body R (body l)) s = Ret () s' \<and> db_ok F s' \<and>
      rows s' = cell_row undo_cell (body l) (rows s) \<and> static s s'" (is ?undo)
proof -
  let ?t = "body_table (body l)" and ?b = "body l"
  from assms(2) obtain f where f: "table_of ?t s = Some f"
    by (auto simp: log_fits_def shape_def table_of_def)
  note sh = shape_table [OF f]
  have ok: "body_ok (record_size (rm_hdr f)) (num_records_per_page (rm_hdr f)) ?b" using assms(2) sh by (auto simp: log_fits_def)
  have step: "\<exists>s'. on_table ?t h s = Ret () s' \<and> db_ok F s' \<and> rows s' = cell_row g ?b (rows s) \<and> static s s'"
    if "\<exists>f'. h f = Ret () f' \<and> cell_step F f (body_rid ?b) (g ?b (records f (body_rid ?b))) f'" for h g
  proof -
    from that obtain f' where h: "h f = Ret () f'" "cell_step F f (body_rid ?b) (g ?b (records f (body_rid ?b))) f'" by blast
    note cs = h(2) [unfolded cell_step_def]
    from table_step [where m = h, OF assms(1) f h(1), of "num_pages (rm_hdr f') - num_pages (rm_hdr f)"] cs f show ?thesis
      by (auto simp: stepped_def cell_row_def)
  qed
  note rb = replay_body_ok [OF db_okD [OF assms(1) f] ok is_change_values [OF assms(3)]]
  show ?redo by (rule step) (rule rb(1))
  show ?undo by (rule step) (rule rb(2))
qed

lemma redo_loop_ok:
  assumes "db_ok F s" and "\<forall>l \<in> set ls. \<not> redo_skips rc l \<longrightarrow> log_fits s l"
  shows "\<exists>s'. redo_loop R rc ls s = Ret () s' \<and> db_ok F s' \<and> static s s' \<and>
    rows s' = fold (cell_row redo_cell) (map body (filter (\<lambda>l. \<not> redo_skips rc l) ls)) (rows s)"
  using assms
proof (induction ls arbitrary: s)
  case (Cons l ls)
  show ?case
  proof (cases "redo_skips rc l")
    case True
    with Cons show ?thesis by simp
  next
    case False
    then have fit: "log_fits s l" "is_change l" using Cons.prems(2) by (auto simp: redo_skips_def)
    from replay_step(1) [OF Cons.prems(1) fit] obtain s1 where
      1: "on_table (body_table (body l)) (redo_body R (body l)) s = Ret () s1" "db_ok F s1"
      "rows s1 = cell_row redo_cell (body l) (rows s)" "static s s1" by blast
    have "\<forall>l \<in> set ls. \<not> redo_skips rc l \<longrightarrow> log_fits s1 l" using Cons.prems(2) static_log_fits [OF 1(4)] by auto
    from Cons.IH [OF 1(2) this] 1 False fit(1) show ?thesis using static_trans [OF 1(4)] by (auto simp: log_fits_def)
  qed
qed simp

lemma undo_loop_ok:
  assumes "db_ok F s" and "\<forall>l \<in> set ls. \<not> undo_skips rc l \<longrightarrow> log_fits s l"
  shows "\<exists>s'. undo_loop R rc ls s = Ret () s' \<and> db_ok F s' \<and> static s s' \<and>
    rows s' = fold (cell_row undo_cell) (map body (filter (\<lambda>l. \<not> undo_skips rc l) ls)) (rows s)"
  using assms
proof (induction ls arbitrary: s)
  case (Cons l ls)
  show ?case
  proof (cases "undo_skips rc l")
    case True
    with Cons show ?thesis by simp
  next
    case False
    then have fit: "log_fits s l" "is_change l" using Cons.prems(2) by (auto simp: undo_skips_def)
    from replay_step(2) [OF Cons.prems(1) fit] obtain s1 where
      1: "on_table (body_table (body l)) (undo_body R (body l)) s = Ret () s1" "db_ok F s1"
      "rows s1 = cell_row undo_cell (body l) (rows s)" "static s s1" by blast
    have "\<forall>l \<in> set ls. \<not> undo_skips rc l \<longrightarrow> log_fits s1 l" using Cons.prems(2) static_log_fits [OF 1(4)] by auto
    from Cons.IH [OF 1(2) this] 1 False fit(1) show ?thesis using static_trans [OF 1(4)] by (auto simp: log_fits_def)
  qed
qed simp

end

section \<open>Histories of the log\<close>

text \<open>The changes of one place that redo replays, those of committed transactions, and those undo takes back.\<close>

definition place_log :: "recovery \<Rightarrow> string \<Rightarrow> rid \<Rightarrow> log_record list" where
  "place_log rc t r = filter (\<lambda>l. \<not> redo_skips rc l \<and> at_place t r (body l)) (rec_logs rc)"

definition winners :: "recovery \<Rightarrow> string \<Rightarrow> rid \<Rightarrow> log_body list" where
  "winners rc t r = map body (filter (\<lambda>l. log_tid l \<in> committed_txns rc) (place_log rc t r))"

definition losers :: "recovery \<Rightarrow> string \<Rightarrow> rid \<Rightarrow> log_body list" where
  "losers rc t r = map body (filter (\<lambda>l. log_tid l \<notin> committed_txns rc) (place_log rc t r))"

text \<open>
  What a crash leaves behind. \<open>m\<close> holds the records before the first logged change. The changes of every
  place form a history; strict two-phase locking puts those of unfinished transactions last; and the
  place is in the state after some part of the history, the part that had reached the disk.
\<close>

definition crash_state :: "recovery \<Rightarrow> (string \<Rightarrow> rid \<rightharpoonup> bytes) \<Rightarrow> (string \<Rightarrow> rid \<rightharpoonup> bytes) \<Rightarrow> bool" where
  "crash_state rc m c \<longleftrightarrow> (\<forall>t r. map body (place_log rc t r) = winners rc t r @ losers rc t r \<and>
     history (m t r) (winners rc t r @ losers rc t r) \<and>
     (\<exists>n. c t r = run_cell (take n (winners rc t r @ losers rc t r)) (m t r)))"

lemma redo_place: "filter (at_place t r) (map body (filter (\<lambda>l. \<not> redo_skips rc l) (rec_logs rc))) = map body (place_log rc t r)"
  by (simp add: place_log_def filter_map o_def conj_commute)

lemma undo_place:
  "filter (at_place t r) (map body (filter (\<lambda>l. \<not> undo_skips rc l) (rev (rec_logs rc)))) = rev (losers rc t r)"
proof -
  have "filter (\<lambda>l. \<not> undo_skips rc l \<and> at_place t r (body l)) (rec_logs rc) =
      filter (\<lambda>l. log_tid l \<notin> committed_txns rc) (place_log rc t r)"
    unfolding place_log_def filter_filter by (rule filter_cong) (auto simp: undo_skips_def redo_skips_def)
  then show ?thesis by (simp add: losers_def filter_map o_def rev_map rev_filter [symmetric] conj_commute)
qed

context replacer begin

lemma recovery_ok:
  assumes "db_ok F s" and "\<forall>l \<in> set (rec_logs rc). \<not> redo_skips rc l \<longrightarrow> log_fits s l" and "crash_state rc m (rows s)"
  shows "\<exists>s1 s2. redo R rc s = Ret () s1 \<and> undo_loop R rc (rev (rec_logs rc)) s1 = Ret () s2 \<and> db_ok F s2 \<and> static s s2 \<and>
    (\<forall>t r. rows s2 t r = run_cell (winners rc t r) (m t r))"
proof -
  from redo_loop_ok [OF assms(1,2)] obtain s1 where
    1: "redo_loop R rc (rec_logs rc) s = Ret () s1" "db_ok F s1" "static s s1"
    "rows s1 = fold (cell_row redo_cell) (map body (filter (\<lambda>l. \<not> redo_skips rc l) (rec_logs rc))) (rows s)" by blast
  have "\<not> undo_skips rc l \<longrightarrow> \<not> redo_skips rc l" for l by (simp add: undo_skips_def redo_skips_def)
  with assms(2) have "\<forall>l \<in> set (rev (rec_logs rc)). \<not> undo_skips rc l \<longrightarrow> log_fits s1 l" using static_log_fits [OF 1(3)] by auto
  from undo_loop_ok [OF 1(2) this] obtain s2 where
    2: "undo_loop R rc (rev (rec_logs rc)) s1 = Ret () s2" "db_ok F s2" "static s1 s2"
    "rows s2 = fold (cell_row undo_cell) (map body (filter (\<lambda>l. \<not> undo_skips rc l) (rev (rec_logs rc)))) (rows s1)" by blast
  have "rows s2 t r = run_cell (winners rc t r) (m t r)" for t r
  proof -
    let ?w = "winners rc t r" and ?l = "losers rc t r"
    from assms(3) obtain n where c: "map body (place_log rc t r) = ?w @ ?l" "history (m t r) (?w @ ?l)"
      "rows s t r = run_cell (take n (?w @ ?l)) (m t r)" by (auto simp: crash_state_def)
    have "rows s1 t r = run_cell (?w @ ?l) (m t r)"
      unfolding 1(4) fold_cell_row redo_place c(1,3) by (rule redo_cell_ok [OF c(2)])
    moreover have "rows s2 t r = foldr undo_cell ?l (rows s1 t r)"
      unfolding 2(4) fold_cell_row undo_place by (simp add: foldr_conv_fold)
    ultimately show ?thesis using undo_history [of "run_cell ?w (m t r)" ?l] c(2) by (simp add: history_append)
  qed
  with 1 2 static_trans [OF 1(3) 2(3)] show ?thesis by (auto simp: redo_def)
qed

end

section \<open>Recovery on the LRU buffer pool\<close>


definition crash_log :: recovery where
  "crash_log =
     \<lparr>rec_logs = [InsertLogRecord 1 (replicate 8 1) (Rid 1 0) ''t'', CommitLogRecord 1, InsertLogRecord 2 (replicate 8 2) (Rid 1 1) ''t''],
      committed_txns = {1}, aborted_txns = {}\<rparr>"

lemma crash_log_place: "place_log crash_log t r =
    (if t = ''t'' \<and> r = Rid 1 0 then [InsertLogRecord 1 (replicate 8 1) (Rid 1 0) ''t'']
     else if t = ''t'' \<and> r = Rid 1 1 then [InsertLogRecord 2 (replicate 8 2) (Rid 1 1) ''t''] else [])"
  by (auto simp: place_log_def crash_log_def redo_skips_def is_change_def at_place_def InsertLogRecord_def CommitLogRecord_def)


end
