(* ===== verification/Analyzer.thy ===== *)
theory Analyzer
  imports Executors
begin

text \<open>
  The syntax trees of \<^verbatim>\<open>parser/ast.h\<close> and the semantic analysis of \<^verbatim>\<open>analyze/analyze.cpp\<close>. A class
  hierarchy is a datatype, a shared pointer to a node is the node, and \<^verbatim>\<open>dynamic_pointer_cast\<close> is case
  analysis. \<open>PlainField\<close>, \<open>PlainValue\<close> and \<open>OtherNode\<close> are objects of the base classes, which the
  grammar does not build but the code guards against.
\<close>

section \<open>Syntax trees\<close>

datatype sv_type = SV_TYPE_INT | SV_TYPE_FLOAT | SV_TYPE_STRING | SV_TYPE_BIGINT | SV_TYPE_DATETIME

datatype sv_comp_op = SV_OP_EQ | SV_OP_NE | SV_OP_LT | SV_OP_GT | SV_OP_LE | SV_OP_GE

datatype order_by_dir = OrderBy_DEFAULT | OrderBy_ASC | OrderBy_DESC

record type_len =
  tl_type :: sv_type
  tl_len :: int

datatype ast_field = PlainField | ColDef string type_len

datatype ast_value = PlainValue | IntLit int | FloatLit fp | StringLit string

text \<open>\<open>AggFunc\<close> is a column whose table name is empty and whose name is its alias; \<^verbatim>\<open>COUNT(*)\<close> has no column.\<close>

datatype ast_col = Col string string | AggFunc agg_func "ast_col option" string bool

primrec col_tab_name :: "ast_col \<Rightarrow> string" where
  "col_tab_name (Col t c) = t"
| "col_tab_name (AggFunc f c alias star) = []"

primrec col_col_name :: "ast_col \<Rightarrow> string" where
  "col_col_name (Col t c) = c"
| "col_col_name (AggFunc f c alias star) = alias"

datatype ast_expr = EValue ast_value | ECol ast_col

record sv_set_clause =
  sv_col_name :: string
  sv_val :: ast_value

record binary_expr =
  be_lhs :: ast_col
  be_op :: sv_comp_op
  be_rhs :: ast_expr

record order_by_item =
  ob_cols :: ast_col
  ob_dir :: order_by_dir

text \<open>\<^verbatim>\<open>jointree\<close> is never filled, and \<^verbatim>\<open>has_sort\<close> is set from \<^verbatim>\<open>order\<close> in the constructor.\<close>

record select_stmt =
  sel_cols :: "ast_col list"
  sel_tabs :: "string list"
  sel_conds :: "binary_expr list"
  sel_order :: "order_by_item list option"
  sel_limit :: int

definition has_sort :: "select_stmt \<Rightarrow> bool" where
  "has_sort x \<longleftrightarrow> sel_order x \<noteq> None"

datatype tree_node =
    Help
  | ShowTables
  | ShowIndex string
  | TxnBegin
  | TxnCommit
  | TxnAbort
  | TxnRollback
  | CreateTable string "ast_field list"
  | DropTable string
  | DescTable string
  | CreateIndex string "string list"
  | DropIndex string "string list"
  | InsertStmt string "ast_value list"
  | DeleteStmt string "binary_expr list"
  | UpdateStmt string "sv_set_clause list" "binary_expr list"
  | SelectStmt select_stmt
  | OtherNode

section \<open>Analysed queries\<close>

record query =
  q_parse :: tree_node
  q_conds :: "condition list"
  q_cols :: "tab_col list"
  q_tables :: "string list"
  q_set_clauses :: "set_clause list"
  q_values :: "sql_value list"

definition new_Query :: "tree_node \<Rightarrow> query" where
  "new_Query p = \<lparr>q_parse = p, q_conds = [], q_cols = [], q_tables = [], q_set_clauses = [], q_values = []\<rparr>"

text \<open>Running a step only after the one before it has not thrown, and a step for every element.\<close>

definition andthen :: "(rmdb_error + 'a) \<Rightarrow> ('a \<Rightarrow> rmdb_error + 'b) \<Rightarrow> rmdb_error + 'b" where
  "andthen r f = (case r of Inl e \<Rightarrow> Inl e | Inr x \<Rightarrow> f x)"

primrec for_each :: "('a \<Rightarrow> rmdb_error + 'b) \<Rightarrow> 'a list \<Rightarrow> rmdb_error + 'b list" where
  "for_each f [] = Inr []"
| "for_each f (x # xs) = andthen (f x) (\<lambda>y. andthen (for_each f xs) (\<lambda>ys. Inr (y # ys)))"

section \<open>Analyze\<close>

fun infer_table :: "string \<Rightarrow> string \<Rightarrow> col_meta list \<Rightarrow> rmdb_error + string" where
  "infer_table name tab [] = Inr tab"
| "infer_table name tab (c # cs) =
     (if cm_name c = name
      then (if tab \<noteq> [] then Inl (AmbiguousColumnError name) else infer_table name (cm_tab_name c) cs)
      else infer_table name tab cs)"

definition check_column :: "col_meta list \<Rightarrow> tab_col \<Rightarrow> rmdb_error + tab_col" where
  "check_column all_cols target =
     (if tab_name target = []
      then andthen (infer_table (col_name target) [] all_cols)
             (\<lambda>t. if t = [] then Inl (ColumnNotFoundError (col_name target)) else Inr (target\<lparr>tab_name := t\<rparr>))
      else if list_ex (\<lambda>c. cm_tab_name c = tab_name target \<and> cm_name c = col_name target) all_cols then Inr target
      else Inl (ColumnNotFoundError (tab_name target @ ''.'' @ col_name target)))"

definition get_all_cols :: "db_meta \<Rightarrow> string list \<Rightarrow> rmdb_error + col_meta list" where
  "get_all_cols db ts = andthen (for_each (get_table db) ts) (\<lambda>ms. Inr (concat (map tm_cols ms)))"

fun convert_sv_value :: "ast_value \<Rightarrow> rmdb_error + sql_value" where
  "convert_sv_value (IntLit i) = Inr \<lparr>vdata = VBigint i, raw = None\<rparr>"
| "convert_sv_value (FloatLit x) = Inr \<lparr>vdata = VFloat x, raw = None\<rparr>"
| "convert_sv_value (StringLit s) = Inr \<lparr>vdata = VStr s, raw = None\<rparr>"
| "convert_sv_value PlainValue = Inl (InternalError ''Unexpected sv value type'')"

fun convert_sv_comp_op :: "sv_comp_op \<Rightarrow> comp_op" where
  "convert_sv_comp_op SV_OP_EQ = OP_EQ"
| "convert_sv_comp_op SV_OP_NE = OP_NE"
| "convert_sv_comp_op SV_OP_LT = OP_LT"
| "convert_sv_comp_op SV_OP_GT = OP_GT"
| "convert_sv_comp_op SV_OP_LE = OP_LE"
| "convert_sv_comp_op SV_OP_GE = OP_GE"

text \<open>
  A new \<^verbatim>\<open>Condition\<close> has empty names; the value of a condition between two columns is never looked at, and
  \<open>no_value\<close> stands for it.
\<close>

definition no_value :: sql_value where
  "no_value = \<lparr>vdata = VInt 0, raw = None\<rparr>"

definition ast_tab_col :: "ast_col \<Rightarrow> tab_col" where
  "ast_tab_col c = \<lparr>tab_name = col_tab_name c, col_name = col_col_name c\<rparr>"

definition get_cond :: "binary_expr \<Rightarrow> rmdb_error + condition" where
  "get_cond x =
     (let lhs = ast_tab_col (be_lhs x); op = convert_sv_comp_op (be_op x) in
      case be_rhs x of
        EValue v \<Rightarrow>
          andthen (convert_sv_value v)
            (\<lambda>w. Inr \<lparr>lhs_col = lhs, cond_op = op, is_rhs_val = True, rhs_col = \<lparr>tab_name = [], col_name = []\<rparr>, rhs_val = w\<rparr>)
      | ECol c \<Rightarrow>
          Inr \<lparr>lhs_col = lhs, cond_op = op, is_rhs_val = False, rhs_col = ast_tab_col c, rhs_val = no_value\<rparr>)"

definition get_clause :: "binary_expr list \<Rightarrow> rmdb_error + condition list" where
  "get_clause sv_conds = for_each get_cond sv_conds"

text \<open>A literal for a column: converted to the type of the column and laid out in its length.\<close>

definition fit_value :: "sql_value \<Rightarrow> col_meta \<Rightarrow> rmdb_error + sql_value" where
  "fit_value v c = andthen (coerce_value_type v (cm_type c) (cm_len c)) (\<lambda>w. init_raw w (cm_len c))"

definition find_column :: "db_meta \<Rightarrow> tab_col \<Rightarrow> rmdb_error + col_meta" where
  "find_column db t = andthen (get_table db (tab_name t)) (\<lambda>m. tab_get_col m (col_name t))"

definition check_cond :: "db_meta \<Rightarrow> col_meta list \<Rightarrow> condition \<Rightarrow> rmdb_error + condition" where
  "check_cond db all_cols c =
     andthen (check_column all_cols (lhs_col c))
       (\<lambda>l. andthen (if is_rhs_val c then Inr (rhs_col c) else check_column all_cols (rhs_col c))
          (\<lambda>r. andthen (find_column db l)
             (\<lambda>lc. andthen (if is_rhs_val c then andthen (fit_value (rhs_val c) lc) (\<lambda>v. Inr (v, value_type (vdata v)))
                            else andthen (find_column db r) (\<lambda>rc. Inr (rhs_val c, cm_type rc)))
                (\<lambda>(v, t). if cm_type lc \<noteq> t then Inl (IncompatibleTypeError (coltype2str (cm_type lc)) (coltype2str t))
                          else Inr (c\<lparr>lhs_col := l, rhs_col := r, rhs_val := v\<rparr>)))))"

definition check_clause :: "db_meta \<Rightarrow> string list \<Rightarrow> condition list \<Rightarrow> rmdb_error + condition list" where
  "check_clause db ts conds = andthen (get_all_cols db ts) (\<lambda>cs. for_each (check_cond db cs) conds)"

text \<open>The \<^verbatim>\<open>WHERE\<close> clause of a statement over the tables \<open>ts\<close>.\<close>

definition where_clause :: "db_meta \<Rightarrow> string list \<Rightarrow> binary_expr list \<Rightarrow> rmdb_error + condition list" where
  "where_clause db ts xs = andthen (get_clause xs) (check_clause db ts)"

text \<open>
  A selected column whose name is the alias of an aggregate is left alone, after the column of the first such
  aggregate is checked; an aggregate without its column would be a null pointer.
\<close>

definition has_alias :: "string \<Rightarrow> ast_col \<Rightarrow> bool" where
  "has_alias n c = (case c of AggFunc f a alias star \<Rightarrow> alias = n | Col _ _ \<Rightarrow> False)"

definition check_sel_col :: "ast_col list \<Rightarrow> col_meta list \<Rightarrow> tab_col \<Rightarrow> rmdb_error + tab_col" where
  "check_sel_col xs all_cols c =
     (case find (has_alias (col_name c)) xs of
        Some (AggFunc f a alias star) \<Rightarrow>
          if star then Inr c
          else (case a of
                  None \<Rightarrow> Inl NullDereference
                | Some a \<Rightarrow> andthen (check_column all_cols (ast_tab_col a)) (\<lambda>_. Inr c))
      | _ \<Rightarrow> check_column all_cols c)"

definition analyze_select :: "db_meta \<Rightarrow> select_stmt \<Rightarrow> rmdb_error + query" where
  "analyze_select db x =
     andthen (get_all_cols db (sel_tabs x))
       (\<lambda>all_cols.
          andthen (if sel_cols x = [] then Inr (map (\<lambda>c. \<lparr>tab_name = cm_tab_name c, col_name = cm_name c\<rparr>) all_cols)
                   else for_each (check_sel_col (sel_cols x) all_cols) (map ast_tab_col (sel_cols x)))
            (\<lambda>cols. andthen (where_clause db (sel_tabs x) (sel_conds x))
               (\<lambda>conds. Inr ((new_Query (SelectStmt (x\<lparr>sel_tabs := []\<rparr>)))
                              \<lparr>q_tables := sel_tabs x, q_cols := cols, q_conds := conds\<rparr>))))"

definition analyze_set :: "db_meta \<Rightarrow> string \<Rightarrow> col_meta list \<Rightarrow> sv_set_clause \<Rightarrow> rmdb_error + set_clause" where
  "analyze_set db t all_cols x =
     andthen (check_column all_cols \<lparr>tab_name = t, col_name = sv_col_name x\<rparr>)
       (\<lambda>l. andthen (convert_sv_value (sv_val x))
          (\<lambda>v. andthen (find_column db \<lparr>tab_name = t, col_name = col_name l\<rparr>)
             (\<lambda>c. andthen (fit_value v c) (\<lambda>w. Inr \<lparr>set_lhs = l, set_rhs = w\<rparr>))))"

definition analyze_update :: "db_meta \<Rightarrow> string \<Rightarrow> sv_set_clause list \<Rightarrow> binary_expr list \<Rightarrow> rmdb_error + query" where
  "analyze_update db t sets xs =
     andthen (get_all_cols db [t])
       (\<lambda>all_cols. andthen (for_each (analyze_set db t all_cols) sets)
          (\<lambda>cls. andthen (where_clause db [t] xs)
             (\<lambda>conds. Inr ((new_Query (UpdateStmt t sets xs))\<lparr>q_set_clauses := cls, q_conds := conds\<rparr>))))"

definition analyze_insert :: "db_meta \<Rightarrow> string \<Rightarrow> ast_value list \<Rightarrow> rmdb_error + query" where
  "analyze_insert db t vals =
     andthen (get_table db t)
       (\<lambda>m. if length vals \<noteq> length (tm_cols m) then Inl InvalidValueCountError
            else andthen (for_each (\<lambda>(v, c). andthen (convert_sv_value v) (\<lambda>w. fit_value w c)) (zip vals (tm_cols m)))
                   (\<lambda>ws. Inr ((new_Query (InsertStmt t vals))\<lparr>q_values := ws\<rparr>)))"

definition do_analyze :: "db_meta \<Rightarrow> tree_node \<Rightarrow> rmdb_error + query" where
  "do_analyze db p =
     (case p of
        SelectStmt x \<Rightarrow> analyze_select db x
      | UpdateStmt t sets xs \<Rightarrow> analyze_update db t sets xs
      | DeleteStmt t xs \<Rightarrow> andthen (where_clause db [t] xs) (\<lambda>conds. Inr ((new_Query p)\<lparr>q_conds := conds\<rparr>))
      | InsertStmt t vals \<Rightarrow> analyze_insert db t vals
      | _ \<Rightarrow> Inr (new_Query p))"

section \<open>Errors and successes of composed steps\<close>

lemma andthen_Inr [simp]: "andthen (Inr x) f = f x"
  by (simp add: andthen_def)

lemma andthen_Inl [simp]: "andthen (Inl e) f = Inl e"
  by (simp add: andthen_def)

lemma andthen_eq_Inr: "andthen r f = Inr y \<longleftrightarrow> (\<exists>x. r = Inr x \<and> f x = Inr y)"
  by (cases r) simp_all

lemma for_each_Inr: "for_each f xs = Inr ys \<longleftrightarrow> list_all2 (\<lambda>x y. f x = Inr y) xs ys"
  by (induction xs arbitrary: ys) (auto simp: andthen_eq_Inr list_all2_Cons1)

lemma for_each_mem: "for_each f xs = Inr ys \<Longrightarrow> y \<in> set ys \<Longrightarrow> \<exists>x \<in> set xs. f x = Inr y"
  by (induction xs arbitrary: ys) (auto simp: andthen_eq_Inr)

lemma for_each_all: "for_each f xs = Inr ys \<Longrightarrow> x \<in> set xs \<Longrightarrow> \<exists>y. f x = Inr y"
  by (induction xs arbitrary: ys) (auto simp: andthen_eq_Inr)

section \<open>Names resolve\<close>

text \<open>Every column of a table of the catalogue carries the name of that table.\<close>

definition named_columns :: "db_meta \<Rightarrow> bool" where
  "named_columns db \<longleftrightarrow> list_all (\<lambda>(t, m). t \<noteq> [] \<and> list_all (\<lambda>c. cm_tab_name c = t) (tm_cols m)) (tabs db)"

lemma named_columnsD:
  assumes "named_columns db" and "get_table db t = Inr m"
  shows "t \<noteq> []" and "\<And>c. c \<in> set (tm_cols m) \<Longrightarrow> cm_tab_name c = t"
proof -
  from assms(2) have "(t, m) \<in> set (tabs db)" by (auto simp: get_table_def split: option.splits dest: map_of_SomeD)
  with assms(1) show "t \<noteq> []" and "\<And>c. c \<in> set (tm_cols m) \<Longrightarrow> cm_tab_name c = t"
    by (auto simp: named_columns_def list_all_iff)
qed

text \<open>The columns of the tables of a query.\<close>

definition query_cols :: "db_meta \<Rightarrow> string list \<Rightarrow> col_meta list" where
  "query_cols db ts = (case get_all_cols db ts of Inl _ \<Rightarrow> [] | Inr cs \<Rightarrow> cs)"

lemma get_all_cols_Cons:
  "get_all_cols db (t # ts) = andthen (get_table db t) (\<lambda>m. andthen (get_all_cols db ts) (\<lambda>cs. Inr (tm_cols m @ cs)))"
  by (cases "get_table db t"; cases "for_each (get_table db) ts") (simp_all add: get_all_cols_def)

lemma infer_table_found:
  "infer_table n tab cs = Inr t \<Longrightarrow> t = tab \<or> (\<exists>c \<in> set cs. cm_name c = n \<and> cm_tab_name c = t)"
  by (induction n tab cs rule: infer_table.induct) (auto split: if_splits)

text \<open>A checked column is a column of the tables of the query, under the name of its table.\<close>

lemma check_column_found:
  assumes "check_column cs c = Inr d"
  shows "col_name d = col_name c" and "tab_name d \<noteq> []"
    and "\<exists>m \<in> set cs. cm_tab_name m = tab_name d \<and> cm_name m = col_name d"
    and "tab_name c \<noteq> [] \<Longrightarrow> d = c"
  using assms infer_table_found [of "col_name c" "[]" cs]
  by (fastforce simp: check_column_def andthen_eq_Inr list_ex_iff split: if_splits)+

text \<open>
  The first column of that name among those of the query is the one the catalogue has for it.
\<close>

lemma col_index_find:
  "(case col_index cs c of None \<Rightarrow> None | Some i \<Rightarrow> Some (cs ! i)) = find (col_is c) cs"
  by (induction cs) (auto split: option.splits)

lemma find_in_append: "find P (xs @ ys) = (case find P xs of Some x \<Rightarrow> Some x | None \<Rightarrow> find P ys)"
  by (induction xs) simp_all

lemma find_other_table: "(\<And>c. c \<in> set cs \<Longrightarrow> cm_tab_name c = t) \<Longrightarrow> tab_name d \<noteq> t \<Longrightarrow> find (col_is d) cs = None"
  by (auto simp: find_None_iff col_is_def)

lemma find_own_table:
  assumes "\<And>c. c \<in> set cs \<Longrightarrow> cm_tab_name c = tab_name d"
  shows "find (col_is d) cs = find (\<lambda>c. cm_name c = col_name d) cs"
proof (rule find_cong [OF refl])
  fix c assume "c \<in> set cs"
  then show "col_is d c = (cm_name c = col_name d)" using assms by (simp add: col_is_def)
qed

lemma find_column_eq:
  assumes "named_columns db" and "get_all_cols db ts = Inr cs" and "tab_name d \<in> set ts" and "find_column db d = Inr c"
  shows "find (col_is d) cs = Some c"
  using assms(2,3)
proof (induction ts arbitrary: cs)
  case (Cons t ts)
  from Cons.prems(1) obtain m cs' where m: "get_table db t = Inr m" and cs': "get_all_cols db ts = Inr cs'" "cs = tm_cols m @ cs'"
    by (auto simp: get_all_cols_Cons andthen_eq_Inr)
  note names = named_columnsD(2) [OF assms(1) m]
  show ?case
  proof (cases "tab_name d = t")
    case True
    with assms(4) m have "find (\<lambda>c. cm_name c = col_name d) (tm_cols m) = Some c"
      by (auto simp: find_column_def andthen_eq_Inr tab_get_col_def split: option.splits)
    then have "find (col_is d) (tm_cols m) = Some c" using find_own_table [of "tm_cols m" d] names True by simp
    then show ?thesis using cs'(2) by (simp add: find_in_append)
  next
    case False
    then have "find (col_is d) (tm_cols m) = None" using find_other_table names by blast
    moreover from Cons False cs'(1) have "find (col_is d) cs' = Some c" by simp
    ultimately show ?thesis using cs'(2) by (simp add: find_in_append)
  qed
qed simp

section \<open>Values fit their columns\<close>

definition value_fits :: "col_meta \<Rightarrow> sql_value \<Rightarrow> bool" where
  "value_fits c v \<longleftrightarrow> value_type (vdata v) = cm_type c \<and> (\<exists>b. raw v = Some b \<and> int (length b) = cm_len c)"

lemma raw_bytes_length: "raw_bytes d n = Inr b \<Longrightarrow> int (length b) = n"
  by (cases d) (auto simp: str_bytes_def length_blit split: if_splits)

lemma coerced_type: "coerce_value_type v t n = Inr w \<Longrightarrow> value_type (vdata w) = t"
  by (auto simp: coerce_value_type_def Let_def split: if_splits col_type.splits value_data.splits option.splits)

lemma fit_value_fits: "fit_value v c = Inr w \<Longrightarrow> value_fits c w"
  by (auto simp: fit_value_def andthen_eq_Inr init_raw_def value_fits_def dest: coerced_type raw_bytes_length
      split: if_splits sum.splits)

section \<open>Conditions are well typed\<close>

definition cond_typed :: "db_meta \<Rightarrow> string list \<Rightarrow> condition \<Rightarrow> bool" where
  "cond_typed db ts c \<longleftrightarrow>
     (\<exists>lc. find_column db (lhs_col c) = Inr lc \<and> tab_name (lhs_col c) \<in> set ts \<and>
        (if is_rhs_val c then value_fits lc (rhs_val c)
         else \<exists>rc. find_column db (rhs_col c) = Inr rc \<and> tab_name (rhs_col c) \<in> set ts \<and> cm_type rc = cm_type lc))"

lemma all_cols_tables:
  assumes "named_columns db" and "get_all_cols db ts = Inr cs" and "c \<in> set cs"
  shows "cm_tab_name c \<in> set ts"
  using assms(2,3)
proof (induction ts arbitrary: cs)
  case Nil
  then show ?case by (simp add: get_all_cols_def)
next
  case (Cons t ts)
  then obtain m cs' where "get_table db t = Inr m" "get_all_cols db ts = Inr cs'" "cs = tm_cols m @ cs'"
    by (auto simp: get_all_cols_Cons andthen_eq_Inr)
  with Cons named_columnsD(2) [OF assms(1)] show ?case by auto
qed

lemma checked_table:
  assumes "named_columns db" and "get_all_cols db ts = Inr cs" and "check_column cs c = Inr d"
  shows "tab_name d \<in> set ts"
  using check_column_found(3) [OF assms(3)] all_cols_tables [OF assms(1,2)] by metis

lemma check_cond_typed:
  assumes "named_columns db" and "get_all_cols db ts = Inr cs" and "check_cond db cs c = Inr c'"
  shows "cond_typed db ts c'"
  using assms(3) checked_table [OF assms(1,2)] fit_value_fits
  by (fastforce simp: check_cond_def andthen_eq_Inr cond_typed_def value_fits_def split: if_splits prod.splits)

lemma check_clause_typed:
  assumes "named_columns db" and "check_clause db ts cs = Inr cs'" and "c \<in> set cs'"
  shows "cond_typed db ts c"
  using assms(2,3) check_cond_typed [OF assms(1)] by (auto simp: check_clause_def andthen_eq_Inr dest: for_each_mem)

lemma check_clause_cols: "check_clause db ts cs = Inr cs' \<Longrightarrow> get_all_cols db ts = Inr (query_cols db ts)"
  by (auto simp: check_clause_def andthen_eq_Inr query_cols_def)

text \<open>A well-typed condition can be evaluated on every row of the tables of its query.\<close>

lemma get_col_found:
  assumes "find (col_is d) cs = Some c"
  shows "\<exists>i. get_col cs d = Inr i \<and> cs ! i = c"
  using assms col_index_find [of cs d] by (auto simp: get_col_def split: option.splits)

lemma typed_evaluates:
  assumes "named_columns db" and "get_all_cols db ts = Inr cs" and "cond_typed db ts c"
  shows "\<exists>b. eval_cond cs record c = Inr b"
proof -
  note found = find_column_eq [OF assms(1,2), THEN get_col_found]
  from assms(3) obtain lc where lc: "find_column db (lhs_col c) = Inr lc" "tab_name (lhs_col c) \<in> set ts"
    and r: "if is_rhs_val c then value_fits lc (rhs_val c)
      else \<exists>rc. find_column db (rhs_col c) = Inr rc \<and> tab_name (rhs_col c) \<in> set ts \<and> cm_type rc = cm_type lc"
    by (auto simp: cond_typed_def)
  from found [OF lc(2,1)] obtain i where i: "get_col cs (lhs_col c) = Inr i" "cs ! i = lc" by auto
  show ?thesis
  proof (cases "is_rhs_val c")
    case True
    with r i show ?thesis by (auto simp: eval_cond_def rhs_value_def check_compare_def value_fits_def)
  next
    case False
    with r obtain rc where rc: "find_column db (rhs_col c) = Inr rc" "tab_name (rhs_col c) \<in> set ts" "cm_type rc = cm_type lc"
      by auto
    from found [OF rc(2,1)] obtain j where "get_col cs (rhs_col c) = Inr j" "cs ! j = rc" by auto
    with False i rc(3) show ?thesis by (simp add: eval_cond_def check_compare_def)
  qed
qed

fun stmt_tables :: "tree_node \<Rightarrow> string list" where
  "stmt_tables (SelectStmt x) = sel_tabs x"
| "stmt_tables (UpdateStmt t _ _) = [t]"
| "stmt_tables (DeleteStmt t _) = [t]"
| "stmt_tables _ = []"

lemma analyzed_conds:
  assumes "do_analyze db p = Inr q"
  shows "q_conds q = [] \<or> (\<exists>cs. check_clause db (stmt_tables p) cs = Inr (q_conds q))"
  using assms by (cases p) (auto simp: do_analyze_def analyze_select_def analyze_update_def analyze_insert_def
      where_clause_def andthen_eq_Inr new_Query_def split: if_splits)

lemma analyzed_sets:
  assumes "named_columns db" and "do_analyze db p = Inr q" and "x \<in> set (q_set_clauses q)"
  shows "\<exists>c. find_column db (set_lhs x) = Inr c \<and> value_fits c (set_rhs x)"
proof -
  from assms(2,3) obtain t cs y where "analyze_set db t cs y = Inr x" "get_all_cols db [t] = Inr cs"
    by (cases p) (auto simp: do_analyze_def analyze_select_def analyze_update_def analyze_insert_def andthen_eq_Inr
        new_Query_def dest: for_each_mem split: if_splits)
  then obtain l v c w m where *: "check_column cs \<lparr>tab_name = t, col_name = sv_col_name y\<rparr> = Inr l"
    "find_column db \<lparr>tab_name = t, col_name = col_name l\<rparr> = Inr c" "fit_value v c = Inr w" "x = \<lparr>set_lhs = l, set_rhs = w\<rparr>"
    "get_table db t = Inr m"
    by (auto simp: analyze_set_def andthen_eq_Inr get_all_cols_Cons)
  have "l = \<lparr>tab_name = t, col_name = sv_col_name y\<rparr>"
    using check_column_found(4) [OF *(1)] named_columnsD(1) [OF assms(1) *(5)] by simp
  with * fit_value_fits show ?thesis by auto
qed

lemma analyzed_values:
  assumes "do_analyze db (InsertStmt t vals) = Inr q"
  shows "\<exists>m. get_table db t = Inr m \<and> list_all2 value_fits (tm_cols m) (q_values q)"
proof -
  from assms obtain m ws where m: "get_table db t = Inr m" "length vals = length (tm_cols m)" "q_values q = ws"
    "for_each (\<lambda>(v, c). andthen (convert_sv_value v) (\<lambda>w. fit_value w c)) (zip vals (tm_cols m)) = Inr ws"
    by (auto simp: do_analyze_def analyze_insert_def andthen_eq_Inr new_Query_def split: if_splits)
  from m(2,4) have "list_all2 value_fits (tm_cols m) ws"
    by (auto simp: for_each_Inr list_all2_conv_all_nth andthen_eq_Inr intro: fit_value_fits)
  with m show ?thesis by auto
qed

text \<open>
  Claim C34. What the analysis accepts is well typed: every condition can be evaluated on every row over the
  columns of the statement's tables, so no executor meets an unknown column, a type clash or a value without
  raw bytes; every assigned and every inserted value has the type and the length of its column.
\<close>

theorem analysis_is_type_safe:
  assumes "named_columns db" and "do_analyze db p = Inr q"
  shows "(\<forall>c \<in> set (q_conds q). \<forall>record. \<exists>b. eval_cond (query_cols db (stmt_tables p)) record c = Inr b) \<and>
    (\<forall>x \<in> set (q_set_clauses q). \<exists>c. find_column db (set_lhs x) = Inr c \<and> value_fits c (set_rhs x)) \<and>
    (\<forall>t vals. p = InsertStmt t vals \<longrightarrow> (\<exists>m. get_table db t = Inr m \<and> list_all2 value_fits (tm_cols m) (q_values q)))"
proof (intro conjI ballI allI impI)
  fix c rw assume c: "c \<in> set (q_conds q)"
  with analyzed_conds [OF assms(2)] obtain cs where cs: "check_clause db (stmt_tables p) cs = Inr (q_conds q)" by auto
  show "\<exists>b. eval_cond (query_cols db (stmt_tables p)) rw c = Inr b"
    by (rule typed_evaluates [OF assms(1) check_clause_cols [OF cs] check_clause_typed [OF assms(1) cs c]])
next
  fix x assume "x \<in> set (q_set_clauses q)"
  then show "\<exists>c. find_column db (set_lhs x) = Inr c \<and> value_fits c (set_rhs x)" by (rule analyzed_sets [OF assms])
next
  fix t vals assume "p = InsertStmt t vals"
  with assms(2) analyzed_values show "\<exists>m. get_table db t = Inr m \<and> list_all2 value_fits (tm_cols m) (q_values q)" by blast
qed

text \<open>A catalogue with one table of an integer and a date.\<close>

definition event_db :: db_meta where
  "event_db = \<lparr>db_name = ''d'', tabs = [(''e'', \<lparr>tm_name = ''e'', tm_cols =
     [\<lparr>cm_tab_name = ''e'', cm_name = ''id'', cm_type = TYPE_INT, cm_len = 4, cm_offset = 0, cm_index = False\<rparr>,
      \<lparr>cm_tab_name = ''e'', cm_name = ''at'', cm_type = TYPE_DATETIME, cm_len = 8, cm_offset = 4, cm_index = False\<rparr>],
     indexes = []\<rparr>)]\<rparr>"

definition event_delete :: tree_node where
  "event_delete = DeleteStmt ''e'' [\<lparr>be_lhs = Col [] ''at'', be_op = SV_OP_LT, be_rhs = EValue (StringLit ''2024-02-29 23:59:59'')\<rparr>,
     \<lparr>be_lhs = Col [] ''id'', be_op = SV_OP_GE, be_rhs = EValue (IntLit 7)\<rparr>]"

theorem analysis_is_type_safe_witness:
  "\<exists>q c c' b b'. do_analyze event_db event_delete = Inr q \<and> q_conds q = [c, c'] \<and>
     eval_cond (query_cols event_db [''e'']) (enc_i32 9 @ enc_i64 20230101000000) c = Inr b \<and>
     eval_cond (query_cols event_db [''e'']) (enc_i32 9 @ enc_i64 20230101000000) c' = Inr b'"
proof -
  have d: "parse_datetime_string ''2024-02-29 23:59:59'' = Some 20240229235959" by code_simp
  obtain q where q: "do_analyze event_db event_delete = Inr q" "length (q_conds q) = 2"
    by (simp add: event_db_def event_delete_def do_analyze_def where_clause_def get_clause_def get_cond_def check_clause_def
        get_all_cols_def get_table_def check_cond_def check_column_def find_column_def tab_get_col_def fit_value_def
        coerce_value_type_def init_raw_def ast_tab_col_def Let_def d new_Query_def)
  then obtain c c' where c: "q_conds q = [c, c']" by (auto simp: numeral_2_eq_2 length_Suc_conv)
  have "named_columns event_db" by code_simp
  from analysis_is_type_safe [OF this q(1)] q(1) c show ?thesis by (fastforce simp: event_delete_def)
qed

end
