(* ===== verification/Planner.thy ===== *)
theory Planner
  imports Analyzer
begin

text \<open>
  Query plans and the planner: \<^verbatim>\<open>optimizer/plan.h\<close>, \<^verbatim>\<open>planner.cpp\<close>, \<^verbatim>\<open>planner.h\<close> and \<^verbatim>\<open>optimizer.h\<close>. A plan
  object is a constructor of the datatype \<open>plan\<close>, with \<open>NullPlan\<close> for the null pointer; the tag is kept for
  the classes that carry more than one.
\<close>

section \<open>Plans\<close>

datatype plan_tag =
    T_Invalid | T_Help | T_ShowTable | T_ShowIndex | T_DescTable | T_CreateTable | T_DropTable | T_CreateIndex
  | T_DropIndex | T_Insert | T_Update | T_Delete | T_select | T_Transaction_begin | T_Transaction_commit
  | T_Transaction_abort | T_Transaction_rollback | T_SeqScan | T_IndexScan | T_NestLoop | T_Sort | T_Limit
  | T_Aggregate | T_Projection

record scan_plan =
  sp_tab_name :: string
  sp_cols :: "col_meta list"
  sp_conds :: "condition list"
  sp_len :: int
  sp_index_col_names :: "string list"

datatype plan =
    NullPlan
  | ScanPlan plan_tag scan_plan
  | JoinPlan plan plan "condition list"
  | ProjectionPlan plan "tab_col list"
  | SortPlan plan "tab_col list" "bool list" int
  | LimitPlan plan int
  | AggregatePlan plan "agg_call list"
  | DMLPlan plan_tag plan string "sql_value list" "condition list" "set_clause list"
  | DDLPlan plan_tag string "string list" "col_def list"
  | OtherPlan plan_tag string

text \<open>
  The constructor of \<^verbatim>\<open>ScanPlan\<close>; a table without columns has no last column to take the length from.
\<close>

definition new_ScanPlan :: "db_meta \<Rightarrow> plan_tag \<Rightarrow> string \<Rightarrow> condition list \<Rightarrow> string list \<Rightarrow> rmdb_error + plan" where
  "new_ScanPlan db tag t conds names =
     andthen (get_table db t)
       (\<lambda>m. if tm_cols m = [] then Inl NullDereference
            else Inr (ScanPlan tag \<lparr>sp_tab_name = t, sp_cols = tm_cols m, sp_conds = conds,
                                    sp_len = cm_offset (last (tm_cols m)) + cm_len (last (tm_cols m)),
                                    sp_index_col_names = names\<rparr>))"

section \<open>Choosing an index\<close>

definition on_column :: "string \<Rightarrow> col_meta \<Rightarrow> condition \<Rightarrow> bool" where
  "on_column t c x \<longleftrightarrow> is_rhs_val x \<and> tab_name (lhs_col x) = t \<and> col_name (lhs_col x) = cm_name c"

definition has_eq :: "string \<Rightarrow> condition list \<Rightarrow> col_meta \<Rightarrow> bool" where
  "has_eq t conds c = list_ex (\<lambda>x. on_column t c x \<and> cond_op x = OP_EQ) conds"

definition has_range :: "string \<Rightarrow> condition list \<Rightarrow> col_meta \<Rightarrow> bool" where
  "has_range t conds c = list_ex (\<lambda>x. on_column t c x \<and> cond_op x \<in> {OP_LT, OP_LE, OP_GT, OP_GE}) conds"

text \<open>The columns of an index that the conditions pin down: equalities, and one range after them.\<close>

fun index_prefix :: "string \<Rightarrow> condition list \<Rightarrow> col_meta list \<Rightarrow> nat" where
  "index_prefix t conds [] = 0"
| "index_prefix t conds (c # cs) =
     (if has_eq t conds c then Suc (index_prefix t conds cs) else if has_range t conds c then 1 else 0)"

definition better_index :: "string \<Rightarrow> condition list \<Rightarrow> nat \<times> string list \<Rightarrow> index_meta \<Rightarrow> nat \<times> string list" where
  "better_index t conds best ix =
     (let prefix = index_prefix t conds (im_cols ix) in
      if prefix > fst best then (prefix, map cm_name (im_cols ix)) else best)"

definition get_index_cols :: "db_meta \<Rightarrow> string \<Rightarrow> condition list \<Rightarrow> rmdb_error + string list option" where
  "get_index_cols db t conds =
     andthen (get_table db t)
       (\<lambda>m. case foldl (better_index t conds) (0, []) (indexes m) of
              (best, names) \<Rightarrow> Inr (if best = 0 then None else Some names))"

text \<open>The scan of a table: by an index when one helps.\<close>

definition plan_scan :: "db_meta \<Rightarrow> string \<Rightarrow> condition list \<Rightarrow> rmdb_error + plan" where
  "plan_scan db t conds =
     andthen (get_index_cols db t conds)
       (\<lambda>ix. case ix of
               None \<Rightarrow> new_ScanPlan db T_SeqScan t conds []
             | Some names \<Rightarrow> new_ScanPlan db T_IndexScan t conds names)"

section \<open>Distributing the conditions\<close>

definition pops :: "string \<Rightarrow> condition \<Rightarrow> bool" where
  "pops t c \<longleftrightarrow> (t = tab_name (lhs_col c) \<and> is_rhs_val c) \<or> tab_name (lhs_col c) = tab_name (rhs_col c)"

fun pop_conds :: "condition list \<Rightarrow> string \<Rightarrow> condition list \<times> condition list" where
  "pop_conds [] t = ([], [])"
| "pop_conds (c # cs) t =
     (case pop_conds cs t of (solved, rest) \<Rightarrow> if pops t c then (c # solved, rest) else (solved, c # rest))"

fun swap_op :: "comp_op \<Rightarrow> comp_op" where
  "swap_op OP_EQ = OP_EQ"
| "swap_op OP_NE = OP_NE"
| "swap_op OP_LT = OP_GT"
| "swap_op OP_GT = OP_LT"
| "swap_op OP_LE = OP_GE"
| "swap_op OP_GE = OP_LE"

definition swap_cond :: "condition \<Rightarrow> condition" where
  "swap_cond c = c\<lparr>lhs_col := rhs_col c, rhs_col := lhs_col c, cond_op := swap_op (cond_op c)\<rparr>"

text \<open>
  \<^verbatim>\<open>push_conds\<close> returns 1 or 2 when the plan has the table of the left or of the right side of the condition,
  0 when it has neither, and 3 when a join below has both and now carries the condition.
\<close>

fun push_conds :: "condition \<Rightarrow> plan \<Rightarrow> int \<times> plan" where
  "push_conds c (ScanPlan tag x) =
     ((if sp_tab_name x = tab_name (lhs_col c) then 1 else if sp_tab_name x = tab_name (rhs_col c) then 2 else 0), ScanPlan tag x)"
| "push_conds c (JoinPlan l r conds) =
     (case push_conds c l of (left_res, l') \<Rightarrow>
        if left_res = 3 then (3, JoinPlan l' r conds)
        else case push_conds c r of (right_res, r') \<Rightarrow>
          if right_res = 3 then (3, JoinPlan l' r' conds)
          else if left_res = 0 \<or> right_res = 0 then (left_res + right_res, JoinPlan l' r' conds)
          else (3, JoinPlan l' r' (conds @ [if left_res = 2 then swap_cond c else c])))"
| "push_conds c p = (0, p)"

text \<open>\<open>marks\<close> is the array \<^verbatim>\<open>scantbl\<close>, \<open>joined\<close> the vector \<^verbatim>\<open>joined_tables\<close>.\<close>

fun scan_table :: "plan \<Rightarrow> string" where
  "scan_table (ScanPlan tag x) = sp_tab_name x"
| "scan_table _ = []"

fun scan_pos :: "string \<Rightarrow> plan list \<Rightarrow> nat option" where
  "scan_pos t [] = None"
| "scan_pos t (p # ps) = (if scan_table p = t then Some 0 else map_option Suc (scan_pos t ps))"

type_synonym join_marks = "int list \<times> string list"

definition pop_scan :: "plan list \<Rightarrow> string \<Rightarrow> join_marks \<Rightarrow> plan \<times> join_marks" where
  "pop_scan scans t st =
     (case st of (marks, joined) \<Rightarrow>
        case scan_pos t scans of
          None \<Rightarrow> (NullPlan, st)
        | Some i \<Rightarrow> (scans ! i, (marks[i := 1], joined @ [scan_table (scans ! i)])))"

section \<open>Joining the tables\<close>

fun plan_scans :: "db_meta \<Rightarrow> string list \<Rightarrow> condition list \<Rightarrow> rmdb_error + plan list \<times> condition list" where
  "plan_scans db [] conds = Inr ([], conds)"
| "plan_scans db (t # ts) conds =
     (case pop_conds conds t of (cur, rest) \<Rightarrow>
        andthen (plan_scan db t cur)
          (\<lambda>p. andthen (plan_scans db ts rest) (\<lambda>(ps, cs). Inr (p # ps, cs))))"

definition first_join :: "plan list \<Rightarrow> condition \<Rightarrow> join_marks \<Rightarrow> plan \<times> join_marks" where
  "first_join scans c st =
     (case pop_scan scans (tab_name (lhs_col c)) st of (l, st1) \<Rightarrow>
        case pop_scan scans (tab_name (rhs_col c)) st1 of (r, st2) \<Rightarrow> (JoinPlan l r [c], st2))"

definition need_scan :: "plan list \<Rightarrow> string \<Rightarrow> join_marks \<Rightarrow> plan \<times> join_marks" where
  "need_scan scans t st = (if t \<in> set (snd st) then (NullPlan, st) else pop_scan scans t st)"

definition next_join :: "plan list \<Rightarrow> plan \<times> join_marks \<Rightarrow> condition \<Rightarrow> plan \<times> join_marks" where
  "next_join scans acc c =
     (case acc of (tree, st) \<Rightarrow>
        case need_scan scans (tab_name (lhs_col c)) st of (l, st1) \<Rightarrow>
          let isneedreverse = tab_name (rhs_col c) \<notin> set (snd st1) in
          case need_scan scans (tab_name (rhs_col c)) st1 of (r, st2) \<Rightarrow>
            if l \<noteq> NullPlan \<and> r \<noteq> NullPlan then (JoinPlan (JoinPlan l r [c]) tree [], st2)
            else if l \<noteq> NullPlan \<or> r \<noteq> NullPlan
              then (if isneedreverse then JoinPlan r tree [swap_cond c] else JoinPlan l tree [c], st2)
            else (snd (push_conds c tree), st2))"

fun join_rest :: "plan list \<Rightarrow> int list \<Rightarrow> plan \<Rightarrow> plan" where
  "join_rest (p # ps) (m # ms) tree = join_rest ps ms (if m = -1 then JoinPlan p tree [] else tree)"
| "join_rest _ _ tree = tree"

definition join_scans :: "plan list \<Rightarrow> condition list \<Rightarrow> rmdb_error + plan" where
  "join_scans scans conds =
     (let n = length scans; marks = replicate n (-1 :: int) in
      case conds of
        c # cs \<Rightarrow>
          (case foldl (next_join scans) (first_join scans c (marks, replicate n [])) cs of
             (tree, (marks', joined)) \<Rightarrow> Inr (join_rest scans marks' tree))
      | [] \<Rightarrow> if scans = [] then Inl NullDereference else Inr (join_rest scans (marks[0 := 1]) (hd scans)))"

definition make_one_rel :: "db_meta \<Rightarrow> query \<Rightarrow> rmdb_error + plan" where
  "make_one_rel db q =
     andthen (plan_scans db (q_tables q) (q_conds q))
       (\<lambda>(scans, conds). if length (q_tables q) = 1 then Inr (hd scans) else join_scans scans conds)"

section \<open>Sort, limit, aggregate, projection\<close>

definition generate_sort_plan :: "db_meta \<Rightarrow> query \<Rightarrow> select_stmt \<Rightarrow> plan \<Rightarrow> rmdb_error + plan" where
  "generate_sort_plan db q x p =
     (case sel_order x of
        None \<Rightarrow> Inr p
      | Some items \<Rightarrow>
          andthen (get_all_cols db (q_tables q))
            (\<lambda>all_cols. andthen (for_each (\<lambda>i. check_column all_cols (ast_tab_col (ob_cols i))) items)
               (\<lambda>cols. Inr (SortPlan p cols (map (\<lambda>i. ob_dir i = OrderBy_DESC) items) (sel_limit x)))))"

definition logical_optimization :: "query \<Rightarrow> query" where
  "logical_optimization q = q"

definition physical_optimization :: "db_meta \<Rightarrow> query \<Rightarrow> select_stmt \<Rightarrow> rmdb_error + plan" where
  "physical_optimization db q x =
     andthen (make_one_rel db q)
       (\<lambda>p. andthen (generate_sort_plan db q x p)
          (\<lambda>p1. Inr (if \<not> has_sort x \<and> sel_limit x \<ge> 0 then LimitPlan p1 (sel_limit x) else p1)))"

definition agg_column :: "db_meta \<Rightarrow> query \<Rightarrow> ast_col \<Rightarrow> rmdb_error + tab_col" where
  "agg_column db q c =
     andthen (get_all_cols db (q_tables q))
       (\<lambda>all_cols.
          if col_tab_name c \<noteq> [] then Inr (ast_tab_col c)
          else andthen (infer_table (col_col_name c) [] all_cols)
                 (\<lambda>t. if t = [] then Inl (ColumnNotFoundError (col_col_name c))
                      else Inr ((ast_tab_col c)\<lparr>tab_name := t\<rparr>)))"

fun make_agg_calls :: "db_meta \<Rightarrow> query \<Rightarrow> ast_col list \<Rightarrow> rmdb_error + agg_call list" where
  "make_agg_calls db q [] = Inr []"
| "make_agg_calls db q (Col _ _ # cs) = make_agg_calls db q cs"
| "make_agg_calls db q (AggFunc f a alias star # cs) =
     andthen (if star then Inr \<lparr>tab_name = [], col_name = []\<rparr>
              else case a of None \<Rightarrow> Inl NullDereference | Some a \<Rightarrow> agg_column db q a)
       (\<lambda>t. andthen (make_agg_calls db q cs)
          (\<lambda>calls. Inr (\<lparr>func_type = f, agg_col = t, agg_alias = alias, agg_is_star = star\<rparr> # calls)))"

definition generate_select_plan :: "db_meta \<Rightarrow> query \<Rightarrow> select_stmt \<Rightarrow> rmdb_error + plan" where
  "generate_select_plan db q0 x =
     (let q = logical_optimization q0 in
      andthen (physical_optimization db q x)
        (\<lambda>root. andthen (make_agg_calls db q (sel_cols x))
           (\<lambda>calls. Inr (if calls \<noteq> [] then AggregatePlan root calls else ProjectionPlan root (q_cols q)))))"

section \<open>Planner and optimizer\<close>

fun interp_sv_type :: "sv_type \<Rightarrow> col_type" where
  "interp_sv_type SV_TYPE_INT = TYPE_INT"
| "interp_sv_type SV_TYPE_FLOAT = TYPE_FLOAT"
| "interp_sv_type SV_TYPE_STRING = TYPE_STRING"
| "interp_sv_type SV_TYPE_BIGINT = TYPE_BIGINT"
| "interp_sv_type SV_TYPE_DATETIME = TYPE_DATETIME"

fun interp_field :: "ast_field \<Rightarrow> rmdb_error + col_def" where
  "interp_field (ColDef n x) = Inr \<lparr>cd_name = n, cd_type = interp_sv_type (tl_type x), cd_len = tl_len x\<rparr>"
| "interp_field PlainField = Inl (InternalError ''Unexpected field type'')"

definition do_planner :: "db_meta \<Rightarrow> query \<Rightarrow> rmdb_error + plan" where
  "do_planner db q =
     (case q_parse q of
        Help \<Rightarrow> Inr (OtherPlan T_Help [])
      | ShowTables \<Rightarrow> Inr (OtherPlan T_ShowTable [])
      | DescTable t \<Rightarrow> Inr (OtherPlan T_DescTable t)
      | TxnBegin \<Rightarrow> Inr (OtherPlan T_Transaction_begin [])
      | TxnCommit \<Rightarrow> Inr (OtherPlan T_Transaction_commit [])
      | TxnAbort \<Rightarrow> Inr (OtherPlan T_Transaction_abort [])
      | TxnRollback \<Rightarrow> Inr (OtherPlan T_Transaction_rollback [])
      | CreateTable t xs \<Rightarrow> andthen (for_each interp_field xs) (\<lambda>defs. Inr (DDLPlan T_CreateTable t [] defs))
      | DropTable t \<Rightarrow> Inr (DDLPlan T_DropTable t [] [])
      | ShowIndex t \<Rightarrow> Inr (OtherPlan T_ShowIndex t)
      | CreateIndex t names \<Rightarrow> Inr (DDLPlan T_CreateIndex t names [])
      | DropIndex t names \<Rightarrow> Inr (DDLPlan T_DropIndex t names [])
      | InsertStmt t vals \<Rightarrow> Inr (DMLPlan T_Insert NullPlan t (q_values q) [] [])
      | DeleteStmt t xs \<Rightarrow> andthen (plan_scan db t (q_conds q)) (\<lambda>p. Inr (DMLPlan T_Delete p t [] (q_conds q) []))
      | UpdateStmt t sets xs \<Rightarrow>
          andthen (plan_scan db t (q_conds q)) (\<lambda>p. Inr (DMLPlan T_Update p t [] (q_conds q) (q_set_clauses q)))
      | SelectStmt x \<Rightarrow> andthen (generate_select_plan db q x) (\<lambda>p. Inr (DMLPlan T_select p [] [] [] []))
      | OtherNode \<Rightarrow> Inl (InternalError ''Unexpected AST root''))"

definition plan_query :: "db_meta \<Rightarrow> query \<Rightarrow> rmdb_error + plan" where
  "plan_query db q =
     (case q_parse q of
        Help \<Rightarrow> Inr (OtherPlan T_Help [])
      | ShowTables \<Rightarrow> Inr (OtherPlan T_ShowTable [])
      | DescTable t \<Rightarrow> Inr (OtherPlan T_DescTable t)
      | TxnBegin \<Rightarrow> Inr (OtherPlan T_Transaction_begin [])
      | TxnAbort \<Rightarrow> Inr (OtherPlan T_Transaction_abort [])
      | TxnCommit \<Rightarrow> Inr (OtherPlan T_Transaction_commit [])
      | TxnRollback \<Rightarrow> Inr (OtherPlan T_Transaction_rollback [])
      | _ \<Rightarrow> do_planner db q)"

end
