(* ===== verification/Executor_Tree.thy ===== *)
theory Executor_Tree
  imports Executors
begin

text \<open>
  The executors that work on other executors: nested-loop join, projection, sort, limit and
  aggregation, and the table of virtual functions of a whole tree.
\<close>

section \<open>NestedLoopJoinExecutor\<close>

definition kJoinBufferBytes :: int where
  "kJoinBufferBytes = 8 * 1024 * 1024"

definition NestedLoopJoinExecutor :: "exec \<Rightarrow> exec \<Rightarrow> condition list \<Rightarrow> exec" where
  "NestedLoopJoinExecutor l r conds =
     NestedLoopJoin l r
       \<lparr>jn_len = tupleLen l + tupleLen r,
        jn_cols = exec_cols l @ map (\<lambda>c. c\<lparr>cm_offset := cm_offset c + tupleLen l\<rparr>) (exec_cols r),
        jn_conds = conds, jn_isend = False,
        left_block_capacity = nat (max 1 (kJoinBufferBytes div max 1 (tupleLen l))),
        left_block = [], left_block_idx = 0, right_tuple = None, current_tuple = None\<rparr>"

definition join_tuple :: "int \<Rightarrow> int \<Rightarrow> int \<Rightarrow> bytes \<Rightarrow> bytes \<Rightarrow> bytes" where
  "join_tuple len left_len right_len left_rec right_rec =
     blit (blit (zeros (nat len)) 0 (take (nat left_len) left_rec)) (nat left_len) (take (nat right_len) right_rec)"

text \<open>A column of the left tuple or, failing that, of the right one.\<close>

definition get_value_meta :: "col_meta list \<Rightarrow> col_meta list \<Rightarrow> bytes \<Rightarrow> bytes \<Rightarrow> tab_col \<Rightarrow> rmdb_error + col_meta \<times> bytes" where
  "get_value_meta lcols rcols left_rec right_rec target =
     (case col_index lcols target of
        Some i \<Rightarrow> Inr (lcols ! i, field (lcols ! i) left_rec)
      | None \<Rightarrow>
          (case col_index rcols target of
             Some i \<Rightarrow> Inr (rcols ! i, field (rcols ! i) right_rec)
           | None \<Rightarrow> Inl (ColumnNotFoundError (tab_name target @ ''.'' @ col_name target))))"

definition eval_join_cond :: "col_meta list \<Rightarrow> col_meta list \<Rightarrow> bytes \<Rightarrow> bytes \<Rightarrow> condition \<Rightarrow> rmdb_error + bool" where
  "eval_join_cond lcols rcols left_rec right_rec c =
     (case get_value_meta lcols rcols left_rec right_rec (lhs_col c) of
        Inl e \<Rightarrow> Inl e
      | Inr (lhs_meta, lhs) \<Rightarrow>
          check_compare lhs_meta lhs
            (if is_rhs_val c then rhs_value c
             else case get_value_meta lcols rcols left_rec right_rec (rhs_col c) of
                    Inl e \<Rightarrow> Inl e
                  | Inr (rhs_meta, rhs) \<Rightarrow> Inr (rhs, cm_type rhs_meta))
            (cond_op c))"

definition eval_join_conds :: "col_meta list \<Rightarrow> col_meta list \<Rightarrow> condition list \<Rightarrow> bytes \<Rightarrow> bytes \<Rightarrow> rmdb_error + bool" where
  "eval_join_conds lcols rcols conds left_rec right_rec = all_hold (eval_join_cond lcols rcols left_rec right_rec) conds"

text \<open>\<open>refill\<close> collects left tuples until the child ends or the block is full, in tuples or in bytes.\<close>

primrec refill :: "nat \<Rightarrow> 's executor \<Rightarrow> int \<Rightarrow> exec \<times> 's \<Rightarrow> (bytes list, exec \<times> 's) res" where
  "refill 0 L n st = Ret [] st"
| "refill (Suc m) L n st =
     (if is_end L st then Ret [] st
      else seqE (Next L st)
        (\<lambda>rec st1.
           case rec of
             None \<Rightarrow> Ret [] st1
           | Some b \<Rightarrow>
               seqE (nextTuple L st1)
                 (\<lambda>_ st2.
                    if n + int (length b) \<ge> kJoinBufferBytes then Ret [b] st2
                    else seqE (refill m L (n + int (length b)) st2) (\<lambda>bs st3. Ret (b # bs) st3))))"

type_synonym 's join_st = "(exec \<times> exec \<times> join_exec) \<times> 's"

definition on_left :: "(exec \<times> 's \<Rightarrow> ('a, exec \<times> 's) res) \<Rightarrow> 's join_st \<Rightarrow> ('a, 's join_st) res" where
  "on_left m st = (case st of ((l, r, j), s) \<Rightarrow> (case m (l, s) of (x, (l', s')) \<Rightarrow> (x, ((l', r, j), s'))))"

definition on_right :: "(exec \<times> 's \<Rightarrow> ('a, exec \<times> 's) res) \<Rightarrow> 's join_st \<Rightarrow> ('a, 's join_st) res" where
  "on_right m st = (case st of ((l, r, j), s) \<Rightarrow> (case m (r, s) of (x, (r', s')) \<Rightarrow> (x, ((l, r', j), s'))))"

definition set_join :: "(join_exec \<Rightarrow> join_exec) \<Rightarrow> 's join_st \<Rightarrow> 's join_st" where
  "set_join g st = (case st of ((l, r, j), s) \<Rightarrow> ((l, r, g j), s))"

definition refill_left_block :: "'s executor \<Rightarrow> 's join_st \<Rightarrow> (bool, 's join_st) res" where
  "refill_left_block L st =
     (case st of ((l, r, j), s) \<Rightarrow>
        seqE (on_left (refill (left_block_capacity j) L 0) (set_join (\<lambda>j. j\<lparr>left_block := [], left_block_idx := 0\<rparr>) st))
          (\<lambda>bs st1. Ret (bs \<noteq> []) (set_join (\<lambda>j. j\<lparr>left_block := bs\<rparr>) st1)))"

definition begin_right_scan :: "'s executor \<Rightarrow> 's join_st \<Rightarrow> (unit, 's join_st) res" where
  "begin_right_scan Rt st =
     seqE (on_right (beginTuple Rt) st) (\<lambda>_ st1. Ret () (set_join (\<lambda>j. j\<lparr>right_tuple := None\<rparr>) st1))"

text \<open>The innermost loop of \<^verbatim>\<open>advance\<close>: the next left tuple of the block that joins with the right tuple.\<close>

fun probe :: "(bytes \<Rightarrow> rmdb_error + bool) \<Rightarrow> bytes list \<Rightarrow> nat \<Rightarrow> (rmdb_error + bytes option) \<times> nat" where
  "probe f [] i = (Inr None, i)"
| "probe f (b # bs) i =
     (case f b of
        Inl e \<Rightarrow> (Inl e, i)
      | Inr True \<Rightarrow> (Inr (Some b), i)
      | Inr False \<Rightarrow> probe f bs (Suc i))"

text \<open>
  \<^verbatim>\<open>advance\<close>: the loop over right tuples and the loop over left blocks are one recursion, since the
  block is not empty when the inner loop goes round.
\<close>

fun join_advance :: "nat \<Rightarrow> 's executor \<Rightarrow> 's executor \<Rightarrow> 's join_st \<Rightarrow> (unit, 's join_st) res" where
  "join_advance 0 L Rt st = Throw NonTermination st"
| "join_advance (Suc k) L Rt ((l, r, j), s) =
     (if left_block j = [] then Ret () ((l, r, j\<lparr>jn_isend := True\<rparr>), s)
      else if \<not> is_end Rt (r, s) then
        seqE (case right_tuple j of
                Some b \<Rightarrow> Ret (Some b) ((l, r, j), s)
              | None \<Rightarrow> on_right (Next Rt) ((l, r, j), s))
          (\<lambda>rt ((l1, r1, j1), s1).
             case rt of
               None \<Rightarrow> Throw NullDereference ((l1, r1, j1), s1)
             | Some b \<Rightarrow>
                 (case probe (\<lambda>a. eval_join_conds (exec_cols l1) (exec_cols r1) (jn_conds j1) a b) (drop (left_block_idx j1) (left_block j1)) (left_block_idx j1) of
                    (Inl e, i) \<Rightarrow> Throw e ((l1, r1, j1\<lparr>right_tuple := rt, left_block_idx := i\<rparr>), s1)
                  | (Inr (Some a), i) \<Rightarrow>
                      Ret () ((l1, r1, j1\<lparr>right_tuple := rt, current_tuple := Some (join_tuple (jn_len j1) (tupleLen l1) (tupleLen r1) a b),
                                         left_block_idx := Suc i, jn_isend := False\<rparr>), s1)
                  | (Inr None, i) \<Rightarrow>
                      seqE (on_right (nextTuple Rt) ((l1, r1, j1\<lparr>left_block_idx := 0\<rparr>), s1))
                        (\<lambda>_ st2. join_advance k L Rt (set_join (\<lambda>j. j\<lparr>right_tuple := None\<rparr>) st2))))
      else seqE (refill_left_block L ((l, r, j), s))
        (\<lambda>more st1.
           if \<not> more then Ret () (set_join (\<lambda>j. j\<lparr>jn_isend := True\<rparr>) st1)
           else seqE (begin_right_scan Rt st1)
             (\<lambda>_ ((l2, r2, j2), s2).
                if is_end Rt (r2, s2) then Ret () ((l2, r2, j2\<lparr>jn_isend := True\<rparr>), s2)
                else join_advance k L Rt ((l2, r2, j2), s2))))"

definition join_begin :: "nat \<Rightarrow> 's executor \<Rightarrow> 's executor \<Rightarrow> 's join_st \<Rightarrow> (unit, 's join_st) res" where
  "join_begin k L Rt st =
     seqE (on_left (beginTuple L) st)
       (\<lambda>_ st1. seqE (refill_left_block L (set_join (\<lambda>j. j\<lparr>jn_isend := False, right_tuple := None\<rparr>) st1))
          (\<lambda>more st2.
             if \<not> more then Ret () (set_join (\<lambda>j. j\<lparr>jn_isend := True\<rparr>) st2)
             else seqE (begin_right_scan Rt st2)
               (\<lambda>_ ((l, r, j), s).
                  if is_end Rt (r, s) then Ret () ((l, r, j\<lparr>jn_isend := True\<rparr>), s)
                  else join_advance k L Rt ((l, r, j\<lparr>current_tuple := None\<rparr>), s))))"

definition join_next :: "nat \<Rightarrow> 's executor \<Rightarrow> 's executor \<Rightarrow> 's join_st \<Rightarrow> (unit, 's join_st) res" where
  "join_next k L Rt st =
     (case st of ((l, r, j), s) \<Rightarrow>
        if jn_isend j then Ret () st else join_advance k L Rt ((l, r, j\<lparr>current_tuple := None\<rparr>), s))"

definition join_op :: "('a, 's join_st) res \<Rightarrow> ('a, exec \<times> 's) res" where
  "join_op res = (case res of (x, ((l, r, j), s)) \<Rightarrow> (x, (NestedLoopJoin l r j, s)))"

definition nested_loop_join :: "nat \<Rightarrow> 's executor \<Rightarrow> 's executor \<Rightarrow> 's executor" where
  "nested_loop_join k L Rt =
     \<lparr>beginTuple = (\<lambda>(x, s). case x of NestedLoopJoin l r j \<Rightarrow> join_op (join_begin k L Rt ((l, r, j), s))
                               | _ \<Rightarrow> Throw NullDereference (x, s)),
      nextTuple = (\<lambda>(x, s). case x of NestedLoopJoin l r j \<Rightarrow> join_op (join_next k L Rt ((l, r, j), s))
                              | _ \<Rightarrow> Throw NullDereference (x, s)),
      Next = (\<lambda>(x, s). case x of NestedLoopJoin l r j \<Rightarrow> Ret (current_tuple j) (x, s) | _ \<Rightarrow> Throw NullDereference (x, s)),
      is_end = (\<lambda>(x, s). case x of NestedLoopJoin l r j \<Rightarrow> jn_isend j | _ \<Rightarrow> True)\<rparr>"

section \<open>ProjectionExecutor\<close>

fun project_cols :: "col_meta list \<Rightarrow> tab_col list \<Rightarrow> int \<Rightarrow> rmdb_error + nat list \<times> col_meta list \<times> int" where
  "project_cols prev_cols [] off = Inr ([], [], off)"
| "project_cols prev_cols (t # ts) off =
     (case get_col prev_cols t of
        Inl e \<Rightarrow> Inl e
      | Inr i \<Rightarrow>
          (case project_cols prev_cols ts (off + cm_len (prev_cols ! i)) of
             Inl e \<Rightarrow> Inl e
           | Inr (is, cs, n) \<Rightarrow> Inr (i # is, (prev_cols ! i)\<lparr>cm_offset := off\<rparr> # cs, n)))"

definition ProjectionExecutor :: "exec \<Rightarrow> tab_col list \<Rightarrow> rmdb_error + exec" where
  "ProjectionExecutor prev sel_cols =
     (case project_cols (exec_cols prev) sel_cols 0 of
        Inl e \<Rightarrow> Inl e
      | Inr (is, cs, n) \<Rightarrow> Inr (Projection prev \<lparr>pj_cols = cs, pj_len = n, sel_idxs = is\<rparr>))"

fun copy_fields :: "col_meta list \<Rightarrow> nat list \<Rightarrow> col_meta list \<Rightarrow> bytes \<Rightarrow> bytes \<Rightarrow> bytes" where
  "copy_fields prev_cols (i # is) (c # cs) prev_rec out =
     copy_fields prev_cols is cs prev_rec
       (blit out (nat (cm_offset c)) (take (nat (cm_len (prev_cols ! i))) (field (prev_cols ! i) prev_rec)))"
| "copy_fields prev_cols _ _ prev_rec out = out"

definition project :: "col_meta list \<Rightarrow> projection_exec \<Rightarrow> bytes \<Rightarrow> bytes" where
  "project prev_cols e prev_rec = copy_fields prev_cols (sel_idxs e) (pj_cols e) prev_rec (zeros (nat (pj_len e)))"

definition projection :: "'s executor \<Rightarrow> 's executor" where
  "projection P =
     \<lparr>beginTuple = (\<lambda>(x, s). case x of Projection p e \<Rightarrow> child (\<lambda>p. Projection p e) (beginTuple P (p, s))
                               | _ \<Rightarrow> Throw NullDereference (x, s)),
      nextTuple = (\<lambda>(x, s). case x of Projection p e \<Rightarrow> child (\<lambda>p. Projection p e) (nextTuple P (p, s))
                              | _ \<Rightarrow> Throw NullDereference (x, s)),
      Next = (\<lambda>(x, s). case x of Projection p e \<Rightarrow>
                  (case Next P (p, s) of
                     (Inl err, (p', s')) \<Rightarrow> Throw err (Projection p' e, s')
                   | (Inr b, (p', s')) \<Rightarrow> Ret (map_option (project (exec_cols p') e) b) (Projection p' e, s'))
                | _ \<Rightarrow> Throw NullDereference (x, s)),
      is_end = (\<lambda>(x, s). case x of Projection p e \<Rightarrow> is_end P (p, s) | _ \<Rightarrow> True)\<rparr>"

section \<open>Draining a child\<close>

text \<open>
  The loop of sort and aggregation over their child. A null tuple, which no executor returns before its
  end, would be dereferenced later.
\<close>

primrec drain :: "nat \<Rightarrow> 's executor \<Rightarrow> exec \<times> 's \<Rightarrow> (bytes list, exec \<times> 's) res" where
  "drain 0 P st = Throw NonTermination st"
| "drain (Suc k) P st =
     (if is_end P st then Ret [] st
      else seqE (Next P st)
        (\<lambda>b st1.
           case b of
             None \<Rightarrow> Throw NullDereference st1
           | Some b \<Rightarrow>
               seqE (nextTuple P st1) (\<lambda>_ st2. seqE (drain k P st2) (\<lambda>bs st3. Ret (b # bs) st3))))"

definition drain_all :: "nat \<Rightarrow> 's executor \<Rightarrow> exec \<times> 's \<Rightarrow> (bytes list, exec \<times> 's) res" where
  "drain_all k P st = seqE (beginTuple P st) (\<lambda>_ st1. drain k P st1)"

section \<open>SortExecutor\<close>

fun sort_targets :: "col_meta list \<Rightarrow> tab_col list \<Rightarrow> rmdb_error + col_meta list" where
  "sort_targets p [] = Inr []"
| "sort_targets p (t # ts) =
     (case get_col_offset p t of
        Inl e \<Rightarrow> Inl e
      | Inr c \<Rightarrow> (case sort_targets p ts of Inl e \<Rightarrow> Inl e | Inr cs \<Rightarrow> Inr (c # cs)))"

definition SortExecutor :: "exec \<Rightarrow> tab_col list \<Rightarrow> bool list \<Rightarrow> int \<Rightarrow> rmdb_error + exec" where
  "SortExecutor prev sel_cols descs limit =
     (case sort_targets (exec_cols prev) sel_cols of
        Inl e \<Rightarrow> Inl e
      | Inr cs \<Rightarrow> Inr (Sort prev \<lparr>sort_cols = cs, is_descs = descs, so_cols = exec_cols prev, so_len = tupleLen prev,
                                  so_limit = limit, so_cursor = 0, so_tuples = []\<rparr>))"

definition compare_col :: "bytes \<Rightarrow> bytes \<Rightarrow> col_meta \<Rightarrow> int" where
  "compare_col a b c = compare_typed (cm_type c) (nat (cm_len c)) (field c a) (field c b)"

fun tuple_less :: "col_meta list \<Rightarrow> bool list \<Rightarrow> bytes \<Rightarrow> bytes \<Rightarrow> bool" where
  "tuple_less (c # cs) (d # ds) a b =
     (let cmp = compare_col a b c in
      if cmp = 0 then tuple_less cs ds a b else if d then cmp > 0 else cmp < 0)"
| "tuple_less _ _ a b = False"

type_synonym sorter = "(bytes \<Rightarrow> bytes \<Rightarrow> bool) \<Rightarrow> bytes list \<Rightarrow> bytes list"

definition sort_begin :: "nat \<Rightarrow> sorter \<Rightarrow> 's executor \<Rightarrow> exec \<Rightarrow> sort_exec \<Rightarrow> 's \<Rightarrow> (unit, exec \<times> 's) res" where
  "sort_begin k srt P p e s =
     (case drain_all k P (p, s) of
        (Inl err, (p', s')) \<Rightarrow> Throw err (Sort p' e, s')
      | (Inr bs, (p', s')) \<Rightarrow>
          let ts = srt (tuple_less (sort_cols e) (is_descs e)) bs;
              ts' = (if so_limit e \<ge> 0 \<and> int (length ts) > so_limit e then take (nat (so_limit e)) ts else ts)
          in Ret () (Sort p' (e\<lparr>so_cursor := 0, so_tuples := ts'\<rparr>), s'))"

definition sort_at_end :: "sort_exec \<Rightarrow> bool" where
  "sort_at_end e \<longleftrightarrow> so_cursor e \<ge> length (so_tuples e)"

definition sorting :: "nat \<Rightarrow> sorter \<Rightarrow> 's executor \<Rightarrow> 's executor" where
  "sorting k srt P =
     \<lparr>beginTuple = (\<lambda>(x, s). case x of Sort p e \<Rightarrow> sort_begin k srt P p e s | _ \<Rightarrow> Throw NullDereference (x, s)),
      nextTuple = (\<lambda>(x, s). case x of Sort p e \<Rightarrow>
                       Ret () (Sort p (if sort_at_end e then e else e\<lparr>so_cursor := Suc (so_cursor e)\<rparr>), s)
                     | _ \<Rightarrow> Throw NullDereference (x, s)),
      Next = (\<lambda>(x, s). case x of Sort p e \<Rightarrow>
                  Ret (if sort_at_end e then None else Some (so_tuples e ! so_cursor e)) (x, s)
                | _ \<Rightarrow> Throw NullDereference (x, s)),
      is_end = (\<lambda>(x, s). case x of Sort p e \<Rightarrow> sort_at_end e | _ \<Rightarrow> True)\<rparr>"

section \<open>LimitExecutor\<close>

definition LimitExecutor :: "exec \<Rightarrow> int \<Rightarrow> exec" where
  "LimitExecutor prev limit =
     Limit prev \<lparr>li_cols = exec_cols prev, li_len = tupleLen prev, li_limit = limit, li_count = 0\<rparr>"

definition limit_at_end :: "'s executor \<Rightarrow> exec \<Rightarrow> limit_exec \<Rightarrow> 's \<Rightarrow> bool" where
  "limit_at_end P p e s \<longleftrightarrow> (if li_limit e \<ge> 0 \<and> li_count e \<ge> li_limit e then True else is_end P (p, s))"

definition limiting :: "'s executor \<Rightarrow> 's executor" where
  "limiting P =
     \<lparr>beginTuple = (\<lambda>(x, s). case x of Limit p e \<Rightarrow> child (\<lambda>p. Limit p (e\<lparr>li_count := 0\<rparr>)) (beginTuple P (p, s))
                               | _ \<Rightarrow> Throw NullDereference (x, s)),
      nextTuple = (\<lambda>(x, s). case x of Limit p e \<Rightarrow>
                       if limit_at_end P p e s then Ret () (x, s)
                       else child (\<lambda>p. Limit p (e\<lparr>li_count := wrap32 (li_count e + 1)\<rparr>)) (nextTuple P (p, s))
                     | _ \<Rightarrow> Throw NullDereference (x, s)),
      Next = (\<lambda>(x, s). case x of Limit p e \<Rightarrow>
                  if limit_at_end P p e s then Ret None (x, s) else child (\<lambda>p. Limit p e) (Next P (p, s))
                | _ \<Rightarrow> Throw NullDereference (x, s)),
      is_end = (\<lambda>(x, s). case x of Limit p e \<Rightarrow> limit_at_end P p e s | _ \<Rightarrow> True)\<rparr>"

section \<open>AggregateExecutor\<close>

fun agg_layout :: "col_meta list \<Rightarrow> agg_call list \<Rightarrow> int \<Rightarrow> rmdb_error + col_meta list \<times> int" where
  "agg_layout p [] off = Inr ([], off)"
| "agg_layout p (a # as) off =
     (case (if func_type a = AGG_COUNT then Inr (TYPE_INT, 4)
            else case get_col_offset p (agg_col a) of Inl e \<Rightarrow> Inl e | Inr c \<Rightarrow> Inr (cm_type c, cm_len c)) of
        Inl e \<Rightarrow> Inl e
      | Inr (t, n) \<Rightarrow>
          (case agg_layout p as (off + n) of
             Inl e \<Rightarrow> Inl e
           | Inr (cs, m) \<Rightarrow>
               Inr (\<lparr>cm_tab_name = [], cm_name = agg_alias a, cm_type = t, cm_len = n, cm_offset = off, cm_index = False\<rparr> # cs, m)))"

definition AggregateExecutor :: "exec \<Rightarrow> agg_call list \<Rightarrow> rmdb_error + exec" where
  "AggregateExecutor prev calls =
     (case agg_layout (exec_cols prev) calls 0 of
        Inl e \<Rightarrow> Inl e
      | Inr (cs, n) \<Rightarrow> Inr (Aggregate prev \<lparr>agg_calls = calls, ag_cols = cs, ag_len = n, ag_produced = False,
                                          ag_end = False, ag_result = []\<rparr>))"

record agg_acc =
  acc_init :: bool
  acc_sum :: fp
  acc_count :: int

definition agg_cmp :: "col_meta \<Rightarrow> bytes \<Rightarrow> bytes \<Rightarrow> int" where
  "agg_cmp c src dest =
     (case cm_type c of
        TYPE_INT \<Rightarrow> int_cmp (get_i32 src 0) (get_i32 dest 0)
      | TYPE_FLOAT \<Rightarrow> fp_cmp (get_f32 src 0) (get_f32 dest 0)
      | _ \<Rightarrow> memcmp (take (nat (cm_len c)) src) (take (nat (cm_len c)) dest))"

text \<open>One call for one tuple; \<open>out\<close> is the result buffer.\<close>

definition agg_step :: "col_meta list \<Rightarrow> agg_call \<Rightarrow> col_meta \<Rightarrow> bytes \<Rightarrow> agg_acc \<times> bytes \<Rightarrow> rmdb_error + agg_acc \<times> bytes" where
  "agg_step p a dc record st =
     (case st of (acc, out) \<Rightarrow>
        if func_type a = AGG_COUNT then Inr (acc\<lparr>acc_count := wrap32 (acc_count acc + 1)\<rparr>, out)
        else case get_col_offset p (agg_col a) of
          Inl e \<Rightarrow> Inl e
        | Inr c \<Rightarrow>
            let src = field c record; dest = field dc out;
                copied = blit out (nat (cm_offset dc)) (take (nat (cm_len c)) src) in
            if func_type a = AGG_SUM then
              (case cm_type c of
                 TYPE_INT \<Rightarrow> Inr (acc\<lparr>acc_sum := f64_add (acc_sum acc) (f64_of_int (get_i32 src 0)), acc_init := True\<rparr>, out)
               | TYPE_FLOAT \<Rightarrow> Inr (acc\<lparr>acc_sum := f64_add (acc_sum acc) (get_f32 src 0), acc_init := True\<rparr>, out)
               | _ \<Rightarrow> Inl (IncompatibleTypeError ''INT/FLOAT'' ''STRING''))
            else if \<not> acc_init acc then Inr (acc\<lparr>acc_init := True\<rparr>, copied)
            else if func_type a = AGG_MAX \<and> agg_cmp c src dest > 0 \<or> func_type a = AGG_MIN \<and> agg_cmp c src dest < 0
                 then Inr (acc, copied) else Inr (acc, out))"

fun agg_row :: "col_meta list \<Rightarrow> agg_call list \<Rightarrow> col_meta list \<Rightarrow> bytes \<Rightarrow> agg_acc list \<Rightarrow> bytes \<Rightarrow> rmdb_error + agg_acc list \<times> bytes" where
  "agg_row p (a # as) (c # cs) record (acc # accs) out =
     (case agg_step p a c record (acc, out) of
        Inl e \<Rightarrow> Inl e
      | Inr (acc', out') \<Rightarrow>
          (case agg_row p as cs record accs out' of
             Inl e \<Rightarrow> Inl e
           | Inr (accs', out'') \<Rightarrow> Inr (acc' # accs', out'')))"
| "agg_row p _ _ record accs out = Inr (accs, out)"

text \<open>
  \<^verbatim>\<open>beginTuple\<close>: a loop over the tuples of the child, each tuple accounted for before the next is fetched.
\<close>

primrec agg_loop :: "nat \<Rightarrow> 's executor \<Rightarrow> agg_exec \<Rightarrow> agg_acc list \<Rightarrow> bytes \<Rightarrow> exec \<times> 's \<Rightarrow>
  (agg_acc list \<times> bytes, exec \<times> 's) res" where
  "agg_loop 0 P e accs out st = Throw NonTermination st"
| "agg_loop (Suc k) P e accs out st =
     (if is_end P st then Ret (accs, out) st
      else seqE (Next P st)
        (\<lambda>b st1.
           case b of
             None \<Rightarrow> Throw NullDereference st1
           | Some b \<Rightarrow>
               (case agg_row (exec_cols (fst st1)) (agg_calls e) (ag_cols e) b accs out of
                  Inl err \<Rightarrow> Throw err st1
                | Inr (accs', out') \<Rightarrow> seqE (nextTuple P st1) (\<lambda>_ st2. agg_loop k P e accs' out' st2))))"

fun agg_finish :: "agg_call list \<Rightarrow> col_meta list \<Rightarrow> agg_acc list \<Rightarrow> bytes \<Rightarrow> bytes" where
  "agg_finish (a # as) (c # cs) (acc # accs) out =
     agg_finish as cs accs
       (case func_type a of
          AGG_COUNT \<Rightarrow> blit out (nat (cm_offset c)) (enc_i32 (acc_count acc))
        | AGG_SUM \<Rightarrow>
            (if cm_type c = TYPE_INT then blit out (nat (cm_offset c)) (enc_i32 (i32_of_fp (acc_sum acc)))
             else blit out (nat (cm_offset c)) (enc_u32 (enc_f32 (to_f32 (acc_sum acc)))))
        | _ \<Rightarrow> out)"
| "agg_finish _ _ _ out = out"

definition agg_acc0 :: agg_acc where
  "agg_acc0 = \<lparr>acc_init = False, acc_sum = Fin False 0 0, acc_count = 0\<rparr>"

definition agg_begin :: "nat \<Rightarrow> 's executor \<Rightarrow> exec \<Rightarrow> agg_exec \<Rightarrow> 's \<Rightarrow> (unit, exec \<times> 's) res" where
  "agg_begin k P p e s =
     (case seqE (beginTuple P (p, s))
             (\<lambda>_ st1. agg_loop k P e (replicate (length (agg_calls e)) agg_acc0) (zeros (nat (ag_len e))) st1) of
        (Inl err, (p', s')) \<Rightarrow> Throw err (Aggregate p' e, s')
      | (Inr (accs, out), (p', s')) \<Rightarrow>
          Ret () (Aggregate p' (e\<lparr>ag_result := agg_finish (agg_calls e) (ag_cols e) accs out,
                                 ag_produced := False, ag_end := False\<rparr>), s'))"

definition aggregation :: "nat \<Rightarrow> 's executor \<Rightarrow> 's executor" where
  "aggregation k P =
     \<lparr>beginTuple = (\<lambda>(x, s). case x of Aggregate p e \<Rightarrow> agg_begin k P p e s | _ \<Rightarrow> Throw NullDereference (x, s)),
      nextTuple = (\<lambda>(x, s). case x of Aggregate p e \<Rightarrow> Ret () (Aggregate p (e\<lparr>ag_produced := True, ag_end := True\<rparr>), s)
                              | _ \<Rightarrow> Throw NullDereference (x, s)),
      Next = (\<lambda>(x, s). case x of Aggregate p e \<Rightarrow>
                  Ret (if ag_end e \<or> ag_produced e then None else Some (ag_result e)) (x, s)
                | _ \<Rightarrow> Throw NullDereference (x, s)),
      is_end = (\<lambda>(x, s). case x of Aggregate p e \<Rightarrow> ag_end e \<or> ag_produced e | _ \<Rightarrow> True)\<rparr>"

section \<open>Virtual functions of a tree\<close>

primrec vtable :: "nat \<Rightarrow> sorter \<Rightarrow> 'r replacer_ops \<Rightarrow> exec \<Rightarrow> (('r, 'z) sm_scheme) executor" where
  "vtable k srt R (SeqScan e) = seq_scan k R"
| "vtable k srt R (IndexScan im e) = index_scan k R"
| "vtable k srt R (NestedLoopJoin l r j) = nested_loop_join k (vtable k srt R l) (vtable k srt R r)"
| "vtable k srt R (Projection p e) = projection (vtable k srt R p)"
| "vtable k srt R (Sort p e) = sorting k srt (vtable k srt R p)"
| "vtable k srt R (Limit p e) = limiting (vtable k srt R p)"
| "vtable k srt R (Aggregate p e) = aggregation k (vtable k srt R p)"

end
