(* ===== verification/Executor_Props.thy ===== *)
theory Executor_Props
  imports Executor_Tree
begin

text \<open>
  The contract of an executor, as a locale: \<open>beginTuple\<close> puts it before the list of its tuples, \<open>Next\<close>
  shows the first of those that are left and \<open>nextTuple\<close> drops it, and \<open>is_end\<close> tells when none is
  left, while the system state keeps an invariant that other executors may share. Each executor that
  works on others meets the contract when its children do.
\<close>

section \<open>What the executors compute\<close>

text \<open>The tuples a limit lets through after \<open>c\<close> of them; a negative limit is none.\<close>

definition limited :: "int \<Rightarrow> int \<Rightarrow> bytes list \<Rightarrow> bytes list" where
  "limited n c rs = (if n < 0 then rs else take (nat (n - c)) rs)"

definition sort_result :: "sorter \<Rightarrow> sort_exec \<Rightarrow> bytes list \<Rightarrow> bytes list" where
  "sort_result srt e rs = limited (so_limit e) 0 (srt (tuple_less (sort_cols e) (is_descs e)) rs)"

definition same_sort :: "sort_exec \<Rightarrow> sort_exec \<Rightarrow> bool" where
  "same_sort e e' \<longleftrightarrow> sort_cols e' = sort_cols e \<and> is_descs e' = is_descs e \<and> so_limit e' = so_limit e \<and>
     so_cols e' = so_cols e \<and> so_len e' = so_len e"

text \<open>The tuples accounted for one after the other, without the child.\<close>

fun agg_rows :: "col_meta list \<Rightarrow> agg_exec \<Rightarrow> bytes list \<Rightarrow> agg_acc list \<Rightarrow> bytes \<Rightarrow> rmdb_error + agg_acc list \<times> bytes" where
  "agg_rows cs e [] accs out = Inr (accs, out)"
| "agg_rows cs e (b # bs) accs out =
     (case agg_row cs (agg_calls e) (ag_cols e) b accs out of
        Inl err \<Rightarrow> Inl err
      | Inr (accs', out') \<Rightarrow> agg_rows cs e bs accs' out')"

definition agg_all :: "col_meta list \<Rightarrow> agg_exec \<Rightarrow> bytes list \<Rightarrow> rmdb_error + bytes" where
  "agg_all cs e bs =
     (case agg_rows cs e bs (replicate (length (agg_calls e)) agg_acc0) (zeros (nat (ag_len e))) of
        Inl err \<Rightarrow> Inl err
      | Inr (accs, out) \<Rightarrow> Inr (agg_finish (agg_calls e) (ag_cols e) accs out))"

definition same_agg :: "agg_exec \<Rightarrow> agg_exec \<Rightarrow> bool" where
  "same_agg e e' \<longleftrightarrow> agg_calls e' = agg_calls e \<and> ag_cols e' = ag_cols e \<and> ag_len e' = ag_len e"

lemma same_agg_cong: "same_agg e e' \<Longrightarrow> agg_rows cs e' bs accs out = agg_rows cs e bs accs out"
  by (induction cs e bs accs out rule: agg_rows.induct) (auto simp: same_agg_def split: sum.splits)

section \<open>The contract\<close>

locale cursor =
  fixes V :: "'s executor"
    and I :: "'s \<Rightarrow> bool"
    and ready :: "exec \<Rightarrow> bool"
    and at :: "exec \<Rightarrow> bytes list \<Rightarrow> bool"
    and cols :: "col_meta list"
    and len :: int
    and tuples :: "bytes list"
  assumes begin_ok: "ready e \<Longrightarrow> I s \<Longrightarrow>
      \<exists>e' s'. beginTuple V (e, s) = Ret () (e', s') \<and> ready e' \<and> at e' tuples \<and> I s'"
    and end_ok: "ready e \<Longrightarrow> at e rs \<Longrightarrow> I s \<Longrightarrow> is_end V (e, s) \<longleftrightarrow> rs = []"
    and get_ok: "ready e \<Longrightarrow> at e (r # rs) \<Longrightarrow> I s \<Longrightarrow>
      \<exists>e' s'. Next V (e, s) = Ret (Some r) (e', s') \<and> ready e' \<and> at e' (r # rs) \<and> I s'"
    and next_ok: "ready e \<Longrightarrow> at e (r # rs) \<Longrightarrow> I s \<Longrightarrow>
      \<exists>e' s'. nextTuple V (e, s) = Ret () (e', s') \<and> ready e' \<and> at e' rs \<and> I s'"
    and cols_ok: "ready e \<Longrightarrow> exec_cols e = cols"
    and len_ok: "ready e \<Longrightarrow> tupleLen e = len"

context cursor begin

text \<open>Draining an executor gives its tuples, when the fuel exceeds their number.\<close>

lemma drain_ok:
  "ready e \<Longrightarrow> at e rs \<Longrightarrow> I s \<Longrightarrow> length rs < k \<Longrightarrow> \<exists>e' s'. drain k V (e, s) = Ret rs (e', s') \<and> ready e' \<and> I s'"
proof (induction rs arbitrary: k e s)
  case Nil
  then obtain k' where "k = Suc k'" by (cases k) auto
  with Nil end_ok [of e "[]" s] show ?case by simp
next
  case (Cons r rs)
  then obtain k' where k: "k = Suc k'" by (cases k) auto
  from get_ok [OF Cons.prems(1-3)] obtain e1 s1 where
    g: "Next V (e, s) = Ret (Some r) (e1, s1)" "ready e1" "at e1 (r # rs)" "I s1" by blast
  from next_ok [OF g(2-4)] obtain e2 s2 where
    n: "nextTuple V (e1, s1) = Ret () (e2, s2)" "ready e2" "at e2 rs" "I s2" by blast
  from Cons.IH [OF n(2-4), of k'] Cons.prems(4) k obtain e' s' where
    "drain k' V (e2, s2) = Ret rs (e', s')" "ready e'" "I s'" by auto
  with g(1) n(1) k end_ok [OF Cons.prems(1-3)] show ?case by simp
qed

lemma drain_all_ok:
  assumes "ready e" and "I s" and "length tuples < k"
  shows "\<exists>e' s'. drain_all k V (e, s) = Ret tuples (e', s') \<and> ready e' \<and> I s'"
proof -
  from begin_ok [OF assms(1,2)] obtain e1 s1 where
    "beginTuple V (e, s) = Ret () (e1, s1)" "ready e1" "at e1 tuples" "I s1" by blast
  with drain_ok [of e1 tuples s1 k] assms(3) show ?thesis by (simp add: drain_all_def)
qed

section \<open>Projection\<close>

definition projection_ready :: "projection_exec \<Rightarrow> exec \<Rightarrow> bool" where
  "projection_ready e x \<longleftrightarrow> (\<exists>p. x = Projection p e \<and> ready p)"

definition projection_at :: "projection_exec \<Rightarrow> exec \<Rightarrow> bytes list \<Rightarrow> bool" where
  "projection_at e x rs \<longleftrightarrow> (\<exists>p rs'. x = Projection p e \<and> at p rs' \<and> rs = map (project cols e) rs')"

lemma projection_cursor:
  "cursor (projection V) I (projection_ready e) (projection_at e) (pj_cols e) (pj_len e) (map (project cols e) tuples)"
proof
  fix x s
  assume "projection_ready e x" and I: "I s"
  then obtain p where x: "x = Projection p e" "ready p" by (auto simp: projection_ready_def)
  from begin_ok [OF x(2) I] x show "\<exists>e' s'. beginTuple (projection V) (x, s) = Ret () (e', s') \<and> projection_ready e e' \<and>
      projection_at e e' (map (project cols e) tuples) \<and> I s'"
    by (fastforce simp: projection_def child_def projection_ready_def projection_at_def)
next
  fix x rs s
  assume "projection_ready e x" "projection_at e x rs" and I: "I s"
  then obtain p rs' where x: "x = Projection p e" "ready p" "at p rs'" "rs = map (project cols e) rs'"
    by (auto simp: projection_ready_def projection_at_def)
  from end_ok [OF x(2,3) I] x show "is_end (projection V) (x, s) = (rs = [])" by (simp add: projection_def)
next
  fix x r rs s
  assume "projection_ready e x" "projection_at e x (r # rs)" and I: "I s"
  then obtain p r' rs' where x: "x = Projection p e" "ready p" "at p (r' # rs')" "r = project cols e r'"
    "rs = map (project cols e) rs'" by (auto simp: projection_ready_def projection_at_def)
  from get_ok [OF x(2,3) I] x cols_ok show "\<exists>e' s'. Next (projection V) (x, s) = Ret (Some r) (e', s') \<and>
      projection_ready e e' \<and> projection_at e e' (r # rs) \<and> I s'"
    by (fastforce simp: projection_def projection_ready_def projection_at_def)
  from next_ok [OF x(2,3) I] x show "\<exists>e' s'. nextTuple (projection V) (x, s) = Ret () (e', s') \<and>
      projection_ready e e' \<and> projection_at e e' rs \<and> I s'"
    by (fastforce simp: projection_def child_def projection_ready_def projection_at_def)
qed (auto simp: projection_ready_def)

section \<open>Limit\<close>

definition limit_ready :: "int \<Rightarrow> exec \<Rightarrow> bool" where
  "limit_ready n x \<longleftrightarrow> (\<exists>p e. x = Limit p e \<and> ready p \<and> li_limit e = n \<and> li_cols e = cols \<and> li_len e = len)"

definition limit_at :: "int \<Rightarrow> exec \<Rightarrow> bytes list \<Rightarrow> bool" where
  "limit_at n x rs \<longleftrightarrow> (\<exists>p e rs'. x = Limit p e \<and> at p rs' \<and> (0 \<le> n \<longrightarrow> 0 \<le> li_count e \<and> li_count e \<le> n) \<and>
     rs = limited n (li_count e) rs')"

lemma limit_cursor:
  assumes n: "is_i32 n"
  shows "cursor (limiting V) I (limit_ready n) (limit_at n) cols len (limited n 0 tuples)"
proof
  fix x s
  assume "limit_ready n x" and I: "I s"
  then obtain p e where x: "x = Limit p e" "ready p" "li_limit e = n" "li_cols e = cols" "li_len e = len"
    by (auto simp: limit_ready_def)
  from begin_ok [OF x(2) I] obtain p' s' where
    "beginTuple V (p, s) = Ret () (p', s')" "ready p'" "at p' tuples" "I s'" by blast
  moreover from this x have "limit_ready n (Limit p' (e\<lparr>li_count := 0\<rparr>))" by (simp add: limit_ready_def)
  moreover from calculation(3) x have "limit_at n (Limit p' (e\<lparr>li_count := 0\<rparr>)) (limited n 0 tuples)"
    unfolding limit_at_def by force
  ultimately show "\<exists>e' s'. beginTuple (limiting V) (x, s) = Ret () (e', s') \<and> limit_ready n e' \<and>
      limit_at n e' (limited n 0 tuples) \<and> I s'" using x by (simp add: limiting_def child_def)
next
  fix x rs s
  assume "limit_ready n x" "limit_at n x rs" and I: "I s"
  then obtain p e rs' where x: "x = Limit p e" "ready p" "li_limit e = n" "at p rs'" "rs = limited n (li_count e) rs'"
    by (auto simp: limit_ready_def limit_at_def)
  from end_ok [OF x(2,4) I] x show "is_end (limiting V) (x, s) = (rs = [])"
    by (auto simp: limiting_def limit_at_end_def limited_def)
next
  fix x r rs s
  assume "limit_ready n x" "limit_at n x (r # rs)" and I: "I s"
  then obtain p e rs0 where x: "x = Limit p e" "ready p" "li_limit e = n" "li_cols e = cols" "li_len e = len" "at p rs0"
    "0 \<le> n \<longrightarrow> 0 \<le> li_count e \<and> li_count e \<le> n" "r # rs = limited n (li_count e) rs0"
    by (auto simp: limit_ready_def limit_at_def)
  then obtain rs' where rs0: "rs0 = r # rs'" by (cases rs0) (auto simp: limited_def take_Cons' split: if_splits)
  have lt: "0 \<le> n \<longrightarrow> li_count e < n"
    using x(7,8) by (cases "nat (n - li_count e)") (auto simp: limited_def)
  then have open': "\<not> (li_limit e \<ge> 0 \<and> li_count e \<ge> li_limit e)" using x(3) by auto
  have ne: "\<not> is_end V (p, s)" using end_ok [OF x(2,6) I] rs0 by simp
  from get_ok [OF x(2) x(6) [unfolded rs0] I] obtain p1 s1 where
    g: "Next V (p, s) = Ret (Some r) (p1, s1)" "ready p1" "at p1 (r # rs')" "I s1" by blast
  have "limit_ready n (Limit p1 e)" "limit_at n (Limit p1 e) (r # rs)"
    using g x rs0 by (auto simp: limit_ready_def limit_at_def)
  with g x open' ne show "\<exists>e' s'. Next (limiting V) (x, s) = Ret (Some r) (e', s') \<and> limit_ready n e' \<and>
      limit_at n e' (r # rs) \<and> I s'" by (simp add: limiting_def limit_at_end_def child_def)
  from next_ok [OF x(2) x(6) [unfolded rs0] I] obtain p2 s2 where
    m: "nextTuple V (p, s) = Ret () (p2, s2)" "ready p2" "at p2 rs'" "I s2" by blast
  let ?e = "e\<lparr>li_count := wrap32 (li_count e + 1)\<rparr>"
  have w: "0 \<le> n \<longrightarrow> wrap32 (li_count e + 1) = li_count e + 1"
    using lt x(7) n by (auto intro: wrap32_id simp: is_i32_def)
  have rs: "rs = limited n (wrap32 (li_count e + 1)) rs'"
  proof (cases "n < 0")
    case False
    then have "nat (n - li_count e) = Suc (nat (n - (li_count e + 1)))" using lt by auto
    then show ?thesis using x(8) rs0 w False by (simp add: limited_def)
  qed (use x(8) rs0 in \<open>simp add: limited_def\<close>)
  have "limit_ready n (Limit p2 ?e)" using m x by (simp add: limit_ready_def)
  moreover have "limit_at n (Limit p2 ?e) rs"
    unfolding limit_at_def using m(3) w lt x(7) rs by (intro exI [of _ p2] exI [of _ ?e] exI [of _ rs']) auto
  ultimately show "\<exists>e' s'. nextTuple (limiting V) (x, s) = Ret () (e', s') \<and> limit_ready n e' \<and>
      limit_at n e' rs \<and> I s'" using m x open' ne by (auto simp: limiting_def limit_at_end_def child_def)
qed (auto simp: limit_ready_def)

section \<open>Sort\<close>

definition sort_ready :: "sort_exec \<Rightarrow> exec \<Rightarrow> bool" where
  "sort_ready e x \<longleftrightarrow> (\<exists>p e'. x = Sort p e' \<and> ready p \<and> same_sort e e')"

definition sort_at :: "exec \<Rightarrow> bytes list \<Rightarrow> bool" where
  "sort_at x rs \<longleftrightarrow> (\<exists>p e. x = Sort p e \<and> rs = drop (so_cursor e) (so_tuples e))"

lemma sort_cursor:
  assumes k: "length tuples < k"
  shows "cursor (sorting k srt V) I (sort_ready e) sort_at (so_cols e) (so_len e) (sort_result srt e tuples)"
proof
  fix x s
  assume "sort_ready e x" and I: "I s"
  then obtain p e' where x: "x = Sort p e'" "ready p" "same_sort e e'" by (auto simp: sort_ready_def)
  from drain_all_ok [OF x(2) I k] obtain p' s' where
    d: "drain_all k V (p, s) = Ret tuples (p', s')" "ready p'" "I s'" by blast
  let ?e = "e'\<lparr>so_cursor := 0, so_tuples := sort_result srt e tuples\<rparr>"
  have "beginTuple (sorting k srt V) (x, s) = Ret () (Sort p' ?e, s')"
    using d(1) x by (simp add: same_sort_def sorting_def sort_begin_def sort_result_def limited_def Let_def)
  moreover have "sort_ready e (Sort p' ?e)" using d(2) x(3) by (simp add: sort_ready_def same_sort_def)
  moreover have "sort_at (Sort p' ?e) (sort_result srt e tuples)" by (simp add: sort_at_def)
  ultimately show "\<exists>e' s'. beginTuple (sorting k srt V) (x, s) = Ret () (e', s') \<and> sort_ready e e' \<and>
      sort_at e' (sort_result srt e tuples) \<and> I s'" using d(3) by blast
next
  fix x rs s
  assume "sort_at x rs"
  then show "is_end (sorting k srt V) (x, s) = (rs = [])" by (auto simp: sort_at_def sorting_def sort_at_end_def)
next
  fix x r rs s
  assume "sort_ready e x" "sort_at x (r # rs)" and I: "I s"
  then obtain p e' where x: "x = Sort p e'" "ready p" "same_sort e e'"
    "r # rs = drop (so_cursor e') (so_tuples e')" by (auto simp: sort_ready_def sort_at_def)
  then have lt: "so_cursor e' < length (so_tuples e')" by (metis drop_all leI list.distinct(1))
  from x(4) lt have r: "r = so_tuples e' ! so_cursor e'" "rs = drop (Suc (so_cursor e')) (so_tuples e')"
    by (simp_all add: Cons_nth_drop_Suc [symmetric])
  have "Next (sorting k srt V) (x, s) = Ret (Some r) (x, s)" using x(1) r lt by (simp add: sorting_def sort_at_end_def)
  moreover have "sort_ready e x" "sort_at x (r # rs)" using x by (auto simp: sort_ready_def sort_at_def)
  ultimately show "\<exists>e' s'. Next (sorting k srt V) (x, s) = Ret (Some r) (e', s') \<and> sort_ready e e' \<and>
      sort_at e' (r # rs) \<and> I s'" using I by blast
  let ?e = "e'\<lparr>so_cursor := Suc (so_cursor e')\<rparr>"
  have "nextTuple (sorting k srt V) (x, s) = Ret () (Sort p ?e, s)" using x(1) lt by (simp add: sorting_def sort_at_end_def)
  moreover have "sort_ready e (Sort p ?e)" "sort_at (Sort p ?e) rs" using x r by (simp_all add: sort_ready_def sort_at_def same_sort_def)
  ultimately show "\<exists>e' s'. nextTuple (sorting k srt V) (x, s) = Ret () (e', s') \<and> sort_ready e e' \<and> sort_at e' rs \<and> I s'"
    using I by blast
qed (auto simp: sort_ready_def same_sort_def)

section \<open>Aggregation\<close>

lemma agg_loop_ok:
  "ready p \<Longrightarrow> at p rs \<Longrightarrow> I s \<Longrightarrow> length rs < k \<Longrightarrow> agg_rows cols e rs accs out = Inr res \<Longrightarrow>
   \<exists>p' s'. agg_loop k V e accs out (p, s) = Ret res (p', s') \<and> ready p' \<and> I s'"
proof (induction rs arbitrary: k p s accs out)
  case Nil
  then obtain k' where "k = Suc k'" by (cases k) auto
  with Nil end_ok [of p "[]" s] show ?case by simp
next
  case (Cons r rs)
  then obtain k' where k: "k = Suc k'" by (cases k) auto
  from Cons.prems(5) obtain accs' out' where
    row: "agg_row cols (agg_calls e) (ag_cols e) r accs out = Inr (accs', out')" "agg_rows cols e rs accs' out' = Inr res"
    by (auto split: sum.splits)
  from get_ok [OF Cons.prems(1-3)] obtain p1 s1 where
    g: "Next V (p, s) = Ret (Some r) (p1, s1)" "ready p1" "at p1 (r # rs)" "I s1" by blast
  from next_ok [OF g(2-4)] obtain p2 s2 where
    n: "nextTuple V (p1, s1) = Ret () (p2, s2)" "ready p2" "at p2 rs" "I s2" by blast
  from Cons.IH [OF n(2-4), of k' accs' out'] Cons.prems(4) k row(2) obtain p' s' where
    "agg_loop k' V e accs' out' (p2, s2) = Ret res (p', s')" "ready p'" "I s'" by auto
  with g(1) n(1) k row(1) cols_ok [OF g(2)] end_ok [OF Cons.prems(1-3)] show ?case by simp
qed

definition agg_ready :: "agg_exec \<Rightarrow> exec \<Rightarrow> bool" where
  "agg_ready e x \<longleftrightarrow> (\<exists>p e'. x = Aggregate p e' \<and> ready p \<and> same_agg e e')"

definition agg_at :: "exec \<Rightarrow> bytes list \<Rightarrow> bool" where
  "agg_at x rs \<longleftrightarrow> (\<exists>p e. x = Aggregate p e \<and> rs = (if ag_end e \<or> ag_produced e then [] else [ag_result e]))"

lemma agg_cursor:
  assumes k: "length tuples < k" and res: "agg_all cols e tuples = Inr row"
  shows "cursor (aggregation k V) I (agg_ready e) agg_at (ag_cols e) (ag_len e) [row]"
proof
  fix x s
  assume "agg_ready e x" and I: "I s"
  then obtain p e' where x: "x = Aggregate p e'" "ready p" "same_agg e e'" by (auto simp: agg_ready_def)
  from res obtain accs out where
    r: "agg_rows cols e tuples (replicate (length (agg_calls e)) agg_acc0) (zeros (nat (ag_len e))) = Inr (accs, out)"
    "row = agg_finish (agg_calls e) (ag_cols e) accs out" by (auto simp: agg_all_def split: sum.splits)
  from begin_ok [OF x(2) I] obtain p1 s1 where
    b: "beginTuple V (p, s) = Ret () (p1, s1)" "ready p1" "at p1 tuples" "I s1" by blast
  from agg_loop_ok [OF b(2-4) k, of e'] r(1) x(3) obtain p' s' where
    l: "agg_loop k V e' (replicate (length (agg_calls e)) agg_acc0) (zeros (nat (ag_len e))) (p1, s1) = Ret (accs, out) (p', s')"
    "ready p'" "I s'" by (metis (no_types, lifting) same_agg_cong)
  let ?e = "e'\<lparr>ag_result := row, ag_produced := False, ag_end := False\<rparr>"
  have "beginTuple (aggregation k V) (x, s) = Ret () (Aggregate p' ?e, s')"
    using x b(1) l(1) r(2) by (simp add: aggregation_def agg_begin_def same_agg_def)
  moreover have "agg_ready e (Aggregate p' ?e)" using l(2) x(3) by (simp add: agg_ready_def same_agg_def)
  moreover have "agg_at (Aggregate p' ?e) [row]" by (simp add: agg_at_def)
  ultimately show "\<exists>e' s'. beginTuple (aggregation k V) (x, s) = Ret () (e', s') \<and> agg_ready e e' \<and> agg_at e' [row] \<and> I s'"
    using l(3) by blast
next
  fix x rs s
  assume "agg_at x rs"
  then show "is_end (aggregation k V) (x, s) = (rs = [])" by (auto simp: agg_at_def aggregation_def split: if_splits)
next
  fix x r rs s
  assume "agg_ready e x" "agg_at x (r # rs)" and I: "I s"
  then show "\<exists>e' s'. Next (aggregation k V) (x, s) = Ret (Some r) (e', s') \<and> agg_ready e e' \<and> agg_at e' (r # rs) \<and> I s'"
    by (auto simp: agg_ready_def agg_at_def aggregation_def split: if_splits)
  from \<open>agg_ready e x\<close> \<open>agg_at x (r # rs)\<close> obtain p e' where
    x: "x = Aggregate p e'" "ready p" "same_agg e e'" "rs = []"
    by (auto simp: agg_ready_def agg_at_def split: if_splits)
  let ?x = "Aggregate p (e'\<lparr>ag_produced := True, ag_end := True\<rparr>)"
  have "agg_at ?x []"
    unfolding agg_at_def by (intro exI [of _ p] exI [of _ "e'\<lparr>ag_produced := True, ag_end := True\<rparr>"]) simp
  moreover have "agg_ready e ?x" using x by (simp add: agg_ready_def same_agg_def)
  ultimately show "\<exists>e' s'. nextTuple (aggregation k V) (x, s) = Ret () (e', s') \<and> agg_ready e e' \<and> agg_at e' rs \<and> I s'"
    using x I by (simp add: aggregation_def)
qed (auto simp: agg_ready_def same_agg_def)

end

section \<open>Join\<close>

text \<open>
  The blocks in which the join consumes its left child: a block ends when it holds as many tuples as
  the capacity allows or as many bytes as the buffer has.
\<close>

primrec block :: "nat \<Rightarrow> int \<Rightarrow> bytes list \<Rightarrow> bytes list \<times> bytes list" where
  "block 0 n rs = ([], rs)"
| "block (Suc m) n rs =
     (case rs of
        [] \<Rightarrow> ([], [])
      | b # bs \<Rightarrow>
          if n + int (length b) \<ge> kJoinBufferBytes then ([b], bs)
          else (b # fst (block m (n + int (length b)) bs), snd (block m (n + int (length b)) bs)))"

lemma block_append: "fst (block m n rs) @ snd (block m n rs) = rs"
  by (induction m arbitrary: n rs) (auto split: list.splits)

lemma block_Nil: "0 < m \<Longrightarrow> fst (block m n rs) = [] \<longleftrightarrow> rs = []"
  by (cases m) (auto split: list.splits)

lemma block_shorter: "0 < m \<Longrightarrow> rs \<noteq> [] \<Longrightarrow> length (snd (block m n rs)) < length rs"
  using block_append [of m n rs] block_Nil [of m n rs]
  by (metis add_diff_cancel_left' append_eq_append_conv append_self_conv2 leI length_append less_add_same_cancel2 length_greater_0_conv)

text \<open>The tuples of a join, in the order in which it produces them.\<close>

definition pairs :: "(bytes \<Rightarrow> bytes \<Rightarrow> bool) \<Rightarrow> (bytes \<Rightarrow> bytes \<Rightarrow> bytes) \<Rightarrow> bytes list \<Rightarrow> bytes \<Rightarrow> bytes list" where
  "pairs P g ls r = map (\<lambda>l. g l r) (filter (\<lambda>l. P l r) ls)"

function join_rows :: "nat \<Rightarrow> (bytes \<Rightarrow> bytes \<Rightarrow> bool) \<Rightarrow> (bytes \<Rightarrow> bytes \<Rightarrow> bytes) \<Rightarrow> bytes list \<Rightarrow> bytes list \<Rightarrow> bytes list" where
  "join_rows m P g ls rs =
     (if ls = [] \<or> m = 0 then []
      else concat (map (pairs P g (fst (block m 0 ls))) rs) @ join_rows m P g (snd (block m 0 ls)) rs)"
  by pat_completeness auto
termination
  by (relation "measure (\<lambda>(m, P, g, ls, rs). length ls)") (auto intro: block_shorter)

declare join_rows.simps [simp del]

context cursor begin

lemma refill_ok:
  "ready e \<Longrightarrow> at e rs \<Longrightarrow> I s \<Longrightarrow>
   \<exists>e' s'. refill m V n (e, s) = Ret (fst (block m n rs)) (e', s') \<and> ready e' \<and> at e' (snd (block m n rs)) \<and> I s'"
proof (induction m arbitrary: n e s rs)
  case (Suc m)
  show ?case
  proof (cases rs)
    case Nil
    with Suc.prems end_ok [of e "[]" s] show ?thesis by simp
  next
    case (Cons b bs)
    from get_ok [of e b bs s] Suc.prems Cons obtain e1 s1 where
      g: "Next V (e, s) = Ret (Some b) (e1, s1)" "ready e1" "at e1 (b # bs)" "I s1" by blast
    from next_ok [OF g(2-4)] obtain e2 s2 where
      n: "nextTuple V (e1, s1) = Ret () (e2, s2)" "ready e2" "at e2 bs" "I s2" by blast
    have ne: "\<not> is_end V (e, s)" using end_ok [OF Suc.prems] Cons by simp
    from Suc.IH [OF n(2-4), of "n + int (length b)"] g(1) n ne Cons show ?thesis by auto
  qed
qed simp

end

text \<open>The first left tuple that joins, and where the search goes on.\<close>

lemma probe_none: "(\<And>b. b \<in> set bs \<Longrightarrow> \<exists>v. f b = Inr v) \<Longrightarrow> filter (\<lambda>b. f b = Inr True) bs = [] \<Longrightarrow>
    probe f bs i = (Inr None, i + length bs)"
proof (induction bs arbitrary: i)
  case (Cons b bs)
  from Cons.prems(1) [of b] obtain v where "f b = Inr v" by auto
  with Cons show ?case by (cases v) (auto split: if_splits)
qed simp

lemma probe_some: "(\<And>b. b \<in> set bs \<Longrightarrow> \<exists>v. f b = Inr v) \<Longrightarrow> filter (\<lambda>b. f b = Inr True) bs = a # as \<Longrightarrow>
    \<exists>n. probe f bs i = (Inr (Some a), i + n) \<and> filter (\<lambda>b. f b = Inr True) (drop (Suc n) bs) = as"
proof (induction bs arbitrary: i)
  case (Cons b bs)
  from Cons.prems(1) [of b] obtain v where v: "f b = Inr v" by auto
  show ?case
  proof (cases v)
    case True
    with v Cons.prems(2) show ?thesis by (intro exI [of _ 0]) simp
  next
    case False
    with v Cons.prems Cons.IH [of "Suc i"] obtain n where
      "probe f bs (Suc i) = (Inr (Some a), Suc i + n)" "filter (\<lambda>b. f b = Inr True) (drop (Suc n) bs) = as" by auto
    with v False show ?thesis by (intro exI [of _ "Suc n"]) simp
  qed
qed simp

definition same_join :: "join_exec \<Rightarrow> join_exec \<Rightarrow> bool" where
  "same_join j j' \<longleftrightarrow> jn_len j' = jn_len j \<and> jn_cols j' = jn_cols j \<and> jn_conds j' = jn_conds j \<and>
     left_block_capacity j' = left_block_capacity j"

text \<open>
  Which tuples join and what they give, and what a join needs: its conditions can be evaluated on all
  pairs of tuples, and there is fuel for all pairs.
\<close>

definition join_matches :: "col_meta list \<Rightarrow> col_meta list \<Rightarrow> join_exec \<Rightarrow> bytes \<Rightarrow> bytes \<Rightarrow> bool" where
  "join_matches lcols rcols j l r \<longleftrightarrow> eval_join_conds lcols rcols (jn_conds j) l r = Inr True"

definition join_glue :: "int \<Rightarrow> int \<Rightarrow> join_exec \<Rightarrow> bytes \<Rightarrow> bytes \<Rightarrow> bytes" where
  "join_glue llen rlen j l r = join_tuple (jn_len j) llen rlen l r"

definition join_fits :: "col_meta list \<Rightarrow> col_meta list \<Rightarrow> join_exec \<Rightarrow> nat \<Rightarrow> bytes list \<Rightarrow> bytes list \<Rightarrow> bool" where
  "join_fits lcols rcols j k ls rs \<longleftrightarrow>
     (\<forall>l \<in> set ls. \<forall>r \<in> set rs. \<exists>v. eval_join_conds lcols rcols (jn_conds j) l r = Inr v) \<and>
     0 < left_block_capacity j \<and> length rs + length ls * (length rs + 2) < k"

text \<open>Two children and the static part of a join of them.\<close>

locale join_children =
  left: cursor L I ready_l at_l lcols llen ls + right: cursor Rt I ready_r at_r rcols rlen rs
  for L :: "'s executor" and Rt :: "'s executor" and I :: "'s \<Rightarrow> bool" and ready_l at_l lcols llen ls ready_r at_r rcols rlen rs +
  fixes j :: join_exec and k :: nat
begin

abbreviation join_fit :: bool where
  "join_fit \<equiv> join_fits lcols rcols j k ls rs"

abbreviation matches :: "bytes \<Rightarrow> bytes \<Rightarrow> bool" where
  "matches \<equiv> join_matches lcols rcols j"

abbreviation glue :: "bytes \<Rightarrow> bytes \<Rightarrow> bytes" where
  "glue \<equiv> join_glue llen rlen j"

lemma conds_ok: "join_fit \<Longrightarrow> l \<in> set ls \<Longrightarrow> r \<in> set rs \<Longrightarrow> \<exists>v. eval_join_conds lcols rcols (jn_conds j) l r = Inr v"
  by (simp add: join_fits_def)

lemma capacity: "join_fit \<Longrightarrow> 0 < left_block_capacity j"
  by (simp add: join_fits_def)

lemma fuel: "join_fit \<Longrightarrow> length rs + length ls * (length rs + 2) < k"
  by (simp add: join_fits_def)

abbreviation joined :: "bytes list \<Rightarrow> bytes list" where
  "joined ls' \<equiv> join_rows (left_block_capacity j) matches glue ls' rs"

text \<open>What is left to produce, with the block \<open>bl\<close> in place from index \<open>i\<close> on and right tuples \<open>rs'\<close> left.\<close>

definition remaining :: "bytes list \<Rightarrow> nat \<Rightarrow> bytes list \<Rightarrow> bytes list \<Rightarrow> bytes list" where
  "remaining bl i rs' ls' =
     (case rs' of [] \<Rightarrow> [] | r # rr \<Rightarrow> pairs matches glue (drop i bl) r @ concat (map (pairs matches glue bl) rr)) @ joined ls'"

definition join_ready :: "exec \<Rightarrow> bool" where
  "join_ready x \<longleftrightarrow> (\<exists>l r j'. x = NestedLoopJoin l r j' \<and> ready_l l \<and> ready_r r \<and> same_join j j' \<and> join_fit)"

definition inside :: "exec \<Rightarrow> exec \<Rightarrow> join_exec \<Rightarrow> bytes list \<Rightarrow> bytes list \<Rightarrow> bool" where
  "inside l r j' rs' ls' \<longleftrightarrow> join_fit \<and> ready_l l \<and> ready_r r \<and> at_l l ls' \<and> at_r r rs' \<and> same_join j j' \<and>
     set (left_block j') \<subseteq> set ls \<and> set ls' \<subseteq> set ls \<and> set rs' \<subseteq> set rs \<and> left_block j' \<noteq> [] \<and>
     (right_tuple j' = None \<or> rs' \<noteq> [] \<and> right_tuple j' = Some (hd rs'))"

definition join_at :: "exec \<Rightarrow> bytes list \<Rightarrow> bool" where
  "join_at x out \<longleftrightarrow> (\<exists>l r j'. x = NestedLoopJoin l r j' \<and>
     (jn_isend j' \<and> out = [] \<or>
      \<not> jn_isend j' \<and> out \<noteq> [] \<and> current_tuple j' = Some (hd out) \<and>
      (\<exists>rs' ls'. inside l r j' rs' ls' \<and> length rs' + length ls' * (length rs + 2) < k \<and>
         tl out = remaining (left_block j') (left_block_idx j') rs' ls')))"

lemma insideD:
  assumes "inside l r j' rs' ls'"
  shows "ready_l l" "ready_r r" "at_l l ls'" "at_r r rs'" "same_join j j'" "set (left_block j') \<subseteq> set ls"
    "set ls' \<subseteq> set ls" "set rs' \<subseteq> set rs" "left_block j' \<noteq> []"
    "right_tuple j' = None \<or> rs' \<noteq> [] \<and> right_tuple j' = Some (hd rs')" "join_fit"
  using assms by (simp_all add: inside_def)

lemma same_joinD:
  "same_join j j' \<Longrightarrow> jn_len j' = jn_len j \<and> jn_conds j' = jn_conds j \<and> left_block_capacity j' = left_block_capacity j"
  by (simp add: same_join_def)

text \<open>Taking a new block and starting the right child over.\<close>

lemma next_block:
  assumes "ready_l l" "ready_r r" "at_l l ls'" "same_join j j'" "I s" "set ls' \<subseteq> set ls" "ls' \<noteq> []" "join_fit"
  shows "\<exists>st1 l' r' j1 s'. refill_left_block L ((l, r, j'), s) = Ret True st1 \<and>
    begin_right_scan Rt st1 = Ret () ((l', r', j1), s') \<and> I s' \<and>
    inside l' r' j1 rs (snd (block (left_block_capacity j) 0 ls')) \<and> left_block_idx j1 = 0 \<and>
    left_block j1 = fst (block (left_block_capacity j) 0 ls') \<and> jn_isend j1 = jn_isend j'"
proof -
  let ?m = "left_block_capacity j"
  from left.refill_ok [OF assms(1,3,5), of ?m 0] obtain l1 s1 where
    rf: "refill ?m L 0 (l, s) = Ret (fst (block ?m 0 ls')) (l1, s1)" "ready_l l1" "at_l l1 (snd (block ?m 0 ls'))" "I s1"
    by blast
  from right.begin_ok [OF assms(2) rf(4)] obtain r' s' where
    br: "beginTuple Rt (r, s1) = Ret () (r', s')" "ready_r r'" "at_r r' rs" "I s'" by blast
  have ne: "fst (block ?m 0 ls') \<noteq> []" using block_Nil [OF capacity [OF assms(8)]] assms(7) by blast
  have sub: "set (fst (block ?m 0 ls')) \<subseteq> set ls" "set (snd (block ?m 0 ls')) \<subseteq> set ls"
    using assms(6) block_append [of ?m 0 ls'] by (metis Un_subset_iff set_append)+
  let ?j = "j'\<lparr>left_block := fst (block ?m 0 ls'), left_block_idx := 0\<rparr>"
  have "refill_left_block L ((l, r, j'), s) = Ret True ((l1, r, ?j), s1)"
    using rf(1) ne same_joinD [OF assms(4)] by (simp add: refill_left_block_def on_left_def set_join_def)
  moreover have "begin_right_scan Rt ((l1, r, ?j), s1) = Ret () ((l1, r', ?j\<lparr>right_tuple := None\<rparr>), s')"
    using br(1) by (simp add: begin_right_scan_def on_right_def set_join_def)
  moreover have "inside l1 r' (?j\<lparr>right_tuple := None\<rparr>) rs (snd (block ?m 0 ls'))"
    using rf br assms(4,8) ne sub by (simp add: inside_def same_join_def)
  ultimately show ?thesis using br(4)
    by (intro exI [of _ "((l1, r, ?j), s1)"] exI [of _ l1] exI [of _ r'] exI [of _ "?j\<lparr>right_tuple := None\<rparr>"] exI [of _ s']) simp
qed

lemma joined_Cons: "join_fit \<Longrightarrow> ls' \<noteq> [] \<Longrightarrow> joined ls' = concat (map (pairs matches glue (fst (block (left_block_capacity j) 0 ls'))) rs) @
    joined (snd (block (left_block_capacity j) 0 ls'))"
  using capacity by (subst join_rows.simps) simp

lemma joined_Nil [simp]: "joined [] = []"
  by (subst join_rows.simps) simp

lemma joined_no_right: "join_fit \<Longrightarrow> rs = [] \<Longrightarrow> joined ls' = []"
proof (induction "length ls'" arbitrary: ls' rule: less_induct)
  case less
  show ?case
  proof (cases "ls' = []")
    case False
    with less.hyps [OF block_shorter [OF capacity [OF less.prems(1)] False]] less.prems joined_Cons [OF less.prems(1) False] show ?thesis by simp
  qed simp
qed

lemma remaining_block: "join_fit \<Longrightarrow> ls' \<noteq> [] \<Longrightarrow> rs \<noteq> [] \<Longrightarrow>
    remaining (fst (block (left_block_capacity j) 0 ls')) 0 rs (snd (block (left_block_capacity j) 0 ls')) = joined ls'"
  using joined_Cons by (auto simp: remaining_def split: list.splits)

lemma advance_ok:
  assumes "inside l r j' rs' ls'" and "I s" and "length rs' + length ls' * (length rs + 2) < n" and "n \<le> k"
  shows "\<exists>l' r' j'' s'. join_advance n L Rt ((l, r, j'), s) = Ret () ((l', r', j''), s') \<and>
    join_ready (NestedLoopJoin l' r' j'') \<and>
    join_at (NestedLoopJoin l' r' j'') (remaining (left_block j') (left_block_idx j') rs' ls') \<and> I s'"
  using assms
proof (induction n arbitrary: l r j' rs' ls' s)
  case (Suc n)
  note ins = insideD [OF Suc.prems(1)] and sj = same_joinD [OF insideD(5) [OF Suc.prems(1)]]
  let ?bl = "left_block j'" and ?i = "left_block_idx j'"
  show ?case
  proof (cases rs')
    case Nil
    have re: "is_end Rt (r, s)" using right.end_ok [OF ins(2,4) Suc.prems(2)] Nil by simp
    show ?thesis
    proof (cases "ls' = []")
      case True
      from left.refill_ok [OF ins(1,3) Suc.prems(2), of "left_block_capacity j" 0] True block_Nil [OF capacity [OF ins(11)], of 0 "[]"]
      obtain l1 s1 where rf: "refill (left_block_capacity j) L 0 (l, s) = Ret [] (l1, s1)" "ready_l l1" "I s1" by auto
      let ?j = "j'\<lparr>left_block := [], left_block_idx := 0, jn_isend := True\<rparr>"
      have "join_advance (Suc n) L Rt ((l, r, j'), s) = Ret () ((l1, r, ?j), s1)"
        using re rf(1) ins(9) sj by (simp add: refill_left_block_def on_left_def set_join_def)
      moreover have "join_ready (NestedLoopJoin l1 r ?j)" using rf ins by (simp add: join_ready_def same_join_def)
      moreover have "join_at (NestedLoopJoin l1 r ?j) []" by (simp add: join_at_def)
      ultimately show ?thesis using rf(3) Nil True by (auto simp: remaining_def)
    next
      case False
      from next_block [OF ins(1-3,5) Suc.prems(2) ins(7) False ins(11)] obtain st1 l1 r1 j1 s1 where
        nb: "refill_left_block L ((l, r, j'), s) = Ret True st1" "begin_right_scan Rt st1 = Ret () ((l1, r1, j1), s1)" "I s1"
        "inside l1 r1 j1 rs (snd (block (left_block_capacity j) 0 ls'))" "left_block_idx j1 = 0"
        "left_block j1 = fst (block (left_block_capacity j) 0 ls')" by blast
      note ins1 = insideD [OF nb(4)]
      have out: "remaining ?bl ?i rs' ls' = joined ls'" using Nil by (simp add: remaining_def)
      show ?thesis
      proof (cases "rs = []")
        case True
        then have "is_end Rt (r1, s1)" using right.end_ok [OF ins1(2,4) nb(3)] by simp
        then have "join_advance (Suc n) L Rt ((l, r, j'), s) = Ret () ((l1, r1, j1\<lparr>jn_isend := True\<rparr>), s1)"
          using re nb(1,2) ins(9) by simp
        moreover have "join_ready (NestedLoopJoin l1 r1 (j1\<lparr>jn_isend := True\<rparr>))"
          using ins1 by (simp add: join_ready_def same_join_def)
        moreover have "join_at (NestedLoopJoin l1 r1 (j1\<lparr>jn_isend := True\<rparr>)) (joined ls')"
          using joined_no_right [OF ins(11) True] by (simp add: join_at_def)
        ultimately show ?thesis using nb(3) out by auto
      next
        case rs: False
        then have ne: "\<not> is_end Rt (r1, s1)" using right.end_ok [OF ins1(2,4) nb(3)] by simp
        have "length rs + length (snd (block (left_block_capacity j) 0 ls')) * (length rs + 2) < n"
        proof -
          have "Suc (length (snd (block (left_block_capacity j) 0 ls'))) \<le> length ls'"
            using block_shorter [OF capacity [OF ins(11)] False] by (simp add: Suc_le_eq)
          then have "Suc (length (snd (block (left_block_capacity j) 0 ls'))) * (length rs + 2) \<le> length ls' * (length rs + 2)"
            by (rule mult_le_mono1)
          then show ?thesis using Suc.prems(3) by simp
        qed
        from Suc.IH [OF nb(4,3) this] Suc.prems(4) nb(5,6) remaining_block [OF ins(11) False rs] out re nb(1,2) ins(9) ne
        show ?thesis by simp
      qed
    qed
  next
    case (Cons b bs)
    have re: "\<not> is_end Rt (r, s)" using right.end_ok [OF ins(2,4) Suc.prems(2)] Cons by simp
    have "\<exists>r1 s1. (case right_tuple j' of Some b \<Rightarrow> Ret (Some b) ((l, r, j'), s) | None \<Rightarrow> on_right (Next Rt) ((l, r, j'), s)) =
        Ret (Some b) ((l, r1, j'), s1) \<and> ready_r r1 \<and> at_r r1 (b # bs) \<and> I s1"
    proof (cases "right_tuple j'")
      case None
      from right.get_ok [of r b bs s] ins Cons Suc.prems(2) None show ?thesis by (fastforce simp: on_right_def)
    next
      case (Some a)
      with ins Cons Suc.prems(2) show ?thesis by auto
    qed
    then obtain r1 s1 where g: "(case right_tuple j' of Some b \<Rightarrow> Ret (Some b) ((l, r, j'), s) | None \<Rightarrow> on_right (Next Rt) ((l, r, j'), s)) =
        Ret (Some b) ((l, r1, j'), s1)" "ready_r r1" "at_r r1 (b # bs)" "I s1" by blast
    let ?f = "\<lambda>a. eval_join_conds lcols rcols (jn_conds j) a b"
    have ev: "\<exists>v. ?f a = Inr v" if "a \<in> set (drop ?i ?bl)" for a
      using conds_ok [OF ins(11), of a b] that ins(6,8) Cons by (auto dest: in_set_dropD)
    have cl: "exec_cols l = lcols" "exec_cols r1 = rcols" "tupleLen l = llen" "tupleLen r1 = rlen"
      using left.cols_ok left.len_ok right.cols_ok right.len_ok ins(1) g(2) by blast+
    show ?thesis
    proof (cases "filter (\<lambda>a. ?f a = Inr True) (drop ?i ?bl)")
      case Nil
      from probe_none [OF ev Nil] have pr: "probe ?f (drop ?i ?bl) ?i = (Inr None, ?i + length (drop ?i ?bl))" .
      from right.next_ok [OF g(2-4)] obtain r2 s2 where
        nx: "nextTuple Rt (r1, s1) = Ret () (r2, s2)" "ready_r r2" "at_r r2 bs" "I s2" by blast
      let ?j = "j'\<lparr>left_block_idx := 0, right_tuple := None\<rparr>"
      have i2: "inside l r2 ?j bs ls'" using ins nx Cons by (simp add: inside_def same_join_def)
      have step: "join_advance (Suc n) L Rt ((l, r, j'), s) = join_advance n L Rt ((l, r2, ?j), s2)"
        using re ins(9) g(1) pr nx(1) cl sj by (simp add: on_right_def set_join_def)
      have out: "remaining ?bl ?i rs' ls' = remaining ?bl 0 bs ls'"
        using Cons Nil by (auto simp: remaining_def pairs_def join_matches_def split: list.splits)
      from Suc.IH [OF i2 nx(4)] Suc.prems(3,4) Cons step out show ?thesis by simp
    next
      case (Cons a as)
      from probe_some [OF ev Cons, of ?i] obtain m where
        pr: "probe ?f (drop ?i ?bl) ?i = (Inr (Some a), ?i + m)"
        "filter (\<lambda>a. ?f a = Inr True) (drop (Suc m) (drop ?i ?bl)) = as" by auto
      let ?j = "j'\<lparr>right_tuple := Some b, current_tuple := Some (glue a b), left_block_idx := Suc (?i + m), jn_isend := False\<rparr>"
      have step: "join_advance (Suc n) L Rt ((l, r, j'), s) = Ret () ((l, r1, ?j), s1)"
        using re ins(9) g(1) pr(1) cl sj by (simp add: join_glue_def)
      have i2: "inside l r1 ?j (b # bs) ls'" using ins g \<open>rs' = b # bs\<close> by (simp add: inside_def same_join_def)
      have out: "remaining ?bl ?i rs' ls' = glue a b # remaining ?bl (Suc (?i + m)) (b # bs) ls'"
        using Cons pr(2) \<open>rs' = b # bs\<close> by (simp add: remaining_def pairs_def join_matches_def add.commute)
      have "join_at (NestedLoopJoin l r1 ?j) (remaining ?bl ?i rs' ls')"
        unfolding join_at_def out using i2 Suc.prems(3,4) \<open>rs' = b # bs\<close> by fastforce
      moreover have "join_ready (NestedLoopJoin l r1 ?j)" using insideD [OF i2] by (simp add: join_ready_def)
      ultimately show ?thesis using step g(4) by blast
    qed
  qed
qed simp

lemma join_cursor:
  "cursor (nested_loop_join k L Rt) I join_ready join_at (jn_cols j) (jn_len j) (joined ls)"
proof
  fix x s
  assume "join_ready x" and I: "I s"
  then obtain l r j' where x: "x = NestedLoopJoin l r j'" "ready_l l" "ready_r r" "same_join j j'" "join_fit"
    by (auto simp: join_ready_def)
  from left.begin_ok [OF x(2) I] obtain l1 s1 where
    b: "beginTuple L (l, s) = Ret () (l1, s1)" "ready_l l1" "at_l l1 ls" "I s1" by blast
  let ?j = "j'\<lparr>jn_isend := False, right_tuple := None\<rparr>"
  have sj: "same_join j ?j" using x(4) by (simp add: same_join_def)
  have "\<exists>l' r' j'' s'. join_begin k L Rt ((l, r, j'), s) = Ret () ((l', r', j''), s') \<and>
      join_ready (NestedLoopJoin l' r' j'') \<and> join_at (NestedLoopJoin l' r' j'') (joined ls) \<and> I s'"
  proof (cases "ls = []")
    case True
    from left.refill_ok [OF b(2-4), of "left_block_capacity j" 0] True block_Nil [OF capacity [OF x(5)], of 0 "[]"]
    obtain l2 s2 where rf: "refill (left_block_capacity j) L 0 (l1, s1) = Ret [] (l2, s2)" "ready_l l2" "I s2" by auto
    let ?j2 = "?j\<lparr>left_block := [], left_block_idx := 0, jn_isend := True\<rparr>"
    have "join_begin k L Rt ((l, r, j'), s) = Ret () ((l2, r, ?j2), s2)"
      using b(1) rf(1) same_joinD [OF sj] by (simp add: join_begin_def refill_left_block_def on_left_def set_join_def)
    moreover have "join_ready (NestedLoopJoin l2 r ?j2)" using rf x by (simp add: join_ready_def same_join_def)
    moreover have "joined ls = []" by (subst join_rows.simps) (simp add: True)
    then have "join_at (NestedLoopJoin l2 r ?j2) (joined ls)" by (simp only:) (simp add: join_at_def)
    ultimately show ?thesis using rf(3) by blast
  next
    case False
    from next_block [OF b(2) x(3) b(3) sj b(4) order_refl False x(5)] obtain st2 l2 r2 j2 s2 where
      nb: "refill_left_block L ((l1, r, ?j), s1) = Ret True st2" "begin_right_scan Rt st2 = Ret () ((l2, r2, j2), s2)" "I s2"
      "inside l2 r2 j2 rs (snd (block (left_block_capacity j) 0 ls))" "left_block_idx j2 = 0"
      "left_block j2 = fst (block (left_block_capacity j) 0 ls)" by blast
    note ins = insideD [OF nb(4)]
    have st: "join_begin k L Rt ((l, r, j'), s) = (if is_end Rt (r2, s2) then Ret () ((l2, r2, j2\<lparr>jn_isend := True\<rparr>), s2)
        else join_advance k L Rt ((l2, r2, j2\<lparr>current_tuple := None\<rparr>), s2))"
      using b(1) nb(1,2) by (simp add: join_begin_def on_left_def set_join_def)
    show ?thesis
    proof (cases "rs = []")
      case True
      then have "is_end Rt (r2, s2)" using right.end_ok [OF ins(2,4) nb(3)] by simp
      with st nb(3) ins joined_no_right [OF x(5) True] show ?thesis
        by (simp add: join_ready_def join_at_def same_join_def)
    next
      case rs: False
      then have ne: "\<not> is_end Rt (r2, s2)" using right.end_ok [OF ins(2,4) nb(3)] by simp
      let ?b = "snd (block (left_block_capacity j) 0 ls)"
      have i3: "inside l2 r2 (j2\<lparr>current_tuple := None\<rparr>) rs ?b" using nb(4) by (simp add: inside_def same_join_def)
      have "length ?b * (length rs + 2) \<le> length ls * (length rs + 2)"
        using block_shorter [OF capacity [OF x(5)] False, of 0] by (intro mult_le_mono1) simp
      then have "length rs + length ?b * (length rs + 2) < k" using fuel [OF x(5)] by linarith
      from advance_ok [OF i3 nb(3) this order_refl] nb(5,6) remaining_block [OF x(5) False rs] st ne show ?thesis by simp
    qed
  qed
  then show "\<exists>e' s'. beginTuple (nested_loop_join k L Rt) (x, s) = Ret () (e', s') \<and> join_ready e' \<and> join_at e' (joined ls) \<and> I s'"
    using x(1) by (fastforce simp: nested_loop_join_def join_op_def)
next
  fix x out s
  assume "join_at x out"
  then show "is_end (nested_loop_join k L Rt) (x, s) = (out = [])" by (auto simp: join_at_def nested_loop_join_def)
next
  fix x r out s
  assume jr: "join_ready x" and ja: "join_at x (r # out)" and I: "I s"
  then obtain l rt j' rs' ls' where x: "x = NestedLoopJoin l rt j'" "current_tuple j' = Some r" "\<not> jn_isend j'"
    "inside l rt j' rs' ls'" "length rs' + length ls' * (length rs + 2) < k"
    "out = remaining (left_block j') (left_block_idx j') rs' ls'"
    unfolding join_at_def by auto
  have "Next (nested_loop_join k L Rt) (x, s) = Ret (Some r) (x, s)" using x by (simp add: nested_loop_join_def)
  then show "\<exists>e' s'. Next (nested_loop_join k L Rt) (x, s) = Ret (Some r) (e', s') \<and> join_ready e' \<and> join_at e' (r # out) \<and> I s'"
    using jr ja I by blast
  have i2: "inside l rt (j'\<lparr>current_tuple := None\<rparr>) rs' ls'" using x(4) by (simp add: inside_def same_join_def)
  from advance_ok [OF i2 I x(5) order_refl] x
  show "\<exists>e' s'. nextTuple (nested_loop_join k L Rt) (x, s) = Ret () (e', s') \<and> join_ready e' \<and> join_at e' out \<and> I s'"
    by (fastforce simp: nested_loop_join_def join_next_def join_op_def)
qed (auto simp: join_ready_def same_join_def)

end

end
