(* ===== verification/Output.thy ===== *)
theory Output
  imports Executor_Props
begin

text \<open>
  What a client gets to see: the reply buffer of a \<^verbatim>\<open>Context\<close>, the tables drawn by \<^verbatim>\<open>record_printer.h\<close>, the
  \<^verbatim>\<open>show\<close> and \<^verbatim>\<open>desc\<close> commands of \<^verbatim>\<open>sm_manager.cpp\<close>, the query loop \<^verbatim>\<open>select_from\<close> of
  \<^verbatim>\<open>execution_manager.cpp\<close> and the messages of \<^verbatim>\<open>errors.h\<close>.
\<close>

section \<open>Context\<close>

text \<open>
  The reply is what lies before \<^verbatim>\<open>offset_\<close> in \<^verbatim>\<open>data_send_\<close>, a buffer of \<^verbatim>\<open>BUFFER_LENGTH\<close> bytes that every request
  starts with offset 0; \<open>cx_file\<close> is what \<^verbatim>\<open>output.txt\<close> has been given.
\<close>

record ctx =
  cx_txn :: "int option"
  cx_out :: string
  cx_ellipsis :: bool
  cx_file :: string

definition BUFFER_LENGTH :: nat where "BUFFER_LENGTH = 8192"

definition RECORD_COUNT_LENGTH :: nat where "RECORD_COUNT_LENGTH = 40"

definition COL_WIDTH :: nat where "COL_WIDTH = 16"

definition to_file :: "string \<Rightarrow> ctx \<Rightarrow> ctx" where
  "to_file str cx = cx\<lparr>cx_file := cx_file cx @ str\<rparr>"

section \<open>RecordPrinter\<close>

text \<open>A text is sent if it leaves room for the final count; the first one that does not stops the output.\<close>

definition room_for :: "string \<Rightarrow> ctx \<Rightarrow> bool" where
  "room_for str cx \<longleftrightarrow> \<not> cx_ellipsis cx \<and> length (cx_out cx) + RECORD_COUNT_LENGTH + length str < BUFFER_LENGTH"

definition put_text :: "string \<Rightarrow> ctx \<Rightarrow> ctx" where
  "put_text str cx = (if room_for str cx then cx\<lparr>cx_out := cx_out cx @ str\<rparr> else cx\<lparr>cx_ellipsis := True\<rparr>)"

definition print_separator :: "nat \<Rightarrow> ctx \<Rightarrow> ctx" where
  "print_separator num_cols cx =
     put_text (''+'' @ nl) (((put_text (''+'' @ replicate (COL_WIDTH + 2) (CHR ''-''))) ^^ num_cols) cx)"

text \<open>A cell: cut to the column width with dots, aligned to the right.\<close>

definition cell :: "string \<Rightarrow> string" where
  "cell col =
     (let c = (if length col > COL_WIDTH then take (COL_WIDTH - 3) col @ ''...'' else col)
      in ''| '' @ replicate (COL_WIDTH - length c) (CHR '' '') @ c @ '' '')"

definition printer_record :: "string list \<Rightarrow> ctx \<Rightarrow> ctx" where
  "printer_record rec_str cx =
     (let cx1 = foldl (\<lambda>cx col. put_text (cell col) cx) cx rec_str; str = ''|'' @ nl
      in if room_for str cx1 then cx1\<lparr>cx_out := cx_out cx1 @ str\<rparr> else cx1)"

definition count_text :: "bool \<Rightarrow> nat \<Rightarrow> string" where
  "count_text ellipsis num_rec = (if ellipsis then ''... ...'' @ nl else []) @ ''Total record(s): '' @ nat_str num_rec @ nl"

definition print_record_count :: "nat \<Rightarrow> ctx \<Rightarrow> ctx" where
  "print_record_count num_rec cx = cx\<lparr>cx_out := cx_out cx @ count_text (cx_ellipsis cx) num_rec\<rparr>"

section \<open>Show and describe\<close>

definition file_row :: "string list \<Rightarrow> string" where
  "file_row cols = ''|'' @ concat (map (\<lambda>c. '' '' @ c @ '' |'') cols) @ nl"

definition show_tables :: "db_meta \<Rightarrow> ctx \<Rightarrow> ctx" where
  "show_tables db cx =
     (let cx1 = print_separator 1 (printer_record [''Tables''] (print_separator 1 (to_file (''| Tables |'' @ nl) cx)))
      in print_separator 1
           (foldl (\<lambda>cx (t, tab). to_file (''| '' @ tm_name tab @ '' |'' @ nl) (printer_record [tm_name tab] cx)) cx1 (tabs db)))"

fun comma_names :: "string list \<Rightarrow> string" where
  "comma_names [] = []"
| "comma_names [n] = n"
| "comma_names (n # ns) = n @ '','' @ comma_names ns"

definition index_cols_text :: "index_meta \<Rightarrow> string" where
  "index_cols_text ix = ''('' @ comma_names (map cm_name (take (nat (col_num ix)) (im_cols ix))) @ '')''"

definition show_index :: "db_meta \<Rightarrow> string \<Rightarrow> ctx \<Rightarrow> (unit, ctx) res" where
  "show_index db t cx =
     (case get_table db t of
        Inl e \<Rightarrow> Throw e cx
      | Inr tab \<Rightarrow>
          if indexes tab = [] then Ret () cx
          else Ret () (print_separator 3
                 (foldl (\<lambda>cx ix. to_file (''| '' @ t @ '' | unique | '' @ index_cols_text ix @ '' |'' @ nl)
                                   (printer_record [t, ''unique'', index_cols_text ix] cx))
                    (print_separator 3 cx) (indexes tab))))"

definition desc_table :: "db_meta \<Rightarrow> string \<Rightarrow> ctx \<Rightarrow> (unit, ctx) res" where
  "desc_table db t cx =
     (case get_table db t of
        Inl e \<Rightarrow> Throw e cx
      | Inr tab \<Rightarrow>
          Ret () (print_separator 3
            (foldl (\<lambda>cx c. printer_record [cm_name c, coltype2str (cm_type c), if cm_index c then ''YES'' else ''NO''] cx)
               (print_separator 3 (printer_record [''Field'', ''Type'', ''Index''] (print_separator 3 cx))) (tm_cols tab))))"

section \<open>Values as text\<close>

text \<open>
  \<^verbatim>\<open>std::fixed\<close> with six digits: the exact value in millionths, rounded to the nearest and to even in the middle.
  The sign of a NaN, which the model of floating-point numbers does not have, is not printed.
\<close>

definition millionths :: "nat \<Rightarrow> int \<Rightarrow> nat" where
  "millionths m e =
     (if e \<ge> 0 then m * 10 ^ 6 * 2 ^ nat e
      else let d = 2 ^ nat (- e); q = m * 10 ^ 6 div d; r = m * 10 ^ 6 mod d in
           if 2 * r > d \<or> (2 * r = d \<and> odd q) then q + 1 else q)"

fun float_text :: "fp \<Rightarrow> string" where
  "float_text NaN = ''nan''"
| "float_text (Inf neg) = (if neg then ''-inf'' else ''inf'')"
| "float_text (Fin neg m e) =
     (let n = millionths m e in
      (if neg then ''-'' else []) @ nat_str (n div 10 ^ 6) @ ''.'' @ pad0 6 (nat_str (n mod 10 ^ 6)))"

definition col_text :: "col_meta \<Rightarrow> bytes \<Rightarrow> string" where
  "col_text c tuple =
     (let rec_buf = field c tuple in
      case cm_type c of
        TYPE_INT \<Rightarrow> int_str (get_i32 rec_buf 0)
      | TYPE_FLOAT \<Rightarrow> float_text (get_f32 rec_buf 0)
      | TYPE_BIGINT \<Rightarrow> int_str (get_i64 rec_buf 0)
      | TYPE_DATETIME \<Rightarrow> format_datetime_value (get_i64 rec_buf 0)
      | TYPE_STRING \<Rightarrow> bytes_chars (takeWhile (\<lambda>b. b \<noteq> 0) (take (nat (cm_len c)) rec_buf)))"

section \<open>select_from\<close>

definition print_tuple :: "col_meta list \<Rightarrow> ctx \<Rightarrow> bytes \<Rightarrow> ctx" where
  "print_tuple cols cx tuple =
     (let columns = map (\<lambda>c. col_text c tuple) cols in to_file (file_row columns) (printer_record columns cx))"

text \<open>The loop over the tuples; the printer asserts that a row has as many cells as the table has columns.\<close>

primrec select_loop :: "nat \<Rightarrow> 's executor \<Rightarrow> nat \<Rightarrow> nat \<Rightarrow> ctx \<Rightarrow> exec \<times> 's \<Rightarrow> (nat, ctx \<times> exec \<times> 's) res" where
  "select_loop 0 V n num_rec cx st = Throw NonTermination (cx, st)"
| "select_loop (Suc k) V n num_rec cx st =
     (if is_end V st then Ret num_rec (cx, st)
      else case Next V st of
        (Inl e, st1) \<Rightarrow> Throw e (cx, st1)
      | (Inr None, st1) \<Rightarrow> Throw NullDereference (cx, st1)
      | (Inr (Some b), st1) \<Rightarrow>
          if length (exec_cols (fst st1)) \<noteq> n then Throw AssertionFailure (cx, st1)
          else (case nextTuple V st1 of
                  (Inl e, st2) \<Rightarrow> Throw e (print_tuple (exec_cols (fst st1)) cx b, st2)
                | (Inr _, st2) \<Rightarrow> select_loop k V n (Suc num_rec) (print_tuple (exec_cols (fst st1)) cx b) st2))"

definition print_head :: "string list \<Rightarrow> ctx \<Rightarrow> ctx" where
  "print_head captions cx =
     (let n = length captions
      in to_file (file_row captions) (print_separator n (printer_record captions (print_separator n cx))))"

definition select_from :: "nat \<Rightarrow> 's executor \<Rightarrow> tab_col list \<Rightarrow> ctx \<Rightarrow> exec \<times> 's \<Rightarrow> (unit, ctx \<times> exec \<times> 's) res" where
  "select_from k V cols cx st =
     (let n = length cols in
      if n = 0 then Throw AssertionFailure (cx, st)
      else let cx1 = print_head (map col_name cols) cx in
        case beginTuple V st of
          (Inl e, st1) \<Rightarrow> Throw e (cx1, st1)
        | (Inr _, st1) \<Rightarrow>
            (case select_loop k V n 0 cx1 st1 of
               (Inl e, r) \<Rightarrow> Throw e r
             | (Inr num_rec, (cx2, st2)) \<Rightarrow> Ret () (print_record_count num_rec (print_separator n cx2), st2)))"

section \<open>Messages of exceptions\<close>

fun names_text :: "string list \<Rightarrow> string" where
  "names_text [] = []"
| "names_text [n] = n"
| "names_text (n # ns) = n @ '', '' @ names_text ns"

text \<open>
  \<^verbatim>\<open>what()\<close> of a subclass of \<^verbatim>\<open>RMDBError\<close>, without its prefix; \<open>None\<close> for everything that is none. The text of
  \<^verbatim>\<open>UnixError\<close> is that of \<^verbatim>\<open>strerror\<close>.
\<close>

fun error_text :: "string \<Rightarrow> rmdb_error \<Rightarrow> string option" where
  "error_text strerror (InternalError msg) = Some msg"
| "error_text strerror UnixError = Some strerror"
| "error_text strerror (FileNotOpenError fd) = Some (''Invalid file descriptor: '' @ int_str fd)"
| "error_text strerror (FileNotClosedError f) = Some (''File is opened: '' @ f)"
| "error_text strerror (FileExistsError f) = Some (''File already exists: '' @ f)"
| "error_text strerror (FileNotFoundError f) = Some (''File not found: '' @ f)"
| "error_text strerror (RecordNotFoundError p s) = Some (''Record not found: ('' @ int_str p @ '','' @ int_str s @ '')'')"
| "error_text strerror (InvalidRecordSizeError n) = Some (''Invalid record size: '' @ int_str n)"
| "error_text strerror (InvalidColLengthError n) = Some (''Invalid column length: '' @ int_str n)"
| "error_text strerror IndexEntryNotFoundError = Some ''Index entry not found''"
| "error_text strerror (DatabaseNotFoundError d) = Some (''Database not found: '' @ d)"
| "error_text strerror (DatabaseExistsError d) = Some (''Database already exists: '' @ d)"
| "error_text strerror (TableNotFoundError t) = Some (''Table not found: '' @ t)"
| "error_text strerror (TableExistsError t) = Some (''Table already exists: '' @ t)"
| "error_text strerror (ColumnNotFoundError c) = Some (''Column not found: '' @ c)"
| "error_text strerror (IndexNotFoundError t ns) = Some (''Index not found: '' @ t @ ''.('' @ names_text ns @ '')'')"
| "error_text strerror (IndexExistsError t ns) = Some (''Index already exists: '' @ t @ ''.('' @ names_text ns @ '')'')"
| "error_text strerror InvalidValueCountError = Some ''Invalid value count''"
| "error_text strerror StringOverflowError = Some ''String is too long''"
| "error_text strerror (ValueOutOfRangeError t v) = Some (''Value out of range for '' @ t @ '': '' @ int_str v)"
| "error_text strerror (InvalidDateTimeError v) = Some (''Invalid datetime: '' @ v)"
| "error_text strerror (IncompatibleTypeError l r) = Some (''Incompatible type error: lhs '' @ l @ '', rhs '' @ r)"
| "error_text strerror (AmbiguousColumnError c) = Some (''Ambiguous column: '' @ c)"
| "error_text strerror (PageNotExistError t p) = Some (''Page '' @ int_str p @ '' in table '' @ t @ ''not exits'')"
| "error_text strerror (TransactionAbort t r) = None"
| "error_text strerror AssertionFailure = None"
| "error_text strerror OutOfRange = None"
| "error_text strerror NullDereference = None"
| "error_text strerror NonTermination = None"

definition rmdb_what :: "string \<Rightarrow> rmdb_error \<Rightarrow> string option" where
  "rmdb_what strerror e = map_option (\<lambda>m. ''Error: '' @ m) (error_text strerror e)"

end
