(* ===== verification/Portal.thy ===== *)
theory Portal
  imports Planner Output Executor_Tree Dml
begin

text \<open>
  From plans to results: \<^verbatim>\<open>portal.h\<close> builds the executors of a plan, taking the table locks on the way, and runs
  them; \<^verbatim>\<open>execution/execution_manager.cpp\<close> carries out definitions and commands. \<open>t\<close> is the transaction of the
  context, whose log manager is always there; \<open>tid\<close> is the transaction number the client thread keeps.
\<close>

section \<open>Constructors of the scans\<close>

text \<open>
  The shared lock on the file of a table is taken in the constructor. A table without columns has no last
  column to take the length from.
\<close>

definition new_scan :: "string \<Rightarrow> condition list \<Rightarrow> tab_meta \<Rightarrow> scan_exec" where
  "new_scan tab conds m =
     \<lparr>sc_tab = tab, sc_conds = conds, sc_cols = tm_cols m,
      sc_len = cm_offset (last (tm_cols m)) + cm_len (last (tm_cols m)), sc_rid = Rid 0 0, sc_scan = None\<rparr>"

definition lock_table_shared :: "int \<Rightarrow> int \<Rightarrow> 'r sys \<Rightarrow> (unit, 'r sys) res" where
  "lock_table_shared t fd s = seqE (on_locks (Some t) (lock_shared_on_table fd) s) (\<lambda>_ s1. Ret () s1)"

definition SeqScanExecutor :: "int \<Rightarrow> string \<Rightarrow> condition list \<Rightarrow> 'r sys \<Rightarrow> (exec, 'r sys) res" where
  "SeqScanExecutor t tab conds s =
     seqE (lift_sm (get_table (sm_db s) tab) s)
       (\<lambda>m s1. case map_of (fhs s1) tab of
                 None \<Rightarrow> Throw OutOfRange s1
               | Some (fd, h) \<Rightarrow>
                   if tm_cols m = [] then Throw NullDereference s1
                   else seqE (lock_table_shared t fd s1) (\<lambda>_ s2. Ret (SeqScan (new_scan tab conds m)) s2))"

text \<open>The loop of the index scan that turns conditions with their left side on another table.\<close>

definition turn_cond :: "string \<Rightarrow> condition \<Rightarrow> rmdb_error + condition" where
  "turn_cond tab c =
     (if tab_name (lhs_col c) = tab then Inr c
      else if \<not> is_rhs_val c \<and> tab_name (rhs_col c) = tab then Inr (swap_cond c)
      else Inl AssertionFailure)"

definition IndexScanExecutor :: "int \<Rightarrow> string \<Rightarrow> condition list \<Rightarrow> string list \<Rightarrow> 'r sys \<Rightarrow> (exec, 'r sys) res" where
  "IndexScanExecutor t tab conds names s =
     seqE (lift_sm (get_table (sm_db s) tab) s)
       (\<lambda>m s1. seqE (lift_sm (get_index_meta m names) s1)
          (\<lambda>i s2. case map_of (fhs s2) tab of
                    None \<Rightarrow> Throw OutOfRange s2
                  | Some (fd, h) \<Rightarrow>
                      seqE (lock_table_shared t fd s2)
                        (\<lambda>_ s3.
                           if map_of (ihs s3) (index_name_of tab (indexes m ! i)) = None then Throw OutOfRange s3
                           else if tm_cols m = [] then Throw NullDereference s3
                           else seqE (lift_sm (for_each (turn_cond tab) conds) s3)
                                  (\<lambda>cs s4. Ret (IndexScan (indexes m ! i) (new_scan tab cs m)) s4))))"

section \<open>convert_plan_executor\<close>

text \<open>An executor made from one or two others; a null pointer, \<open>None\<close>, cannot be used.\<close>

definition over :: "(exec \<Rightarrow> rmdb_error + exec) \<Rightarrow> (exec option, 's) res \<Rightarrow> (exec option, 's) res" where
  "over f r =
     seqE r (\<lambda>x s. case x of
                     None \<Rightarrow> Throw NullDereference s
                   | Some e \<Rightarrow> (case f e of Inl err \<Rightarrow> Throw err s | Inr e' \<Rightarrow> Ret (Some e') s))"

primrec convert_plan_executor :: "plan \<Rightarrow> int \<Rightarrow> 'r sys \<Rightarrow> (exec option, 'r sys) res" where
  "convert_plan_executor NullPlan t s = Ret None s"
| "convert_plan_executor (ProjectionPlan p cols) t s = over (\<lambda>e. ProjectionExecutor e cols) (convert_plan_executor p t s)"
| "convert_plan_executor (ScanPlan tag x) t s =
     seqE (if tag = T_SeqScan then SeqScanExecutor t (sp_tab_name x) (sp_conds x) s
           else IndexScanExecutor t (sp_tab_name x) (sp_conds x) (sp_index_col_names x) s)
       (\<lambda>e s1. Ret (Some e) s1)"
| "convert_plan_executor (JoinPlan l r conds) t s =
     seqE (convert_plan_executor l t s)
       (\<lambda>a s1. over (\<lambda>e. case a of None \<Rightarrow> Inl NullDereference | Some d \<Rightarrow> Inr (NestedLoopJoinExecutor d e conds))
                 (convert_plan_executor r t s1))"
| "convert_plan_executor (SortPlan p cols descs limit) t s = over (\<lambda>e. SortExecutor e cols descs limit) (convert_plan_executor p t s)"
| "convert_plan_executor (LimitPlan p limit) t s = over (\<lambda>e. Inr (LimitExecutor e limit)) (convert_plan_executor p t s)"
| "convert_plan_executor (AggregatePlan p calls) t s = over (\<lambda>e. AggregateExecutor e calls) (convert_plan_executor p t s)"
| "convert_plan_executor (DMLPlan tag p tab vals conds sets) t s = Ret None s"
| "convert_plan_executor (DDLPlan tag tab names defs) t s = Ret None s"
| "convert_plan_executor (OtherPlan tag tab) t s = Ret None s"

section \<open>Portal\<close>

datatype portal_tag = PORTAL_Invalid_Query | PORTAL_ONE_SELECT | PORTAL_DML_WITHOUT_SELECT | PORTAL_MULTI_QUERY | PORTAL_CMD_UTILITY

datatype portal_root = NoRoot | QueryRoot exec | InsertRoot insert_exec | DeleteRoot modify_exec | UpdateRoot modify_exec

record portal_stmt =
  po_tag :: portal_tag
  po_sel_cols :: "tab_col list"
  po_root :: portal_root
  po_plan :: plan

text \<open>The loop that collects the records a deletion or an update is about.\<close>

primrec collect_rids :: "nat \<Rightarrow> 's executor \<Rightarrow> exec \<times> 's \<Rightarrow> (rid list, exec \<times> 's) res" where
  "collect_rids 0 V st = Throw NonTermination st"
| "collect_rids (Suc k) V st =
     (if is_end V st then Ret [] st
      else case exec_rid (fst st) of
             None \<Rightarrow> Throw NullDereference st
           | Some r \<Rightarrow> seqE (nextTuple V st) (\<lambda>_ st1. seqE (collect_rids k V st1) (\<lambda>rs st2. Ret (r # rs) st2)))"

definition scan_rids :: "nat \<Rightarrow> sorter \<Rightarrow> 'r replacer_ops \<Rightarrow> plan \<Rightarrow> int \<Rightarrow> 'r sys \<Rightarrow> (rid list, 'r sys) res" where
  "scan_rids k srt R p t s =
     seqE (convert_plan_executor p t s)
       (\<lambda>x s1. case x of
                 None \<Rightarrow> Throw NullDereference s1
               | Some e \<Rightarrow> bindE (seqE (beginTuple (vtable k srt R e) (e, s1)) (\<lambda>_ st. collect_rids k (vtable k srt R e) st))
                             (\<lambda>rs (e', s2). Ret rs s2) snd)"

definition portal_start :: "nat \<Rightarrow> sorter \<Rightarrow> 'r replacer_ops \<Rightarrow> plan \<Rightarrow> int \<Rightarrow> 'r sys \<Rightarrow> (portal_stmt, 'r sys) res" where
  "portal_start k srt R p t s =
     (let unexpected = Throw (InternalError ''Unexpected field type'') s;
          dml = (\<lambda>r. \<lparr>po_tag = PORTAL_DML_WITHOUT_SELECT, po_sel_cols = [], po_root = r, po_plan = p\<rparr>) in
      case p of
        OtherPlan tag tab \<Rightarrow> Ret \<lparr>po_tag = PORTAL_CMD_UTILITY, po_sel_cols = [], po_root = NoRoot, po_plan = p\<rparr> s
      | DDLPlan tag tab names defs \<Rightarrow> Ret \<lparr>po_tag = PORTAL_MULTI_QUERY, po_sel_cols = [], po_root = NoRoot, po_plan = p\<rparr> s
      | DMLPlan tag sub tab vals conds sets \<Rightarrow>
          if tag = T_select then
            seqE (convert_plan_executor sub t s)
              (\<lambda>x s1. case x of
                        None \<Rightarrow> Throw NullDereference s1
                      | Some e \<Rightarrow>
                          Ret \<lparr>po_tag = PORTAL_ONE_SELECT,
                               po_sel_cols = map (\<lambda>c. \<lparr>tab_name = cm_tab_name c, col_name = cm_name c\<rparr>) (exec_cols e),
                               po_root = QueryRoot e, po_plan = p\<rparr> s1)
          else if tag = T_Update then
            seqE (scan_rids k srt R sub t s)
              (\<lambda>rids s1. seqE (UpdateExecutor t tab sets conds rids s1) (\<lambda>e s2. Ret (dml (UpdateRoot e)) s2))
          else if tag = T_Delete then
            seqE (scan_rids k srt R sub t s)
              (\<lambda>rids s1. seqE (DeleteExecutor t tab conds rids s1) (\<lambda>e s2. Ret (dml (DeleteRoot e)) s2))
          else if tag = T_Insert then
            seqE (InsertExecutor t tab vals s) (\<lambda>e s1. Ret (dml (InsertRoot e)) s1)
          else unexpected
      | _ \<Rightarrow> unexpected)"

section \<open>QlManager\<close>

definition help_lines :: "string list" where
  "help_lines =
     [''Supported SQL syntax:'',
      ''  command ;'',
      ''command:'',
      ''  CREATE TABLE table_name (column_name type [, column_name type ...])'',
      ''  DROP TABLE table_name'',
      ''  CREATE INDEX table_name (column_name)'',
      ''  DROP INDEX table_name (column_name)'',
      ''  INSERT INTO table_name VALUES (value [, value ...])'',
      ''  DELETE FROM table_name [WHERE where_clause]'',
      ''  UPDATE table_name SET column_name = value [, column_name = value ...] [WHERE where_clause]'',
      ''  SELECT selector FROM table_name [WHERE where_clause]'',
      ''type:'',
      ''  {INT | FLOAT | CHAR(n)}'',
      ''where_clause:'',
      ''  condition [AND condition ...]'',
      ''condition:'',
      ''  column op {column | value}'',
      ''column:'',
      ''  [table_name.]column_name'',
      ''op:'',
      ''  {= | <> | < | > | <= | >=}'',
      ''selector:'',
      ''  {* | column [, column ...]}'']"

definition help_info :: string where
  "help_info = concat (map (\<lambda>l. l @ nl) help_lines)"

definition run_mutli_query :: "'r replacer_ops \<Rightarrow> plan \<Rightarrow> 'r sys \<Rightarrow> (unit, 'r sys) res" where
  "run_mutli_query R p s =
     (case p of
        DDLPlan tag tab names defs \<Rightarrow>
          if tag = T_CreateTable then create_table tab defs s
          else if tag = T_DropTable then drop_table R tab s
          else if tag = T_CreateIndex then sm_create_index R tab names s
          else if tag = T_DropIndex then drop_index R tab names s
          else Throw (InternalError ''Unexpected field type'') s
      | _ \<Rightarrow> Ret () s)"

text \<open>
  \<^verbatim>\<open>help\<close> copies the text to the end of the reply but sets the offset to the length of the text. Commit and
  rollback first look up the transaction of the client again.
\<close>

definition end_transaction ::
  "(int option \<Rightarrow> bool \<Rightarrow> 'r sys \<Rightarrow> (unit, 'r sys) res) \<Rightarrow> nat \<Rightarrow> int \<Rightarrow> ctx \<times> 'r sys \<Rightarrow> (unit, ctx \<times> 'r sys) res" where
  "end_transaction f thr tid st =
     (case st of (cx, s) \<Rightarrow>
        case get_transaction thr tid s of
          Inl e \<Rightarrow> Throw e st
        | Inr x \<Rightarrow> beside (f x True) (cx\<lparr>cx_txn := x\<rparr>, s))"

definition run_cmd_utility :: "'r replacer_ops \<Rightarrow> nat \<Rightarrow> int \<Rightarrow> plan \<Rightarrow> ctx \<times> 'r sys \<Rightarrow> (unit, ctx \<times> 'r sys) res" where
  "run_cmd_utility R thr tid p st =
     (case st of (cx, s) \<Rightarrow>
        case p of
          OtherPlan tag tab \<Rightarrow>
            if tag = T_Help then Ret () (cx\<lparr>cx_out := take (length help_info) (cx_out cx @ help_info)\<rparr>, s)
            else if tag = T_ShowTable then Ret () (show_tables (sm_db s) cx, s)
            else if tag = T_ShowIndex then (case show_index (sm_db s) tab cx of (r, cx') \<Rightarrow> (r, (cx', s)))
            else if tag = T_DescTable then (case desc_table (sm_db s) tab cx of (r, cx') \<Rightarrow> (r, (cx', s)))
            else if tag = T_Transaction_begin then
              (case cx_txn cx of
                 None \<Rightarrow> Throw NullDereference st
               | Some t \<Rightarrow> Ret () (cx, txn_update t (\<lambda>x. x\<lparr>txn_mode := True\<rparr>) s))
            else if tag = T_Transaction_commit then end_transaction txn_commit thr tid st
            else if tag = T_Transaction_rollback \<or> tag = T_Transaction_abort then end_transaction (txn_abort R) thr tid st
            else Throw (InternalError ''Unexpected field type'') st
        | _ \<Rightarrow> Ret () st)"

definition run_dml :: "'r replacer_ops \<Rightarrow> int \<Rightarrow> portal_root \<Rightarrow> 'r sys \<Rightarrow> (unit, 'r sys) res" where
  "run_dml R t root s =
     (case root of
        InsertRoot e \<Rightarrow> seqE (insert_next R True t e s) (\<lambda>_ s1. Ret () s1)
      | DeleteRoot e \<Rightarrow> delete_next R True t e s
      | UpdateRoot e \<Rightarrow> update_next R True t e s
      | _ \<Rightarrow> Throw NullDereference s)"

definition run_select :: "nat \<Rightarrow> sorter \<Rightarrow> 'r replacer_ops \<Rightarrow> portal_stmt \<Rightarrow> ctx \<times> 'r sys \<Rightarrow> (unit, ctx \<times> 'r sys) res" where
  "run_select k srt R po st =
     (case st of (cx, s) \<Rightarrow>
        case po_root po of
          QueryRoot e \<Rightarrow> bindE (select_from k (vtable k srt R e) (po_sel_cols po) cx (e, s))
                         (\<lambda>_ (cx', (e', s')). Ret () (cx', s')) (\<lambda>(cx', (e', s')). (cx', s'))
        | _ \<Rightarrow> Throw NullDereference st)"

definition portal_run :: "nat \<Rightarrow> sorter \<Rightarrow> 'r replacer_ops \<Rightarrow> nat \<Rightarrow> int \<Rightarrow> int \<Rightarrow> portal_stmt \<Rightarrow> ctx \<times> 'r sys \<Rightarrow>
  (unit, ctx \<times> 'r sys) res" where
  "portal_run k srt R thr tid t po st =
     (case po_tag po of
        PORTAL_ONE_SELECT \<Rightarrow> run_select k srt R po st
      | PORTAL_DML_WITHOUT_SELECT \<Rightarrow> beside (run_dml R t (po_root po)) st
      | PORTAL_MULTI_QUERY \<Rightarrow> beside (run_mutli_query R (po_plan po)) st
      | PORTAL_CMD_UTILITY \<Rightarrow> run_cmd_utility R thr tid (po_plan po) st
      | PORTAL_Invalid_Query \<Rightarrow> Throw (InternalError ''Unexpected field type'') st)"

end
