(* ===== verification/Scanner.thy ===== *)
theory Scanner
  imports Analyzer
begin

text \<open>
  The scanner, \<^verbatim>\<open>parser/lex.l\<close>. The rules are applied the way flex applies them: the longest match, of several the
  first, and a character no other rule matches is skipped. A token carries its semantic value; the tokens
  \<^verbatim>\<open>INT\<close> and \<^verbatim>\<open>FLOAT\<close> carry what the scanner left in \<^verbatim>\<open>scanner_last_type\<close>, which the parser reads before the next
  token is scanned, and an integer whether it set \<^verbatim>\<open>scanner_int_out_of_range\<close>. The start condition
  (\<open>True\<close> for \<^verbatim>\<open>STATE_COMMENT\<close>) outlives a request: the end of the text does not reset it.
\<close>

section \<open>Tokens\<close>

datatype keyword =
    K_SHOW | K_TXN_BEGIN | K_TXN_COMMIT | K_TXN_ABORT | K_TXN_ROLLBACK | K_TABLES | K_CREATE | K_TABLE | K_DROP
  | K_DESC | K_INSERT | K_INTO | K_VALUES | K_DELETE | K_FROM | K_WHERE | K_UPDATE | K_SET | K_SELECT | K_CHAR | K_INDEX
  | K_AND | K_JOIN | K_EXIT | K_HELP | K_ORDER | K_BY | K_ASC | K_LIMIT | K_AS | K_COUNT | K_MAX | K_MIN | K_SUM

datatype token =
    Kw keyword
  | INT_tok sv_type
  | FLOAT_tok sv_type
  | GEQ | LEQ | NEQ
  | Op char
  | IDENTIFIER string
  | VALUE_INT int bool
  | VALUE_FLOAT fp
  | VALUE_STRING string
  | T_EOF bool

definition keyword_table :: "(string \<times> token) list" where
  "keyword_table =
    [(''SHOW'', Kw K_SHOW), (''BEGIN'', Kw K_TXN_BEGIN), (''COMMIT'', Kw K_TXN_COMMIT), (''ABORT'', Kw K_TXN_ABORT),
     (''ROLLBACK'', Kw K_TXN_ROLLBACK), (''TABLES'', Kw K_TABLES), (''CREATE'', Kw K_CREATE), (''TABLE'', Kw K_TABLE),
     (''DROP'', Kw K_DROP), (''DESC'', Kw K_DESC), (''INSERT'', Kw K_INSERT), (''INTO'', Kw K_INTO),
     (''VALUES'', Kw K_VALUES), (''DELETE'', Kw K_DELETE), (''FROM'', Kw K_FROM), (''WHERE'', Kw K_WHERE),
     (''UPDATE'', Kw K_UPDATE), (''SET'', Kw K_SET), (''SELECT'', Kw K_SELECT), (''INT'', INT_tok SV_TYPE_INT),
     (''BIGINT'', INT_tok SV_TYPE_BIGINT), (''CHAR'', Kw K_CHAR), (''FLOAT'', FLOAT_tok SV_TYPE_FLOAT),
     (''DATETIME'', FLOAT_tok SV_TYPE_DATETIME), (''INDEX'', Kw K_INDEX), (''AND'', Kw K_AND), (''JOIN'', Kw K_JOIN),
     (''EXIT'', Kw K_EXIT), (''HELP'', Kw K_HELP), (''ORDER'', Kw K_ORDER), (''BY'', Kw K_BY), (''ASC'', Kw K_ASC),
     (''LIMIT'', Kw K_LIMIT), (''AS'', Kw K_AS), (''COUNT'', Kw K_COUNT), (''MAX'', Kw K_MAX), (''MIN'', Kw K_MIN),
     (''SUM'', Kw K_SUM)]"

section \<open>Character classes\<close>

definition is_alpha :: "char \<Rightarrow> bool" where
  "is_alpha c \<longleftrightarrow> (let n = of_char c :: nat in 65 \<le> n \<and> n \<le> 90 \<or> 97 \<le> n \<and> n \<le> 122)"

definition ident_char :: "char \<Rightarrow> bool" where
  "ident_char c \<longleftrightarrow> c = CHR ''_'' \<or> is_alpha c \<or> is_digit c"

text \<open>\<^verbatim>\<open>%option caseless\<close>: keywords match in any case.\<close>

definition upcase :: "char \<Rightarrow> char" where
  "upcase c = (let n = of_char c :: nat in if 97 \<le> n \<and> n \<le> 122 then char_of (n - 32) else c)"

definition is_sign :: "char \<Rightarrow> bool" where
  "is_sign c \<longleftrightarrow> c = CHR ''+'' \<or> c = CHR ''-''"

definition single_op :: "char \<Rightarrow> bool" where
  "single_op c \<longleftrightarrow> c \<in> set '';(),*=><.''"

definition newline :: char where
  "newline = CHR 0x0A"

definition quote :: char where
  "quote = CHR 0x27"

section \<open>Literals\<close>

text \<open>\<^verbatim>\<open>strtoll\<close> gives the nearest 64-bit integer and reports \<^verbatim>\<open>ERANGE\<close> when it is not the number itself.\<close>

definition strtoll :: "bool \<Rightarrow> nat \<Rightarrow> int \<times> bool" where
  "strtoll neg n =
     (let v = (if neg then - int n else int n) in
      if v < - (2 ^ 63) then (- (2 ^ 63), True) else if 2 ^ 63 \<le> v then (2 ^ 63 - 1, True) else (v, False))"

text \<open>
  \<^verbatim>\<open>atof\<close> of \<open>n / 10 ^ d\<close>: the nearest \<^verbatim>\<open>double\<close>. The quotient is computed to 1100 binary places, and a last place
  records whether anything is left; the places of a \<^verbatim>\<open>double\<close> end at the 1074th, so rounding sees on which side of
  the middle the number lies.
\<close>

definition atof :: "bool \<Rightarrow> nat \<Rightarrow> nat \<Rightarrow> fp" where
  "atof neg n d =
     (let q = n * 2 ^ 1100 div 10 ^ d; r = n * 2 ^ 1100 mod 10 ^ d in
      round_f64 neg (2 * q + (if r = 0 then 0 else 1)) (-1101))"

definition number :: "bool \<Rightarrow> string \<Rightarrow> token \<times> string" where
  "number neg s =
     (let ds = takeWhile is_digit s; r = dropWhile is_digit s in
      if r \<noteq> [] \<and> hd r = CHR ''.''
      then let fs = takeWhile is_digit (tl r) in
           (VALUE_FLOAT (to_f32 (atof neg (digits_nat 0 (ds @ fs)) (length fs))), dropWhile is_digit (tl r))
      else case strtoll neg (digits_nat 0 ds) of (v, b) \<Rightarrow> (VALUE_INT v b, r))"

definition word_token :: "string \<Rightarrow> token" where
  "word_token s = (case map_of keyword_table (map upcase s) of None \<Rightarrow> IDENTIFIER s | Some t \<Rightarrow> t)"

section \<open>Rules\<close>

datatype lex_action = Return token | Ignore | Enter_comment

text \<open>
  The rule for a text that starts with \<open>c\<close>, and the text behind the match. White space is skipped character by
  character, which is the same as skipping it at once.
\<close>

definition lex_rule :: "char \<Rightarrow> string \<Rightarrow> lex_action \<times> string" where
  "lex_rule c s =
     (if c = CHR ''/'' \<and> s \<noteq> [] \<and> hd s = CHR ''*'' then (Enter_comment, tl s)
      else if c = CHR ''-'' \<and> s \<noteq> [] \<and> hd s = CHR ''-'' then (Ignore, dropWhile (\<lambda>x. x \<noteq> newline) s)
      else if c = CHR ''>'' \<and> s \<noteq> [] \<and> hd s = CHR ''='' then (Return GEQ, tl s)
      else if c = CHR ''<'' \<and> s \<noteq> [] \<and> hd s = CHR ''='' then (Return LEQ, tl s)
      else if c = CHR ''<'' \<and> s \<noteq> [] \<and> hd s = CHR ''>'' then (Return NEQ, tl s)
      else if single_op c then (Return (Op c), s)
      else if is_alpha c then (Return (word_token (c # takeWhile ident_char s)), dropWhile ident_char s)
      else if is_digit c then (case number False (c # s) of (t, r) \<Rightarrow> (Return t, r))
      else if is_sign c \<and> s \<noteq> [] \<and> is_digit (hd s) then (case number (c = CHR ''-'') s of (t, r) \<Rightarrow> (Return t, r))
      else if c = quote \<and> quote \<in> set s
        then (Return (VALUE_STRING (takeWhile (\<lambda>x. x \<noteq> quote) s)), tl (dropWhile (\<lambda>x. x \<noteq> quote) s))
      else (Ignore, s))"

text \<open>The rules of \<^verbatim>\<open>STATE_COMMENT\<close>: the text behind the end of the comment, if it ends.\<close>

fun comment_end :: "string \<Rightarrow> string option" where
  "comment_end (a # b # s) = (if a = CHR ''*'' \<and> b = CHR ''/'' then Some s else comment_end (b # s))"
| "comment_end s = None"

lemma comment_end_shorter: "comment_end s = Some r \<Longrightarrow> length r < length s"
  by (induction s rule: comment_end.induct) (auto split: if_splits)

lemma length_tl_dropWhile: "length (dropWhile P s) - Suc 0 \<le> length s"
  using length_dropWhile_le [of P s] by linarith

lemma number_shorter: "length (snd (number neg s)) \<le> length (dropWhile is_digit s)"
  using length_dropWhile_le [of is_digit "tl (dropWhile is_digit s)"]
  by (auto simp: number_def Let_def split: prod.splits)

lemma shorter_if:
  "(b \<Longrightarrow> length (snd x) \<le> n) \<Longrightarrow> (\<not> b \<Longrightarrow> length (snd y) \<le> n) \<Longrightarrow> length (snd (if b then x else y)) \<le> n"
  by simp

lemma number_return_shorter: "length (snd (case number neg s of (t, r) \<Rightarrow> (Return t, r))) \<le> length (dropWhile is_digit s)"
  using number_shorter [of neg s] by (cases "number neg s") simp

lemma lex_rule_shorter: "length (snd (lex_rule c s)) \<le> length s"
proof -
  have "is_digit c \<Longrightarrow> length (snd (case number False (c # s) of (t, r) \<Rightarrow> (Return t, r))) \<le> length s"
    using number_return_shorter [of False "c # s"] length_dropWhile_le [of is_digit s] by simp
  moreover have "length (snd (case number neg s of (t, r) \<Rightarrow> (Return t, r))) \<le> length s" for neg
    using number_return_shorter [of neg s] length_dropWhile_le [of is_digit s] by simp
  ultimately show ?thesis
    unfolding lex_rule_def by (intro shorter_if) (simp_all add: length_dropWhile_le length_tl_dropWhile)
qed

lemma lex_rule_Suc: "(a, r) = lex_rule c s \<Longrightarrow> length r < Suc (length s)"
  using lex_rule_shorter [of c s] by (cases "lex_rule c s") simp

function scan :: "bool \<Rightarrow> string \<Rightarrow> token list" where
  "scan True s = (case comment_end s of None \<Rightarrow> [T_EOF True] | Some r \<Rightarrow> scan False r)"
| "scan False [] = [T_EOF False]"
| "scan False (c # s) =
     (case lex_rule c s of
        (Return t, r) \<Rightarrow> t # scan False r
      | (Ignore, r) \<Rightarrow> scan False r
      | (Enter_comment, r) \<Rightarrow> scan True r)"
  by pat_completeness auto
termination
  by (relation "measure (\<lambda>(b, s). length s)") (auto dest: comment_end_shorter lex_rule_Suc)

end
