(* ===== verification/Parser.thy ===== *)
theory Parser
  imports Scanner
begin

text \<open>
  The parser, \<^verbatim>\<open>parser/yacc.y\<close>. The grammar is stated twice. The predicates \<open>g_\<dots>\<close> are its productions with
  their actions: a list of tokens derives a semantic value. The functions \<open>p_\<dots>\<close> decide with one token of lookahead,
  as the generated automaton does: they return the value and the tokens not read, or, when a token
  cannot continue any sentence, the tokens from that one on. A production with \<^verbatim>\<open>$$.push_back($3)\<close> adds to the value
  of its first symbol, and an empty production leaves the default of the value. Statements are accepted at the semicolon,
  without a look at what follows.
\<close>

section \<open>Combining parsers\<close>

type_synonym 'a parser = "token list \<Rightarrow> token list + 'a \<times> token list"

definition retP :: "'a \<Rightarrow> 'a parser" where
  "retP x ts = Inr (x, ts)"

definition bindP :: "'a parser \<Rightarrow> ('a \<Rightarrow> 'b parser) \<Rightarrow> 'b parser" where
  "bindP p f ts = (case p ts of Inl r \<Rightarrow> Inl r | Inr (x, r) \<Rightarrow> f x r)"

definition tok :: "token \<Rightarrow> unit parser" where
  "tok t ts = (if ts \<noteq> [] \<and> hd ts = t then Inr ((), tl ts) else Inl ts)"

definition thenP :: "token \<Rightarrow> 'a parser \<Rightarrow> 'a parser" where
  "thenP t p = bindP (tok t) (\<lambda>_. p)"

text \<open>Elements with a token of \<open>S\<close> between them, and the derivation of such a list as the grammar has it.\<close>

primrec p_more :: "nat \<Rightarrow> token set \<Rightarrow> 'a parser \<Rightarrow> 'a list \<Rightarrow> 'a list parser" where
  "p_more 0 S p vs = retP vs"
| "p_more (Suc k) S p vs =
     (\<lambda>ts. if ts \<noteq> [] \<and> hd ts \<in> S then bindP p (\<lambda>v. p_more k S p (vs @ [v])) (tl ts) else retP vs ts)"

definition p_list :: "token set \<Rightarrow> 'a parser \<Rightarrow> 'a list parser" where
  "p_list S p = bindP p (\<lambda>v r. p_more (length r) S p [v] r)"

inductive g_list :: "token set \<Rightarrow> (token list \<Rightarrow> 'a \<Rightarrow> bool) \<Rightarrow> token list \<Rightarrow> 'a list \<Rightarrow> bool"
  for S :: "token set" and g :: "token list \<Rightarrow> 'a \<Rightarrow> bool" where
  list_one: "g us v \<Longrightarrow> g_list S g us [v]"
| list_push: "g_list S g us vs \<Longrightarrow> t \<in> S \<Longrightarrow> g ws v \<Longrightarrow> g_list S g (us @ t # ws) (vs @ [v])"

abbreviation comma :: token where "comma \<equiv> Op (CHR '','')"
abbreviation dot :: token where "dot \<equiv> Op (CHR ''.'')"
abbreviation lpar :: token where "lpar \<equiv> Op (CHR ''('')"
abbreviation rpar :: token where "rpar \<equiv> Op (CHR '')'')"
abbreviation star :: token where "star \<equiv> Op (CHR ''*'')"
abbreviation equals :: token where "equals \<equiv> Op (CHR ''='')"
abbreviation semicolon :: token where "semicolon \<equiv> Op (CHR '';'')"

section \<open>Names, types and values\<close>

inductive g_name :: "token list \<Rightarrow> string \<Rightarrow> bool" where
  "g_name [IDENTIFIER s] s"

fun p_name :: "string parser" where
  "p_name (IDENTIFIER s # r) = Inr (s, r)"
| "p_name ts = Inl ts"

definition int_type :: "sv_type \<Rightarrow> type_len" where
  "int_type t = (if t = SV_TYPE_BIGINT then \<lparr>tl_type = SV_TYPE_BIGINT, tl_len = 8\<rparr> else \<lparr>tl_type = SV_TYPE_INT, tl_len = 4\<rparr>)"

definition float_type :: "sv_type \<Rightarrow> type_len" where
  "float_type t =
     (if t = SV_TYPE_DATETIME then \<lparr>tl_type = SV_TYPE_DATETIME, tl_len = 8\<rparr> else \<lparr>tl_type = SV_TYPE_FLOAT, tl_len = 4\<rparr>)"

definition char_type :: "int \<Rightarrow> type_len" where
  "char_type n = \<lparr>tl_type = SV_TYPE_STRING, tl_len = wrap32 n\<rparr>"

inductive g_type :: "token list \<Rightarrow> type_len \<Rightarrow> bool" where
  "g_type [INT_tok t] (int_type t)"
| "g_type [Kw K_CHAR, lpar, VALUE_INT n b, rpar] (char_type n)"
| "g_type [FLOAT_tok t] (float_type t)"

fun p_int :: "int parser" where
  "p_int (VALUE_INT n b # r) = Inr (n, r)"
| "p_int ts = Inl ts"

fun p_type :: "type_len parser" where
  "p_type (INT_tok t # r) = Inr (int_type t, r)"
| "p_type (FLOAT_tok t # r) = Inr (float_type t, r)"
| "p_type (Kw K_CHAR # r) = thenP lpar (bindP p_int (\<lambda>n. thenP rpar (retP (char_type n)))) r"
| "p_type ts = Inl ts"

inductive g_field :: "token list \<Rightarrow> ast_field \<Rightarrow> bool" where
  "g_name us c \<Longrightarrow> g_type ws t \<Longrightarrow> g_field (us @ ws) (ColDef c t)"

definition p_field :: "ast_field parser" where
  "p_field = bindP p_name (\<lambda>c. bindP p_type (\<lambda>t. retP (ColDef c t)))"

inductive g_value :: "token list \<Rightarrow> ast_value \<Rightarrow> bool" where
  "g_value [VALUE_INT i b] (IntLit i)"
| "g_value [VALUE_FLOAT x] (FloatLit x)"
| "g_value [VALUE_STRING s] (StringLit s)"

fun p_value :: "ast_value parser" where
  "p_value (VALUE_INT i b # r) = Inr (IntLit i, r)"
| "p_value (VALUE_FLOAT x # r) = Inr (FloatLit x, r)"
| "p_value (VALUE_STRING s # r) = Inr (StringLit s, r)"
| "p_value ts = Inl ts"

section \<open>Conditions\<close>

inductive g_col :: "token list \<Rightarrow> ast_col \<Rightarrow> bool" where
  "g_name us t \<Longrightarrow> g_name ws c \<Longrightarrow> g_col (us @ dot # ws) (Col t c)"
| "g_name us c \<Longrightarrow> g_col us (Col [] c)"

definition p_col :: "ast_col parser" where
  "p_col = bindP p_name (\<lambda>a r. if r \<noteq> [] \<and> hd r = dot then thenP dot (bindP p_name (\<lambda>c. retP (Col a c))) r else retP (Col [] a) r)"

inductive g_op :: "token list \<Rightarrow> sv_comp_op \<Rightarrow> bool" where
  "g_op [equals] SV_OP_EQ"
| "g_op [Op (CHR ''<'')] SV_OP_LT"
| "g_op [Op (CHR ''>'')] SV_OP_GT"
| "g_op [NEQ] SV_OP_NE"
| "g_op [LEQ] SV_OP_LE"
| "g_op [GEQ] SV_OP_GE"

fun p_op :: "sv_comp_op parser" where
  "p_op (Op c # r) =
     (if c = CHR ''='' then Inr (SV_OP_EQ, r)
      else if c = CHR ''<'' then Inr (SV_OP_LT, r)
      else if c = CHR ''>'' then Inr (SV_OP_GT, r)
      else Inl (Op c # r))"
| "p_op (NEQ # r) = Inr (SV_OP_NE, r)"
| "p_op (LEQ # r) = Inr (SV_OP_LE, r)"
| "p_op (GEQ # r) = Inr (SV_OP_GE, r)"
| "p_op ts = Inl ts"

inductive g_expr :: "token list \<Rightarrow> ast_expr \<Rightarrow> bool" where
  "g_value us v \<Longrightarrow> g_expr us (EValue v)"
| "g_col us c \<Longrightarrow> g_expr us (ECol c)"

fun is_identifier :: "token \<Rightarrow> bool" where
  "is_identifier (IDENTIFIER s) = True"
| "is_identifier t = False"

definition p_expr :: "ast_expr parser" where
  "p_expr ts = (if ts \<noteq> [] \<and> is_identifier (hd ts) then bindP p_col (\<lambda>c. retP (ECol c)) ts else bindP p_value (\<lambda>v. retP (EValue v)) ts)"

inductive g_condition :: "token list \<Rightarrow> binary_expr \<Rightarrow> bool" where
  "g_col us c \<Longrightarrow> g_op vs op \<Longrightarrow> g_expr ws e \<Longrightarrow> g_condition (us @ vs @ ws) \<lparr>be_lhs = c, be_op = op, be_rhs = e\<rparr>"

definition p_condition :: "binary_expr parser" where
  "p_condition = bindP p_col (\<lambda>c. bindP p_op (\<lambda>op. bindP p_expr (\<lambda>e. retP \<lparr>be_lhs = c, be_op = op, be_rhs = e\<rparr>)))"

inductive g_opt_where :: "token list \<Rightarrow> binary_expr list \<Rightarrow> bool" where
  "g_opt_where [] []"
| "g_list {Kw K_AND} g_condition us cs \<Longrightarrow> g_opt_where (Kw K_WHERE # us) cs"

definition p_opt_where :: "binary_expr list parser" where
  "p_opt_where ts =
     (if ts \<noteq> [] \<and> hd ts = Kw K_WHERE then thenP (Kw K_WHERE) (p_list {Kw K_AND} p_condition) ts else retP [] ts)"

inductive g_set_clause :: "token list \<Rightarrow> sv_set_clause \<Rightarrow> bool" where
  "g_name us c \<Longrightarrow> g_value ws v \<Longrightarrow> g_set_clause (us @ equals # ws) \<lparr>sv_col_name = c, sv_val = v\<rparr>"

definition p_set_clause :: "sv_set_clause parser" where
  "p_set_clause = bindP p_name (\<lambda>c. thenP equals (bindP p_value (\<lambda>v. retP \<lparr>sv_col_name = c, sv_val = v\<rparr>)))"

section \<open>Selected columns, tables, order and limit\<close>

text \<open>The alias behind an aggregate, and the three aggregates that always have a column.\<close>

definition agg_keyword :: "token \<Rightarrow> agg_func option" where
  "agg_keyword t =
     (if t = Kw K_COUNT then Some AGG_COUNT else if t = Kw K_MAX then Some AGG_MAX
      else if t = Kw K_MIN then Some AGG_MIN else if t = Kw K_SUM then Some AGG_SUM else None)"

inductive g_selector :: "token list \<Rightarrow> ast_col list \<Rightarrow> bool" where
  "g_selector [star] []"
| "g_name us a \<Longrightarrow> g_selector ([Kw K_COUNT, lpar, star, rpar, Kw K_AS] @ us) [AggFunc AGG_COUNT None a True]"
| "g_name us a \<Longrightarrow> g_selector ([Kw K_COUNT, lpar, rpar, Kw K_AS] @ us) [AggFunc AGG_COUNT None a True]"
| "g_col us c \<Longrightarrow> g_name ws a \<Longrightarrow>
     g_selector (Kw K_COUNT # lpar # us @ [rpar, Kw K_AS] @ ws) [AggFunc AGG_COUNT (Some c) a False]"
| "g_col us c \<Longrightarrow> g_name ws a \<Longrightarrow>
     g_selector (Kw K_MAX # lpar # us @ [rpar, Kw K_AS] @ ws) [AggFunc AGG_MAX (Some c) a False]"
| "g_col us c \<Longrightarrow> g_name ws a \<Longrightarrow>
     g_selector (Kw K_MIN # lpar # us @ [rpar, Kw K_AS] @ ws) [AggFunc AGG_MIN (Some c) a False]"
| "g_col us c \<Longrightarrow> g_name ws a \<Longrightarrow>
     g_selector (Kw K_SUM # lpar # us @ [rpar, Kw K_AS] @ ws) [AggFunc AGG_SUM (Some c) a False]"
| "g_list {comma} g_col us cs \<Longrightarrow> g_selector us cs"

definition p_alias :: "agg_func \<Rightarrow> ast_col option \<Rightarrow> bool \<Rightarrow> ast_col list parser" where
  "p_alias f c all = thenP rpar (thenP (Kw K_AS) (bindP p_name (\<lambda>a. retP [AggFunc f c a all])))"

definition p_agg :: "agg_func \<Rightarrow> ast_col list parser" where
  "p_agg f ts =
     (if f = AGG_COUNT \<and> ts \<noteq> [] \<and> hd ts = star then thenP star (p_alias f None True) ts
      else if f = AGG_COUNT \<and> ts \<noteq> [] \<and> hd ts = rpar then p_alias f None True ts
      else bindP p_col (\<lambda>c. p_alias f (Some c) False) ts)"

definition p_selector :: "ast_col list parser" where
  "p_selector ts =
     (if ts \<noteq> [] \<and> hd ts = star then thenP star (retP []) ts
      else case (case ts of [] \<Rightarrow> None | t # _ \<Rightarrow> agg_keyword t) of
             Some f \<Rightarrow> thenP lpar (p_agg f) (tl ts)
           | None \<Rightarrow> p_list {comma} p_col ts)"

inductive g_asc_desc :: "token list \<Rightarrow> order_by_dir \<Rightarrow> bool" where
  "g_asc_desc [Kw K_ASC] OrderBy_ASC"
| "g_asc_desc [Kw K_DESC] OrderBy_DESC"
| "g_asc_desc [] OrderBy_DEFAULT"

fun p_asc_desc :: "order_by_dir parser" where
  "p_asc_desc (Kw K_ASC # r) = Inr (OrderBy_ASC, r)"
| "p_asc_desc (Kw K_DESC # r) = Inr (OrderBy_DESC, r)"
| "p_asc_desc ts = Inr (OrderBy_DEFAULT, ts)"

inductive g_order_item :: "token list \<Rightarrow> order_by_item \<Rightarrow> bool" where
  "g_col us c \<Longrightarrow> g_asc_desc ws d \<Longrightarrow> g_order_item (us @ ws) \<lparr>ob_cols = c, ob_dir = d\<rparr>"

definition p_order_item :: "order_by_item parser" where
  "p_order_item = bindP p_col (\<lambda>c. bindP p_asc_desc (\<lambda>d. retP \<lparr>ob_cols = c, ob_dir = d\<rparr>))"

inductive g_opt_order :: "token list \<Rightarrow> order_by_item list option \<Rightarrow> bool" where
  "g_list {comma} g_order_item us os \<Longrightarrow> g_opt_order (Kw K_ORDER # Kw K_BY # us) (Some os)"
| "g_opt_order [] None"

definition p_opt_order :: "order_by_item list option parser" where
  "p_opt_order ts =
     (if ts \<noteq> [] \<and> hd ts = Kw K_ORDER
      then thenP (Kw K_ORDER) (thenP (Kw K_BY) (bindP (p_list {comma} p_order_item) (\<lambda>os. retP (Some os)))) ts
      else retP None ts)"

text \<open>The 64-bit number of the limit becomes an \<^verbatim>\<open>int\<close> when the statement is made.\<close>

inductive g_opt_limit :: "token list \<Rightarrow> int \<Rightarrow> bool" where
  "g_opt_limit [Kw K_LIMIT, VALUE_INT n b] n"
| "g_opt_limit [] (-1)"

definition p_opt_limit :: "int parser" where
  "p_opt_limit ts = (if ts \<noteq> [] \<and> hd ts = Kw K_LIMIT then thenP (Kw K_LIMIT) p_int ts else retP (-1) ts)"

section \<open>Statements\<close>

definition new_SelectStmt :: "ast_col list \<Rightarrow> string list \<Rightarrow> binary_expr list \<Rightarrow> order_by_item list option \<Rightarrow> int \<Rightarrow> tree_node" where
  "new_SelectStmt cs ts xs ord lim =
     SelectStmt \<lparr>sel_cols = cs, sel_tabs = ts, sel_conds = xs, sel_order = ord, sel_limit = wrap32 lim\<rparr>"

inductive g_stmt :: "token list \<Rightarrow> tree_node \<Rightarrow> bool" where
  "g_stmt [Kw K_TXN_BEGIN] TxnBegin"
| "g_stmt [Kw K_TXN_COMMIT] TxnCommit"
| "g_stmt [Kw K_TXN_ABORT] TxnAbort"
| "g_stmt [Kw K_TXN_ROLLBACK] TxnRollback"
| "g_stmt [Kw K_SHOW, Kw K_TABLES] ShowTables"
| "g_name us t \<Longrightarrow> g_stmt ([Kw K_SHOW, Kw K_INDEX, Kw K_FROM] @ us) (ShowIndex t)"
| "g_name us t \<Longrightarrow> g_list {comma} g_field ws xs \<Longrightarrow>
     g_stmt ([Kw K_CREATE, Kw K_TABLE] @ us @ lpar # ws @ [rpar]) (CreateTable t xs)"
| "g_name us t \<Longrightarrow> g_stmt ([Kw K_DROP, Kw K_TABLE] @ us) (DropTable t)"
| "g_name us t \<Longrightarrow> g_stmt (Kw K_DESC # us) (DescTable t)"
| "g_name us t \<Longrightarrow> g_list {comma} g_name ws cs \<Longrightarrow>
     g_stmt ([Kw K_CREATE, Kw K_INDEX] @ us @ lpar # ws @ [rpar]) (CreateIndex t cs)"
| "g_name us t \<Longrightarrow> g_list {comma} g_name ws cs \<Longrightarrow>
     g_stmt ([Kw K_DROP, Kw K_INDEX] @ us @ lpar # ws @ [rpar]) (DropIndex t cs)"
| "g_name us t \<Longrightarrow> g_list {comma} g_value ws vs \<Longrightarrow>
     g_stmt ([Kw K_INSERT, Kw K_INTO] @ us @ Kw K_VALUES # lpar # ws @ [rpar]) (InsertStmt t vs)"
| "g_name us t \<Longrightarrow> g_opt_where ws cs \<Longrightarrow> g_stmt ([Kw K_DELETE, Kw K_FROM] @ us @ ws) (DeleteStmt t cs)"
| "g_name us t \<Longrightarrow> g_list {comma} g_set_clause vs ss \<Longrightarrow> g_opt_where ws cs \<Longrightarrow>
     g_stmt (Kw K_UPDATE # us @ Kw K_SET # vs @ ws) (UpdateStmt t ss cs)"
| "g_selector us cs \<Longrightarrow> g_list {comma, Kw K_JOIN} g_name vs ts \<Longrightarrow> g_opt_where ws xs \<Longrightarrow> g_opt_order xo ord \<Longrightarrow> g_opt_limit xl lim \<Longrightarrow>
     g_stmt (Kw K_SELECT # us @ Kw K_FROM # vs @ ws @ xo @ xl) (new_SelectStmt cs ts xs ord lim)"

text \<open>A table name and, in parentheses, a list.\<close>

definition p_in_parens :: "'a parser \<Rightarrow> (string \<Rightarrow> 'a list \<Rightarrow> tree_node) \<Rightarrow> string \<Rightarrow> tree_node parser" where
  "p_in_parens p f t = thenP lpar (bindP (p_list {comma} p) (\<lambda>xs. thenP rpar (retP (f t xs))))"

definition p_select :: "tree_node parser" where
  "p_select =
     bindP p_selector (\<lambda>cs. thenP (Kw K_FROM)
       (bindP (p_list {comma, Kw K_JOIN} p_name) (\<lambda>ts.
          bindP p_opt_where (\<lambda>xs. bindP p_opt_order (\<lambda>ord. bindP p_opt_limit (\<lambda>lim. retP (new_SelectStmt cs ts xs ord lim)))))))"

text \<open>Words of two tokens: the second decides.\<close>

definition p_show :: "tree_node parser" where
  "p_show ts =
     (if ts \<noteq> [] \<and> hd ts = Kw K_INDEX then thenP (Kw K_INDEX) (thenP (Kw K_FROM) (bindP p_name (\<lambda>t. retP (ShowIndex t)))) ts
      else thenP (Kw K_TABLES) (retP ShowTables) ts)"

definition p_create :: "tree_node parser" where
  "p_create ts =
     (if ts \<noteq> [] \<and> hd ts = Kw K_INDEX then thenP (Kw K_INDEX) (bindP p_name (p_in_parens p_name CreateIndex)) ts
      else thenP (Kw K_TABLE) (bindP p_name (p_in_parens p_field CreateTable)) ts)"

definition p_drop :: "tree_node parser" where
  "p_drop ts =
     (if ts \<noteq> [] \<and> hd ts = Kw K_INDEX then thenP (Kw K_INDEX) (bindP p_name (p_in_parens p_name DropIndex)) ts
      else thenP (Kw K_TABLE) (bindP p_name (\<lambda>t. retP (DropTable t))) ts)"

definition p_insert :: "tree_node parser" where
  "p_insert = thenP (Kw K_INTO) (bindP p_name (\<lambda>t. thenP (Kw K_VALUES) (p_in_parens p_value InsertStmt t)))"

definition p_delete :: "tree_node parser" where
  "p_delete = thenP (Kw K_FROM) (bindP p_name (\<lambda>t. bindP p_opt_where (\<lambda>cs. retP (DeleteStmt t cs))))"

definition p_update :: "tree_node parser" where
  "p_update = bindP p_name (\<lambda>t. thenP (Kw K_SET)
     (bindP (p_list {comma} p_set_clause) (\<lambda>ss. bindP p_opt_where (\<lambda>cs. retP (UpdateStmt t ss cs)))))"

fun p_stmt :: "tree_node parser" where
  "p_stmt (Kw K_TXN_BEGIN # r) = retP TxnBegin r"
| "p_stmt (Kw K_TXN_COMMIT # r) = retP TxnCommit r"
| "p_stmt (Kw K_TXN_ABORT # r) = retP TxnAbort r"
| "p_stmt (Kw K_TXN_ROLLBACK # r) = retP TxnRollback r"
| "p_stmt (Kw K_SHOW # r) = p_show r"
| "p_stmt (Kw K_CREATE # r) = p_create r"
| "p_stmt (Kw K_DROP # r) = p_drop r"
| "p_stmt (Kw K_DESC # r) = bindP p_name (\<lambda>t. retP (DescTable t)) r"
| "p_stmt (Kw K_INSERT # r) = p_insert r"
| "p_stmt (Kw K_DELETE # r) = p_delete r"
| "p_stmt (Kw K_UPDATE # r) = p_update r"
| "p_stmt (Kw K_SELECT # r) = p_select r"
| "p_stmt ts = Inl ts"

inductive g_start :: "token list \<Rightarrow> tree_node option \<Rightarrow> bool" where
  "g_stmt us t \<Longrightarrow> g_start (us @ [semicolon]) (Some t)"
| "g_start [Kw K_HELP] (Some Help)"
| "g_start [Kw K_EXIT] None"
| "g_start [T_EOF b] None"

fun p_start :: "tree_node option parser" where
  "p_start (Kw K_HELP # r) = retP (Some Help) r"
| "p_start (Kw K_EXIT # r) = retP None r"
| "p_start (T_EOF b # r) = retP None r"
| "p_start ts = bindP p_stmt (\<lambda>t. thenP semicolon (retP (Some t))) ts"

section \<open>A request\<close>

text \<open>
  The tokens that were read, the one that does not fit included, decide whether an integer out of range was seen and
  in which start condition the scanner is left: it returns tokens in \<^verbatim>\<open>INITIAL\<close> only, except for the end of the text.
\<close>

datatype parse_result = ParseError | IntegerOutOfRange | Parsed "tree_node option"

fun out_of_range :: "token \<Rightarrow> bool" where
  "out_of_range (VALUE_INT i b) = b"
| "out_of_range t = False"

fun open_comment :: "token \<Rightarrow> bool" where
  "open_comment (T_EOF b) = b"
| "open_comment t = False"

definition yyparse :: "bool \<Rightarrow> string \<Rightarrow> parse_result \<times> bool" where
  "yyparse start_cond text =
     (let ts = scan start_cond text;
          (res, seen) = (case p_start ts of
                           Inl r \<Rightarrow> (ParseError, take (Suc (length ts - length r)) ts)
                         | Inr (t, r) \<Rightarrow> (Parsed t, take (length ts - length r) ts))
      in (if list_ex out_of_range seen then IntegerOutOfRange else res, list_ex open_comment seen))"

end
