(* ===== verification/Session.thy ===== *)
theory Session
  imports Portal Parser Recovery
begin

text \<open>
  The server, \<^verbatim>\<open>rmdb.cpp\<close>: its start, and a client thread, which takes requests from their text to the reply and
  the end of their transaction. \<open>parsed\<close> is what the parser made of a request. \<open>lib\<close>
  gives the texts of the C++ library: \<^verbatim>\<open>strerror\<close> for a failed system call and \<^verbatim>\<open>what()\<close> of
  \<^verbatim>\<open>std::out_of_range\<close>. \<open>sent\<close> says whether the reply could be written to the socket.
\<close>

section \<open>The transaction of a request\<close>

definition SetTransaction :: "nat \<Rightarrow> int \<Rightarrow> ctx \<times> 'r sys \<Rightarrow> (int, ctx \<times> 'r sys) res" where
  "SetTransaction thr tid st =
     (case st of (cx, s) \<Rightarrow>
        case get_transaction thr tid s of
          Inl e \<Rightarrow> Throw e st
        | Inr x \<Rightarrow>
            let fresh = (case txn_begin thr None True s of
                           (Inl e, s1) \<Rightarrow> Throw e (cx\<lparr>cx_txn := x\<rparr>, s1)
                         | (Inr t, s1) \<Rightarrow> Ret t (cx\<lparr>cx_txn := Some t\<rparr>, txn_update t (\<lambda>y. y\<lparr>txn_mode := False\<rparr>) s1))
            in case Option.bind x (txn_map s) of
                 None \<Rightarrow> fresh
               | Some y \<Rightarrow> if txn_state y = COMMITTED \<or> txn_state y = ABORTED then fresh else Ret tid (cx\<lparr>cx_txn := x\<rparr>, s))"

section \<open>Analysing, planning, running\<close>

definition run_statement :: "nat \<Rightarrow> sorter \<Rightarrow> 'r replacer_ops \<Rightarrow> nat \<Rightarrow> int \<Rightarrow> int \<Rightarrow> tree_node \<Rightarrow> ctx \<times> 'r sys \<Rightarrow>
  (unit, ctx \<times> 'r sys) res" where
  "run_statement k srt R thr tid t tree st =
     (case st of (cx, s) \<Rightarrow>
        case andthen (do_analyze (sm_db s) tree) (plan_query (sm_db s)) of
          Inl e \<Rightarrow> Throw e st
        | Inr p \<Rightarrow> seqE (beside (portal_start k srt R p t) st) (\<lambda>po st1. portal_run k srt R thr tid t po st1))"

text \<open>
  The handlers of \<^verbatim>\<open>client_handler\<close>. A deadlock victim is rolled back. The message of an \<^verbatim>\<open>RMDBError\<close> is copied
  without a look at the size of the buffer, that of another exception is cut. A failed assertion, a null
  pointer or an endless loop is not caught.
\<close>

definition handle_error :: "(rmdb_error \<Rightarrow> string) \<Rightarrow> 'r replacer_ops \<Rightarrow> rmdb_error \<Rightarrow> ctx \<times> 'r sys \<Rightarrow> (unit, ctx \<times> 'r sys) res" where
  "handle_error lib R e st =
     (case st of (cx, s) \<Rightarrow>
        case e of
          TransactionAbort _ _ \<Rightarrow>
            seqE (beside (txn_abort R (cx_txn cx) True) (cx\<lparr>cx_out := ''abort'' @ nl\<rparr>, s))
              (\<lambda>_ (cx1, s1). Ret () (to_file (''abort'' @ nl) cx1, s1))
        | _ \<Rightarrow>
            (case rmdb_what (lib UnixError) e of
               Some msg \<Rightarrow> Ret () (to_file (''failure'' @ nl) (cx\<lparr>cx_out := msg @ nl\<rparr>), s)
             | None \<Rightarrow>
                 if e = OutOfRange
                 then Ret () (to_file (''failure'' @ nl) (cx\<lparr>cx_out := take (BUFFER_LENGTH - 2) (''Error: '' @ lib e) @ nl\<rparr>), s)
                 else Throw e st))"

section \<open>One request\<close>

definition parse_failure :: "string \<Rightarrow> ctx \<Rightarrow> ctx" where
  "parse_failure msg cx = to_file (''failure'' @ nl) (cx\<lparr>cx_out := take (BUFFER_LENGTH - 2) msg @ nl\<rparr>)"

definition serve :: "nat \<Rightarrow> sorter \<Rightarrow> (rmdb_error \<Rightarrow> string) \<Rightarrow> 'r replacer_ops \<Rightarrow> nat \<Rightarrow> int \<Rightarrow> parse_result \<Rightarrow> ctx \<times> 'r sys \<Rightarrow>
  (unit, ctx \<times> 'r sys) res" where
  "serve k srt lib R thr tid parsed st =
     (case st of (cx, s) \<Rightarrow>
        case parsed of
          ParseError \<Rightarrow> Ret () (parse_failure ''Error: parse error'' cx, s)
        | IntegerOutOfRange \<Rightarrow> Ret () (parse_failure ''Error: integer literal out of range'' cx, s)
        | Parsed None \<Rightarrow> Ret () st
        | Parsed (Some tree) \<Rightarrow>
            (case cx_txn cx of
               None \<Rightarrow> Throw NullDereference st
             | Some t \<Rightarrow>
                 (case run_statement k srt R thr tid t tree st of
                    (Inr _, st1) \<Rightarrow> Ret () st1
                  | (Inl e, st1) \<Rightarrow> handle_error lib R e st1)))"

text \<open>A statement outside an explicit transaction is committed when its reply is out, whatever became of it.\<close>

definition auto_commit :: "ctx \<times> 'r sys \<Rightarrow> (unit, ctx \<times> 'r sys) res" where
  "auto_commit st =
     (case st of (cx, s) \<Rightarrow>
        case Option.bind (cx_txn cx) (txn_map s) of
          None \<Rightarrow> Throw NullDereference st
        | Some x \<Rightarrow> if txn_mode x then Ret () st else beside (txn_commit (cx_txn cx) True) st)"

definition new_ctx :: "string \<Rightarrow> ctx" where
  "new_ctx file = \<lparr>cx_txn = None, cx_out = [], cx_ellipsis = False, cx_file = file\<rparr>"

text \<open>The result: the transaction number the thread keeps, and whether it goes on.\<close>

definition client_request :: "nat \<Rightarrow> sorter \<Rightarrow> (rmdb_error \<Rightarrow> string) \<Rightarrow> 'r replacer_ops \<Rightarrow> nat \<Rightarrow> int \<Rightarrow> string \<Rightarrow> parse_result \<Rightarrow>
  bool \<Rightarrow> 'r sys \<Rightarrow> (int \<times> bool, ctx \<times> 'r sys) res" where
  "client_request k srt lib R thr tid file parsed sent s =
     seqE (SetTransaction thr tid (new_ctx file, s))
       (\<lambda>tid1 st1. seqE (serve k srt lib R thr tid1 parsed st1)
          (\<lambda>_ st2. if \<not> sent then Ret (tid1, False) st2 else seqE (auto_commit st2) (\<lambda>_ st3. Ret (tid1, True) st3)))"

section \<open>The loop of a client thread\<close>

text \<open>
  What \<^verbatim>\<open>read\<close> gave: nothing, because the client has closed, an error, or bytes. The buffer is cleared before, so a
  shorter request ends with a zero; one that fills the buffer is read on into \<open>beyond\<close>, what lies behind it in memory.
\<close>

datatype received = Closed | ReadFailed | Received string

definition c_str :: "string \<Rightarrow> string" where
  "c_str mem = takeWhile (\<lambda>c. c \<noteq> CHR 0x00) mem"

definition request_text :: "string \<Rightarrow> string \<Rightarrow> string" where
  "request_text beyond d = c_str (d @ (if length d < BUFFER_LENGTH then [CHR 0x00] else beyond))"

text \<open>
  How the thread stands: it waits for a request, it has left, it has asked the server to stop, it has
  ended the process at once, or an error nobody catches has.
\<close>

datatype thread_end = Waiting | Left | SafeExit | Crashed | Died rmdb_error

text \<open>
  State of the loop: the number of the transaction, the start condition of the scanner, which all threads
  share, the text of \<^verbatim>\<open>output.txt\<close> and the system. The result has the replies that were sent.
\<close>

type_synonym 'r thread_st = "int \<times> bool \<times> string \<times> 'r sys"

definition handle_text :: "nat \<Rightarrow> sorter \<Rightarrow> (rmdb_error \<Rightarrow> string) \<Rightarrow> 'r replacer_ops \<Rightarrow> nat \<Rightarrow> string \<Rightarrow> bool \<Rightarrow> 'r thread_st \<Rightarrow>
  (bool \<times> string, 'r thread_st) res" where
  "handle_text k srt lib R thr text sent st =
     (case st of (tid, start_cond, file, s) \<Rightarrow>
        case yyparse start_cond text of (parsed, start_cond') \<Rightarrow>
          (case client_request k srt lib R thr tid file parsed sent s of
             (Inl e, (cx, s1)) \<Rightarrow> Throw e (tid, start_cond', cx_file cx, s1)
           | (Inr (tid1, go), (cx, s1)) \<Rightarrow> Ret (go, cx_out cx) (tid1, start_cond', cx_file cx, s1)))"

fun client_handler :: "nat \<Rightarrow> sorter \<Rightarrow> (rmdb_error \<Rightarrow> string) \<Rightarrow> 'r replacer_ops \<Rightarrow> nat \<Rightarrow> string \<Rightarrow> (received \<times> bool) list \<Rightarrow>
  'r thread_st \<Rightarrow> thread_end \<times> string list \<times> 'r thread_st" where
  "client_handler k srt lib R thr beyond [] st = (Waiting, [], st)"
| "client_handler k srt lib R thr beyond ((Closed, sent) # ms) st = (Left, [], st)"
| "client_handler k srt lib R thr beyond ((ReadFailed, sent) # ms) st = (Left, [], st)"
| "client_handler k srt lib R thr beyond ((Received d, sent) # ms) st =
     (let text = request_text beyond d in
      if text = ''exit'' then (Left, [], st)
      else if text = ''safe_exit'' then (SafeExit, [], st)
      else if text = ''crash'' then (Crashed, [], st)
      else case handle_text k srt lib R thr text sent st of
             (Inl e, st1) \<Rightarrow> (Died e, [], st1)
           | (Inr (go, reply), st1) \<Rightarrow>
               if \<not> go then (Left, [], st1)
               else (case client_handler k srt lib R thr beyond ms st1 of (z, out, st2) \<Rightarrow> (z, reply # out, st2)))"

section \<open>Starting and stopping the server\<close>

definition start_db :: "'r replacer_ops \<Rightarrow> string \<Rightarrow> 'r sys \<Rightarrow> (unit, 'r sys) res" where
  "start_db R db s =
     seqE (if is_dir db s then Ret () s else create_db db s)
       (\<lambda>_ s1. seqE (open_db db s1)
          (\<lambda>_ s2. seqE (on_pool (on_disk analyze) s2)
             (\<lambda>rc s3. seqE (redo R rc s3) (\<lambda>_ s4. undo R rc s4))))"

text \<open>The handler of \<^verbatim>\<open>SIGINT\<close>, after which the server leaves its loop and closes the database.\<close>

definition sigint_handler :: "'r sys \<Rightarrow> (unit, 'r sys) res" where
  "sigint_handler s = on_log flush_log_to_disk s"

end
