(* ===== verification/Planner_Props.thy ===== *)
theory Planner_Props
  imports Planner "HOL-Library.Multiset"
begin

text \<open>
  The planner loses nothing: the join tree of \<^verbatim>\<open>make_one_rel\<close> scans every table of the query once and applies
  every condition once, each at a place where both of its sides can be seen.
\<close>

section \<open>What a join tree scans and applies\<close>

fun leaves :: "plan \<Rightarrow> plan list" where
  "leaves (ScanPlan tag x) = [ScanPlan tag x]"
| "leaves (JoinPlan l r cs) = leaves l @ leaves r"
| "leaves _ = []"

definition plan_tables :: "plan \<Rightarrow> string list" where
  "plan_tables p = map scan_table (leaves p)"

fun join_conds :: "plan \<Rightarrow> condition list" where
  "join_conds (JoinPlan l r cs) = join_conds l @ join_conds r @ cs"
| "join_conds _ = []"

fun placed :: "plan \<Rightarrow> bool" where
  "placed (ScanPlan tag x) \<longleftrightarrow> True"
| "placed (JoinPlan l r cs) \<longleftrightarrow> placed l \<and> placed r \<and>
     (\<forall>c \<in> set cs. \<not> is_rhs_val c \<and> tab_name (lhs_col c) \<in> set (plan_tables l) \<and> tab_name (rhs_col c) \<in> set (plan_tables r))"
| "placed _ \<longleftrightarrow> False"

text \<open>A condition may be turned around on its way; \<open>sides\<close> forgets which way round the conditions are.\<close>

definition both :: "condition \<Rightarrow> condition set" where
  "both c = {c, swap_cond c}"

definition sides :: "condition list \<Rightarrow> condition set multiset" where
  "sides cs = image_mset both (mset cs)"

lemma swap_swap [simp]: "swap_cond (swap_cond c) = c"
  by (cases "cond_op c") (simp_all add: swap_cond_def)

lemma swap_sel [simp]:
  "lhs_col (swap_cond c) = rhs_col c" "rhs_col (swap_cond c) = lhs_col c" "is_rhs_val (swap_cond c) = is_rhs_val c"
  by (simp_all add: swap_cond_def)

lemma both_swap [simp]: "both (swap_cond c) = both c"
  by (auto simp: both_def)

lemma sides_simps [simp]:
  "sides [] = {#}" "sides (c # cs) = add_mset (both c) (sides cs)" "sides (cs @ ds) = sides cs + sides ds"
  by (simp_all add: sides_def)

lemma plan_tables_simps [simp]:
  "plan_tables (ScanPlan tag x) = [sp_tab_name x]" "plan_tables (JoinPlan l r cs) = plan_tables l @ plan_tables r"
  by (simp_all add: plan_tables_def)

section \<open>Pushing a condition down\<close>

definition sees :: "condition \<Rightarrow> plan \<Rightarrow> int" where
  "sees c p =
     (if tab_name (lhs_col c) \<in> set (plan_tables p) then if tab_name (rhs_col c) \<in> set (plan_tables p) then 3 else 1
      else if tab_name (rhs_col c) \<in> set (plan_tables p) then 2 else 0)"

lemma push_conds_result:
  assumes "tab_name (lhs_col c) \<noteq> tab_name (rhs_col c)" and "\<not> is_rhs_val c" and "placed p" and "distinct (plan_tables p)"
  shows "fst (push_conds c p) = sees c p \<and> leaves (snd (push_conds c p)) = leaves p \<and> placed (snd (push_conds c p)) \<and>
    sides (join_conds (snd (push_conds c p))) =
      (if sees c p = 3 then add_mset (both c) (sides (join_conds p)) else sides (join_conds p))"
  using assms(3,4)
proof (induction p)
  case (ScanPlan tag x)
  then show ?case using assms(1) by (auto simp: sees_def)
next
  case (JoinPlan l r conds)
  have l: "placed l" "distinct (plan_tables l)" and r: "placed r" "distinct (plan_tables r)"
    and d: "set (plan_tables l) \<inter> set (plan_tables r) = {}" using JoinPlan.prems by auto
  obtain l' where pl: "push_conds c l = (sees c l, l')" using JoinPlan.IH(1) [OF l] by (cases "push_conds c l") simp
  obtain r' where pr: "push_conds c r = (sees c r, r')" using JoinPlan.IH(2) [OF r] by (cases "push_conds c r") simp
  have L: "leaves l' = leaves l" "placed l'" "plan_tables l' = plan_tables l"
    "sides (join_conds l') = (if sees c l = 3 then add_mset (both c) (sides (join_conds l)) else sides (join_conds l))"
    using JoinPlan.IH(1) [OF l] pl by (simp_all add: plan_tables_def)
  have R: "leaves r' = leaves r" "placed r'" "plan_tables r' = plan_tables r"
    "sides (join_conds r') = (if sees c r = 3 then add_mset (both c) (sides (join_conds r)) else sides (join_conds r))"
    using JoinPlan.IH(2) [OF r] pr by (simp_all add: plan_tables_def)
  have c: "\<forall>x \<in> set conds. \<not> is_rhs_val x \<and> tab_name (lhs_col x) \<in> set (plan_tables l) \<and> tab_name (rhs_col x) \<in> set (plan_tables r)"
    using JoinPlan.prems by simp
  have cases: "tab_name (lhs_col c) \<in> set (plan_tables l) \<Longrightarrow> tab_name (lhs_col c) \<notin> set (plan_tables r)"
    "tab_name (rhs_col c) \<in> set (plan_tables l) \<Longrightarrow> tab_name (rhs_col c) \<notin> set (plan_tables r)" using d by auto
  show ?case
    using L R l(1) r(1) c cases assms(2) pl pr
    by (cases "tab_name (lhs_col c) \<in> set (plan_tables l)"; cases "tab_name (rhs_col c) \<in> set (plan_tables l)";
        cases "tab_name (lhs_col c) \<in> set (plan_tables r)"; cases "tab_name (rhs_col c) \<in> set (plan_tables r)")
      (simp_all add: sees_def)
qed simp_all

section \<open>Taking scans out of the list\<close>

definition all_scans :: "plan list \<Rightarrow> bool" where
  "all_scans scans \<longleftrightarrow> (\<forall>p \<in> set scans. \<exists>tag x. p = ScanPlan tag x) \<and> distinct (map scan_table scans) \<and> [] \<notin> scan_table ` set scans"

definition marked :: "plan list \<Rightarrow> int list \<Rightarrow> plan list" where
  "marked scans marks = map fst (filter (\<lambda>(p, m). m \<noteq> -1) (zip scans marks))"

lemma marked_simps [simp]:
  "marked [] ms = []" "marked ps [] = []" "marked (p # ps) (m # ms) = (if m = -1 then marked ps ms else p # marked ps ms)"
  by (simp_all add: marked_def)

lemma marked_none [simp]: "marked scans (replicate n (- 1)) = []"
proof (induction scans arbitrary: n)
  case (Cons p ps)
  then show ?case by (cases n) simp_all
qed simp

lemma marked_update:
  "i < length scans \<Longrightarrow> length marks = length scans \<Longrightarrow> scans ! i \<notin> set (marked scans marks) \<Longrightarrow>
     mset (marked scans (marks[i := 1])) = add_mset (scans ! i) (mset (marked scans marks))"
proof (induction scans arbitrary: marks i)
  case (Cons p ps)
  then obtain m ms where "marks = m # ms" by (cases marks) auto
  with Cons show ?case by (cases i) (auto split: if_splits)
qed simp

lemma scan_pos_Some: "t \<in> scan_table ` set scans \<Longrightarrow> \<exists>i. scan_pos t scans = Some i \<and> i < length scans \<and> scan_table (scans ! i) = t"
  by (induction scans) auto

text \<open>What holds of the join tree built so far from the conditions \<open>cs\<close>.\<close>

definition join_inv :: "plan list \<Rightarrow> condition list \<Rightarrow> plan \<times> join_marks \<Rightarrow> bool" where
  "join_inv scans cs acc \<longleftrightarrow>
     (case acc of (tree, (marks, joined)) \<Rightarrow>
        placed tree \<and> length marks = length scans \<and> mset (leaves tree) = mset (marked scans marks) \<and>
        (\<forall>t. t \<noteq> [] \<longrightarrow> (t \<in> set joined \<longleftrightarrow> t \<in> set (plan_tables tree))) \<and>
        sides (join_conds tree) = sides cs)"

text \<open>The list of marks while scans are taken out for new tables.\<close>

definition marks_ok :: "plan list \<Rightarrow> plan list \<Rightarrow> join_marks \<Rightarrow> bool" where
  "marks_ok scans out st \<longleftrightarrow> length (fst st) = length scans \<and> mset (marked scans (fst st)) = mset out \<and>
     (\<forall>t. t \<noteq> [] \<longrightarrow> (t \<in> set (snd st) \<longleftrightarrow> t \<in> scan_table ` set out))"

lemma join_inv_marks:
  "join_inv scans cs (tree, st) \<longleftrightarrow> placed tree \<and> marks_ok scans (leaves tree) st \<and> sides (join_conds tree) = sides cs"
  by (cases st) (auto simp: join_inv_def marks_ok_def plan_tables_def)

lemma pop_scan_new:
  assumes "marks_ok scans out st" and "t \<in> scan_table ` set scans" and "t \<notin> scan_table ` set out" and "all_scans scans"
  shows "\<exists>tag x st'. pop_scan scans t st = (ScanPlan tag x, st') \<and> sp_tab_name x = t \<and> ScanPlan tag x \<in> set scans \<and>
    marks_ok scans (ScanPlan tag x # out) st'"
proof -
  from scan_pos_Some [OF assms(2)] obtain i where i: "scan_pos t scans = Some i" "i < length scans" "scan_table (scans ! i) = t"
    by auto
  obtain tag x where x: "scans ! i = ScanPlan tag x" using assms(4) nth_mem [OF i(2)] unfolding all_scans_def by blast
  obtain marks joined where st: "st = (marks, joined)" by (cases st)
  have "scans ! i \<notin> set (marked scans marks)"
    using assms(1,3) i(3) st mset_eq_setD by (fastforce simp: marks_ok_def)
  from marked_update [OF i(2) _ this] assms(1) st
  have "mset (marked scans (marks[i := 1])) = add_mset (scans ! i) (mset out)" by (simp add: marks_ok_def)
  then have "marks_ok scans (ScanPlan tag x # out) (marks[i := 1], joined @ [t])"
    using assms(1) st x i(3) by (auto simp: marks_ok_def)
  then show ?thesis using i x st nth_mem [OF i(2)] by (auto simp: pop_scan_def)
qed

text \<open>A table that is not in the tree yet is scanned; one that is needs nothing.\<close>

lemma need_scan_result:
  assumes "marks_ok scans out st" and "t \<in> scan_table ` set scans" and "all_scans scans"
  shows "(t \<in> scan_table ` set out \<and> need_scan scans t st = (NullPlan, st) \<and> t \<in> set (snd st)) \<or>
    (t \<notin> scan_table ` set out \<and> t \<notin> set (snd st) \<and> (\<exists>tag x st'. need_scan scans t st = (ScanPlan tag x, st') \<and>
       sp_tab_name x = t \<and> marks_ok scans (ScanPlan tag x # out) st'))"
proof -
  have "t \<noteq> []" using assms(2,3) unfolding all_scans_def by blast
  with assms(1) have "t \<in> set (snd st) \<longleftrightarrow> t \<in> scan_table ` set out" by (simp add: marks_ok_def)
  with pop_scan_new [OF assms(1,2) _ assms(3)] show ?thesis by (auto simp: need_scan_def)
qed

section \<open>Growing the join tree\<close>

lemma marked_subset: "set (marked scans marks) \<subseteq> set scans"
  by (auto simp: marked_def dest: set_zip_leftD)

lemma distinct_marked: "distinct (map scan_table scans) \<Longrightarrow> distinct (map scan_table (marked scans marks))"
proof (induction scans arbitrary: marks)
  case (Cons p ps)
  then show ?case using marked_subset [of ps] by (cases marks) auto
qed simp

lemma marks_ok_distinct:
  assumes "marks_ok scans out st" and "all_scans scans"
  shows "distinct (map scan_table out)"
proof -
  have "mset (map scan_table out) = mset (map scan_table (marked scans (fst st)))"
    using assms(1) by (simp add: marks_ok_def)
  with distinct_marked assms(2) mset_eq_imp_distinct_iff show ?thesis unfolding all_scans_def by metis
qed

lemma marks_ok_perm: "marks_ok scans out st \<Longrightarrow> mset out' = mset out \<Longrightarrow> marks_ok scans out' st"
  unfolding marks_ok_def using mset_eq_setD [of out' out] by simp

definition joins :: "plan list \<Rightarrow> condition \<Rightarrow> bool" where
  "joins scans c \<longleftrightarrow> \<not> is_rhs_val c \<and> tab_name (lhs_col c) \<noteq> tab_name (rhs_col c) \<and>
     tab_name (lhs_col c) \<in> scan_table ` set scans \<and> tab_name (rhs_col c) \<in> scan_table ` set scans"

lemma first_join_inv:
  assumes "all_scans scans" and "joins scans c"
  shows "join_inv scans [c] (first_join scans c (replicate (length scans) (-1), replicate (length scans) []))"
proof -
  let ?st = "(replicate (length scans) (-1), replicate (length scans) [])"
  have "marks_ok scans [] ?st" by (auto simp: marks_ok_def)
  from pop_scan_new [OF this _ _ assms(1), of "tab_name (lhs_col c)"] assms(2) obtain tag x st1 where
    x: "pop_scan scans (tab_name (lhs_col c)) ?st = (ScanPlan tag x, st1)" "sp_tab_name x = tab_name (lhs_col c)"
    "marks_ok scans [ScanPlan tag x] st1" by (auto simp: joins_def)
  from pop_scan_new [OF x(3) _ _ assms(1), of "tab_name (rhs_col c)"] assms(2) x(2) obtain tag' y st2 where
    y: "pop_scan scans (tab_name (rhs_col c)) st1 = (ScanPlan tag' y, st2)" "sp_tab_name y = tab_name (rhs_col c)"
    "marks_ok scans [ScanPlan tag' y, ScanPlan tag x] st2" by (auto simp: joins_def)
  have "marks_ok scans [ScanPlan tag x, ScanPlan tag' y] st2" by (rule marks_ok_perm [OF y(3)]) simp
  with x y assms(2) show ?thesis by (simp add: first_join_def join_inv_marks joins_def)
qed

lemma next_join_old:
  assumes "all_scans scans" and "joins scans c" and "join_inv scans cs (tree, st)"
    and "tab_name (lhs_col c) \<in> set (plan_tables tree)" and "need_scan scans (tab_name (lhs_col c)) st = (NullPlan, st)"
  shows "join_inv scans (cs @ [c]) (next_join scans (tree, st) c)"
proof -
  from assms(3) have t: "placed tree" "marks_ok scans (leaves tree) st" "sides (join_conds tree) = sides cs"
    by (simp_all add: join_inv_marks)
  have c: "tab_name (lhs_col c) \<noteq> tab_name (rhs_col c)" "\<not> is_rhs_val c" "tab_name (rhs_col c) \<in> scan_table ` set scans"
    using assms(2) by (simp_all add: joins_def)
  from need_scan_result [OF t(2) c(3) assms(1)] consider
    (seen) "tab_name (rhs_col c) \<in> set (plan_tables tree)" "need_scan scans (tab_name (rhs_col c)) st = (NullPlan, st)"
  | (fresh) tag y st' where "tab_name (rhs_col c) \<notin> set (snd st)"
      "need_scan scans (tab_name (rhs_col c)) st = (ScanPlan tag y, st')" "sp_tab_name y = tab_name (rhs_col c)"
      "marks_ok scans (ScanPlan tag y # leaves tree) st'" by (auto simp: plan_tables_def)
  then show ?thesis
  proof cases
    case seen
    have d: "distinct (plan_tables tree)" using marks_ok_distinct [OF t(2) assms(1)] by (simp add: plan_tables_def)
    have "next_join scans (tree, st) c = (snd (push_conds c tree), st)" using assms(5) seen(2) by (simp add: next_join_def)
    with push_conds_result [OF c(1,2) t(1) d] t assms(4) seen(1) show ?thesis by (simp add: join_inv_marks sees_def)
  next
    case fresh
    then have "next_join scans (tree, st) c = (JoinPlan (ScanPlan tag y) tree [swap_cond c], st')"
      using assms(5) by (simp add: next_join_def)
    with fresh t assms(4) c(2) show ?thesis by (simp add: join_inv_marks)
  qed
qed

lemma next_join_new:
  assumes "all_scans scans" and "joins scans c" and "join_inv scans cs (tree, st)"
    and "need_scan scans (tab_name (lhs_col c)) st = (ScanPlan tag x, st')" and "sp_tab_name x = tab_name (lhs_col c)"
    and "marks_ok scans (ScanPlan tag x # leaves tree) st'"
  shows "join_inv scans (cs @ [c]) (next_join scans (tree, st) c)"
proof -
  from assms(3) have t: "placed tree" "sides (join_conds tree) = sides cs" by (simp_all add: join_inv_marks)
  have c: "tab_name (lhs_col c) \<noteq> tab_name (rhs_col c)" "\<not> is_rhs_val c" "tab_name (rhs_col c) \<in> scan_table ` set scans"
    using assms(2) by (simp_all add: joins_def)
  from need_scan_result [OF assms(6) c(3) assms(1)] consider
    (seen) "tab_name (rhs_col c) \<in> set (plan_tables tree)" "need_scan scans (tab_name (rhs_col c)) st' = (NullPlan, st')"
      "tab_name (rhs_col c) \<in> set (snd st')"
  | (fresh) tag' y st2 where "need_scan scans (tab_name (rhs_col c)) st' = (ScanPlan tag' y, st2)"
      "sp_tab_name y = tab_name (rhs_col c)" "marks_ok scans (ScanPlan tag' y # ScanPlan tag x # leaves tree) st2"
    using assms(5) c(1) by (auto simp: plan_tables_def)
  then show ?thesis
  proof cases
    case seen
    then have "next_join scans (tree, st) c = (JoinPlan (ScanPlan tag x) tree [c], st')" using assms(4) by (simp add: next_join_def)
    with assms(5,6) t seen(1) c(2) show ?thesis by (simp add: join_inv_marks)
  next
    case fresh
    then have "next_join scans (tree, st) c = (JoinPlan (JoinPlan (ScanPlan tag x) (ScanPlan tag' y) [c]) tree [], st2)"
      using assms(4) by (simp add: next_join_def)
    moreover have "marks_ok scans (ScanPlan tag x # ScanPlan tag' y # leaves tree) st2" by (rule marks_ok_perm [OF fresh(3)]) simp
    ultimately show ?thesis using assms(5) fresh(2) t c(2) by (simp add: join_inv_marks)
  qed
qed

lemma next_join_inv:
  assumes "all_scans scans" and "joins scans c" and "join_inv scans cs acc"
  shows "join_inv scans (cs @ [c]) (next_join scans acc c)"
proof -
  obtain tree st where acc: "acc = (tree, st)" by (cases acc)
  with assms(3) have inv: "join_inv scans cs (tree, st)" by simp
  then have "marks_ok scans (leaves tree) st" by (simp add: join_inv_marks)
  from need_scan_result [OF this _ assms(1), of "tab_name (lhs_col c)"] assms(2)
  have "(tab_name (lhs_col c) \<in> set (plan_tables tree) \<and> need_scan scans (tab_name (lhs_col c)) st = (NullPlan, st)) \<or>
      (\<exists>tag x st'. need_scan scans (tab_name (lhs_col c)) st = (ScanPlan tag x, st') \<and> sp_tab_name x = tab_name (lhs_col c) \<and>
         marks_ok scans (ScanPlan tag x # leaves tree) st')" by (simp add: joins_def plan_tables_def) blast
  then show ?thesis unfolding acc using next_join_old [OF assms(1,2) inv] next_join_new [OF assms(1,2) inv] by blast
qed

lemma next_joins_inv:
  "all_scans scans \<Longrightarrow> \<forall>c \<in> set cs. joins scans c \<Longrightarrow> join_inv scans ds acc \<Longrightarrow>
     join_inv scans (ds @ cs) (foldl (next_join scans) acc cs)"
proof (induction cs arbitrary: ds acc)
  case (Cons c cs)
  then show ?case using Cons.IH [of "ds @ [c]" "next_join scans acc c"] next_join_inv [of scans c ds acc] by simp
qed simp

section \<open>The remaining tables\<close>

lemma join_rest_result:
  assumes "\<forall>p \<in> set scans. \<exists>tag x. p = ScanPlan tag x" and "length marks = length scans" and "placed tree"
  shows "placed (join_rest scans marks tree) \<and> join_conds (join_rest scans marks tree) = join_conds tree \<and>
    mset (leaves (join_rest scans marks tree)) + mset (marked scans marks) = mset (leaves tree) + mset scans"
  using assms
proof (induction scans marks tree rule: join_rest.induct)
  case (1 p ps m ms tree)
  then obtain tag x where "p = ScanPlan tag x" by auto
  with 1 show ?case by auto
qed auto

text \<open>The join of all scans: every scan is a leaf, every condition is at a join.\<close>

lemma join_scans_result:
  assumes "all_scans scans" and "scans \<noteq> []" and "\<forall>c \<in> set cs. joins scans c"
  shows "\<exists>p. join_scans scans cs = Inr p \<and> placed p \<and> mset (leaves p) = mset scans \<and> sides (join_conds p) = sides cs"
proof (cases cs)
  case Nil
  obtain tag x ps where sc: "scans = ScanPlan tag x # ps" using assms(1,2) by (cases scans) (auto simp: all_scans_def)
  then have a: "\<forall>p \<in> set scans. \<exists>tag x. p = ScanPlan tag x" using assms(1) by (simp add: all_scans_def)
  from join_rest_result [OF a, of "(replicate (length scans) (-1))[0 := 1]" "hd scans"] sc Nil show ?thesis
    by (auto simp: join_scans_def)
next
  case (Cons c ds)
  obtain tree marks joined where f: "foldl (next_join scans) (first_join scans c (replicate (length scans) (-1), replicate (length scans) [])) ds =
      (tree, (marks, joined))" by (metis prod_cases3)
  have "join_inv scans cs (tree, (marks, joined))"
    using next_joins_inv [OF assms(1) _ first_join_inv [OF assms(1)]] assms(3) Cons f by fastforce
  then have t: "placed tree" "length marks = length scans" "mset (leaves tree) = mset (marked scans marks)" "sides (join_conds tree) = sides cs"
    by (simp_all add: join_inv_def)
  have a: "\<forall>p \<in> set scans. \<exists>tag x. p = ScanPlan tag x" using assms(1) by (simp add: all_scans_def)
  from join_rest_result [OF a t(2,1)] t f Cons show ?thesis by (auto simp: join_scans_def)
qed

section \<open>Conditions of the scans\<close>

lemma pop_conds_partition:
  "pop_conds cs t = (filter (pops t) cs, filter (\<lambda>c. \<not> pops t c) cs)"
  by (induction cs) simp_all

fun scan_conds :: "plan \<Rightarrow> condition list" where
  "scan_conds (ScanPlan tag x) = sp_conds x"
| "scan_conds _ = []"

text \<open>A scan applies conditions on its own table only.\<close>

definition own_conds :: "plan \<Rightarrow> bool" where
  "own_conds p \<longleftrightarrow> (\<forall>c \<in> set (scan_conds p). tab_name (lhs_col c) = scan_table p \<and>
     (is_rhs_val c \<or> tab_name (rhs_col c) = scan_table p))"

lemma plan_scan_result:
  assumes "get_table db t = Inr m" and "tm_cols m \<noteq> []"
  shows "\<exists>tag x. plan_scan db t cs = Inr (ScanPlan tag x) \<and> sp_tab_name x = t \<and> sp_conds x = cs"
proof -
  have "\<exists>o'. get_index_cols db t cs = Inr o'" using assms(1) by (simp add: get_index_cols_def split: prod.split)
  then obtain o' where "get_index_cols db t cs = Inr o'" by blast
  with assms show ?thesis by (cases o') (simp_all add: plan_scan_def new_ScanPlan_def)
qed

lemma plan_scans_result:
  assumes "\<forall>t \<in> set ts. \<exists>m. get_table db t = Inr m \<and> tm_cols m \<noteq> []"
  shows "\<exists>scans rest. plan_scans db ts cs = Inr (scans, rest) \<and> map scan_table scans = ts \<and>
    (\<forall>p \<in> set scans. (\<exists>tag x. p = ScanPlan tag x) \<and> (\<forall>c \<in> set (scan_conds p). c \<in> set cs \<and> pops (scan_table p) c)) \<and>
    (\<forall>p \<in> set (tl scans). \<forall>c \<in> set (scan_conds p). tab_name (lhs_col c) \<noteq> tab_name (rhs_col c)) \<and>
    mset (concat (map scan_conds scans)) + mset rest = mset cs \<and> (\<forall>c \<in> set rest. \<forall>t \<in> set ts. \<not> pops t c)"
  using assms
proof (induction ts arbitrary: cs)
  case (Cons t ts)
  let ?cur = "filter (pops t) cs" let ?rest = "filter (\<lambda>c. \<not> pops t c) cs"
  from Cons.prems obtain m where "get_table db t = Inr m" "tm_cols m \<noteq> []" by auto
  from plan_scan_result [OF this, of ?cur] obtain tag x where
    x: "plan_scan db t ?cur = Inr (ScanPlan tag x)" "sp_tab_name x = t" "sp_conds x = ?cur" by auto
  from Cons.IH [of ?rest] Cons.prems obtain scans rest where
    r: "plan_scans db ts ?rest = Inr (scans, rest)" "map scan_table scans = ts"
    "\<forall>p \<in> set scans. (\<exists>tag x. p = ScanPlan tag x) \<and> (\<forall>c \<in> set (scan_conds p). c \<in> set ?rest \<and> pops (scan_table p) c)"
    "mset (concat (map scan_conds scans)) + mset rest = mset ?rest" "\<forall>c \<in> set rest. \<forall>t \<in> set ts. \<not> pops t c" by auto
  have "set_mset (mset rest) \<subseteq> set_mset (mset ?rest)" unfolding r(4) [symmetric] by simp
  then have "\<forall>c \<in> set rest. \<not> pops t c" by auto
  moreover have "mset ?cur + (mset (concat (map scan_conds scans)) + mset rest) = mset cs"
    unfolding r(4) by (simp add: multiset_partition [symmetric])
  moreover have "\<forall>p \<in> set scans. \<forall>c \<in> set (scan_conds p). tab_name (lhs_col c) \<noteq> tab_name (rhs_col c)"
    using r(3) by (auto simp: pops_def)
  ultimately show ?case using x r by (auto simp: pop_conds_partition add.assoc)
qed simp

text \<open>What the analysis says of the conditions of a query.\<close>

definition plain_cond :: "db_meta \<Rightarrow> string list \<Rightarrow> condition \<Rightarrow> bool" where
  "plain_cond db ts c \<longleftrightarrow> cond_typed db ts c \<and> (is_rhs_val c \<longrightarrow> tab_name (rhs_col c) = [])"

lemma where_clause_plain:
  assumes "named_columns db" and "where_clause db ts xs = Inr cs" and "c \<in> set cs"
  shows "plain_cond db ts c"
proof -
  from assms(2) obtain cs0 where cs0: "get_clause xs = Inr cs0" "check_clause db ts cs0 = Inr cs"
    by (auto simp: where_clause_def andthen_eq_Inr)
  have g: "is_rhs_val d \<longrightarrow> tab_name (rhs_col d) = []" if "get_cond x = Inr d" for x d
    using that by (auto simp: get_cond_def Let_def andthen_eq_Inr split: ast_expr.splits)
  have k: "is_rhs_val c' = is_rhs_val d \<and> (is_rhs_val d \<longrightarrow> rhs_col c' = rhs_col d)" if "check_cond db al d = Inr c'" for al d c'
    using that by (auto simp: check_cond_def andthen_eq_Inr split: if_splits prod.splits)
  from cs0(2) assms(3) obtain al d where d: "d \<in> set cs0" "check_cond db al d = Inr c"
    by (auto simp: check_clause_def andthen_eq_Inr dest: for_each_mem)
  from cs0(1) d(1) obtain x where "get_cond x = Inr d"
    by (auto simp: get_clause_def dest: for_each_mem)
  with g k [OF d(2)] have "is_rhs_val c \<longrightarrow> tab_name (rhs_col c) = []" by metis
  with check_clause_typed [OF assms(1) cs0(2) assms(3)] show ?thesis by (simp add: plain_cond_def)
qed

section \<open>The plan of a query\<close>

definition plan_conds :: "plan \<Rightarrow> condition list" where
  "plan_conds p = concat (map scan_conds (leaves p)) @ join_conds p"

text \<open>
  A comparison of two columns of one table is given to the scan of the first table of the query, whatever
  table it is about; it is in its place only if it is about the first table.
\<close>

definition first_table_only :: "string list \<Rightarrow> condition \<Rightarrow> bool" where
  "first_table_only ts c \<longleftrightarrow> is_rhs_val c \<or> tab_name (lhs_col c) \<noteq> tab_name (rhs_col c) \<or> tab_name (lhs_col c) = hd ts"

lemma scanned_conds:
  assumes "map scan_table scans = ts" and "[] \<notin> set ts"
    and "\<forall>p \<in> set scans. \<forall>c \<in> set (scan_conds p). plain_cond db ts c \<and> first_table_only ts c \<and> pops (scan_table p) c"
    and "\<forall>p \<in> set (tl scans). \<forall>c \<in> set (scan_conds p). tab_name (lhs_col c) \<noteq> tab_name (rhs_col c)" and "p \<in> set scans"
  shows "own_conds p"
  unfolding own_conds_def
proof
  fix c assume c: "c \<in> set (scan_conds p)"
  with assms(3,5) have p: "plain_cond db ts c" "first_table_only ts c" "pops (scan_table p) c" by auto
  have "tab_name (lhs_col c) \<in> set ts" using p(1) by (auto simp: plain_cond_def cond_typed_def)
  then have "is_rhs_val c \<Longrightarrow> tab_name (lhs_col c) \<noteq> tab_name (rhs_col c)" using p(1) assms(2) by (auto simp: plain_cond_def)
  moreover have "p \<notin> set (tl scans) \<Longrightarrow> scan_table p = hd ts" using assms(1,5) by (cases scans) auto
  ultimately show "tab_name (lhs_col c) = scan_table p \<and> (is_rhs_val c \<or> tab_name (rhs_col c) = scan_table p)"
    using p(2,3) assms(4) c unfolding pops_def first_table_only_def by metis
qed

lemma left_over_joins:
  assumes "map scan_table scans = ts" and "plain_cond db ts c" and "ts \<noteq> []" and "\<forall>t \<in> set ts. \<not> pops t c"
  shows "joins scans c"
proof -
  have s: "scan_table ` set scans = set ts" using assms(1) by auto
  from assms(2) have l: "tab_name (lhs_col c) \<in> set ts" and r: "is_rhs_val c \<or> tab_name (rhs_col c) \<in> set ts"
    by (auto simp: plain_cond_def cond_typed_def split: if_splits)
  have "hd ts \<in> set ts" using assms(3) by simp
  with assms(4) l r show ?thesis by (auto simp: joins_def pops_def s)
qed

lemma analyzed_tables:
  assumes "get_all_cols db ts = Inr cs" and "t \<in> set ts"
  shows "\<exists>m. get_table db t = Inr m"
  using assms by (auto simp: get_all_cols_def andthen_eq_Inr dest: for_each_all)

lemma same_leaves:
  assumes "mset (leaves p) = mset scans"
  shows "mset (plan_tables p) = mset (map scan_table scans)" and "set (leaves p) = set scans"
    and "mset (concat (map scan_conds (leaves p))) = mset (concat (map scan_conds scans))"
proof -
  show "mset (plan_tables p) = mset (map scan_table scans)" using assms by (simp add: plan_tables_def)
  show "set (leaves p) = set scans" by (rule mset_eq_setD [OF assms])
  have "mset (map (mset \<circ> scan_conds) (leaves p)) = mset (map (mset \<circ> scan_conds) scans)" using assms by simp
  then have "sum_list (map (mset \<circ> scan_conds) (leaves p)) = sum_list (map (mset \<circ> scan_conds) scans)"
    by (metis sum_mset_sum_list)
  then show "mset (concat (map scan_conds (leaves p))) = mset (concat (map scan_conds scans))" by (simp add: mset_concat)
qed


text \<open>Two tables, a join condition and a condition on one of them.\<close>

definition pair_db :: db_meta where
  "pair_db = \<lparr>db_name = ''d'', tabs =
     [(''a'', \<lparr>tm_name = ''a'', tm_cols = [\<lparr>cm_tab_name = ''a'', cm_name = ''x'', cm_type = TYPE_FLOAT, cm_len = 4, cm_offset = 0, cm_index = False\<rparr>],
               indexes = []\<rparr>),
      (''b'', \<lparr>tm_name = ''b'', tm_cols = [\<lparr>cm_tab_name = ''b'', cm_name = ''y'', cm_type = TYPE_FLOAT, cm_len = 4, cm_offset = 0, cm_index = False\<rparr>],
               indexes = []\<rparr>)]\<rparr>"

definition pair_select :: select_stmt where
  "pair_select = \<lparr>sel_cols = [], sel_tabs = [''a'', ''b''], sel_conds =
     [\<lparr>be_lhs = Col ''b'' ''y'', be_op = SV_OP_LT, be_rhs = ECol (Col [] ''x'')\<rparr>,
      \<lparr>be_lhs = Col [] ''x'', be_op = SV_OP_GE, be_rhs = EValue (FloatLit (Fin False 7 0))\<rparr>],
     sel_order = None, sel_limit = -1\<rparr>"


text \<open>
  Turning a condition around can change its truth: strings are compared in the length of the left column.
\<close>

definition char_col :: "string \<Rightarrow> int \<Rightarrow> int \<Rightarrow> col_meta" where
  "char_col n len off = \<lparr>cm_tab_name = ''t'', cm_name = n, cm_type = TYPE_STRING, cm_len = len, cm_offset = off, cm_index = False\<rparr>"

lemma swap_changes_comparison:
  fixes c cols
  defines "c \<equiv> \<lparr>lhs_col = \<lparr>tab_name = ''t'', col_name = ''a''\<rparr>, cond_op = OP_EQ, is_rhs_val = False,
      rhs_col = \<lparr>tab_name = ''t'', col_name = ''b''\<rparr>, rhs_val = no_value\<rparr>"
    and "cols \<equiv> [char_col ''a'' 1 0, char_col ''b'' 2 1]"
  shows "eval_cond cols [120, 120, 121] c = Inr True \<and> eval_cond cols [120, 120, 121] (swap_cond c) = Inr False"
  by (simp add: c_def cols_def char_col_def eval_cond_def swap_cond_def get_col_def col_is_def check_compare_def
      compare_values_def compare_typed_def field_def)

end
