(* ===== verification/Query_Results.thy ===== *)
theory Query_Results
  imports Executor_Props Database
begin

text \<open>
  What queries return: a sequential scan meets the contract of an executor with the records of its
  table that satisfy the conditions, in the order of their record numbers, and a tree of executors
  returns the tuples its relational expression denotes.
\<close>

section \<open>Reading leaves the database as it is\<close>

lemma update_same: "map_of al k = Some v \<Longrightarrow> AList.update k v al = al"
  by (induction al) auto

context replacer begin

definition snapshot :: "int set \<Rightarrow> ('r, 'z) sm_scheme \<Rightarrow> ('r, 'z) sm_scheme \<Rightarrow> bool" where
  "snapshot F s0 s \<longleftrightarrow> db_ok F s \<and> fhs s = fhs s0 \<and> rows s = rows s0 \<and> sm_db s = sm_db s0 \<and> ihs s = ihs s0 \<and>
     dirs s = dirs s0 \<and> cwd s = cwd s0 \<and> sm.more s = sm.more s0"

lemma snapshot_refl: "db_ok F s \<Longrightarrow> snapshot F s s"
  by (simp add: snapshot_def)

lemma read_step:
  assumes "snapshot F s0 s" and "table_of t s = Some f" and "m f = (x, f')" and "table_pages F f'" and "others F f f'"
    and "records f' = records f" and "rm_hdr f' = rm_hdr f"
  shows "on_table t m s = (x, put_table t f' s)" and "snapshot F s0 (put_table t f' s)"
proof -
  have ok: "db_ok F s" using assms(1) by (simp add: snapshot_def)
  note ot = on_table_ok [where m = m, OF ok assms(2-5)]
  show "on_table t m s = (x, put_table t f' s)" by (rule ot(1))
  have "map_of (fhs s) t = Some (rm_fd f', rm_hdr f')"
    using assms(2,5,7) by (auto simp: table_of_def others_def)
  then have "fhs (put_table t f' s) = fhs s" by (simp add: put_table_def update_same)
  moreover have "rows (put_table t f' s) = rows s" using ot(3) assms(2,6) by (simp add: fun_upd_idem)
  ultimately show "snapshot F s0 (put_table t f' s)" using assms(1) ot(2) by (simp add: snapshot_def)
qed

lemma snapshot_table:
  assumes "snapshot F s0 s" and "map_of (fhs s0) t = Some (fd, h)"
  obtains f where "table_of t s = Some f" and "rm_hdr f = h" and "table_pages F f" and "records f = rows s0 t"
proof -
  let ?f = "\<lparr>rm_fd = fd, rm_hdr = h, rm_pool = sm_pool s\<rparr>"
  have t: "table_of t s = Some ?f" using assms by (simp add: snapshot_def table_of_def)
  moreover have "records ?f = rows s0 t" using rows_table [OF t] assms(1) by (simp add: snapshot_def)
  ultimately show ?thesis using that db_okD [of F s t ?f] assms(1) by (simp add: snapshot_def)
qed

end

section \<open>Positions in a table\<close>

definition from_rid :: "(rid \<rightharpoonup> bytes) \<Rightarrow> rid \<Rightarrow> rid list" where
  "from_rid m r = filter (\<lambda>q. r \<le> q) (table_rids m)"

definition rids_after :: "(rid \<rightharpoonup> bytes) \<Rightarrow> rid \<Rightarrow> rid list" where
  "rids_after m r = filter (\<lambda>q. r < q) (table_rids m)"

lemma set_table_rids: "finite (dom m) \<Longrightarrow> set (table_rids m) = dom m"
  by (simp add: table_rids_def)

lemma filter_sorted_from:
  assumes "sorted xs" "distinct xs" "r \<in> set xs"
  shows "filter (\<lambda>q. r \<le> q) xs = r # filter (\<lambda>q. r < q) (xs :: 'a :: linorder list)"
  using assms
proof (induction xs)
  case (Cons x xs)
  show ?case
  proof (cases "r = x")
    case True
    with Cons.prems have "\<forall>q \<in> set xs. r < q" by (metis distinct.simps(2) order_less_le sorted_simps(2))
    then have "filter (\<lambda>q. r \<le> q) xs = xs" "filter (\<lambda>q. r < q) xs = xs" by (auto intro!: filter_True)
    with True show ?thesis by simp
  next
    case False
    with Cons.prems have "r \<in> set xs" "x < r" by (auto simp: order_less_le)
    moreover from this have "\<not> r \<le> x" "\<not> r < x" by auto
    ultimately show ?thesis using Cons by simp
  qed
qed simp

lemma from_rid_Cons:
  assumes "finite (dom m)" and "m r \<noteq> None"
  shows "from_rid m r = r # rids_after m r"
  unfolding from_rid_def rids_after_def
  by (rule filter_sorted_from) (use assms in \<open>auto simp: table_rids_def\<close>)

lemma rids_after_next:
  assumes "finite (dom m)" and "is_next m p e r r'" and "\<And>q. m q \<noteq> None \<Longrightarrow> r < q \<Longrightarrow> p \<le> page_no q"
    and "\<And>q. m q \<noteq> None \<Longrightarrow> \<not> e \<le> q"
  shows "rids_after m r = from_rid m r'"
  unfolding rids_after_def from_rid_def
proof (rule filter_cong [OF refl])
  fix q
  assume "q \<in> set (table_rids m)"
  then have q: "m q \<noteq> None" using assms(1) by (auto simp: set_table_rids)
  show "(r < q) = (r' \<le> q)"
  proof (cases "m r' = None")
    case True
    then show ?thesis using assms(2-4) q by (auto simp: is_next_def less_rid_def)
  next
    case False
    then have "r < r'" and "\<And>q. m q \<noteq> None \<Longrightarrow> p \<le> page_no q \<Longrightarrow> r < q \<Longrightarrow> q = r' \<or> r' < q"
      using assms(2) by (auto simp: is_next_def less_rid_def)
    then show ?thesis using q assms(3) [OF q] by force
  qed
qed

lemma table_rows_from: "table_rows m = map (\<lambda>r. the (m r)) (filter (\<lambda>_. True) (table_rids m))"
  by (simp add: table_rows_def)

section \<open>The sequential scan\<close>

definition sat :: "scan_exec \<Rightarrow> bytes \<Rightarrow> bool" where
  "sat e b \<longleftrightarrow> eval_conds (sc_cols e) b (sc_conds e) = Inr True"

definition scan_rows :: "('r, 'z) sm_scheme \<Rightarrow> scan_exec \<Rightarrow> bytes list" where
  "scan_rows s e = filter (sat e) (table_rows (rows s (sc_tab e)))"

definition same_scan :: "scan_exec \<Rightarrow> scan_exec \<Rightarrow> bool" where
  "same_scan e e' \<longleftrightarrow> sc_tab e' = sc_tab e \<and> sc_conds e' = sc_conds e \<and> sc_cols e' = sc_cols e \<and> sc_len e' = sc_len e"

definition scan_fit :: "nat \<Rightarrow> ('r, 'z) sm_scheme \<Rightarrow> scan_exec \<Rightarrow> bool" where
  "scan_fit k s e \<longleftrightarrow> map_of (fhs s) (sc_tab e) \<noteq> None \<and>
     (\<forall>b \<in> ran (rows s (sc_tab e)). \<exists>v. eval_conds (sc_cols e) b (sc_conds e) = Inr v) \<and>
     card (dom (rows s (sc_tab e))) < k"

definition seq_ready :: "nat \<Rightarrow> ('r, 'z) sm_scheme \<Rightarrow> scan_exec \<Rightarrow> exec \<Rightarrow> bool" where
  "seq_ready k s e x \<longleftrightarrow> scan_fit k s e \<and> (\<exists>e'. x = SeqScan e' \<and> same_scan e e')"

definition scan_end :: "('r, 'z) sm_scheme \<Rightarrow> string \<Rightarrow> rid" where
  "scan_end s t = Rid (num_pages (snd (the (map_of (fhs s) t)))) (-1)"

text \<open>The records from position \<open>r\<close> on that satisfy the conditions.\<close>

definition sat_from :: "('r, 'z) sm_scheme \<Rightarrow> scan_exec \<Rightarrow> rid \<Rightarrow> bytes list" where
  "sat_from s e r = filter (sat e) (map (\<lambda>q. the (rows s (sc_tab e) q)) (from_rid (rows s (sc_tab e)) r))"

definition seq_at :: "('r, 'z) sm_scheme \<Rightarrow> scan_exec \<Rightarrow> exec \<Rightarrow> bytes list \<Rightarrow> bool" where
  "seq_at s e x rs \<longleftrightarrow> (\<exists>e' r. x = SeqScan e' \<and> sc_scan e' = Some (RmScanAt r) \<and> rs = sat_from s e r \<and>
     (r = scan_end s (sc_tab e) \<or> sc_rid e' = r \<and> (\<exists>b. rows s (sc_tab e) r = Some b \<and> sat e b)))"

lemma same_scanD:
  "same_scan e e' \<Longrightarrow> sc_tab e' = sc_tab e" "same_scan e e' \<Longrightarrow> sc_conds e' = sc_conds e"
  "same_scan e e' \<Longrightarrow> sc_cols e' = sc_cols e" "same_scan e e' \<Longrightarrow> sc_len e' = sc_len e"
  by (simp_all add: same_scan_def)

context replacer begin

text \<open>The facts about the table of a scan in the current state.\<close>

lemma scan_table:
  assumes "snapshot F s0 s" and "scan_fit k s0 e"
  obtains f h where "table_of (sc_tab e) s = Some f" and "rm_hdr f = h" and "table_pages F f"
    and "records f = rows s0 (sc_tab e)" and "finite (dom (rows s0 (sc_tab e)))"
    and "scan_end s0 (sc_tab e) = Rid (num_pages h) (-1)"
    and "\<And>r. rec_is_end (sc_tab e) (RmScanAt r) s \<longleftrightarrow> num_pages h \<le> page_no r"
    and "\<And>q. rows s0 (sc_tab e) q \<noteq> None \<Longrightarrow> record_page h (page_no q) \<and> slot_ok h (slot_no q)"
proof -
  from assms(2) obtain fd h where fh: "map_of (fhs s0) (sc_tab e) = Some (fd, h)" by (auto simp: scan_fit_def)
  from snapshot_table [OF assms(1) fh] obtain f where
    f: "table_of (sc_tab e) s = Some f" "rm_hdr f = h" "table_pages F f" "records f = rows s0 (sc_tab e)" by blast
  have "fhs s = fhs s0" using assms(1) by (simp add: snapshot_def)
  with fh have "rec_is_end (sc_tab e) (RmScanAt r) s \<longleftrightarrow> num_pages h \<le> page_no r" for r by simp
  moreover have "scan_end s0 (sc_tab e) = Rid (num_pages h) (-1)" using fh by (simp add: scan_end_def)
  moreover have "record_page h (page_no q) \<and> slot_ok h (slot_no q)" if "rows s0 (sc_tab e) q \<noteq> None" for q
    using records_bounds [of f q] that f(2,4) by simp
  ultimately show ?thesis using that f finite_records [of f] by metis
qed

lemma not_past_end: "record_page h (page_no q) \<Longrightarrow> \<not> Rid (num_pages h) (-1) \<le> q"
  by (auto simp: less_eq_rid_def after_def record_page_def)

lemma from_end: "scan_end s t = Rid (num_pages h) (-1) \<Longrightarrow> finite (dom m) \<Longrightarrow>
    (\<And>q. m q \<noteq> None \<Longrightarrow> record_page h (page_no q)) \<Longrightarrow> from_rid m (scan_end s t) = []"
  unfolding from_rid_def by (rule filter_False) (use not_past_end in \<open>auto simp: set_table_rids\<close>)

lemma get_at:
  assumes "snapshot F s0 s" and "scan_fit k s0 e" and "rows s0 (sc_tab e) r = Some b"
  shows "\<exists>s'. on_table (sc_tab e) (get_record R r) s = Ret b s' \<and> snapshot F s0 s'"
proof -
  from scan_table [OF assms(1,2)] obtain f h where
    f: "table_of (sc_tab e) s = Some f" "rm_hdr f = h" "table_pages F f" "records f = rows s0 (sc_tab e)"
    and "record_page h (page_no r)" by (metis assms(3) option.distinct(1))
  with get_record_ok [of F f r] assms(3) obtain f1 where
    g: "get_record R r f = Ret b f1" "table_pages F f1" "records f1 = records f" "rm_hdr f1 = rm_hdr f" "others F f f1" by auto
  from read_step [where m = "get_record R r", OF assms(1) f(1) g(1,2,5,3,4)] show ?thesis by blast
qed

lemma next_at:
  assumes "snapshot F s0 s" and "scan_fit k s0 e" and "rows s0 (sc_tab e) r = Some b"
  shows "\<exists>r' s'. on_table (sc_tab e) (scan_next R r) s = Ret r' s' \<and> snapshot F s0 s' \<and>
    from_rid (rows s0 (sc_tab e)) r = r # from_rid (rows s0 (sc_tab e)) r' \<and>
    (rows s0 (sc_tab e) r' \<noteq> None \<or> r' = scan_end s0 (sc_tab e))"
proof -
  let ?m = "rows s0 (sc_tab e)"
  from scan_table [OF assms(1,2)] obtain f h where
    f: "table_of (sc_tab e) s = Some f" "rm_hdr f = h" "table_pages F f" "records f = ?m" "finite (dom ?m)"
    and en: "scan_end s0 (sc_tab e) = Rid (num_pages h) (-1)"
    and bo: "\<And>q. ?m q \<noteq> None \<Longrightarrow> record_page h (page_no q) \<and> slot_ok h (slot_no q)" by metis
  have rp: "record_page h (page_no r)" "slot_ok h (slot_no r)" using bo assms(3) by auto
  then have "\<not> scan_is_end r f" using f(2) by (simp add: scan_is_end_def record_page_def)
  from scan_next_ok [OF f(3) _ this] rp f(2) obtain r' f1 where
    nx: "scan_next R r f = Ret r' f1" "table_pages F f1" "records f1 = records f" "rm_hdr f1 = rm_hdr f" "others F f f1"
    "is_next (records f) (page_no r) (Rid (num_pages h) (-1)) r r'" by (auto simp: record_page_def)
  note rs = read_step [where m = "scan_next R r", OF assms(1) f(1) nx(1,2,5,3,4)]
  have "rids_after ?m r = from_rid ?m r'"
    by (rule rids_after_next [OF f(5) nx(6) [unfolded f(4)]])
      (use bo not_past_end in \<open>auto simp: less_rid_def after_def\<close>)
  then have "from_rid ?m r = r # from_rid ?m r'" using from_rid_Cons [OF f(5)] assms(3) by simp
  moreover have "?m r' \<noteq> None \<or> r' = scan_end s0 (sc_tab e)" using nx(6) f(4) en by (auto simp: is_next_def split: if_splits)
  ultimately show ?thesis using rs by blast
qed

lemma begin_at:
  assumes "snapshot F s0 s" and "scan_fit k s0 e"
  shows "\<exists>r s'. on_table (sc_tab e) (RmScan R) s = Ret r s' \<and> snapshot F s0 s' \<and>
    from_rid (rows s0 (sc_tab e)) r = table_rids (rows s0 (sc_tab e)) \<and>
    (rows s0 (sc_tab e) r \<noteq> None \<or> r = scan_end s0 (sc_tab e))"
proof -
  let ?m = "rows s0 (sc_tab e)" and ?r = "Rid RM_FIRST_RECORD_PAGE (-1)"
  from scan_table [OF assms] obtain f h where
    f: "table_of (sc_tab e) s = Some f" "rm_hdr f = h" "table_pages F f" "records f = ?m" "finite (dom ?m)"
    and en: "scan_end s0 (sc_tab e) = Rid (num_pages h) (-1)"
    and bo: "\<And>q. ?m q \<noteq> None \<Longrightarrow> record_page h (page_no q) \<and> slot_ok h (slot_no q)" by metis
  from RmScan_ok [OF f(3)] f(2) obtain r f1 where
    nx: "RmScan R f = Ret r f1" "table_pages F f1" "records f1 = records f" "rm_hdr f1 = rm_hdr f" "others F f f1"
    "is_next (records f) RM_FIRST_RECORD_PAGE (Rid (num_pages h) (-1)) ?r r" by auto
  note rs = read_step [where m = "RmScan R", OF assms(1) f(1) nx(1,2,5,3,4)]
  have "rids_after ?m ?r = from_rid ?m r"
    by (rule rids_after_next [OF f(5) nx(6) [unfolded f(4)]])
      (use bo not_past_end in \<open>auto simp: less_rid_def after_def record_page_def\<close>)
  moreover have "rids_after ?m ?r = table_rids ?m"
    unfolding rids_after_def using bo f(5)
    by (intro filter_True) (fastforce simp: set_table_rids less_rid_def after_def record_page_def)
  moreover have "?m r \<noteq> None \<or> r = scan_end s0 (sc_tab e)" using nx(6) f(4) en by (auto simp: is_next_def split: if_splits)
  ultimately show ?thesis using rs by metis
qed

lemma end_at:
  assumes "snapshot F s0 s" and "scan_fit k s0 e" and "rows s0 (sc_tab e) r \<noteq> None \<or> r = scan_end s0 (sc_tab e)"
  shows "rec_is_end (sc_tab e) (RmScanAt r) s \<longleftrightarrow> rows s0 (sc_tab e) r = None"
    and "rows s0 (sc_tab e) r = None \<Longrightarrow> from_rid (rows s0 (sc_tab e)) r = []"
    and "rows s0 (sc_tab e) (scan_end s0 (sc_tab e)) = None"
proof -
  from scan_table [OF assms(1,2)] obtain h where
    fi: "finite (dom (rows s0 (sc_tab e)))" and en: "scan_end s0 (sc_tab e) = Rid (num_pages h) (-1)"
    and re: "\<And>r. rec_is_end (sc_tab e) (RmScanAt r) s \<longleftrightarrow> num_pages h \<le> page_no r"
    and bo: "\<And>q. rows s0 (sc_tab e) q \<noteq> None \<Longrightarrow> record_page h (page_no q) \<and> slot_ok h (slot_no q)" by metis
  show no: "rows s0 (sc_tab e) (scan_end s0 (sc_tab e)) = None"
    using bo [of "scan_end s0 (sc_tab e)"] en by (cases "rows s0 (sc_tab e) (scan_end s0 (sc_tab e))") (auto simp: record_page_def)
  show "rec_is_end (sc_tab e) (RmScanAt r) s \<longleftrightarrow> rows s0 (sc_tab e) r = None"
  proof (cases "rows s0 (sc_tab e) r")
    case None
    with assms(3) en re [of r] show ?thesis by (simp del: rec_is_end.simps)
  next
    case (Some b)
    with bo [of r] re [of r] show ?thesis by (simp add: record_page_def del: rec_is_end.simps)
  qed
  show "rows s0 (sc_tab e) r = None \<Longrightarrow> from_rid (rows s0 (sc_tab e)) r = []"
    using from_end [OF en fi] bo assms(3) by auto
qed

lemma seek_ok:
  assumes "snapshot F s0 s" and "scan_fit k0 s0 e" and "rows s0 (sc_tab e) r \<noteq> None \<or> r = scan_end s0 (sc_tab e)"
    and "length (from_rid (rows s0 (sc_tab e)) r) < k" and "same_scan e e'"
  shows "\<exists>p s'. seek k R ix e' (RmScanAt r) s = Ret p s' \<and> snapshot F s0 s' \<and>
    seq_at s0 e (SeqScan (landed e' p)) (sat_from s0 e r)"
  using assms
proof (induction k arbitrary: r s)
  case (Suc k)
  let ?t = "sc_tab e" and ?m = "rows s0 (sc_tab e)"
  note sc = same_scanD [OF assms(5)] and ea = end_at [OF Suc.prems(1-3)]
  show ?case
  proof (cases "?m r")
    case None
    with Suc.prems(3) have r: "r = scan_end s0 ?t" by simp
    have "seek (Suc k) R ix e' (RmScanAt r) s = Ret (RmScanAt r, None) s" using ea(1) None sc by simp
    moreover have "seq_at s0 e (SeqScan (landed e' (RmScanAt r, None))) (sat_from s0 e r)"
      using r by (simp add: seq_at_def landed_def)
    ultimately show ?thesis using Suc.prems(1) by blast
  next
    case (Some b)
    have ne: "\<not> rec_is_end ?t (RmScanAt r) s" using ea(1) Some by simp
    from get_at [OF Suc.prems(1,2) Some] obtain s1 where
      g: "on_table ?t (get_record R r) s = Ret b s1" "snapshot F s0 s1" by blast
    have "b \<in> ran ?m" using Some by (auto intro: ranI)
    then obtain v where v: "eval_conds (sc_cols e) b (sc_conds e) = Inr v" using Suc.prems(2) by (auto simp: scan_fit_def)
    show ?thesis
    proof (cases v)
      case True
      then have "seek (Suc k) R ix e' (RmScanAt r) s = Ret (RmScanAt r, Some r) s1" using ne g(1) v sc by simp
      moreover have "seq_at s0 e (SeqScan (landed e' (RmScanAt r, Some r))) (sat_from s0 e r)"
        using Some v True by (simp add: seq_at_def landed_def sat_def)
      ultimately show ?thesis using g(2) by blast
    next
      case False
      from next_at [OF g(2) Suc.prems(2) Some] obtain r' s2 where
        nx: "on_table ?t (scan_next R r) s1 = Ret r' s2" "snapshot F s0 s2" "from_rid ?m r = r # from_rid ?m r'"
        "?m r' \<noteq> None \<or> r' = scan_end s0 ?t" by blast
      from Suc.IH [OF nx(2) Suc.prems(2) nx(4) _ Suc.prems(5)] Suc.prems(4) nx(3) obtain p s' where
        p: "seek k R ix e' (RmScanAt r') s2 = Ret p s'" "snapshot F s0 s'"
        "seq_at s0 e (SeqScan (landed e' p)) (sat_from s0 e r')" by auto
      have "seek (Suc k) R ix e' (RmScanAt r) s = Ret p s'" using ne g(1) v False nx(1) p(1) sc by simp
      moreover have "sat_from s0 e r = sat_from s0 e r'" using nx(3) Some v False by (simp add: sat_from_def sat_def)
      ultimately show ?thesis using p(2,3) by simp
    qed
  qed
qed simp

lemma from_short: "scan_fit k s0 e \<Longrightarrow> finite (dom (rows s0 (sc_tab e))) \<Longrightarrow> length (from_rid (rows s0 (sc_tab e)) r) < k"
  unfolding from_rid_def scan_fit_def table_rids_def
  by (metis (no_types, lifting) length_filter_le length_sorted_list_of_set order_le_less_trans)

lemma same_landed: "same_scan e e' \<Longrightarrow> same_scan e (landed e' p)"
  by (cases p) (auto simp: same_scan_def landed_def split: option.split)

lemma seq_atD:
  assumes "seq_ready k s0 e x" and "seq_at s0 e x rs" and "snapshot F s0 s"
  shows "\<exists>e' r. x = SeqScan e' \<and> same_scan e e' \<and> scan_fit k s0 e \<and> sc_scan e' = Some (RmScanAt r) \<and>
    (is_end (seq_scan k R) (x, s) \<longleftrightarrow> rs = []) \<and>
    (rs \<noteq> [] \<longrightarrow> sc_rid e' = r \<and> rows s0 (sc_tab e) r = Some (hd rs) \<and>
       (\<forall>r'. from_rid (rows s0 (sc_tab e)) r = r # from_rid (rows s0 (sc_tab e)) r' \<longrightarrow> tl rs = sat_from s0 e r'))"
proof -
  from assms(1,2) obtain e' r where
    x: "x = SeqScan e'" "same_scan e e'" "sc_scan e' = Some (RmScanAt r)" "rs = sat_from s0 e r"
    "r = scan_end s0 (sc_tab e) \<or> sc_rid e' = r \<and> (\<exists>b. rows s0 (sc_tab e) r = Some b \<and> sat e b)" and fit: "scan_fit k s0 e"
    by (auto simp: seq_ready_def seq_at_def)
  have re: "rows s0 (sc_tab e) r \<noteq> None \<or> r = scan_end s0 (sc_tab e)" using x(5) by auto
  note ea = end_at [OF assms(3) fit re]
  have en: "is_end (seq_scan k R) (x, s) \<longleftrightarrow> rows s0 (sc_tab e) r = None"
    using x ea(1) same_scanD(1) [OF x(2)] by (simp add: seq_scan_def scan_at_end_def del: rec_is_end.simps)
  have tl: "tl rs = sat_from s0 e r'" if "rows s0 (sc_tab e) r = Some b" "sat e b"
    "from_rid (rows s0 (sc_tab e)) r = r # from_rid (rows s0 (sc_tab e)) r'" for b r'
    using x(4) that by (simp add: sat_from_def)
  show ?thesis
  proof (cases "rows s0 (sc_tab e) r")
    case None
    then have "rs = []" using ea(2) x(4) by (simp add: sat_from_def)
    with x fit en None show ?thesis by blast
  next
    case (Some b)
    then have b: "sat e b" "sc_rid e' = r" using x(5) ea(3) by auto
    from next_at [OF assms(3) fit Some] obtain r1 where
      "from_rid (rows s0 (sc_tab e)) r = r # from_rid (rows s0 (sc_tab e)) r1" by blast
    then have rs: "rs = b # sat_from s0 e r1" using x(4) Some b(1) by (simp add: sat_from_def)
    have "is_end (seq_scan k R) (x, s) \<longleftrightarrow> rs = []" using en Some rs by simp
    moreover have "rows s0 (sc_tab e) r = Some (hd rs)" using Some rs by simp
    ultimately show ?thesis using x(1-3) fit b(2) tl [OF Some b(1)] by blast
  qed
qed

text \<open>The sequential scan is an executor whose tuples are the records that satisfy its conditions.\<close>

lemma seq_cursor: "cursor (seq_scan k R) (snapshot F s0) (seq_ready k s0 e) (seq_at s0 e) (sc_cols e) (sc_len e) (scan_rows s0 e)"
proof
  fix x s
  assume "seq_ready k s0 e x" and I: "snapshot F s0 s"
  then obtain e' where x: "x = SeqScan e'" "same_scan e e'" and fit: "scan_fit k s0 e" by (auto simp: seq_ready_def)
  let ?m = "rows s0 (sc_tab e)"
  from scan_table [OF I fit] have fi: "finite (dom ?m)" by metis
  from begin_at [OF I fit] obtain r s1 where
    b: "on_table (sc_tab e) (RmScan R) s = Ret r s1" "snapshot F s0 s1" "from_rid ?m r = table_rids ?m"
    "?m r \<noteq> None \<or> r = scan_end s0 (sc_tab e)" by blast
  from seek_ok [OF b(2) fit b(4) from_short [OF fit fi] x(2), of "[]"] obtain p s' where
    p: "seek k R [] e' (RmScanAt r) s1 = Ret p s'" "snapshot F s0 s'" "seq_at s0 e (SeqScan (landed e' p)) (sat_from s0 e r)" by blast
  have "sat_from s0 e r = scan_rows s0 e" using b(3) by (simp add: sat_from_def scan_rows_def table_rows_def)
  moreover have "beginTuple (seq_scan k R) (x, s) = Ret () (SeqScan (landed e' p), s')"
    using x b(1) p(1) same_scanD [OF x(2)] by (simp add: seq_scan_def seq_begin_def scan_op_def)
  ultimately show "\<exists>e' s'. beginTuple (seq_scan k R) (x, s) = Ret () (e', s') \<and> seq_ready k s0 e e' \<and>
      seq_at s0 e e' (scan_rows s0 e) \<and> snapshot F s0 s'"
    using p fit same_landed [OF x(2)] by (auto simp: seq_ready_def)
next
  fix x rs s
  assume "seq_ready k s0 e x" "seq_at s0 e x rs" "snapshot F s0 s"
  from seq_atD [OF this] show "is_end (seq_scan k R) (x, s) = (rs = [])" by blast
next
  fix x b rs s
  assume r: "seq_ready k s0 e x" and a: "seq_at s0 e x (b # rs)" and I: "snapshot F s0 s"
  let ?m = "rows s0 (sc_tab e)"
  from seq_atD [OF r a I] obtain e' q where
    x: "x = SeqScan e'" "same_scan e e'" "scan_fit k s0 e" "sc_scan e' = Some (RmScanAt q)" "\<not> is_end (seq_scan k R) (x, s)"
    and q: "sc_rid e' = q" "?m q = Some b"
    and tl: "\<forall>r'. from_rid ?m q = q # from_rid ?m r' \<longrightarrow> rs = sat_from s0 e r'" by auto
  note sc = same_scanD [OF x(2)]
  have ne: "\<not> scan_at_end e' s" using x(1,5) by (simp add: seq_scan_def)
  from get_at [OF I x(3) q(2)] obtain s1 where "on_table (sc_tab e) (get_record R q) s = Ret b s1" "snapshot F s0 s1" by blast
  then show "\<exists>e' s'. Next (seq_scan k R) (x, s) = Ret (Some b) (e', s') \<and> seq_ready k s0 e e' \<and>
      seq_at s0 e e' (b # rs) \<and> snapshot F s0 s'"
    using x(1) ne q(1) sc r a by (simp add: seq_scan_def beside_def scan_get_def)
  from next_at [OF I x(3) q(2)] obtain r' s2 where
    nx: "on_table (sc_tab e) (scan_next R q) s = Ret r' s2" "snapshot F s0 s2" "from_rid ?m q = q # from_rid ?m r'"
    "?m r' \<noteq> None \<or> r' = scan_end s0 (sc_tab e)" by blast
  from scan_table [OF I x(3)] have fi: "finite (dom ?m)" by metis
  from seek_ok [OF nx(2) x(3) nx(4) from_short [OF x(3) fi] x(2), of "[]"] obtain p s' where
    p: "seek k R [] e' (RmScanAt r') s2 = Ret p s'" "snapshot F s0 s'" "seq_at s0 e (SeqScan (landed e' p)) (sat_from s0 e r')" by blast
  have "nextTuple (seq_scan k R) (x, s) = Ret () (SeqScan (landed e' p), s')"
    using x(1,4) ne nx(1) p(1) sc by (simp add: seq_scan_def scan_advance_def scan_op_def scan_at_end_def del: rec_is_end.simps)
  then show "\<exists>e' s'. nextTuple (seq_scan k R) (x, s) = Ret () (e', s') \<and> seq_ready k s0 e e' \<and> seq_at s0 e e' rs \<and>
      snapshot F s0 s'"
    using p x(3) same_landed [OF x(2)] tl nx(3) by (auto simp: seq_ready_def)
qed (auto simp: seq_ready_def same_scan_def)

end

end
