(* ===== verification/Query_Trees.thy ===== *)
theory Query_Trees
  imports Query_Results
begin

text \<open>
  Trees of executors: every tree of joins, projections, sorts, limits and aggregates over sequential
  scans returns what its relational expression denotes on the tables, and leaves the database as it was.
\<close>

section \<open>The relational expression of a tree\<close>

primrec result :: "sorter \<Rightarrow> ('r, 'z) sm_scheme \<Rightarrow> exec \<Rightarrow> bytes list" where
  "result srt s (SeqScan e) = scan_rows s e"
| "result srt s (IndexScan im e) = scan_rows s e"
| "result srt s (NestedLoopJoin l r j) =
     join_rows (left_block_capacity j) (join_matches (exec_cols l) (exec_cols r) j) (join_glue (tupleLen l) (tupleLen r) j)
       (result srt s l) (result srt s r)"
| "result srt s (Projection p e) = map (project (exec_cols p) e) (result srt s p)"
| "result srt s (Sort p e) = sort_result srt e (result srt s p)"
| "result srt s (Limit p e) = limited (li_limit e) 0 (result srt s p)"
| "result srt s (Aggregate p e) = (case agg_all (exec_cols p) e (result srt s p) of Inl _ \<Rightarrow> [] | Inr row \<Rightarrow> [row])"

text \<open>
  What the constructors of the executors and the analysis of a query provide: the tables are open, the
  conditions and aggregates can be evaluated, the limits are machine integers, and there is fuel.
\<close>

primrec tree_ok :: "nat \<Rightarrow> sorter \<Rightarrow> ('r, 'z) sm_scheme \<Rightarrow> exec \<Rightarrow> bool" where
  "tree_ok k srt s (SeqScan e) \<longleftrightarrow> scan_fit k s e"
| "tree_ok k srt s (IndexScan im e) \<longleftrightarrow> False"
| "tree_ok k srt s (NestedLoopJoin l r j) \<longleftrightarrow> tree_ok k srt s l \<and> tree_ok k srt s r \<and>
     join_fits (exec_cols l) (exec_cols r) j k (result srt s l) (result srt s r)"
| "tree_ok k srt s (Projection p e) \<longleftrightarrow> tree_ok k srt s p"
| "tree_ok k srt s (Sort p e) \<longleftrightarrow> tree_ok k srt s p \<and> length (result srt s p) < k"
| "tree_ok k srt s (Limit p e) \<longleftrightarrow> tree_ok k srt s p \<and> is_i32 (li_limit e) \<and> li_cols e = exec_cols p \<and> li_len e = tupleLen p"
| "tree_ok k srt s (Aggregate p e) \<longleftrightarrow> tree_ok k srt s p \<and> length (result srt s p) < k \<and>
     (\<exists>row. agg_all (exec_cols p) e (result srt s p) = Inr row)"

context replacer begin

lemma tree_cursor:
  "tree_ok k srt s0 e \<Longrightarrow> \<exists>ready at. cursor (vtable k srt R e) (snapshot F s0) ready at (exec_cols e) (tupleLen e) (result srt s0 e) \<and>
     ready e"
proof (induction e)
  case (SeqScan e)
  have "cursor (seq_scan k R) (snapshot F s0) (seq_ready k s0 e) (seq_at s0 e) (sc_cols e) (sc_len e) (scan_rows s0 e)"
    by (rule seq_cursor)
  moreover have "seq_ready k s0 e (SeqScan e)" using SeqScan by (simp add: seq_ready_def same_scan_def)
  ultimately show ?case by auto
next
  case (NestedLoopJoin l r j)
  then obtain ready_l at_l ready_r at_r where
    l: "cursor (vtable k srt R l) (snapshot F s0) ready_l at_l (exec_cols l) (tupleLen l) (result srt s0 l)" "ready_l l"
    and r: "cursor (vtable k srt R r) (snapshot F s0) ready_r at_r (exec_cols r) (tupleLen r) (result srt s0 r)" "ready_r r"
    by auto
  have jc: "join_children (vtable k srt R l) (vtable k srt R r) (snapshot F s0) ready_l at_l (exec_cols l) (tupleLen l) (result srt s0 l)
      ready_r at_r (exec_cols r) (tupleLen r) (result srt s0 r)"
    using l(1) r(1) by (rule join_children.intro)
  from NestedLoopJoin.prems l(2) r(2) have "join_children.join_ready ready_l (exec_cols l) (result srt s0 l) ready_r (exec_cols r)
      (result srt s0 r) j k (NestedLoopJoin l r j)"
    by (simp add: join_children.join_ready_def [OF jc] same_join_def)
  with join_children.join_cursor [OF jc, of k j] show ?case by (simp only: vtable.simps result.simps exec_cols.simps tupleLen.simps) blast
next
  case (Projection p e)
  then obtain ready at where p: "cursor (vtable k srt R p) (snapshot F s0) ready at (exec_cols p) (tupleLen p) (result srt s0 p)" "ready p"
    by auto
  from p(2) have "cursor.projection_ready ready e (Projection p e)" by (simp add: cursor.projection_ready_def [OF p(1)])
  with cursor.projection_cursor [OF p(1), of e] show ?case by (simp only: vtable.simps result.simps exec_cols.simps tupleLen.simps) blast
next
  case (Sort p e)
  then obtain ready at where p: "cursor (vtable k srt R p) (snapshot F s0) ready at (exec_cols p) (tupleLen p) (result srt s0 p)" "ready p"
    by auto
  from p(2) have "cursor.sort_ready ready e (Sort p e)" by (simp add: cursor.sort_ready_def [OF p(1)] same_sort_def)
  moreover from Sort.prems have "length (result srt s0 p) < k" by simp
  note cursor.sort_cursor [OF p(1) this, of srt e]
  ultimately show ?case by (simp only: vtable.simps result.simps exec_cols.simps tupleLen.simps) blast
next
  case (Limit p e)
  then obtain ready at where p: "cursor (vtable k srt R p) (snapshot F s0) ready at (exec_cols p) (tupleLen p) (result srt s0 p)" "ready p"
    by auto
  from p(2) Limit.prems have "cursor.limit_ready ready (exec_cols p) (tupleLen p) (li_limit e) (Limit p e)"
    by (simp add: cursor.limit_ready_def [OF p(1)])
  moreover from Limit.prems have li: "is_i32 (li_limit e)" "li_cols e = exec_cols p" "li_len e = tupleLen p" by simp_all
  note cursor.limit_cursor [OF p(1) this(1)]
  ultimately show ?case by (simp only: vtable.simps result.simps exec_cols.simps tupleLen.simps li) blast
next
  case (Aggregate p e)
  then obtain ready at where p: "cursor (vtable k srt R p) (snapshot F s0) ready at (exec_cols p) (tupleLen p) (result srt s0 p)" "ready p"
    by auto
  from Aggregate.prems obtain row where row: "agg_all (exec_cols p) e (result srt s0 p) = Inr row" by auto
  from p(2) have "cursor.agg_ready ready e (Aggregate p e)" by (simp add: cursor.agg_ready_def [OF p(1)] same_agg_def)
  moreover from Aggregate.prems have "length (result srt s0 p) < k" by simp
  note cursor.agg_cursor [OF p(1) this row]
  ultimately show ?case by (simp only: vtable.simps result.simps exec_cols.simps tupleLen.simps row sum.case) blast
qed simp

lemma tree_result:
  assumes "db_ok F s" and "tree_ok k srt s e" and "length (result srt s e) < k"
  shows "\<exists>e' s'. drain_all k (vtable k srt R e) (e, s) = Ret (result srt s e) (e', s') \<and> snapshot F s s'"
proof -
  from tree_cursor [OF assms(2), of F] obtain ready at where
    c: "cursor (vtable k srt R e) (snapshot F s) ready at (exec_cols e) (tupleLen e) (result srt s e)" "ready e" by blast
  from cursor.drain_all_ok [OF c snapshot_refl [OF assms(1)] assms(3)] show ?thesis by blast
qed

end

end
