(* ===== verification/Output_Props.thy ===== *)
theory Output_Props
  imports Output Query_Trees
begin

text \<open>
  The reply never outgrows its buffer, and the query loop prints exactly the tuples of its executor tree.
\<close>

section \<open>The size of the reply\<close>

text \<open>Room for the final count is kept at all times.\<close>

definition within :: "ctx \<Rightarrow> bool" where
  "within cx \<longleftrightarrow> length (cx_out cx) + RECORD_COUNT_LENGTH < BUFFER_LENGTH"

lemma within_put_text [simp]: "within cx \<Longrightarrow> within (put_text str cx)"
  by (simp add: within_def put_text_def room_for_def)

lemma within_to_file [simp]: "within (to_file str cx) = within cx"
  by (simp add: within_def to_file_def)

lemma within_foldl: "(\<And>cx x. within cx \<Longrightarrow> within (f cx x)) \<Longrightarrow> within cx \<Longrightarrow> within (foldl f cx xs)"
  by (induction xs arbitrary: cx) simp_all

lemma within_print_separator [simp]: "within cx \<Longrightarrow> within (print_separator n cx)"
proof -
  have "within cx \<Longrightarrow> within ((put_text str ^^ m) cx)" for m str by (induction m) simp_all
  then show "within cx \<Longrightarrow> within (print_separator n cx)" by (simp add: print_separator_def)
qed

lemma within_printer_record [simp]:
  assumes "within cx"
  shows "within (printer_record row cx)"
proof -
  have "within (foldl (\<lambda>cx col. put_text (cell col) cx) cx row)" by (rule within_foldl) (use assms in simp_all)
  then show ?thesis by (simp add: printer_record_def Let_def within_def room_for_def)
qed

lemma within_show: "within cx \<Longrightarrow> within (show_tables db cx)" "within cx \<Longrightarrow> within (snd (show_index db t cx))"
  "within cx \<Longrightarrow> within (snd (desc_table db t cx))"
  by (auto simp: show_tables_def show_index_def desc_table_def Let_def intro!: within_print_separator within_foldl split: sum.splits prod.splits)

lemma nat_str_length: "n < 10 ^ d \<Longrightarrow> 0 < d \<Longrightarrow> length (nat_str n) \<le> d"
proof (induction n arbitrary: d rule: nat_str.induct)
  case (1 n)
  show ?case
  proof (cases "n < 10")
    case True
    then show ?thesis using 1(3) by (simp add: nat_str_small)
  next
    case False
    then obtain d' where d: "d = Suc d'" "0 < d'" using 1(2,3) by (cases d; cases "d - 1") auto
    have "n div 10 < 10 ^ d'" using 1(2) d(1) by (simp add: less_mult_imp_div_less mult.commute)
    from 1(1) [OF False this d(2)] False d(1) show ?thesis by (simp add: nat_str_step)
  qed
qed

lemma count_text_length: "n < 10 ^ 14 \<Longrightarrow> length (count_text b n) \<le> RECORD_COUNT_LENGTH"
  using nat_str_length [of n 14] by (simp add: count_text_def RECORD_COUNT_LENGTH_def nl_def)

lemma count_fits: "within cx \<Longrightarrow> n < 10 ^ 14 \<Longrightarrow> length (cx_out (print_record_count n cx)) < BUFFER_LENGTH"
  using count_text_length [of n "cx_ellipsis cx"] by (simp add: within_def print_record_count_def)

section \<open>The query loop\<close>

definition query_output :: "col_meta list \<Rightarrow> string list \<Rightarrow> bytes list \<Rightarrow> ctx \<Rightarrow> ctx" where
  "query_output cols captions tuples cx =
     print_record_count (length tuples)
       (print_separator (length captions) (foldl (print_tuple cols) (print_head captions cx) tuples))"

lemma query_output_fits:
  assumes "within cx" and "length tuples < 10 ^ 14"
  shows "length (cx_out (query_output cols captions tuples cx)) < BUFFER_LENGTH"
proof -
  have "within (print_head captions cx)" using assms(1) by (simp add: print_head_def Let_def)
  then have "within (foldl (print_tuple cols) (print_head captions cx) tuples)"
    by (intro within_foldl) (simp_all add: print_tuple_def Let_def)
  then show ?thesis unfolding query_output_def by (intro count_fits assms(2)) simp
qed

text \<open>What \<^verbatim>\<open>output.txt\<close> is given: a line for the captions and a line for every tuple.\<close>

lemma printer_file [simp]:
  "cx_file (put_text str cx) = cx_file cx" "cx_file (printer_record row cx) = cx_file cx"
  "cx_file (print_separator n cx) = cx_file cx" "cx_file (print_record_count m cx) = cx_file cx"
  "cx_file (to_file str cx) = cx_file cx @ str"
proof -
  show p: "cx_file (put_text str cx) = cx_file cx" for str cx by (simp add: put_text_def)
  have "cx_file (foldl (\<lambda>cx col. put_text (cell col) cx) cx row) = cx_file cx"
    by (induction row arbitrary: cx) (simp_all add: p)
  then show "cx_file (printer_record row cx) = cx_file cx" by (simp add: printer_record_def Let_def)
  have "cx_file ((put_text s ^^ m) cx) = cx_file cx" for s m by (induction m) (simp_all add: p)
  then show "cx_file (print_separator n cx) = cx_file cx" by (simp add: print_separator_def p)
qed (simp_all add: print_record_count_def to_file_def)

lemma query_output_file:
  "cx_file (query_output cols captions tuples cx) =
     cx_file cx @ file_row captions @ concat (map (\<lambda>b. file_row (map (\<lambda>c. col_text c b) cols)) tuples)"
proof -
  have "cx_file (foldl (print_tuple cols) cx tuples) =
      cx_file cx @ concat (map (\<lambda>b. file_row (map (\<lambda>c. col_text c b) cols)) tuples)" for cx
    by (induction tuples arbitrary: cx) (simp_all add: print_tuple_def Let_def)
  then show ?thesis by (simp add: query_output_def print_head_def Let_def)
qed

context cursor begin

lemma select_loop_ok:
  "ready e \<Longrightarrow> at e rs \<Longrightarrow> I s \<Longrightarrow> length rs < k \<Longrightarrow>
     \<exists>e' s'. select_loop k V (length cols) n cx (e, s) = Ret (n + length rs) (foldl (print_tuple cols) cx rs, (e', s')) \<and> I s'"
proof (induction rs arbitrary: k e s n cx)
  case Nil
  then obtain k' where "k = Suc k'" by (cases k) auto
  with Nil end_ok [of e "[]" s] show ?case by simp
next
  case (Cons r rs)
  then obtain k' where k: "k = Suc k'" by (cases k) auto
  from get_ok [OF Cons.prems(1-3)] obtain e1 s1 where
    g: "Next V (e, s) = Ret (Some r) (e1, s1)" "ready e1" "at e1 (r # rs)" "I s1" by blast
  from next_ok [OF g(2-4)] obtain e2 s2 where
    n: "nextTuple V (e1, s1) = Ret () (e2, s2)" "ready e2" "at e2 rs" "I s2" by blast
  from Cons.IH [OF n(2-4), of k' "Suc n" "print_tuple cols cx r"] Cons.prems(4) k g(1) n(1) end_ok [OF Cons.prems(1-3)] cols_ok [OF g(2)]
  show ?case by simp
qed

lemma select_from_ok:
  assumes "ready e" and "I s" and "length tuples < k" and "length sel = length cols" and "cols \<noteq> []"
  shows "\<exists>e' s'. select_from k V sel cx (e, s) = Ret () (query_output cols (map col_name sel) tuples cx, (e', s')) \<and> I s'"
proof -
  from begin_ok [OF assms(1,2)] obtain e1 s1 where
    b: "beginTuple V (e, s) = Ret () (e1, s1)" "ready e1" "at e1 tuples" "I s1" by blast
  have "length sel \<noteq> 0" using assms(4,5) by auto
  with select_loop_ok [OF b(2-4) assms(3), of 0 "print_head (map col_name sel) cx"] b(1) assms(4) show ?thesis
    by (auto simp: select_from_def query_output_def Let_def)
qed

end

context replacer begin

lemma select_tree_ok:
  assumes "db_ok F s" and "tree_ok k srt s e" and "length (result srt s e) < k" and "length sel = length (exec_cols e)" and "exec_cols e \<noteq> []"
  shows "\<exists>e' s'. select_from k (vtable k srt R e) sel cx (e, s) =
      Ret () (query_output (exec_cols e) (map col_name sel) (result srt s e) cx, (e', s')) \<and> snapshot F s s'"
proof -
  from tree_cursor [OF assms(2), of F] obtain ready at where
    c: "cursor (vtable k srt R e) (snapshot F s) ready at (exec_cols e) (tupleLen e) (result srt s e)" "ready e" by blast
  from cursor.select_from_ok [OF c snapshot_refl [OF assms(1)] assms(3-5)] show ?thesis by blast
qed

end

end
