(* ===== verification/Query_Props.thy ===== *)
theory Query_Props
  imports Query_Trees Index_Node_Props "HOL-Library.Multiset"
begin

text \<open>
  What the operators of a query mean: the block nested-loop join is a join, a sort returns a sorted
  permutation, and the results of whole trees, on the LRU buffer pool.
\<close>

section \<open>Join\<close>

text \<open>The textbook nested loop, left tuple by left tuple.\<close>

definition nested_loop :: "(bytes \<Rightarrow> bytes \<Rightarrow> bool) \<Rightarrow> (bytes \<Rightarrow> bytes \<Rightarrow> bytes) \<Rightarrow> bytes list \<Rightarrow> bytes list \<Rightarrow> bytes list" where
  "nested_loop P g ls rs = concat (map (\<lambda>l. map (g l) (filter (P l) rs)) ls)"

lemma pairs_append: "pairs P g (xs @ ys) r = pairs P g xs r @ pairs P g ys r"
  by (simp add: pairs_def)

lemma block_pairs: "mset (concat (map (pairs P g bl) rs)) = mset (nested_loop P g bl rs)"
proof (induction bl)
  case Nil
  have "concat (map (pairs P g []) rs) = []" by (induction rs) (simp_all add: pairs_def)
  then show ?case by (simp add: nested_loop_def)
next
  case (Cons l bl)
  have "mset (concat (map (pairs P g (l # bl)) rs)) =
      mset (concat (map (pairs P g [l]) rs)) + mset (concat (map (pairs P g bl) rs))"
    by (induction rs) (simp_all add: pairs_append [of P g "[l]" bl, simplified])
  moreover have "concat (map (pairs P g [l]) rs) = map (g l) (filter (P l) rs)"
    by (induction rs) (simp_all add: pairs_def)
  ultimately show ?case using Cons.IH by (simp add: nested_loop_def)
qed

lemma nested_loop_append: "nested_loop P g (xs @ ys) rs = nested_loop P g xs rs @ nested_loop P g ys rs"
  by (simp add: nested_loop_def)

lemma join_rows_nested_loop: "0 < m \<Longrightarrow> mset (join_rows m P g ls rs) = mset (nested_loop P g ls rs)"
proof (induction m P g ls rs rule: join_rows.induct)
  case (1 m P g ls rs)
  show ?case
  proof (cases "ls = []")
    case True
    then show ?thesis by (simp add: join_rows.simps nested_loop_def)
  next
    case False
    have "mset (nested_loop P g ls rs) =
        mset (nested_loop P g (fst (block m 0 ls)) rs) + mset (nested_loop P g (snd (block m 0 ls)) rs)"
      using nested_loop_append [of P g "fst (block m 0 ls)" "snd (block m 0 ls)" rs] by (simp add: block_append)
    with 1 False show ?thesis by (subst join_rows.simps) (simp add: block_pairs)
  qed
qed

section \<open>Sort\<close>

text \<open>The contract of \<^verbatim>\<open>std::sort\<close>: given a strict weak order on the elements, it sorts.\<close>

definition strict_weak :: "('a \<Rightarrow> 'a \<Rightarrow> bool) \<Rightarrow> 'a set \<Rightarrow> bool" where
  "strict_weak lt S \<longleftrightarrow> (\<forall>a \<in> S. \<forall>b \<in> S. lt a b \<longrightarrow> \<not> lt b a) \<and>
     (\<forall>a \<in> S. \<forall>b \<in> S. \<forall>c \<in> S. \<not> lt b a \<longrightarrow> \<not> lt c b \<longrightarrow> \<not> lt c a)"

lemma strict_weak_subset: "strict_weak lt S \<Longrightarrow> T \<subseteq> S \<Longrightarrow> strict_weak lt T"
  unfolding strict_weak_def by blast

definition std_sort :: "sorter \<Rightarrow> bool" where
  "std_sort srt \<longleftrightarrow> (\<forall>lt xs. strict_weak lt (set xs) \<longrightarrow>
     mset (srt lt xs) = mset xs \<and> sorted_wrt (\<lambda>a b. \<not> lt b a) (srt lt xs))"

text \<open>A tuple has the columns \<open>cs\<close>, with no NaN in them.\<close>

definition tuple_valid :: "col_meta list \<Rightarrow> bytes \<Rightarrow> bool" where
  "tuple_valid cs b \<longleftrightarrow> (\<forall>c \<in> set cs. col_valid (field c b) (cm_type c) (cm_len c))"

lemma compare_col_ix: "compare_col a b c = ix_compare_col (field c a) (field c b) (cm_type c) (cm_len c)"
  by (simp add: compare_col_def compare_typed_def ix_compare_col_def)

lemma tuple_less_asym:
  "tuple_valid cs a \<Longrightarrow> tuple_valid cs b \<Longrightarrow> tuple_less cs ds a b \<Longrightarrow> \<not> tuple_less cs ds b a"
proof (induction cs ds a b rule: tuple_less.induct)
  case (1 c cs d ds a b)
  have "compare_col a b c = - compare_col b a c"
    unfolding compare_col_ix by (rule col_order.antisym) (use "1.prems" in \<open>auto simp: tuple_valid_def\<close>)
  with 1 show ?case by (auto simp: Let_def tuple_valid_def split: if_splits)
qed auto

lemma tuple_less_trans:
  "tuple_valid cs a \<Longrightarrow> tuple_valid cs b \<Longrightarrow> tuple_valid cs c \<Longrightarrow>
   \<not> tuple_less cs ds b a \<Longrightarrow> \<not> tuple_less cs ds c b \<Longrightarrow> \<not> tuple_less cs ds c a"
proof (induction cs ds a b rule: tuple_less.induct)
  case (1 x cs d ds a b)
  let ?v = "\<lambda>t. col_valid (field x t) (cm_type x) (cm_len x)"
  have v: "?v a" "?v b" "?v c" using "1.prems" by (auto simp: tuple_valid_def)
  have anti: "compare_col s t x = - compare_col t s x" if "?v s" "?v t" for s t
    unfolding compare_col_ix by (rule col_order.antisym) (use that in auto)
  have tr: "compare_col r t x \<le> 0" if "?v r" "?v s" "?v t" "compare_col r s x \<le> 0" "compare_col s t x \<le> 0" for r s t
    using col_order.trans [of "field x r" "cm_type x" "cm_len x" "field x s" "field x t"] that unfolding compare_col_ix by blast
  define p q r where pqr: "p = compare_col a b x" "q = compare_col b c x" "r = compare_col a c x"
  have ba: "compare_col b a x = - p" "compare_col c b x = - q" "compare_col c a x = - r"
    using anti [OF v(2,1)] anti [OF v(3,2)] anti [OF v(3,1)] by (simp_all add: pqr)
  have le: "p \<le> 0 \<Longrightarrow> q \<le> 0 \<Longrightarrow> r \<le> 0" "0 \<le> p \<Longrightarrow> 0 \<le> q \<Longrightarrow> 0 \<le> r"
    "p \<le> 0 \<Longrightarrow> 0 \<le> r \<Longrightarrow> 0 \<le> q" "0 \<le> p \<Longrightarrow> r \<le> 0 \<Longrightarrow> q \<le> 0" "q \<le> 0 \<Longrightarrow> 0 \<le> r \<Longrightarrow> 0 \<le> p" "0 \<le> q \<Longrightarrow> r \<le> 0 \<Longrightarrow> p \<le> 0"
    using tr [OF v(1,2,3)] tr [OF v(3,2,1)] tr [OF v(3,1,2)] tr [OF v(2,1,3)] tr [OF v(2,3,1)] tr [OF v(1,3,2)]
    unfolding ba pqr [symmetric] by linarith+
  have IH: "\<not> tuple_less cs ds c a" if "p = 0" "\<not> tuple_less cs ds b a" "\<not> tuple_less cs ds c b"
    using "1.IH" that "1.prems"(1-3) pqr(1) by (simp add: tuple_valid_def)
  have "(if p = 0 then \<not> tuple_less cs ds b a else if d then 0 < p else p < 0)"
    "(if q = 0 then \<not> tuple_less cs ds c b else if d then 0 < q else q < 0)"
    using "1.prems"(4,5) ba by (auto simp: Let_def split: if_splits)
  then have pq: "p = 0 \<and> q = 0 \<Longrightarrow> \<not> tuple_less cs ds c a" "d \<Longrightarrow> 0 \<le> p \<and> 0 \<le> q" "\<not> d \<Longrightarrow> p \<le> 0 \<and> q \<le> 0"
    using IH by (auto split: if_splits)
  have "r = 0 \<Longrightarrow> p = 0 \<and> q = 0" using pq(2,3) le(3-6) by linarith
  moreover have "d \<Longrightarrow> 0 \<le> r" "\<not> d \<Longrightarrow> r \<le> 0" using pq(2,3) le(1,2) by auto
  ultimately have "if r = 0 then \<not> tuple_less cs ds c a else if d then 0 < r else r < 0" using pq(1) by (simp add: order_less_le)
  then show ?case using ba by (auto simp: Let_def split: if_splits)
qed auto

lemma tuple_less_weak: "(\<And>b. b \<in> S \<Longrightarrow> tuple_valid cs b) \<Longrightarrow> strict_weak (tuple_less cs ds) S"
  unfolding strict_weak_def using tuple_less_asym tuple_less_trans by blast

text \<open>An implementation of the contract.\<close>

primrec insert_by :: "('a \<Rightarrow> 'a \<Rightarrow> bool) \<Rightarrow> 'a \<Rightarrow> 'a list \<Rightarrow> 'a list" where
  "insert_by lt x [] = [x]"
| "insert_by lt x (y # ys) = (if lt y x then y # insert_by lt x ys else x # y # ys)"

primrec insertion_sort :: "('a \<Rightarrow> 'a \<Rightarrow> bool) \<Rightarrow> 'a list \<Rightarrow> 'a list" where
  "insertion_sort lt [] = []"
| "insertion_sort lt (x # xs) = insert_by lt x (insertion_sort lt xs)"

lemma mset_insert_by [simp]: "mset (insert_by lt x xs) = add_mset x (mset xs)"
  by (induction xs) auto

lemma mset_insertion_sort [simp]: "mset (insertion_sort lt xs) = mset xs"
  by (induction xs) auto

lemma set_insert_by [simp]: "set (insert_by lt x xs) = insert x (set xs)"
  by (induction xs) auto

lemma set_insertion_sort [simp]: "set (insertion_sort lt xs) = set xs"
  by (induction xs) auto

lemma insert_by_sorted:
  "strict_weak lt (insert x (set ys)) \<Longrightarrow> sorted_wrt (\<lambda>a b. \<not> lt b a) ys \<Longrightarrow> sorted_wrt (\<lambda>a b. \<not> lt b a) (insert_by lt x ys)"
proof (induction ys)
  case (Cons y ys)
  have sw: "strict_weak lt (insert x (set ys))" by (rule strict_weak_subset [OF Cons.prems(1)]) auto
  show ?case
  proof (cases "lt y x")
    case True
    then have "\<not> lt x y" using Cons.prems(1) by (simp add: strict_weak_def)
    with True Cons.IH [OF sw] Cons.prems(2) show ?thesis by auto
  next
    case False
    have "\<not> lt z x" if "z \<in> set ys" for z
    proof -
      have "\<not> lt z y" using Cons.prems(2) that by simp
      with Cons.prems(1) that False show ?thesis unfolding strict_weak_def by (meson insertCI list.set_intros)
    qed
    with False Cons.prems(2) show ?thesis by simp
  qed
qed simp

lemma insertion_sort_std: "std_sort insertion_sort"
  unfolding std_sort_def
proof (intro allI impI conjI)
  fix lt :: "bytes \<Rightarrow> bytes \<Rightarrow> bool" and xs
  show "mset (insertion_sort lt xs) = mset xs" by simp
  show "sorted_wrt (\<lambda>a b. \<not> lt b a) (insertion_sort lt xs)" if "strict_weak lt (set xs)"
    using that
  proof (induction xs)
    case (Cons x xs)
    have "strict_weak lt (set xs)" by (rule strict_weak_subset [OF Cons.prems]) auto
    then show ?case using Cons insert_by_sorted [of lt x "insertion_sort lt xs"] by simp
  qed simp
qed

section \<open>Queries on the LRU buffer pool\<close>

interpretation seq: cursor "seq_scan k lru_ops" "lru.snapshot F s0" "seq_ready k s0 e" "seq_at s0 e" "sc_cols e" "sc_len e"
    "scan_rows s0 e" for k F s0 e
  by (rule lru.seq_cursor)

interpretation seq_join: join_children "seq_scan k lru_ops" "seq_scan k lru_ops" "lru.snapshot F s0"
    "seq_ready k s0 l" "seq_at s0 l" "sc_cols l" "sc_len l" "scan_rows s0 l"
    "seq_ready k s0 r" "seq_at s0 r" "sc_cols r" "sc_len r" "scan_rows s0 r" j k for k F s0 l r j
  by (rule join_children.intro) (rule lru.seq_cursor)+

text \<open>
  Claim C29. A tree of joins, projections, sorts, limits and aggregates over sequential scans, driven as the
  query loop drives it (\<^verbatim>\<open>beginTuple\<close>, then \<^verbatim>\<open>Next\<close> and \<^verbatim>\<open>nextTuple\<close> until \<^verbatim>\<open>is_end\<close>), ends and returns the
  tuples its relational expression denotes on the records of the tables, and no record of any
  table has changed.
\<close>

theorem query_tree_result:
  assumes "lru.db_ok F s" and "tree_ok k srt s e" and "length (result srt s e) < k"
  shows "\<exists>e' s'. drain_all k (vtable k srt lru_ops e) (e, s) = Ret (result srt s e) (e', s') \<and>
    lru.db_ok F s' \<and> rows s' = rows s"
  using lru.tree_result [OF assms] by (auto simp: lru.snapshot_def)

text \<open>
  Claim C30. The block nested-loop join is a join: whatever the size of its left blocks, it returns as a
  multiset the tuples of the textbook nested loop over the results of its children.
\<close>

theorem block_join_is_join:
  assumes "lru.db_ok F s" and "tree_ok k srt s (NestedLoopJoin l r j)"
    and "length (result srt s (NestedLoopJoin l r j)) < k"
  shows "\<exists>out e' s'. drain_all k (vtable k srt lru_ops (NestedLoopJoin l r j)) (NestedLoopJoin l r j, s) = Ret out (e', s') \<and>
    mset out = mset (nested_loop (join_matches (exec_cols l) (exec_cols r) j) (join_glue (tupleLen l) (tupleLen r) j)
      (result srt s l) (result srt s r))"
proof -
  have "0 < left_block_capacity j" using assms(2) by (simp add: join_fits_def)
  with lru.tree_result [OF assms] join_rows_nested_loop show ?thesis by (metis result.simps(3))
qed

text \<open>
  Claim C31. \<^verbatim>\<open>ORDER BY ... LIMIT n\<close>: when no sort column of a tuple is a NaN, the sort executor returns the
  first \<open>n\<close> tuples (all of them for a negative \<open>n\<close>) of a permutation of its child's tuples in which no
  tuple comes before one that the sort columns and directions put first.
\<close>

theorem sort_is_sorted:
  assumes "lru.db_ok F s" and "tree_ok k srt s (Sort p e)" and "std_sort srt"
    and "\<forall>b \<in> set (result srt s p). tuple_valid (sort_cols e) b" and "length (result srt s (Sort p e)) < k"
  shows "\<exists>ts e' s'. mset ts = mset (result srt s p) \<and>
    sorted_wrt (\<lambda>a b. \<not> tuple_less (sort_cols e) (is_descs e) b a) ts \<and>
    drain_all k (vtable k srt lru_ops (Sort p e)) (Sort p e, s) = Ret (limited (so_limit e) 0 ts) (e', s')"
proof -
  let ?lt = "tuple_less (sort_cols e) (is_descs e)"
  have "strict_weak ?lt (set (result srt s p))" by (rule tuple_less_weak) (use assms(4) in blast)
  with assms(3) have "mset (srt ?lt (result srt s p)) = mset (result srt s p)"
    "sorted_wrt (\<lambda>a b. \<not> ?lt b a) (srt ?lt (result srt s p))" by (auto simp: std_sort_def)
  moreover from lru.tree_result [OF assms(1,2,5)]
  have "\<exists>e' s'. drain_all k (vtable k srt lru_ops (Sort p e)) (Sort p e, s) = Ret (limited (so_limit e) 0 (srt ?lt (result srt s p))) (e', s')"
    by (auto simp: sort_result_def)
  ultimately show ?thesis by blast
qed

section \<open>A database with two records\<close>

definition one_table :: "lru rm_file \<Rightarrow> lru sm" where
  "one_table f = \<lparr>sm_db = \<lparr>db_name = ''d'', tabs = []\<rparr>, fhs = [(''t'', rm_fd f, rm_hdr f)], ihs = [],
                  sm_pool = rm_pool f, dirs = Map.empty, cwd = None\<rparr>"

lemma one_table_ok: "lru.table_pages F f \<Longrightarrow> lru.db_ok F (one_table f)"
  by (cases f) (auto simp: lru.db_ok_def table_of_def one_table_def split: if_splits)

lemma one_table_rows: "rows (one_table f) = (\<lambda>t. if t = ''t'' then records f else Map.empty)"
  by (rule ext, cases f) (auto simp: rows_def table_of_def one_table_def)

definition row1 :: bytes where "row1 = enc_i32 1 @ enc_i32 5"
definition row2 :: bytes where "row2 = enc_i32 2 @ enc_i32 7"

lemma two_records: "\<exists>g. lru.table_pages {3} g \<and> records g = [Rid 1 0 \<mapsto> row1, Rid 1 1 \<mapsto> row2]"
proof -
  have n: "slot_ok (rm_hdr tiny_table) 0" "slot_ok (rm_hdr tiny_table) 1"
    using new_file_hdr_sel(4) [of 8] by (simp_all add: tiny_table_def)
  from lru.insert_record_at_ok [OF lru.table_file_pages [OF tiny_table_ok], of "Rid 1 0" row1] n(1) obtain f where
    f: "lru.table_pages {3} f" "record_size (rm_hdr f) = record_size (rm_hdr tiny_table)"
    "num_records_per_page (rm_hdr f) = num_records_per_page (rm_hdr tiny_table)" "records f = [Rid 1 0 \<mapsto> row1]"
    by (auto simp: tiny_table_hdr RM_FIRST_RECORD_PAGE_def is_i32_def tiny_table_empty row1_def)
  from lru.insert_record_at_ok [OF f(1), of "Rid 1 1" row2] n(2) f obtain g where
    "lru.table_pages {3} g" "records g = [Rid 1 0 \<mapsto> row1, Rid 1 1 \<mapsto> row2]"
    by (auto simp: tiny_table_hdr RM_FIRST_RECORD_PAGE_def is_i32_def row2_def)
  then show ?thesis by blast
qed

lemma small_db: "\<exists>s :: lru sm. lru.db_ok {3} s \<and> rows s ''t'' = [Rid 1 0 \<mapsto> row1, Rid 1 1 \<mapsto> row2] \<and> map_of (fhs s) ''t'' \<noteq> None"
proof -
  from two_records obtain g where "lru.table_pages {3} g" "records g = [Rid 1 0 \<mapsto> row1, Rid 1 1 \<mapsto> row2]" by blast
  then show ?thesis using one_table_ok [of "{3}" g] one_table_rows [of g]
    by (intro exI [of _ "one_table g"]) (simp add: one_table_def)
qed

definition id_col :: col_meta where
  "id_col = \<lparr>cm_tab_name = ''t'', cm_name = ''id'', cm_type = TYPE_INT, cm_len = 4, cm_offset = 0, cm_index = False\<rparr>"

definition id_at_least :: "nat \<Rightarrow> condition" where
  "id_at_least n = \<lparr>lhs_col = \<lparr>tab_name = ''t'', col_name = ''id''\<rparr>, cond_op = OP_GE, is_rhs_val = True,
     rhs_col = \<lparr>tab_name = [], col_name = []\<rparr>, rhs_val = \<lparr>vdata = VInt (int n), raw = Some (enc_i32 (int n))\<rparr>\<rparr>"

definition scan_t :: "nat \<Rightarrow> exec" where
  "scan_t n = SeqScan \<lparr>sc_tab = ''t'', sc_conds = [id_at_least n], sc_cols = [id_col], sc_len = 8, sc_rid = Rid 0 0, sc_scan = None\<rparr>"

definition by_id_desc :: sort_exec where
  "by_id_desc = \<lparr>sort_cols = [id_col], is_descs = [True], so_cols = [id_col], so_len = 8, so_limit = -1, so_cursor = 0, so_tuples = []\<rparr>"

lemma two_rows: "table_rows [Rid 1 0 \<mapsto> row1, Rid 1 1 \<mapsto> row2] = [row1, row2]"
proof -
  have "dom [Rid 1 0 \<mapsto> row1, Rid 1 1 \<mapsto> row2] = {Rid 1 0, Rid 1 1}" by auto
  moreover have "sorted_list_of_set {Rid 1 0, Rid 1 1} = [Rid 1 0, Rid 1 1]"
    using sorted_list_of_set.idem_if_sorted_distinct [of "[Rid 1 0, Rid 1 1]"] by (simp add: less_eq_rid_def after_def)
  ultimately show ?thesis by (simp add: table_rows_def table_rids_def)
qed

lemmas scan_t_simps = scan_t_def scan_rows_def sat_def eval_conds_def eval_cond_def get_col_def id_at_least_def id_col_def
  col_is_def check_compare_def rhs_value_def compare_values_def compare_typed_def field_def int_cmp_def three_way_def

lemma id_of_rows: "get_i32 row1 0 = 1" "get_i32 row2 0 = 2"
  by (simp_all add: row1_def row2_def slice_def is_i32_def)

lemma scan_t_rows:
  assumes "rows s ''t'' = [Rid 1 0 \<mapsto> row1, Rid 1 1 \<mapsto> row2]" and "map_of (fhs s) ''t'' \<noteq> None" and "2 < k"
  shows "tree_ok k srt s (scan_t 1)" and "result srt s (scan_t 1) = [row1, row2]"
    and "tree_ok k srt s (scan_t 2)" and "result srt s (scan_t 2) = [row2]"
proof -
  have r: "dec_i32 (enc_i32 1) = 1" "dec_i32 (enc_i32 2) = 2" by (simp_all add: is_i32_def)
  have d: "dom [Rid 1 0 \<mapsto> row1, Rid 1 1 \<mapsto> row2] = {Rid 1 0, Rid 1 1}"
    "ran [Rid 1 0 \<mapsto> row1, Rid 1 1 \<mapsto> row2] = {row1, row2}" by auto
  show "result srt s (scan_t 1) = [row1, row2]" "result srt s (scan_t 2) = [row2]"
    using assms(1) by (simp_all add: scan_t_simps two_rows id_of_rows r)
  show "tree_ok k srt s (scan_t 1)" "tree_ok k srt s (scan_t 2)"
    using assms by (simp_all add: scan_t_def scan_fit_def d) (auto simp: scan_t_simps id_of_rows r)
qed

theorem query_tree_result_witness:
  "\<exists>(s :: lru sm) e' s'. rows s ''t'' = [Rid 1 0 \<mapsto> row1, Rid 1 1 \<mapsto> row2] \<and>
     drain_all 9 (vtable 9 insertion_sort lru_ops (LimitExecutor (scan_t 1) 1)) (LimitExecutor (scan_t 1) 1, s) = Ret [row1] (e', s') \<and>
     rows s' = rows s"
proof -
  from small_db obtain s :: "lru sm" where
    s: "lru.db_ok {3} s" "rows s ''t'' = [Rid 1 0 \<mapsto> row1, Rid 1 1 \<mapsto> row2]" "map_of (fhs s) ''t'' \<noteq> None" by blast
  note t = scan_t_rows [OF s(2,3), of 9 insertion_sort]
  have "tree_ok 9 insertion_sort s (LimitExecutor (scan_t 1) 1)" "result insertion_sort s (LimitExecutor (scan_t 1) 1) = [row1]"
    using t(1,2) by (simp_all add: LimitExecutor_def is_i32_def limited_def)
  with query_tree_result [OF s(1), of 9 insertion_sort "LimitExecutor (scan_t 1) 1"] s(2) show ?thesis by auto
qed

theorem block_join_is_join_witness:
  "\<exists>(s :: lru sm) out e' s'. rows s ''t'' = [Rid 1 0 \<mapsto> row1, Rid 1 1 \<mapsto> row2] \<and>
     drain_all 99 (vtable 99 insertion_sort lru_ops (NestedLoopJoinExecutor (scan_t 1) (scan_t 2) []))
       (NestedLoopJoinExecutor (scan_t 1) (scan_t 2) [], s) = Ret out (e', s') \<and>
     mset out = {# row1 @ row2, row2 @ row2 #}"
proof -
  from small_db obtain s :: "lru sm" where
    s: "lru.db_ok {3} s" "rows s ''t'' = [Rid 1 0 \<mapsto> row1, Rid 1 1 \<mapsto> row2]" "map_of (fhs s) ''t'' \<noteq> None" by blast
  have "2 < (99 :: nat)" by simp
  note t = scan_t_rows [OF s(2,3) this, of insertion_sort]
  obtain j where j: "NestedLoopJoinExecutor (scan_t 1) (scan_t 2) [] = NestedLoopJoin (scan_t 1) (scan_t 2) j"
    "jn_conds j = []" "0 < left_block_capacity j" "jn_len j = 16"
    by (simp add: NestedLoopJoinExecutor_def scan_t_def)
  have l: "length row1 = 8" "length row2 = 8" "tupleLen (scan_t n) = 8" for n by (simp_all add: row1_def row2_def scan_t_def)
  have m: "join_matches lc rc j a b" "join_glue 8 8 j row1 row2 = row1 @ row2" "join_glue 8 8 j row2 row2 = row2 @ row2" for lc rc a b
    using j l by (simp_all add: join_matches_def eval_join_conds_def join_glue_def join_tuple_def blit_def zeros_def)
  have ok: "tree_ok 99 insertion_sort s (NestedLoopJoin (scan_t 1) (scan_t 2) j)"
    using t j by (auto simp: join_fits_def eval_join_conds_def)
  have nl: "nested_loop (join_matches lc rc j) (join_glue 8 8 j) [row1, row2] [row2] = [row1 @ row2, row2 @ row2]" for lc rc
    using m by (simp add: nested_loop_def)
  have "mset (result insertion_sort s (NestedLoopJoin (scan_t 1) (scan_t 2) j)) = mset [row1 @ row2, row2 @ row2]"
    unfolding result.simps t l join_rows_nested_loop [OF j(3)] nl ..
  from arg_cong [OF this, of size] have "length (result insertion_sort s (NestedLoopJoin (scan_t 1) (scan_t 2) j)) < 99" by simp
  from block_join_is_join [OF s(1) ok this] t l nl j(1) s(2) show ?thesis by auto
qed

theorem sort_is_sorted_witness:
  "\<exists>(s :: lru sm) ts e' s'. rows s ''t'' = [Rid 1 0 \<mapsto> row1, Rid 1 1 \<mapsto> row2] \<and> mset ts = {# row1, row2 #} \<and>
     sorted_wrt (\<lambda>a b. \<not> tuple_less [id_col] [True] b a) ts \<and>
     drain_all 9 (vtable 9 insertion_sort lru_ops (Sort (scan_t 1) by_id_desc)) (Sort (scan_t 1) by_id_desc, s) = Ret ts (e', s')"
proof -
  from small_db obtain s :: "lru sm" where
    s: "lru.db_ok {3} s" "rows s ''t'' = [Rid 1 0 \<mapsto> row1, Rid 1 1 \<mapsto> row2]" "map_of (fhs s) ''t'' \<noteq> None" by blast
  note t = scan_t_rows [OF s(2,3), of 9 insertion_sort]
  have "tuple_valid [id_col] row1" "tuple_valid [id_col] row2"
    by (simp_all add: tuple_valid_def id_col_def field_def col_valid_def row1_def row2_def)
  moreover have "length (result insertion_sort s (Sort (scan_t 1) by_id_desc)) = 2"
    using t by (simp add: sort_result_def by_id_desc_def limited_def flip: size_mset)
  ultimately show ?thesis
    using sort_is_sorted [OF s(1) _ insertion_sort_std, of 9 "scan_t 1" by_id_desc] t s(2)
    by (fastforce simp: by_id_desc_def limited_def)
qed

end
