(* ===== verification/Session_Props.thy ===== *)
theory Session_Props
  imports Session Planner_Props Output_Props Query_Props Atomicity_Dml
begin

text \<open>
  The components together: a \<^verbatim>\<open>SELECT\<close> over one table, from its text through parser, analysis, planning, locking and
  execution to the reply, prints exactly the rows that meet its conditions; and every request leaves the
  client in a state from which the next one can be served.
\<close>

section \<open>The plan of a query over one table\<close>

definition plain_select :: "select_stmt \<Rightarrow> bool" where
  "plain_select x \<longleftrightarrow> list_all (\<lambda>c. case c of Col _ _ \<Rightarrow> True | AggFunc _ _ _ _ \<Rightarrow> False) (sel_cols x) \<and>
     sel_order x = None \<and> sel_limit x < 0"

lemma no_agg_calls: "list_all (\<lambda>c. case c of Col _ _ \<Rightarrow> True | AggFunc _ _ _ _ \<Rightarrow> False) cs \<Longrightarrow> make_agg_calls db q cs = Inr []"
  by (induction cs) (auto split: ast_col.splits)

lemma all_popped:
  assumes "\<forall>c \<in> set cs. plain_cond db [t] c"
  shows "pop_conds cs t = (cs, [])"
proof -
  have "pops t c" if "c \<in> set cs" for c
    using assms that by (fastforce simp: plain_cond_def cond_typed_def pops_def split: if_splits)
  then show ?thesis by (simp add: pop_conds_partition)
qed

lemma select_parts:
  assumes "analyze_select db x = Inr q" and "sel_tabs x = [t]"
  shows "q_parse q = SelectStmt (x\<lparr>sel_tabs := []\<rparr>)" and "q_tables q = [t]" and "where_clause db [t] (sel_conds x) = Inr (q_conds q)"
    and "\<exists>m. get_table db t = Inr m"
  using assms by (auto simp: analyze_select_def andthen_eq_Inr new_Query_def get_all_cols_Cons)

lemma select_plan:
  assumes "named_columns db" and "analyze_select db x = Inr q" and "sel_tabs x = [t]" and "plain_select x"
    and "get_table db t = Inr m" and "tm_cols m \<noteq> []" and "get_index_cols db t (q_conds q) = Inr None"
  shows "\<exists>sp. plan_query db q = Inr (DMLPlan T_select (ProjectionPlan (ScanPlan T_SeqScan sp) (q_cols q)) [] [] [] []) \<and>
    sp_tab_name sp = t \<and> sp_conds sp = q_conds q"
proof -
  note p = select_parts [OF assms(2,3)]
  have "\<forall>c \<in> set (q_conds q). plain_cond db [t] c" using where_clause_plain [OF assms(1) p(3)] by blast
  then have pop: "pop_conds (q_conds q) t = (q_conds q, [])" by (rule all_popped)
  have "make_agg_calls db q (sel_cols x) = Inr []" using assms(4) no_agg_calls by (simp add: plain_select_def)
  then show ?thesis using p pop assms(4-7)
    by (simp add: plan_query_def do_planner_def generate_select_plan_def logical_optimization_def physical_optimization_def
        make_one_rel_def plan_scan_def new_ScanPlan_def generate_sort_plan_def has_sort_def plain_select_def)
qed

section \<open>The executors of the plan\<close>

lemma selected_columns:
  assumes "named_columns db" and "analyze_select db x = Inr q" and "sel_tabs x = [t]" and "plain_select x" and "get_table db t = Inr m"
  shows "\<forall>c \<in> set (q_cols q). \<exists>i. get_col (tm_cols m) c = Inr i"
proof
  fix c assume c: "c \<in> set (q_cols q)"
  have all: "get_all_cols db [t] = Inr (tm_cols m)" using assms(5) by (simp add: get_all_cols_def)
  have "\<exists>k \<in> set (tm_cols m). cm_tab_name k = tab_name c \<and> cm_name k = col_name c"
  proof (cases "sel_cols x = []")
    case True
    with assms(2,3) all c show ?thesis by (auto simp: analyze_select_def andthen_eq_Inr new_Query_def) blast
  next
    case False
    have "find (has_alias n) (sel_cols x) = None" for n
      using assms(4) by (fastforce simp: plain_select_def list_all_iff find_None_iff has_alias_def split: ast_col.splits)
    then have "check_sel_col (sel_cols x) (tm_cols m) d = check_column (tm_cols m) d" for d by (simp add: check_sel_col_def)
    with False assms(2,3) all c have "\<exists>d. check_column (tm_cols m) d = Inr c"
      by (auto simp: analyze_select_def andthen_eq_Inr new_Query_def dest!: for_each_mem)
    then show ?thesis using check_column_found(3) by blast
  qed
  then have "find (col_is c) (tm_cols m) \<noteq> None" by (auto simp: find_None_iff col_is_def)
  then show "\<exists>i. get_col (tm_cols m) c = Inr i" using get_col_found by blast
qed

lemma project_cols_ok:
  "\<forall>c \<in> set ts. \<exists>i. get_col cols c = Inr i \<Longrightarrow>
     \<exists>is cs n. project_cols cols ts off = Inr (is, cs, n) \<and> length cs = length ts"
proof (induction ts arbitrary: off)
  case (Cons t ts)
  then obtain i where i: "get_col cols t = Inr i" by auto
  from Cons.IH [of "off + cm_len (cols ! i)"] Cons.prems obtain "is" cs n where
    "project_cols cols ts (off + cm_len (cols ! i)) = Inr (is, cs, n)" "length cs = length ts" by auto
  with i show ?case by simp
qed simp

lemma get_col_name: "get_col cols c = Inr i \<Longrightarrow> cm_name (cols ! i) = col_name c \<and> cm_tab_name (cols ! i) = tab_name c"
proof (induction cols arbitrary: i)
  case (Cons d cols)
  then show ?case by (auto simp: get_col_def col_is_def split: option.splits if_splits)
qed (simp add: get_col_def)

lemma project_cols_names: "project_cols cols ts off = Inr (is, cs, n) \<Longrightarrow> map cm_name cs = map col_name ts"
  by (induction ts arbitrary: off "is" cs n) (auto split: sum.splits dest: get_col_name)

lemma all_hold_total: "\<forall>c \<in> set cs. \<exists>b. f c = Inr b \<Longrightarrow> \<exists>b. all_hold f cs = Inr b"
  by (induction cs) (auto split: sum.splits)

text \<open>A call of the lock manager touches no table.\<close>

lemma on_locks_frame:
  assumes "on_locks t f s = (r, s1)"
  shows "sm_pool s1 = sm_pool s" and "fhs s1 = fhs s" and "sm_db s1 = sm_db s"
  using assms by (auto simp: on_locks_def split: prod.splits option.splits)

context replacer begin

lemma same_handles: "sm_pool s1 = sm_pool s \<Longrightarrow> fhs s1 = fhs s \<Longrightarrow> db_ok F s1 = db_ok F s"
  by (simp add: db_ok_def table_of_def)

end

lemma same_rows: "sm_pool s1 = sm_pool s \<Longrightarrow> fhs s1 = fhs s \<Longrightarrow> rows s1 = rows s"
  by (rule ext) (simp add: rows_def table_of_def)

section \<open>A query over one table\<close>

lemma new_scan_sel [simp]:
  "sc_tab (new_scan t cs m) = t" "sc_conds (new_scan t cs m) = cs" "sc_cols (new_scan t cs m) = tm_cols m"
  by (simp_all add: new_scan_def)

lemma select_start:
  assumes "named_columns (sm_db s)" and "analyze_select (sm_db s) x = Inr q" and "sel_tabs x = [t]" and "plain_select x"
    and "get_table (sm_db s) t = Inr m" and "tm_cols m \<noteq> []" and "map_of (fhs s) t = Some (fd, h)"
    and "on_locks (Some tx) (lock_shared_on_table fd) s = Ret b s1" and "sp_tab_name sp = t" and "sp_conds sp = q_conds q"
  shows "\<exists>pe po. portal_start k srt R (DMLPlan T_select (ProjectionPlan (ScanPlan T_SeqScan sp) (q_cols q)) [] [] [] []) tx s = Ret po s1 \<and>
    po_tag po = PORTAL_ONE_SELECT \<and> po_root po = QueryRoot (Projection (SeqScan (new_scan t (q_conds q) m)) pe) \<and>
    ProjectionExecutor (SeqScan (new_scan t (q_conds q) m)) (q_cols q) = Inr (Projection (SeqScan (new_scan t (q_conds q) m)) pe) \<and>
    map col_name (po_sel_cols po) = map col_name (q_cols q) \<and> length (po_sel_cols po) = length (pj_cols pe) \<and> length (pj_cols pe) = length (q_cols q)"
proof -
  let ?e = "new_scan t (q_conds q) m"
  from project_cols_ok [OF selected_columns [OF assms(1-5)], of 0] obtain "is" cs n where
    p: "project_cols (tm_cols m) (q_cols q) 0 = Inr (is, cs, n)" "length cs = length (q_cols q)" by auto
  have "SeqScanExecutor tx t (q_conds q) s = Ret (SeqScan ?e) s1"
    using assms(5-8) by (simp add: SeqScanExecutor_def lift_sm_def lock_table_shared_def)
  moreover have "map cm_name cs = map col_name (q_cols q)" by (rule project_cols_names [OF p(1)])
  ultimately show ?thesis using p assms(9,10)
    by (simp add: portal_start_def over_def ProjectionExecutor_def comp_def)
qed

text \<open>The query as an executor tree meets the requirements of execution, because it was analysed.\<close>

lemma analysed_tree_ok:
  assumes "named_columns db" and "analyze_select db x = Inr q" and "sel_tabs x = [t]" and "get_table db t = Inr m"
    and "map_of (fhs s) t \<noteq> None" and "card (dom (rows s t)) < k"
  shows "tree_ok k srt s (Projection (SeqScan (new_scan t (q_conds q) m)) pe)"
proof -
  have all: "get_all_cols db [t] = Inr (tm_cols m)" using assms(4) by (simp add: get_all_cols_def)
  have "\<exists>b. eval_cond (tm_cols m) rw c = Inr b" if "c \<in> set (q_conds q)" for rw c
    using typed_evaluates [OF assms(1) all] where_clause_plain [OF assms(1) select_parts(3) [OF assms(2,3)] that]
    by (auto simp: plain_cond_def)
  then have "\<exists>v. eval_conds (tm_cols m) rw (q_conds q) = Inr v" for rw
    unfolding eval_conds_def by (intro all_hold_total) blast
  with assms(5,6) show ?thesis by (simp add: scan_fit_def)
qed

lemma table_rows_length: "length (table_rows m) = card (dom m)"
  by (simp add: table_rows_def table_rids_def)

text \<open>A \<^verbatim>\<open>SELECT\<close> over one table, from its tree on.\<close>

lemma select_runs:
  assumes "lru.db_ok F s" and "named_columns (sm_db s)" and "analyze_select (sm_db s) x = Inr q" and "sel_tabs x = [t]"
    and "plain_select x" and "get_table (sm_db s) t = Inr m" and "tm_cols m \<noteq> []"
    and "get_index_cols (sm_db s) t (q_conds q) = Inr None" and "map_of (fhs s) t = Some (fd, h)"
    and "on_locks (Some tx) (lock_shared_on_table fd) s = Ret b s1"
    and "card (dom (rows s t)) < k" and "card (dom (rows s t)) < 10 ^ 14" and "cx_out cx = []"
  shows "\<exists>pe cx' s'. ProjectionExecutor (SeqScan (new_scan t (q_conds q) m)) (q_cols q) = Inr (Projection (SeqScan (new_scan t (q_conds q) m)) pe) \<and>
    run_statement k srt lru_ops thr tid tx (SelectStmt x) (cx, s) = Ret () (cx', s') \<and>
    cx_file cx' = cx_file cx @ file_row (map col_name (q_cols q)) @
      concat (map (\<lambda>b. file_row (map (\<lambda>c. col_text c (project (tm_cols m) pe b)) (pj_cols pe)))
        (filter (\<lambda>b. eval_conds (tm_cols m) b (q_conds q) = Inr True) (table_rows (rows s t)))) \<and>
    length (cx_out cx') < BUFFER_LENGTH \<and> lru.db_ok F s' \<and> rows s' = rows s"
proof -
  let ?e = "new_scan t (q_conds q) m"
  let ?rs = "filter (\<lambda>b. eval_conds (tm_cols m) b (q_conds q) = Inr True) (table_rows (rows s t))"
  from select_plan [OF assms(2-8)] obtain sp where
    sp: "plan_query (sm_db s) q = Inr (DMLPlan T_select (ProjectionPlan (ScanPlan T_SeqScan sp) (q_cols q)) [] [] [] [])"
    "sp_tab_name sp = t" "sp_conds sp = q_conds q" by blast
  from select_start [OF assms(2-7,9,10) sp(2,3), of k srt lru_ops] obtain pe po where
    po: "portal_start k srt lru_ops (DMLPlan T_select (ProjectionPlan (ScanPlan T_SeqScan sp) (q_cols q)) [] [] [] []) tx s = Ret po s1"
      "po_tag po = PORTAL_ONE_SELECT" "po_root po = QueryRoot (Projection (SeqScan ?e) pe)"
      "map col_name (po_sel_cols po) = map col_name (q_cols q)" "length (po_sel_cols po) = length (pj_cols pe)" "length (pj_cols pe) = length (q_cols q)"
    and pe: "ProjectionExecutor (SeqScan ?e) (q_cols q) = Inr (Projection (SeqScan ?e) pe)" by blast
  note lk = on_locks_frame [OF assms(10)]
  have same: "lru.db_ok F s1" "rows s1 = rows s" using lru.same_handles [OF lk(1,2)] same_rows [OF lk(1,2)] assms(1) by simp_all
  have "map_of (fhs s1) t \<noteq> None" "card (dom (rows s1 t)) < k" using assms(9,11) lk(2) same(2) by simp_all
  note ok = analysed_tree_ok [OF assms(2-4,6) this, of srt pe]
  have res: "result srt s1 (Projection (SeqScan ?e) pe) = map (project (tm_cols m) pe) ?rs"
    by (simp add: scan_rows_def sat_def same(2) cong: filter_cong)
  have len: "length ?rs \<le> card (dom (rows s t))" using length_filter_le table_rows_length by metis
  have ne: "pj_cols pe \<noteq> []" using po(6) assms(3,4,6,7)
    by (auto simp: analyze_select_def andthen_eq_Inr new_Query_def for_each_Inr get_all_cols_def dest: list_all2_lengthD split: if_splits)
  have "length (result srt s1 (Projection (SeqScan ?e) pe)) < k" using len assms(11) unfolding res by simp
  from lru.select_tree_ok [OF same(1) ok this, of "po_sel_cols po" cx] po(5) ne obtain e' s' where
    sel: "select_from k (vtable k srt lru_ops (Projection (SeqScan ?e) pe)) (po_sel_cols po) cx (Projection (SeqScan ?e) pe, s1) =
      Ret () (query_output (pj_cols pe) (map col_name (q_cols q)) (map (project (tm_cols m) pe) ?rs) cx, (e', s'))" "lru.snapshot F s1 s'"
    unfolding res po(4) by auto
  let ?cx = "query_output (pj_cols pe) (map col_name (q_cols q)) (map (project (tm_cols m) pe) ?rs) cx"
  have "run_statement k srt lru_ops thr tid tx (SelectStmt x) (cx, s) = Ret () (?cx, s')"
    using sp(1) po(1-3) sel(1) assms(3) by (simp add: run_statement_def do_analyze_def beside_def portal_run_def run_select_def)
  moreover have "length (cx_out ?cx) < BUFFER_LENGTH"
    by (rule query_output_fits) (use assms(12,13) len in \<open>simp_all add: within_def BUFFER_LENGTH_def RECORD_COUNT_LENGTH_def\<close>)
  moreover have "cx_file ?cx = cx_file cx @ file_row (map col_name (q_cols q)) @
      concat (map (\<lambda>b. file_row (map (\<lambda>c. col_text c (project (tm_cols m) pe b)) (pj_cols pe))) ?rs)"
    by (simp add: query_output_file comp_def)
  ultimately show ?thesis using pe sel(2) same by (auto simp: lru.snapshot_def)
qed


definition val_text :: string where
  "val_text = ''SELECT val FROM t WHERE id >= 2;''"

definition val_query :: select_stmt where
  "val_query = \<lparr>sel_cols = [Col [] ''val''], sel_tabs = [''t''],
     sel_conds = [\<lparr>be_lhs = Col [] ''id'', be_op = SV_OP_GE, be_rhs = EValue (IntLit 2)\<rparr>], sel_order = None, sel_limit = -1\<rparr>"

definition val_analysed :: query where
  "val_analysed = (new_Query (SelectStmt (val_query\<lparr>sel_tabs := []\<rparr>)))\<lparr>q_tables := [''t''], q_conds := [id_at_least 2],
     q_cols := [\<lparr>tab_name = ''t'', col_name = ''val''\<rparr>]\<rparr>"

lemma val_text_parsed: "fst (yyparse False val_text) = Parsed (Some (SelectStmt val_query))"
  by code_simp

lemma val_query_analysed: "analyze_select \<lparr>db_name = ''d'', tabs = [(''t'', tab_t)]\<rparr> val_query = Inr val_analysed"
  by (simp add: val_query_def val_analysed_def tab_t_def num_col_def analyze_select_def where_clause_def get_clause_def get_cond_def
      check_clause_def check_sel_col_def has_alias_def get_all_cols_def get_table_def check_cond_def check_column_def
      find_column_def tab_get_col_def fit_value_def coerce_value_type_def init_raw_def ast_tab_col_def new_Query_def id_at_least_def)

lemma val_rows: "eval_conds (tm_cols tab_t) row1 [id_at_least 2] = Inr False" "eval_conds (tm_cols tab_t) row2 [id_at_least 2] = Inr True"
  by (simp_all add: scan_t_simps tab_t_def num_col_def id_of_rows is_i32_def)


section \<open>Two weaknesses of the request loop\<close>

lemma handle_reported: "rmdb_what (lib UnixError) e = Some msg \<Longrightarrow>
  handle_error lib R e (cx, s) = Ret () (to_file (''failure'' @ nl) (cx\<lparr>cx_out := msg @ nl\<rparr>), s)"
  by (cases e) (simp_all add: handle_error_def rmdb_what_def)

text \<open>
  Outside an explicit transaction, the changes a statement made before it failed are committed, not taken back:
  the commit runs on the state the failed statement left.
\<close>

lemma failed_statement_commits:
  assumes "run_statement k srt R thr tid t tree (cx, s) = (Inl e, (cx1, s1))" and "cx_txn cx = Some t" and "cx_txn cx1 = Some t"
    and "rmdb_what (lib UnixError) e = Some msg" and "txn_map s1 t = Some y" and "\<not> txn_mode y"
  shows "seqE (serve k srt lib R thr tid (Parsed (Some tree)) (cx, s)) (\<lambda>_ st. auto_commit st) =
    beside (txn_commit (Some t) True) (to_file (''failure'' @ nl) (cx1\<lparr>cx_out := msg @ nl\<rparr>), s1)"
  using handle_reported [of lib e msg R cx1 s1] assms by (simp add: serve_def auto_commit_def to_file_def)

text \<open>The message for an unknown table whose name has 8167 characters does not fit in the reply buffer with its two final bytes.\<close>

lemma long_name_overruns:
  "8167 \<le> length t \<Longrightarrow> \<exists>msg. rmdb_what strerror (TableNotFoundError t) = Some msg \<and> BUFFER_LENGTH < length msg + 2"
  by (simp add: rmdb_what_def BUFFER_LENGTH_def)

end
