(* ===== verification/Parser_Props.thy ===== *)
theory Parser_Props
  imports Parser
begin

text \<open>
  The parser accepts exactly what the grammar derives and builds the trees of its actions; the trees it builds
  have none of the shapes the analysis would stumble over.
\<close>

section \<open>Combinators\<close>

lemma bindP_eq_Inr: "bindP p f ts = Inr y \<longleftrightarrow> (\<exists>x r. p ts = Inr (x, r) \<and> f x r = Inr y)"
  by (auto simp: bindP_def split: sum.splits prod.splits)

lemma retP_eq_Inr: "retP x ts = Inr (v, r) \<longleftrightarrow> v = x \<and> r = ts"
  by (auto simp: retP_def)

lemma tok_eq_Inr: "tok t ts = Inr (u, r) \<longleftrightarrow> ts = t # r"
  by (cases ts) (auto simp: tok_def)

lemma thenP_eq_Inr: "thenP t p ts = Inr y \<longleftrightarrow> (\<exists>r. ts = t # r \<and> p r = Inr y)"
  by (auto simp: thenP_def bindP_eq_Inr tok_eq_Inr)

lemmas accepts = bindP_eq_Inr retP_eq_Inr thenP_eq_Inr

text \<open>Running parsers forwards.\<close>

lemma bindP_step: "p ts = Inr (x, r) \<Longrightarrow> bindP p f ts = f x r"
  by (simp add: bindP_def)

lemma thenP_step [simp]: "thenP t p (t # r) = p r"
  by (simp add: thenP_def bindP_def tok_def)

section \<open>A parser for a grammar symbol\<close>

text \<open>The next token is not one that continues the symbol.\<close>

definition fits :: "token set \<Rightarrow> token list \<Rightarrow> bool" where
  "fits N r \<longleftrightarrow> (case r of [] \<Rightarrow> True | t # _ \<Rightarrow> t \<notin> N)"

lemma fits_simps [simp]: "fits N []" "fits N (t # r) \<longleftrightarrow> t \<notin> N" "fits {} r"
  by (simp_all add: fits_def split: list.split)

lemma fits_mono: "fits N r \<Longrightarrow> M \<subseteq> N \<Longrightarrow> fits M r"
  by (cases r) auto

lemma fits_not: "fits N r \<Longrightarrow> t \<in> N \<Longrightarrow> \<not> (r \<noteq> [] \<and> hd r = t)"
  by (cases r) auto

locale parses =
  fixes p :: "'a parser" and g :: "token list \<Rightarrow> 'a \<Rightarrow> bool" and N :: "token set"
  assumes sound: "p ts = Inr (v, r) \<Longrightarrow> \<exists>us. ts = us @ r \<and> g us v"
    and complete: "g us v \<Longrightarrow> fits N r \<Longrightarrow> p (us @ r) = Inr (v, r)"
begin

lemma rest_le: "p ts = Inr (v, r) \<Longrightarrow> length r \<le> length ts"
  using sound by fastforce

lemma more_sound:
  "p_more k S p vs ts = Inr (ws, r) \<Longrightarrow> g_list S g us vs \<Longrightarrow> \<exists>xs. ts = xs @ r \<and> g_list S g (us @ xs) ws"
proof (induction k arbitrary: vs ts us)
  case (Suc k)
  show ?case
  proof (cases "ts \<noteq> [] \<and> hd ts \<in> S")
    case True
    then obtain t ts' where ts: "ts = t # ts'" "t \<in> S" by (cases ts) auto
    with Suc.prems(1) obtain v r' where v: "p ts' = Inr (v, r')" "p_more k S p (vs @ [v]) r' = Inr (ws, r)"
      by (auto simp: accepts)
    obtain ys where ys: "ts' = ys @ r'" "g ys v" using sound [OF v(1)] by blast
    from list_push [of S g, OF Suc.prems(2) ts(2) ys(2)] Suc.IH [OF v(2)]
    obtain xs where "r' = xs @ r" "g_list S g ((us @ t # ys) @ xs) ws" by blast
    with ts(1) ys(1) show ?thesis by (intro exI [of _ "t # ys @ xs"]) simp
  next
    case False
    with Suc.prems show ?thesis by (auto simp: retP_def)
  qed
qed (auto simp: retP_def)

lemma list_sound: "p_list S p ts = Inr (vs, r) \<Longrightarrow> \<exists>us. ts = us @ r \<and> g_list S g us vs"
proof -
  assume "p_list S p ts = Inr (vs, r)"
  then obtain v r' where v: "p ts = Inr (v, r')" "p_more (length r') S p [v] r' = Inr (vs, r)"
    by (auto simp: p_list_def accepts)
  obtain us where us: "ts = us @ r'" "g us v" using sound [OF v(1)] by blast
  from more_sound [OF v(2) list_one [of g us v S, OF us(2)]] us(1) show ?thesis by auto
qed

text \<open>More fuel than tokens changes nothing, so that one more element can be parsed behind a list.\<close>

lemma more_fuel: "length ts \<le> k \<Longrightarrow> length ts \<le> k' \<Longrightarrow> p_more k S p vs ts = p_more k' S p vs ts"
proof (induction k arbitrary: k' vs ts)
  case 0
  then show ?case by (cases k') (simp_all add: retP_def)
next
  case (Suc k)
  show ?case
  proof (cases k')
    case 0
    with Suc.prems show ?thesis by (simp add: retP_def)
  next
    case (Suc k'')
    have "p (tl ts) = Inr (v, r) \<Longrightarrow> ts \<noteq> [] \<Longrightarrow> p_more k S p (vs @ [v]) r = p_more k'' S p (vs @ [v]) r" for v r
      using Suc.IH [of r k'' "vs @ [v]"] Suc.prems rest_le [of "tl ts" v r] \<open>k' = Suc k''\<close> by (cases ts) auto
    then show ?thesis
      unfolding \<open>k' = Suc k''\<close> by (auto simp: bindP_def split: sum.splits prod.splits)
  qed
qed

lemma more_step:
  assumes "t \<in> S" and "g us v" and "fits N r"
  shows "p_more (length (t # us @ r)) S p vs (t # us @ r) = p_more (length r) S p (vs @ [v]) r"
  using assms(1) complete [OF assms(2,3)] more_fuel [of r "length (us @ r)" "length r"] by (simp add: bindP_step)

lemma more_stop: "fits S r \<Longrightarrow> p_more k S p vs r = Inr (vs, r)"
  by (cases k; cases r) (auto simp: retP_def)

lemma list_step:
  assumes "g_list S g us vs" and "S \<inter> N = {}" and "fits N r"
  shows "p_list S p (us @ r) = p_more (length r) S p vs r"
  using assms
proof (induction arbitrary: r)
  case (list_one us v)
  then show ?case using complete [of us v r] by (simp add: p_list_def bindP_step)
next
  case (list_push us vs t ws v)
  then have "fits N (t # ws @ r)" by auto
  from list_push.IH [OF list_push.prems(1) this] more_step [OF list_push(2,3,6), of vs]
  show ?case by simp
qed

lemma list_parses: "S \<inter> N = {} \<Longrightarrow> parses (p_list S p) (g_list S g) (N \<union> S)"
proof (unfold_locales, goal_cases)
  case 1
  from 1(2) show ?case by (rule list_sound)
next
  case (2 us v r)
  have "fits N r" "fits S r" using 2(3) by (auto elim: fits_mono)
  then show ?case using list_step [OF 2(2,1)] more_stop by simp
qed

lemma mono: "N \<subseteq> M \<Longrightarrow> parses p g M"
  by unfold_locales (auto intro: sound complete fits_mono)

lemma parses_at: "g us v \<Longrightarrow> fits N r \<Longrightarrow> bindP p f (us @ r) = f v r"
  using complete by (rule bindP_step)

end

section \<open>The symbols of the grammar\<close>

interpretation name: parses p_name g_name "{}"
proof (unfold_locales, goal_cases)
  case (1 ts v r)
  then show ?case by (cases ts rule: p_name.cases) (auto intro: g_name.intros)
qed (auto elim: g_name.cases)

lemma p_int_eq: "p_int ts = Inr (n, r) \<longleftrightarrow> (\<exists>b. ts = VALUE_INT n b # r)"
  by (cases ts rule: p_int.cases) auto

interpretation type: parses p_type g_type "{}"
proof (unfold_locales, goal_cases)
  case (1 ts v r)
  then show ?case
    by (cases ts rule: p_type.cases) (auto simp: accepts p_int_eq intro: g_type.intros)
qed (auto elim!: g_type.cases simp: bindP_step retP_def)

interpretation field: parses p_field g_field "{}"
proof (unfold_locales, goal_cases)
  case (1 ts v r)
  then show ?case
    by (fastforce simp: p_field_def accepts dest: name.sound type.sound intro: g_field.intros)
next
  case (2 us v r)
  then show ?case by (auto elim!: g_field.cases simp: p_field_def name.parses_at type.parses_at retP_def)
qed

interpretation val: parses p_value g_value "{}"
proof (unfold_locales, goal_cases)
  case (1 ts v r)
  then show ?case by (cases ts rule: p_value.cases) (auto intro: g_value.intros)
qed (auto elim: g_value.cases)

lemma p_col_eq:
  "p_col ts = Inr (v, r) \<longleftrightarrow>
     (\<exists>a c r'. p_name ts = Inr (a, dot # r') \<and> p_name r' = Inr (c, r) \<and> v = Col a c) \<or>
     (\<exists>a. p_name ts = Inr (a, r) \<and> \<not> (r \<noteq> [] \<and> hd r = dot) \<and> v = Col [] a)"
proof (cases "p_name ts")
  case (Inr x)
  obtain a r' where x: "x = (a, r')" by (cases x)
  show ?thesis by (cases r') (auto simp: p_col_def bindP_step [where p = p_name] Inr x accepts)
qed (simp add: p_col_def bindP_def)

interpretation col: parses p_col g_col "{dot}"
proof (unfold_locales, goal_cases)
  case (1 ts v r)
  then show ?case unfolding p_col_eq by (fastforce dest: name.sound intro: g_col.intros)
next
  case (2 us v r)
  from 2(1) show ?case
  proof cases
    case (1 ws t xs c)
    then show ?thesis by (simp add: p_col_eq name.complete)
  next
    case (2 c)
    then show ?thesis using fits_not [OF \<open>fits {dot} r\<close>, of dot] by (simp add: p_col_eq name.complete)
  qed
qed

interpretation op: parses p_op g_op "{}"
proof (unfold_locales, goal_cases)
  case (1 ts v r)
  then show ?case by (cases ts rule: p_op.cases) (auto intro: g_op.intros split: if_splits)
qed (auto elim: g_op.cases)

lemma g_value_start: "g_value us v \<Longrightarrow> us \<noteq> [] \<and> \<not> is_identifier (hd us)"
  by (auto elim: g_value.cases)

lemma g_col_start: "g_col us c \<Longrightarrow> us \<noteq> [] \<and> is_identifier (hd us)"
  by (auto elim!: g_col.cases g_name.cases)

lemma p_expr_value: "g_value us v \<Longrightarrow> p_expr (us @ r) = bindP p_value (\<lambda>v. retP (EValue v)) (us @ r)"
  using g_value_start [of us v] by (cases us) (auto simp: p_expr_def)

lemma p_expr_col: "g_col us c \<Longrightarrow> p_expr (us @ r) = bindP p_col (\<lambda>c. retP (ECol c)) (us @ r)"
  using g_col_start [of us c] by (cases us) (auto simp: p_expr_def)

interpretation expr: parses p_expr g_expr "{dot}"
proof (unfold_locales, goal_cases)
  case (1 ts v r)
  then show ?case
    by (fastforce simp: p_expr_def accepts dest: col.sound val.sound intro: g_expr.intros split: if_splits)
next
  case (2 us v r)
  then show ?case
    by (cases rule: g_expr.cases) (simp_all add: p_expr_value p_expr_col val.parses_at col.parses_at retP_def)
qed

interpretation condition: parses p_condition g_condition "{dot}"
proof (unfold_locales, goal_cases)
  case (1 ts v r)
  then show ?case
    by (fastforce simp: p_condition_def accepts dest: col.sound op.sound expr.sound intro: g_condition.intros)
next
  case (2 us v r)
  from 2(1) show ?case
  proof cases
    case (1 us' c vs op ws e)
    then have "fits {dot} (vs @ ws @ r)" by (auto elim: g_op.cases)
    with 1 2(2) show ?thesis
      by (simp add: p_condition_def col.parses_at op.parses_at expr.parses_at retP_def)
  qed
qed

interpretation conditions: parses "p_list {Kw K_AND} p_condition" "g_list {Kw K_AND} g_condition" "{Kw K_AND, dot}"
  using condition.list_parses [of "{Kw K_AND}"] by simp

interpretation names: parses "p_list {comma} p_name" "g_list {comma} g_name" "{comma}"
  using name.list_parses [of "{comma}"] by simp

interpretation tables: parses "p_list {comma, Kw K_JOIN} p_name" "g_list {comma, Kw K_JOIN} g_name" "{comma, Kw K_JOIN}"
  using name.list_parses [of "{comma, Kw K_JOIN}"] by simp

interpretation fields: parses "p_list {comma} p_field" "g_list {comma} g_field" "{comma}"
  using field.list_parses [of "{comma}"] by simp

interpretation vals: parses "p_list {comma} p_value" "g_list {comma} g_value" "{comma}"
  using val.list_parses [of "{comma}"] by simp

interpretation colms: parses "p_list {comma} p_col" "g_list {comma} g_col" "{comma, dot}"
  using col.list_parses [of "{comma}"] by simp

interpretation set_clause: parses p_set_clause g_set_clause "{}"
proof (unfold_locales, goal_cases)
  case (1 ts v r)
  then show ?case
    by (fastforce simp: p_set_clause_def accepts dest: name.sound val.sound intro: g_set_clause.intros)
next
  case (2 us v r)
  then show ?case
    by (cases rule: g_set_clause.cases) (simp add: p_set_clause_def name.parses_at val.parses_at retP_def)
qed

interpretation set_clauses: parses "p_list {comma} p_set_clause" "g_list {comma} g_set_clause" "{comma}"
  using set_clause.list_parses [of "{comma}"] by simp

text \<open>Symbols that may be empty look at the next token to decide.\<close>

lemma fits_head: "fits N r \<Longrightarrow> t \<in> N \<Longrightarrow> (r \<noteq> [] \<and> hd r = t) = False"
  by (cases r) auto

interpretation opt_where: parses p_opt_where g_opt_where "{dot, Kw K_AND, Kw K_WHERE}"
proof (unfold_locales, goal_cases)
  case (1 ts v r)
  then show ?case
    by (fastforce simp: p_opt_where_def accepts dest: conditions.sound intro: g_opt_where.intros split: if_splits)
next
  case (2 us v r)
  from 2(2) have "fits {Kw K_AND, dot} r" by (rule fits_mono) auto
  with 2 show ?case
    by (cases rule: g_opt_where.cases) (auto simp: p_opt_where_def conditions.complete retP_def fits_head)
qed

lemma p_asc_desc_default: "fits {Kw K_ASC, Kw K_DESC} r \<Longrightarrow> p_asc_desc r = Inr (OrderBy_DEFAULT, r)"
  by (cases r rule: p_asc_desc.cases) auto

interpretation asc_desc: parses p_asc_desc g_asc_desc "{Kw K_ASC, Kw K_DESC}"
proof (unfold_locales, goal_cases)
  case (1 ts v r)
  then show ?case by (cases ts rule: p_asc_desc.cases) (auto intro: g_asc_desc.intros)
qed (auto elim!: g_asc_desc.cases simp: p_asc_desc_default)

interpretation order_item: parses p_order_item g_order_item "{dot, Kw K_ASC, Kw K_DESC}"
proof (unfold_locales, goal_cases)
  case (1 ts v r)
  then show ?case
    by (fastforce simp: p_order_item_def accepts dest: col.sound asc_desc.sound intro: g_order_item.intros)
next
  case (2 us v r)
  have r: "fits {dot} r" "fits {Kw K_ASC, Kw K_DESC} r" using fits_mono [OF 2(2)] by simp_all
  from 2(1) show ?case
  proof cases
    case (1 us' c ws d)
    with r(1) have "fits {dot} (ws @ r)" by (auto elim: g_asc_desc.cases)
    with 1 r(2) show ?thesis by (simp add: p_order_item_def col.parses_at asc_desc.parses_at retP_def)
  qed
qed

interpretation order_items: parses "p_list {comma} p_order_item" "g_list {comma} g_order_item" "{comma, dot, Kw K_ASC, Kw K_DESC}"
  using order_item.list_parses [of "{comma}"] by simp

interpretation opt_order: parses p_opt_order g_opt_order "{dot, Kw K_ASC, Kw K_DESC, comma, Kw K_ORDER}"
proof (unfold_locales, goal_cases)
  case (1 ts v r)
  then show ?case
    by (fastforce simp: p_opt_order_def accepts dest: order_items.sound intro: g_opt_order.intros split: if_splits)
next
  case (2 us v r)
  from 2(2) have "fits {comma, dot, Kw K_ASC, Kw K_DESC} r" by (rule fits_mono) auto
  with 2 show ?case
    by (cases rule: g_opt_order.cases) (auto simp: p_opt_order_def order_items.parses_at retP_def fits_head)
qed

interpretation opt_limit: parses p_opt_limit g_opt_limit "{Kw K_LIMIT}"
proof (unfold_locales, goal_cases)
  case (1 ts v r)
  then show ?case
    by (fastforce simp: p_opt_limit_def accepts p_int_eq intro: g_opt_limit.intros split: if_splits)
qed (auto elim!: g_opt_limit.cases simp: p_opt_limit_def retP_def dest: fits_not)

section \<open>The select list\<close>

definition g_alias :: "agg_func \<Rightarrow> ast_col option \<Rightarrow> bool \<Rightarrow> token list \<Rightarrow> ast_col list \<Rightarrow> bool" where
  "g_alias f c all us v \<longleftrightarrow> (\<exists>ws a. us = [rpar, Kw K_AS] @ ws \<and> g_name ws a \<and> v = [AggFunc f c a all])"

interpretation aliased: parses "p_alias f c all" "g_alias f c all" "{}" for f c all
proof (unfold_locales, goal_cases)
  case (1 ts v r)
  then show ?case by (fastforce simp: p_alias_def accepts g_alias_def dest: name.sound)
next
  case (2 us v r)
  then show ?case by (auto simp: g_alias_def p_alias_def name.parses_at retP_def)
qed

text \<open>What may stand between the parentheses of an aggregate, with the closing one and the alias.\<close>

definition g_agg :: "agg_func \<Rightarrow> token list \<Rightarrow> ast_col list \<Rightarrow> bool" where
  "g_agg f us v \<longleftrightarrow>
     f = AGG_COUNT \<and> (\<exists>ws. us = star # ws \<and> g_alias f None True ws v) \<or>
     f = AGG_COUNT \<and> g_alias f None True us v \<or>
     (\<exists>xs c ws. us = xs @ ws \<and> g_col xs c \<and> g_alias f (Some c) False ws v)"

lemma p_agg_col:
  assumes "g_col xs c" and "g_alias f (Some c) False ws v"
  shows "p_agg f (xs @ ws @ r) = Inr (v, r)"
proof -
  from assms(2) have "fits {dot} (ws @ r)" by (auto simp: g_alias_def)
  moreover have "hd (xs @ ws @ r) \<noteq> star" "hd (xs @ ws @ r) \<noteq> rpar"
    using g_col_start [OF assms(1)] by (cases xs; auto)+
  ultimately show ?thesis using assms by (simp add: p_agg_def col.parses_at aliased.complete)
qed

lemma p_agg_all: "g_alias AGG_COUNT None True ws v \<Longrightarrow> p_agg AGG_COUNT (ws @ r) = Inr (v, r)"
  using aliased.complete [of AGG_COUNT None True ws v r] by (auto simp: p_agg_def g_alias_def)

lemma p_agg_star: "g_alias AGG_COUNT None True ws v \<Longrightarrow> p_agg AGG_COUNT (star # ws @ r) = Inr (v, r)"
  using aliased.complete [of AGG_COUNT None True ws v r] by (simp add: p_agg_def)

interpretation agg: parses "p_agg f" "g_agg f" "{}" for f
proof (unfold_locales, goal_cases)
  case (1 ts v r)
  then show ?case
    by (fastforce simp: p_agg_def accepts g_agg_def dest: aliased.sound col.sound split: if_splits)
next
  case (2 us v r)
  then show ?case
    unfolding g_agg_def by (elim disjE conjE exE) (simp_all add: p_agg_col p_agg_all p_agg_star)
qed

lemma agg_keyword_identifier: "is_identifier t \<Longrightarrow> agg_keyword t = None \<and> t \<noteq> star"
  by (cases t) (auto simp: agg_keyword_def)

lemma g_list_start: "g_list S g us vs \<Longrightarrow> (\<And>us v. g us v \<Longrightarrow> us \<noteq> [] \<and> P (hd us)) \<Longrightarrow> us \<noteq> [] \<and> P (hd us)"
  by (induction rule: g_list.induct) auto

definition g_selector' :: "token list \<Rightarrow> ast_col list \<Rightarrow> bool" where
  "g_selector' us v \<longleftrightarrow>
     us = [star] \<and> v = [] \<or>
     (\<exists>k f ws. us = k # lpar # ws \<and> agg_keyword k = Some f \<and> g_agg f ws v) \<or>
     g_list {comma} g_col us v"

text \<open>The productions for the aggregates, one by one and with the common shape.\<close>

lemma g_selector_eq: "g_selector us v = g_selector' us v"
proof
  show "g_selector us v \<Longrightarrow> g_selector' us v"
    by (cases rule: g_selector.cases; assumption?)
       (fastforce simp: g_selector'_def g_agg_def g_alias_def agg_keyword_def)+
next
  assume "g_selector' us v"
  then consider "us = [star] \<and> v = []" | "g_list {comma} g_col us v"
    | k f ws where "us = k # lpar # ws" "agg_keyword k = Some f" "g_agg f ws v"
    unfolding g_selector'_def by blast
  then show "g_selector us v"
  proof cases
    case (3 k f ws)
    then show ?thesis
      by (auto simp: g_agg_def g_alias_def agg_keyword_def split: if_splits intro: g_selector.intros g_selector.intros [simplified])
  qed (auto intro: g_selector.intros)
qed

lemma p_selector_cols:
  assumes "g_list {comma} g_col us cs" and "fits {comma, dot} r"
  shows "p_selector (us @ r) = Inr (cs, r)"
proof -
  obtain t us' where "us = t # us'" "is_identifier t"
    using g_list_start [OF assms(1), of is_identifier] g_col_start by (cases us) auto
  then show ?thesis
    using colms.complete [OF assms] agg_keyword_identifier [of t] by (simp add: p_selector_def)
qed

lemma p_selector_agg: "agg_keyword k = Some f \<Longrightarrow> g_agg f ws v \<Longrightarrow> p_selector (k # lpar # ws @ r) = Inr (v, r)"
  using agg.complete [of f ws v r] by (auto simp: p_selector_def agg_keyword_def)

interpretation selector: parses p_selector g_selector "{comma, dot}"
proof (unfold_locales, goal_cases)
  case (1 ts v r)
  show ?case
  proof (cases "ts \<noteq> [] \<and> hd ts = star")
    case True
    with 1 show ?thesis by (auto simp: p_selector_def accepts g_selector_eq g_selector'_def)
  next
    case False
    note star = this
    show ?thesis
    proof (cases "case ts of [] \<Rightarrow> None | t # _ \<Rightarrow> agg_keyword t")
      case None
      with 1 star show ?thesis
        by (auto simp: p_selector_def g_selector_eq g_selector'_def dest: colms.sound)
    next
      case (Some f)
      with 1 star obtain k ws where "ts = k # lpar # ws" "agg_keyword k = Some f" "p_agg f ws = Inr (v, r)"
        by (cases ts) (auto simp: p_selector_def accepts)
      then show ?thesis using agg.sound [of f ws v r] by (fastforce simp: g_selector_eq g_selector'_def)
    qed
  qed
next
  case (2 us v r)
  then show ?case
    unfolding g_selector_eq g_selector'_def
    by (elim disjE conjE exE) (simp_all add: p_selector_cols p_selector_agg, simp add: p_selector_def retP_def)
qed

section \<open>Statements\<close>

definition stmt_next :: "token set" where
  "stmt_next = {dot, comma, Kw K_AND, Kw K_WHERE, Kw K_ASC, Kw K_DESC, Kw K_ORDER, Kw K_LIMIT, Kw K_JOIN}"

definition g_select :: "token list \<Rightarrow> tree_node \<Rightarrow> bool" where
  "g_select us v \<longleftrightarrow> (\<exists>xs cs vs ts ws conds xo ord xl lim.
     us = xs @ Kw K_FROM # vs @ ws @ xo @ xl \<and> g_selector xs cs \<and> g_list {comma, Kw K_JOIN} g_name vs ts \<and>
     g_opt_where ws conds \<and> g_opt_order xo ord \<and> g_opt_limit xl lim \<and> v = new_SelectStmt cs ts conds ord lim)"

lemma fits_limit: "g_opt_limit us n \<Longrightarrow> fits (insert (Kw K_LIMIT) N) r \<Longrightarrow> Kw K_LIMIT \<notin> N \<Longrightarrow> fits N (us @ r)"
  by (auto elim!: g_opt_limit.cases intro: fits_mono)

lemma fits_order: "g_opt_order us n \<Longrightarrow> fits (insert (Kw K_ORDER) N) r \<Longrightarrow> Kw K_ORDER \<notin> N \<Longrightarrow> fits N (us @ r)"
  by (auto elim!: g_opt_order.cases intro: fits_mono)

lemma fits_where: "g_opt_where us n \<Longrightarrow> fits (insert (Kw K_WHERE) N) r \<Longrightarrow> Kw K_WHERE \<notin> N \<Longrightarrow> fits N (us @ r)"
  by (auto elim!: g_opt_where.cases intro: fits_mono)

interpretation select: parses p_select g_select stmt_next
proof (unfold_locales, goal_cases)
  case (1 ts v r)
  then obtain cs r1 tabs r2 conds r3 ord r4 lim where p: "p_selector ts = Inr (cs, Kw K_FROM # r1)"
    "p_list {comma, Kw K_JOIN} p_name r1 = Inr (tabs, r2)" "p_opt_where r2 = Inr (conds, r3)"
    "p_opt_order r3 = Inr (ord, r4)" "p_opt_limit r4 = Inr (lim, r)" "v = new_SelectStmt cs tabs conds ord lim"
    unfolding p_select_def by (auto simp: accepts)
  from selector.sound [OF p(1)] tables.sound [OF p(2)] opt_where.sound [OF p(3)] opt_order.sound [OF p(4)]
    opt_limit.sound [OF p(5)]
  obtain xs vs ws xo xl where "ts = xs @ Kw K_FROM # vs @ ws @ xo @ xl @ r" "g_selector xs cs"
    "g_list {comma, Kw K_JOIN} g_name vs tabs" "g_opt_where ws conds" "g_opt_order xo ord" "g_opt_limit xl lim"
    by fastforce
  moreover from this p(6) have "g_select (xs @ Kw K_FROM # vs @ ws @ xo @ xl) v" unfolding g_select_def by blast
  ultimately show ?case by (intro exI [of _ "xs @ Kw K_FROM # vs @ ws @ xo @ xl"]) simp
next
  case (2 us v r)
  then obtain xs cs vs ts ws conds xo ord xl lim where g: "us = xs @ Kw K_FROM # vs @ ws @ xo @ xl"
    "g_selector xs cs" "g_list {comma, Kw K_JOIN} g_name vs ts" "g_opt_where ws conds" "g_opt_order xo ord"
    "g_opt_limit xl lim" "v = new_SelectStmt cs ts conds ord lim"
    unfolding g_select_def by blast
  note sub = fits_mono [OF 2(2) [unfolded stmt_next_def]]
  have l: "fits {Kw K_LIMIT} r" by (rule sub) auto
  have o: "fits {dot, Kw K_ASC, Kw K_DESC, comma, Kw K_ORDER} (xl @ r)" by (rule fits_limit [OF g(6) sub]) auto
  have w: "fits {dot, Kw K_AND, Kw K_WHERE} (xo @ xl @ r)" by (rule fits_order [OF g(5) fits_limit [OF g(6) sub]]) auto
  have t: "fits {comma, Kw K_JOIN} (ws @ xo @ xl @ r)"
    by (rule fits_where [OF g(4) fits_order [OF g(5) fits_limit [OF g(6) sub]]]) auto
  show ?case
    unfolding g(1) g(7) p_select_def
    using g l o w t
    by (simp add: selector.parses_at tables.parses_at opt_where.parses_at opt_order.parses_at opt_limit.parses_at retP_def)
qed

lemma in_parens_sound:
  assumes "parses (p_list {comma} p) (g_list {comma} g) N" and "p_in_parens p f t ts = Inr (v, r)"
  shows "\<exists>us xs. ts = lpar # us @ rpar # r \<and> g_list {comma} g us xs \<and> v = f t xs"
  using assms(2) parses.sound [OF assms(1)] unfolding p_in_parens_def accepts by fastforce

lemma in_parens_complete:
  assumes "parses (p_list {comma} p) (g_list {comma} g) N" and "rpar \<notin> N" and "g_list {comma} g us xs"
  shows "p_in_parens p f t (lpar # us @ rpar # r) = Inr (f t xs, r)"
  using parses.parses_at [OF assms(1,3), of "rpar # r" "\<lambda>xs. thenP rpar (retP (f t xs))"] assms(2) by (simp add: p_in_parens_def retP_def)

lemmas in_parens_sounds = in_parens_sound [OF names.parses_axioms] in_parens_sound [OF fields.parses_axioms]
  in_parens_sound [OF vals.parses_axioms]
lemmas in_parens_completes = in_parens_complete [OF names.parses_axioms] in_parens_complete [OF fields.parses_axioms]
  in_parens_complete [OF vals.parses_axioms]

lemma g_stmt_select: "g_select us v \<Longrightarrow> g_stmt (Kw K_SELECT # us) v"
  unfolding g_select_def using g_stmt.intros(15) by blast

lemma p_delete_sound: "p_delete ts = Inr (v, r) \<Longrightarrow> \<exists>us. Kw K_DELETE # ts = us @ r \<and> g_stmt us v"
  unfolding p_delete_def accepts
  by (auto dest!: name.sound opt_where.sound) (metis append.assoc append_Cons append_Nil g_stmt.intros(13))

lemma p_update_sound: "p_update ts = Inr (v, r) \<Longrightarrow> \<exists>us. Kw K_UPDATE # ts = us @ r \<and> g_stmt us v"
  unfolding p_update_def accepts
  by (auto dest!: name.sound set_clauses.sound opt_where.sound) (metis append.assoc append_Cons append_Nil g_stmt.intros(14))

lemma p_insert_sound: "p_insert ts = Inr (v, r) \<Longrightarrow> \<exists>us. Kw K_INSERT # ts = us @ r \<and> g_stmt us v"
  unfolding p_insert_def accepts
  by (auto dest!: name.sound in_parens_sounds) (metis append.assoc append_Cons append_Nil g_stmt.intros(12))

lemma p_drop_sound: "p_drop ts = Inr (v, r) \<Longrightarrow> \<exists>us. Kw K_DROP # ts = us @ r \<and> g_stmt us v"
  unfolding p_drop_def accepts
  by (auto dest!: name.sound in_parens_sounds simp: accepts split: if_splits)
     (metis append.assoc append_Cons append_Nil g_stmt.intros(8,11))+

lemma p_create_sound: "p_create ts = Inr (v, r) \<Longrightarrow> \<exists>us. Kw K_CREATE # ts = us @ r \<and> g_stmt us v"
  unfolding p_create_def accepts
  by (auto dest!: name.sound in_parens_sounds simp: accepts split: if_splits)
     (metis append.assoc append_Cons append_Nil g_stmt.intros(7,10))+

lemma p_show_sound: "p_show ts = Inr (v, r) \<Longrightarrow> \<exists>us. Kw K_SHOW # ts = us @ r \<and> g_stmt us v"
  unfolding p_show_def accepts
  by (auto dest!: name.sound simp: accepts split: if_splits)
     (metis append.assoc append_Cons append_Nil g_stmt.intros(5,6))+

lemmas stmt_sounds = p_delete_sound p_update_sound p_insert_sound p_drop_sound p_create_sound p_show_sound

lemma p_stmt_sound: "p_stmt ts = Inr (v, r) \<Longrightarrow> \<exists>us. ts = us @ r \<and> g_stmt us v"
  apply (cases ts rule: p_stmt.cases)
  subgoal by (auto simp: retP_def intro: g_stmt.intros)
  subgoal by (auto simp: retP_def intro: g_stmt.intros)
  subgoal by (auto simp: retP_def intro: g_stmt.intros)
  subgoal by (auto simp: retP_def intro: g_stmt.intros)
  by (fastforce simp: accepts dest: stmt_sounds name.sound select.sound intro: g_stmt_select g_stmt.intros(9))+

text \<open>Every production is found again by the function for its first word.\<close>

lemma p_stmt_complete:
  assumes "g_stmt us v" and "fits stmt_next r"
  shows "p_stmt (us @ r) = Inr (v, r)"
proof -
  note sub = fits_mono [OF assms(2) [unfolded stmt_next_def]]
  have w: "fits {dot, Kw K_AND, Kw K_WHERE} r" by (rule sub) auto
  have c: "g_opt_where ws cs \<Longrightarrow> fits {comma} (ws @ r)" for ws cs by (rule fits_where [OF _ sub]) auto
  show ?thesis
    using assms(1)
  proof cases
    case (15 xs cs vs ts ws conds xo ord xl lim)
    then have "g_select (xs @ Kw K_FROM # vs @ ws @ xo @ xl) v" unfolding g_select_def by blast
    with 15(1) select.complete assms(2) show ?thesis by fastforce
  qed (simp_all add: retP_def p_show_def p_create_def p_drop_def p_insert_def p_delete_def p_update_def name.parses_at
    in_parens_completes opt_where.parses_at [OF _ w] set_clauses.parses_at c)
qed

interpretation stmt: parses p_stmt g_stmt stmt_next
  by unfold_locales (auto dest: p_stmt_sound intro: p_stmt_complete)

lemma g_stmt_start:
  "g_stmt us t \<Longrightarrow> us \<noteq> [] \<and> hd us \<noteq> Kw K_HELP \<and> hd us \<noteq> Kw K_EXIT \<and> (\<forall>b. hd us \<noteq> T_EOF b)"
  by (cases rule: g_stmt.cases) auto

lemma p_start_stmt:
  "ts \<noteq> [] \<Longrightarrow> hd ts \<noteq> Kw K_HELP \<Longrightarrow> hd ts \<noteq> Kw K_EXIT \<Longrightarrow> (\<forall>b. hd ts \<noteq> T_EOF b) \<Longrightarrow>
     p_start ts = bindP p_stmt (\<lambda>t. thenP semicolon (retP (Some t))) ts"
  by (cases ts rule: p_start.cases) auto

interpretation start: parses p_start g_start "{}"
proof (unfold_locales, goal_cases)
  case (1 ts v r)
  have "bindP p_stmt (\<lambda>t. thenP semicolon (retP (Some t))) ts = Inr (v, r) \<Longrightarrow> ?case"
    using g_start.intros(1) by (fastforce simp: accepts dest!: stmt.sound)
  with 1 show ?case
    by (cases ts rule: p_start.cases) (auto simp: retP_def intro: g_start.intros)
next
  case (2 us v r)
  from 2(1) show ?case
  proof cases
    case (1 ws t)
    have "p_start (ws @ semicolon # r) = bindP p_stmt (\<lambda>t. thenP semicolon (retP (Some t))) (ws @ semicolon # r)"
      using g_stmt_start [OF 1(3)] by (intro p_start_stmt) auto
    with 1 show ?thesis by (simp add: stmt.parses_at stmt_next_def retP_def)
  qed (simp_all add: retP_def)
qed

section \<open>What the parser accepts\<close>

lemma yyparse_grammar:
  "fst (yyparse c text) = Parsed t \<longleftrightarrow> (\<exists>us r. scan c text = us @ r \<and> g_start us t \<and> \<not> list_ex out_of_range us)"
proof
  assume "fst (yyparse c text) = Parsed t"
  then obtain r where r: "p_start (scan c text) = Inr (t, r)"
    "\<not> list_ex out_of_range (take (length (scan c text) - length r) (scan c text))"
    by (auto simp: yyparse_def Let_def split: sum.splits if_splits)
  obtain us where "scan c text = us @ r" "g_start us t" using start.sound [OF r(1)] by blast
  with r(2) show "\<exists>us r. scan c text = us @ r \<and> g_start us t \<and> \<not> list_ex out_of_range us" by auto
next
  assume "\<exists>us r. scan c text = us @ r \<and> g_start us t \<and> \<not> list_ex out_of_range us"
  then obtain us r where "scan c text = us @ r" "g_start us t" "\<not> list_ex out_of_range us" by blast
  with start.complete [of us t r] show "fst (yyparse c text) = Parsed t" by (simp add: yyparse_def)
qed


section \<open>The trees the parser builds\<close>

definition literal :: "ast_value \<Rightarrow> bool" where
  "literal v \<longleftrightarrow> v \<noteq> PlainValue"

definition literal_cond :: "binary_expr \<Rightarrow> bool" where
  "literal_cond x = (case be_rhs x of EValue v \<Rightarrow> literal v | ECol _ \<Rightarrow> True)"

definition sel_col_ok :: "ast_col \<Rightarrow> bool" where
  "sel_col_ok c = (case c of Col _ _ \<Rightarrow> True | AggFunc f a alias all \<Rightarrow> all \<or> a \<noteq> None)"

fun built_tree :: "tree_node \<Rightarrow> bool" where
  "built_tree (CreateTable t xs) = (xs \<noteq> [] \<and> PlainField \<notin> set xs)"
| "built_tree (InsertStmt t vs) = list_all literal vs"
| "built_tree (DeleteStmt t cs) = list_all literal_cond cs"
| "built_tree (UpdateStmt t ss cs) = (list_all (\<lambda>s. literal (sv_val s)) ss \<and> list_all literal_cond cs)"
| "built_tree (SelectStmt x) = (sel_tabs x \<noteq> [] \<and> list_all sel_col_ok (sel_cols x) \<and> list_all literal_cond (sel_conds x))"
| "built_tree OtherNode = False"
| "built_tree t = True"

lemma g_list_all: "g_list S g us vs \<Longrightarrow> (\<And>us v. g us v \<Longrightarrow> P v) \<Longrightarrow> vs \<noteq> [] \<and> list_all P vs"
  by (induction rule: g_list.induct) auto

lemma g_value_literal: "g_value us v \<Longrightarrow> literal v"
  by (auto elim: g_value.cases simp: literal_def)

lemma g_condition_literal: "g_condition us c \<Longrightarrow> literal_cond c"
  by (auto elim!: g_condition.cases g_expr.cases simp: literal_cond_def g_value_literal)

lemma g_opt_where_literal: "g_opt_where us cs \<Longrightarrow> list_all literal_cond cs"
  by (auto elim!: g_opt_where.cases dest: g_list_all [OF _ g_condition_literal])

lemma g_col_ok: "g_col us c \<Longrightarrow> sel_col_ok c"
  by (auto elim!: g_col.cases simp: sel_col_ok_def)

lemma g_selector_ok: "g_selector us cs \<Longrightarrow> list_all sel_col_ok cs"
  by (cases rule: g_selector.cases, assumption) (auto simp: sel_col_ok_def dest: g_list_all [OF _ g_col_ok])

lemma g_stmt_built: "g_stmt us t \<Longrightarrow> built_tree t"
proof (cases rule: g_stmt.cases, assumption)
  fix ws t' xs assume *: "t = CreateTable t' xs" "g_list {comma} g_field ws xs"
  have "xs \<noteq> [] \<and> list_all (\<lambda>f. f \<noteq> PlainField) xs"
    by (rule g_list_all [OF *(2)]) (auto elim: g_field.cases)
  with *(1) show ?thesis by (auto simp: list_all_iff)
next
  fix ws t' vs assume *: "t = InsertStmt t' vs" "g_list {comma} g_value ws vs"
  with g_list_all [OF *(2) g_value_literal] show ?thesis by simp
next
  fix vs ss t' ws cs assume *: "t = UpdateStmt t' ss cs" "g_list {comma} g_set_clause vs ss" "g_opt_where ws cs"
  have "ss \<noteq> [] \<and> list_all (\<lambda>s. literal (sv_val s)) ss"
    by (rule g_list_all [OF *(2)]) (auto elim!: g_set_clause.cases dest: g_value_literal)
  with *(1) g_opt_where_literal [OF *(3)] show ?thesis by simp
next
  fix us' cs vs ts ws xs xo ord xl lim
  assume *: "t = new_SelectStmt cs ts xs ord lim" "g_selector us' cs" "g_list {comma, Kw K_JOIN} g_name vs ts" "g_opt_where ws xs"
  with g_list_all [OF *(3), of "\<lambda>_. True"] g_selector_ok g_opt_where_literal show ?thesis by (simp add: new_SelectStmt_def)
qed (auto dest: g_opt_where_literal)

lemma parsed_built: "fst (yyparse c text) = Parsed (Some t) \<Longrightarrow> built_tree t"
  unfolding yyparse_grammar by (auto elim!: g_start.cases dest: g_stmt_built)

end
