(* ===== verification/Statement_Props.thy ===== *)
theory Statement_Props
  imports Session_Props Parser_Props
begin

text \<open>
  What becomes of a request before it runs: the parser builds only trees that the analysis and the planner can take,
  so that they either succeed or throw an exception with a message for the client.
\<close>

section \<open>Steps that do not crash\<close>

text \<open>A step fails with an exception of \<^verbatim>\<open>errors.h\<close> only, never by an assertion or a null pointer.\<close>

definition tame :: "rmdb_error + 'a \<Rightarrow> bool" where
  "tame r = (case r of Inl e \<Rightarrow> error_text [] e \<noteq> None | Inr _ \<Rightarrow> True)"

lemma tame_simps [simp]: "tame (Inr x)" "tame (Inl e) \<longleftrightarrow> error_text [] e \<noteq> None"
  by (simp_all add: tame_def)

lemma tame_andthen: "tame r \<Longrightarrow> (\<And>x. r = Inr x \<Longrightarrow> tame (f x)) \<Longrightarrow> tame (andthen r f)"
  by (cases r) (simp_all add: andthen_def)

lemma tame_for_each: "(\<And>x. x \<in> set xs \<Longrightarrow> tame (f x)) \<Longrightarrow> tame (for_each f xs)"
  by (induction xs) (auto intro!: tame_andthen)

lemma tame_if: "(b \<Longrightarrow> tame x) \<Longrightarrow> (\<not> b \<Longrightarrow> tame y) \<Longrightarrow> tame (if b then x else y)"
  by simp

section \<open>The catalogue\<close>

text \<open>Every table has a column, and the columns have the lengths of their types.\<close>

definition sized_col :: "col_meta \<Rightarrow> bool" where
  "sized_col c = (case cm_type c of TYPE_STRING \<Rightarrow> True | TYPE_INT \<Rightarrow> cm_len c = 4 | TYPE_FLOAT \<Rightarrow> cm_len c = 4 | _ \<Rightarrow> cm_len c = 8)"

definition sized_catalogue :: "db_meta \<Rightarrow> bool" where
  "sized_catalogue db \<longleftrightarrow> list_all (\<lambda>(t, m). tm_cols m \<noteq> [] \<and> list_all sized_col (tm_cols m)) (tabs db)"

lemma tame_get_table: "tame (get_table db t)"
  by (simp add: get_table_def split: option.split)

lemma get_table_sized:
  assumes "sized_catalogue db" and "get_table db t = Inr m"
  shows "tm_cols m \<noteq> []" and "c \<in> set (tm_cols m) \<Longrightarrow> sized_col c"
proof -
  from assms(2) have "(t, m) \<in> set (tabs db)" by (auto simp: get_table_def split: option.splits dest: map_of_SomeD)
  with assms(1) show "tm_cols m \<noteq> []" "c \<in> set (tm_cols m) \<Longrightarrow> sized_col c" by (auto simp: sized_catalogue_def list_all_iff)
qed

lemma tame_get_all_cols: "tame (get_all_cols db ts)"
  unfolding get_all_cols_def by (intro tame_andthen tame_for_each tame_get_table) simp

section \<open>Analysis\<close>

lemma tame_infer_table: "tame (infer_table n t cs)"
  by (induction n t cs rule: infer_table.induct) simp_all

lemma tame_check_column: "tame (check_column cs c)"
  unfolding check_column_def by (intro tame_if tame_andthen tame_infer_table) simp_all

lemma tame_find_column: "tame (find_column db c)"
  unfolding find_column_def by (intro tame_andthen tame_get_table) (simp add: tab_get_col_def split: option.split)

lemma find_mem: "find P xs = Some x \<Longrightarrow> x \<in> set xs"
  by (auto simp: find_Some_iff)

lemma find_column_sized: "sized_catalogue db \<Longrightarrow> find_column db d = Inr c \<Longrightarrow> sized_col c"
  by (auto simp: find_column_def andthen_eq_Inr tab_get_col_def split: option.splits dest: get_table_sized(2) find_mem)

lemma tame_convert: "literal v \<Longrightarrow> tame (convert_sv_value v)"
  by (cases v) (simp_all add: literal_def)

lemma convert_raw: "convert_sv_value v = Inr w \<Longrightarrow> raw w = None"
  by (cases v) auto

lemma tame_coerce: "tame (coerce_value_type v t n)"
  by (cases t; cases "vdata v") (auto simp: coerce_value_type_def Let_def split: option.split)

lemma coerce_fits: "coerce_value_type v t n = Inr w \<Longrightarrow> value_type (vdata w) = t \<and> raw w = raw v"
  by (cases t; cases "vdata v") (auto simp: coerce_value_type_def Let_def split: option.splits if_splits)

lemma tame_fit_value:
  assumes "sized_col c" and "raw v = None"
  shows "tame (fit_value v c)"
  unfolding fit_value_def
proof (intro tame_andthen tame_coerce)
  fix w assume "coerce_value_type v (cm_type c) (cm_len c) = Inr w"
  then have "value_type (vdata w) = cm_type c" "raw w = None" using coerce_fits assms(2) by auto
  with assms(1) show "tame (init_raw w (cm_len c))"
    by (cases "vdata w") (auto simp: init_raw_def sized_col_def split: col_type.splits)
qed

lemma tame_get_cond: "literal_cond x \<Longrightarrow> tame (get_cond x)"
  unfolding get_cond_def Let_def
  by (cases "be_rhs x") (auto simp: literal_cond_def intro!: tame_andthen tame_convert)

lemma get_cond_raw: "get_cond x = Inr c \<Longrightarrow> raw (rhs_val c) = None"
  by (cases "be_rhs x") (auto simp: get_cond_def no_value_def andthen_eq_Inr Let_def dest: convert_raw)

lemma tame_check_cond: "sized_catalogue db \<Longrightarrow> raw (rhs_val c) = None \<Longrightarrow> tame (check_cond db cs c)"
  unfolding check_cond_def
  by (intro tame_andthen tame_check_column tame_find_column tame_if tame_fit_value)
     (auto intro: tame_check_column find_column_sized split: prod.split)

lemma tame_where:
  assumes "sized_catalogue db" and "list_all literal_cond xs"
  shows "tame (where_clause db ts xs)"
  unfolding where_clause_def get_clause_def check_clause_def
proof (intro tame_andthen tame_get_all_cols tame_for_each)
  show "x \<in> set xs \<Longrightarrow> tame (get_cond x)" for x using assms(2) by (auto simp: list_all_iff intro: tame_get_cond)
  fix conds c cs assume "for_each get_cond xs = Inr conds" and "c \<in> set conds"
  then show "tame (check_cond db cs c)"
    using for_each_mem [of get_cond xs conds c] get_cond_raw assms(1) tame_check_cond by blast
qed

lemma tame_sel_col: "list_all sel_col_ok xs \<Longrightarrow> tame (check_sel_col xs cs c)"
  unfolding check_sel_col_def
  by (auto split: option.splits ast_col.splits intro!: tame_check_column tame_andthen dest!: find_mem simp: list_all_iff sel_col_ok_def)

lemma tame_analyze_select:
  assumes "sized_catalogue db" and "built_tree (SelectStmt x)"
  shows "tame (analyze_select db x)"
  unfolding analyze_select_def
  by (intro tame_andthen tame_get_all_cols tame_if tame_for_each tame_where tame_sel_col assms(1)) (use assms(2) in auto)

lemma tame_analyze_set:
  assumes "sized_catalogue db" and "literal (sv_val x)"
  shows "tame (analyze_set db t cs x)"
  unfolding analyze_set_def
  by (intro tame_andthen tame_check_column tame_convert tame_find_column tame_fit_value assms(2))
     (auto intro: find_column_sized [OF assms(1)] convert_raw)

lemma tame_analyze_update:
  assumes "sized_catalogue db" and "built_tree (UpdateStmt t ss xs)"
  shows "tame (analyze_update db t ss xs)"
  unfolding analyze_update_def
  by (intro tame_andthen tame_get_all_cols tame_for_each tame_where tame_analyze_set assms(1)) (use assms(2) in \<open>auto simp: list_all_iff\<close>)

lemma tame_analyze_insert:
  assumes "sized_catalogue db" and "list_all literal vs"
  shows "tame (analyze_insert db t vs)"
  unfolding analyze_insert_def
proof (intro tame_andthen tame_get_table tame_if tame_for_each)
  fix m x assume m: "get_table db t = Inr m" and x: "x \<in> set (zip vs (tm_cols m))"
  obtain v c where vc: "x = (v, c)" by (cases x)
  from x have "v \<in> set vs" "c \<in> set (tm_cols m)" unfolding vc by (auto dest: set_zip_leftD set_zip_rightD)
  then have "literal v" "sized_col c" using assms get_table_sized(2) [OF assms(1) m] by (auto simp: list_all_iff)
  then show "tame (case x of (v, c) \<Rightarrow> andthen (convert_sv_value v) (\<lambda>w. fit_value w c))"
    unfolding vc prod.case by (intro tame_andthen tame_convert tame_fit_value) (auto dest: convert_raw)
qed simp_all

lemma tame_analyze: "sized_catalogue db \<Longrightarrow> built_tree t \<Longrightarrow> tame (do_analyze db t)"
  by (cases t) (auto simp: do_analyze_def intro: tame_analyze_select tame_analyze_update [simplified] tame_analyze_insert tame_andthen tame_where)

section \<open>Planning\<close>

lemma tame_plan_scan: "sized_catalogue db \<Longrightarrow> tame (plan_scan db t conds)"
  unfolding plan_scan_def get_index_cols_def new_ScanPlan_def
  by (intro tame_andthen tame_get_table) (auto split: prod.split option.split intro!: tame_andthen tame_get_table dest: get_table_sized(1))

lemma tame_plan_scans: "sized_catalogue db \<Longrightarrow> tame (plan_scans db ts conds)"
  by (induction db ts conds rule: plan_scans.induct) (auto split: prod.split intro!: tame_andthen tame_plan_scan)

lemma plan_scans_length: "plan_scans db ts conds = Inr (ps, cs) \<Longrightarrow> length ps = length ts"
  by (induction db ts conds arbitrary: ps cs rule: plan_scans.induct) (auto simp: andthen_eq_Inr split: prod.splits)

lemma tame_make_one_rel:
  assumes "sized_catalogue db" and "q_tables q \<noteq> []"
  shows "tame (make_one_rel db q)"
  unfolding make_one_rel_def
proof (intro tame_andthen tame_plan_scans assms(1))
  fix z assume z: "plan_scans db (q_tables q) (q_conds q) = Inr z"
  obtain ps cs where "z = (ps, cs)" by (cases z)
  with z plan_scans_length assms(2) have "ps \<noteq> []" by fastforce
  then show "tame (case z of (scans, conds) \<Rightarrow> if length (q_tables q) = 1 then Inr (hd scans) else join_scans scans conds)"
    by (auto simp: \<open>z = (ps, cs)\<close> join_scans_def Let_def split: list.split prod.split)
qed

lemma tame_sort_plan: "tame (generate_sort_plan db q x p)"
  unfolding generate_sort_plan_def
  by (auto split: option.split intro!: tame_andthen tame_get_all_cols tame_for_each tame_check_column)

lemma tame_agg_calls: "list_all sel_col_ok cs \<Longrightarrow> tame (make_agg_calls db q cs)"
proof (induction db q cs rule: make_agg_calls.induct)
  case (3 db q f a al all cs)
  have "tame (agg_column db q c)" for c
    unfolding agg_column_def by (intro tame_andthen tame_get_all_cols tame_if tame_infer_table) simp_all
  with 3 show ?case by (auto simp: sel_col_ok_def split: option.split intro!: tame_andthen)
qed simp_all

lemma tame_select_plan:
  assumes "sized_catalogue db" and "q_tables q \<noteq> []" and "list_all sel_col_ok (sel_cols x)"
  shows "tame (generate_select_plan db q x)"
  unfolding generate_select_plan_def physical_optimization_def Let_def logical_optimization_def
  by (intro tame_andthen tame_make_one_rel tame_sort_plan tame_agg_calls assms) simp_all

lemma tame_interp_fields: "PlainField \<notin> set xs \<Longrightarrow> tame (for_each interp_field xs)"
proof (rule tame_for_each)
  fix f assume "PlainField \<notin> set xs" "f \<in> set xs"
  then show "tame (interp_field f)" by (cases f) auto
qed

lemma analyzed_parse:
  assumes "do_analyze db t = Inr q"
  shows "(\<exists>x. t = SelectStmt x \<and> q_parse q = SelectStmt (x\<lparr>sel_tabs := []\<rparr>) \<and> q_tables q = sel_tabs x) \<or> (\<forall>x. t \<noteq> SelectStmt x) \<and> q_parse q = t"
  using assms
  by (cases t)
     (auto simp: do_analyze_def analyze_select_def analyze_update_def analyze_insert_def andthen_eq_Inr new_Query_def split: if_splits)

lemma tame_plan_query:
  assumes "sized_catalogue db" and "built_tree t" and "do_analyze db t = Inr q"
  shows "tame (plan_query db q)"
proof -
  consider x where "t = SelectStmt x" "q_parse q = SelectStmt (x\<lparr>sel_tabs := []\<rparr>)" "q_tables q = sel_tabs x"
    | "\<forall>x. t \<noteq> SelectStmt x" "q_parse q = t"
    using analyzed_parse [OF assms(3)] by blast
  then show ?thesis
  proof cases
    case (1 x)
    have "tame (generate_select_plan db q (x\<lparr>sel_tabs := []\<rparr>))"
      by (rule tame_select_plan [OF assms(1)]) (use 1 assms(2) in simp_all)
    with 1 show ?thesis by (auto simp: plan_query_def do_planner_def intro: tame_andthen)
  next
    case 2
    with assms(1,2) show ?thesis
      by (cases t) (auto simp: plan_query_def do_planner_def intro!: tame_andthen tame_plan_scan tame_interp_fields)
  qed
qed

section \<open>Refused requests\<close>

lemma reported: "error_text [] e \<noteq> None \<Longrightarrow> \<exists>msg. rmdb_what strerror e = Some msg"
  by (cases e) (simp_all add: rmdb_what_def)


definition price_text :: string where
  "price_text = ''SELECT price FROM t WHERE id >= 2;''"

lemma price_parsed: "fst (yyparse False price_text) = Parsed (Some (SelectStmt
    \<lparr>sel_cols = [Col [] ''price''], sel_tabs = [''t''],
     sel_conds = [\<lparr>be_lhs = Col [] ''id'', be_op = SV_OP_GE, be_rhs = EValue (IntLit 2)\<rparr>], sel_order = None, sel_limit = -1\<rparr>))"
  by code_simp


section \<open>Two weaknesses of the scanner\<close>

text \<open>
  A character no rule matches is skipped with a message on the console only, so that \<^verbatim>\<open>!=\<close> is read as \<^verbatim>\<open>=\<close>: the statement
  deletes the one record it should keep.
\<close>

lemma not_equals_read_as_equals:
  "fst (yyparse False ''DELETE FROM t WHERE id != 5;'') =
     Parsed (Some (DeleteStmt ''t'' [\<lparr>be_lhs = Col [] ''id'', be_op = SV_OP_EQ, be_rhs = EValue (IntLit 5)\<rparr>]))"
  by code_simp

text \<open>
  A comment that is still open at the end of a request is open at the beginning of the next one, of whatever client: every
  request without the end of a comment is swallowed, without an error.
\<close>

lemma open_comment_stays: "yyparse False ''/* note'' = (Parsed None, True)"
  by code_simp

lemma open_comment_swallows: "comment_end text = None \<Longrightarrow> yyparse True text = (Parsed None, True)"
  by (simp add: yyparse_def retP_def)

end
