(* ===== verification/Parser_Text.thy ===== *)
theory Parser_Text
  imports Parser_Props
begin

text \<open>
  Writing statements down. \<open>sql_text\<close> prints a syntax tree as a request; scanning and parsing the text gives the
  tree back. Floating-point literals are printed with all their decimal places, which are finitely many.
\<close>

section \<open>Tokens as text\<close>

fun float_str :: "fp \<Rightarrow> string" where
  "float_str (Fin neg m e) =
     (if neg then ''-'' else []) @
     (if 0 \<le> e then nat_str (m * 2 ^ nat e) @ ''.''
      else let d = nat (- e); ds = pad0 (Suc d) (nat_str (m * 5 ^ d)); k = length ds - d in take k ds @ ''.'' @ drop k ds)"
| "float_str _ = []"

fun tok_text :: "token \<Rightarrow> string" where
  "tok_text GEQ = ''>=''"
| "tok_text LEQ = ''<=''"
| "tok_text NEQ = ''<>''"
| "tok_text (Op c) = [c]"
| "tok_text (IDENTIFIER s) = s"
| "tok_text (VALUE_INT i b) = int_str i"
| "tok_text (VALUE_FLOAT x) = float_str x"
| "tok_text (VALUE_STRING s) = quote # s @ [quote]"
| "tok_text t = (case find (\<lambda>e. snd e = t) keyword_table of Some e \<Rightarrow> fst e | None \<Rightarrow> [])"

definition ident_ok :: "string \<Rightarrow> bool" where
  "ident_ok s \<longleftrightarrow> (case s of [] \<Rightarrow> False | c # cs \<Rightarrow> is_alpha c \<and> list_all ident_char cs) \<and> map_of keyword_table (map upcase s) = None"

definition float_ok :: "fp \<Rightarrow> bool" where
  "float_ok x = (case x of Fin neg m e \<Rightarrow> to_f32 x = x | _ \<Rightarrow> False)"

fun tok_ok :: "token \<Rightarrow> bool" where
  "tok_ok GEQ = True"
| "tok_ok LEQ = True"
| "tok_ok NEQ = True"
| "tok_ok (Op c) = single_op c"
| "tok_ok (IDENTIFIER s) = ident_ok s"
| "tok_ok (VALUE_INT i b) = (is_i64 i \<and> \<not> b)"
| "tok_ok (VALUE_FLOAT x) = float_ok x"
| "tok_ok (VALUE_STRING s) = (quote \<notin> set s)"
| "tok_ok t = (t \<in> snd ` set keyword_table)"

definition tokens_text :: "token list \<Rightarrow> string" where
  "tokens_text ts = concat (map (\<lambda>t. tok_text t @ '' '') ts)"

section \<open>Scanning words\<close>

lemma alpha_not_special: "is_alpha c \<Longrightarrow> c \<noteq> CHR ''/'' \<and> c \<noteq> CHR ''-'' \<and> c \<noteq> CHR ''>'' \<and> c \<noteq> CHR ''<'' \<and> \<not> single_op c"
  by (auto simp: is_alpha_def single_op_def)

lemma space_not_ident: "\<not> ident_char (CHR '' '')"
  by (simp add: ident_char_def is_alpha_def is_digit_def)

lemma scan_space: "scan False (CHR '' '' # s) = scan False s"
  by (simp add: lex_rule_def single_op_def is_alpha_def is_digit_def is_sign_def quote_def)

lemma scan_word:
  assumes "is_alpha c" and "list_all ident_char cs"
  shows "scan False ((c # cs) @ '' '' @ s) = word_token (c # cs) # scan False s"
proof -
  have "lex_rule c (cs @ '' '' @ s) = (Return (word_token (c # cs)), '' '' @ s)"
    using alpha_not_special [OF assms(1)] assms takeWhile_word [OF assms(2), of "'' '' @ s"] space_not_ident
    by (simp add: lex_rule_def)
  then show ?thesis using scan_space [of s] by simp
qed

lemma keyword_words:
  "list_all (\<lambda>(w, t). w \<noteq> [] \<and> is_alpha (hd w) \<and> list_all ident_char (tl w) \<and> map upcase w = w) keyword_table"
  by code_simp

lemma keyword_table_distinct: "distinct (map fst keyword_table)"
  by code_simp

lemma scan_keyword:
  assumes "(w, t) \<in> set keyword_table"
  shows "scan False (w @ '' '' @ s) = t # scan False s"
proof -
  from keyword_words assms have w: "w \<noteq> []" "is_alpha (hd w)" "list_all ident_char (tl w)" "map upcase w = w"
    by (auto simp: list_all_iff)
  moreover have "word_token w = t"
    using map_of_is_SomeI [OF keyword_table_distinct assms] w(4) by (simp add: word_token_def)
  ultimately show ?thesis using scan_word [of "hd w" "tl w" s] by simp
qed

lemma scan_ident: "ident_ok w \<Longrightarrow> scan False (w @ '' '' @ s) = IDENTIFIER w # scan False s"
  using scan_word [of "hd w" "tl w" s] by (auto simp: ident_ok_def word_token_def split: list.splits)

section \<open>Scanning numbers\<close>

lemma digit_not_special:
  "is_digit c \<Longrightarrow> c \<noteq> CHR ''/'' \<and> c \<noteq> CHR ''-'' \<and> c \<noteq> CHR ''>'' \<and> c \<noteq> CHR ''<'' \<and> \<not> single_op c \<and> \<not> is_alpha c"
  by (auto simp: is_digit_def is_alpha_def single_op_def)

text \<open>A sign and digits: the scanner hands the digits to \<open>number\<close>.\<close>

lemma scan_number:
  assumes "ds = c # cs" and "is_digit c" and "number neg (ds @ s) = (t, r)"
  shows "scan False ((if neg then ''-'' else []) @ ds @ s) = t # scan False r"
proof (cases neg)
  case True
  have "lex_rule (CHR ''-'') (ds @ s) = (Return t, r)"
    using assms digit_not_special [OF assms(2)] True
    by (simp add: lex_rule_def single_op_def is_alpha_def is_sign_def) (simp add: is_digit_def)
  with True show ?thesis by simp
next
  case False
  have "lex_rule c (cs @ s) = (Return t, r)"
    using assms digit_not_special [OF assms(2)] False by (simp add: lex_rule_def)
  with False assms(1) show ?thesis by simp
qed

lemma space_not_digit: "\<not> is_digit (CHR '' '')" "\<not> is_digit (CHR ''.'')"
  by (simp_all add: is_digit_def)

lemma nat_str_Cons: "\<exists>c cs. nat_str n = c # cs \<and> is_digit c"
  using nat_str_digits [of n] by (cases "nat_str n") auto

lemma number_int:
  "number neg (nat_str n @ '' '' @ s) = (case strtoll neg n of (v, b) \<Rightarrow> (VALUE_INT v b, '' '' @ s))"
  using takeWhile_word [of is_digit "nat_str n" "'' '' @ s"] nat_str_digits [of n] space_not_digit(1)
  by (simp add: number_def)

lemma strtoll_small: "is_i64 (if neg then - int n else int n) \<Longrightarrow> strtoll neg n = (if neg then - int n else int n, False)"
  by (auto simp: strtoll_def is_i64_def Let_def)

lemma scan_int:
  assumes "is_i64 i"
  shows "scan False (int_str i @ '' '' @ s) = VALUE_INT i False # scan False s"
proof -
  let ?n = "nat \<bar>i\<bar>"
  obtain c cs where c: "nat_str ?n = c # cs" "is_digit c" using nat_str_Cons by blast
  have "number (i < 0) (nat_str ?n @ '' '' @ s) = (VALUE_INT i False, '' '' @ s)"
    using strtoll_small [of "i < 0" ?n] assms by (simp only: number_int) (simp split: if_splits)
  moreover have "int_str i = (if i < 0 then ''-'' else []) @ nat_str ?n" by (simp add: int_str_def)
  ultimately show ?thesis using scan_number [OF c] scan_space [of s] by simp
qed

section \<open>Floating-point literals\<close>

text \<open>Rounding depends on the number only, not on how far its last place lies below the point.\<close>

definition round_at :: "int \<Rightarrow> nat \<Rightarrow> int \<Rightarrow> nat \<times> int" where
  "round_at e' m e =
     (if e' \<le> e then (m * 2 ^ nat (e - e'), e')
      else let k = nat (e' - e); q = m div 2 ^ k; r = m mod 2 ^ k; half = 2 ^ (k - 1) in
           (if r > half \<or> r = half \<and> odd q then (q + 1, e') else (q, e')))"

lemma round_mant_at: "round_mant p emin m e = round_at (max (e + int (nbits m) - int p) emin) m e"
  by (simp add: round_mant_def round_at_def Let_def)

lemma round_at_scale: "round_at e' (m * 2 ^ j) (e - int j) = round_at e' m e"
proof (cases "e' \<le> e")
  case True
  then obtain a where a: "e = e' + int a" using zle_iff_zadd by blast
  show ?thesis
  proof (cases "a \<ge> j")
    case True
    then obtain b where "a = j + b" using le_Suc_ex by blast
    with a show ?thesis by (simp add: round_at_def power_add mult.assoc nat_add_distrib)
  next
    case False
    then obtain b where b: "j = a + b" "0 < b" by (metis le_add_diff_inverse less_imp_le not_le zero_less_diff)
    have "m * 2 ^ j = m * 2 ^ a * 2 ^ b" by (simp add: b power_add mult.assoc)
    from arg_cong [OF this, of "\<lambda>x. x div 2 ^ b"] arg_cong [OF this, of "\<lambda>x. x mod 2 ^ b"]
    have "m * 2 ^ j div 2 ^ b = m * 2 ^ a" "m * 2 ^ j mod 2 ^ b = 0" by simp_all
    moreover have "nat (e' - (e - int j)) = b" "\<not> e' \<le> e - int j" "nat (e - e') = a" using a b by auto
    ultimately show ?thesis using True b(2) by (simp add: round_at_def Let_def)
  qed
next
  case False
  define k where "k = nat (e' - e)"
  have k: "nat (e' - (e - int j)) = k + j" "0 < k" "\<not> e' \<le> e - int j" using False by (auto simp: k_def)
  have pw: "(2 :: nat) ^ (k + j - 1) = 2 ^ (k - 1) * 2 ^ j" using k(2) by (simp add: power_add [symmetric])
  have "m * 2 ^ j div 2 ^ (k + j) = m div 2 ^ k" "m * 2 ^ j mod 2 ^ (k + j) = m mod 2 ^ k * 2 ^ j"
    by (simp_all add: power_add)
  with False k pw show ?thesis by (simp add: round_at_def Let_def k_def [symmetric])
qed

lemma round_mant_scale: "m \<noteq> 0 \<Longrightarrow> round_mant p emin (m * 2 ^ j) (e - int j) = round_mant p emin m e"
  by (simp add: round_mant_at round_at_scale nbits_mult_pow)

lemma round_fp_scale: "m \<noteq> 0 \<Longrightarrow> round_fp p emin emax neg (m * 2 ^ j) (e - int j) = round_fp p emin emax neg m e"
  by (simp add: round_fp_def round_mant_scale)

lemma float_ok_Fin:
  assumes "float_ok (Fin neg m e)"
  shows "e = max (e + int (nbits m) - 24) (-149)" and "int (nbits m) + e \<le> 128"
proof -
  let ?e = "max (e + int (nbits m) - 24) (-149)"
  have *: "(case round_at ?e m e of (q, e') \<Rightarrow> if int (nbits q) + e' > 128 then Inf neg else Fin neg q e') = Fin neg m e"
    using assms by (simp add: float_ok_def round_f32_def round_fp_def round_mant_at)
  have "snd (round_at ?e m e) = ?e" by (simp add: round_at_def Let_def)
  with * show "e = ?e" by (cases "round_at ?e m e") (simp split: if_splits)
  from * show "int (nbits m) + e \<le> 128" by (cases "round_at ?e m e") (simp split: if_splits)
qed

text \<open>A \<^verbatim>\<open>float\<close> is a \<^verbatim>\<open>double\<close>: rounding it, wherever its last place is written, and converting back changes nothing.\<close>

lemma to_f32_round_f64:
  assumes "float_ok (Fin neg m e)" and "m \<noteq> 0"
  shows "to_f32 (round_f64 neg (m * 2 ^ j) (e - int j)) = Fin neg m e"
proof -
  note f = float_ok_Fin [OF assms(1)]
  define e' where "e' = max (e + int (nbits m) - 53) (-1074)"
  define i where "i = nat (e - e')"
  have i: "e' = e - int i" "e' \<le> e" using f(1) by (auto simp: e'_def i_def)
  have r: "round_mant 53 (-1074) m e = (m * 2 ^ i, e - int i)"
    using i by (simp add: round_mant_at e'_def [symmetric] round_at_def i_def)
  have "\<not> int (nbits (m * 2 ^ i)) + (e - int i) > 1024" using f(2) assms(2) by (simp add: nbits_mult_pow)
  then have "round_f64 neg (m * 2 ^ j) (e - int j) = Fin neg (m * 2 ^ i) (e - int i)"
    using assms(2) by (simp add: round_f64_def round_fp_scale) (simp add: round_fp_def r)
  moreover have "round_f32 neg m e = Fin neg m e" using assms(1) by (simp add: float_ok_def)
  ultimately show ?thesis using assms(2) by (simp add: round_f32_def round_fp_scale)
qed

lemma nbits_0 [simp]: "nbits 0 = 0"
  by (simp add: nbits.simps)

lemma float_ok_zero: "float_ok (Fin neg 0 e) \<Longrightarrow> e = -149"
  using float_ok_Fin(1) [of neg 0 e] by simp

lemma round_at_zero: "round_at e' 0 e = (0, e')"
  by (simp add: round_at_def Let_def)

lemma atof_zero: "to_f32 (atof neg 0 d) = Fin neg 0 (-149)"
proof -
  have "atof neg 0 d = round_f64 neg 0 (-1101)" by (simp add: atof_def Let_def)
  then show ?thesis by (simp add: round_f64_def round_f32_def round_fp_def round_mant_at round_at_zero)
qed

lemma atof_scale:
  assumes "float_ok (Fin neg m e)" and "n * 2 ^ 1100 = m * 2 ^ k * 10 ^ d" and "int k = e + 1100"
  shows "to_f32 (atof neg n d) = Fin neg m e"
proof (cases "m = 0")
  case True
  with assms(2) have "n = 0" by simp
  with True float_ok_zero assms(1) show ?thesis by (simp add: atof_zero)
next
  case False
  have "n * 2 ^ 1100 div 10 ^ d = m * 2 ^ k" "n * 2 ^ 1100 mod 10 ^ d = 0"
    unfolding assms(2) by (simp_all del: power_mult_distrib)
  then have "atof neg n d = round_f64 neg (2 * (m * 2 ^ k)) (-1101)" unfolding atof_def Let_def by (simp only: refl if_True add_0_right)
  also have "2 * (m * 2 ^ k) = m * 2 ^ Suc k" by simp
  also have "(-1101 :: int) = e - int (Suc k)" using assms(3) by simp
  finally show ?thesis using to_f32_round_f64 [OF assms(1) False, of "Suc k"] by simp
qed

lemma number_float:
  assumes "list_all is_digit ip" and "list_all is_digit qs"
  shows "number neg (ip @ ''.'' @ qs @ '' '' @ s) =
    (VALUE_FLOAT (to_f32 (atof neg (digits_nat 0 (ip @ qs)) (length qs))), '' '' @ s)"
  using takeWhile_word [OF assms(1), of "''.'' @ qs @ '' '' @ s"] takeWhile_word [OF assms(2), of "'' '' @ s"] space_not_digit
  by (simp add: number_def)

lemma digits_nat_pad: "digits_nat 0 (replicate k (CHR ''0'') @ ds) = digits_nat 0 ds"
  by (induction k) (simp_all add: digit_val_def)

lemma pad0_digits:
  "list_all is_digit (pad0 w (nat_str n)) \<and> digits_nat 0 (pad0 w (nat_str n)) = n \<and> w \<le> length (pad0 w (nat_str n))"
  using nat_str_digits [of n] by (auto simp: pad0_def digits_nat_pad list_all_iff) (auto simp: is_digit_def)

text \<open>The text of a number: its sign, digits before the point and behind it.\<close>

lemma float_str_whole:
  assumes "float_ok (Fin neg m e)" and "0 \<le> e"
  shows "to_f32 (atof neg (m * 2 ^ nat e) 0) = Fin neg m e"
  by (rule atof_scale [OF assms(1), of _ "nat e + 1100"]) (use assms(2) in \<open>simp_all add: power_add del: power_numeral\<close>)

lemma float_str_fraction:
  assumes "float_ok (Fin neg m e)" and "e < 0"
  shows "to_f32 (atof neg (m * 5 ^ nat (- e)) (nat (- e))) = Fin neg m e"
proof -
  let ?d = "nat (- e)"
  have "-149 \<le> e" using float_ok_Fin(1) [OF assms(1)] by simp
  then have k: "1100 = ?d + nat (e + 1100)" "int (nat (e + 1100)) = e + 1100" using assms(2) by simp_all
  have "(2 :: nat) ^ 1100 = 2 ^ ?d * 2 ^ nat (e + 1100)" by (subst k(1)) (rule power_add)
  then have "m * 5 ^ ?d * 2 ^ 1100 = m * 2 ^ nat (e + 1100) * (5 ^ ?d * 2 ^ ?d)"
    by (simp only: mult.assoc mult.commute mult.left_commute)
  also have "(5 :: nat) ^ ?d * 2 ^ ?d = 10 ^ ?d" by (simp add: power_mult_distrib [symmetric])
  finally show ?thesis by (rule atof_scale [OF assms(1) _ k(2)])
qed

lemma float_str_parts:
  assumes "float_ok (Fin neg m e)"
  shows "\<exists>ip qs. float_str (Fin neg m e) = (if neg then ''-'' else []) @ ip @ ''.'' @ qs \<and> ip \<noteq> [] \<and> list_all is_digit ip \<and>
    list_all is_digit qs \<and> to_f32 (atof neg (digits_nat 0 (ip @ qs)) (length qs)) = Fin neg m e"
proof (cases "0 \<le> e")
  case True
  with float_str_whole [OF assms] nat_str_digits [of "m * 2 ^ nat e"] show ?thesis
    by (intro exI [of _ "nat_str (m * 2 ^ nat e)"] exI [of _ "[]"]) simp
next
  case False
  let ?d = "nat (- e)" and ?ds = "pad0 (Suc (nat (- e))) (nat_str (m * 5 ^ nat (- e)))"
  let ?k = "length ?ds - ?d"
  have ds: "list_all is_digit ?ds" "digits_nat 0 ?ds = m * 5 ^ ?d" "Suc ?d \<le> length ?ds" using pad0_digits by blast+
  moreover have "float_str (Fin neg m e) = (if neg then ''-'' else []) @ take ?k ?ds @ ''.'' @ drop ?k ?ds"
    using False by (simp add: Let_def)
  ultimately show ?thesis using float_str_fraction [OF assms] False
    by (intro exI [of _ "take ?k ?ds"] exI [of _ "drop ?k ?ds"]) (auto simp: list_all_iff dest: in_set_takeD in_set_dropD)
qed

lemma scan_float:
  assumes "float_ok x"
  shows "scan False (float_str x @ '' '' @ s) = VALUE_FLOAT x # scan False s"
proof -
  from assms obtain neg m e where x: "x = Fin neg m e" by (cases x) (auto simp: float_ok_def)
  from float_str_parts [OF assms [unfolded x]] obtain ip qs where
    p: "float_str x = (if neg then ''-'' else []) @ ip @ ''.'' @ qs" "ip \<noteq> []" "list_all is_digit ip"
    "list_all is_digit qs" "to_f32 (atof neg (digits_nat 0 (ip @ qs)) (length qs)) = x" unfolding x by blast
  obtain c cs where c: "ip = c # cs" "is_digit c" using p(2,3) by (cases ip) auto
  from number_float [OF p(3,4), of neg s] p(5) have "number neg (ip @ ''.'' @ qs @ '' '' @ s) = (VALUE_FLOAT x, '' '' @ s)" by simp
  from scan_number [OF c this] scan_space [of s] p(1) show ?thesis by simp
qed

section \<open>Scanning a text of tokens\<close>

lemma scan_string:
  assumes "quote \<notin> set w"
  shows "scan False ((quote # w @ [quote]) @ '' '' @ s) = VALUE_STRING w # scan False s"
proof -
  have w: "takeWhile (\<lambda>x. x \<noteq> quote) (w @ quote # r) = w" "dropWhile (\<lambda>x. x \<noteq> quote) (w @ quote # r) = quote # r" for r
    using assms by (induction w) auto
  then have "lex_rule quote (w @ quote # '' '' @ s) = (Return (VALUE_STRING w), '' '' @ s)"
    by (simp add: lex_rule_def) (simp add: quote_def single_op_def is_alpha_def is_digit_def is_sign_def)
  then show ?thesis using scan_space [of s] by simp
qed

lemma scan_op: "single_op c \<Longrightarrow> scan False ([c] @ '' '' @ s) = Op c # scan False s"
proof -
  assume "single_op c"
  then have "lex_rule c ('' '' @ s) = (Return (Op c), '' '' @ s)" by (auto simp: lex_rule_def single_op_def)
  then show ?thesis using scan_space [of s] by simp
qed

lemma scan_rel:
  "scan False (''>='' @ '' '' @ s) = GEQ # scan False s"
  "scan False (''<='' @ '' '' @ s) = LEQ # scan False s"
  "scan False (''<>'' @ '' '' @ s) = NEQ # scan False s"
  using scan_space [of s] by (simp_all add: lex_rule_def [of "CHR ''>''"] lex_rule_def [of "CHR ''<''"])

lemma keyword_text:
  assumes "t \<in> snd ` set keyword_table"
  shows "((case find (\<lambda>e. snd e = t) keyword_table of Some e \<Rightarrow> fst e | None \<Rightarrow> []), t) \<in> set keyword_table"
proof -
  from assms obtain e where e: "find (\<lambda>e. snd e = t) keyword_table = Some e"
    by (cases "find (\<lambda>e. snd e = t) keyword_table") (auto simp: find_None_iff)
  then have "e \<in> set keyword_table" "snd e = t" by (auto simp: find_Some_iff)
  with e show ?thesis by (cases e) auto
qed

lemma scan_token:
  assumes "tok_ok t"
  shows "scan False (tok_text t @ '' '' @ s) = t # scan False s"
proof (cases t)
  case (VALUE_INT i b)
  then show ?thesis using scan_int [of i s] assms by simp
next
  case (Kw k)
  then show ?thesis using scan_keyword [OF keyword_text, of t s] assms by simp
next
  case (INT_tok k)
  then show ?thesis using scan_keyword [OF keyword_text, of t s] assms by simp
next
  case (FLOAT_tok k)
  then show ?thesis using scan_keyword [OF keyword_text, of t s] assms by simp
next
  case (T_EOF b)
  with assms show ?thesis by (auto simp: keyword_table_def)
next
  case GEQ
  then show ?thesis using scan_rel(1) by simp
next
  case LEQ
  then show ?thesis using scan_rel(2) by simp
next
  case NEQ
  then show ?thesis using scan_rel(3) by simp
next
  case (Op c)
  then show ?thesis using scan_op [of c s] assms by simp
next
  case (IDENTIFIER w)
  then show ?thesis using scan_ident [of w s] assms by simp
next
  case (VALUE_FLOAT x)
  then show ?thesis using scan_float [of x s] assms by simp
next
  case (VALUE_STRING w)
  then show ?thesis using scan_string [of w s] assms by simp
qed

lemma scan_tokens: "list_all tok_ok ts \<Longrightarrow> scan False (tokens_text ts) = ts @ [T_EOF False]"
  using scan_token by (induction ts) (simp_all add: tokens_text_def)

section \<open>Statements as tokens\<close>

fun commas :: "token \<Rightarrow> token list list \<Rightarrow> token list" where
  "commas t [] = []"
| "commas t [us] = us"
| "commas t (us # uss) = us @ t # commas t uss"

definition type_tokens :: "type_len \<Rightarrow> token list" where
  "type_tokens x =
     (case tl_type x of
        SV_TYPE_INT \<Rightarrow> [INT_tok SV_TYPE_INT]
      | SV_TYPE_BIGINT \<Rightarrow> [INT_tok SV_TYPE_BIGINT]
      | SV_TYPE_FLOAT \<Rightarrow> [FLOAT_tok SV_TYPE_FLOAT]
      | SV_TYPE_DATETIME \<Rightarrow> [FLOAT_tok SV_TYPE_DATETIME]
      | SV_TYPE_STRING \<Rightarrow> [Kw K_CHAR, lpar, VALUE_INT (tl_len x) False, rpar])"

fun field_tokens :: "ast_field \<Rightarrow> token list" where
  "field_tokens (ColDef c x) = IDENTIFIER c # type_tokens x"
| "field_tokens PlainField = []"

fun value_tokens :: "ast_value \<Rightarrow> token list" where
  "value_tokens (IntLit i) = [VALUE_INT i False]"
| "value_tokens (FloatLit x) = [VALUE_FLOAT x]"
| "value_tokens (StringLit s) = [VALUE_STRING s]"
| "value_tokens PlainValue = []"

fun col_tokens :: "ast_col \<Rightarrow> token list" where
  "col_tokens (Col t c) = (if t = [] then [IDENTIFIER c] else [IDENTIFIER t, dot, IDENTIFIER c])"
| "col_tokens (AggFunc f a alias all) = []"

fun op_token :: "sv_comp_op \<Rightarrow> token" where
  "op_token SV_OP_EQ = equals"
| "op_token SV_OP_NE = NEQ"
| "op_token SV_OP_LT = Op (CHR ''<'')"
| "op_token SV_OP_GT = Op (CHR ''>'')"
| "op_token SV_OP_LE = LEQ"
| "op_token SV_OP_GE = GEQ"

fun expr_tokens :: "ast_expr \<Rightarrow> token list" where
  "expr_tokens (EValue v) = value_tokens v"
| "expr_tokens (ECol c) = col_tokens c"

definition cond_tokens :: "binary_expr \<Rightarrow> token list" where
  "cond_tokens x = col_tokens (be_lhs x) @ op_token (be_op x) # expr_tokens (be_rhs x)"

definition where_tokens :: "binary_expr list \<Rightarrow> token list" where
  "where_tokens cs = (if cs = [] then [] else Kw K_WHERE # commas (Kw K_AND) (map cond_tokens cs))"

definition set_tokens :: "sv_set_clause \<Rightarrow> token list" where
  "set_tokens x = [IDENTIFIER (sv_col_name x), equals] @ value_tokens (sv_val x)"

fun agg_token :: "agg_func \<Rightarrow> token" where
  "agg_token AGG_COUNT = Kw K_COUNT"
| "agg_token AGG_MAX = Kw K_MAX"
| "agg_token AGG_MIN = Kw K_MIN"
| "agg_token AGG_SUM = Kw K_SUM"

definition selector_tokens :: "ast_col list \<Rightarrow> token list" where
  "selector_tokens cs =
     (case cs of
        [] \<Rightarrow> [star]
      | [AggFunc f a alias all] \<Rightarrow>
          [agg_token f, lpar] @ (case a of None \<Rightarrow> [star] | Some c \<Rightarrow> col_tokens c) @ [rpar, Kw K_AS, IDENTIFIER alias]
      | _ \<Rightarrow> commas comma (map col_tokens cs))"

definition order_item_tokens :: "order_by_item \<Rightarrow> token list" where
  "order_item_tokens x =
     col_tokens (ob_cols x) @ (case ob_dir x of OrderBy_DEFAULT \<Rightarrow> [] | OrderBy_ASC \<Rightarrow> [Kw K_ASC] | OrderBy_DESC \<Rightarrow> [Kw K_DESC])"

definition order_tokens :: "order_by_item list option \<Rightarrow> token list" where
  "order_tokens x = (case x of None \<Rightarrow> [] | Some os \<Rightarrow> Kw K_ORDER # Kw K_BY # commas comma (map order_item_tokens os))"

definition name_tokens :: "string \<Rightarrow> token list" where
  "name_tokens s = [IDENTIFIER s]"

definition select_tokens :: "select_stmt \<Rightarrow> token list" where
  "select_tokens x =
     Kw K_SELECT # selector_tokens (sel_cols x) @ Kw K_FROM # commas comma (map name_tokens (sel_tabs x)) @
     where_tokens (sel_conds x) @ order_tokens (sel_order x) @ [Kw K_LIMIT, VALUE_INT (sel_limit x) False]"

definition in_parens :: "token list list \<Rightarrow> token list" where
  "in_parens uss = lpar # commas comma uss @ [rpar]"

fun stmt_tokens :: "tree_node \<Rightarrow> token list" where
  "stmt_tokens TxnBegin = [Kw K_TXN_BEGIN]"
| "stmt_tokens TxnCommit = [Kw K_TXN_COMMIT]"
| "stmt_tokens TxnAbort = [Kw K_TXN_ABORT]"
| "stmt_tokens TxnRollback = [Kw K_TXN_ROLLBACK]"
| "stmt_tokens ShowTables = [Kw K_SHOW, Kw K_TABLES]"
| "stmt_tokens (ShowIndex t) = [Kw K_SHOW, Kw K_INDEX, Kw K_FROM, IDENTIFIER t]"
| "stmt_tokens (CreateTable t xs) = [Kw K_CREATE, Kw K_TABLE, IDENTIFIER t] @ in_parens (map field_tokens xs)"
| "stmt_tokens (DropTable t) = [Kw K_DROP, Kw K_TABLE, IDENTIFIER t]"
| "stmt_tokens (DescTable t) = [Kw K_DESC, IDENTIFIER t]"
| "stmt_tokens (CreateIndex t cs) = [Kw K_CREATE, Kw K_INDEX, IDENTIFIER t] @ in_parens (map name_tokens cs)"
| "stmt_tokens (DropIndex t cs) = [Kw K_DROP, Kw K_INDEX, IDENTIFIER t] @ in_parens (map name_tokens cs)"
| "stmt_tokens (InsertStmt t vs) = [Kw K_INSERT, Kw K_INTO, IDENTIFIER t, Kw K_VALUES] @ in_parens (map value_tokens vs)"
| "stmt_tokens (DeleteStmt t cs) = [Kw K_DELETE, Kw K_FROM, IDENTIFIER t] @ where_tokens cs"
| "stmt_tokens (UpdateStmt t ss cs) = [Kw K_UPDATE, IDENTIFIER t, Kw K_SET] @ commas comma (map set_tokens ss) @ where_tokens cs"
| "stmt_tokens (SelectStmt x) = select_tokens x"
| "stmt_tokens _ = []"

definition tree_tokens :: "tree_node \<Rightarrow> token list" where
  "tree_tokens t = (if t = Help then [Kw K_HELP] else stmt_tokens t @ [semicolon])"

definition sql_text :: "tree_node \<Rightarrow> string" where
  "sql_text t = tokens_text (tree_tokens t)"

section \<open>Trees that can be written down\<close>

definition plain_col :: "ast_col \<Rightarrow> bool" where
  "plain_col c = (case c of Col _ _ \<Rightarrow> True | AggFunc _ _ _ _ \<Rightarrow> False)"

definition cond_shape :: "binary_expr \<Rightarrow> bool" where
  "cond_shape x \<longleftrightarrow> plain_col (be_lhs x) \<and> (case be_rhs x of EValue v \<Rightarrow> literal v | ECol c \<Rightarrow> plain_col c)"

definition type_shape :: "type_len \<Rightarrow> bool" where
  "type_shape x =
     (case tl_type x of SV_TYPE_STRING \<Rightarrow> is_i32 (tl_len x) | SV_TYPE_INT \<Rightarrow> tl_len x = 4 | SV_TYPE_FLOAT \<Rightarrow> tl_len x = 4 | _ \<Rightarrow> tl_len x = 8)"

fun field_shape :: "ast_field \<Rightarrow> bool" where
  "field_shape (ColDef c x) = type_shape x"
| "field_shape PlainField = False"

definition selector_shape :: "ast_col list \<Rightarrow> bool" where
  "selector_shape cs =
     (case cs of
        [AggFunc f a alias all] \<Rightarrow> (case a of None \<Rightarrow> f = AGG_COUNT \<and> all | Some c \<Rightarrow> plain_col c \<and> \<not> all)
      | _ \<Rightarrow> list_all plain_col cs)"

definition order_shape :: "order_by_item list option \<Rightarrow> bool" where
  "order_shape x = (case x of None \<Rightarrow> True | Some os \<Rightarrow> os \<noteq> [] \<and> list_all (\<lambda>i. plain_col (ob_cols i)) os)"

fun tree_shape :: "tree_node \<Rightarrow> bool" where
  "tree_shape (CreateTable t xs) = (xs \<noteq> [] \<and> list_all field_shape xs)"
| "tree_shape (CreateIndex t cs) = (cs \<noteq> [])"
| "tree_shape (DropIndex t cs) = (cs \<noteq> [])"
| "tree_shape (InsertStmt t vs) = (vs \<noteq> [] \<and> list_all literal vs)"
| "tree_shape (DeleteStmt t cs) = list_all cond_shape cs"
| "tree_shape (UpdateStmt t ss cs) = (ss \<noteq> [] \<and> list_all (\<lambda>s. literal (sv_val s)) ss \<and> list_all cond_shape cs)"
| "tree_shape (SelectStmt x) =
     (selector_shape (sel_cols x) \<and> sel_tabs x \<noteq> [] \<and> list_all cond_shape (sel_conds x) \<and> order_shape (sel_order x) \<and> is_i32 (sel_limit x))"
| "tree_shape OtherNode = False"
| "tree_shape t = True"

text \<open>A tree can be written when it has the shape of a sentence and its names, numbers and strings can be written.\<close>

definition writable :: "tree_node \<Rightarrow> bool" where
  "writable t \<longleftrightarrow> tree_shape t \<and> list_all tok_ok (tree_tokens t)"

section \<open>The tokens of a tree derive the tree\<close>

lemma g_list_Cons: "g_list S g ws vs \<Longrightarrow> g us v \<Longrightarrow> t \<in> S \<Longrightarrow> g_list S g (us @ t # ws) (v # vs)"
proof (induction rule: g_list.induct)
  case (list_one ws w)
  show ?case using list_push [of S g us "[v]" t ws w] g_list.list_one [of g us v S] list_one by simp
next
  case (list_push xs vs' t' ys w)
  then show ?case using g_list.list_push [of S g "us @ t # xs" "v # vs'" t' ys w] by simp
qed

lemma g_list_commas:
  assumes "vs \<noteq> []" and "\<And>v. v \<in> set vs \<Longrightarrow> g (f v) v" and "t \<in> S"
  shows "g_list S g (commas t (map f vs)) vs"
  using assms
proof (induction vs)
  case (Cons v vs)
  show ?case
  proof (cases vs)
    case Nil
    then show ?thesis using Cons.prems(2) by (auto intro: list_one)
  next
    case (Cons w ws)
    then have "g_list S g (commas t (map f vs)) vs" using Cons.IH Cons.prems by simp
    with Cons g_list_Cons [OF this, of "f v" v t] Cons.prems show ?thesis by simp
  qed
qed simp

lemma g_name_tokens: "g_name (name_tokens s) s"
  by (simp add: name_tokens_def g_name.intros)

lemma g_value_tokens: "literal v \<Longrightarrow> g_value (value_tokens v) v"
  by (cases v) (auto simp: literal_def intro: g_value.intros)

lemma g_col_tokens: "plain_col c \<Longrightarrow> g_col (col_tokens c) c"
  using g_col.intros(1) [OF g_name.intros g_name.intros] g_col.intros(2) [OF g_name.intros]
  by (cases c) (auto simp: plain_col_def)

lemma g_type_tokens: "type_shape x \<Longrightarrow> g_type (type_tokens x) x"
  using g_type.intros(1) [of SV_TYPE_INT] g_type.intros(1) [of SV_TYPE_BIGINT] g_type.intros(3) [of SV_TYPE_FLOAT]
    g_type.intros(3) [of SV_TYPE_DATETIME] g_type.intros(2) [of "tl_len x" False]
  by (cases x; cases "tl_type x") (auto simp: type_shape_def type_tokens_def int_type_def float_type_def char_type_def wrap32_id)

lemma g_field_tokens: "field_shape x \<Longrightarrow> g_field (field_tokens x) x"
  using g_field.intros [OF g_name.intros g_type_tokens] by (cases x) auto

lemma g_op_token: "g_op [op_token o'] o'"
  by (cases o') (auto intro: g_op.intros)

lemma g_cond_tokens: "cond_shape x \<Longrightarrow> g_condition (cond_tokens x) x"
proof -
  assume x: "cond_shape x"
  have "g_expr (expr_tokens (be_rhs x)) (be_rhs x)"
    using x by (cases "be_rhs x") (auto simp: cond_shape_def intro: g_expr.intros g_value_tokens g_col_tokens)
  from g_condition.intros [OF g_col_tokens g_op_token this, of "be_lhs x" "be_op x"] x
  show ?thesis by (cases x) (simp add: cond_shape_def cond_tokens_def)
qed

lemma g_where_tokens: "list_all cond_shape cs \<Longrightarrow> g_opt_where (where_tokens cs) cs"
  by (auto simp: where_tokens_def list_all_iff intro!: g_opt_where.intros g_list_commas g_cond_tokens)

lemma g_set_tokens: "literal (sv_val x) \<Longrightarrow> g_set_clause (set_tokens x) x"
  using g_set_clause.intros [OF g_name.intros g_value_tokens, of "sv_val x" "sv_col_name x"] by (cases x) (simp add: set_tokens_def)

lemma g_dir_tokens: "g_asc_desc (case d of OrderBy_DEFAULT \<Rightarrow> [] | OrderBy_ASC \<Rightarrow> [Kw K_ASC] | OrderBy_DESC \<Rightarrow> [Kw K_DESC]) d"
  by (cases d) (auto intro: g_asc_desc.intros)

lemma g_order_item_tokens: "plain_col (ob_cols x) \<Longrightarrow> g_order_item (order_item_tokens x) x"
  using g_order_item.intros [OF g_col_tokens g_dir_tokens, of "ob_cols x" "ob_dir x"]
  by (cases x) (simp add: order_item_tokens_def)

lemma g_order_tokens: "order_shape x \<Longrightarrow> g_opt_order (order_tokens x) x"
  by (auto simp: order_shape_def order_tokens_def list_all_iff split: option.splits
      intro!: g_opt_order.intros g_list_commas g_order_item_tokens)

lemma selector_tokens_cols: "list_all plain_col cs \<Longrightarrow> cs \<noteq> [] \<Longrightarrow> selector_tokens cs = commas comma (map col_tokens cs)"
  by (auto simp: selector_tokens_def plain_col_def split: list.splits ast_col.splits)

lemma selector_shape_cols: "selector_shape cs \<Longrightarrow> \<forall>f a al all. cs \<noteq> [AggFunc f a al all] \<Longrightarrow> list_all plain_col cs"
  by (cases cs rule: remdups_adj.cases) (auto simp: selector_shape_def split: ast_col.splits)

lemma g_selector_tokens:
  assumes "selector_shape cs"
  shows "g_selector (selector_tokens cs) cs"
proof -
  consider "cs = []" | f a al all where "cs = [AggFunc f a al all]" | "cs \<noteq> []" "list_all plain_col cs"
    using selector_shape_cols [OF assms] by blast
  then show ?thesis
  proof cases
    case 1
    then show ?thesis by (simp add: selector_tokens_def g_selector.intros)
  next
    case (2 f a al all)
    note name = g_name.intros [of al]
    show ?thesis
    proof (cases a)
      case None
      with assms 2 g_selector.intros(2) [OF name] show ?thesis by (simp add: selector_shape_def selector_tokens_def)
    next
      case (Some c)
      with assms 2 have c: "g_col (col_tokens c) c" "\<not> all" by (simp_all add: selector_shape_def g_col_tokens)
      show ?thesis
        using g_selector.intros(4-7) [OF c(1) name] c(2) 2 Some by (cases f) (simp_all add: selector_tokens_def)
    qed
  next
    case 3
    then show ?thesis
      by (auto simp: selector_tokens_cols list_all_iff intro!: g_selector.intros(8) g_list_commas g_col_tokens)
  qed
qed

lemma g_select_tokens: "tree_shape (SelectStmt x) \<Longrightarrow> g_stmt (select_tokens x) (SelectStmt x)"
proof -
  assume x: "tree_shape (SelectStmt x)"
  then have "g_list {comma, Kw K_JOIN} g_name (commas comma (map name_tokens (sel_tabs x))) (sel_tabs x)"
    by (auto intro: g_list_commas g_name_tokens)
  from g_stmt.intros(15) [OF g_selector_tokens this g_where_tokens g_order_tokens g_opt_limit.intros(1),
      of "sel_cols x" "sel_conds x" "sel_order x" "sel_limit x" False] x
  show ?thesis by (cases x) (simp add: select_tokens_def new_SelectStmt_def wrap32_id)
qed

lemma g_stmt_tokens: "tree_shape t \<Longrightarrow> t \<noteq> Help \<Longrightarrow> g_stmt (stmt_tokens t) t"
proof (cases t)
  case (CreateTable tn xs)
  moreover assume "tree_shape t"
  ultimately have "g_list {comma} g_field (commas comma (map field_tokens xs)) xs"
    by (auto simp: list_all_iff intro: g_list_commas g_field_tokens)
  from g_stmt.intros(7) [OF g_name.intros this] CreateTable show ?thesis by (simp add: in_parens_def)
next
  case (CreateIndex tn xs)
  moreover assume "tree_shape t"
  ultimately have "g_list {comma} g_name (commas comma (map name_tokens xs)) xs" by (auto intro: g_list_commas g_name_tokens)
  from g_stmt.intros(10) [OF g_name.intros this] CreateIndex show ?thesis by (simp add: in_parens_def)
next
  case (DropIndex tn xs)
  moreover assume "tree_shape t"
  ultimately have "g_list {comma} g_name (commas comma (map name_tokens xs)) xs" by (auto intro: g_list_commas g_name_tokens)
  from g_stmt.intros(11) [OF g_name.intros this] DropIndex show ?thesis by (simp add: in_parens_def)
next
  case (InsertStmt tn vs)
  moreover assume "tree_shape t"
  ultimately have "g_list {comma} g_value (commas comma (map value_tokens vs)) vs"
    by (auto simp: list_all_iff intro: g_list_commas g_value_tokens)
  from g_stmt.intros(12) [OF g_name.intros this] InsertStmt show ?thesis by (simp add: in_parens_def)
next
  case (UpdateStmt tn ss cs)
  moreover assume "tree_shape t"
  ultimately have "g_list {comma} g_set_clause (commas comma (map set_tokens ss)) ss" "list_all cond_shape cs"
    by (auto simp: list_all_iff intro: g_list_commas g_set_tokens)
  from g_stmt.intros(14) [OF g_name.intros this(1) g_where_tokens [OF this(2)]] UpdateStmt show ?thesis by simp
next
  case (DeleteStmt tn cs)
  moreover assume "tree_shape t"
  ultimately have "list_all cond_shape cs" by simp
  from g_stmt.intros(13) [OF g_name.intros g_where_tokens [OF this]] DeleteStmt show ?thesis by simp
qed (use g_stmt.intros(6,8,9) [OF g_name.intros] in \<open>auto intro: g_select_tokens g_stmt.intros(1-5)\<close>)

lemma g_tree_tokens: "tree_shape t \<Longrightarrow> g_start (tree_tokens t) (Some t)"
  using g_start.intros(1) [OF g_stmt_tokens] by (auto simp: tree_tokens_def intro: g_start.intros)

section \<open>The round trip\<close>

text \<open>Literals are printed within range.\<close>

lemma tok_ok_in_range: "list_all tok_ok ts \<Longrightarrow> \<not> list_ex out_of_range ts \<and> \<not> list_ex open_comment ts"
proof (induction ts)
  case (Cons t ts)
  then have "tok_ok t" by simp
  then have "\<not> out_of_range t \<and> \<not> open_comment t" by (cases t) (auto simp: keyword_table_def)
  with Cons show ?case by simp
qed simp

lemma yyparse_sql_text:
  assumes "writable t"
  shows "yyparse False (sql_text t) = (Parsed (Some t), False)"
proof -
  from assms have t: "tree_shape t" "list_all tok_ok (tree_tokens t)" by (auto simp: writable_def)
  have "p_start (scan False (sql_text t)) = Inr (Some t, [T_EOF False])"
    using start.complete [OF g_tree_tokens [OF t(1)]] scan_tokens [OF t(2)] by (simp add: sql_text_def)
  with scan_tokens [OF t(2)] tok_ok_in_range [OF t(2)] show ?thesis by (simp add: yyparse_def sql_text_def)
qed

text \<open>
  Claim C37. Whatever statement can be written down is read back: printing a syntax tree as a request, with its names,
  64-bit integers, strings and finite floating-point numbers, and scanning and parsing the text gives the tree again, and the
  scanner is ready for the next request.
\<close>

theorem sql_text_roundtrip: "writable t \<Longrightarrow> yyparse False (sql_text t) = (Parsed (Some t), False)"
  by (rule yyparse_sql_text)

definition sample_update :: tree_node where
  "sample_update = UpdateStmt ''warehouse'' [\<lparr>sv_col_name = ''name'', sv_val = StringLit ''a b''\<rparr>, \<lparr>sv_col_name = ''tax'', sv_val = FloatLit (Fin True 12582912 (-24))\<rparr>]
     [\<lparr>be_lhs = Col ''warehouse'' ''id'', be_op = SV_OP_GE, be_rhs = EValue (IntLit (-7))\<rparr>]"

lemma sample_float: "float_ok (Fin True 12582912 (-24))"
  by (simp add: float_ok_def round_f32_def round_fp_def round_mant_def nbits.simps Let_def)

theorem sql_text_roundtrip_witness:
  "yyparse False (sql_text sample_update) = (Parsed (Some sample_update), False)"
proof -
  have "ident_ok ''warehouse''" "ident_ok ''name''" "ident_ok ''tax''" "ident_ok ''id''" by code_simp+
  then have "list_all tok_ok (tree_tokens sample_update)"
    by (simp add: sample_update_def tree_tokens_def set_tokens_def where_tokens_def cond_tokens_def keyword_table_def is_i64_def
        single_op_def quote_def sample_float)
  moreover have "tree_shape sample_update" by (simp add: sample_update_def cond_shape_def plain_col_def literal_def)
  ultimately show ?thesis by (intro sql_text_roundtrip) (simp add: writable_def)
qed

end
