(* ===== verification/System_Frame.thy ===== *)
theory System_Frame
  imports Session
begin

text \<open>
  What the operations on files, pages and indexes leave alone: log, locks and transactions, which extend the state of the
  system manager, and the descriptors of the open tables. Only the statements that define tables change the latter.
\<close>

section \<open>Running on parts of the state\<close>

lemma snd_bindE: "snd (bindE m f l) = (case fst m of Inl e \<Rightarrow> l (snd m) | Inr x \<Rightarrow> snd (f x (snd m)))"
  by (cases m; cases "fst m") (auto simp: bindE_def)

lemma snd_case_res: "snd (case m of (Inl e, s) \<Rightarrow> f e s | (Inr x, s) \<Rightarrow> g x s) =
  (case fst m of Inl e \<Rightarrow> snd (f e (snd m)) | Inr x \<Rightarrow> snd (g x (snd m)))"
  by (cases m; cases "fst m") auto

section \<open>Table files keep their descriptor\<close>

lemma rm_fd_simps [simp]: "rm_fd (set_page_data f d s) = rm_fd s" "rm_fd (unpin R no dirty s) = rm_fd s"
  "rm_fd (release_page_handle f s) = rm_fd s"
  by (simp_all add: set_page_data_def unpin_def release_page_handle_def Let_def)

lemma rm_fd_fetch [simp]: "rm_fd (snd (fetch_page_handle R no s)) = rm_fd s"
  by (auto simp: fetch_page_handle_def split: prod.split sum.split option.split)

lemma rm_fd_create_new [simp]: "rm_fd (snd (create_new_page_handle R s)) = rm_fd s"
  by (auto simp: create_new_page_handle_def Let_def split: prod.split sum.split option.split)

lemma rm_fd_create [simp]: "rm_fd (snd (create_page_handle R s)) = rm_fd s"
  by (simp add: create_page_handle_def snd_bindE split: sum.split)

lemma rm_fd_append [simp]: "rm_fd (snd (append_pages k R no s)) = rm_fd s"
  by (induction k arbitrary: s) (auto simp: snd_bindE split: sum.split)

lemma rm_fd_scan_loop [simp]: "rm_fd (snd (scan_loop R r nos s)) = rm_fd s"
  by (induction R r nos s rule: scan_loop.induct) (auto simp: snd_bindE Let_def split: sum.split)

lemma rm_fd_records [simp]:
  "rm_fd (snd (get_record R r s)) = rm_fd s" "rm_fd (snd (insert_record R b s)) = rm_fd s"
  "rm_fd (snd (insert_record_at R r b s)) = rm_fd s" "rm_fd (snd (delete_record R r s)) = rm_fd s"
  "rm_fd (snd (update_record R r b s)) = rm_fd s" "rm_fd (snd (scan_next R r s)) = rm_fd s" "rm_fd (snd (RmScan R s)) = rm_fd s"
  by (auto simp: get_record_def insert_record_def insert_record_at_def delete_record_def update_record_def RmScan_def
      scan_next_def snd_bindE Let_def split: sum.split prod.split)

section \<open>The part of the state that stays\<close>

definition fd_of :: "('r, 'z) sm_scheme \<Rightarrow> string \<rightharpoonup> int" where
  "fd_of s t = map_option fst (map_of (fhs s) t)"

definition view :: "('r, 'z) sm_scheme \<Rightarrow> 'z \<times> (string \<rightharpoonup> int)" where
  "view s = (sm.more s, fd_of s)"

lemma view_simps [simp]:
  "view (s\<lparr>sm_pool := p\<rparr>) = view s" "view (s\<lparr>ihs := i\<rparr>) = view s" "view (s\<lparr>sm_db := d\<rparr>) = view s" "view (s\<lparr>dirs := x\<rparr>) = view s"
  "view (s\<lparr>cwd := c\<rparr>) = view s"
  by (simp_all add: view_def fd_of_def fun_eq_iff)

lemma view_on_pool [simp]: "view (snd (on_pool m s)) = view s"
  by (simp add: on_pool_def split: prod.split)

lemma view_on_index [simp]: "view (snd (on_index i m s)) = view s"
  by (auto simp: on_index_def split: prod.split option.split)

lemma view_on_table:
  assumes "\<And>f. rm_fd (snd (m f)) = rm_fd f"
  shows "view (snd (on_table t m s)) = view s"
proof (cases "map_of (fhs s) t")
  case (Some a)
  obtain fd h where a: "a = (fd, h)" by fastforce
  obtain r f where m: "m \<lparr>rm_fd = fd, rm_hdr = h, rm_pool = sm_pool s\<rparr> = (r, f)" by fastforce
  from assms [of "\<lparr>rm_fd = fd, rm_hdr = h, rm_pool = sm_pool s\<rparr>"] m have "rm_fd f = fd" by simp
  with Some a m show ?thesis by (auto simp: on_table_def view_def fd_of_def fun_eq_iff update_conv')
qed (simp add: on_table_def)

lemma view_tables [simp]:
  "view (snd (on_table t (get_record R r) s)) = view s" "view (snd (on_table t (insert_record R b) s)) = view s"
  "view (snd (on_table t (insert_record_at R r b) s)) = view s" "view (snd (on_table t (delete_record R r) s)) = view s"
  "view (snd (on_table t (update_record R r b) s)) = view s" "view (snd (on_table t (scan_next R r) s)) = view s"
  "view (snd (on_table t (RmScan R) s)) = view s" "view (snd (on_table t (\<lambda>f. Ret (scan_is_end r f) f) s)) = view s"
  by (rule view_on_table, simp)+

lemma view_lift [simp]: "view (snd (lift_sm r s)) = view s"
  by (simp add: lift_sm_def)

section \<open>Keys and undoing\<close>

lemma view_keys [simp]:
  "view (snd (drop_keys R t b ixs s)) = view s" "view (snd (add_keys R t b r ixs s)) = view s"
  "view (snd (swap_keys R t b c r ixs s)) = view s" "view (snd (insert_keys R t b r ixs s)) = view s"
  "view (snd (check_keys R t b c ixs s)) = view s"
  by (induction ixs arbitrary: s) (simp_all add: snd_bindE Let_def split: sum.split)

lemma view_undo_write [simp]: "view (snd (undo_write R w s)) = view s"
  by (simp add: undo_write_def snd_bindE Let_def split: sum.split w_type.split)

section \<open>Scans\<close>

lemma view_rec [simp]: "view (snd (rec_rid R ix sc s)) = view s" "view (snd (rec_next R t ix sc s)) = view s"
  by (cases sc; simp add: snd_bindE split: sum.split)+

lemma view_seek [simp]: "view (snd (seek k R ix e sc s)) = view s"
  by (induction k arbitrary: sc s) (auto simp: snd_bindE split: sum.split bool.split)

lemma view_scans [simp]: "view (snd (scan_advance k R ix e s)) = view s" "view (snd (scan_get R e s)) = view s"
  "view (snd (seq_begin k R e s)) = view s" "view (snd (ix_begin k R im e s)) = view s"
  by (auto simp: scan_advance_def scan_get_def seq_begin_def ix_begin_def snd_bindE Let_def split: sum.split option.split prod.split)

section \<open>Executors\<close>

text \<open>Executors whose operations leave alone what \<open>V\<close> says about the system.\<close>

definition quiet :: "('s \<Rightarrow> 'v) \<Rightarrow> 's executor \<Rightarrow> bool" where
  "quiet V E \<longleftrightarrow> (\<forall>st. V (snd (snd (beginTuple E st))) = V (snd st) \<and> V (snd (snd (nextTuple E st))) = V (snd st) \<and>
     V (snd (snd (Next E st))) = V (snd st))"

lemma quietI:
  assumes "\<And>e s. V (snd (snd (beginTuple E (e, s)))) = V s" "\<And>e s. V (snd (snd (nextTuple E (e, s)))) = V s"
    "\<And>e s. V (snd (snd (Next E (e, s)))) = V s"
  shows "quiet V E"
  using assms by (simp add: quiet_def)

lemma quietD [simp]:
  assumes "quiet V E"
  shows "V (snd (snd (beginTuple E st))) = V (snd st)" "V (snd (snd (nextTuple E st))) = V (snd st)"
    "V (snd (snd (Next E st))) = V (snd st)"
  using assms unfolding quiet_def by blast+

lemma snd_beside [simp]: "snd (snd (beside m st)) = snd (m (snd st))" "fst (snd (beside m st)) = fst st"
  by (simp_all add: beside_def split: prod.split)

lemma snd_child [simp]: "snd (snd (child con r)) = snd (snd r)"
  by (simp add: child_def split: prod.split)

lemma snd_scan_op [simp]: "snd (snd (scan_op con r e)) = snd r"
  by (auto simp: scan_op_def split: prod.split sum.split)

lemma snd_join_op [simp]: "snd (snd (join_op r)) = snd (snd r)"
  by (simp add: join_op_def split: prod.split)

lemma snd_on_side [simp]: "snd (snd (on_left m ((l, r, j), s))) = snd (snd (m (l, s)))" "snd (snd (on_right m ((l, r, j), s))) = snd (snd (m (r, s)))"
  "snd (set_join g st) = snd st"
  by (simp_all add: on_left_def on_right_def set_join_def split: prod.split)

lemma quiet_scans: "quiet view (seq_scan k R)" "quiet view (index_scan k R)"
  by (rule quietI; auto simp: seq_scan_def index_scan_def split: exec.split)+

lemma quiet_refill [simp]: "quiet V L \<Longrightarrow> V (snd (snd (refill m L n st))) = V (snd st)"
  by (induction m arbitrary: n st) (auto simp: snd_bindE split: sum.split option.split)

lemma quiet_sides [simp]:
  "quiet V E \<Longrightarrow> V (snd (snd (on_left (beginTuple E) st))) = V (snd st)" "quiet V E \<Longrightarrow> V (snd (snd (on_right (beginTuple E) st))) = V (snd st)"
  "quiet V E \<Longrightarrow> V (snd (snd (on_right (nextTuple E) st))) = V (snd st)" "quiet V E \<Longrightarrow> V (snd (snd (on_right (Next E) st))) = V (snd st)"
  "quiet V E \<Longrightarrow> V (snd (snd (on_left (refill m E n) st))) = V (snd st)"
  by (cases st; cases "fst st"; simp)+

lemma quiet_blocks [simp]:
  "quiet V L \<Longrightarrow> V (snd (snd (refill_left_block L st))) = V (snd st)" "quiet V Rt \<Longrightarrow> V (snd (snd (begin_right_scan Rt st))) = V (snd st)"
  by (auto simp: refill_left_block_def begin_right_scan_def snd_bindE split: sum.split prod.split)

lemma quiet_join_advance [simp]: "quiet V L \<Longrightarrow> quiet V Rt \<Longrightarrow> V (snd (snd (join_advance k L Rt st))) = V (snd st)"
proof (induction k arbitrary: st)
  case (Suc k)
  obtain l r j s where st: "st = ((l, r, j), s)" by (metis surj_pair)
  show ?case
    using Suc by (cases "right_tuple j")
      (auto simp: st snd_bindE prod.case_eq_if simp del: prod.collapse split: sum.split option.split if_split)
qed simp

lemma quiet_join: "quiet V L \<Longrightarrow> quiet V Rt \<Longrightarrow> quiet V (nested_loop_join k L Rt)"
  by (rule quietI) (auto simp: nested_loop_join_def join_begin_def join_next_def snd_bindE prod.case_eq_if
      split: exec.split sum.split)

lemma quiet_projection: "quiet V P \<Longrightarrow> quiet V (projection P)"
  by (rule quietI) (auto simp: projection_def snd_case_res prod.case_eq_if split: exec.split sum.split)

lemma quiet_drain [simp]: "quiet V P \<Longrightarrow> V (snd (snd (drain k P st))) = V (snd st)"
  by (induction k arbitrary: st) (auto simp: snd_bindE split: sum.split option.split)

lemma quiet_sorting: "quiet V P \<Longrightarrow> quiet V (sorting k srt P)"
  by (rule quietI) (auto simp: sorting_def sort_begin_def drain_all_def snd_case_res snd_bindE prod.case_eq_if Let_def
      split: exec.split sum.split)

lemma quiet_limiting: "quiet V P \<Longrightarrow> quiet V (limiting P)"
  by (rule quietI) (auto simp: limiting_def split: exec.split)

lemma quiet_agg_loop [simp]: "quiet V P \<Longrightarrow> V (snd (snd (agg_loop k P e accs out st))) = V (snd st)"
  by (induction k arbitrary: accs out st) (auto simp: snd_bindE split: sum.split option.split prod.split)

lemma quiet_aggregation: "quiet V P \<Longrightarrow> quiet V (aggregation k P)"
  by (rule quietI) (auto simp: aggregation_def agg_begin_def snd_case_res snd_bindE prod.case_eq_if
      split: exec.split sum.split)

lemma quiet_vtable [simp]: "quiet view (vtable k srt R e)"
  by (induction e) (simp_all add: quiet_scans quiet_join quiet_projection quiet_sorting quiet_limiting quiet_aggregation)

lemma view_collect [simp]: "quiet V E \<Longrightarrow> V (snd (snd (collect_rids k E st))) = V (snd st)"
  by (induction k arbitrary: st) (auto simp: snd_bindE split: sum.split option.split)

lemma view_select_loop [simp]: "quiet V E \<Longrightarrow> V (snd (snd (snd (select_loop k E n m cx st)))) = V (snd st)"
  by (induction k arbitrary: n m cx st) (auto simp: snd_case_res prod.case_eq_if split: sum.split option.split)

lemma view_select_from [simp]: "quiet V E \<Longrightarrow> V (snd (snd (snd (select_from k E cols cx st)))) = V (snd st)"
  by (auto simp: select_from_def Let_def snd_case_res prod.case_eq_if split: sum.split)

section \<open>Statements that define data\<close>

lemma view_meta [simp]: "view (flush_meta s) = view s" "view (update_tab t g s) = view s"
  by (simp_all add: flush_meta_def write_meta_def set_fs_def update_tab_def)

lemma view_on_handle [simp]: "view (snd (snd (on_handle m st))) = view (snd st)"
  by (simp add: on_handle_def split: prod.split)

lemma view_fill_index [simp]: "view (snd (snd (fill_index k R uniq t names tot cols r st))) = view (snd st)"
proof (induction k arbitrary: uniq r st)
  case 0
  show ?case by (subst fill_index.simps) (simp add: snd_bindE split: sum.split)
next
  case (Suc k)
  then show ?case by (subst fill_index.simps) (simp add: snd_bindE Let_def split: sum.split)
qed

lemma view_drop_index [simp]: "view (snd (drop_index R t names s)) = view s"
  by (auto simp: drop_index_def snd_bindE Let_def split: sum.split option.split prod.split)

lemma view_create_index [simp]: "view (snd (sm_create_index R t names s)) = view s"
  by (auto simp: sm_create_index_def snd_bindE Let_def snd_case_res prod.case_eq_if split: sum.split)

text \<open>A new table adds a descriptor and keeps the others.\<close>

lemma create_table_frame:
  fixes s :: "('r, 'z) sm_scheme"
  shows "sm.more (snd (create_table t defs s)) = sm.more s" "fd_of s \<subseteq>\<^sub>m fd_of (snd (create_table t defs s))"
proof -
  have o: "sm.more (snd (open_table t s)) = sm.more s \<and> fd_of s \<subseteq>\<^sub>m fd_of (snd (open_table t s))" for s :: "('r, 'z) sm_scheme"
    by (auto simp: open_table_def fd_of_def map_le_def emplace_def split: prod.split sum.split option.split)
  have v: "sm.more s1 = sm.more s2 \<and> fd_of s1 = fd_of s2" if "view s1 = view s2" for s1 s2 :: "('r, 'z) sm_scheme"
    using that by (simp add: view_def)
  have "sm.more (snd (create_table t defs s)) = sm.more s \<and> fd_of s \<subseteq>\<^sub>m fd_of (snd (create_table t defs s))"
  proof (cases "is_table (sm_db s) t")
    case False
    let ?s1 = "snd (on_pool (rm_create_file t (snd (layout_cols t 0 defs))) s)"
    let ?s2 = "?s1\<lparr>sm_db := (sm_db ?s1)\<lparr>tabs := map_put t \<lparr>tm_name = t, tm_cols = fst (layout_cols t 0 defs), indexes = []\<rparr> (tabs (sm_db ?s1))\<rparr>\<rparr>"
    note v [of ?s1 s] v [of ?s2 ?s1] v [of "flush_meta (snd (open_table t ?s2))" "snd (open_table t ?s2)"] o [of ?s2]
    then show ?thesis using False by (auto simp: create_table_def snd_bindE Let_def split: sum.split)
  qed (simp add: create_table_def)
  then show "sm.more (snd (create_table t defs s)) = sm.more s" "fd_of s \<subseteq>\<^sub>m fd_of (snd (create_table t defs s))" by simp_all
qed

end
