(* ===== verification/Server_Locks.thy ===== *)
theory Server_Locks
  imports System_Frame Lock_Manager_Props
begin

text \<open>
  Locks across the whole server. The requests of all clients, in any order, keep the lock table consistent and the tables a
  transaction has changed locked by it until it ends; so active transactions never work on each other's changes.
  \<^verbatim>\<open>DROP TABLE\<close>, which takes no lock, is left out.
\<close>

section \<open>The invariant of the server\<close>

definition lock_view :: "'r sys \<Rightarrow> lock_sys" where
  "lock_view s = \<lparr>ls_txns = txn_map s, ls_table = sy_locks s\<rparr>"

lemma lock_view_sel [simp]: "ls_txns (lock_view s) = txn_map s" "ls_table (lock_view s) = sy_locks s"
  by (simp_all add: lock_view_def)

text \<open>A transaction holds a lock on a table with the given right.\<close>

definition holds :: "(lock_mode \<Rightarrow> bool) \<Rightarrow> 'r sys \<Rightarrow> int \<Rightarrow> string \<Rightarrow> bool" where
  "holds P s t tab \<longleftrightarrow> (\<exists>fd m. fd_of s tab = Some fd \<and> held_mode (sy_locks s) t (table_id fd) = Some m \<and> P m)"

definition active :: "'r sys \<Rightarrow> int \<Rightarrow> bool" where
  "active s t \<longleftrightarrow> (\<exists>x. txn_map s t = Some x \<and> txn_state x = GROWING)"

definition known :: "'r sys \<Rightarrow> int \<Rightarrow> bool" where
  "known s t \<longleftrightarrow> t \<in> dom (txn_map s)"

definition changes :: "'r sys \<Rightarrow> int \<Rightarrow> write_record list" where
  "changes s t = (case txn_map s t of None \<Rightarrow> [] | Some x \<Rightarrow> write_set x)"

definition server_ok :: "'r sys \<Rightarrow> bool" where
  "server_ok s \<longleftrightarrow> Lock_Manager_Props.sys_ok (lock_view s) \<and>
     (\<forall>t w. active s t \<longrightarrow> w \<in> set (changes s t) \<longrightarrow> holds writes_all s t (wr_tab_name w)) \<and>
     (\<forall>t x. txn_map s t = Some x \<longrightarrow> 0 \<le> t \<and> t < next_txn_id s)"

text \<open>
  What a step on behalf of transaction \<open>t\<close> leaves alone: the invariant, the descriptors of open tables, the other transactions
  and their locks; and as long as \<open>t\<close> is active it keeps its rights.
\<close>

definition keeps_rights :: "int \<Rightarrow> 'r sys \<Rightarrow> 'r sys \<Rightarrow> bool" where
  "keeps_rights t s s' \<longleftrightarrow> (\<forall>l m. held_mode (sy_locks s) t l = Some m \<longrightarrow>
     (\<exists>m'. held_mode (sy_locks s') t l = Some m' \<and> (writes_all m \<longrightarrow> writes_all m') \<and> (reads_all m \<longrightarrow> reads_all m')))"

definition by_txn :: "int \<Rightarrow> 'r sys \<Rightarrow> 'r sys \<Rightarrow> bool" where
  "by_txn t s s' \<longleftrightarrow> server_ok s' \<and> fd_of s \<subseteq>\<^sub>m fd_of s' \<and> next_txn_id s' = next_txn_id s \<and> dom (txn_map s') = dom (txn_map s) \<and>
     (\<forall>u. u \<noteq> t \<longrightarrow> txn_map s' u = txn_map s u \<and> held_mode (sy_locks s') u = held_mode (sy_locks s) u) \<and>
     (active s' t \<longrightarrow> active s t \<and> keeps_rights t s s')"

lemma by_refl: "server_ok s \<Longrightarrow> by_txn t s s"
  by (auto simp: by_txn_def keeps_rights_def)

lemma keeps_rights_trans: "keeps_rights t s s1 \<Longrightarrow> keeps_rights t s1 s2 \<Longrightarrow> keeps_rights t s s2"
  unfolding keeps_rights_def by metis

lemma by_trans: "by_txn t s s1 \<Longrightarrow> by_txn t s1 s2 \<Longrightarrow> by_txn t s s2"
  unfolding by_txn_def using keeps_rights_trans map_le_trans by metis

lemma by_ok: "by_txn t s s' \<Longrightarrow> server_ok s'"
  by (simp add: by_txn_def)

lemma by_bind:
  assumes "by_txn t s (snd m)" and "\<And>x s1. m = Ret x s1 \<Longrightarrow> by_txn t s s1 \<Longrightarrow> by_txn t s1 (snd (f x s1))"
  shows "by_txn t s (snd (seqE m f))"
proof (cases "fst m")
  case (Inr x)
  then have "m = Ret x (snd m)" by (cases m) simp
  from assms(2) [OF this assms(1)] by_trans [OF assms(1)] Inr show ?thesis by (simp add: snd_bindE)
qed (use assms(1) in \<open>simp add: snd_bindE\<close>)

lemma holds_mono:
  assumes "by_txn t s s'" and "active s' t" and "holds P s t tab" and "P = writes_all \<or> P = reads_all"
  shows "holds P s' t tab"
proof -
  from assms(3) obtain fd m where m: "fd_of s tab = Some fd" "held_mode (sy_locks s) t (table_id fd) = Some m" "P m"
    by (auto simp: holds_def)
  from assms(1,2) have k: "keeps_rights t s s'" "fd_of s \<subseteq>\<^sub>m fd_of s'" by (auto simp: by_txn_def)
  from k(1) m assms(4) obtain m' where "held_mode (sy_locks s') t (table_id fd) = Some m'" "P m'"
    unfolding keeps_rights_def by blast
  moreover from k(2) m(1) have "fd_of s' tab = Some fd" by (auto simp: map_le_def dom_def)
  ultimately show ?thesis by (auto simp: holds_def)
qed

section \<open>Steps\<close>

lemma more_next: "sm.more s' = sm.more s \<Longrightarrow> next_txn_id s' = next_txn_id s"
  by (cases s; cases s'; simp)

lemma more_locks: "sm.more s' = sm.more s \<Longrightarrow> txn_map s' = txn_map s \<and> sy_locks s' = sy_locks s"
  by (cases s; cases s'; simp)

text \<open>Steps that leave transactions and locks alone.\<close>

lemma by_same:
  assumes "server_ok s" and "txn_map s' = txn_map s" and "sy_locks s' = sy_locks s" and "next_txn_id s' = next_txn_id s"
    and "fd_of s \<subseteq>\<^sub>m fd_of s'"
  shows "by_txn t s s'"
proof -
  have "holds P s u tab \<Longrightarrow> holds P s' u tab" for P u tab
    using assms(3,5) by (force simp: holds_def map_le_def dom_def)
  then have "server_ok s'" using assms by (auto simp: server_ok_def lock_view_def active_def changes_def)
  then show ?thesis using assms by (auto simp: by_txn_def keeps_rights_def active_def)
qed

lemma by_frame: "server_ok s \<Longrightarrow> sm.more s' = sm.more s \<Longrightarrow> fd_of s \<subseteq>\<^sub>m fd_of s' \<Longrightarrow> by_txn t s s'"
  using more_locks [of s' s] more_next [of s' s] by (simp add: by_same)

lemma by_view: "server_ok s \<Longrightarrow> view s' = view s \<Longrightarrow> by_txn t s s'"
  by (rule by_frame) (simp_all add: view_def)

lemma by_on_log: "server_ok s \<Longrightarrow> by_txn t s (snd (on_log m s))"
  by (rule by_same) (simp_all add: on_log_def fd_of_def [abs_def] split: prod.split)

text \<open>Steps that change the transaction \<open>t\<close> but not its locks.\<close>

lemma by_update:
  assumes "server_ok s" and "\<And>x. txn_id (g x) = txn_id x" and "\<And>x. lock_set (g x) = lock_set x"
    and "\<And>x. txn_state (g x) = GROWING \<Longrightarrow> txn_state x = GROWING"
    and "\<And>x w. txn_map s t = Some x \<Longrightarrow> txn_state (g x) = GROWING \<Longrightarrow> w \<in> set (write_set (g x)) \<Longrightarrow>
      w \<in> set (write_set x) \<or> holds writes_all s t (wr_tab_name w)"
  shows "by_txn t s (txn_update t g s)"
proof (cases "txn_map s t")
  case None
  then show ?thesis using by_refl [OF assms(1)] by (simp add: txn_update_def)
next
  case (Some x)
  let ?s = "s\<lparr>txn_map := (txn_map s)(t \<mapsto> g x)\<rparr>"
  have ok: "Lock_Manager_Props.sys_ok (lock_view s)" using assms(1) by (simp add: server_ok_def)
  have "txn_ok (sy_locks s) t x" using sys_okD(2) [OF ok] Some by simp
  then have "txn_ok (sy_locks s) t (g x)" using assms(2-4) by (auto simp: txn_ok_def)
  then have "Lock_Manager_Props.sys_ok (lock_view ?s)"
    using sys_ok_table_same [OF ok, of t x "g x"] Some by (simp add: lock_view_def)
  moreover have "holds P ?s u tab = holds P s u tab" for P u tab by (simp add: holds_def fd_of_def)
  moreover have "holds writes_all s t (wr_tab_name w)" if "txn_state (g x) = GROWING" "w \<in> set (write_set (g x))" for w
    using assms(5) [OF Some that] assms(4) [OF that(1)] assms(1) Some by (auto simp: server_ok_def active_def changes_def)
  ultimately have "server_ok ?s" using assms(1) Some by (auto simp: server_ok_def active_def changes_def)
  moreover have "fd_of ?s = fd_of s" by (simp add: fd_of_def fun_eq_iff)
  ultimately show ?thesis using Some assms(4) by (auto simp: by_txn_def txn_update_def keeps_rights_def active_def)
qed

lemma by_log_for: "server_ok s \<Longrightarrow> by_txn t s (snd (log_for t r s))"
  by (auto simp: log_for_def split: option.split intro!: by_refl by_bind by_on_log by_update dest: by_ok)

text \<open>A table the transaction may change, as long as it is active.\<close>

definition covered :: "'r sys \<Rightarrow> int \<Rightarrow> string \<Rightarrow> bool" where
  "covered s t tab \<longleftrightarrow> (active s t \<longrightarrow> holds writes_all s t tab)"

lemma covered_mono: "by_txn t s s' \<Longrightarrow> covered s t tab \<Longrightarrow> covered s' t tab"
  using holds_mono [of t s s' writes_all tab] by (auto simp: covered_def by_txn_def)

lemma by_append: "server_ok s \<Longrightarrow> covered s t (wr_tab_name w) \<Longrightarrow> by_txn t s (append_write t w s)"
  unfolding append_write_def by (rule by_update) (auto simp: covered_def active_def)

section \<open>Locks\<close>

lemma by_new_lock:
  assumes "server_ok s" and "txn_map s t = Some x" and "txn_state x = GROWING" and "table_locks_ok tab"
    and held: "\<And>u l. held_mode tab u l = (if u = t \<and> l = lid then Some (target_mode (sy_locks s) t lid m) else held_mode (sy_locks s) u l)"
    and lid: "lid = table_id fd"
  shows "by_txn t s (s\<lparr>sy_locks := tab, txn_map := (txn_map s)(t \<mapsto> x\<lparr>lock_set := List.insert lid (lock_set x)\<rparr>)\<rparr>)" (is "by_txn t s ?s")
proof -
  let ?x = "x\<lparr>lock_set := List.insert lid (lock_set x)\<rparr>"
  have ok: "Lock_Manager_Props.sys_ok (lock_view s)" using assms(1) by (simp add: server_ok_def)
  have x: "txn_ok (sy_locks s) t x" using sys_okD(2) [OF ok] assms(2) by simp
  have g: "\<exists>h'. held_mode tab t l = Some h' \<and> (writes_all h \<longrightarrow> writes_all h') \<and> (reads_all h \<longrightarrow> reads_all h') \<and> (writes_in h \<longrightarrow> writes_in h')"
    if "held_mode (sy_locks s) t l = Some h" for l h
    using that by (auto simp: held target_mode_def)
  have "intents_ok tab t" unfolding intents_ok_def
  proof (intro allI impI)
    fix fd' r m' assume "held_mode tab t (record_id fd' r) = Some m'"
    then have "held_mode (sy_locks s) t (record_id fd' r) = Some m'" using held lid by simp
    with x assms(3) obtain h where "held_mode (sy_locks s) t (table_id fd') = Some h" "writes_all m' \<longrightarrow> writes_in h"
      unfolding txn_ok_def intents_ok_def by blast
    with g show "\<exists>g. held_mode tab t (table_id fd') = Some g \<and> (writes_all m' \<longrightarrow> writes_in g)" by blast
  qed
  then have "txn_ok tab t ?x" using x by (auto simp: txn_ok_def held)
  moreover have "own_locks_only t (sy_locks s) tab" using assms(4) held by (simp add: own_locks_only_def)
  ultimately have "Lock_Manager_Props.sys_ok (lock_view ?s)"
    using sys_ok_step [OF ok, of t x tab ?x] assms(2) by (simp add: lock_view_def)
  moreover have fd: "fd_of ?s = fd_of s" by (simp add: fd_of_def fun_eq_iff)
  moreover have hw: "holds writes_all ?s u tb" if "holds writes_all s u tb" for u tb
  proof -
    from that obtain fd' h where h: "fd_of s tb = Some fd'" "held_mode (sy_locks s) u (table_id fd') = Some h" "writes_all h"
      by (auto simp: holds_def)
    show ?thesis using h g [of "table_id fd'" h] held [of u "table_id fd'"] unfolding holds_def fd by (cases "u = t") auto
  qed
  moreover have act: "active ?s u = active s u" "set (changes ?s u) = set (changes s u)" for u
    using assms(2) by (auto simp: active_def changes_def)
  ultimately have "server_ok ?s" using assms(1,2) unfolding server_ok_def act by auto
  moreover have "keeps_rights t s ?s" using g by (simp add: keeps_rights_def) blast
  moreover have "fd_of s \<subseteq>\<^sub>m fd_of ?s" using fd by simp
  moreover have "held_mode tab u = held_mode (sy_locks s) u" if "u \<noteq> t" for u using that by (auto simp: held)
  ultimately show ?thesis using act(1) assms(2) by (auto simp: by_txn_def)
qed

lemma request_step:
  assumes "server_ok s" and "txn_map s t = Some x"
  shows "by_txn t s (snd (on_locks (Some t) (request_lock (table_id fd) m) s)) \<and>
    active (snd (on_locks (Some t) (request_lock (table_id fd) m) s)) t = active s t \<and>
    (\<forall>b s1. on_locks (Some t) (request_lock (table_id fd) m) s = Ret b s1 \<longrightarrow> active s1 t \<and>
       (\<exists>m'. held_mode (sy_locks s1) t (table_id fd) = Some m' \<and> (writes_all m \<longrightarrow> writes_all m') \<and> (reads_all m \<longrightarrow> reads_all m')))"
proof -
  have ok: "Lock_Manager_Props.sys_ok (lock_view s)" using assms(1) by (simp add: server_ok_def)
  have x: "txn_ok (sy_locks s) t x" using sys_okD(2) [OF ok] assms(2) by simp
  have same: "s\<lparr>sy_locks := sy_locks s, txn_map := (txn_map s)(t \<mapsto> x)\<rparr> = s" using assms(2) by (simp add: map_upd_triv)
  show ?thesis
  proof (cases "txn_state x = GROWING")
    case False
    then show ?thesis using assms(2) same by_refl [OF assms(1)] by (simp add: on_locks_def request_lock_late)
  next
    case True
    have ls: "txn_id x = t" "\<And>l. l \<in> set (lock_set x) \<longleftrightarrow> held_mode (sy_locks s) (txn_id x) l \<noteq> None" using x by (auto simp: txn_ok_def)
    have tl: "table_locks_ok (sy_locks s)" using sys_okD(1) [OF ok] by simp
    note spec = request_lock_spec [OF tl True ls(2), of "table_id fd" m, unfolded ls(1)]
    show ?thesis
    proof (cases "blocked (sy_locks s) t (table_id fd) m")
      case True
      with spec assms(2) same by_refl [OF assms(1)] show ?thesis by (simp add: on_locks_def)
    next
      case False
      let ?x = "x\<lparr>lock_set := List.insert (table_id fd) (lock_set x)\<rparr>"
      from spec False obtain tab where r: "request_lock (table_id fd) m (Some x, sy_locks s) = Ret True (Some ?x, tab)" "table_locks_ok tab"
        "\<And>u l. held_mode tab u l = (if u = t \<and> l = table_id fd then Some (target_mode (sy_locks s) t (table_id fd) m) else held_mode (sy_locks s) u l)"
        by auto
      have eq: "on_locks (Some t) (request_lock (table_id fd) m) s = Ret True (s\<lparr>sy_locks := tab, txn_map := (txn_map s)(t \<mapsto> ?x)\<rparr>)"
        using r(1) assms(2) by (simp add: on_locks_def)
      have "held_mode tab t (table_id fd) = Some (target_mode (sy_locks s) t (table_id fd) m)" by (simp add: r(3))
      moreover have "writes_all m \<longrightarrow> writes_all (target_mode (sy_locks s) t (table_id fd) m)"
        "reads_all m \<longrightarrow> reads_all (target_mode (sy_locks s) t (table_id fd) m)"
        by (auto simp: target_mode_def split: option.split)
      ultimately show ?thesis using by_new_lock [OF assms True r(2,3) refl] True assms(2) by (auto simp: eq active_def)
    qed
  qed
qed

text \<open>The end of a transaction that is no longer active or has no changes left.\<close>

lemma by_unlock_all:
  assumes "server_ok s" and "active s t \<Longrightarrow> changes s t = []"
  shows "by_txn t s (unlock_all t s)"
proof (cases "txn_map s t")
  case None
  then show ?thesis using by_refl [OF assms(1)] by (simp add: unlock_all_def)
next
  case (Some x)
  have ok: "Lock_Manager_Props.sys_ok (lock_view s)" using assms(1) by (simp add: server_ok_def)
  have x: "txn_ok (sy_locks s) t x" using sys_okD(2) [OF ok] Some by simp
  have tl: "table_locks_ok (sy_locks s)" using sys_okD(1) [OF ok] by simp
  have d: "distinct (lock_set x)" using x by (simp add: txn_ok_def)
  let ?x = "x\<lparr>lock_set := [], txn_state := (if txn_state x = GROWING \<and> lock_set x \<noteq> [] then SHRINKING else txn_state x)\<rparr>"
  from release_locks_ok [OF tl x refl d] obtain tab where
    r: "release_locks (lock_set x) (Some x, sy_locks s) = (Some ?x, tab)" "own_locks_only t (sy_locks s) tab" "txn_ok tab t ?x"
      "\<forall>l. held_mode tab t l = None" by blast
  let ?s = "s\<lparr>sy_locks := tab, txn_map := (txn_map s)(t \<mapsto> ?x)\<rparr>"
  have eq: "unlock_all t s = ?s" using Some r(1) by (simp add: unlock_all_def on_locks_def)
  have "Lock_Manager_Props.sys_ok (lock_view ?s)" using sys_ok_step [OF ok, of t x tab ?x] r Some by (simp add: lock_view_def)
  moreover have fd: "fd_of ?s = fd_of s" by (simp add: fd_of_def fun_eq_iff)
  moreover have hw: "holds P ?s u tb = holds P s u tb" if "u \<noteq> t" for P u tb
    using that r(2) unfolding holds_def fd by (simp add: own_locks_only_def)
  moreover have nc: "changes ?s t = []" if "active ?s t" using that assms(2) Some by (auto simp: active_def changes_def split: if_splits)
  moreover have act: "active ?s u = active s u" "changes ?s u = changes s u" if "u \<noteq> t" for u using that by (auto simp: active_def changes_def)
  moreover have "holds writes_all ?s u (wr_tab_name w)" if "active ?s u" "w \<in> set (changes ?s u)" for u w
    using that assms(1) nc hw act by (cases "u = t") (auto simp: server_ok_def)
  ultimately have "server_ok ?s" using assms(1) Some by (auto simp: server_ok_def)
  moreover have "keeps_rights t s ?s" if "active ?s t"
  proof -
    have "lock_set x = []" using that Some by (auto simp: active_def split: if_splits)
    then show ?thesis using x by (auto simp: keeps_rights_def txn_ok_def)
  qed
  moreover have "fd_of s \<subseteq>\<^sub>m fd_of ?s" using fd by simp
  ultimately show ?thesis unfolding eq using Some r(2)
    by (auto simp: by_txn_def active_def own_locks_only_def fun_eq_iff split: if_splits)
qed

lemma active_update: "active (txn_update t g s) t \<Longrightarrow> \<exists>x. txn_map s t = Some x \<and> txn_state (g x) = GROWING"
  by (auto simp: active_def txn_update_def split: option.splits if_splits)

lemma changes_update: "changes (txn_update t g s) t = (case txn_map s t of None \<Rightarrow> [] | Some x \<Rightarrow> write_set (g x))"
  by (auto simp: changes_def txn_update_def split: option.splits)

lemma by_commit: "server_ok s \<Longrightarrow> by_txn t s (snd (txn_commit (Some t) logged s))"
proof -
  assume ok: "server_ok s"
  have l: "by_txn t s (snd (if logged then log_for t (CommitLogRecord t) s else Ret () s))" using ok by_log_for by_refl by auto
  show ?thesis unfolding txn_commit_def option.case
  proof (rule by_bind [OF l])
    fix u s1 assume "by_txn t s s1"
    then have ok1: "server_ok s1" by (rule by_ok)
    let ?s2 = "clear_write_set t s1" and ?s3 = "unlock_all t (clear_write_set t s1)"
    have b2: "by_txn t s1 ?s2" unfolding clear_write_set_def by (rule by_update [OF ok1]) auto
    have "changes ?s2 t = []" by (simp add: clear_write_set_def changes_update split: option.split)
    with by_unlock_all [OF by_ok [OF b2]] have b3: "by_txn t ?s2 ?s3" by blast
    have "by_txn t ?s3 (txn_update t (\<lambda>x. x\<lparr>txn_state := COMMITTED\<rparr>) ?s3)" by (rule by_update [OF by_ok [OF b3]]) auto
    with by_trans [OF b2 by_trans [OF b3]] show "by_txn t s1 (snd (Ret () (txn_update t (\<lambda>x. x\<lparr>txn_state := COMMITTED\<rparr>) ?s3)))" by simp
  qed
qed

lemma by_undo_writes: "server_ok s \<Longrightarrow> by_txn t s (snd (undo_writes k R t s))"
proof (induction k arbitrary: s)
  case (Suc k)
  show ?case
  proof (cases "txn_map s t")
    case (Some x)
    let ?s = "txn_update t (\<lambda>x. x\<lparr>write_set := butlast (write_set x)\<rparr>) s"
    have b: "by_txn t s ?s" by (rule by_update [OF Suc.prems]) (auto dest: in_set_butlastD)
    have "by_txn t ?s (snd (undo_write R (last (write_set x)) ?s))" by (rule by_view [OF by_ok [OF b]]) simp
    then have "by_txn t s (snd (seqE (undo_write R (last (write_set x)) ?s) (\<lambda>_ s1. undo_writes k R t s1)))"
      by (intro by_bind by_trans [OF b] Suc.IH) (auto dest: by_ok)
    with by_refl [OF Suc.prems] Some show ?thesis by simp
  qed (use by_refl [OF Suc.prems] in simp)
qed (simp add: by_refl)

lemma by_abort: "server_ok s \<Longrightarrow> by_txn t s (snd (txn_abort R (Some t) logged s))"
proof (cases "txn_map s t")
  case (Some x)
  assume ok: "server_ok s"
  let ?s = "txn_update t (\<lambda>x. x\<lparr>txn_state := ABORTED\<rparr>) s"
  have b: "by_txn t s ?s" by (rule by_update [OF ok]) auto
  have na: "\<not> active ?s t" using active_update by fastforce
  note u = by_undo_writes [OF by_ok [OF b], of t "length (write_set x)" R]
  have "by_txn t s1 (snd (let s2 = unlock_all t s1 in if logged then log_for t (AbortLogRecord t) s2 else Ret () s2))"
    if "by_txn t ?s s1" for s1
  proof -
    have "\<not> active s1 t" using that na by (auto simp: by_txn_def)
    with by_unlock_all [OF by_ok [OF that]] have "by_txn t s1 (unlock_all t s1)" by blast
    from this by_trans [OF this by_log_for [OF by_ok [OF this], of t "AbortLogRecord t"]] show ?thesis by (simp add: Let_def)
  qed
  then have "by_txn t ?s (snd (seqE (undo_writes (length (write_set x)) R t ?s)
      (\<lambda>_ s1. let s2 = unlock_all t s1 in if logged then log_for t (AbortLogRecord t) s2 else Ret () s2)))"
    by (intro by_bind [OF u]) auto
  with by_trans [OF b] Some show ?thesis by (simp add: txn_abort_def)
qed (simp add: txn_abort_def by_refl)

section \<open>Taking the locks of a statement\<close>

definition right :: "bool \<Rightarrow> lock_mode \<Rightarrow> bool" where
  "right w = (if w then writes_all else reads_all)"

text \<open>An operation of \<open>t\<close> that, when it succeeds, has the locks for \<open>T\<close>: tables to read, and with \<open>True\<close> tables to change.\<close>

definition locks_for :: "int \<Rightarrow> 'r sys \<Rightarrow> ('a, 'r sys) res \<Rightarrow> (bool \<times> string) set \<Rightarrow> bool" where
  "locks_for t s r T \<longleftrightarrow> by_txn t s (snd r) \<and> active (snd r) t = active s t \<and>
     (\<not> isl (fst r) \<longrightarrow> (\<forall>(w, tab) \<in> T. active (snd r) t \<and> holds (right w) (snd r) t tab))"

lemma locks_bind:
  assumes "locks_for t s m T" and "\<And>x s1. m = Ret x s1 \<Longrightarrow> by_txn t s s1 \<Longrightarrow> locks_for t s1 (f x s1) T'" and "U \<subseteq> T \<union> T'"
  shows "locks_for t s (seqE m f) U"
proof (cases "fst m")
  case (Inl e)
  then have "m = Throw e (snd m)" by (cases m) simp
  then have "seqE m f = Throw e (snd m)" by (metis bindE_Throw)
  with assms(1) Inl show ?thesis by (simp add: locks_for_def)
next
  case (Inr x)
  let ?s = "snd m"
  from Inr have m: "m = Ret x ?s" by (cases m) simp
  have b: "by_txn t s ?s" using assms(1) by (simp add: locks_for_def)
  note f = assms(2) [OF m b]
  have eq: "seqE m f = f x ?s" using m by (metis bindE_Ret)
  have "holds (right w) (snd (f x ?s)) t tab" if "(w, tab) \<in> T" "active (snd (f x ?s)) t" for w tab
    using holds_mono [of t ?s "snd (f x ?s)" "right w" tab] f that assms(1) Inr by (auto simp: locks_for_def right_def)
  moreover have "active ?s t" if "(w, tab) \<in> T" for w tab using assms(1) Inr that by (auto simp: locks_for_def)
  moreover have "active (snd (f x ?s)) t = active ?s t" "active ?s t = active s t" using f assms(1) by (simp_all add: locks_for_def)
  ultimately show ?thesis unfolding eq using assms(3) f by_trans [OF b] by (fastforce simp: locks_for_def)
qed

lemma locks_none: "server_ok s \<Longrightarrow> snd r = s \<Longrightarrow> locks_for t s r {}"
  by (simp add: locks_for_def by_refl)

lemma locks_throw: "server_ok s \<Longrightarrow> locks_for t s (Throw e s) T"
  by (simp add: locks_for_def by_refl)

lemma locks_view: "server_ok s \<Longrightarrow> view (snd r) = view s \<Longrightarrow> locks_for t s r {}"
  using more_locks [of "snd r" s] by (simp add: locks_for_def by_view view_def active_def)

lemma locks_request:
  assumes "server_ok s" and "known s t" and "fd_of s tab = Some fd" and "right w m"
  shows "locks_for t s (seqE (on_locks (Some t) (request_lock (table_id fd) m) s) (\<lambda>_ s1. Ret () s1)) {(w, tab)}"
proof -
  let ?r = "on_locks (Some t) (request_lock (table_id fd) m) s"
  from assms(2) obtain x where x: "txn_map s t = Some x" by (auto simp: known_def)
  note r = request_step [OF assms(1) x, of fd m]
  have "locks_for t s ?r {(w, tab)}"
  proof (cases "fst ?r")
    case (Inr b)
    then have "?r = Ret b (snd ?r)" by (cases ?r) simp
    with r obtain m' where "active (snd ?r) t" "held_mode (sy_locks (snd ?r)) t (table_id fd) = Some m'" "right w m'"
      using assms(4) by (metis right_def)
    moreover have "fd_of (snd ?r) tab = Some fd" using r assms(3) by (auto simp: by_txn_def map_le_def dom_def)
    ultimately show ?thesis using r by (auto simp: locks_for_def holds_def)
  qed (use r in \<open>simp add: locks_for_def\<close>)
  then show ?thesis by (rule locks_bind [where T' = "{}"]) (auto intro: locks_none dest: by_ok)
qed

lemma in_dom: "by_txn t s s' \<Longrightarrow> known s t \<Longrightarrow> known s' t"
  by (simp add: by_txn_def known_def)

lemma fd_of_handle: "map_of (fhs s) tab = Some (fd, h) \<Longrightarrow> fd_of s tab = Some fd"
  by (simp add: fd_of_def)

lemma locks_shared:
  "server_ok s \<Longrightarrow> known s t \<Longrightarrow> map_of (fhs s) tab = Some (fd, h) \<Longrightarrow> locks_for t s (lock_table_shared t fd s) {(False, tab)}"
  unfolding lock_table_shared_def lock_shared_on_table_def
  by (rule locks_request) (auto simp: fd_of_handle right_def reads_all_def)

lemma locks_exclusive:
  "server_ok s \<Longrightarrow> known s t \<Longrightarrow> locks_for t s (lock_table_exclusive t tab s) {(True, tab)}"
  unfolding lock_table_exclusive_def lock_exclusive_on_table_def
  by (auto split: option.split intro: locks_throw intro!: locks_request simp: fd_of_handle right_def writes_all_def)

text \<open>Looking something up first changes nothing.\<close>

lemma locks_lift:
  assumes "server_ok s" and "\<And>x. r = Inr x \<Longrightarrow> locks_for t s (f x s) T"
  shows "locks_for t s (seqE (lift_sm r s) f) T"
  using assms locks_throw by (cases r) (auto simp: lift_sm_def)

lemma locks_map:
  assumes "locks_for t s m T" and "\<And>x s1. m = Ret x s1 \<Longrightarrow> snd (f x s1) = s1"
  shows "locks_for t s (seqE m f) T"
  using assms by (intro locks_bind [where T' = "{}"]) (auto intro: locks_none dest: by_ok)

lemma locks_seq_scan: "server_ok s \<Longrightarrow> known s t \<Longrightarrow> locks_for t s (SeqScanExecutor t tab conds s) {(False, tab)}"
  unfolding SeqScanExecutor_def
  by (rule locks_lift) (auto split: option.split intro: locks_throw intro!: locks_map locks_shared)

lemma locks_index_scan: "server_ok s \<Longrightarrow> known s t \<Longrightarrow> locks_for t s (IndexScanExecutor t tab conds names s) {(False, tab)}"
  unfolding IndexScanExecutor_def
  by (intro locks_lift) (auto split: option.split intro: locks_throw intro!: locks_map locks_shared simp: lift_sm_def snd_bindE split: sum.split)

fun scanned :: "plan \<Rightarrow> string set" where
  "scanned (ScanPlan tag x) = {sp_tab_name x}"
| "scanned (JoinPlan l r conds) = scanned l \<union> scanned r"
| "scanned (ProjectionPlan p cols) = scanned p"
| "scanned (SortPlan p cols descs limit) = scanned p"
| "scanned (LimitPlan p limit) = scanned p"
| "scanned (AggregatePlan p calls) = scanned p"
| "scanned _ = {}"

lemma locks_over: "locks_for t s r T \<Longrightarrow> locks_for t s (over f r) T"
  unfolding over_def by (rule locks_map) (auto split: option.split sum.split)

lemma locks_convert:
  "server_ok s \<Longrightarrow> known s t \<Longrightarrow> locks_for t s (convert_plan_executor p t s) (Pair False ` scanned p)"
proof (induction p arbitrary: s)
  case (ScanPlan tag x)
  show ?case using ScanPlan locks_seq_scan locks_index_scan by (auto intro!: locks_map)
next
  case (JoinPlan l r conds)
  show ?case unfolding convert_plan_executor.simps
    by (rule locks_bind [OF JoinPlan.IH(1) [OF JoinPlan.prems] locks_over [OF JoinPlan.IH(2)]]) (auto dest: by_ok in_dom simp: JoinPlan.prems)
qed (auto intro!: locks_over locks_none)

lemma locks_scan_rids:
  assumes "server_ok s" and "known s t"
  shows "locks_for t s (scan_rids k srt R p t s) (Pair False ` scanned p)"
  unfolding scan_rids_def
proof (rule locks_bind [OF locks_convert [OF assms], where T' = "{}"])
  fix x s1 assume "by_txn t s s1"
  then have ok: "server_ok s1" by (rule by_ok)
  show "locks_for t s1 (case x of None \<Rightarrow> Throw NullDereference s1
      | Some e \<Rightarrow> bindE (seqE (beginTuple (vtable k srt R e) (e, s1)) (\<lambda>_ st. collect_rids k (vtable k srt R e) st)) (\<lambda>rs (e', s2). Ret rs s2) snd) {}"
    by (cases x) (auto simp: ok locks_throw snd_bindE prod.case_eq_if split: sum.split intro!: locks_view)
qed simp

definition touched :: "plan \<Rightarrow> (bool \<times> string) set" where
  "touched p =
     (case p of
        DMLPlan tag sub tab vals conds sets \<Rightarrow>
          if tag = T_select then Pair False ` scanned sub
          else if tag = T_Update \<or> tag = T_Delete then Pair False ` scanned sub \<union> {(True, tab)}
          else if tag = T_Insert then {(True, tab)} else {}
      | _ \<Rightarrow> {})"

lemma locks_dml_executors:
  assumes "server_ok s" and "known s t"
  shows "locks_for t s (InsertExecutor t tab vals s) {(True, tab)}" "locks_for t s (DeleteExecutor t tab conds rids s) {(True, tab)}"
    "locks_for t s (UpdateExecutor t tab sets conds rids s) {(True, tab)}"
  unfolding InsertExecutor_def DeleteExecutor_def UpdateExecutor_def
  by (rule locks_lift [OF assms(1)]; use assms in \<open>auto intro!: locks_map locks_exclusive intro: locks_throw\<close>)+

lemma locks_portal_start:
  assumes "server_ok s" and "known s t"
  shows "locks_for t s (portal_start k srt R p t s) (touched p)"
proof (cases p)
  case (DMLPlan tag sub tab vals conds sets)
  have sel: "locks_for t s (seqE (convert_plan_executor sub t s) (\<lambda>x s1. case x of None \<Rightarrow> Throw NullDereference s1 | Some e \<Rightarrow> Ret (g e) s1))
      (Pair False ` scanned sub)" for g :: "exec \<Rightarrow> portal_stmt"
    by (rule locks_map [OF locks_convert [OF assms]]) (auto split: option.split)
  have upd: "locks_for t s (seqE (scan_rids k srt R sub t s) (\<lambda>rids s1. seqE (c rids s1) (\<lambda>e s2. Ret (g e) s2)))
      (Pair False ` scanned sub \<union> {(True, tab)})"
    if "\<And>rids s1. server_ok s1 \<Longrightarrow> known s1 t \<Longrightarrow> locks_for t s1 (c rids s1) {(True, tab)}"
    for c :: "rid list \<Rightarrow> _ \<Rightarrow> (modify_exec, _) res" and g :: "modify_exec \<Rightarrow> portal_stmt"
    by (rule locks_bind [OF locks_scan_rids [OF assms] locks_map [OF that]]) (auto dest: by_ok in_dom simp: assms)
  have ins: "locks_for t s (seqE (InsertExecutor t tab vals s) (\<lambda>e s1. Ret (g e) s1)) {(True, tab)}" for g :: "insert_exec \<Rightarrow> portal_stmt"
    by (rule locks_map [OF locks_dml_executors(1) [OF assms]]) simp
  show ?thesis
    using sel upd [OF locks_dml_executors(2)] upd [OF locks_dml_executors(3)] ins
    by (simp add: locks_throw [OF assms(1)] portal_start_def touched_def DMLPlan Let_def)
qed (simp_all add: portal_start_def touched_def assms(1) locks_none Let_def)

section \<open>Running a statement\<close>

text \<open>An operation of a transaction that may change a table.\<close>

definition sound :: "int \<Rightarrow> string \<Rightarrow> 'r sys \<Rightarrow> ('a, 'r sys) res \<Rightarrow> bool" where
  "sound t tab s r \<longleftrightarrow> (server_ok s \<longrightarrow> covered s t tab \<longrightarrow> by_txn t s (snd r))"

lemma sound_bind: "sound t tab s m \<Longrightarrow> (\<And>x s1. m = Ret x s1 \<Longrightarrow> sound t tab s1 (f x s1)) \<Longrightarrow> sound t tab s (seqE m f)"
  unfolding sound_def by (intro impI by_bind) (auto dest: by_ok covered_mono)

lemma sound_view: "view (snd r) = view s \<Longrightarrow> sound t tab s r"
  by (simp add: sound_def by_view)

lemma sound_log: "sound t tab s (log_if logged t l s)"
  by (simp add: sound_def log_if_def by_log_for by_refl)

text \<open>Noting a change before or after the operation.\<close>

lemma sound_append: "wr_tab_name w = tab \<Longrightarrow> sound t tab s (Ret x (append_write t w s))"
  by (simp add: sound_def by_append)

lemma sound_keys_after:
  assumes "wr_tab_name w = tab" and "\<And>s. view (snd (m s)) = view s" and "\<And>x s1. sound t tab s1 (f x s1)"
  shows "sound t tab s (seqE (m (append_write t w s)) f)"
proof -
  have "sound t tab (append_write t w s) (seqE (m (append_write t w s)) f)" by (intro sound_bind sound_view assms(2,3))
  then show ?thesis using by_append [of s t w] by_ok covered_mono by_trans assms(1) unfolding sound_def by metis
qed

lemma sound_ops:
  "sound t tab s (Ret x s)" "sound t tab s (Throw e s)" "sound t tab s (on_table tb (get_record R r) s)"
  "sound t tab s (on_table tb (insert_record R b) s)" "sound t tab s (on_table tb (delete_record R r) s)"
  "sound t tab s (on_table tb (update_record R r b) s)" "sound t tab s (insert_keys R tb b r ixs s)" "sound t tab s (check_keys R tb b b' ixs s)"
  by (simp_all add: sound_view)

lemma sound_insert: "sound t (in_tab_name e) s (insert_next R logged t e s)"
  unfolding insert_next_def Let_def
  by (auto split: option.split sum.split intro!: sound_ops sound_bind sound_log sound_append)

lemma sound_delete_row: "sound t (mo_tab_name e) s (delete_row R logged t e r s)"
  unfolding delete_row_def Let_def
  by (rule sound_bind, rule sound_ops, rule sound_bind, rule sound_log,
      rule sound_keys_after [where m = "drop_keys R tb b ixs" for R tb b ixs]) (simp_all add: sound_ops)

lemma sound_update_row: "sound t (mo_tab_name e) s (update_row R logged t e r s)"
proof -
  let ?tab = "mo_tab_name e" and ?ixs = "indexes (mo_tab e)"
  have step: "sound t ?tab s1 (seqE (check_keys R ?tab old new ?ixs s1)
      (\<lambda>_ s2. seqE (log_if logged t (UpdateLogRecord t old new r ?tab) s2)
         (\<lambda>_ s3. seqE (swap_keys R ?tab old new r ?ixs
                        (append_write t \<lparr>wtype = UPDATE_TUPLE, wr_tab_name = ?tab, wr_rid = r, wr_record = old\<rparr> s3))
            (\<lambda>_ s4. on_table ?tab (update_record R r new) s4))))" for s1 old new
    by (rule sound_bind, rule sound_ops, rule sound_bind, rule sound_log,
        rule sound_keys_after [where m = "swap_keys R tb b b' r ixs" for R tb b b' r ixs]) (simp_all add: sound_ops)
  show ?thesis unfolding update_row_def Let_def
    by (rule sound_bind, rule sound_ops) (auto split: sum.split intro: sound_ops step)
qed

lemma sound_each_rid: "(\<And>r s. sound t tab s (f r s)) \<Longrightarrow> sound t tab s (each_rid f rs s)"
  by (induction rs arbitrary: s) (auto intro!: sound_bind sound_ops)

fun root_tab :: "portal_root \<Rightarrow> string option" where
  "root_tab (InsertRoot e) = Some (in_tab_name e)"
| "root_tab (DeleteRoot e) = Some (mo_tab_name e)"
| "root_tab (UpdateRoot e) = Some (mo_tab_name e)"
| "root_tab _ = None"

lemma by_run_dml:
  assumes "server_ok s" and "\<And>tab. root_tab root = Some tab \<Longrightarrow> covered s t tab"
  shows "by_txn t s (snd (run_dml R t root s))"
proof (cases root)
  case (InsertRoot e)
  have "sound t (in_tab_name e) s (seqE (insert_next R True t e s) (\<lambda>_ s1. Ret () s1))"
    by (intro sound_bind sound_insert sound_ops)
  with assms InsertRoot show ?thesis by (simp add: run_dml_def sound_def)
next
  case (DeleteRoot e)
  have "sound t (mo_tab_name e) s (delete_next R True t e s)" unfolding delete_next_def by (intro sound_each_rid sound_delete_row)
  with assms DeleteRoot show ?thesis by (simp add: run_dml_def sound_def)
next
  case (UpdateRoot e)
  have "sound t (mo_tab_name e) s (update_next R True t e s)" unfolding update_next_def by (intro sound_each_rid sound_update_row)
  with assms UpdateRoot show ?thesis by (simp add: run_dml_def sound_def)
qed (use by_refl [OF assms(1)] in \<open>simp_all add: run_dml_def\<close>)

lemma executor_tables:
  "InsertExecutor t tab vals s = Ret ie s1 \<Longrightarrow> in_tab_name ie = tab" "DeleteExecutor t tab conds rids s = Ret e s1 \<Longrightarrow> mo_tab_name e = tab"
  "UpdateExecutor t tab sets conds rids s = Ret e s1 \<Longrightarrow> mo_tab_name e = tab"
  by (auto simp: InsertExecutor_def DeleteExecutor_def UpdateExecutor_def bindE_eq_Ret split: if_splits)

lemma portal_start_root:
  "portal_start k srt R p t s = Ret po s1 \<Longrightarrow> root_tab (po_root po) = Some tab \<Longrightarrow> (True, tab) \<in> touched p"
  by (auto simp: portal_start_def touched_def Let_def bindE_eq_Ret split: plan.splits if_splits option.splits dest: executor_tables)

lemma portal_start_plan: "portal_start k srt R p t s = Ret po s1 \<Longrightarrow> po_plan po = p"
  by (auto simp: portal_start_def Let_def bindE_eq_Ret split: plan.splits if_splits option.splits)

end
