(* ===== verification/Server_Runs.thy ===== *)
theory Server_Runs
  imports Server_Locks Atomicity_Dml Query_Props
begin

text \<open>
  Requests of all clients, in any order, over the whole server: every statement runs under the locks it needs,
  and no active transaction reads or changes a table another active one has changed.
\<close>

section \<open>The transaction of a context stays\<close>

lemma cx_txn_put [simp]: "cx_txn (put_text str cx) = cx_txn cx" "cx_txn (to_file str cx) = cx_txn cx" "cx_txn (print_record_count n cx) = cx_txn cx"
  by (simp_all add: put_text_def to_file_def print_record_count_def)

lemma cx_txn_foldl: "(\<And>cx x. cx_txn (f cx x) = cx_txn cx) \<Longrightarrow> cx_txn (foldl f cx xs) = cx_txn cx"
  by (induction xs arbitrary: cx) simp_all

lemma cx_txn_separator [simp]: "cx_txn (print_separator n cx) = cx_txn cx"
proof -
  have "cx_txn (((put_text str) ^^ k) cx) = cx_txn cx" for str k by (induction k) simp_all
  then show ?thesis by (simp add: print_separator_def)
qed

lemma cx_txn_printer [simp]: "cx_txn (printer_record cols cx) = cx_txn cx"
  by (simp add: printer_record_def Let_def cx_txn_foldl)

lemma cx_txn_show [simp]: "cx_txn (show_tables db cx) = cx_txn cx" "cx_txn (snd (show_index db t cx)) = cx_txn cx"
  "cx_txn (snd (desc_table db t cx)) = cx_txn cx"
  by (simp_all add: show_tables_def show_index_def desc_table_def Let_def cx_txn_foldl split: sum.split prod.split)

lemma cx_txn_tuple [simp]: "cx_txn (print_tuple cols cx b) = cx_txn cx" "cx_txn (print_head caps cx) = cx_txn cx"
  by (simp_all add: print_tuple_def print_head_def Let_def)

lemma cx_txn_select_loop [simp]: "cx_txn (fst (snd (select_loop k E n m cx st))) = cx_txn cx"
  by (induction k arbitrary: n m cx st) (auto simp: prod.case_eq_if split: sum.split option.split)

lemma cx_txn_select_from [simp]: "cx_txn (fst (snd (select_from k E cols cx st))) = cx_txn cx"
  by (auto simp: select_from_def Let_def snd_case_res prod.case_eq_if split: sum.split)

section \<open>A statement\<close>

definition by_ctx :: "int \<Rightarrow> ctx \<times> 'r sys \<Rightarrow> ctx \<times> 'r sys \<Rightarrow> bool" where
  "by_ctx t st st' \<longleftrightarrow> by_txn t (snd st) (snd st') \<and> cx_txn (fst st') = cx_txn (fst st)"

lemma by_ctx_beside: "by_txn t (snd st) (snd (m (snd st))) \<Longrightarrow> by_ctx t st (snd (beside m st))"
  by (simp add: by_ctx_def)

lemma by_ctx_bind:
  assumes "by_ctx t st (snd m)" and "\<And>x st1. m = Ret x st1 \<Longrightarrow> by_ctx t st st1 \<Longrightarrow> by_ctx t st1 (snd (f x st1))"
  shows "by_ctx t st (snd (seqE m f))"
proof (cases "fst m")
  case (Inr x)
  then have "m = Ret x (snd m)" by (cases m) simp
  from assms(2) [OF this assms(1)] assms(1) by_trans Inr show ?thesis by (fastforce simp: snd_bindE by_ctx_def)
qed (use assms(1) in \<open>simp add: snd_bindE\<close>)

lemma by_run_select: "server_ok (snd st) \<Longrightarrow> by_ctx t st (snd (run_select k srt R po st))"
  by (cases st) (auto simp: run_select_def by_ctx_def by_refl snd_bindE prod.case_eq_if split: portal_root.split sum.split intro!: by_view)

lemma by_run_ddl:
  assumes "server_ok s" and "\<forall>tab names defs. p \<noteq> DDLPlan T_DropTable tab names defs"
  shows "by_txn t s (snd (run_mutli_query R p s))"
  using assms by_frame [OF assms(1) create_table_frame] by (auto simp: run_mutli_query_def by_refl split: plan.split intro: by_view)

lemma own_transaction: "server_ok s \<Longrightarrow> known s t \<Longrightarrow> get_transaction thr t s = Inr x \<Longrightarrow> x = Some t"
  by (auto simp: get_transaction_def server_ok_def known_def INVALID_TXN_ID_def split: option.splits if_splits)

lemma by_end_transaction:
  assumes "server_ok s" and "known s t" and "cx_txn cx = Some t" and "by_txn t s (snd (f (Some t) True s))"
  shows "by_ctx t (cx, s) (snd (end_transaction f thr t (cx, s)))"
  using assms own_transaction [OF assms(1,2), of thr]
  by (auto simp: end_transaction_def by_ctx_def by_refl split: sum.split)

lemma by_utility:
  assumes "server_ok s" and "known s t" and "cx_txn cx = Some t"
  shows "by_ctx t (cx, s) (snd (run_cmd_utility R thr t p (cx, s)))"
proof -
  have same: "by_ctx t (cx, s) (cx', s)" if "cx_txn cx' = cx_txn cx" for cx' using that assms by (simp add: by_ctx_def by_refl)
  have "by_txn t s (txn_update t (\<lambda>x. x\<lparr>txn_mode := True\<rparr>) s)" by (rule by_update [OF assms(1)]) auto
  then have mode: "by_ctx t (cx, s) (cx, txn_update t (\<lambda>x. x\<lparr>txn_mode := True\<rparr>) s)" by (simp add: by_ctx_def)
  note e = by_end_transaction [OF assms, where f = txn_commit, OF by_commit [OF assms(1)], of thr]
    by_end_transaction [OF assms, where f = "txn_abort R", OF by_abort [OF assms(1)], of thr]
  show ?thesis using same mode e assms(3)
    by (auto simp: run_cmd_utility_def prod.case_eq_if split: plan.split)
qed

lemma drop_plan:
  assumes "do_analyze db tree = Inr q" and "plan_query db q = Inr (DDLPlan T_DropTable tab names defs)"
  shows "\<exists>n. tree = DropTable n"
proof -
  have "\<exists>n. q_parse q = DropTable n"
    using assms(2) by (auto simp: plan_query_def do_planner_def andthen_eq_Inr split: tree_node.splits if_splits)
  then show ?thesis using assms(1)
    by (auto simp: do_analyze_def analyze_select_def analyze_update_def analyze_insert_def new_Query_def andthen_eq_Inr Let_def
        split: tree_node.splits if_splits)
qed

lemma by_statement:
  assumes "server_ok s" and "known s t" and "cx_txn cx = Some t" and "\<forall>n. tree \<noteq> DropTable n"
  shows "by_ctx t (cx, s) (snd (run_statement k srt R thr t t tree (cx, s)))"
proof (cases "andthen (do_analyze (sm_db s) tree) (plan_query (sm_db s))")
  case (Inl e)
  then show ?thesis using assms(1) by (simp add: run_statement_def by_ctx_def by_refl)
next
  case (Inr p)
  have nd: "\<forall>tab names defs. p \<noteq> DDLPlan T_DropTable tab names defs" using Inr assms(4) by (auto simp: andthen_eq_Inr dest: drop_plan)
  note st = locks_portal_start [OF assms(1,2), of k srt R p]
  have "by_ctx t (cx, s) (snd (seqE (beside (portal_start k srt R p t) (cx, s)) (\<lambda>po st1. portal_run k srt R thr t t po st1)))"
  proof (rule by_ctx_bind [OF by_ctx_beside])
    show "by_txn t (snd (cx, s)) (snd (portal_start k srt R p t (snd (cx, s))))" using st by (simp add: locks_for_def)
  next
    fix po st1 assume po: "beside (portal_start k srt R p t) (cx, s) = Ret po st1" and b: "by_ctx t (cx, s) st1"
    obtain s1 where s1: "st1 = (cx, s1)" "portal_start k srt R p t s = Ret po s1" using po by (auto simp: beside_def split: prod.splits)
    have ok: "server_ok s1" "known s1 t" using b in_dom assms(2) by (auto simp: s1 by_ctx_def dest: by_ok)
    have cov: "covered s1 t tab" if "root_tab (po_root po) = Some tab" for tab
      using portal_start_root [OF s1(2) that] st s1(2) by (auto simp: locks_for_def covered_def right_def)
    have "po_plan po = p" using portal_start_plan [OF s1(2)] .
    then show "by_ctx t st1 (snd (portal_run k srt R thr t t po st1))"
      using by_run_select [of st1] ok by_utility [OF ok assms(3)] by_ctx_beside [of t st1] by_run_dml [OF ok(1) cov]
        by_run_ddl [OF ok(1) nd] by (auto simp: portal_run_def s1 by_ctx_def by_refl split: portal_tag.split)
  qed
  with Inr show ?thesis by (simp add: run_statement_def)
qed

lemma by_handle_error:
  assumes "server_ok s" and "cx_txn cx = Some t"
  shows "by_ctx t (cx, s) (snd (handle_error lib R e (cx, s)))"
proof -
  have same: "by_ctx t (cx, s) (cx', s)" if "cx_txn cx' = cx_txn cx" for cx' using that assms by (simp add: by_ctx_def by_refl)
  have "by_ctx t (cx, s) (snd (beside (txn_abort R (Some t) True) (cx\<lparr>cx_out := out\<rparr>, s)))" for out
    using by_abort [OF assms(1)] by (simp add: by_ctx_def)
  then have "by_ctx t (cx, s) (snd (seqE (beside (txn_abort R (Some t) True) (cx\<lparr>cx_out := out\<rparr>, s)) (\<lambda>_ (cx1, s1). Ret () (to_file msg cx1, s1))))" for out msg
    by (rule by_ctx_bind) (auto simp: by_ctx_def intro!: by_refl dest: by_ok)
  with assms(2) have "by_ctx t (cx, s) (snd (handle_error lib R (TransactionAbort a b) (cx, s)))" for a b
    by (simp add: handle_error_def)
  then show ?thesis by (cases e) (auto simp: handle_error_def split: option.split intro!: same)
qed

lemma by_ctx_trans: "by_ctx t st st1 \<Longrightarrow> by_ctx t st1 st2 \<Longrightarrow> by_ctx t st st2"
  by (auto simp: by_ctx_def intro: by_trans)

lemma by_serve:
  assumes "server_ok s" and "known s t" and "cx_txn cx = Some t" and "\<forall>n. parsed \<noteq> Parsed (Some (DropTable n))"
  shows "by_ctx t (cx, s) (snd (serve k srt lib R thr t parsed (cx, s)))"
proof (cases "\<exists>tree. parsed = Parsed (Some tree)")
  case True
  then obtain tree where p: "parsed = Parsed (Some tree)" by blast
  let ?r = "run_statement k srt R thr t t tree (cx, s)"
  have b: "by_ctx t (cx, s) (snd ?r)" by (rule by_statement) (use assms p in auto)
  obtain y cx1 s1 where r: "?r = (y, (cx1, s1))" by (metis surj_pair)
  with b assms(3) have "server_ok s1" "cx_txn cx1 = Some t" by (auto simp: by_ctx_def dest: by_ok)
  note e = by_handle_error [OF this, of lib R]
  show ?thesis using b r p assms(3) by_ctx_trans [OF b, of "snd (handle_error lib R (projl y) (cx1, s1))"] e
    by (cases y) (auto simp: serve_def)
qed (use assms in \<open>auto simp: serve_def by_ctx_def by_refl parse_failure_def split: parse_result.split option.split\<close>)

lemma by_auto_commit: "server_ok s \<Longrightarrow> cx_txn cx = Some t \<Longrightarrow> by_ctx t (cx, s) (snd (auto_commit (cx, s)))"
  by (auto simp: auto_commit_def by_ctx_def by_refl by_commit split: option.split)

section \<open>Requests\<close>

text \<open>A new transaction gets a number nobody has; there are numbers for \<open>2 ^ 31\<close> transactions.\<close>

lemma new_transaction_ok:
  assumes "server_ok s" and "0 \<le> next_txn_id s" and "next_txn_id s + 1 < 2 ^ 31"
  defines "n \<equiv> next_txn_id s"
  shows "server_ok (s\<lparr>next_txn_id := n + 1, next_timestamp := ts, txn_map := (txn_map s)(n \<mapsto> (Transaction thr n)\<lparr>start_ts := b, txn_state := GROWING\<rparr>)\<rparr>)"
    (is "server_ok ?s")
proof -
  have ok: "Lock_Manager_Props.sys_ok (lock_view s)" using assms(1) by (simp add: server_ok_def)
  have new: "txn_map s n = None" using assms(1) by (force simp: server_ok_def n_def)
  have free: "held_mode (sy_locks s) n l = None" for l using ok new by (simp add: Lock_Manager_Props.sys_ok_def)
  have "Lock_Manager_Props.sys_ok (lock_view ?s)"
    using ok free by (auto simp: Lock_Manager_Props.sys_ok_def txn_ok_def Transaction_def intents_ok_def)
  moreover have "holds P ?s u tab = holds P s u tab" for P u tab by (simp add: holds_def fd_of_def)
  moreover have "active ?s u = (u = n \<or> active s u)" "changes ?s u = (if u = n then [] else changes s u)" for u
    by (auto simp: active_def changes_def Transaction_def)
  moreover have "0 \<le> u \<and> u < n + 1" if "txn_map ?s u = Some x" for u x
    using that assms(1,2) by (fastforce simp: server_ok_def n_def split: if_splits)
  ultimately show ?thesis using assms(1) by (auto simp: server_ok_def)
qed

lemma begin_ok:
  assumes "server_ok s" and "0 \<le> next_txn_id s" and "next_txn_id s + 1 < 2 ^ 31" and "txn_begin thr None True s = Ret t s'"
  shows "t = next_txn_id s" and "server_ok s'" and "known s' t" and "next_txn_id s' = next_txn_id s + 1" and "fd_of s \<subseteq>\<^sub>m fd_of s'"
proof -
  let ?n = "next_txn_id s"
  let ?s = "s\<lparr>next_txn_id := ?n + 1, next_timestamp := wrap32 (next_timestamp s + 1),
    txn_map := (txn_map s)(?n \<mapsto> (Transaction thr ?n)\<lparr>start_ts := next_timestamp s, txn_state := GROWING\<rparr>)\<rparr>"
  have w: "wrap32 (?n + 1) = ?n + 1" using assms(2,3) by (intro wrap32_id) (simp add: is_i32_def)
  have "txn_begin thr None True s = seqE (log_for ?n (BeginLogRecord ?n) ?s) (\<lambda>_ s3. Ret ?n s3)"
    by (simp add: txn_begin_def Let_def w)
  then have "seqE (log_for ?n (BeginLogRecord ?n) ?s) (\<lambda>_ s3. Ret ?n s3) = Ret t s'" using assms(4) by (rule trans [OF sym])
  from this [unfolded bindE_eq_Ret] obtain u where l: "log_for ?n (BeginLogRecord ?n) ?s = Ret u s'" "t = ?n" by blast
  have b: "by_txn ?n ?s s'" using by_log_for [where s = ?s and t = ?n and r = "BeginLogRecord ?n", OF new_transaction_ok [OF assms(1-3)]] l(1) by simp
  show "t = ?n" "server_ok s'" using l(2) by_ok [OF b] by simp_all
  show "known s' t" "next_txn_id s' = ?n + 1" using b l(2) by (auto simp: by_txn_def known_def)
  have "fd_of ?s = fd_of s" by (simp add: fd_of_def fun_eq_iff)
  with b show "fd_of s \<subseteq>\<^sub>m fd_of s'" by (simp add: by_txn_def)
qed

lemma set_transaction_ok:
  assumes "server_ok s" and "0 \<le> next_txn_id s" and "next_txn_id s + 1 < 2 ^ 31" and "SetTransaction thr tid (cx, s) = Ret t (cx1, s1)"
  shows "server_ok s1 \<and> known s1 t \<and> cx_txn cx1 = Some t \<and> next_txn_id s \<le> next_txn_id s1 \<and> next_txn_id s1 \<le> next_txn_id s + 1"
proof -
  from assms(4) obtain x where x: "get_transaction thr tid s = Inr x" by (auto simp: SetTransaction_def split: sum.splits)
  have fresh: ?thesis if f: "txn_begin thr None True s = Ret t s'" "s1 = txn_update t (\<lambda>y. y\<lparr>txn_mode := False\<rparr>) s'" "cx_txn cx1 = Some t" for s'
  proof -
    note b = begin_ok [OF assms(1-3) f(1)]
    have "by_txn t s' s1" unfolding f(2) by (rule by_update [OF b(2)]) auto
    with b f(3) in_dom show ?thesis by (auto simp: by_txn_def known_def)
  qed
  show ?thesis
  proof (cases "Option.bind x (txn_map s)")
    case None
    with assms(4) x fresh show ?thesis by (auto simp: SetTransaction_def Let_def split: prod.splits sum.splits)
  next
    case (Some y)
    show ?thesis
    proof (cases "txn_state y = COMMITTED \<or> txn_state y = ABORTED")
      case True
      with assms(4) x fresh Some show ?thesis by (auto simp: SetTransaction_def Let_def split: prod.splits sum.splits)
    next
      case False
      have "x = Some tid" using x Some by (auto simp: get_transaction_def split: option.splits if_splits)
      with False assms x Some show ?thesis by (auto simp: SetTransaction_def Let_def known_def)
    qed
  qed
qed

lemma request_ok:
  assumes "server_ok s" and "0 \<le> next_txn_id s" and "next_txn_id s + 1 < 2 ^ 31" and "\<forall>n. parsed \<noteq> Parsed (Some (DropTable n))"
    and "client_request k srt lib R thr tid file parsed sent s = Ret (t, go) (cx', s')"
  shows "server_ok s' \<and> next_txn_id s \<le> next_txn_id s' \<and> next_txn_id s' \<le> next_txn_id s + 1"
proof -
  from assms(5) obtain cx1 s1 cx2 s2 where r: "SetTransaction thr tid (new_ctx file, s) = Ret t (cx1, s1)"
    "serve k srt lib R thr t parsed (cx1, s1) = Ret () (cx2, s2)"
    "(if sent then auto_commit (cx2, s2) else Ret () (cx2, s2)) = Ret () (cx', s')"
    by (auto simp: client_request_def bindE_eq_Ret split: if_splits)
  note a = set_transaction_ok [OF assms(1-3) r(1)]
  have b: "by_ctx t (cx1, s1) (cx2, s2)" using by_serve [of s1 t cx1 parsed k srt lib R thr] a assms(4) r(2) by simp
  then have c: "server_ok s2" "cx_txn cx2 = Some t" "next_txn_id s2 = next_txn_id s1" using a by (auto simp: by_ctx_def by_txn_def)
  from by_auto_commit [OF c(1,2)] r(3) by_refl [OF c(1)] have "by_txn t s2 s'" by (auto simp: by_ctx_def split: if_splits)
  with a c(3) show ?thesis by (auto simp: by_txn_def)
qed

section \<open>Runs of the server\<close>

text \<open>
  The server between requests: the transaction number each client thread keeps, the start condition of the scanner, the
  file and the system. A step is a request of some thread that has been answered, other than \<^verbatim>\<open>DROP TABLE\<close>.
\<close>

record 'r server =
  sv_tids :: "nat \<Rightarrow> int"
  sv_start :: bool
  sv_file :: string
  sv_sys :: "'r sys"

inductive server_step :: "nat \<Rightarrow> sorter \<Rightarrow> (rmdb_error \<Rightarrow> string) \<Rightarrow> 'r replacer_ops \<Rightarrow> 'r server \<Rightarrow> 'r server \<Rightarrow> bool"
  for k srt lib R where
  answered: "handle_text k srt lib R thr req sent (sv_tids v thr, sv_start v, sv_file v, sv_sys v) = Ret (go, reply) (tid, start, log_text, s) \<Longrightarrow>
    \<forall>n. fst (yyparse (sv_start v) req) \<noteq> Parsed (Some (DropTable n)) \<Longrightarrow>
    server_step k srt lib R v \<lparr>sv_tids = (sv_tids v)(thr := tid), sv_start = start, sv_file = log_text, sv_sys = s\<rparr>"

inductive_cases server_stepE: "server_step k srt lib R v v'"

lemma started_ok: "txn_map s = Map.empty \<Longrightarrow> sy_locks s = Map.empty \<Longrightarrow> server_ok s"
  by (simp add: server_ok_def active_def Lock_Manager_Props.sys_ok_def table_locks_ok_def held_mode_def)

lemma server_step_ok:
  assumes "server_step k srt lib R v v'" and "server_ok (sv_sys v)" and "0 \<le> next_txn_id (sv_sys v)" and "next_txn_id (sv_sys v) + 1 < 2 ^ 31"
  shows "server_ok (sv_sys v') \<and> next_txn_id (sv_sys v) \<le> next_txn_id (sv_sys v') \<and> next_txn_id (sv_sys v') \<le> next_txn_id (sv_sys v) + 1"
  using assms(1)
proof (rule server_stepE)
  fix thr req sent go reply tid start log_text s
  assume v': "v' = \<lparr>sv_tids = (sv_tids v)(thr := tid), sv_start = start, sv_file = log_text, sv_sys = s\<rparr>"
    and h: "handle_text k srt lib R thr req sent (sv_tids v thr, sv_start v, sv_file v, sv_sys v) = Ret (go, reply) (tid, start, log_text, s)"
    and nd: "\<forall>n. fst (yyparse (sv_start v) req) \<noteq> Parsed (Some (DropTable n))"
  obtain parsed c where y: "yyparse (sv_start v) req = (parsed, c)" by fastforce
  with h obtain cx where "client_request k srt lib R thr (sv_tids v thr) (sv_file v) parsed sent (sv_sys v) = Ret (tid, go) (cx, s)"
    by (auto simp: handle_text_def split: prod.splits sum.splits)
  from request_ok [OF assms(2-4) _ this] nd y show ?thesis by (simp add: v')
qed

lemma server_run_ok:
  assumes "(server_step k srt lib R ^^ n) v v'" and "server_ok (sv_sys v)" and "0 \<le> next_txn_id (sv_sys v)"
    and "next_txn_id (sv_sys v) + int n < 2 ^ 31"
  shows "server_ok (sv_sys v') \<and> 0 \<le> next_txn_id (sv_sys v') \<and> next_txn_id (sv_sys v') \<le> next_txn_id (sv_sys v) + int n"
  using assms(1,4)
proof (induction n arbitrary: v')
  case (Suc n)
  from Suc.prems(1) obtain v1 where v1: "(server_step k srt lib R ^^ n) v v1" "server_step k srt lib R v1 v'" by auto
  have "next_txn_id (sv_sys v) + int n < 2 ^ 31" using Suc.prems(2) by simp
  from Suc.IH [OF v1(1) this] have i: "server_ok (sv_sys v1)" "0 \<le> next_txn_id (sv_sys v1)" "next_txn_id (sv_sys v1) \<le> next_txn_id (sv_sys v) + int n" by auto
  have "next_txn_id (sv_sys v1) + 1 < 2 ^ 31" using i(3) Suc.prems(2) by simp
  from server_step_ok [OF v1(2) i(1,2) this] i show ?case by auto
qed (use assms in auto)

text \<open>Two transactions cannot both have a table while one may change it.\<close>

lemma rights_exclude:
  assumes "server_ok s" and "holds writes_all s t tab" and "holds P s u tab"
  shows "u = t"
proof (rule ccontr)
  assume "u \<noteq> t"
  from assms(2,3) obtain fd m m' where m: "held_mode (sy_locks s) t (table_id fd) = Some m" "writes_all m" "held_mode (sy_locks s) u (table_id fd) = Some m'"
    by (auto simp: holds_def)
  have "table_locks_ok (sy_locks s)" using assms(1) sys_okD(1) [of "lock_view s"] by (simp add: server_ok_def)
  from held_compatible [OF this _ m(1,3)] rights_conflict(2) [of m m'] m(2) \<open>u \<noteq> t\<close> show False by auto
qed


text \<open>Transaction 1 has changed the table and holds its lock; a client whose transaction is 2 asks for help.\<close>

definition note_insert :: write_record where
  "note_insert = \<lparr>wtype = INSERT_TUPLE, wr_tab_name = ''t'', wr_rid = Rid 1 0, wr_record = []\<rparr>"

definition busy_sys :: "lru sys" where
  "busy_sys = (tiny_sys tiny_table)\<lparr>fhs := [(''t'', 7, new_file_hdr 8)], sy_locks := ls_table locked_table,
     txn_map := [1 \<mapsto> (Transaction 0 1)\<lparr>txn_state := GROWING, lock_set := [table_id 7], txn_mode := True, write_set := [note_insert]\<rparr>,
                 2 \<mapsto> (Transaction 0 2)\<lparr>txn_state := GROWING, txn_mode := True\<rparr>], next_txn_id := 3\<rparr>"

lemma locked_txns: "ls_txns locked_table = [1 \<mapsto> (Transaction 0 1)\<lparr>txn_state := GROWING, lock_set := [table_id 7]\<rparr>, 2 \<mapsto> (Transaction 0 2)\<lparr>txn_state := GROWING\<rparr>]"
  by (auto simp: fun_eq_iff locked_table_def two_txns_def init_sys_def lock_exclusive_on_table_def
      request_lock_def Transaction_def new_queue_def grant_def Let_def)

lemma busy_sys_ok: "server_ok busy_sys"
proof -
  note ok = reachable_ok [OF locked_table_reachable]
  have "txn_ok (ls_table locked_table) 1 ((Transaction 0 1)\<lparr>txn_state := GROWING, lock_set := [table_id 7], txn_mode := True, write_set := [note_insert]\<rparr>)"
    "txn_ok (ls_table locked_table) 2 ((Transaction 0 2)\<lparr>txn_state := GROWING, txn_mode := True\<rparr>)"
    using sys_okD(2) [OF ok, of 1] sys_okD(2) [OF ok, of 2] by (simp_all add: locked_txns txn_ok_def)
  with ok have "Lock_Manager_Props.sys_ok (lock_view busy_sys)"
    by (auto simp: Lock_Manager_Props.sys_ok_def busy_sys_def locked_txns split: if_splits)
  moreover have "holds writes_all busy_sys 1 ''t''" using lock_example(4) by (auto simp: holds_def busy_sys_def fd_of_def writes_all_def)
  ultimately show ?thesis by (auto simp: server_ok_def active_def changes_def busy_sys_def note_insert_def Transaction_def split: if_splits)
qed

lemma help_parsed: "yyparse False ''help;'' = (Parsed (Some Help), False)"
  by code_simp


end
