(* ===== verification/Client.thy ===== *)
theory Client
  imports Session
begin

text \<open>
  The command line client, \<^verbatim>\<open>rmdb_client/main.cpp\<close>, once it is connected, and how it talks to the server: with
  lines that fit the buffers, what the user sees are the replies of the server to the lines typed, in order.
\<close>

section \<open>The loop of the client\<close>

definition MAX_MEM_BUFFER_SIZE :: nat where "MAX_MEM_BUFFER_SIZE = 8192"

definition is_exit_command :: "string \<Rightarrow> bool" where
  "is_exit_command cmd \<longleftrightarrow> cmd = ''exit'' \<or> cmd = ''exit;'' \<or> cmd = ''bye'' \<or> cmd = ''bye;''"

text \<open>
  The loop that prints what was received: up to a zero, and up to one byte behind the received ones. \<open>buf\<close> is what
  the receive buffer held before, \<open>behind\<close> the memory after it.
\<close>

definition shown :: "string \<Rightarrow> string \<Rightarrow> string \<Rightarrow> string" where
  "shown buf behind d = c_str (take (length d + 1) (d @ drop (length d) buf @ behind))"

record client_result =
  cl_sent :: "string list"
  cl_stdout :: string
  cl_status :: int

definition say :: "string \<Rightarrow> client_result \<Rightarrow> client_result" where
  "say txt r = r\<lparr>cl_stdout := txt @ cl_stdout r\<rparr>"

definition bye :: client_result where
  "bye = \<lparr>cl_sent = [], cl_stdout = ''Bye.'' @ nl, cl_status = 0\<rparr>"

text \<open>
  One entry for each line typed, with whether it could be sent and what \<^verbatim>\<open>recv\<close> gave; the list ends where the
  user ends the input. Error messages go to another stream.
\<close>

fun client_loop :: "string \<Rightarrow> string \<Rightarrow> (string \<times> bool \<times> received) list \<Rightarrow> client_result" where
  "client_loop behind buf [] = bye"
| "client_loop behind buf ((command, ok, r) # xs) =
     (if command = [] then client_loop behind buf xs
      else if is_exit_command command then say (''The client will be closed.'' @ nl) bye
      else if \<not> ok then \<lparr>cl_sent = [], cl_stdout = [], cl_status = 1\<rparr>
      else
        let msg = command @ [CHR 0x00] in
        (\<lambda>z. z\<lparr>cl_sent := msg # cl_sent z\<rparr>)
          (case r of
             ReadFailed \<Rightarrow> bye
           | Closed \<Rightarrow> say (''Connection has been closed'' @ nl) bye
           | Received d \<Rightarrow>
               say (shown buf behind d) (client_loop behind (replicate MAX_MEM_BUFFER_SIZE (CHR 0x00)) xs)))"

section \<open>Client and server\<close>

text \<open>A reply as the server writes it: the text and a zero.\<close>

definition reply_bytes :: "string \<Rightarrow> string" where
  "reply_bytes out = out @ [CHR 0x00]"

text \<open>Lines that reach the server as they are, and that the server takes as statements.\<close>

definition statement_line :: "string \<Rightarrow> bool" where
  "statement_line c \<longleftrightarrow> c \<noteq> [] \<and> \<not> is_exit_command c \<and> c \<noteq> ''safe_exit'' \<and> c \<noteq> ''crash'' \<and>
     CHR 0x00 \<notin> set c \<and> length c < BUFFER_LENGTH"

definition clean_reply :: "string \<Rightarrow> bool" where
  "clean_reply out \<longleftrightarrow> CHR 0x00 \<notin> set out"

lemma c_str_append: "CHR 0x00 \<notin> set xs \<Longrightarrow> c_str (xs @ CHR 0x00 # ys) = xs"
  by (induction xs) (auto simp: c_str_def)

lemma request_text_line: "statement_line c \<Longrightarrow> request_text beyond (c @ [CHR 0x00]) = c"
  by (auto simp: request_text_def statement_line_def c_str_append)

lemma shown_reply: "clean_reply out \<Longrightarrow> shown buf behind (reply_bytes out) = out"
  by (simp add: shown_def reply_bytes_def clean_reply_def c_str_append)

text \<open>The statements, one after the other, without sockets and buffers: the replies and the state of the thread.\<close>

fun answers :: "nat \<Rightarrow> sorter \<Rightarrow> (rmdb_error \<Rightarrow> string) \<Rightarrow> 'r replacer_ops \<Rightarrow> nat \<Rightarrow> string list \<Rightarrow> 'r thread_st \<Rightarrow>
  (string list, 'r thread_st) res" where
  "answers k srt lib R thr [] st = Ret [] st"
| "answers k srt lib R thr (c # cs) st =
     seqE (handle_text k srt lib R thr c True st)
       (\<lambda>(go, out) st1. seqE (answers k srt lib R thr cs st1) (\<lambda>outs st2. Ret (out # outs) st2))"

lemma handle_goes_on: "handle_text k srt lib R thr text True st = Ret (go, out) st1 \<Longrightarrow> go"
  by (auto simp: handle_text_def client_request_def bindE_def split: prod.splits sum.splits)

lemma server_answers:
  assumes "\<forall>c \<in> set cs. statement_line c" and "answers k srt lib R thr cs st = Ret outs st'"
  shows "client_handler k srt lib R thr beyond (map (\<lambda>c. (Received (c @ [CHR 0x00]), True)) cs) st = (Waiting, outs, st')"
  using assms
proof (induction cs arbitrary: st outs)
  case (Cons c cs)
  from Cons.prems(2) obtain go out st1 outs' where
    h: "handle_text k srt lib R thr c True st = Ret (go, out) st1" "answers k srt lib R thr cs st1 = Ret outs' st'" "outs = out # outs'"
    by (auto simp: bindE_def split: prod.splits sum.splits)
  with Cons.IH [OF _ h(2)] Cons.prems(1) handle_goes_on [OF h(1)] show ?case
    by (auto simp: request_text_line statement_line_def is_exit_command_def)
qed simp

lemma client_shows:
  assumes "\<forall>c \<in> set cs. statement_line c" and "\<forall>out \<in> set outs. clean_reply out" and "length outs = length cs"
  shows "client_loop behind buf (map (\<lambda>(c, out). (c, True, Received (reply_bytes out))) (zip cs outs)) =
    \<lparr>cl_sent = map (\<lambda>c. c @ [CHR 0x00]) cs, cl_stdout = concat outs @ ''Bye.'' @ nl, cl_status = 0\<rparr>"
  using assms(3,1,2)
  by (induction outs cs arbitrary: buf rule: list_induct2)
    (auto simp: bye_def say_def shown_reply statement_line_def Let_def)

lemma answers_length: "answers k srt lib R thr cs st = Ret outs st' \<Longrightarrow> length outs = length cs"
  by (induction cs arbitrary: st outs) (auto simp: bindE_def split: prod.splits sum.splits)

text \<open>
  A session of the client: when the statements typed are answered one after the other, the server gets exactly
  what was typed, ends waiting for more in the state after the last statement, and the user sees exactly the replies.
\<close>

theorem client_session:
  assumes "\<forall>c \<in> set cs. statement_line c" and "answers k srt lib R thr cs st = Ret outs st'" and "\<forall>out \<in> set outs. clean_reply out"
    and "r = client_loop behind buf (map (\<lambda>(c, out). (c, True, Received (reply_bytes out))) (zip cs outs))"
  shows "client_handler k srt lib R thr beyond (map (\<lambda>m. (Received m, True)) (cl_sent r)) st = (Waiting, outs, st') \<and>
    cl_stdout r = concat outs @ ''Bye.'' @ nl \<and> cl_status r = 0"
  unfolding assms(4) client_shows [OF assms(1,3) answers_length [OF assms(2)]]
  using server_answers [OF assms(1,2)] by (simp add: comp_def)

text \<open>
  A line that fills the buffer of the server arrives without its zero, and the server reads on behind its buffer; a full buffer of
  the client without a zero is read one byte behind its end.
\<close>

lemma long_line_overruns:
  "length c = BUFFER_LENGTH \<Longrightarrow> CHR 0x00 \<notin> set c \<Longrightarrow> beyond = CHR ''x'' # CHR 0x00 # zs \<Longrightarrow> request_text beyond c = c @ ''x''"
  using c_str_append [of "c @ ''x''" zs] by (simp add: request_text_def)

lemma full_reply_overruns:
  "length d = MAX_MEM_BUFFER_SIZE \<Longrightarrow> length buf = MAX_MEM_BUFFER_SIZE \<Longrightarrow> CHR 0x00 \<notin> set d \<Longrightarrow> shown buf [CHR ''x''] d = d @ ''x''"
  using takeWhile_append2 [of d "\<lambda>c. c \<noteq> CHR 0x00" "''x''"] by (auto simp: shown_def c_str_def)

end
