(* ===== verification/Spec2Isabelle.thy ===== *)
theory Spec2Isabelle
  imports Record_File_Table Lock_Manager_Props Metadata Log_Manager Index_Search Sm_Manager_Props Recovery_Props Statement_Props Parser_Text Server_Runs Client Tree_Printer
begin

text \<open>
  RMDB is a relational database server in C++ (\<^verbatim>\<open>src/rmdb/src\<close>). This development models its server side in HOL
  and proves the theorems that make its parts correct, from the bytes of a page up to the reply to a client.

  \<^bold>\<open>The program.\<close> A client thread (\<^verbatim>\<open>rmdb.cpp\<close>) hands the text of a request to the parser, the tree to the semantic
  analysis (\<^verbatim>\<open>analyze\<close>), the analysed query to the planner (\<^verbatim>\<open>optimizer\<close>), and the plan to the portal (\<^verbatim>\<open>portal.h\<close>),
  which takes the table locks, builds a tree of executors (\<^verbatim>\<open>execution\<close>) and runs it. Executors read and write
  table files (\<^verbatim>\<open>record\<close>) and B+ tree indexes (\<^verbatim>\<open>index\<close>), whose pages live in one buffer pool (\<^verbatim>\<open>storage\<close>,
  \<^verbatim>\<open>replacer\<close>) over the disk manager. The system manager (\<^verbatim>\<open>system\<close>) owns the catalogue and the open handles; the
  transaction manager, the lock manager (\<^verbatim>\<open>transaction\<close>) and the log manager (\<^verbatim>\<open>recovery\<close>) make statements atomic
  and isolated; recovery runs when the server starts.

  \<^bold>\<open>Modelling.\<close> A class with data is a \<^verbatim>\<open>record\<close>, an enumeration or class hierarchy a \<^verbatim>\<open>datatype\<close>, a method a
  function from the state to a result and the new state (type \<open>('a, 's) res\<close> of \<open>Rmdb_Prelude\<close>, with \<open>Ret\<close> and
  \<open>Throw\<close>): an exception keeps the changes made before it was thrown. Failed assertions, null pointers and
  endless loops are errors of their own, which no handler catches. Memory that the code reads through casts is a list
  of bytes with the layout of the x86-64 ABI (\<open>Bytes\<close>); machine integers are words, or integers with the wrap-around
  written out; \<^verbatim>\<open>float\<close> and \<^verbatim>\<open>double\<close> are exact IEEE 754 values (\<open>Floats\<close>). A virtual interface is a record of
  operations with a locale for its contract.

  \<^bold>\<open>Storage.\<close>
  \<^item> \<open>Replacer\<close>: \<^verbatim>\<open>replacer.h\<close>, \<^verbatim>\<open>lru_replacer.cpp\<close>. Locale \<open>replacer\<close> is the contract of the abstract class, interpreted
    for \<^verbatim>\<open>LRUReplacer\<close>, which refines a queue.
  \<^item> \<open>Disk\<close>: \<^verbatim>\<open>disk_manager.cpp\<close> over POSIX calls that transfer any part of the data, are interrupted or fail, as a
    script of events says. Pages written are read back; a failing write damages no other page; the table of open files
    stays consistent.
  \<^item> \<open>Buffer_Pool\<close>, \<open>Buffer_Pool_Inv\<close>, \<open>Buffer_Pool_Store\<close>: \<^verbatim>\<open>buffer_pool_manager.cpp\<close>. The invariant holds after
    every call, failing transfers included; disciplined clients cannot tell the pool from a store that holds all pages.
    Proved in locale \<open>replacer\<close>, so for every policy that meets the contract.
  \<^item> \<open>Record_Page\<close>, \<open>Record_File\<close>: \<^verbatim>\<open>bitmap.h\<close>, \<^verbatim>\<open>rm_file_handle.cpp\<close>, \<^verbatim>\<open>rm_scan.cpp\<close>, \<^verbatim>\<open>rm_manager.h\<close>. \<open>Record_File_Pages\<close>,
    \<open>Record_File_Spec\<close>, \<open>Record_File_Scan\<close>, \<open>Record_File_Table\<close>: a table file is a finite map from record numbers to
    records, a scan enumerates it, the chain of free pages can be rebuilt, the layout fits the page.
  \<^item> \<open>Index_Node\<close>, \<open>Index_Node_Props\<close>: \<^verbatim>\<open>ix_defs.h\<close> and the node operations of \<^verbatim>\<open>ix_index_handle.cpp\<close>. Locale \<open>key_order\<close>
    is what search needs of a comparison; it is interpreted for columns, composite keys and nodes. A node is a sorted map.
    \<open>Index_Tree\<close>, \<open>Index_Search\<close>: the tree, its scans and manager; looking up a key in a tree of any height.

  \<^bold>\<open>Catalogue and values.\<close>
  \<^item> \<open>Values\<close>: \<^verbatim>\<open>defs.h\<close>, \<^verbatim>\<open>common.h\<close>: types, literals and their coercion, dates.
  \<^item> \<open>Metadata\<close>: \<^verbatim>\<open>sm_meta.h\<close>: the catalogue and its text format, which reads back.
  \<^item> \<open>Sm_Manager\<close>, \<open>Sm_Manager_Props\<close>: \<^verbatim>\<open>sm_manager.cpp\<close>: statements that define data; the copy in the meta file is the
    catalogue in memory whenever a statement succeeds.

  \<^bold>\<open>Transactions.\<close>
  \<^item> \<open>Lock_Manager\<close>, \<open>Lock_Manager_Props\<close>: \<^verbatim>\<open>lock_manager.cpp\<close>. Interleavings are sequences of lock calls; the reachable
    states are free of conflicting locks, two-phase and isolated across both granularities; a refused request is granted
    once the transactions in its way have ended.
  \<^item> \<open>Log_Records\<close>, \<open>Log_Manager\<close>, \<open>Log_Frame\<close>: \<^verbatim>\<open>log_manager.cpp\<close> and the analysis pass: bytes of log records, the log is
    written through, analysis recovers what is before a torn tail and always ends.
  \<^item> \<open>Transactions\<close>: \<^verbatim>\<open>transaction_manager.cpp\<close>. \<open>Database\<close>: open tables as maps that do not disturb each other. \<open>Atomicity\<close>,
    \<open>Atomicity_Dml\<close>: abort restores the tables; \<^verbatim>\<open>DELETE\<close> and \<^verbatim>\<open>UPDATE\<close> change exactly the records they should.
  \<^item> \<open>Recovery\<close>, \<open>Recovery_Cells\<close>, \<open>Recovery_Props\<close>: \<^verbatim>\<open>log_recovery.cpp\<close>. Whatever part of the logged changes had reached
    the disk, redo and undo leave what the committed transactions wrote.

  \<^bold>\<open>Statements.\<close>
  \<^item> \<open>Scanner\<close>: \<^verbatim>\<open>lex.l\<close>, rule by rule, with the conversions of literals and the start condition for comments, which one
    request leaves to the next. \<open>Parser\<close>: \<^verbatim>\<open>yacc.y\<close>, its productions with their actions as predicates (\<open>g_\<dots>\<close>) and a
    parser with one token of lookahead (\<open>p_\<dots>\<close>).
  \<^item> \<open>Parser_Props\<close>: locale \<open>parses\<close> relates a parser to the productions of a symbol and is interpreted for every symbol
    of the grammar; accepted texts are the sentences of the grammar. \<open>Parser_Text\<close>: a printer for syntax trees, whose
    texts scan and parse to the tree again.

  \<^bold>\<open>Queries.\<close>
  \<^item> \<open>Executors\<close>, \<open>Executor_Tree\<close>, \<open>Dml\<close>: the executors. \<open>Executor_Props\<close> has their contract as locale \<open>cursor\<close> and, for
    joins, \<open>join_children\<close>; \<open>Query_Results\<close>, \<open>Query_Trees\<close> and \<open>Query_Props\<close> interpret them for scans on the LRU pool
    and show what whole trees return.
  \<^item> \<open>Analyzer\<close>: \<^verbatim>\<open>ast.h\<close>, \<^verbatim>\<open>analyze.cpp\<close>; accepted statements are well typed. \<open>Planner\<close>, \<open>Planner_Props\<close>: \<^verbatim>\<open>planner.cpp\<close>; the
    join tree has every table and every condition once.
  \<^item> \<open>Output\<close>, \<open>Output_Props\<close>: \<^verbatim>\<open>record_printer.h\<close>, the query loop of \<^verbatim>\<open>execution_manager.cpp\<close> and the messages of the
    exceptions. \<open>Portal\<close>: \<^verbatim>\<open>portal.h\<close>.
  \<^item> \<open>Session\<close>: \<^verbatim>\<open>rmdb.cpp\<close>: the start of the server with recovery, the loop of a client thread, a request from the bytes
    received to the reply and the end of its transaction, and the handler of \<^verbatim>\<open>SIGINT\<close>. \<open>Session_Props\<close>: a
    \<^verbatim>\<open>SELECT\<close> from its text to the reply. \<open>Statement_Props\<close>: requests that the analysis or the planner refuses are answered with a
    message and change nothing.
  \<^item> \<open>System_Frame\<close>, \<open>Server_Locks\<close>, \<open>Server_Runs\<close>: the requests of all clients in any order, as a step relation. What each
    operation leaves alone; every statement takes the locks of the tables it touches, and tables stay locked while a
    transaction that has changed them is active; so no two active transactions change the same table, and
    changes are not read before their transaction has ended.

  \<^bold>\<open>Around the server.\<close> \<open>Client\<close>: the loop of the command line client (\<^verbatim>\<open>rmdb_client/main.cpp\<close>) and its conversation
  with the server. \<open>Tree_Printer\<close>: \<^verbatim>\<open>ast_printer.h\<close>, which the test driver of the parser uses.

  \<^bold>\<open>Bounds and fuel.\<close> Loops over lists and bitmaps are structural recursions. Loops that end when data says so take a
  number of steps and throw \<open>NonTermination\<close> when it is used up: the analysis of the log takes the size of the file plus
  one, which is proved enough for every file; walks through an index take the number of its pages; loops over a child
  executor take a parameter \<open>k\<close>, and the theorems on queries hold for every \<open>k\<close> above a bound computed from the
  number of tuples, so that they state the result and not only what holds if there is one.

  \<^bold>\<open>Parameters.\<close> \<^verbatim>\<open>std::sort\<close> is an argument with the contract of the standard (a permutation, sorted for a strict weak
  order). The texts of \<^verbatim>\<open>strerror\<close> and of library exceptions are arguments. The outcomes of system calls on files are a
  script in the state of the disk. Of a socket, the model takes what each read gave and whether the reply could be
  written; the bytes of the receive buffer beyond a request without a terminating zero are an argument as well.

  \<^bold>\<open>Not modelled.\<close> The tables that flex and bison generate from \<^verbatim>\<open>lex.l\<close> and \<^verbatim>\<open>yacc.y\<close> (\<^verbatim>\<open>lex.yy.cpp\<close>, \<^verbatim>\<open>yacc.tab.cpp\<close>: the
  sources they are generated from are modelled instead) and the source positions they keep for a trace on the console;
  the creation of sockets and threads; traces on the console; and latches: each operation of a
  component that holds a latch is one step, and so is a request of a client in a run of the server.
  \<^verbatim>\<open>parse_node.h\<close> is not used; options and connection of the command line client are calls of the operating system;
  tests and the vendored test framework are not part of the system.
\<close>

end
